(* ===== verification/Prelude.thy ===== *)
theory Prelude
  imports Main "HOL-Library.Word"
begin

text \<open>
  What the component theories share: the error type of the crate \<open>concerto-error\<close>, the
  result type its functions return, the pieces of the Rust standard library that several
  components use (debug quoting, ASCII case folding, saturating arithmetic, the sliding
  update of a bounded queue), and the interfaces stated as locales.

  Each locale is the contract between a provider and its clients. The provider's theory
  interprets it on the model of the code; the clients' properties rest on the facts of the
  interpretation.
  \<^item> \<open>event_machine\<close>: a state that only its operations change, with an invariant each of them keeps;
  \<^item> \<open>guarded_machine\<close>: the same, where only the operations with a given property keep the invariant;
  \<^item> \<open>bounded_log\<close>: an append operation that drops the oldest entries beyond a capacity;
  \<^item> \<open>claim_once\<close>: a store whose removal hands a key out at most once.
\<close>

named_theorems preserves \<open>an operation keeps the invariant of its component\<close>

section \<open>Errors and results\<close>

text \<open>
  \<open>concerto_error::Error\<close>. The payloads of the boxed foreign errors (I/O, SQL, gRPC) are
  reduced to a message; the message of a validation or policy error carries the wire
  code the clients switch on as its prefix, as in the source.
\<close>

datatype error =
    Io string
  | Sqlx string
  | Tonic string
  | Pairing string
  | Secrets string
  | Git string
  | Validation string
  | NotFound string
  | Policy string
  | PolicyLocked string
  | Vcs string
  | VcsNotAuthenticated string
  | DatabaseCorrupt string
  | SchemaDowngrade string
  | Internal string

type_synonym 'a result = "error + 'a"

fun wire_code :: "error \<Rightarrow> string" where
  "wire_code (Io _) = ''io''"
| "wire_code (Sqlx _) = ''sqlx''"
| "wire_code (Tonic _) = ''tonic''"
| "wire_code (Pairing _) = ''pairing''"
| "wire_code (Secrets _) = ''secrets''"
| "wire_code (Git _) = ''git''"
| "wire_code (Validation _) = ''validation''"
| "wire_code (NotFound _) = ''not_found''"
| "wire_code (Policy _) = ''policy''"
| "wire_code (PolicyLocked _) = ''policy.locked''"
| "wire_code (Vcs _) = ''vcs''"
| "wire_code (VcsNotAuthenticated _) = ''vcs.not_authenticated''"
| "wire_code (DatabaseCorrupt _) = ''database.corrupt''"
| "wire_code (SchemaDowngrade _) = ''schema.downgrade''"
| "wire_code (Internal _) = ''internal''"

text \<open>The \<open>Display\<close> form of an error.\<close>

fun error_display :: "error \<Rightarrow> string" where
  "error_display (Io m) = ''io: '' @ m"
| "error_display (Sqlx m) = ''sqlx: '' @ m"
| "error_display (Tonic m) = ''tonic: '' @ m"
| "error_display (Pairing m) = ''pairing: '' @ m"
| "error_display (Secrets m) = ''secrets: '' @ m"
| "error_display (Git m) = ''git: '' @ m"
| "error_display (Validation m) = ''validation: '' @ m"
| "error_display (NotFound m) = ''not_found: '' @ m"
| "error_display (Policy m) = ''policy: '' @ m"
| "error_display (PolicyLocked m) = ''policy.locked: '' @ m"
| "error_display (Vcs m) = ''vcs: '' @ m"
| "error_display (VcsNotAuthenticated m) = ''vcs.not_authenticated: '' @ m"
| "error_display (DatabaseCorrupt m) = ''database.corrupt: '' @ m"
| "error_display (SchemaDowngrade m) = ''schema.downgrade: '' @ m"
| "error_display (Internal m) = ''internal: '' @ m"

text \<open>The \<open>?\<close> operator: stop at an error, go on with the value.\<close>

fun and_then :: "'a result \<Rightarrow> ('a \<Rightarrow> 'b result) \<Rightarrow> 'b result" where
  "and_then (Inl e) f = Inl e"
| "and_then (Inr a) f = f a"

lemma and_then_Inr_iff: "and_then r f = Inr b \<longleftrightarrow> (\<exists>a. r = Inr a \<and> f a = Inr b)"
  by (cases r) auto

lemma and_then_Inl_iff:
  "and_then r f = Inl e \<longleftrightarrow> r = Inl e \<or> (\<exists>a. r = Inr a \<and> f a = Inl e)"
  by (cases r) auto

lemma and_then_cong [fundef_cong]:
  "r = r' \<Longrightarrow> (\<And>a. r' = Inr a \<Longrightarrow> f a = f' a) \<Longrightarrow> and_then r f = and_then r' f'"
  by (cases r') auto

fun is_ok :: "'a result \<Rightarrow> bool" where
  "is_ok (Inl _) = False"
| "is_ok (Inr _) = True"

fun unwrap_or :: "'a \<Rightarrow> 'a result \<Rightarrow> 'a" where
  "unwrap_or d (Inl _) = d"
| "unwrap_or d (Inr a) = a"

fun ok_or :: "error \<Rightarrow> 'a option \<Rightarrow> 'a result" where
  "ok_or e None = Inl e"
| "ok_or e (Some a) = Inr a"

lemma ok_or_Inr_iff: "ok_or e x = Inr a \<longleftrightarrow> x = Some a"
  by (cases x) auto

section \<open>Strings\<close>

text \<open>
  A Rust \<open>str\<close> is a list of bytes here. \<open>debug_str\<close> is the \<open>{:?}\<close> form of a string:
  quoted, with the escapes of the ASCII control characters the code can meet.
\<close>

definition debug_char :: "char \<Rightarrow> string" where
  "debug_char c =
     (if c = CHR 0x22 then [CHR 0x5C, CHR 0x22]
      else if c = CHR 0x5C then [CHR 0x5C, CHR 0x5C]
      else if c = CHR 0x0A then [CHR 0x5C, CHR ''n'']
      else if c = CHR 0x0D then [CHR 0x5C, CHR ''r'']
      else if c = CHR 0x09 then [CHR 0x5C, CHR ''t'']
      else [c])"

definition debug_str :: "string \<Rightarrow> string" where
  "debug_str s = [CHR 0x22] @ concat (map debug_char s) @ [CHR 0x22]"

definition starts_with_str :: "string \<Rightarrow> string \<Rightarrow> bool" where
  "starts_with_str s p \<longleftrightarrow> take (length p) s = p"

lemma starts_with_str_append [simp]: "starts_with_str (p @ s) p"
  by (simp add: starts_with_str_def)

definition ends_with_str :: "string \<Rightarrow> string \<Rightarrow> bool" where
  "ends_with_str s p \<longleftrightarrow> starts_with_str (rev s) (rev p)"

lemma ends_with_str_iff: "ends_with_str s p \<longleftrightarrow> (\<exists>q. s = q @ p)"
proof
  assume "ends_with_str s p"
  then have t: "take (length p) (rev s) = rev p"
    by (simp add: ends_with_str_def starts_with_str_def)
  have "s = rev (take (length p) (rev s) @ drop (length p) (rev s))" by simp
  then have "s = rev (drop (length p) (rev s)) @ p" using t by (simp only: rev_append rev_rev_ident)
  then show "\<exists>q. s = q @ p" by blast
next
  assume "\<exists>q. s = q @ p"
  then show "ends_with_str s p" by (auto simp: ends_with_str_def starts_with_str_def)
qed

definition strip_prefix :: "string \<Rightarrow> string \<Rightarrow> string option" where
  "strip_prefix s p = (if starts_with_str s p then Some (drop (length p) s) else None)"

lemma strip_prefix_append [simp]: "strip_prefix (p @ s) p = Some s"
  by (simp add: strip_prefix_def)

lemma strip_prefix_Some_iff: "strip_prefix s p = Some r \<longleftrightarrow> s = p @ r"
  by (auto simp: strip_prefix_def starts_with_str_def split: if_splits)
    (metis append_take_drop_id)

lemma starts_with_str_iff: "starts_with_str s p \<longleftrightarrow> (\<exists>r. s = p @ r)"
  by (auto simp: starts_with_str_def) (metis append_take_drop_id)

fun contains_str :: "string \<Rightarrow> string \<Rightarrow> bool" where
  "contains_str [] needle \<longleftrightarrow> needle = []"
| "contains_str (c # cs) needle \<longleftrightarrow> starts_with_str (c # cs) needle \<or> contains_str cs needle"

definition ascii_lower :: "char \<Rightarrow> char" where
  "ascii_lower c = (if (65 :: nat) \<le> of_char c \<and> of_char c \<le> (90 :: nat) then char_of (of_char c + (32 :: nat)) else c)"

definition to_ascii_lowercase :: "string \<Rightarrow> string" where
  "to_ascii_lowercase s = map ascii_lower s"

text \<open>Decimal printing, and the parser of a run of decimal digits.\<close>

definition digit_char :: "nat \<Rightarrow> char" where
  "digit_char d = char_of (48 + d)"

fun show_nat :: "nat \<Rightarrow> string" where
  "show_nat n = (if n < 10 then [digit_char n] else show_nat (n div 10) @ [digit_char (n mod 10)])"

declare show_nat.simps [simp del]

definition show_int :: "int \<Rightarrow> string" where
  "show_int i = (if i < 0 then ''-'' @ show_nat (nat (- i)) else show_nat (nat i))"

definition is_digit :: "char \<Rightarrow> bool" where
  "is_digit c \<longleftrightarrow> (48 :: nat) \<le> of_char c \<and> of_char c \<le> (57 :: nat)"

definition digit_val :: "char \<Rightarrow> nat" where
  "digit_val c = of_char c - 48"

definition parse_nat :: "string \<Rightarrow> nat option" where
  "parse_nat s = (if s \<noteq> [] \<and> list_all is_digit s
     then Some (foldl (\<lambda>n c. 10 * n + digit_val c) 0 s) else None)"

lemma is_digit_digit_char [simp]: "d < 10 \<Longrightarrow> is_digit (digit_char d)"
  by (simp add: is_digit_def digit_char_def)

lemma digit_val_digit_char [simp]: "d < 10 \<Longrightarrow> digit_val (digit_char d) = d"
  by (simp add: digit_val_def digit_char_def)

lemma show_nat_nonempty: "show_nat n \<noteq> []"
  by (subst show_nat.simps) simp

lemma show_nat_digits: "list_all is_digit (show_nat n)"
proof (induction n rule: show_nat.induct)
  case (1 n)
  then show ?case by (subst show_nat.simps) simp
qed

lemma foldl_show_nat: "foldl (\<lambda>n c. 10 * n + digit_val c) 0 (show_nat n) = n"
proof (induction n rule: show_nat.induct)
  case (1 n)
  show ?case
  proof (cases "n < 10")
    case True
    then show ?thesis by (subst show_nat.simps) simp
  next
    case False
    with "1.IH" show ?thesis by (subst show_nat.simps) simp
  qed
qed

lemma parse_show_nat [simp]: "parse_nat (show_nat n) = Some n"
  by (simp add: parse_nat_def show_nat_nonempty show_nat_digits foldl_show_nat)

definition is_space :: "char \<Rightarrow> bool" where
  "is_space c \<longleftrightarrow> of_char c = (32 :: nat) \<or> ((9 :: nat) \<le> of_char c \<and> of_char c \<le> (13 :: nat))"

definition trim :: "string \<Rightarrow> string" where
  "trim s = rev (dropWhile is_space (rev (dropWhile is_space s)))"

section \<open>Saturating machine arithmetic\<close>

definition i64_min :: int where "i64_min = - 9223372036854775808"
definition i64_max :: int where "i64_max = 9223372036854775807"
definition u32_max :: nat where "u32_max = 4294967295"
definition u64_max :: nat where "u64_max = 18446744073709551615"

definition sat_i64 :: "int \<Rightarrow> int" where
  "sat_i64 x = max i64_min (min i64_max x)"

lemma sat_i64_range: "i64_min \<le> sat_i64 x \<and> sat_i64 x \<le> i64_max"
  by (simp add: sat_i64_def i64_min_def i64_max_def)

lemma sat_i64_id: "i64_min \<le> x \<Longrightarrow> x \<le> i64_max \<Longrightarrow> sat_i64 x = x"
  by (simp add: sat_i64_def)

lemma sat_i64_mono: "x \<le> y \<Longrightarrow> sat_i64 x \<le> sat_i64 y"
  by (simp add: sat_i64_def)

section \<open>Bounded queues\<close>

lemma insort_key_two:
  fixes f :: "'a \<Rightarrow> 'k::linorder" and g :: "'a \<Rightarrow> 'l::linorder"
  assumes "sorted_wrt (\<lambda>x y. f x < f y \<or> f x = f y \<and> g x \<le> g y) xs" and "\<forall>y\<in>set xs. g x \<le> g y"
  shows "sorted_wrt (\<lambda>x y. f x < f y \<or> f x = f y \<and> g x \<le> g y) (insort_key f x xs)"
  using assms by (induction xs) (auto simp: set_insort_key)

lemma sort_key_two:
  fixes f :: "'a \<Rightarrow> 'k::linorder" and g :: "'a \<Rightarrow> 'l::linorder"
  shows "sorted_wrt (\<lambda>x y. f x < f y \<or> f x = f y \<and> g x \<le> g y) (sort_key f (sort_key g xs))"
proof -
  have "sorted_wrt (\<lambda>x y. f x < f y \<or> f x = f y \<and> g x \<le> g y) (sort_key f ys)" if "sorted (map g ys)" for ys
    using that by (induction ys) (auto simp: sort_key_def intro!: insort_key_two simp del: insort_key.simps, auto simp: sort_key_def [symmetric])
  then show ?thesis by (simp add: sorted_sort_key)
qed

text \<open>The last \<open>n\<close> elements: what a queue that drops its oldest entries retains.\<close>

definition take_last :: "nat \<Rightarrow> 'a list \<Rightarrow> 'a list" where
  "take_last n xs = drop (length xs - n) xs"

lemma length_take_last [simp]: "length (take_last n xs) = min n (length xs)"
  by (simp add: take_last_def)

lemma take_last_all: "length xs \<le> n \<Longrightarrow> take_last n xs = xs"
  by (simp add: take_last_def)

lemma set_take_last: "set (take_last n xs) \<subseteq> set xs"
  by (simp add: take_last_def set_drop_subset)

lemma take_last_snoc: "0 < n \<Longrightarrow> take_last n (take_last n xs @ [x]) = take_last n (xs @ [x])"
  by (cases "length xs < n") (auto simp: take_last_def Suc_diff_le not_less)

lemma take_last_append: "take_last n (take_last n xs @ ys) = take_last n (xs @ ys)"
  by (cases "length xs \<le> n") (auto simp: take_last_def not_le add.commute)

lemma take_last_suffix: "\<exists>p. xs = p @ take_last n xs"
  by (metis append_take_drop_id take_last_def)

section \<open>Interfaces\<close>

subsection \<open>A component's state and its invariant\<close>

locale event_machine =
  fixes step :: "'s \<Rightarrow> 'e \<Rightarrow> 's"
    and inv :: "'s \<Rightarrow> bool"
  assumes step_inv: "inv s \<Longrightarrow> inv (step s e)"
begin

lemma run_inv: "inv s \<Longrightarrow> inv (fold (\<lambda>e t. step t e) es s)"
  by (induction es arbitrary: s) (auto intro: step_inv)

lemma run_prefix_inv:
  assumes "inv s" and "es = xs @ ys"
  shows "inv (fold (\<lambda>e t. step t e) xs s)"
  using assms(1) by (rule run_inv)

end

text \<open>The same for a state whose invariant only the operations with a property keep.\<close>

locale guarded_machine =
  fixes step :: "'s \<Rightarrow> 'e \<Rightarrow> 's"
    and inv :: "'s \<Rightarrow> bool"
    and ok :: "'e \<Rightarrow> bool"
  assumes guarded_step_inv: "ok e \<Longrightarrow> inv s \<Longrightarrow> inv (step s e)"
begin

lemma guarded_run_inv: "list_all ok es \<Longrightarrow> inv s \<Longrightarrow> inv (fold (\<lambda>e t. step t e) es s)"
  by (induction es arbitrary: s) (auto intro: guarded_step_inv)

end

sublocale event_machine \<subseteq> guarded_machine step inv "\<lambda>_. True"
  by unfold_locales (simp add: step_inv)

subsection \<open>A log that keeps its newest entries\<close>

locale bounded_log =
  fixes push :: "'q \<Rightarrow> 'a \<Rightarrow> 'q"
    and contents :: "'q \<Rightarrow> 'a list"
    and cap :: nat
  assumes cap_pos: "0 < cap"
    and push_contents: "length (contents q) \<le> cap \<Longrightarrow>
      contents (push q x) = take_last cap (contents q @ [x])"
begin

lemma push_length: "length (contents q) \<le> cap \<Longrightarrow> length (contents (push q x)) \<le> cap"
  by (simp add: push_contents)

lemma pushes_contents:
  "length (contents q) \<le> cap \<Longrightarrow>
     contents (fold (\<lambda>x t. push t x) xs q) = take_last cap (contents q @ xs)"
proof (induction xs arbitrary: q)
  case Nil
  then show ?case by (simp add: take_last_all)
next
  case (Cons x xs)
  have le: "length (contents (push q x)) \<le> cap"
    using Cons.prems by (rule push_length)
  show ?case
    using Cons.IH [OF le] take_last_append [of cap "contents q @ [x]" xs]
    by (simp add: push_contents [OF Cons.prems])
qed

lemma pushes_length:
  "length (contents q) \<le> cap \<Longrightarrow> length (contents (fold (\<lambda>x t. push t x) xs q)) \<le> cap"
  by (simp add: pushes_contents)

end

subsection \<open>A store that hands a key out at most once\<close>

locale claim_once =
  fixes claim :: "'k \<Rightarrow> 's \<Rightarrow> 'v option \<times> 's"
    and holds :: "'s \<Rightarrow> 'k \<Rightarrow> bool"
  assumes claim_Some: "fst (claim k s) \<noteq> None \<longleftrightarrow> holds s k"
    and claim_gone: "\<not> holds (snd (claim k s)) k"
    and claim_other: "k' \<noteq> k \<Longrightarrow> holds (snd (claim k s)) k' = holds s k'"
begin

lemma claim_twice: "fst (claim k (snd (claim k s))) = None"
  using claim_Some claim_gone by blast

lemma claim_never_adds: "holds (snd (claim k s)) k' \<Longrightarrow> holds s k'"
  using claim_gone claim_other by metis

lemma claims_stay_gone:
  "\<not> holds s k \<Longrightarrow> fst (claim k (fold (\<lambda>j t. snd (claim j t)) ks s)) = None"
proof (induction ks arbitrary: s)
  case Nil
  then show ?case using claim_Some [of k s] by simp
next
  case (Cons j js)
  have "\<not> holds (snd (claim j s)) k"
    using Cons.prems claim_never_adds by blast
  then show ?case using Cons.IH by simp
qed

end

end
