(* ===== verification/Json.thy ===== *)
theory Json
  imports Prelude
begin

text \<open>
  \<open>serde_json::Value\<close> and the accessors the code uses on it. Parsing text into a value is
  the third-party crate's work: every operation that parses takes the parser as its
  argument \<open>from_str\<close> (\<open>None\<close> for malformed text). Objects list their keys without
  repetition, as the parser's map does; numbers keep the integers (the range of \<open>i64\<close> and
  \<open>u64\<close>) and the text of a float.
\<close>

datatype json =
    JNull
  | JBool bool
  | JInt int
  | JFloat string
  | JString string
  | JArray "json list"
  | JObject "(string \<times> json) list"

fun as_object :: "json \<Rightarrow> (string \<times> json) list option" where
  "as_object (JObject m) = Some m"
| "as_object _ = None"

fun as_array :: "json \<Rightarrow> json list option" where
  "as_array (JArray a) = Some a"
| "as_array _ = None"

fun as_str :: "json \<Rightarrow> string option" where
  "as_str (JString s) = Some s"
| "as_str _ = None"

fun as_bool :: "json \<Rightarrow> bool option" where
  "as_bool (JBool b) = Some b"
| "as_bool _ = None"

fun as_i64 :: "json \<Rightarrow> int option" where
  "as_i64 (JInt n) = (if i64_min \<le> n \<and> n \<le> i64_max then Some n else None)"
| "as_i64 _ = None"

definition as_u64 :: "int \<Rightarrow> nat option" where
  "as_u64 n = (if 0 \<le> n \<and> n \<le> int u64_max then Some (nat n) else None)"

text \<open>\<open>Value::get\<close> with a string index: a key of an object, nothing on any other value.\<close>

fun json_get :: "json \<Rightarrow> string \<Rightarrow> json option" where
  "json_get (JObject m) k = map_of m k"
| "json_get _ k = None"

lemma json_get_None_unless_object: "json_get v k = Some w \<Longrightarrow> \<exists>m. v = JObject m \<and> map_of m k = Some w"
  by (cases v) auto

end
