(* ===== verification/Tables.thy ===== *)
theory Tables
  imports Json
begin

text \<open>
  The rows of the SQLite tables the components read and write (\<open>crates/persist/src\<close>), cut to
  the columns the modelled code uses, and the queries of \<open>sessions.rs\<close>, \<open>workareas.rs\<close>,
  \<open>workspaces.rs\<close> and \<open>repositories.rs\<close> over them. A table is the list of its rows with their
  primary keys; an \<open>UPDATE \<dots> WHERE id = ?\<close> rewrites the matching rows. The database itself
  is taken to answer; an operation whose code branches on a failed statement takes the
  outcome as an argument.
\<close>

type_synonym 'r table = "(string \<times> 'r) list"

definition sql_update :: "string \<Rightarrow> ('r \<Rightarrow> 'r) \<Rightarrow> 'r table \<Rightarrow> 'r table" where
  "sql_update k f t = map (\<lambda>(j, r). if j = k then (j, f r) else (j, r)) t"

lemma map_of_sql_update: "map_of (sql_update k f t) j = (if j = k then map_option f (map_of t k) else map_of t j)"
  by (induction t) (auto simp: sql_update_def)

lemma keys_sql_update [simp]: "map fst (sql_update k f t) = map fst t"
  by (induction t) (auto simp: sql_update_def)

record session_row =
  s_workarea_id :: string
  s_status :: string
  s_permission_mode :: "string option"
  s_bypass :: int
  s_ended_at :: "int option"
  s_last_acked_seq :: int

record workarea_row =
  wa_workspace_id :: string
  wa_worktree_root :: string
  wa_status :: string
  wa_permission_mode :: "string option"
  wa_bypass :: "int option"
  wa_archived_at :: "int option"
  wa_composer_name :: string
  wa_branch_name :: string
  wa_settings_json :: string

record workspace_row =
  ws_permission_mode :: "string option"
  ws_bypass :: "int option"
  ws_settings_json :: string
  ws_slug :: string
  ws_archived_at :: "int option"

record repository_row =
  r_url :: string
  r_local_path :: string
  r_name :: string
  r_action_prefs_json :: string

record database =
  db_sessions :: "session_row table"
  db_workareas :: "workarea_row table"
  db_workspaces :: "workspace_row table"
  db_repositories :: "repository_row table"
  db_workarea_repos :: "(string \<times> string \<times> string) list"
  db_workspace_repos :: "(string \<times> nat \<times> string \<times> string) list"

section \<open>Sessions\<close>

definition sessions_get :: "database \<Rightarrow> string \<Rightarrow> session_row option" where
  "sessions_get db sid = map_of (db_sessions db) sid"

definition sessions_set_permission_mode :: "string \<Rightarrow> string \<Rightarrow> database \<Rightarrow> database" where
  "sessions_set_permission_mode sid mode db =
     db\<lparr>db_sessions := sql_update sid (\<lambda>r. r\<lparr>s_permission_mode := Some mode\<rparr>) (db_sessions db)\<rparr>"

definition sessions_mark_ended :: "string \<Rightarrow> int \<Rightarrow> database \<Rightarrow> database" where
  "sessions_mark_ended sid at db =
     db\<lparr>db_sessions := sql_update sid (\<lambda>r. r\<lparr>s_ended_at := Some at, s_status := ''finished''\<rparr>) (db_sessions db)\<rparr>"

definition sessions_update_last_acked :: "string \<Rightarrow> int \<Rightarrow> database \<Rightarrow> database" where
  "sessions_update_last_acked sid seq db =
     db\<lparr>db_sessions := sql_update sid (\<lambda>r. r\<lparr>s_last_acked_seq := seq\<rparr>) (db_sessions db)\<rparr>"

definition list_live_ids_by_workarea :: "database \<Rightarrow> string \<Rightarrow> string list" where
  "list_live_ids_by_workarea db wid =
     map fst (filter (\<lambda>(sid, r). s_workarea_id r = wid \<and> s_ended_at r = None) (db_sessions db))"

section \<open>Workareas, workspaces, repositories\<close>

definition workareas_get :: "database \<Rightarrow> string \<Rightarrow> workarea_row option" where
  "workareas_get db wid = map_of (db_workareas db) wid"

definition workarea_not_found :: "string \<Rightarrow> error" where
  "workarea_not_found wid = NotFound (''workarea '' @ wid @ '' not found'')"

definition workareas_update_status :: "string \<Rightarrow> string \<Rightarrow> database \<Rightarrow> database" where
  "workareas_update_status wid status db =
     db\<lparr>db_workareas := sql_update wid (\<lambda>r. r\<lparr>wa_status := status\<rparr>) (db_workareas db)\<rparr>"

definition workareas_set_permission_mode :: "string \<Rightarrow> string option \<Rightarrow> database \<Rightarrow> database" where
  "workareas_set_permission_mode wid mode db =
     db\<lparr>db_workareas := sql_update wid (\<lambda>r. r\<lparr>wa_permission_mode := mode\<rparr>) (db_workareas db)\<rparr>"

definition workareas_set_bypass :: "string \<Rightarrow> bool option \<Rightarrow> database \<Rightarrow> database" where
  "workareas_set_bypass wid b db =
     db\<lparr>db_workareas := sql_update wid
          (\<lambda>r. r\<lparr>wa_bypass := map_option (\<lambda>x. if x then 1 else 0) b\<rparr>) (db_workareas db)\<rparr>"

text \<open>\<open>ORDER BY repository_id ASC\<close>: byte order of the ids.\<close>

definition str_key :: "string \<Rightarrow> nat list" where
  "str_key s = map of_char s"

fun key_le :: "nat list \<Rightarrow> nat list \<Rightarrow> bool" where
  "key_le [] ys = True"
| "key_le (x # xs) [] = False"
| "key_le (x # xs) (y # ys) = (x < y \<or> x = y \<and> key_le xs ys)"

fun insert_by_key :: "('a \<Rightarrow> nat list) \<Rightarrow> 'a \<Rightarrow> 'a list \<Rightarrow> 'a list" where
  "insert_by_key k x [] = [x]"
| "insert_by_key k x (y # ys) = (if key_le (k x) (k y) then x # y # ys else y # insert_by_key k x ys)"

definition sort_by_key :: "('a \<Rightarrow> nat list) \<Rightarrow> 'a list \<Rightarrow> 'a list" where
  "sort_by_key k xs = foldr (insert_by_key k) xs []"

lemma set_insert_by_key [simp]: "set (insert_by_key k x ys) = insert x (set ys)"
  by (induction ys) auto

lemma set_sort_by_key [simp]: "set (sort_by_key k xs) = set xs"
  by (induction xs) (auto simp: sort_by_key_def)

definition MAESTRO_SYSTEM_WORKAREA_ID :: string where
  "MAESTRO_SYSTEM_WORKAREA_ID = ''__maestro_system_wa__''"

definition list_workarea_repos :: "database \<Rightarrow> string \<Rightarrow> (string \<times> string) list" where
  "list_workarea_repos db wid =
     sort_by_key (\<lambda>(rid, path). str_key rid)
       (map snd (filter (\<lambda>(w, rid, path). w = wid) (db_workarea_repos db)))"

text \<open>\<open>ORDER BY position, repository_id\<close>.\<close>

definition list_repos :: "database \<Rightarrow> string \<Rightarrow> string list" where
  "list_repos db wsid =
     map (\<lambda>(position, rid, cones). rid)
       (sort_by_key (\<lambda>(position, rid, cones). position # str_key rid)
         (map snd (filter (\<lambda>(w, position, rid, cones). w = wsid) (db_workspace_repos db))))"

definition get_repo_cones :: "database \<Rightarrow> string \<Rightarrow> string \<Rightarrow> string option" where
  "get_repo_cones db wsid rid =
     map_option (\<lambda>(w, position, r, cones). cones)
       (find (\<lambda>(w, position, r, cones). w = wsid \<and> r = rid) (db_workspace_repos db))"

definition workspaces_get :: "database \<Rightarrow> string \<Rightarrow> workspace_row option" where
  "workspaces_get db wsid = map_of (db_workspaces db) wsid"

definition repositories_get :: "database \<Rightarrow> string \<Rightarrow> repository_row option" where
  "repositories_get db rid = map_of (db_repositories db) rid"

definition get_settings_json :: "database \<Rightarrow> string \<Rightarrow> string option" where
  "get_settings_json db wsid = map_option ws_settings_json (map_of (db_workspaces db) wsid)"

section \<open>Reading back what was written\<close>

lemma sessions_get_set_mode:
  "sessions_get (sessions_set_permission_mode sid m db) j =
     (if j = sid then map_option (\<lambda>r. r\<lparr>s_permission_mode := Some m\<rparr>) (sessions_get db sid)
      else sessions_get db j)"
  by (simp add: sessions_get_def sessions_set_permission_mode_def map_of_sql_update)

lemma workareas_get_update_status:
  "workareas_get (workareas_update_status wid st db) j =
     (if j = wid then map_option (\<lambda>r. r\<lparr>wa_status := st\<rparr>) (workareas_get db wid) else workareas_get db j)"
  by (simp add: workareas_get_def workareas_update_status_def map_of_sql_update)

lemma workareas_get_set_mode:
  "workareas_get (workareas_set_permission_mode wid m db) j =
     (if j = wid then map_option (\<lambda>r. r\<lparr>wa_permission_mode := m\<rparr>) (workareas_get db wid) else workareas_get db j)"
  by (simp add: workareas_get_def workareas_set_permission_mode_def map_of_sql_update)

lemma workareas_get_set_bypass:
  "workareas_get (workareas_set_bypass wid b db) j =
     (if j = wid then map_option (\<lambda>r. r\<lparr>wa_bypass := map_option (\<lambda>x. if x then 1 else 0) b\<rparr>) (workareas_get db wid)
      else workareas_get db j)"
  by (simp add: workareas_get_def workareas_set_bypass_def map_of_sql_update)

lemma live_ids_after_mark_ended:
  "list_live_ids_by_workarea (sessions_mark_ended sid at db) wid
     = filter (\<lambda>s. s \<noteq> sid) (list_live_ids_by_workarea db wid)"
proof -
  have "map fst (filter (\<lambda>(s, r). s_workarea_id r = wid \<and> s_ended_at r = None)
          (sql_update sid (\<lambda>r. r\<lparr>s_ended_at := Some at, s_status := ''finished''\<rparr>) t))
      = filter (\<lambda>s. s \<noteq> sid)
          (map fst (filter (\<lambda>(s, r). s_workarea_id r = wid \<and> s_ended_at r = None) t))" for t
    by (induction t) (auto simp: sql_update_def)
  then show ?thesis by (simp add: list_live_ids_by_workarea_def sessions_mark_ended_def)
qed

end
