(* ===== verification/PairingTokens.thy ===== *)
theory PairingTokens
  imports Prelude
begin

text \<open>
  Device pairing (\<open>crates/core/src/security/pairing.rs\<close>): the token store and
  \<open>complete_pairing\<close>, with its audit records and the \<open>devices\<close> table. Instants are milliseconds.

  Arguments: the random token, the hash (BLAKE2b) as a function, the verification of an Ed25519
  public key and signature, and the certificate issuer. The \<open>HashMap\<close> of tokens is a list of
  entries with distinct keys in an order the code does not depend on, except where two tokens
  were minted at the same instant.
\<close>

type_synonym octets = "8 word list"

definition PAIRING_TOKEN_TTL :: nat where "PAIRING_TOKEN_TTL = 60000"
definition MAX_ACTIVE_TOKENS :: nat where "MAX_ACTIVE_TOKENS = 3"
definition PAIRING_NONCE_LEN :: nat where "PAIRING_NONCE_LEN = 32"

record token_state =
  tok_issued_at :: nat
  tok_expires_at :: nat

type_synonym token_store = "(octets \<times> token_state) list"

text \<open>\<open>min_by_key\<close>: the first entry with the least instant.\<close>

fun oldest :: "token_store \<Rightarrow> (octets \<times> token_state) option" where
  "oldest [] = None"
| "oldest (x # xs) =
     (case oldest xs of
        None \<Rightarrow> Some x
      | Some y \<Rightarrow> if tok_issued_at (snd y) < tok_issued_at (snd x) then Some y else Some x)"

definition remove_token :: "octets \<Rightarrow> token_store \<Rightarrow> token_store" where
  "remove_token k s = filter (\<lambda>(j, st). j \<noteq> k) s"

lemma remove_token_shorter: "k \<in> fst ` set s \<Longrightarrow> length (remove_token k s) < length s"
  unfolding remove_token_def by (auto intro!: length_filter_less)

lemma oldest_in: "oldest s = Some x \<Longrightarrow> x \<in> set s"
  by (induction s arbitrary: x) (auto split: option.splits if_splits)

lemma oldest_None: "oldest s = None \<longleftrightarrow> s = []"
  by (cases s) (auto split: option.splits)

lemma oldest_least: "oldest s = Some x \<Longrightarrow> y \<in> set s \<Longrightarrow> tok_issued_at (snd x) \<le> tok_issued_at (snd y)"
proof (induction s arbitrary: x)
  case (Cons z zs)
  show ?case
  proof (cases "oldest zs")
    case None
    with Cons.prems show ?thesis by (simp add: oldest_None)
  next
    case (Some a)
    with Cons show ?thesis by (fastforce split: if_splits)
  qed
qed simp

text \<open>The loop \<open>while guard.len() >= MAX_ACTIVE_TOKENS\<close>.\<close>

function make_room :: "token_store \<Rightarrow> token_store" where
  "make_room s =
     (if MAX_ACTIVE_TOKENS \<le> length s
      then (case oldest s of Some (k, st) \<Rightarrow> make_room (remove_token k s) | None \<Rightarrow> s)
      else s)"
  by pat_completeness auto

termination
proof (relation "measure length", simp, simp)
  fix s p k st
  assume "oldest s = Some p" "(k, st) = p"
  then have "(k, st) \<in> set s" using oldest_in by blast
  then show "length (remove_token k s) < length s" by (intro remove_token_shorter) force
qed

declare make_room.simps [simp del]

definition mint :: "(octets \<Rightarrow> octets) \<Rightarrow> octets \<Rightarrow> nat \<Rightarrow> token_store \<Rightarrow> (octets \<times> nat) \<times> token_store" where
  "mint hash_token token now s =
     (let hash = hash_token token;
          expires_at = now + PAIRING_TOKEN_TTL;
          s = filter (\<lambda>(k, st). now < tok_expires_at st) s;
          s = make_room s;
          s = (hash, \<lparr>tok_issued_at = now, tok_expires_at = expires_at\<rparr>) # remove_token hash s
      in ((token, expires_at), s))"

definition take_token :: "octets \<Rightarrow> token_store \<Rightarrow> token_state option \<times> token_store" where
  "take_token k s = (map_of s k, remove_token k s)"

definition consume :: "(octets \<Rightarrow> octets) \<Rightarrow> octets \<Rightarrow> nat \<Rightarrow> token_store \<Rightarrow> unit result \<times> token_store" where
  "consume hash_token raw_token now s =
     (case take_token (hash_token raw_token) s of
        (Some st, s') \<Rightarrow>
          (if tok_expires_at st \<le> now then (Inl (Pairing ''pairing.expired''), s') else (Inr (), s'))
      | (None, s') \<Rightarrow> (Inl (Pairing ''pairing.consumed''), s'))"

interpretation tokens: claim_once take_token "\<lambda>s k. k \<in> fst ` set s"
  by unfold_locales (force simp: take_token_def remove_token_def image_iff map_of_eq_None_iff)+

section \<open>Completing a pairing\<close>

record pairing_input =
  pi_device_pubkey :: octets
  pi_device_name :: string
  pi_nonce :: octets
  pi_signature :: octets
  pi_token :: octets

definition signed_payload :: "octets \<Rightarrow> octets \<Rightarrow> octets \<Rightarrow> octets" where
  "signed_payload token nonce device_pubkey = token @ nonce @ device_pubkey"

record signed_cert =
  sc_device_id_hex :: string
  sc_cert_bytes :: octets
  sc_signature :: octets

record crypto =
  cr_hash :: "octets \<Rightarrow> octets"
  cr_valid_pubkey :: "octets \<Rightarrow> bool"
  cr_verify :: "octets \<Rightarrow> octets \<Rightarrow> octets \<Rightarrow> bool"
  cr_issue :: "octets \<Rightarrow> string \<Rightarrow> string + signed_cert"
  cr_core_pubkey :: octets

record device_row =
  dv_name :: string
  dv_public_key :: octets
  dv_paired_at :: nat

datatype pairing_audit = PairingStarted | PairingCompleted string | PairingFailed error

record coordinator =
  co_tokens :: token_store
  co_devices :: "(string \<times> device_row) list"
  co_audit :: "pairing_audit list"

definition start_pairing_at :: "crypto \<Rightarrow> octets \<Rightarrow> nat \<Rightarrow> coordinator \<Rightarrow> (octets \<times> nat) \<times> coordinator" where
  "start_pairing_at cr random now co =
     (let (challenge, s) = mint (cr_hash cr) random now (co_tokens co)
      in (challenge, co\<lparr>co_tokens := s, co_audit := co_audit co @ [PairingStarted]\<rparr>))"

definition bad_nonce :: "nat \<Rightarrow> error" where
  "bad_nonce n = Pairing (''pairing.bad_nonce: expected '' @ show_nat PAIRING_NONCE_LEN
     @ ''-byte nonce, got '' @ show_nat n)"

definition complete_pairing_inner ::
  "crypto \<Rightarrow> pairing_input \<Rightarrow> nat \<Rightarrow> coordinator \<Rightarrow> (octets \<times> octets) result \<times> coordinator" where
  "complete_pairing_inner cr inp now co =
     (if length (pi_nonce inp) \<noteq> PAIRING_NONCE_LEN then (Inl (bad_nonce (length (pi_nonce inp))), co)
      else if \<not> cr_valid_pubkey cr (pi_device_pubkey inp) then (Inl (Pairing ''pairing.bad_device_pubkey''), co)
      else let payload = signed_payload (pi_token inp) (pi_nonce inp) (pi_device_pubkey inp)
      in if \<not> cr_verify cr (pi_device_pubkey inp) payload (pi_signature inp)
         then (Inl (Pairing ''pairing.bad_signature''), co)
      else (case consume (cr_hash cr) (pi_token inp) now (co_tokens co) of
              (Inl e, s) \<Rightarrow> (Inl e, co\<lparr>co_tokens := s\<rparr>)
            | (Inr _, s) \<Rightarrow>
                (let co = co\<lparr>co_tokens := s\<rparr>
                 in (case cr_issue cr (pi_device_pubkey inp) (pi_device_name inp) of
                       Inl e \<Rightarrow> (Inl (Pairing (''pairing.issue_failed: '' @ e)), co)
                     | Inr cert \<Rightarrow>
                         (let device_id_hex = sc_device_id_hex cert
                          in if map_of (co_devices co) device_id_hex \<noteq> None
                             then (Inl (Sqlx ''UNIQUE constraint failed: devices.id''), co)
                             else
                               (let row = \<lparr>dv_name = pi_device_name inp, dv_public_key = pi_device_pubkey inp,
                                           dv_paired_at = now div 1000\<rparr>;
                                    co = co\<lparr>co_devices := co_devices co @ [(device_id_hex, row)],
                                            co_audit := co_audit co @ [PairingCompleted device_id_hex]\<rparr>
                                in (Inr (sc_cert_bytes cert @ sc_signature cert, cr_core_pubkey cr), co)))))))"

definition complete_pairing_at ::
  "crypto \<Rightarrow> pairing_input \<Rightarrow> nat \<Rightarrow> coordinator \<Rightarrow> (octets \<times> octets) result \<times> coordinator" where
  "complete_pairing_at cr inp now co =
     (case complete_pairing_inner cr inp now co of
        (Inr outcome, co') \<Rightarrow> (Inr outcome, co')
      | (Inl e, co') \<Rightarrow> (Inl e, co'\<lparr>co_audit := co_audit co' @ [PairingFailed e]\<rparr>))"

section \<open>Lemmas\<close>

lemma make_room_induct [case_names full room]:
  assumes full: "\<And>s k st. \<lbrakk>MAX_ACTIVE_TOKENS \<le> length s; oldest s = Some (k, st); P (remove_token k s);
      make_room s = make_room (remove_token k s)\<rbrakk> \<Longrightarrow> P s"
    and room: "\<And>s. \<lbrakk>length s < MAX_ACTIVE_TOKENS; make_room s = s\<rbrakk> \<Longrightarrow> P s"
  shows "P s"
proof (induction s rule: make_room.induct)
  case (1 s)
  show ?case
  proof (cases "MAX_ACTIVE_TOKENS \<le> length s")
    case True
    then have "s \<noteq> []" by (auto simp: MAX_ACTIVE_TOKENS_def)
    then obtain k st where o: "oldest s = Some (k, st)" by (metis not_None_eq oldest_None surj_pair)
    show ?thesis
    proof (rule full [OF True o])
      show "P (remove_token k s)" using 1 [OF True o refl] .
      show "make_room s = make_room (remove_token k s)" using True o by (subst make_room.simps) simp
    qed
  next
    case False
    then show ?thesis by (intro room) (simp_all add: make_room.simps)
  qed
qed

lemma make_room_length: "length (make_room s) < MAX_ACTIVE_TOKENS"
  by (induction s rule: make_room_induct) simp_all

lemma make_room_subset: "set (make_room s) \<subseteq> set s"
  by (induction s rule: make_room_induct) (auto simp: remove_token_def)

text \<open>An entry leaves only when no kept entry is older.\<close>

lemma make_room_keeps_newest:
  "x \<in> set s \<Longrightarrow> x \<notin> set (make_room s) \<Longrightarrow> y \<in> set (make_room s) \<Longrightarrow> distinct (map fst s) \<Longrightarrow>
     tok_issued_at (snd x) \<le> tok_issued_at (snd y)"
proof (induction s rule: make_room_induct)
  case (full s k st)
  have y: "y \<in> set s" using full make_room_subset [of "remove_token k s"] by (auto simp: remove_token_def)
  have dist: "distinct (map fst (remove_token k s))"
    using full by (simp add: remove_token_def distinct_map_filter)
  show ?case
  proof (cases "fst x = k")
    case True
    have "(k, st) \<in> set s" using full(2) oldest_in by blast
    with True full have "x = (k, st)" by (metis eq_key_imp_eq_value prod.collapse)
    then show ?thesis using oldest_least [OF full(2) y] by simp
  next
    case False
    then have "x \<in> set (remove_token k s)" using full by (auto simp: remove_token_def)
    with full dist show ?thesis by simp
  qed
qed simp

text \<open>The store as a machine: at most three entries, distinct keys, no entry beyond its 60 seconds.\<close>

datatype token_event = Mint octets nat | Consume octets nat

fun token_step :: "(octets \<Rightarrow> octets) \<Rightarrow> token_store \<Rightarrow> token_event \<Rightarrow> token_store" where
  "token_step h s (Mint token now) = snd (mint h token now s)"
| "token_step h s (Consume token now) = snd (consume h token now s)"

definition store_inv :: "token_store \<Rightarrow> bool" where
  "store_inv s \<longleftrightarrow> length s \<le> MAX_ACTIVE_TOKENS \<and> distinct (map fst s)
     \<and> (\<forall>(k, st)\<in>set s. tok_expires_at st = tok_issued_at st + PAIRING_TOKEN_TTL)"

lemma distinct_make_room: "distinct (map fst s) \<Longrightarrow> distinct (map fst (make_room s))"
  by (induction s rule: make_room_induct) (simp_all add: remove_token_def distinct_map_filter)

lemma consume_store: "snd (consume h t now s) = remove_token (h t) s"
  by (auto simp: consume_def take_token_def split: option.split)

lemma mint_store:
  "snd (mint h t now s) = (h t, \<lparr>tok_issued_at = now, tok_expires_at = now + PAIRING_TOKEN_TTL\<rparr>)
     # remove_token (h t) (make_room (filter (\<lambda>(k, st). now < tok_expires_at st) s))"
  by (simp add: mint_def Let_def)

lemma store_inv_step: "store_inv s \<Longrightarrow> store_inv (token_step h s e)"
proof (cases e)
  case (Mint t now)
  assume inv: "store_inv s"
  let ?f = "filter (\<lambda>(k, st). now < tok_expires_at st) s"
  have sub: "set (remove_token (h t) (make_room ?f)) \<subseteq> set s"
    using make_room_subset [of ?f] by (auto simp: remove_token_def)
  have "length (remove_token (h t) (make_room ?f)) \<le> length (make_room ?f)"
    by (simp add: remove_token_def)
  then have "length (remove_token (h t) (make_room ?f)) < MAX_ACTIVE_TOKENS"
    using make_room_length [of ?f] by simp
  moreover have "distinct (map fst (remove_token (h t) (make_room ?f)))"
    using inv by (simp add: store_inv_def remove_token_def distinct_map_filter distinct_make_room)
  moreover have "h t \<notin> fst ` set (remove_token (h t) (make_room ?f))" by (auto simp: remove_token_def)
  ultimately show ?thesis using inv sub Mint by (auto simp: store_inv_def mint_store)
next
  case (Consume t now)
  assume "store_inv s"
  moreover have "length (remove_token (h t) s) \<le> length s" by (simp add: remove_token_def)
  moreover have "set (remove_token (h t) s) \<subseteq> set s" by (auto simp: remove_token_def)
  moreover have "distinct (map fst (remove_token (h t) s))" if "distinct (map fst s)"
    using that by (simp add: remove_token_def distinct_map_filter)
  ultimately show ?thesis unfolding Consume token_step.simps consume_store store_inv_def by auto
qed

interpretation store: event_machine "token_step h" store_inv for h
  by unfold_locales (rule store_inv_step)

section \<open>Properties\<close>

text \<open>C11: a pairing token is usable once. Whatever the first attempt to consume a token returned, and
  after any attempts with other tokens, consuming it again is refused as consumed, as long as it
  is not minted again.\<close>

theorem token_consumed_once:
  "fst (consume h t now' (fold (\<lambda>(u, n) s. snd (consume h u n s)) others (snd (consume h t now s))))
     = Inl (Pairing ''pairing.consumed'')"
proof -
  have f: "fold (\<lambda>(u, n) s. snd (consume h u n s)) os z = fold (\<lambda>k s. snd (take_token k s)) (map (h \<circ> fst) os) z" for os z
    by (induction os arbitrary: z) (auto simp: consume_store take_token_def)
  let ?s = "snd (consume h t now s)"
  have "h t \<notin> fst ` set ?s"
    using tokens.claim_gone [of "h t" s] by (simp add: consume_store take_token_def)
  then have "fst (take_token (h t) (fold (\<lambda>(u, n) s. snd (consume h u n s)) others ?s)) = None"
    unfolding f by (rule tokens.claims_stay_gone)
  then show ?thesis
    by (cases "take_token (h t) (fold (\<lambda>(u, n) s. snd (consume h u n s)) others ?s)") (simp add: consume_def)
qed

text \<open>how long a token lives. After any mints and consumptions of an empty store at most three
  tokens are outstanding; a token just minted is accepted at any instant before its 60 seconds are
  over and refused as expired from then on, unless it was consumed or evicted before; and a mint
  evicts a live token only for the newest ones.\<close>

theorem token_lifetime:
  "length (fold (\<lambda>e s. token_step h s e) es []) \<le> 3
   \<and> fst (consume h t now' (snd (mint h t now s)))
     = (if now' < now + 60000 then Inr () else Inl (Pairing ''pairing.expired''))
   \<and> (\<forall>k st j st'. store_inv s \<and> (k, st) \<in> set s \<and> now < tok_expires_at st \<and> k \<noteq> h t
        \<and> (k, st) \<notin> set (snd (mint h t now s)) \<and> (j, st') \<in> set (snd (mint h t now s)) \<and> j \<noteq> h t
        \<longrightarrow> tok_issued_at st \<le> tok_issued_at st')"
proof (intro conjI allI impI)
  show "length (fold (\<lambda>e s. token_step h s e) es []) \<le> 3"
    using store.run_inv [of "[]" h es] by (simp add: store_inv_def MAX_ACTIVE_TOKENS_def)
  show "fst (consume h t now' (snd (mint h t now s)))
     = (if now' < now + 60000 then Inr () else Inl (Pairing ''pairing.expired''))"
    by (simp add: consume_def take_token_def mint_store PAIRING_TOKEN_TTL_def)
next
  fix k st j st'
  assume a: "store_inv s \<and> (k, st) \<in> set s \<and> now < tok_expires_at st \<and> k \<noteq> h t
    \<and> (k, st) \<notin> set (snd (mint h t now s)) \<and> (j, st') \<in> set (snd (mint h t now s)) \<and> j \<noteq> h t"
  let ?f = "filter (\<lambda>(k, st). now < tok_expires_at st) s"
  have "(k, st) \<in> set ?f" using a by simp
  moreover have "(k, st) \<notin> set (make_room ?f)" using a by (auto simp: mint_store remove_token_def)
  moreover have "(j, st') \<in> set (make_room ?f)" using a by (auto simp: mint_store remove_token_def)
  moreover have "distinct (map fst ?f)" using a by (simp add: store_inv_def distinct_map_filter)
  ultimately show "tok_issued_at st \<le> tok_issued_at st'"
    using make_room_keeps_newest [of "(k, st)" ?f "(j, st')"] by simp
qed

definition full_store :: token_store where
  "full_store = map (\<lambda>n. ([of_nat n], \<lparr>tok_issued_at = n, tok_expires_at = n + 60000\<rparr>)) [1, 2, 3]"

lemma mint_full:
  "snd (mint (\<lambda>x. x) [9] 4 full_store)
     = [([9], \<lparr>tok_issued_at = 4, tok_expires_at = 60004\<rparr>), ([2], \<lparr>tok_issued_at = 2, tok_expires_at = 60002\<rparr>),
        ([3], \<lparr>tok_issued_at = 3, tok_expires_at = 60003\<rparr>)]"
  by (simp add: mint_store full_store_def make_room.simps MAX_ACTIVE_TOKENS_def PAIRING_TOKEN_TTL_def remove_token_def)

theorem token_lifetime_witness:
  "tok_issued_at \<lparr>tok_issued_at = 1, tok_expires_at = 60001\<rparr> \<le> tok_issued_at \<lparr>tok_issued_at = 2, tok_expires_at = 60002\<rparr>"
proof -
  have "store_inv full_store" "([1], \<lparr>tok_issued_at = 1, tok_expires_at = 60001\<rparr>) \<in> set full_store"
    by (simp_all add: store_inv_def full_store_def MAX_ACTIVE_TOKENS_def PAIRING_TOKEN_TTL_def)
  then show ?thesis
    using token_lifetime [of "\<lambda>x. x" "[]" "[9]" 4 4 full_store] unfolding mint_full by force
qed

definition toy_crypto :: crypto where
  "toy_crypto =
     \<lparr>cr_hash = \<lambda>x. x, cr_valid_pubkey = \<lambda>k. True, cr_verify = \<lambda>k p s. s = [1],
      cr_issue = \<lambda>k n. Inr \<lparr>sc_device_id_hex = ''d'', sc_cert_bytes = [5], sc_signature = [6]\<rparr>,
      cr_core_pubkey = [8]\<rparr>"

definition paired_coordinator :: coordinator where
  "paired_coordinator =
     \<lparr>co_tokens = full_store, co_devices = [(''d'', \<lparr>dv_name = ''phone'', dv_public_key = [3], dv_paired_at = 0\<rparr>)],
      co_audit = []\<rparr>"

text \<open>C6: a device is enrolled only by a signed request on a live token. When a pairing completes, the
  device's key verified over the token, the nonce and the key itself, with a 32 byte nonce; the
  token was outstanding and unexpired and is gone; the device had no row and has one now. A request
  with a bad signature leaves tokens and devices alone, so the genuine device can still pair.\<close>

theorem pairing_is_authenticated:
  "case complete_pairing_at cr inp now co of
     (Inr outcome, co') \<Rightarrow>
       length (pi_nonce inp) = 32
       \<and> cr_verify cr (pi_device_pubkey inp) (pi_token inp @ pi_nonce inp @ pi_device_pubkey inp) (pi_signature inp)
       \<and> (\<exists>st. map_of (co_tokens co) (cr_hash cr (pi_token inp)) = Some st \<and> now < tok_expires_at st)
       \<and> map_of (co_tokens co') (cr_hash cr (pi_token inp)) = None
       \<and> (\<exists>dev. map_of (co_devices co) dev = None \<and> map_of (co_devices co') dev
             = Some \<lparr>dv_name = pi_device_name inp, dv_public_key = pi_device_pubkey inp, dv_paired_at = now div 1000\<rparr>)
   | (Inl e, co') \<Rightarrow>
       co_devices co' = co_devices co \<and> co_audit co' = co_audit co @ [PairingFailed e]
       \<and> (\<not> cr_verify cr (pi_device_pubkey inp) (pi_token inp @ pi_nonce inp @ pi_device_pubkey inp) (pi_signature inp)
            \<longrightarrow> co_tokens co' = co_tokens co)"
proof -
  have gone: "map_of (remove_token k s) k = None" for k s
    by (auto simp: remove_token_def map_of_eq_None_iff)
  have new: "\<exists>dev. m dev = None \<and> ([d \<mapsto> r] ++ m) dev = Some r" if "m d = None" for m :: "string \<rightharpoonup> device_row" and d r
    using that by (intro exI [of _ d]) (simp add: map_add_def)
  show ?thesis
    by (auto simp: complete_pairing_at_def complete_pairing_inner_def Let_def consume_def take_token_def
        signed_payload_def PAIRING_NONCE_LEN_def gone intro!: new split: option.splits sum.splits if_splits)
qed

theorem pairing_is_authenticated_witness:
  "let inp = \<lparr>pi_device_pubkey = [3], pi_device_name = ''tablet'', pi_nonce = replicate 32 0,
              pi_signature = [9], pi_token = [2]\<rparr>;
       (r, co') = complete_pairing_at toy_crypto inp 10 paired_coordinator
   in r = Inl (Pairing ''pairing.bad_signature'') \<and> co_tokens co' = full_store"
proof -
  let ?inp = "\<lparr>pi_device_pubkey = [3], pi_device_name = ''tablet'', pi_nonce = replicate 32 0,
              pi_signature = [9], pi_token = [2]\<rparr>"
  obtain r co' where c: "complete_pairing_at toy_crypto ?inp 10 paired_coordinator = (r, co')" by fastforce
  then have r: "r = Inl (Pairing ''pairing.bad_signature'')"
    by (auto simp: complete_pairing_at_def complete_pairing_inner_def PAIRING_NONCE_LEN_def toy_crypto_def Let_def)
  have "co_tokens co' = full_store"
    using pairing_is_authenticated [where cr = toy_crypto and inp = ?inp and now = 10 and co = paired_coordinator] unfolding c r
    by (simp add: toy_crypto_def paired_coordinator_def)
  with c r show ?thesis by (simp add: Let_def)
qed

text \<open>a paired device cannot be paired again. Where the issuer derives the device's id and a row
  with that id exists, revoked or not, the request fails on the insert, after its token was
  consumed and a certificate issued: the token is lost and no retry with it can succeed.\<close>

theorem repairing_burns_the_token:
  assumes "length (pi_nonce inp) = 32" and "cr_valid_pubkey cr (pi_device_pubkey inp)"
    and "cr_verify cr (pi_device_pubkey inp) (pi_token inp @ pi_nonce inp @ pi_device_pubkey inp) (pi_signature inp)"
    and "cr_issue cr (pi_device_pubkey inp) (pi_device_name inp) = Inr cert"
    and "map_of (co_devices co) (sc_device_id_hex cert) \<noteq> None"
    and "map_of (co_tokens co) (cr_hash cr (pi_token inp)) = Some st" and "now < tok_expires_at st"
    and "complete_pairing_at cr inp now co = (r, co')"
  shows "r = Inl (Sqlx ''UNIQUE constraint failed: devices.id'') \<and> co_devices co' = co_devices co
    \<and> fst (complete_pairing_at cr inp now co') = Inl (Pairing ''pairing.consumed'')"
proof -
  have gone: "map_of (remove_token k s) k = None" for k s
    by (auto simp: remove_token_def map_of_eq_None_iff)
  show ?thesis
    using assms
    by (auto simp: complete_pairing_at_def complete_pairing_inner_def Let_def consume_def take_token_def
        signed_payload_def PAIRING_NONCE_LEN_def gone)
qed

theorem repairing_burns_the_token_witness:
  "let inp = \<lparr>pi_device_pubkey = [3], pi_device_name = ''phone'', pi_nonce = replicate 32 0,
             pi_signature = [1], pi_token = [2]\<rparr>
   in fst (complete_pairing_at toy_crypto inp 10 paired_coordinator) = Inl (Sqlx ''UNIQUE constraint failed: devices.id'')"
proof -
  let ?inp = "\<lparr>pi_device_pubkey = [3], pi_device_name = ''phone'', pi_nonce = replicate 32 0,
             pi_signature = [1], pi_token = [2]\<rparr>"
  obtain r co' where c: "complete_pairing_at toy_crypto ?inp 10 paired_coordinator = (r, co')" by fastforce
  from repairing_burns_the_token [OF _ _ _ _ _ _ _ c] have "r = Inl (Sqlx ''UNIQUE constraint failed: devices.id'')"
    by (simp add: toy_crypto_def paired_coordinator_def full_store_def)
  with c show ?thesis by (simp add: Let_def)
qed

end
