(* ===== verification/DeviceAuth.thy ===== *)
theory DeviceAuth
  imports PairingTokens
begin

text \<open>
  Device certificates and the requests they authenticate: the issuer and validator
  (\<open>identity/src/issuer.rs\<close>, \<open>cert.rs\<close>), revocation (\<open>core/src/security/devices.rs\<close>), the interceptor and
  the mirror that refills the revoked set at start-up (\<open>core/src/security/auth.rs\<close>).

  The Core's key, BLAKE2b, the CBOR codec, hexadecimal and base64 are arguments (\<open>primitives\<close>);
  \<open>lawful\<close> says what is documented of them. The revocation handler is cut where it awaits the
  database: other requests run between the row's update and the rest, and the handler's future
  can be dropped there.
\<close>

section \<open>Certificates\<close>

record device_cert =
  dc_version :: nat
  dc_device_id :: octets
  dc_device_pubkey :: octets
  dc_device_name :: string
  dc_core_pubkey :: octets
  dc_issued_at :: nat
  dc_expires_at :: nat
  dc_capabilities :: "string list"
  dc_revocation_check_required :: bool

record signed_device_cert =
  sd_cert_bytes :: octets
  sd_cert :: device_cert
  sd_signature :: octets

datatype identity_error =
    BadPublicKey
  | BadSignature
  | Truncated
  | BadCbor string
  | Expired
  | WrongCore
  | Revoked
  | Rng string
  | Noise string

record primitives =
  pv_sign :: "octets \<Rightarrow> octets"
  pv_verify :: "octets \<Rightarrow> octets \<Rightarrow> bool"
  pv_hash :: "octets \<Rightarrow> octets"
  pv_core_pub :: octets
  pv_encode :: "device_cert \<Rightarrow> string + octets"
  pv_decode :: "octets \<Rightarrow> string + device_cert"
  pv_hex_encode :: "octets \<Rightarrow> string"
  pv_hex_decode :: "string \<Rightarrow> octets option"
  pv_base64_decode :: "string \<Rightarrow> octets option"

text \<open>The Core's signatures are 64 bytes and verify; the encoder's output decodes to what was encoded.\<close>

definition lawful :: "primitives \<Rightarrow> bool" where
  "lawful p \<longleftrightarrow> (\<forall>m. pv_verify p m (pv_sign p m) \<and> length (pv_sign p m) = 64) \<and>
     (\<forall>c b. pv_encode p c = Inr b \<longrightarrow> pv_decode p b = Inr c)"

definition sign_cert :: "primitives \<Rightarrow> device_cert \<Rightarrow> identity_error + signed_device_cert" where
  "sign_cert p cert =
     (case pv_encode p cert of
        Inl e \<Rightarrow> Inl (BadCbor e)
      | Inr cert_bytes \<Rightarrow>
          Inr \<lparr>sd_cert_bytes = cert_bytes, sd_cert = cert, sd_signature = pv_sign p cert_bytes\<rparr>)"

definition verify_cert :: "primitives \<Rightarrow> octets \<Rightarrow> identity_error + device_cert" where
  "verify_cert p raw =
     (if length raw < 64 then Inl Truncated
      else (let split = length raw - 64;
                cert_bytes = take split raw;
                sig = drop split raw
            in if \<not> pv_verify p cert_bytes sig then Inl BadSignature
               else (case pv_decode p cert_bytes of
                       Inl e \<Rightarrow> Inl (BadCbor e)
                     | Inr cert \<Rightarrow>
                         (case pv_encode p cert of
                            Inl e \<Rightarrow> Inl (BadCbor e)
                          | Inr reencoded \<Rightarrow>
                              if reencoded \<noteq> cert_bytes then Inl (BadCbor ''cert bytes are not canonical'')
                              else Inr cert))))"

definition is_expired :: "device_cert \<Rightarrow> nat \<Rightarrow> bool" where
  "is_expired cert now_unix \<longleftrightarrow> dc_expires_at cert \<le> now_unix"

section \<open>The issuer\<close>

definition CERT_LIFETIME_SECS :: nat where "CERT_LIFETIME_SECS = 365 * 24 * 60 * 60"
definition SKEW_TOLERANCE_SECS :: nat where "SKEW_TOLERANCE_SECS = 5 * 60"
definition V1_CAPABILITIES :: "string list" where "V1_CAPABILITIES = [''admin'']"

record pairing_request =
  pq_device_pubkey :: octets
  pq_device_name :: string

record device_context =
  cx_device_id :: octets
  cx_device_name :: string
  cx_capabilities :: "string list"

definition saturating_add_u64 :: "nat \<Rightarrow> nat \<Rightarrow> nat" where
  "saturating_add_u64 a b = min u64_max (a + b)"

definition issue_at :: "primitives \<Rightarrow> pairing_request \<Rightarrow> nat \<Rightarrow> identity_error + signed_device_cert" where
  "issue_at p req issued_at =
     sign_cert p
       \<lparr>dc_version = 1,
        dc_device_id = pv_hash p (pq_device_pubkey req),
        dc_device_pubkey = pq_device_pubkey req,
        dc_device_name = pq_device_name req,
        dc_core_pubkey = pv_core_pub p,
        dc_issued_at = issued_at,
        dc_expires_at = saturating_add_u64 issued_at CERT_LIFETIME_SECS,
        dc_capabilities = V1_CAPABILITIES,
        dc_revocation_check_required = True\<rparr>"

definition validate_at :: "primitives \<Rightarrow> octets set \<Rightarrow> octets \<Rightarrow> nat \<Rightarrow> identity_error + device_context" where
  "validate_at p revoked raw now =
     (case verify_cert p raw of
        Inl e \<Rightarrow> Inl e
      | Inr cert \<Rightarrow>
          if dc_core_pubkey cert \<noteq> pv_core_pub p then Inl WrongCore
          else (let skewed_now = now - SKEW_TOLERANCE_SECS
                in if is_expired cert skewed_now then Inl Expired
                   else if dc_revocation_check_required cert \<and> dc_device_id cert \<in> revoked then Inl Revoked
                   else Inr \<lparr>cx_device_id = dc_device_id cert, cx_device_name = dc_device_name cert,
                             cx_capabilities = dc_capabilities cert\<rparr>))"

section \<open>The interceptor\<close>

datatype transport_kind = Unspecified | Uds | Iroh | WssBridge

text \<open>
  A request: the listener's tag, the kernel's peer credentials, and the certificate header, which
  may be absent or not ASCII (\<open>Some None\<close>).
\<close>

record inbound =
  rq_transport :: "transport_kind option"
  rq_peer_uid :: "nat option"
  rq_cert_header :: "string option option"

datatype auth_status = InvalidCert string | RevokedCert string

record interceptor =
  ic_has_issuer :: bool
  ic_core_uid :: nat

definition LOCAL_UDS_DEVICE_ID :: octets where "LOCAL_UDS_DEVICE_ID = replicate 32 0xED"

definition local_uds_context :: device_context where
  "local_uds_context =
     \<lparr>cx_device_id = LOCAL_UDS_DEVICE_ID, cx_device_name = ''local-uds'', cx_capabilities = [''admin'']\<rparr>"

definition allows :: "device_context \<Rightarrow> bool" where
  "allows ctx \<longleftrightarrow> ''admin'' \<in> set (cx_capabilities ctx)"

fun map_validate_err :: "identity_error \<Rightarrow> auth_status" where
  "map_validate_err Revoked = RevokedCert ''device certificate has been revoked''"
| "map_validate_err Expired = InvalidCert ''device certificate has expired''"
| "map_validate_err WrongCore = InvalidCert ''device certificate was issued by a different Core''"
| "map_validate_err _ = InvalidCert ''device certificate is invalid or malformed''"

definition authenticate_uds :: "interceptor \<Rightarrow> inbound \<Rightarrow> auth_status + device_context" where
  "authenticate_uds ic rq =
     (case rq_peer_uid rq of
        Some uid \<Rightarrow>
          if uid = ic_core_uid ic then Inr local_uds_context
          else Inl (InvalidCert ''uds peer uid does not match the Core's owning uid'')
      | None \<Rightarrow> Inl (InvalidCert ''uds connection carries no peer credentials''))"

definition validate_cert ::
  "primitives \<Rightarrow> interceptor \<Rightarrow> octets set \<Rightarrow> nat \<Rightarrow> inbound \<Rightarrow> auth_status + device_context" where
  "validate_cert p ic revoked now rq =
     (if \<not> ic_has_issuer ic then Inl (InvalidCert ''this Core has no identity; cannot validate device certs'')
      else case rq_cert_header rq of
             None \<Rightarrow> Inl (InvalidCert ''missing concerto-device-cert metadata'')
           | Some None \<Rightarrow> Inl (InvalidCert ''concerto-device-cert metadata is not ASCII'')
           | Some (Some raw_header) \<Rightarrow>
               (case pv_base64_decode p raw_header of
                  None \<Rightarrow> Inl (InvalidCert ''concerto-device-cert is not valid base64'')
                | Some raw \<Rightarrow>
                    (case validate_at p revoked raw now of
                       Inl e \<Rightarrow> Inl (map_validate_err e)
                     | Inr ctx \<Rightarrow> Inr ctx)))"

definition authenticate ::
  "primitives \<Rightarrow> interceptor \<Rightarrow> octets set \<Rightarrow> nat \<Rightarrow> inbound \<Rightarrow> auth_status + device_context" where
  "authenticate p ic revoked now rq =
     (let kind = (case rq_transport rq of Some k \<Rightarrow> k | None \<Rightarrow> Uds)
      in if kind = Uds then authenticate_uds ic rq else validate_cert p ic revoked now rq)"

section \<open>Devices\<close>

record device_entry =
  de_name :: string
  de_public_key :: octets
  de_paired_at :: nat
  de_last_seen_at :: "nat option"
  de_revoked_at :: "nat option"
  de_push_token :: "string option"
  de_push_platform :: "string option"

record auth_state =
  as_devices :: "(string \<times> device_entry) list"
  as_revoked :: "octets set"
  as_closed :: "octets list"
  as_audit :: "(string \<times> nat) list"
  as_signed :: "octets list"

text \<open>An update of the row with a key, and the row.\<close>

definition update_row :: "string \<Rightarrow> ('r \<Rightarrow> 'r) \<Rightarrow> (string \<times> 'r) list \<Rightarrow> (string \<times> 'r) list" where
  "update_row i f rows = map (\<lambda>(j, r). if j = i then (j, f r) else (j, r)) rows"

lemma map_of_update_row: "map_of (update_row i f rows) j = (if j = i then map_option f (map_of rows i) else map_of rows j)"
  by (induction rows) (auto simp: update_row_def)

abbreviation device_row_of :: "auth_state \<Rightarrow> string \<Rightarrow> device_entry option" where
  "device_row_of st i \<equiv> map_of (as_devices st) i"

definition unknown_device :: "string \<Rightarrow> error" where
  "unknown_device device_id_hex = NotFound (''device.unknown: '' @ device_id_hex)"

definition decode_device_id :: "primitives \<Rightarrow> string \<Rightarrow> octets option" where
  "decode_device_id p device_id_hex =
     (case pv_hex_decode p device_id_hex of
        Some bytes \<Rightarrow> if length bytes = 32 then Some bytes else None
      | None \<Rightarrow> None)"

text \<open>The update of the row: whether it changed an active one.\<close>

definition mark_revoked :: "string \<Rightarrow> nat \<Rightarrow> auth_state \<Rightarrow> bool \<times> auth_state" where
  "mark_revoked device_id_hex revoked_at st =
     (case device_row_of st device_id_hex of
        Some d \<Rightarrow>
          (if de_revoked_at d = None
           then (True, st\<lparr>as_devices :=
             update_row device_id_hex (de_revoked_at_update (\<lambda>_. Some revoked_at)) (as_devices st)\<rparr>)
           else (False, st))
      | None \<Rightarrow> (False, st))"

definition insert_revoked :: "octets \<Rightarrow> auth_state \<Rightarrow> auth_state" where
  "insert_revoked raw_id st = st\<lparr>as_revoked := insert raw_id (as_revoked st)\<rparr>"

text \<open>What the handler does after the update: on an active row, and on a row it did not change.\<close>

definition sever :: "octets \<Rightarrow> string \<Rightarrow> nat \<Rightarrow> auth_state \<Rightarrow> auth_state" where
  "sever raw_id device_id_hex revoked_at st =
     (let st = insert_revoked raw_id st
      in st\<lparr>as_closed := as_closed st @ [raw_id], as_audit := as_audit st @ [(device_id_hex, revoked_at)]\<rparr>)"

definition revoke_again :: "octets \<Rightarrow> string \<Rightarrow> auth_state \<Rightarrow> unit result \<times> auth_state" where
  "revoke_again raw_id device_id_hex st =
     (if device_row_of st device_id_hex \<noteq> None then (Inr (), insert_revoked raw_id st)
      else (Inl (unknown_device device_id_hex), st))"

definition revoke_device_at :: "primitives \<Rightarrow> string \<Rightarrow> nat \<Rightarrow> auth_state \<Rightarrow> unit result \<times> auth_state" where
  "revoke_device_at p device_id_hex now st =
     (case decode_device_id p device_id_hex of
        None \<Rightarrow> (Inl (unknown_device device_id_hex), st)
      | Some raw_id \<Rightarrow>
          (case mark_revoked device_id_hex now st of
             (True, st) \<Rightarrow> (Inr (), sever raw_id device_id_hex now st)
           | (False, st) \<Rightarrow> revoke_again raw_id device_id_hex st))"

definition update_push_token :: "string \<Rightarrow> string \<Rightarrow> string \<Rightarrow> auth_state \<Rightarrow> unit result \<times> auth_state" where
  "update_push_token device_id_hex push_token push_platform st =
     (if push_platform \<notin> {''apns'', ''fcm'', ''expo''}
      then (Inl (Validation (''device.push_platform.invalid: '' @ push_platform)), st)
      else case device_row_of st device_id_hex of
             None \<Rightarrow> (Inl (unknown_device device_id_hex), st)
           | Some d \<Rightarrow>
               (Inr (), st\<lparr>as_devices := update_row device_id_hex
                  (\<lambda>d. d\<lparr>de_push_token := Some push_token, de_push_platform := Some push_platform\<rparr>) (as_devices st)\<rparr>))"

text \<open>The ids of the revoked rows, decoded; a failed query restores nothing.\<close>

definition mirror_revoked_devices :: "primitives \<Rightarrow> auth_state \<Rightarrow> nat \<times> auth_state" where
  "mirror_revoked_devices p st =
     (let ids = map fst (filter (\<lambda>(i, d). de_revoked_at d \<noteq> None) (as_devices st));
          raws = List.map_filter (decode_device_id p) ids
      in (length raws, st\<lparr>as_revoked := as_revoked st \<union> set raws\<rparr>))"

section \<open>The life of the devices\<close>

text \<open>
  Pairing signs a certificate and inserts its row (a second row for the same key is refused). A
  restart empties the revoked set; the mirror then runs, or its query fails. \<open>Mark\<close> is a revocation
  up to its await, \<open>Finish\<close> the rest of one whose update changed a row.
\<close>

datatype auth_event =
    Enrol pairing_request nat
  | Mark string nat
  | Finish string nat
  | Revoke string nat
  | PushToken string string string
  | Restart bool

definition pair :: "primitives \<Rightarrow> pairing_request \<Rightarrow> nat \<Rightarrow> auth_state \<Rightarrow> auth_state" where
  "pair p req now st =
     (case issue_at p req now of
        Inl e \<Rightarrow> st
      | Inr sc \<Rightarrow>
          (let st = st\<lparr>as_signed := as_signed st @ [sd_cert_bytes sc]\<rparr>;
               i = pv_hex_encode p (dc_device_id (sd_cert sc))
           in if device_row_of st i \<noteq> None then st
              else st\<lparr>as_devices := as_devices st @ [(i,
                \<lparr>de_name = pq_device_name req, de_public_key = pq_device_pubkey req, de_paired_at = now,
                 de_last_seen_at = None, de_revoked_at = None, de_push_token = None, de_push_platform = None\<rparr>)]\<rparr>))"

fun auth_step :: "primitives \<Rightarrow> auth_state \<Rightarrow> auth_event \<Rightarrow> auth_state" where
  "auth_step p st (Enrol req now) = pair p req now st"
| "auth_step p st (Mark i now) = (if decode_device_id p i = None then st else snd (mark_revoked i now st))"
| "auth_step p st (Finish i now) =
     (case (decode_device_id p i, device_row_of st i) of
        (Some raw, Some d) \<Rightarrow> if de_revoked_at d = Some now then sever raw i now st else st
      | _ \<Rightarrow> st)"
| "auth_step p st (Revoke i now) = snd (revoke_device_at p i now st)"
| "auth_step p st (PushToken i t pl) = snd (update_push_token i t pl st)"
| "auth_step p st (Restart mirrored) =
     (let st = st\<lparr>as_revoked := {}\<rparr> in if mirrored then snd (mirror_revoked_devices p st) else st)"

definition no_devices :: auth_state where
  "no_devices = \<lparr>as_devices = [], as_revoked = {}, as_closed = [], as_audit = [], as_signed = []\<rparr>"

text \<open>Every signed certificate names the Core and the key's device, and asks for the revocation check.\<close>

definition signed_ok :: "primitives \<Rightarrow> auth_state \<Rightarrow> bool" where
  "signed_ok p st \<longleftrightarrow> list_all (\<lambda>b. case pv_decode p b of
     Inr c \<Rightarrow> dc_revocation_check_required c \<and> dc_device_id c = pv_hash p (dc_device_pubkey c) \<and>
       dc_core_pubkey c = pv_core_pub p \<and> dc_capabilities c = V1_CAPABILITIES
   | Inl e \<Rightarrow> False) (as_signed st)"

lemma issue_at_Inr:
  assumes "lawful p" and "issue_at p req now = Inr sc"
  shows "pv_decode p (sd_cert_bytes sc) = Inr (sd_cert sc)"
    and "pv_encode p (sd_cert sc) = Inr (sd_cert_bytes sc)"
    and "sd_signature sc = pv_sign p (sd_cert_bytes sc)"
    and "dc_device_id (sd_cert sc) = pv_hash p (pq_device_pubkey req)"
    and "dc_device_pubkey (sd_cert sc) = pq_device_pubkey req"
    and "dc_device_name (sd_cert sc) = pq_device_name req"
    and "dc_core_pubkey (sd_cert sc) = pv_core_pub p"
    and "dc_expires_at (sd_cert sc) = saturating_add_u64 now CERT_LIFETIME_SECS"
    and "dc_capabilities (sd_cert sc) = V1_CAPABILITIES"
    and "dc_revocation_check_required (sd_cert sc)"
  using assms by (auto simp: issue_at_def sign_cert_def lawful_def split: sum.splits)

lemma signed_simps [simp]:
  "as_signed (sever r i now st) = as_signed st"
  "as_signed (insert_revoked r st) = as_signed st"
  "as_signed (snd (mark_revoked i now st)) = as_signed st"
  "as_signed (snd (revoke_again r i st)) = as_signed st"
  "as_signed (snd (revoke_device_at p i now st)) = as_signed st"
  "as_signed (snd (update_push_token i t pl st)) = as_signed st"
  "as_signed (snd (mirror_revoked_devices p st)) = as_signed st"
  by (auto simp: sever_def insert_revoked_def mark_revoked_def revoke_again_def revoke_device_at_def
      update_push_token_def mirror_revoked_devices_def Let_def split: option.split prod.split bool.split)

lemma signed_ok_step [preserves]:
  assumes "lawful p" and "signed_ok p st"
  shows "signed_ok p (auth_step p st e)"
proof (cases e)
  case (Enrol req now)
  with assms show ?thesis
    by (cases "issue_at p req now") (auto simp: pair_def Let_def signed_ok_def issue_at_Inr)
qed (use assms in \<open>auto simp: signed_ok_def Let_def split: option.split\<close>)

text \<open>A device that is cut off: its row carries a revocation and its id is in the set.\<close>

definition cut_off :: "primitives \<Rightarrow> string \<Rightarrow> octets \<Rightarrow> auth_state \<Rightarrow> bool" where
  "cut_off p i raw st \<longleftrightarrow> decode_device_id p i = Some raw \<and> raw \<in> as_revoked st \<and>
     (case device_row_of st i of Some d \<Rightarrow> de_revoked_at d \<noteq> None | None \<Rightarrow> False)"

fun mirrored :: "auth_event \<Rightarrow> bool" where
  "mirrored (Restart ok) = ok"
| "mirrored _ = True"

lemma map_of_append_None: "map_of (xs @ [(k, v)]) j = (case map_of xs j of Some d \<Rightarrow> Some d | None \<Rightarrow> if j = k then Some v else None)"
  by (induction xs) auto

lemma set_map_filter_iff: "y \<in> set (List.map_filter f xs) \<longleftrightarrow> (\<exists>x\<in>set xs. f x = Some y)"
  by (induction xs) (auto simp: map_filter_simps split: option.splits)

lemma cut_off_step [preserves]:
  assumes "mirrored e" and "cut_off p i raw st"
  shows "cut_off p i raw (auth_step p st e)"
proof (cases e)
  case (Enrol req now)
  with assms show ?thesis
    by (cases "issue_at p req now") (auto simp: pair_def cut_off_def Let_def map_of_append_None split: option.splits)
next
  case (Restart ok)
  with assms(1) have "ok" by simp
  from assms(2) obtain d where d: "device_row_of st i = Some d" "de_revoked_at d \<noteq> None" "decode_device_id p i = Some raw"
    by (auto simp: cut_off_def split: option.splits)
  then have "raw \<in> set (List.map_filter (decode_device_id p)
      (map fst (filter (\<lambda>(i, d). de_revoked_at d \<noteq> None) (as_devices st))))"
    by (auto simp: set_map_filter_iff dest!: map_of_SomeD intro!: bexI [of _ "(i, d)"])
  with Restart \<open>ok\<close> d show ?thesis
    by (simp add: cut_off_def mirror_revoked_devices_def Let_def)
qed (use assms in \<open>auto simp: cut_off_def mark_revoked_def sever_def insert_revoked_def revoke_device_at_def
      revoke_again_def update_push_token_def map_of_update_row Let_def split: option.splits prod.splits bool.splits\<close>)

interpretation cut: guarded_machine "auth_step p" "cut_off p i raw" mirrored for p i raw
  by unfold_locales (rule cut_off_step)

interpretation signing: guarded_machine "auth_step p" "signed_ok p" "\<lambda>e. lawful p" for p
  by unfold_locales (simp add: signed_ok_step)

lemma revoke_cuts_off:
  assumes "revoke_device_at p i now st = (Inr (), st')"
  shows "\<exists>raw. cut_off p i raw st'"
proof -
  from assms obtain raw where raw: "decode_device_id p i = Some raw"
    by (auto simp: revoke_device_at_def split: option.splits)
  show ?thesis
  proof (cases "mark_revoked i now st")
    case (Pair b st1)
    with assms raw have "cut_off p i raw st'"
      by (auto simp: revoke_device_at_def mark_revoked_def sever_def insert_revoked_def revoke_again_def
          cut_off_def map_of_update_row Let_def split: option.splits if_splits)
    then show ?thesis ..
  qed
qed

text \<open>A request whose signature verifies carries it over bytes the Core signed.\<close>

definition unforged :: "primitives \<Rightarrow> auth_state \<Rightarrow> inbound \<Rightarrow> bool" where
  "unforged p st rq =
     (case Option.bind (Option.bind (rq_cert_header rq) id) (pv_base64_decode p) of
        None \<Rightarrow> True
      | Some raw \<Rightarrow>
          pv_verify p (take (length raw - 64) raw) (drop (length raw - 64) raw) \<longrightarrow>
            take (length raw - 64) raw \<in> set (as_signed st))"

lemma validate_at_Inr:
  assumes "validate_at p revoked raw now = Inr ctx"
  obtains c where "pv_verify p (take (length raw - 64) raw) (drop (length raw - 64) raw)"
    and "pv_decode p (take (length raw - 64) raw) = Inr c"
    and "cx_device_id ctx = dc_device_id c" and "cx_capabilities ctx = dc_capabilities c"
    and "now - SKEW_TOLERANCE_SECS < dc_expires_at c"
    and "dc_revocation_check_required c \<Longrightarrow> dc_device_id c \<notin> revoked"
  using assms
  by (auto simp: validate_at_def verify_cert_def is_expired_def Let_def intro: that split: sum.splits if_splits)

lemma certificate_lifetime:
  assumes "lawful p" and "issue_at p req issued = Inr sc"
  shows "validate_at p revoked (sd_cert_bytes sc @ sd_signature sc) now =
    (if min u64_max (issued + 31536000) + 300 \<le> max now 300 then Inl Expired
     else if pv_hash p (pq_device_pubkey req) \<in> revoked then Inl Revoked
     else Inr \<lparr>cx_device_id = pv_hash p (pq_device_pubkey req), cx_device_name = pq_device_name req,
               cx_capabilities = [''admin'']\<rparr>)"
proof -
  note i = issue_at_Inr [OF assms]
  have "length (sd_signature sc) = 64" "pv_verify p (sd_cert_bytes sc) (sd_signature sc)"
    using assms(1) i(3) by (auto simp: lawful_def)
  then have v: "verify_cert p (sd_cert_bytes sc @ sd_signature sc) = Inr (sd_cert sc)"
    using i(1,2) by (simp add: verify_cert_def)
  have "is_expired (sd_cert sc) (now - SKEW_TOLERANCE_SECS) \<longleftrightarrow>
      min u64_max (issued + 31536000) + 300 \<le> max now 300"
    by (auto simp: is_expired_def i(8) saturating_add_u64_def CERT_LIFETIME_SECS_def SKEW_TOLERANCE_SECS_def)
  with v i show ?thesis by (simp add: validate_at_def V1_CAPABILITIES_def)
qed

section \<open>Properties\<close>


text \<open>Two devices under a scheme whose certificates are their keys.\<close>

definition toy_cert :: "octets \<Rightarrow> device_cert" where
  "toy_cert k =
     \<lparr>dc_version = 1, dc_device_id = replicate 32 (hd k), dc_device_pubkey = k, dc_device_name = ''phone'',
      dc_core_pubkey = [9], dc_issued_at = 1000, dc_expires_at = 31537000, dc_capabilities = [''admin''],
      dc_revocation_check_required = True\<rparr>"

definition toy :: primitives where
  "toy =
     \<lparr>pv_sign = (\<lambda>_. replicate 64 0), pv_verify = (\<lambda>m s. s = replicate 64 0), pv_hash = (\<lambda>k. replicate 32 (hd k)),
      pv_core_pub = [9],
      pv_encode = (\<lambda>c. if c = toy_cert (dc_device_pubkey c) then Inr (dc_device_pubkey c) else Inl ''cbor''),
      pv_decode = (\<lambda>b. Inr (toy_cert b)),
      pv_hex_encode = (\<lambda>r. if r = replicate 32 1 then ''01'' else ''02''),
      pv_hex_decode = (\<lambda>s. Some (replicate 32 (if s = ''01'' then 1 else 2))),
      pv_base64_decode = (\<lambda>s. Some ((if s = ''one'' then 1 else 2) # replicate 64 0))\<rparr>"

abbreviation toy_request :: "octets \<Rightarrow> pairing_request" where
  "toy_request k \<equiv> \<lparr>pq_device_pubkey = k, pq_device_name = ''phone''\<rparr>"

lemma toy_lawful: "lawful toy"
  by (auto simp: lawful_def toy_def split: if_splits)

lemma toy_issue: "issue_at toy (toy_request k) 1000 = Inr
    \<lparr>sd_cert_bytes = k, sd_cert = toy_cert k, sd_signature = replicate 64 0\<rparr>"
  by (simp add: issue_at_def sign_cert_def toy_def toy_cert_def saturating_add_u64_def CERT_LIFETIME_SECS_def
      V1_CAPABILITIES_def u64_max_def)

lemma toy_decode: "decode_device_id toy i = Some (replicate 32 (if i = ''01'' then 1 else 2))"
  by (simp add: decode_device_id_def toy_def)


text \<open>A certificate of this Core authenticates its device from its issue until five minutes past one
  year later (the end saturates with the clock's 64 bits), exactly while the device is not revoked;
  revocation and expiry have their own errors.\<close>

theorem issued_certificate_lifetime:
  assumes "lawful p" and "issue_at p req issued = Inr sc"
  shows "validate_at p revoked (sd_cert_bytes sc @ sd_signature sc) now =
    (if min u64_max (issued + 31536000) + 300 \<le> max now 300 then Inl Expired
     else if pv_hash p (pq_device_pubkey req) \<in> revoked then Inl Revoked
     else Inr \<lparr>cx_device_id = pv_hash p (pq_device_pubkey req), cx_device_name = pq_device_name req,
               cx_capabilities = [''admin'']\<rparr>)"
  using assms by (rule certificate_lifetime)

theorem issued_certificate_lifetime_witness:
  "validate_at toy {} ([1] @ replicate 64 0) 31537299 =
     Inr \<lparr>cx_device_id = replicate 32 1, cx_device_name = ''phone'', cx_capabilities = [''admin'']\<rparr> \<and>
   validate_at toy {} ([1] @ replicate 64 0) 31537300 = Inl Expired"
  using issued_certificate_lifetime [OF toy_lawful toy_issue [of "[1]"], of "{}" 31537299]
    issued_certificate_lifetime [OF toy_lawful toy_issue [of "[1]"], of "{}" 31537300]
  by (simp add: u64_max_def toy_def)

text \<open>Where the query of the start-up mirror fails the Core goes on with an empty set: the certificate of
  a device whose revocation was answered is refused before the restart and valid after it.\<close>

theorem failed_mirror_readmits_revoked_device:
  assumes "lawful p" and "issue_at p req issued = Inr sc"
    and "decode_device_id p i = Some (pv_hash p (pq_device_pubkey req))"
    and "revoke_device_at p i now0 st = (Inr (), st1)"
    and "now < min u64_max (issued + 31536000) + 300" and "300 < now"
  shows "validate_at p (as_revoked st1) (sd_cert_bytes sc @ sd_signature sc) now = Inl Revoked \<and>
    validate_at p (as_revoked (auth_step p st1 (Restart False))) (sd_cert_bytes sc @ sd_signature sc) now =
      Inr \<lparr>cx_device_id = pv_hash p (pq_device_pubkey req), cx_device_name = pq_device_name req,
           cx_capabilities = [''admin'']\<rparr>"
proof -
  from revoke_cuts_off [OF assms(4)] assms(3) have "pv_hash p (pq_device_pubkey req) \<in> as_revoked st1"
    by (auto simp: cut_off_def)
  then show ?thesis
    unfolding certificate_lifetime [OF assms(1,2)] using assms(5,6) by simp
qed

lemma toy_revoke:
  "as_devices st = [(''01'', d)] \<Longrightarrow> de_revoked_at d = None \<Longrightarrow> \<exists>st1. revoke_device_at toy ''01'' 2000 st = (Inr (), st1)"
  by (simp add: revoke_device_at_def toy_decode mark_revoked_def)

theorem failed_mirror_readmits_revoked_device_witness:
  "\<exists>st st1. revoke_device_at toy ''01'' 2000 st = (Inr (), st1) \<and>
     validate_at toy (as_revoked st1) ([1] @ replicate 64 0) 5000 = Inl Revoked \<and>
     validate_at toy (as_revoked (auth_step toy st1 (Restart False))) ([1] @ replicate 64 0) 5000 \<noteq> Inl Revoked"
proof -
  define d where "d = \<lparr>de_name = ''phone'', de_public_key = [1], de_paired_at = 1000, de_last_seen_at = None,
    de_revoked_at = None, de_push_token = None, de_push_platform = None\<rparr>"
  let ?st = "no_devices\<lparr>as_devices := [(''01'', d)]\<rparr>"
  from toy_revoke [of ?st d] obtain st1 where rv: "revoke_device_at toy ''01'' 2000 ?st = (Inr (), st1)"
    by (auto simp: d_def)
  have "decode_device_id toy ''01'' = Some (pv_hash toy (pq_device_pubkey (toy_request [1])))"
    by (simp add: toy_decode) (simp add: toy_def)
  from failed_mirror_readmits_revoked_device [OF toy_lawful toy_issue this rv, of 5000] rv show ?thesis
    by (intro exI [of _ ?st] exI [of _ st1]) (simp add: u64_max_def)
qed

text \<open>A revocation whose handler was dropped at its await (the row is updated, nothing else happened)
  cannot be completed by repeating it: the repetition answers success and cuts the device off, but
  closes none of its sessions and leaves no audit record.\<close>

theorem interrupted_revocation_keeps_sessions:
  assumes "mark_revoked i now0 st = (True, st1)" and "decode_device_id p i = Some raw"
  shows "\<exists>st2. revoke_device_at p i now1 st1 = (Inr (), st2) \<and> raw \<in> as_revoked st2 \<and>
    as_closed st2 = as_closed st \<and> as_audit st2 = as_audit st"
  using assms
  by (auto simp: mark_revoked_def revoke_device_at_def revoke_again_def insert_revoked_def map_of_update_row
      split: option.splits if_splits)

theorem interrupted_revocation_keeps_sessions_witness:
  "\<exists>st st1 st2. mark_revoked ''01'' 2000 st = (True, st1) \<and> revoke_device_at toy ''01'' 3000 st1 = (Inr (), st2) \<and>
     as_closed st2 = as_closed st"
proof -
  define d where "d = \<lparr>de_name = ''phone'', de_public_key = [1], de_paired_at = 1000, de_last_seen_at = None,
    de_revoked_at = None, de_push_token = None, de_push_platform = None\<rparr>"
  let ?st = "no_devices\<lparr>as_devices := [(''01'', d)]\<rparr>"
  obtain st1 where m: "mark_revoked ''01'' 2000 ?st = (True, st1)" by (simp add: mark_revoked_def d_def)
  from interrupted_revocation_keeps_sessions [OF m toy_decode, of 3000] m show ?thesis by blast
qed

end
