(* ===== verification/Status.thy ===== *)
theory Status
  imports Prelude
begin

text \<open>
  The answers of the RPC handlers: a gRPC status and the mapping of the internal errors to it
  (\<open>core/src/error_map.rs\<close>). The details carry the code and the message of \<open>ConcertoError\<close>; its
  encoding is the protocol buffer library's work.
\<close>

datatype grpc_code =
    Unavailable
  | InternalCode
  | Unauthenticated
  | FailedPrecondition
  | InvalidArgument
  | NotFoundCode
  | PermissionDenied

record status =
  gs_code :: grpc_code
  gs_message :: string
  gs_details :: "(string \<times> string) option"

definition WIRE_CODES :: "(string \<times> grpc_code) list" where
  "WIRE_CODES =
     [(''io'', Unavailable), (''sqlx'', InternalCode), (''tonic'', InternalCode), (''pairing'', Unauthenticated),
      (''secrets'', FailedPrecondition), (''git'', InternalCode), (''validation'', InvalidArgument),
      (''not_found'', NotFoundCode), (''policy'', FailedPrecondition), (''policy.locked'', PermissionDenied),
      (''vcs'', InternalCode), (''vcs.not_authenticated'', FailedPrecondition),
      (''database.corrupt'', InternalCode), (''schema.downgrade'', FailedPrecondition), (''internal'', InternalCode)]"

definition error_to_status :: "error \<Rightarrow> status" where
  "error_to_status err =
     \<lparr>gs_code = (case map_of WIRE_CODES (wire_code err) of Some c \<Rightarrow> c | None \<Rightarrow> InternalCode),
      gs_message = error_display err,
      gs_details = Some (wire_code err, error_display err)\<rparr>"

definition status_with_concerto_code :: "grpc_code \<Rightarrow> string \<Rightarrow> string \<Rightarrow> status" where
  "status_with_concerto_code grpc_code code message =
     \<lparr>gs_code = grpc_code, gs_message = message, gs_details = Some (code, message)\<rparr>"

definition auth_invalid_cert_status :: "string \<Rightarrow> status" where
  "auth_invalid_cert_status message = status_with_concerto_code Unauthenticated ''auth.invalid_cert'' message"

definition auth_revoked_status :: "string \<Rightarrow> status" where
  "auth_revoked_status message = status_with_concerto_code PermissionDenied ''auth.revoked'' message"

definition concerto_code :: "status \<Rightarrow> string option" where
  "concerto_code s = map_option fst (gs_details s)"

text \<open>\<open>Status::invalid_argument\<close> and \<open>Status::not_found\<close>: no details.\<close>

definition invalid_argument :: "string \<Rightarrow> status" where
  "invalid_argument message = \<lparr>gs_code = InvalidArgument, gs_message = message, gs_details = None\<rparr>"

definition not_found :: "string \<Rightarrow> status" where
  "not_found message = \<lparr>gs_code = NotFoundCode, gs_message = message, gs_details = None\<rparr>"

type_synonym 'a response = "status + 'a"

fun answer :: "'a result \<Rightarrow> 'a response" where
  "answer (Inl e) = Inl (error_to_status e)"
| "answer (Inr a) = Inr a"

lemma answer_Inr_iff [simp]: "answer r = Inr a \<longleftrightarrow> r = Inr a"
  by (cases r) auto

text \<open>No variant falls through to the catch-all, and the code rides in the details.\<close>

lemma error_to_status_mapped: "map_of WIRE_CODES (wire_code err) \<noteq> None"
  by (cases err) (simp_all add: WIRE_CODES_def)

lemma concerto_code_error_to_status [simp]: "concerto_code (error_to_status err) = Some (wire_code err)"
  by (simp add: concerto_code_def error_to_status_def)

end
