(* ===== verification/Notifications.thy ===== *)
theory Notifications
  imports Tables DeviceAuth Status
begin

text \<open>
  Notifications: the kinds and their database forms (\<open>core/src/notifications/model.rs\<close>), the rows and
  statements (\<open>persist/src/notifications.rs\<close>), preferences and de-duplication (\<open>prefs.rs\<close>, \<open>dedup.rs\<close>), the
  wakeup of the devices (\<open>fanout.rs\<close>, \<open>push/mod.rs\<close>), the chips (\<open>chip_dispatch.rs\<close>), the handle that wires
  them (\<open>handle.rs\<close>) and its callers, the RPC handlers and the sink of the Maestro's \<open>notify_user\<close>.

  The push backend, the JSON codec, the set of devices that view a workarea, the clock and the fresh
  identifiers are arguments. Rows that agree on \<open>created_at\<close> are read in the order of the table; the
  query leaves it open.
\<close>

section \<open>Kinds\<close>

datatype notification_kind =
    ToolApprovalNeeded
  | AgentCompletedWithMessage
  | AgentCrashed
  | PrStateChanged
  | CheckRunFailed
  | ScheduleRunCompleted

datatype subject_kind = SubWorkspace | SubWorkarea | SubSession | SubPullRequest | SubScheduleRun

datatype severity = Low | Medium | High

fun kind_as_db :: "notification_kind \<Rightarrow> string" where
  "kind_as_db ToolApprovalNeeded = ''tool_approval_needed''"
| "kind_as_db AgentCompletedWithMessage = ''agent_completed_with_message''"
| "kind_as_db AgentCrashed = ''agent_crashed''"
| "kind_as_db PrStateChanged = ''pr_state_changed''"
| "kind_as_db CheckRunFailed = ''check_run_failed''"
| "kind_as_db ScheduleRunCompleted = ''schedule_run_completed''"

definition kind_from_db :: "string \<Rightarrow> notification_kind option" where
  "kind_from_db s =
     (if s = ''tool_approval_needed'' then Some ToolApprovalNeeded
      else if s = ''agent_completed_with_message'' then Some AgentCompletedWithMessage
      else if s = ''agent_crashed'' then Some AgentCrashed
      else if s = ''pr_state_changed'' then Some PrStateChanged
      else if s = ''check_run_failed'' then Some CheckRunFailed
      else if s = ''schedule_run_completed'' then Some ScheduleRunCompleted
      else None)"

fun default_severity :: "notification_kind \<Rightarrow> severity" where
  "default_severity ToolApprovalNeeded = High"
| "default_severity AgentCrashed = High"
| "default_severity AgentCompletedWithMessage = Medium"
| "default_severity PrStateChanged = Low"
| "default_severity CheckRunFailed = Low"
| "default_severity ScheduleRunCompleted = Low"

fun subject_as_db :: "subject_kind \<Rightarrow> string" where
  "subject_as_db SubWorkspace = ''workspace''"
| "subject_as_db SubWorkarea = ''workarea''"
| "subject_as_db SubSession = ''session''"
| "subject_as_db SubPullRequest = ''pull_request''"
| "subject_as_db SubScheduleRun = ''schedule_run''"

definition subject_from_db :: "string \<Rightarrow> subject_kind option" where
  "subject_from_db s =
     (if s = ''workspace'' then Some SubWorkspace
      else if s = ''workarea'' then Some SubWorkarea
      else if s = ''session'' then Some SubSession
      else if s = ''pull_request'' then Some SubPullRequest
      else if s = ''schedule_run'' then Some SubScheduleRun
      else None)"

fun severity_as_db :: "severity \<Rightarrow> string" where
  "severity_as_db Low = ''low''"
| "severity_as_db Medium = ''medium''"
| "severity_as_db High = ''high''"

definition severity_from_db :: "string \<Rightarrow> severity option" where
  "severity_from_db s =
     (if s = ''low'' then Some Low else if s = ''medium'' then Some Medium
      else if s = ''high'' then Some High else None)"

record chip =
  ch_rule_id :: string
  ch_workarea_id :: string
  ch_title :: string
  ch_priority :: int
  ch_created_at_ms :: int
  ch_action :: string

record tool_approval_context =
  ta_approval_id :: string
  ta_session_id :: string
  ta_tool_name :: string
  ta_payload_json :: string
  ta_urgent :: bool
  ta_destructive_label :: "string option"

record notify_request =
  nr_kind :: notification_kind
  nr_subject_kind :: subject_kind
  nr_subject_id :: string
  nr_workspace_id :: "string option"
  nr_workarea_id :: "string option"
  nr_session_id :: "string option"
  nr_title :: string
  nr_body :: string
  nr_chips :: "chip list"
  nr_approval :: "tool_approval_context option"
  nr_severity :: "severity option"

definition effective_severity :: "notify_request \<Rightarrow> severity" where
  "effective_severity req = (case nr_severity req of Some s \<Rightarrow> s | None \<Rightarrow> default_severity (nr_kind req))"

section \<open>Rows and statements\<close>

record notification_row =
  n_kind :: string
  n_subject_kind :: string
  n_subject_id :: string
  n_workspace_id :: "string option"
  n_workarea_id :: "string option"
  n_session_id :: "string option"
  n_title :: string
  n_body :: string
  n_chips_json :: "string option"
  n_approval_json :: "string option"
  n_severity :: string
  n_created_at :: int
  n_read_at :: "int option"
  n_superseded_by :: "string option"
  n_action_taken :: "string option"
  n_action_taken_at :: "int option"
  n_action_taken_by :: "string option"

record push_delivery_row =
  dv_delivered_at :: "int option"
  dv_fetched_at :: "int option"

record push_device = device_entry +
  de_dnd_until :: "int option"

record inbox =
  ib_rows :: "notification_row table"
  ib_deliveries :: "((string \<times> string) \<times> push_delivery_row) list"
  ib_devices :: "push_device table"
  ib_db :: database

text \<open>The constraints of the migration: the listed values, the keys, the references.\<close>

definition has_key :: "'r table \<Rightarrow> string \<Rightarrow> bool" where
  "has_key t k \<longleftrightarrow> k \<in> fst ` set t"

definition refers :: "'r table \<Rightarrow> string option \<Rightarrow> bool" where
  "refers t k = (case k of None \<Rightarrow> True | Some i \<Rightarrow> has_key t i)"

definition row_constraints :: "inbox \<Rightarrow> notification_row \<Rightarrow> unit result" where
  "row_constraints s r =
     (if n_kind r \<notin> {''tool_approval_needed'', ''agent_completed_with_message'', ''agent_crashed'',
            ''pr_state_changed'', ''check_run_failed'', ''schedule_run_completed''}
         \<or> n_subject_kind r \<notin> {''workspace'', ''workarea'', ''session'', ''pull_request'', ''schedule_run''}
         \<or> n_severity r \<notin> {''low'', ''medium'', ''high''}
      then Inl (Sqlx ''CHECK constraint failed'')
      else if \<not> (refers (db_workspaces (ib_db s)) (n_workspace_id r) \<and> refers (db_workareas (ib_db s)) (n_workarea_id r)
         \<and> refers (db_sessions (ib_db s)) (n_session_id r))
      then Inl (Sqlx ''FOREIGN KEY constraint failed'')
      else Inr ())"

definition notifications_insert :: "string \<Rightarrow> notification_row \<Rightarrow> inbox \<Rightarrow> string result \<times> inbox" where
  "notifications_insert i r s =
     (if has_key (ib_rows s) i then (Inl (Sqlx ''UNIQUE constraint failed: notifications.id''), s)
      else case row_constraints s r of
             Inl e \<Rightarrow> (Inl e, s)
           | Inr _ \<Rightarrow> (Inr i, s\<lparr>ib_rows := ib_rows s @ [(i, r)]\<rparr>))"

definition notifications_get :: "inbox \<Rightarrow> string \<Rightarrow> notification_row option" where
  "notifications_get s i = map_of (ib_rows s) i"

text \<open>\<open>ORDER BY created_at DESC\<close>.\<close>

definition newest_first :: "notification_row table \<Rightarrow> notification_row table" where
  "newest_first t = sort_key (\<lambda>(i, r). - n_created_at r) t"

definition list_inbox ::
  "inbox \<Rightarrow> string option \<Rightarrow> string option \<Rightarrow> bool \<Rightarrow> nat \<Rightarrow> notification_row table" where
  "list_inbox s workspace_id workarea_id unread_only limit =
     take (if limit = 0 then 100 else limit)
       (newest_first (filter (\<lambda>(i, r).
          (workspace_id = None \<or> n_workspace_id r = workspace_id)
          \<and> (workarea_id = None \<or> n_workarea_id r = workarea_id)
          \<and> (\<not> unread_only \<or> n_read_at r = None) \<and> n_superseded_by r = None) (ib_rows s)))"

text \<open>An \<open>UPDATE\<close> of the row with a key where a condition holds, and the count of rows it changed.\<close>

definition update_where ::
  "string \<Rightarrow> (notification_row \<Rightarrow> bool) \<Rightarrow> (notification_row \<Rightarrow> notification_row) \<Rightarrow> inbox \<Rightarrow> nat \<times> inbox" where
  "update_where i P f s =
     (length (filter (\<lambda>(j, r). j = i \<and> P r) (ib_rows s)),
      s\<lparr>ib_rows := map (\<lambda>(j, r). if j = i \<and> P r then (j, f r) else (j, r)) (ib_rows s)\<rparr>)"

definition notifications_mark_read :: "string \<Rightarrow> int \<Rightarrow> inbox \<Rightarrow> nat \<times> inbox" where
  "notifications_mark_read i read_at s =
     update_where i (\<lambda>r. n_read_at r = None) (\<lambda>r. r\<lparr>n_read_at := Some read_at\<rparr>) s"

definition set_action_taken ::
  "string \<Rightarrow> string \<Rightarrow> int \<Rightarrow> string option \<Rightarrow> inbox \<Rightarrow> nat result \<times> inbox" where
  "set_action_taken i action at device s =
     (let (n, s') = update_where i (\<lambda>r. n_action_taken r = None)
            (\<lambda>r. r\<lparr>n_action_taken := Some action, n_action_taken_at := Some at, n_action_taken_by := device\<rparr>) s
      in if 0 < n \<and> \<not> refers (ib_devices s) device then (Inl (Sqlx ''FOREIGN KEY constraint failed''), s)
         else (Inr n, s'))"

definition set_superseded :: "string \<Rightarrow> string \<Rightarrow> inbox \<Rightarrow> nat result \<times> inbox" where
  "set_superseded i superseded_by s =
     (let (n, s') = update_where i (\<lambda>r. True) (\<lambda>r. r\<lparr>n_superseded_by := Some superseded_by\<rparr>) s
      in if 0 < n \<and> \<not> has_key (ib_rows s) superseded_by then (Inl (Sqlx ''FOREIGN KEY constraint failed''), s)
         else (Inr n, s'))"

definition update_body_and_at :: "string \<Rightarrow> string \<Rightarrow> int \<Rightarrow> inbox \<Rightarrow> nat \<times> inbox" where
  "update_body_and_at i body at s = update_where i (\<lambda>r. True) (\<lambda>r. r\<lparr>n_body := body, n_created_at := at\<rparr>) s"

definition coalesce :: "'a option \<Rightarrow> 'a option \<Rightarrow> 'a option" where
  "coalesce a b = (case a of Some x \<Rightarrow> Some x | None \<Rightarrow> b)"

definition upsert_delivery ::
  "string \<Rightarrow> string \<Rightarrow> int option \<Rightarrow> int option \<Rightarrow> inbox \<Rightarrow> unit result \<times> inbox" where
  "upsert_delivery i device delivered_at fetched_at s =
     (if \<not> (has_key (ib_rows s) i \<and> has_key (ib_devices s) device)
      then (Inl (Sqlx ''FOREIGN KEY constraint failed''), s)
      else if (i, device) \<in> fst ` set (ib_deliveries s)
      then (Inr (), s\<lparr>ib_deliveries := map (\<lambda>(k, d). if k = (i, device)
             then (k, \<lparr>dv_delivered_at = coalesce delivered_at (dv_delivered_at d),
                       dv_fetched_at = coalesce fetched_at (dv_fetched_at d)\<rparr>) else (k, d)) (ib_deliveries s)\<rparr>)
      else (Inr (), s\<lparr>ib_deliveries := ib_deliveries s
             @ [((i, device), \<lparr>dv_delivered_at = delivered_at, dv_fetched_at = fetched_at\<rparr>)]\<rparr>))"

definition find_unread_for_dedup_key ::
  "inbox \<Rightarrow> string option \<Rightarrow> string option \<Rightarrow> string \<Rightarrow> string \<Rightarrow> int \<Rightarrow> (string \<times> notification_row) option" where
  "find_unread_for_dedup_key s workspace_id workarea_id kind subject_id since =
     (case newest_first (filter (\<lambda>(i, r).
          (case workarea_id of
             Some w \<Rightarrow> n_workarea_id r = Some w
           | None \<Rightarrow> n_workarea_id r = None \<and> n_workspace_id r = workspace_id)
          \<and> n_kind r = kind \<and> n_subject_id r = subject_id \<and> since \<le> n_created_at r
          \<and> n_read_at r = None \<and> n_superseded_by r = None) (ib_rows s)) of
        [] \<Rightarrow> None
      | x # _ \<Rightarrow> Some x)"

definition pushable_row :: "int \<Rightarrow> string \<times> push_device \<Rightarrow> (string \<times> string \<times> string) option" where
  "pushable_row now = (\<lambda>(i, d).
     if de_revoked_at d = None \<and> (case de_dnd_until d of None \<Rightarrow> True | Some until \<Rightarrow> until \<le> now)
     then Option.bind (de_push_token d) (\<lambda>token. map_option (\<lambda>platform. (i, token, platform)) (de_push_platform d))
     else None)"

definition list_pushable_devices :: "inbox \<Rightarrow> int \<Rightarrow> (string \<times> string \<times> string) list" where
  "list_pushable_devices s now =
     sort_by_key (\<lambda>(i, token, platform). str_key i) (List.map_filter (pushable_row now) (ib_devices s))"

definition clear_push_token :: "string \<Rightarrow> inbox \<Rightarrow> inbox" where
  "clear_push_token device s =
     s\<lparr>ib_devices := sql_update device (\<lambda>d. d\<lparr>de_push_token := None\<rparr>) (ib_devices s)\<rparr>"

definition count_older_than :: "inbox \<Rightarrow> int \<Rightarrow> nat" where
  "count_older_than s before = length (filter (\<lambda>(i, r). n_created_at r < before) (ib_rows s))"

section \<open>Preferences and de-duplication\<close>

fun default_push_for_kind :: "notification_kind \<Rightarrow> bool" where
  "default_push_for_kind ToolApprovalNeeded = True"
| "default_push_for_kind AgentCrashed = True"
| "default_push_for_kind AgentCompletedWithMessage = True"
| "default_push_for_kind _ = False"

definition should_push :: "notification_kind \<Rightarrow> bool \<Rightarrow> int option \<Rightarrow> int \<Rightarrow> bool" where
  "should_push kind workspace_opted_out device_dnd_until now =
     (if workspace_opted_out then False
      else if (case device_dnd_until of Some until \<Rightarrow> now < until | None \<Rightarrow> False) then False
      else default_push_for_kind kind)"

definition parse_workspace_opt_out :: "(string \<Rightarrow> json option) \<Rightarrow> string \<Rightarrow> bool" where
  "parse_workspace_opt_out from_str settings_json =
     (case from_str settings_json of
        None \<Rightarrow> False
      | Some v \<Rightarrow>
          (case json_get v ''notifications_opt_out'' of
             None \<Rightarrow> False
           | Some w \<Rightarrow> (case as_bool w of None \<Rightarrow> False | Some b \<Rightarrow> b)))"

definition DEDUP_WINDOW_MS :: int where "DEDUP_WINDOW_MS = 5 * 60 * 1000"
definition RETENTION_DAYS :: int where "RETENTION_DAYS = 90"

definition retention_floor_ms :: "int \<Rightarrow> int" where
  "retention_floor_ms now_ms = now_ms - RETENTION_DAYS * 24 * 60 * 60 * 1000"

datatype dedup_decision = InsertNew | UpdateExisting string

definition dedup_decide :: "(string \<times> notification_row) option \<Rightarrow> int \<Rightarrow> int \<Rightarrow> dedup_decision" where
  "dedup_decide existing now_ms window_ms =
     (case existing of
        Some (i, r) \<Rightarrow> if sat_i64 (now_ms - n_created_at r) \<le> window_ms then UpdateExisting i else InsertNew
      | None \<Rightarrow> InsertNew)"

section \<open>The wakeup\<close>

datatype push_platform = Apns | Fcm | Expo

fun platform_as_db :: "push_platform \<Rightarrow> string" where
  "platform_as_db Apns = ''apns''"
| "platform_as_db Fcm = ''fcm''"
| "platform_as_db Expo = ''expo''"

definition platform_from_db :: "string \<Rightarrow> push_platform option" where
  "platform_from_db s =
     (if s = ''apns'' then Some Apns else if s = ''fcm'' then Some Fcm
      else if s = ''expo'' then Some Expo else None)"

record push_target =
  pt_device_id :: string
  pt_token :: string
  pt_platform :: push_platform

record wakeup_body =
  wb_notification_id :: string
  wb_kind :: string
  wb_source :: string

definition WAKEUP_SOURCE :: string where "WAKEUP_SOURCE = ''concerto-relay''"

definition wakeup_for :: "string \<Rightarrow> string \<Rightarrow> wakeup_body" where
  "wakeup_for i kind = \<lparr>wb_notification_id = i, wb_kind = kind, wb_source = WAKEUP_SOURCE\<rparr>"

record delivery_report =
  dr_ok :: bool
  dr_detail :: "string option"

definition report_failed :: "string \<Rightarrow> delivery_report" where
  "report_failed detail = \<lparr>dr_ok = False, dr_detail = Some detail\<rparr>"

definition is_device_not_registered :: "delivery_report \<Rightarrow> bool" where
  "is_device_not_registered r \<longleftrightarrow> dr_detail r = Some ''DeviceNotRegistered''"

text \<open>
  The backend answers the n-th attempt for a target. \<open>ne_view\<close> is the oracle of the devices that view a
  workarea; the default one answers none.
\<close>

record notify_env =
  ne_window :: int
  ne_view :: "string option \<Rightarrow> string set"
  ne_send :: "push_target \<Rightarrow> wakeup_body \<Rightarrow> nat \<Rightarrow> delivery_report result"
  ne_from_str :: "string \<Rightarrow> json option"
  ne_to_string :: "json \<Rightarrow> string result"
  ne_chips_to_string :: "chip list \<Rightarrow> string option"
  ne_chips_from_str :: "string \<Rightarrow> chip list option"
  ne_approval_to_string :: "tool_approval_context \<Rightarrow> string option"
  ne_approval_from_str :: "string \<Rightarrow> tool_approval_context option"

definition no_active_viewing :: "string option \<Rightarrow> string set" where
  "no_active_viewing w = {}"

definition MAX_SEND_ATTEMPTS :: nat where "MAX_SEND_ATTEMPTS = 3"

definition eligible_targets :: "(string \<times> string \<times> string) list \<Rightarrow> push_target list" where
  "eligible_targets rows =
     List.map_filter (\<lambda>(device_id, token, platform).
       map_option (\<lambda>p. \<lparr>pt_device_id = device_id, pt_token = token, pt_platform = p\<rparr>) (platform_from_db platform)) rows"

definition plan_fanout :: "push_target list \<Rightarrow> string set \<Rightarrow> push_target list" where
  "plan_fanout eligible actively_viewing = filter (\<lambda>t. pt_device_id t \<notin> actively_viewing) eligible"

text \<open>The attempts for one target, and the calls made of the backend.\<close>

fun send_attempts ::
  "(nat \<Rightarrow> delivery_report result) \<Rightarrow> nat list \<Rightarrow> delivery_report \<Rightarrow> delivery_report \<times> nat list" where
  "send_attempts send [] report = (report, [])"
| "send_attempts send (attempt # rest) report =
     (case send attempt of
        Inr r \<Rightarrow> (r, [attempt])
      | Inl e \<Rightarrow>
          (let report = report_failed (''transport: '' @ error_display e)
           in if attempt = MAX_SEND_ATTEMPTS then (report, [attempt])
              else (let (final, calls) = send_attempts send rest report in (final, attempt # calls))))"

definition send_to :: "notify_env \<Rightarrow> wakeup_body \<Rightarrow> push_target \<Rightarrow> delivery_report \<times> nat list" where
  "send_to env body t =
     send_attempts (ne_send env t body) [1..<MAX_SEND_ATTEMPTS + 1] (report_failed ''unsent'')"

definition deliver_wakeups :: "notify_env \<Rightarrow> push_target list \<Rightarrow> wakeup_body \<Rightarrow> (string \<times> delivery_report) list" where
  "deliver_wakeups env targets body = map (\<lambda>t. (pt_device_id t, fst (send_to env body t))) targets"

text \<open>What the backend was asked, in order.\<close>

definition wakeup_calls :: "notify_env \<Rightarrow> push_target list \<Rightarrow> wakeup_body \<Rightarrow> (push_target \<times> wakeup_body) list" where
  "wakeup_calls env targets body = concat (map (\<lambda>t. map (\<lambda>k. (t, body)) (snd (send_to env body t))) targets)"

section \<open>The handle\<close>

datatype notification_event =
    Created string
  | Updated string
  | Read string
  | Acted string string string

text \<open>What a call does: the rows afterwards, the events sent, the calls made of the backend.\<close>

record 'a outcome =
  oc_result :: "'a result"
  oc_inbox :: inbox
  oc_events :: "notification_event list"
  oc_sent :: "(push_target \<times> wakeup_body) list"

fun record_deliveries :: "string \<Rightarrow> int \<Rightarrow> (string \<times> delivery_report) list \<Rightarrow> inbox \<Rightarrow> unit result \<times> inbox" where
  "record_deliveries i now [] s = (Inr (), s)"
| "record_deliveries i now ((device, report) # rest) s =
     (if dr_ok report then
        (case upsert_delivery i device (Some now) None s of
           (Inl e, s') \<Rightarrow> (Inl e, s')
         | (Inr _, s') \<Rightarrow> record_deliveries i now rest s')
      else if is_device_not_registered report then record_deliveries i now rest (clear_push_token device s)
      else record_deliveries i now rest s)"

definition fanout_targets :: "notify_env \<Rightarrow> string option \<Rightarrow> int \<Rightarrow> inbox \<Rightarrow> push_target list" where
  "fanout_targets env workarea_id now s =
     plan_fanout (eligible_targets (list_pushable_devices s now)) (ne_view env workarea_id)"

definition fan_out ::
  "notify_env \<Rightarrow> string \<Rightarrow> notification_kind \<Rightarrow> string option \<Rightarrow> int \<Rightarrow> inbox \<Rightarrow> unit outcome" where
  "fan_out env i kind workarea_id now s =
     (let targets = fanout_targets env workarea_id now s
      in if targets = [] then \<lparr>oc_result = Inr (), oc_inbox = s, oc_events = [], oc_sent = []\<rparr>
         else (let body = wakeup_for i (kind_as_db kind);
                   (r, s') = record_deliveries i now (deliver_wakeups env targets body) s
               in \<lparr>oc_result = r, oc_inbox = s', oc_events = [], oc_sent = wakeup_calls env targets body\<rparr>))"

definition new_row :: "notify_env \<Rightarrow> notify_request \<Rightarrow> int \<Rightarrow> notification_row" where
  "new_row env req now =
     \<lparr>n_kind = kind_as_db (nr_kind req), n_subject_kind = subject_as_db (nr_subject_kind req),
      n_subject_id = nr_subject_id req, n_workspace_id = nr_workspace_id req,
      n_workarea_id = nr_workarea_id req, n_session_id = nr_session_id req,
      n_title = nr_title req, n_body = nr_body req,
      n_chips_json = (if nr_chips req = [] then None else ne_chips_to_string env (nr_chips req)),
      n_approval_json = Option.bind (nr_approval req) (ne_approval_to_string env),
      n_severity = severity_as_db (effective_severity req), n_created_at = now,
      n_read_at = None, n_superseded_by = None, n_action_taken = None, n_action_taken_at = None,
      n_action_taken_by = None\<rparr>"

definition opted_out :: "notify_env \<Rightarrow> inbox \<Rightarrow> string option \<Rightarrow> bool" where
  "opted_out env s workspace_id =
     (case workspace_id of
        None \<Rightarrow> False
      | Some ws \<Rightarrow>
          (case get_settings_json (ib_db s) ws of
             None \<Rightarrow> False
           | Some settings \<Rightarrow> parse_workspace_opt_out (ne_from_str env) settings))"

definition notify :: "notify_env \<Rightarrow> int \<Rightarrow> string \<Rightarrow> notify_request \<Rightarrow> inbox \<Rightarrow> string outcome" where
  "notify env now fresh req s =
     (case dedup_decide (find_unread_for_dedup_key s (nr_workspace_id req) (nr_workarea_id req)
             (kind_as_db (nr_kind req)) (nr_subject_id req) (now - ne_window env)) now (ne_window env) of
        UpdateExisting i \<Rightarrow>
          \<lparr>oc_result = Inr i, oc_inbox = snd (update_body_and_at i (nr_body req) now s),
           oc_events = [Updated i], oc_sent = []\<rparr>
      | InsertNew \<Rightarrow>
          (case notifications_insert fresh (new_row env req now) s of
             (Inl e, s') \<Rightarrow> \<lparr>oc_result = Inl e, oc_inbox = s', oc_events = [], oc_sent = []\<rparr>
           | (Inr _, s') \<Rightarrow>
               if should_push (nr_kind req) (opted_out env s' (nr_workspace_id req)) None now then
                 (let f = fan_out env fresh (nr_kind req) (nr_workarea_id req) now s'
                  in \<lparr>oc_result = and_then (oc_result f) (\<lambda>_. Inr fresh), oc_inbox = oc_inbox f,
                      oc_events = [Created fresh], oc_sent = oc_sent f\<rparr>)
               else \<lparr>oc_result = Inr fresh, oc_inbox = s', oc_events = [Created fresh], oc_sent = []\<rparr>))"

text \<open>A row as the wire has it: text that does not parse is left out.\<close>

record proto_notification =
  pn_id :: string
  pn_kind :: "notification_kind option"
  pn_subject_kind :: "subject_kind option"
  pn_row :: notification_row
  pn_chips :: "chip list"
  pn_approval :: "tool_approval_context option"

definition stored_chips :: "notify_env \<Rightarrow> notification_row \<Rightarrow> chip list" where
  "stored_chips env r =
     (case Option.bind (n_chips_json r) (ne_chips_from_str env) of None \<Rightarrow> [] | Some cs \<Rightarrow> cs)"

definition row_to_proto :: "notify_env \<Rightarrow> string \<times> notification_row \<Rightarrow> proto_notification" where
  "row_to_proto env = (\<lambda>(i, r).
     \<lparr>pn_id = i, pn_kind = kind_from_db (n_kind r), pn_subject_kind = subject_from_db (n_subject_kind r),
      pn_row = r, pn_chips = stored_chips env r,
      pn_approval = Option.bind (n_approval_json r) (ne_approval_from_str env)\<rparr>)"

definition get_inbox ::
  "notify_env \<Rightarrow> string option \<Rightarrow> string option \<Rightarrow> bool \<Rightarrow> nat \<Rightarrow> inbox \<Rightarrow> proto_notification list" where
  "get_inbox env workspace_id workarea_id unread_only limit s =
     map (row_to_proto env) (list_inbox s workspace_id workarea_id unread_only limit)"

definition fetch_for_device ::
  "notify_env \<Rightarrow> string \<Rightarrow> string \<Rightarrow> int \<Rightarrow> inbox \<Rightarrow> proto_notification option result \<times> inbox" where
  "fetch_for_device env i device now s =
     (case notifications_get s i of
        None \<Rightarrow> (Inr None, s)
      | Some r \<Rightarrow>
          (case upsert_delivery i device None (Some now) s of
             (Inl e, s') \<Rightarrow> (Inl e, s')
           | (Inr _, s') \<Rightarrow> (Inr (Some (row_to_proto env (i, r))), s')))"

definition mark_read :: "string \<Rightarrow> int \<Rightarrow> inbox \<Rightarrow> unit outcome" where
  "mark_read i now s =
     (let (affected, s') = notifications_mark_read i now s
      in \<lparr>oc_result = Inr (), oc_inbox = s', oc_events = (if 0 < affected then [Read i] else []), oc_sent = []\<rparr>)"

section \<open>Chips\<close>

datatype chip_dispatch = ResolveApproval string | SendMessage string | Navigate string

definition classify_action :: "string \<Rightarrow> chip_dispatch" where
  "classify_action action =
     (let a = trim action; lower = to_ascii_lowercase a
      in if starts_with_str lower ''approve'' \<or> starts_with_str lower ''deny''
            \<or> starts_with_str lower ''reject'' \<or> starts_with_str lower ''resolve''
         then ResolveApproval a
         else if starts_with_str lower ''send'' \<or> starts_with_str lower ''message''
            \<or> starts_with_str lower ''reply'' \<or> starts_with_str lower ''resume''
         then SendMessage a
         else Navigate a)"

record act_outcome =
  ao_dispatch :: chip_dispatch
  ao_already_resolved :: bool

definition act_on_chip_row ::
  "notify_env \<Rightarrow> string \<Rightarrow> string \<Rightarrow> string \<Rightarrow> int \<Rightarrow> inbox \<Rightarrow> act_outcome result \<times> inbox" where
  "act_on_chip_row env i chip_id by_device now s =
     (case notifications_get s i of
        None \<Rightarrow> (Inl (NotFound (''notification.unknown: '' @ i)), s)
      | Some r \<Rightarrow>
          (case find (\<lambda>c. ch_rule_id c = chip_id) (stored_chips env r) of
             None \<Rightarrow> (Inl (NotFound (''chip.unknown: '' @ chip_id)), s)
           | Some c \<Rightarrow>
               (case set_action_taken i chip_id now (Some by_device) s of
                  (Inl e, s') \<Rightarrow> (Inl e, s')
                | (Inr affected, s') \<Rightarrow>
                    (Inr \<lparr>ao_dispatch = classify_action (ch_action c), ao_already_resolved = (affected = 0)\<rparr>, s'))))"

definition act_on_chip :: "notify_env \<Rightarrow> string \<Rightarrow> string \<Rightarrow> string \<Rightarrow> int \<Rightarrow> inbox \<Rightarrow> act_outcome outcome" where
  "act_on_chip env i chip_id by_device now s =
     (case act_on_chip_row env i chip_id by_device now s of
        (Inl e, s') \<Rightarrow> \<lparr>oc_result = Inl e, oc_inbox = s', oc_events = [], oc_sent = []\<rparr>
      | (Inr a, s') \<Rightarrow>
          \<lparr>oc_result = Inr a, oc_inbox = s',
           oc_events = (if ao_already_resolved a then [] else [Acted i chip_id by_device]), oc_sent = []\<rparr>)"

section \<open>The workspace's switch\<close>

definition map_insert :: "string \<Rightarrow> json \<Rightarrow> (string \<times> json) list \<Rightarrow> (string \<times> json) list" where
  "map_insert k v m =
     (if k \<in> fst ` set m then map (\<lambda>(j, w). if j = k then (j, v) else (j, w)) m else m @ [(k, v)])"

definition set_settings_json_key ::
  "notify_env \<Rightarrow> string \<Rightarrow> string \<Rightarrow> json \<Rightarrow> database \<Rightarrow> unit result \<times> database" where
  "set_settings_json_key env ws key v db =
     (let obj = (case get_settings_json db ws of
            None \<Rightarrow> []
          | Some s \<Rightarrow> (case ne_from_str env s of Some (JObject m) \<Rightarrow> m | _ \<Rightarrow> []))
      in case ne_to_string env (JObject (map_insert key v obj)) of
           Inl e \<Rightarrow> (Inl (Internal (''serialize settings_json: '' @ error_display e)), db)
         | Inr payload \<Rightarrow>
             (Inr (), db\<lparr>db_workspaces := sql_update ws (\<lambda>r. r\<lparr>ws_settings_json := payload\<rparr>) (db_workspaces db)\<rparr>))"

definition set_workspace_opt_out :: "notify_env \<Rightarrow> string \<Rightarrow> bool \<Rightarrow> inbox \<Rightarrow> unit result \<times> inbox" where
  "set_workspace_opt_out env ws opt_out s =
     (let (r, db) = set_settings_json_key env ws ''notifications_opt_out'' (JBool opt_out) (ib_db s)
      in (r, s\<lparr>ib_db := db\<rparr>))"

section \<open>Callers\<close>

datatype notify_severity = NsLow | NsMedium | NsHigh

definition severity_from_wire :: "string \<Rightarrow> notify_severity" where
  "severity_from_wire s = (if s = ''low'' then NsLow else if s = ''high'' then NsHigh else NsMedium)"

fun map_severity :: "notify_severity \<Rightarrow> severity" where
  "map_severity NsLow = Low"
| "map_severity NsMedium = Medium"
| "map_severity NsHigh = High"

text \<open>The subject is the Maestro's session where the sink knows it, else a constant.\<close>

definition sink_subject :: "string option \<Rightarrow> string" where
  "sink_subject subject_id = (case subject_id of Some i \<Rightarrow> i | None \<Rightarrow> ''maestro'')"

definition request_for :: "string \<Rightarrow> string \<Rightarrow> notify_severity \<Rightarrow> notify_request" where
  "request_for subject_id body sev =
     \<lparr>nr_kind = AgentCompletedWithMessage, nr_subject_kind = SubSession, nr_subject_id = subject_id,
      nr_workspace_id = None, nr_workarea_id = None, nr_session_id = None, nr_title = ''Concerto'',
      nr_body = body, nr_chips = [], nr_approval = None, nr_severity = Some (map_severity sev)\<rparr>"

definition notify_user ::
  "notify_env \<Rightarrow> string option \<Rightarrow> int \<Rightarrow> string \<Rightarrow> string \<Rightarrow> string \<Rightarrow> inbox \<Rightarrow> string outcome" where
  "notify_user env subject now fresh body sev s =
     notify env now fresh (request_for (sink_subject subject) body (severity_from_wire sev)) s"

definition rpc_get_notification ::
  "notify_env \<Rightarrow> string \<Rightarrow> string \<Rightarrow> int \<Rightarrow> inbox \<Rightarrow> proto_notification response \<times> inbox" where
  "rpc_get_notification env i device now s =
     (if i = [] then (Inl (invalid_argument ''id is required''), s)
      else case fetch_for_device env i device now s of
             (Inl e, s') \<Rightarrow> (Inl (error_to_status e), s')
           | (Inr None, s') \<Rightarrow> (Inl (not_found (''notification.unknown: '' @ i)), s')
           | (Inr (Some n), s') \<Rightarrow> (Inr n, s'))"

definition rpc_mark_read :: "string \<Rightarrow> int \<Rightarrow> inbox \<Rightarrow> unit response \<times> inbox \<times> notification_event list" where
  "rpc_mark_read i now s =
     (if i = [] then (Inl (invalid_argument ''id is required''), s, [])
      else (let u = mark_read i now s in (answer (oc_result u), oc_inbox u, oc_events u)))"

fun dispatch_on_wire :: "chip_dispatch \<Rightarrow> string \<times> string" where
  "dispatch_on_wire (ResolveApproval decision) = (''resolve_approval'', decision)"
| "dispatch_on_wire (SendMessage prompt) = (''send_message'', prompt)"
| "dispatch_on_wire (Navigate target) = (''navigate'', target)"

definition rpc_act_on_chip ::
  "notify_env \<Rightarrow> string \<Rightarrow> string \<Rightarrow> string \<Rightarrow> int \<Rightarrow> inbox \<Rightarrow>
     (bool \<times> string \<times> string) response \<times> inbox \<times> notification_event list" where
  "rpc_act_on_chip env i chip_id device now s =
     (if i = [] \<or> chip_id = [] then (Inl (invalid_argument ''notification_id and chip_id are required''), s, [])
      else (let a = act_on_chip env i chip_id device now s
            in (answer (and_then (oc_result a) (\<lambda>r. Inr (ao_already_resolved r, dispatch_on_wire (ao_dispatch r)))),
                oc_inbox a, oc_events a)))"

definition rpc_update_workspace_settings ::
  "notify_env \<Rightarrow> string \<Rightarrow> bool \<Rightarrow> inbox \<Rightarrow> unit response \<times> inbox" where
  "rpc_update_workspace_settings env ws opt_out s =
     (if ws = [] then (Inl (invalid_argument ''workspace_id is required''), s)
      else (let (r, s') = set_workspace_opt_out env ws opt_out s in (answer r, s')))"

section \<open>Lemmas\<close>

lemma kind_from_db_iff: "kind_from_db s = Some k \<longleftrightarrow> s = kind_as_db k"
  by (cases k) (auto simp: kind_from_db_def)

lemma subject_from_db_iff: "subject_from_db s = Some k \<longleftrightarrow> s = subject_as_db k"
  by (cases k) (auto simp: subject_from_db_def)

lemma severity_from_db_iff: "severity_from_db s = Some k \<longleftrightarrow> s = severity_as_db k"
  by (cases k) (auto simp: severity_from_db_def)

lemma platform_from_db_iff: "platform_from_db s = Some k \<longleftrightarrow> s = platform_as_db k"
  by (cases k) (auto simp: platform_from_db_def)

lemma db_form_checks [simp]:
  "kind_as_db k \<in> {''tool_approval_needed'', ''agent_completed_with_message'', ''agent_crashed'',
     ''pr_state_changed'', ''check_run_failed'', ''schedule_run_completed''}"
  "subject_as_db j \<in> {''workspace'', ''workarea'', ''session'', ''pull_request'', ''schedule_run''}"
  "severity_as_db v \<in> {''low'', ''medium'', ''high''}"
  by (cases k, simp_all) (cases j, simp_all, cases v, simp_all)

text \<open>Keys.\<close>

lemma map_fst_same:
  assumes "\<And>x. fst (g x) = fst x"
  shows "map fst (map g t) = map fst t"
  by (induction t) (simp_all add: assms)

lemma has_key_iff: "has_key t k \<longleftrightarrow> map_of t k \<noteq> None"
  by (simp add: has_key_def map_of_eq_None_iff)

lemma has_key_get: "has_key (ib_rows s) i \<longleftrightarrow> notifications_get s i \<noteq> None"
  by (simp add: has_key_iff notifications_get_def)

lemma has_key_append [simp]: "has_key (t @ [(j, r)]) k \<longleftrightarrow> has_key t k \<or> k = j"
  by (auto simp: has_key_def)

lemma has_key_same_keys: "map fst t = map fst t' \<Longrightarrow> has_key t k = has_key t' k"
  by (metis has_key_def list.set_map)

lemma map_of_update_rows:
  "map_of (map (\<lambda>(j, r). if j = i \<and> P r then (j, f r) else (j, r)) t) k
    = (if k = i then map_option (\<lambda>r. if P r then f r else r) (map_of t i) else map_of t k)"
proof (induction t)
  case (Cons x t)
  then show ?case by (cases x; cases "fst x = i"; cases "P (snd x)"; cases "k = i") simp_all
qed simp

lemma keys_update_rows [simp]:
  "map fst (map (\<lambda>(j, r). if j = i \<and> P r then (j, f r) else (j, r)) t) = map fst t"
  by (rule map_fst_same) (simp add: case_prod_beta)

lemma count_matching_rows:
  assumes "distinct (map fst t)"
  shows "length (filter (\<lambda>(j, r). j = i \<and> P r) t) = (case map_of t i of Some r \<Rightarrow> if P r then 1 else 0 | None \<Rightarrow> 0)"
  using assms
proof (induction t)
  case (Cons x t)
  obtain j r where x: "x = (j, r)" by force
  show ?case
  proof (cases "j = i")
    case True
    have "filter (\<lambda>(j, r). j = i \<and> P r) t = []"
      using Cons.prems True by (force simp: x filter_empty_conv)
    with True show ?thesis by (simp add: x)
  next
    case False
    with Cons show ?thesis by (simp add: x)
  qed
qed simp

lemma keys_update_where [simp]: "map fst (ib_rows (snd (update_where i P f s))) = map fst (ib_rows s)"
  by (simp add: update_where_def del: map_map)

lemma update_where_frame [simp]:
  "ib_deliveries (snd (update_where i P f s)) = ib_deliveries s"
  "ib_devices (snd (update_where i P f s)) = ib_devices s" "ib_db (snd (update_where i P f s)) = ib_db s"
  by (simp_all add: update_where_def)

lemma get_update_where:
  "notifications_get (snd (update_where i P f s)) k
    = (if k = i then map_option (\<lambda>r. if P r then f r else r) (notifications_get s i) else notifications_get s k)"
  by (simp add: map_of_update_rows update_where_def notifications_get_def)

lemma fst_update_where:
  assumes "distinct (map fst (ib_rows s))"
  shows "fst (update_where i P f s) = (case notifications_get s i of Some r \<Rightarrow> if P r then 1 else 0 | None \<Rightarrow> 0)"
  using count_matching_rows [OF assms] by (simp add: update_where_def notifications_get_def)

text \<open>The newest of the rows that match.\<close>

lemma set_newest_first [simp]: "set (newest_first t) = set t"
  by (simp add: newest_first_def)

definition matches_key :: "inbox \<Rightarrow> notify_request \<Rightarrow> int \<Rightarrow> string \<times> notification_row \<Rightarrow> bool" where
  "matches_key s req since = (\<lambda>(i, r).
     (case nr_workarea_id req of
        Some w \<Rightarrow> n_workarea_id r = Some w
      | None \<Rightarrow> n_workarea_id r = None \<and> n_workspace_id r = nr_workspace_id req)
     \<and> n_kind r = kind_as_db (nr_kind req) \<and> n_subject_id r = nr_subject_id req \<and> since \<le> n_created_at r
     \<and> n_read_at r = None \<and> n_superseded_by r = None)"

abbreviation dedup_candidate :: "inbox \<Rightarrow> notify_request \<Rightarrow> int \<Rightarrow> (string \<times> notification_row) option" where
  "dedup_candidate s req since \<equiv> find_unread_for_dedup_key s (nr_workspace_id req) (nr_workarea_id req)
     (kind_as_db (nr_kind req)) (nr_subject_id req) since"

lemma dedup_candidate_head:
  "dedup_candidate s req since = (case newest_first (filter (matches_key s req since) (ib_rows s)) of
     [] \<Rightarrow> None | x # _ \<Rightarrow> Some x)"
  by (simp add: find_unread_for_dedup_key_def matches_key_def)

lemma dedup_candidate_None: "dedup_candidate s req since = None \<longleftrightarrow> (\<forall>x\<in>set (ib_rows s). \<not> matches_key s req since x)"
proof -
  have "newest_first (filter (matches_key s req since) (ib_rows s)) = []
      \<longleftrightarrow> set (newest_first (filter (matches_key s req since) (ib_rows s))) = {}"
    by (simp only: set_empty)
  then show ?thesis by (auto simp: dedup_candidate_head split: list.splits)
qed

lemma dedup_candidate_SomeD:
  assumes "dedup_candidate s req since = Some x"
  shows "x \<in> set (ib_rows s)" "matches_key s req since x"
    "y \<in> set (ib_rows s) \<Longrightarrow> matches_key s req since y \<Longrightarrow> n_created_at (snd y) \<le> n_created_at (snd x)"
proof -
  let ?xs = "newest_first (filter (matches_key s req since) (ib_rows s))"
  from assms obtain xs where xs: "?xs = x # xs"
    by (auto simp: dedup_candidate_head split: list.splits)
  have "x \<in> set ?xs" by (simp add: xs)
  then show "x \<in> set (ib_rows s)" "matches_key s req since x" by auto
  have sorted: "sorted (map (\<lambda>(i, r). - n_created_at r) ?xs)"
    unfolding newest_first_def by (rule sorted_sort_key)
  assume "y \<in> set (ib_rows s)" "matches_key s req since y"
  then have "y \<in> set ?xs" by simp
  with sorted show "n_created_at (snd y) \<le> n_created_at (snd x)"
    by (auto simp: xs case_prod_beta)
qed

lemma dedup_decide_candidate:
  assumes "0 \<le> w"
  shows "dedup_decide (dedup_candidate s req (now - w)) now w
    = (case dedup_candidate s req (now - w) of None \<Rightarrow> InsertNew | Some (i, r) \<Rightarrow> UpdateExisting i)"
proof (cases "dedup_candidate s req (now - w)")
  case (Some x)
  obtain i r where x: "x = (i, r)" by force
  from dedup_candidate_SomeD(2) [OF Some] have "now - w \<le> n_created_at r"
    by (simp add: x matches_key_def)
  then have "sat_i64 (now - n_created_at r) \<le> w"
    using assms by (simp add: sat_i64_def i64_min_def i64_max_def)
  with Some x show ?thesis by (simp add: dedup_decide_def)
qed (simp add: dedup_decide_def)

text \<open>The attempts of a wakeup.\<close>

lemma send_to_calls: "snd (send_to env body t) \<in> {[1], [1, 2], [1, 2, 3]}"
  by (auto simp: send_to_def MAX_SEND_ATTEMPTS_def upt_rec split: sum.splits prod.splits)

lemma set_wakeup_calls: "set (wakeup_calls env targets body) = (\<lambda>t. (t, body)) ` set targets"
proof -
  have "set (map (\<lambda>k. (t, body)) (snd (send_to env body t))) = {(t, body)}" for t
    using send_to_calls [of env body t] by auto
  then show ?thesis by (auto simp: wakeup_calls_def)
qed

definition wants_wakeup :: "notify_env \<Rightarrow> inbox \<Rightarrow> string option \<Rightarrow> int \<Rightarrow> push_target \<Rightarrow> bool" where
  "wants_wakeup env s workarea_id now t \<longleftrightarrow> pt_device_id t \<notin> ne_view env workarea_id \<and>
     (\<exists>d. (pt_device_id t, d) \<in> set (ib_devices s) \<and> de_revoked_at d = None
        \<and> (case de_dnd_until d of None \<Rightarrow> True | Some until \<Rightarrow> until \<le> now)
        \<and> de_push_token d = Some (pt_token t) \<and> de_push_platform d = Some (platform_as_db (pt_platform t)))"

lemma mem_list_pushable_devices:
  "(i, token, platform) \<in> set (list_pushable_devices s now) \<longleftrightarrow>
     (\<exists>d. (i, d) \<in> set (ib_devices s) \<and> de_revoked_at d = None
        \<and> (case de_dnd_until d of None \<Rightarrow> True | Some until \<Rightarrow> until \<le> now)
        \<and> de_push_token d = Some token \<and> de_push_platform d = Some platform)"
proof -
  have "pushable_row now x = Some (i, token, platform) \<longleftrightarrow>
      (\<exists>d. x = (i, d) \<and> de_revoked_at d = None
        \<and> (case de_dnd_until d of None \<Rightarrow> True | Some until \<Rightarrow> until \<le> now)
        \<and> de_push_token d = Some token \<and> de_push_platform d = Some platform)" for x
    by (cases x) (auto simp: pushable_row_def bind_eq_Some_conv split: if_splits)
  then show ?thesis by (auto simp: list_pushable_devices_def set_map_filter_iff)
qed

lemma mem_fanout_targets: "t \<in> set (fanout_targets env w now s) \<longleftrightarrow> wants_wakeup env s w now t"
proof -
  have "t \<in> set (eligible_targets (list_pushable_devices s now)) \<longleftrightarrow>
      (pt_device_id t, pt_token t, platform_as_db (pt_platform t)) \<in> set (list_pushable_devices s now)"
    by (cases t) (force simp: eligible_targets_def set_map_filter_iff platform_from_db_iff)
  then show ?thesis
    by (auto simp: fanout_targets_def plan_fanout_def wants_wakeup_def mem_list_pushable_devices)
qed

text \<open>The invariant of the rows: the constraints of the migration.\<close>

definition row_ok :: "inbox \<Rightarrow> notification_row \<Rightarrow> bool" where
  "row_ok s r \<longleftrightarrow> row_constraints s r = Inr () \<and> refers (ib_devices s) (n_action_taken_by r)
     \<and> (n_action_taken r = None \<longleftrightarrow> n_action_taken_at r = None)"

definition inbox_ok :: "inbox \<Rightarrow> bool" where
  "inbox_ok s \<longleftrightarrow> distinct (map fst (ib_rows s)) \<and> distinct (map fst (ib_deliveries s))
     \<and> (\<forall>(i, r)\<in>set (ib_rows s). row_ok s r)
     \<and> (\<forall>((i, d), v)\<in>set (ib_deliveries s). has_key (ib_rows s) i \<and> has_key (ib_devices s) d)"

text \<open>A state with the same keys elsewhere accepts the same rows.\<close>

definition same_tables :: "inbox \<Rightarrow> inbox \<Rightarrow> bool" where
  "same_tables s s' \<longleftrightarrow> map fst (ib_devices s') = map fst (ib_devices s)
     \<and> map fst (db_workspaces (ib_db s')) = map fst (db_workspaces (ib_db s))
     \<and> map fst (db_workareas (ib_db s')) = map fst (db_workareas (ib_db s))
     \<and> map fst (db_sessions (ib_db s')) = map fst (db_sessions (ib_db s))"

lemma same_tables_row_constraints:
  assumes "same_tables s s'"
  shows "row_constraints s' r = row_constraints s r" "refers (ib_devices s') k = refers (ib_devices s) k"
    "has_key (ib_devices s') j = has_key (ib_devices s) j"
proof -
  have eq: "refers t k = refers t' k" if "map fst t = map fst t'" for t t' :: "'a table" and k
    using has_key_same_keys [OF that] by (cases k) (simp_all add: refers_def)
  note [simp] = eq [of "db_workspaces (ib_db s')" "db_workspaces (ib_db s)"]
    eq [of "db_workareas (ib_db s')" "db_workareas (ib_db s)"] eq [of "db_sessions (ib_db s')" "db_sessions (ib_db s)"]
  from assms show "row_constraints s' r = row_constraints s r"
    unfolding row_constraints_def same_tables_def by simp
  from assms show "refers (ib_devices s') k = refers (ib_devices s) k"
    unfolding same_tables_def by (intro eq) simp
  from assms show "has_key (ib_devices s') j = has_key (ib_devices s) j"
    unfolding same_tables_def by (intro has_key_same_keys) simp
qed

lemma same_tables_row_ok: "same_tables s s' \<Longrightarrow> row_ok s' r = row_ok s r"
  by (simp add: row_ok_def same_tables_row_constraints)

lemma update_where_ok:
  assumes "inbox_ok s" and "\<And>r. row_ok s r \<Longrightarrow> P r \<Longrightarrow> row_ok s (f r)"
  shows "inbox_ok (snd (update_where i P f s))"
proof -
  let ?s = "snd (update_where i P f s)"
  have same: "same_tables s ?s" by (simp add: same_tables_def)
  have "row_ok ?s r" if "(j, r) \<in> set (ib_rows ?s)" for j r
  proof -
    from that obtain r' where "(j, r') \<in> set (ib_rows s)" "r = r' \<or> P r' \<and> r = f r'"
      by (auto simp: update_where_def split: if_splits)
    with assms show ?thesis by (auto simp: inbox_ok_def same_tables_row_ok [OF same])
  qed
  moreover have "has_key (ib_rows ?s) j = has_key (ib_rows s) j" for j
    by (rule has_key_same_keys) simp
  ultimately show ?thesis using assms(1)
    by (fastforce simp: inbox_ok_def)
qed

lemma insert_ok:
  assumes "inbox_ok s" and "n_action_taken r = None" "n_action_taken_at r = None" "n_action_taken_by r = None"
  shows "inbox_ok (snd (notifications_insert i r s))"
proof (cases "has_key (ib_rows s) i \<or> row_constraints s r \<noteq> Inr ()")
  case True
  then have "snd (notifications_insert i r s) = s"
    by (auto simp: notifications_insert_def split: sum.splits)
  with assms(1) show ?thesis by simp
next
  case False
  let ?s = "s\<lparr>ib_rows := ib_rows s @ [(i, r)]\<rparr>"
  have same: "same_tables s ?s" by (simp add: same_tables_def)
  have "row_ok s r" using False assms(2-4) by (simp add: row_ok_def refers_def)
  then have "inbox_ok ?s" using assms(1) False
    by (fastforce simp: inbox_ok_def same_tables_row_ok [OF same] has_key_def)
  with False show ?thesis by (simp add: notifications_insert_def)
qed

lemma keys_upsert_delivery:
  "ib_rows (snd (upsert_delivery i d a f s)) = ib_rows s" "ib_devices (snd (upsert_delivery i d a f s)) = ib_devices s"
  "ib_db (snd (upsert_delivery i d a f s)) = ib_db s"
  by (simp_all add: upsert_delivery_def)

lemma upsert_delivery_ok:
  assumes "inbox_ok s"
  shows "inbox_ok (snd (upsert_delivery i d a f s))"
proof -
  have same: "same_tables s (snd (upsert_delivery i d a f s))"
    by (simp add: same_tables_def keys_upsert_delivery)
  have keys: "map fst (map (\<lambda>(k, v). if k = (i, d) then (k, g v) else (k, v)) t) = map fst t"
    for g and t :: "((string \<times> string) \<times> push_delivery_row) list"
    by (rule map_fst_same) (simp add: case_prod_beta)
  have "distinct (map fst (ib_deliveries (snd (upsert_delivery i d a f s))))"
    using assms by (auto simp: upsert_delivery_def inbox_ok_def keys simp del: map_map)
  moreover have "has_key (ib_rows s) j \<and> has_key (ib_devices s) e"
    if "((j, e), v) \<in> set (ib_deliveries (snd (upsert_delivery i d a f s)))" for j e v
    using that assms by (fastforce simp: upsert_delivery_def inbox_ok_def split: if_splits)
  ultimately show ?thesis using assms
    by (fastforce simp: inbox_ok_def same_tables_row_ok [OF same] keys_upsert_delivery)
qed

lemma clear_push_token_frame [simp]:
  "ib_rows (clear_push_token d s) = ib_rows s" "ib_deliveries (clear_push_token d s) = ib_deliveries s"
  "ib_db (clear_push_token d s) = ib_db s" "map fst (ib_devices (clear_push_token d s)) = map fst (ib_devices s)"
  by (simp_all add: clear_push_token_def)

lemma clear_push_token_ok:
  assumes "inbox_ok s"
  shows "inbox_ok (clear_push_token d s)"
proof -
  have same: "same_tables s (clear_push_token d s)" by (simp add: same_tables_def)
  show ?thesis using assms
    by (simp add: inbox_ok_def same_tables_row_ok [OF same] same_tables_row_constraints [OF same])
qed

text \<open>Recording the deliveries of devices that have a row does not fail.\<close>

lemma record_deliveries_ok:
  assumes "inbox_ok s" and "has_key (ib_rows s) i" and "\<forall>(d, v)\<in>set rs. has_key (ib_devices s) d"
  shows "fst (record_deliveries i now rs s) = Inr () \<and> inbox_ok (snd (record_deliveries i now rs s))
    \<and> ib_rows (snd (record_deliveries i now rs s)) = ib_rows s
    \<and> ib_db (snd (record_deliveries i now rs s)) = ib_db s
    \<and> map fst (ib_devices (snd (record_deliveries i now rs s))) = map fst (ib_devices s)"
  using assms
proof (induction i now rs s rule: record_deliveries.induct)
  case (2 i now device report rest s)
  have fst: "fst (upsert_delivery i device (Some now) None s) = Inr ()"
    using 2 by (simp add: upsert_delivery_def)
  then have up: "upsert_delivery i device (Some now) None s = (Inr (), snd (upsert_delivery i device (Some now) None s))"
    by (metis prod.collapse)
  have clear: "has_key (ib_devices (clear_push_token device s)) = has_key (ib_devices s)"
    by (rule ext, rule has_key_same_keys) simp
  show ?case
  proof (cases "dr_ok report")
    case True
    have "\<forall>(d, v)\<in>set rest. has_key (ib_devices (snd (upsert_delivery i device (Some now) None s))) d"
      using "2.prems"(3) by (simp add: keys_upsert_delivery)
    with "2.IH"(1) [OF True up [symmetric] refl] "2.prems" upsert_delivery_ok [of s i device "Some now" None]
    have "let s' = snd (upsert_delivery i device (Some now) None s)
      in fst (record_deliveries i now rest s') = Inr () \<and> inbox_ok (snd (record_deliveries i now rest s'))
        \<and> ib_rows (snd (record_deliveries i now rest s')) = ib_rows s
        \<and> ib_db (snd (record_deliveries i now rest s')) = ib_db s
        \<and> map fst (ib_devices (snd (record_deliveries i now rest s'))) = map fst (ib_devices s)"
      by (simp add: keys_upsert_delivery Let_def)
    moreover have "record_deliveries i now ((device, report) # rest) s
        = record_deliveries i now rest (snd (upsert_delivery i device (Some now) None s))"
      using True up by (metis (no_types, lifting) old.prod.case record_deliveries.simps(2) sum.case(2))
    ultimately show ?thesis by (simp only: Let_def)
  next
    case False
    with 2 clear_push_token_ok [of s device] clear show ?thesis by auto
  qed
qed simp

lemma fan_out_ok:
  assumes "inbox_ok s" and "has_key (ib_rows s) i"
  shows "oc_result (fan_out env i k w now s) = Inr ()" "inbox_ok (oc_inbox (fan_out env i k w now s))"
    "ib_rows (oc_inbox (fan_out env i k w now s)) = ib_rows s"
    "ib_db (oc_inbox (fan_out env i k w now s)) = ib_db s"
    "set (oc_sent (fan_out env i k w now s)) = {(t, wakeup_for i (kind_as_db k)) |t. wants_wakeup env s w now t}"
proof -
  let ?targets = "fanout_targets env w now s"
  have "has_key (ib_devices s) d" if "(d, v) \<in> set (deliver_wakeups env ?targets body)" for d v body
    using that by (force simp: deliver_wakeups_def mem_fanout_targets wants_wakeup_def has_key_def)
  then have r: "fst (record_deliveries i now (deliver_wakeups env ?targets body) s) = Inr ()
    \<and> inbox_ok (snd (record_deliveries i now (deliver_wakeups env ?targets body) s))
    \<and> ib_rows (snd (record_deliveries i now (deliver_wakeups env ?targets body) s)) = ib_rows s
    \<and> ib_db (snd (record_deliveries i now (deliver_wakeups env ?targets body) s)) = ib_db s" for body
    using record_deliveries_ok [OF assms, of "deliver_wakeups env ?targets body" now] by blast
  have "?targets = [] \<longleftrightarrow> (\<forall>t. \<not> wants_wakeup env s w now t)"
    using mem_fanout_targets [of _ env w now s] by (metis empty_iff list.set(1) list.set_intros(1) list.exhaust)
  then show "set (oc_sent (fan_out env i k w now s)) = {(t, wakeup_for i (kind_as_db k)) |t. wants_wakeup env s w now t}"
    by (auto simp: fan_out_def Let_def case_prod_beta set_wakeup_calls mem_fanout_targets)
  from r assms(1) show "oc_result (fan_out env i k w now s) = Inr ()" "inbox_ok (oc_inbox (fan_out env i k w now s))"
    "ib_rows (oc_inbox (fan_out env i k w now s)) = ib_rows s"
    "ib_db (oc_inbox (fan_out env i k w now s)) = ib_db s"
    by (simp_all add: fan_out_def Let_def case_prod_beta)
qed

text \<open>The two ways a notification takes.\<close>

lemma notify_cases:
  assumes "0 \<le> ne_window env"
  obtains (refreshed) i r where "dedup_candidate s req (now - ne_window env) = Some (i, r)"
      "notify env now fresh req s = \<lparr>oc_result = Inr i, oc_inbox = snd (update_body_and_at i (nr_body req) now s),
         oc_events = [Updated i], oc_sent = []\<rparr>"
  | (refused) e where "dedup_candidate s req (now - ne_window env) = None"
      "fst (notifications_insert fresh (new_row env req now) s) = Inl e"
      "notify env now fresh req s = \<lparr>oc_result = Inl e, oc_inbox = s, oc_events = [], oc_sent = []\<rparr>"
  | (inserted) "dedup_candidate s req (now - ne_window env) = None"
      "notifications_insert fresh (new_row env req now) s = (Inr fresh, s\<lparr>ib_rows := ib_rows s @ [(fresh, new_row env req now)]\<rparr>)"
      "\<not> has_key (ib_rows s) fresh" "row_constraints s (new_row env req now) = Inr ()"
      "oc_events (notify env now fresh req s) = [Created fresh]"
proof (cases "dedup_candidate s req (now - ne_window env)")
  case (Some x)
  then show ?thesis using refreshed dedup_decide_candidate [OF assms, of s req now]
    by (cases x) (simp add: notify_def)
next
  case None
  show ?thesis
  proof (cases "fst (notifications_insert fresh (new_row env req now) s)")
    case (Inl e)
    then have "notifications_insert fresh (new_row env req now) s = (Inl e, s)"
      by (auto simp: notifications_insert_def split: if_splits sum.splits)
    then show ?thesis using refused None dedup_decide_candidate [OF assms, of s req now]
      by (simp add: notify_def)
  next
    case (Inr j)
    then have ins: "notifications_insert fresh (new_row env req now) s = (Inr fresh, s\<lparr>ib_rows := ib_rows s @ [(fresh, new_row env req now)]\<rparr>)"
      "\<not> has_key (ib_rows s) fresh" "row_constraints s (new_row env req now) = Inr ()"
      by (auto simp: notifications_insert_def split: if_splits sum.splits)
    have "oc_events (notify env now fresh req s) = [Created fresh]"
      using None dedup_decide_candidate [OF assms, of s req now] ins(1) by (simp add: notify_def Let_def)
    with inserted [OF None] ins show ?thesis by blast
  qed
qed

lemma new_row_fields [simp]:
  "n_body (new_row env req now) = nr_body req" "n_created_at (new_row env req now) = now"
  "n_read_at (new_row env req now) = None" "n_superseded_by (new_row env req now) = None"
  "n_kind (new_row env req now) = kind_as_db (nr_kind req)" "n_subject_id (new_row env req now) = nr_subject_id req"
  "n_workspace_id (new_row env req now) = nr_workspace_id req" "n_workarea_id (new_row env req now) = nr_workarea_id req"
  "n_severity (new_row env req now) = severity_as_db (effective_severity req)"
  "n_action_taken (new_row env req now) = None" "n_action_taken_at (new_row env req now) = None"
  "n_action_taken_by (new_row env req now) = None"
  by (simp_all add: new_row_def)

lemma opted_out_rows [simp]: "opted_out env (s\<lparr>ib_rows := t\<rparr>) w = opted_out env s w"
  by (simp add: opted_out_def cong: option.case_cong)

lemma wants_wakeup_rows [simp]: "wants_wakeup env (s\<lparr>ib_rows := t\<rparr>) w now d = wants_wakeup env s w now d"
  by (simp add: wants_wakeup_def)

lemma inserted_outcome:
  assumes "inbox_ok s" and "0 \<le> ne_window env" and "dedup_candidate s req (now - ne_window env) = None"
    and ins: "notifications_insert fresh (new_row env req now) s = (Inr fresh, s\<lparr>ib_rows := ib_rows s @ [(fresh, new_row env req now)]\<rparr>)"
  shows "oc_result (notify env now fresh req s) = Inr fresh" "inbox_ok (oc_inbox (notify env now fresh req s))"
    "ib_rows (oc_inbox (notify env now fresh req s)) = ib_rows s @ [(fresh, new_row env req now)]"
    "ib_db (oc_inbox (notify env now fresh req s)) = ib_db s"
    "set (oc_sent (notify env now fresh req s)) =
       (if default_push_for_kind (nr_kind req) \<and> \<not> opted_out env s (nr_workspace_id req)
        then {(t, wakeup_for fresh (kind_as_db (nr_kind req))) |t. wants_wakeup env s (nr_workarea_id req) now t} else {})"
proof -
  let ?s = "s\<lparr>ib_rows := ib_rows s @ [(fresh, new_row env req now)]\<rparr>"
  have ok: "inbox_ok ?s"
    using insert_ok [OF assms(1), of "new_row env req now" fresh] ins by simp
  have key: "has_key (ib_rows ?s) fresh" by simp
  note f = fan_out_ok [OF ok key, of env "nr_kind req" "nr_workarea_id req" now]
  show "oc_result (notify env now fresh req s) = Inr fresh" "inbox_ok (oc_inbox (notify env now fresh req s))"
    "ib_rows (oc_inbox (notify env now fresh req s)) = ib_rows s @ [(fresh, new_row env req now)]"
    "ib_db (oc_inbox (notify env now fresh req s)) = ib_db s"
    "set (oc_sent (notify env now fresh req s)) =
       (if default_push_for_kind (nr_kind req) \<and> \<not> opted_out env s (nr_workspace_id req)
        then {(t, wakeup_for fresh (kind_as_db (nr_kind req))) |t. wants_wakeup env s (nr_workarea_id req) now t} else {})"
    using f ok assms(3) dedup_decide_candidate [OF assms(2), of s req now] ins
    by (simp_all add: notify_def Let_def should_push_def)
qed

lemma row_constraints_frame [simp]:
  "row_constraints s (r\<lparr>n_body := b, n_created_at := at\<rparr>) = row_constraints s r"
  "row_constraints s (r\<lparr>n_read_at := o1\<rparr>) = row_constraints s r"
  "row_constraints s (r\<lparr>n_action_taken := o2, n_action_taken_at := o1, n_action_taken_by := o3\<rparr>) = row_constraints s r"
  unfolding row_constraints_def by simp_all

lemma update_body_and_at_ok: "inbox_ok s \<Longrightarrow> inbox_ok (snd (update_body_and_at i body at s))"
  unfolding update_body_and_at_def by (rule update_where_ok) (simp_all add: row_ok_def)

lemma notify_ok:
  assumes "0 \<le> ne_window env" and "inbox_ok s"
  shows "inbox_ok (oc_inbox (notify env now fresh req s))"
  using assms(1)
proof (cases rule: notify_cases [where s = s and req = req and now = now and fresh = fresh])
  case inserted
  then show ?thesis using inserted_outcome [OF assms(2,1)] by blast
qed (simp_all add: assms update_body_and_at_ok)

lemma mark_read_ok: "inbox_ok s \<Longrightarrow> inbox_ok (oc_inbox (mark_read i now s))"
  using update_where_ok [of s "\<lambda>r. n_read_at r = None" "\<lambda>r. r\<lparr>n_read_at := Some now\<rparr>" i]
  by (simp add: mark_read_def notifications_mark_read_def Let_def case_prod_beta row_ok_def)

lemma fetch_ok: "inbox_ok s \<Longrightarrow> inbox_ok (snd (fetch_for_device env i d now s))"
  using upsert_delivery_ok [of s i d None "Some now"]
  by (cases "upsert_delivery i d None (Some now) s") (simp add: fetch_for_device_def split: option.split sum.split)

text \<open>A tap as a function of the row: whether it is the first one, or refused.\<close>

definition acted_row :: "string \<Rightarrow> string \<Rightarrow> int \<Rightarrow> notification_row \<Rightarrow> notification_row" where
  "acted_row chip_id device at r =
     r\<lparr>n_action_taken := Some chip_id, n_action_taken_at := Some at, n_action_taken_by := Some device\<rparr>"

lemma set_action_taken_outcome:
  assumes "distinct (map fst (ib_rows s))" and "notifications_get s i = Some r"
  shows "set_action_taken i chip_id at (Some device) s =
    (if n_action_taken r \<noteq> None then (Inr 0, snd (update_where i (\<lambda>r. n_action_taken r = None) (acted_row chip_id device at) s))
     else if has_key (ib_devices s) device
     then (Inr 1, snd (update_where i (\<lambda>r. n_action_taken r = None) (acted_row chip_id device at) s))
     else (Inl (Sqlx ''FOREIGN KEY constraint failed''), s))"
  using fst_update_where [OF assms(1), of i "\<lambda>r. n_action_taken r = None" "acted_row chip_id device at"] assms(2)
  by (simp add: set_action_taken_def Let_def case_prod_beta refers_def acted_row_def [abs_def])

lemma set_action_taken_ok:
  assumes "inbox_ok s"
  shows "inbox_ok (snd (set_action_taken i chip_id at (Some device) s))"
proof (cases "has_key (ib_devices s) device")
  case True
  then show ?thesis
    using update_where_ok [OF assms, of "\<lambda>r. n_action_taken r = None"
        "\<lambda>r. r\<lparr>n_action_taken := Some chip_id, n_action_taken_at := Some at, n_action_taken_by := Some device\<rparr>" i]
    by (simp add: set_action_taken_def Let_def case_prod_beta row_ok_def refers_def)
next
  case False
  have dist: "distinct (map fst (ib_rows s))" using assms by (simp add: inbox_ok_def)
  let ?f = "\<lambda>r. r\<lparr>n_action_taken := Some chip_id, n_action_taken_at := Some at, n_action_taken_by := Some device\<rparr>"
  have none: "snd (update_where i P f s) = s" if "fst (update_where i P f s) = 0" for P f
  proof -
    from that have "\<forall>(j, r)\<in>set (ib_rows s). \<not> (j = i \<and> P r)"
      by (auto simp: update_where_def filter_empty_conv)
    then have "map (\<lambda>(j, r). if j = i \<and> P r then (j, f r) else (j, r)) (ib_rows s) = ib_rows s"
      by (intro map_idI) auto
    then show ?thesis by (simp add: update_where_def)
  qed
  have "snd (set_action_taken i chip_id at (Some device) s) = s"
    using none [of "\<lambda>r. n_action_taken r = None" ?f] False
    by (simp add: set_action_taken_def Let_def case_prod_beta refers_def)
  with assms show ?thesis by simp
qed

lemma act_on_chip_inbox:
  "oc_inbox (act_on_chip env i chip_id device now s) = snd (act_on_chip_row env i chip_id device now s)"
  by (simp add: act_on_chip_def split: prod.splits sum.splits)

lemma act_on_chip_ok: "inbox_ok s \<Longrightarrow> inbox_ok (oc_inbox (act_on_chip env i chip_id device now s))"
  using set_action_taken_ok [of s i chip_id now device]
  by (auto simp: act_on_chip_inbox act_on_chip_row_def split: option.splits prod.splits sum.splits)

lemma set_workspace_opt_out_ok:
  assumes "inbox_ok s"
  shows "inbox_ok (snd (set_workspace_opt_out env ws b s))"
proof -
  let ?s = "snd (set_workspace_opt_out env ws b s)"
  have frame: "ib_rows ?s = ib_rows s" "ib_deliveries ?s = ib_deliveries s" "ib_devices ?s = ib_devices s"
    by (simp_all add: set_workspace_opt_out_def case_prod_beta)
  have same: "same_tables s ?s"
    by (auto simp: same_tables_def set_workspace_opt_out_def set_settings_json_key_def Let_def split: sum.splits)
  show ?thesis using assms
    by (simp add: inbox_ok_def frame same_tables_row_ok [OF same])
qed

text \<open>The operations of the handle as one machine.\<close>

datatype inbox_event =
    EvNotify int string notify_request
  | EvFetch string string int
  | EvRead string int
  | EvTap string string string int
  | EvOptOut string bool

fun inbox_step :: "notify_env \<Rightarrow> inbox \<Rightarrow> inbox_event \<Rightarrow> inbox" where
  "inbox_step env s (EvNotify now fresh req) = oc_inbox (notify env now fresh req s)"
| "inbox_step env s (EvFetch i d now) = snd (fetch_for_device env i d now s)"
| "inbox_step env s (EvRead i now) = oc_inbox (mark_read i now s)"
| "inbox_step env s (EvTap i c d now) = oc_inbox (act_on_chip env i c d now s)"
| "inbox_step env s (EvOptOut ws b) = snd (set_workspace_opt_out env ws b s)"

lemma inbox_step_ok: "0 \<le> ne_window env \<Longrightarrow> inbox_ok s \<Longrightarrow> inbox_ok (inbox_step env s e)"
  by (cases e) (simp_all add: notify_ok fetch_ok mark_read_ok act_on_chip_ok set_workspace_opt_out_ok)

definition nonneg_window :: "notify_env \<Rightarrow> notify_env" where
  "nonneg_window env = env\<lparr>ne_window := max 0 (ne_window env)\<rparr>"

interpretation inbox_machine: event_machine "inbox_step (nonneg_window env)" inbox_ok for env
  by unfold_locales (simp add: inbox_step_ok nonneg_window_def)

lemma nonneg_window_id: "0 \<le> ne_window env \<Longrightarrow> nonneg_window env = env"
  by (simp add: nonneg_window_def)

section \<open>Properties\<close>


text \<open>the column values the code writes are read back as what was written, and no other text is read as one.\<close>

theorem db_forms_roundtrip:
  "(kind_from_db s = Some k \<longleftrightarrow> s = kind_as_db k) \<and> (subject_from_db s = Some j \<longleftrightarrow> s = subject_as_db j)
   \<and> (severity_from_db s = Some v \<longleftrightarrow> s = severity_as_db v) \<and> (platform_from_db s = Some p \<longleftrightarrow> s = platform_as_db p)"
  by (simp add: kind_from_db_iff subject_from_db_iff severity_from_db_iff platform_from_db_iff)


text \<open>C30: a device is woken exactly where it wants to be: for a new row, of a kind that pushes, in a workspace
  that has not opted out, as a device with a token, not revoked, not in Do-Not-Disturb, not viewing
  the workarea; and the wakeup carries the identifier, the kind and the source, nothing else.\<close>

theorem wakeups_exactly_where_wanted:
  assumes "inbox_ok s" and "0 \<le> ne_window env"
  shows "(t, b) \<in> set (oc_sent (notify env now fresh req s)) \<longleftrightarrow>
    oc_events (notify env now fresh req s) = [Created fresh] \<and> default_push_for_kind (nr_kind req)
    \<and> \<not> opted_out env s (nr_workspace_id req) \<and> wants_wakeup env s (nr_workarea_id req) now t
    \<and> b = \<lparr>wb_notification_id = fresh, wb_kind = kind_as_db (nr_kind req), wb_source = ''concerto-relay''\<rparr>"
  using assms(2)
proof (cases rule: notify_cases [where s = s and req = req and now = now and fresh = fresh])
  case inserted
  show ?thesis using inserted_outcome(5) [OF assms inserted(1,2)] inserted(5)
    by (auto simp: wakeup_for_def WAKEUP_SOURCE_def)
qed simp_all

text \<open>The same request with other texts, at a sequence of times.\<close>

fun within_gaps :: "int \<Rightarrow> int \<Rightarrow> (int \<times> string \<times> string) list \<Rightarrow> bool" where
  "within_gaps w t0 [] \<longleftrightarrow> True"
| "within_gaps w t0 ((t, fresh, body) # rest) \<longleftrightarrow> t0 \<le> t \<and> t \<le> t0 + w \<and> within_gaps w t rest"

fun notify_all ::
  "notify_env \<Rightarrow> notify_request \<Rightarrow> (int \<times> string \<times> string) list \<Rightarrow> inbox \<Rightarrow> inbox \<times> (push_target \<times> wakeup_body) list" where
  "notify_all env req [] s = (s, [])"
| "notify_all env req ((t, fresh, body) # rest) s =
     (let o1 = notify env t fresh (req\<lparr>nr_body := body\<rparr>) s; (s', sent) = notify_all env req rest (oc_inbox o1)
      in (s', oc_sent o1 @ sent))"

definition live_at :: "inbox \<Rightarrow> notify_request \<Rightarrow> int \<Rightarrow> bool" where
  "live_at s req t \<longleftrightarrow> (\<exists>x\<in>set (ib_rows s). matches_key s req t x \<and> n_created_at (snd x) = t)"

lemma matches_key_body [simp]: "matches_key s (req\<lparr>nr_body := body\<rparr>) since x = matches_key s req since x"
  by (simp add: matches_key_def cong: option.case_cong)

lemma live_at_notify:
  assumes "0 \<le> ne_window env" and "inbox_ok s" and "live_at s req t0" and "t0 \<le> t" "t \<le> t0 + ne_window env"
  shows "oc_sent (notify env t fresh (req\<lparr>nr_body := body\<rparr>) s) = []"
    "map fst (ib_rows (oc_inbox (notify env t fresh (req\<lparr>nr_body := body\<rparr>) s))) = map fst (ib_rows s)"
    "live_at (oc_inbox (notify env t fresh (req\<lparr>nr_body := body\<rparr>) s)) req t"
proof -
  let ?req = "req\<lparr>nr_body := body\<rparr>"
  from assms(3) obtain x where x: "x \<in> set (ib_rows s)" "matches_key s req t0 x" "n_created_at (snd x) = t0"
    by (auto simp: live_at_def)
  then have "matches_key s ?req (t - ne_window env) x"
    using assms(5) unfolding matches_key_body by (auto simp: matches_key_def)
  then have "dedup_candidate s ?req (t - ne_window env) \<noteq> None"
    using x(1) by (metis dedup_candidate_None)
  with assms(1) have cases: "\<exists>i r. dedup_candidate s ?req (t - ne_window env) = Some (i, r) \<and>
      notify env t fresh ?req s = \<lparr>oc_result = Inr i, oc_inbox = snd (update_body_and_at i body t s),
         oc_events = [Updated i], oc_sent = []\<rparr>"
    by (cases rule: notify_cases [where s = s and req = ?req and now = t and fresh = fresh]) auto
  then obtain i r where cand: "dedup_candidate s ?req (t - ne_window env) = Some (i, r)"
    and out: "notify env t fresh ?req s = \<lparr>oc_result = Inr i, oc_inbox = snd (update_body_and_at i body t s),
         oc_events = [Updated i], oc_sent = []\<rparr>" by blast
  from out show "oc_sent (notify env t fresh ?req s) = []"
    "map fst (ib_rows (oc_inbox (notify env t fresh ?req s))) = map fst (ib_rows s)"
    by (simp_all add: update_body_and_at_def)
  have "(i, r) \<in> set (ib_rows s)" "matches_key s req (t - ne_window env) (i, r)"
    using dedup_candidate_SomeD [OF cand] unfolding matches_key_body by blast+
  then have "(i, r\<lparr>n_body := body, n_created_at := t\<rparr>) \<in> set (ib_rows (snd (update_body_and_at i body t s)))"
    "matches_key s req t (i, r\<lparr>n_body := body, n_created_at := t\<rparr>)"
    by (force simp: update_body_and_at_def update_where_def, simp add: matches_key_def cong: option.case_cong)
  then show "live_at (oc_inbox (notify env t fresh ?req s)) req t"
    by (force simp: live_at_def out matches_key_def)
qed

text \<open>while an unread notification is refreshed at least once per window, the same event wakes no device
  and adds no row, however long it goes on: the window slides with every refresh.\<close>

theorem repeated_event_is_silent:
  assumes "0 \<le> ne_window env" and "inbox_ok s" and "live_at s req t0" and "within_gaps (ne_window env) t0 es"
  shows "snd (notify_all env req es s) = [] \<and> map fst (ib_rows (fst (notify_all env req es s))) = map fst (ib_rows s)"
  using assms(2-)
proof (induction es arbitrary: s t0)
  case (Cons e es)
  obtain t fresh body where e: "e = (t, fresh, body)" by (cases e) blast
  let ?s = "oc_inbox (notify env t fresh (req\<lparr>nr_body := body\<rparr>) s)"
  have gap: "t0 \<le> t" "t \<le> t0 + ne_window env" "within_gaps (ne_window env) t es" using Cons.prems(3) e by auto
  note step = live_at_notify [OF assms(1) Cons.prems(1,2) gap(1,2), where fresh = fresh and body = body]
  have "inbox_ok ?s" using assms(1) Cons.prems(1) by (rule notify_ok)
  from Cons.IH [OF this step(3) gap(3)] step(1,2) show ?case by (simp add: e Let_def case_prod_beta)
qed simp

text \<open>The taps on one notification.\<close>

fun taps ::
  "notify_env \<Rightarrow> string \<Rightarrow> (string \<times> string \<times> int) list \<Rightarrow> inbox \<Rightarrow> notification_event list \<times> inbox" where
  "taps env i [] s = ([], s)"
| "taps env i ((chip_id, device, at) # rest) s =
     (let o1 = act_on_chip env i chip_id device at s; (evs, s') = taps env i rest (oc_inbox o1)
      in (oc_events o1 @ evs, s'))"

definition accepts_tap :: "notify_env \<Rightarrow> inbox \<Rightarrow> notification_row \<Rightarrow> string \<times> string \<times> int \<Rightarrow> bool" where
  "accepts_tap env s r = (\<lambda>(chip_id, device, at).
     (\<exists>c\<in>set (stored_chips env r). ch_rule_id c = chip_id) \<and> has_key (ib_devices s) device)"

lemma find_None_bex: "find P xs = None \<longleftrightarrow> \<not> (\<exists>x\<in>set xs. P x)"
  by (auto simp: find_None_iff)

lemma act_on_chip_first:
  assumes "distinct (map fst (ib_rows s))" and "notifications_get s i = Some r" and "n_action_taken r = None"
  shows "act_on_chip env i chip_id device at s =
    (case find (\<lambda>c. ch_rule_id c = chip_id) (stored_chips env r) of
       None \<Rightarrow> \<lparr>oc_result = Inl (NotFound (''chip.unknown: '' @ chip_id)), oc_inbox = s, oc_events = [], oc_sent = []\<rparr>
     | Some c \<Rightarrow>
         if has_key (ib_devices s) device
         then \<lparr>oc_result = Inr \<lparr>ao_dispatch = classify_action (ch_action c), ao_already_resolved = False\<rparr>,
           oc_inbox = snd (update_where i (\<lambda>r. n_action_taken r = None) (acted_row chip_id device at) s),
           oc_events = [Acted i chip_id device], oc_sent = []\<rparr>
         else \<lparr>oc_result = Inl (Sqlx ''FOREIGN KEY constraint failed''), oc_inbox = s, oc_events = [], oc_sent = []\<rparr>)"
  using set_action_taken_outcome [OF assms(1,2), of chip_id at device] assms(2,3)
  by (simp add: act_on_chip_def act_on_chip_row_def split: option.split)

lemma act_on_chip_later:
  assumes "distinct (map fst (ib_rows s))" and "notifications_get s i = Some r" and "n_action_taken r = Some a"
  shows "oc_events (act_on_chip env i chip_id device at s) = []"
    "oc_result (act_on_chip env i chip_id device at s) = Inr b \<Longrightarrow> ao_already_resolved b"
    "notifications_get (oc_inbox (act_on_chip env i chip_id device at s)) i = Some r"
    "map fst (ib_rows (oc_inbox (act_on_chip env i chip_id device at s))) = map fst (ib_rows s)"
  using set_action_taken_outcome [OF assms(1,2), of chip_id at device] assms(2,3)
  by (auto simp: act_on_chip_def act_on_chip_row_def get_update_where split: option.splits)

lemma taps_after_first:
  assumes "distinct (map fst (ib_rows s))" and "notifications_get s i = Some r" and "n_action_taken r = Some a"
  shows "fst (taps env i xs s) = [] \<and> notifications_get (snd (taps env i xs s)) i = Some r"
  using assms
proof (induction xs arbitrary: s)
  case (Cons x xs)
  obtain c d t where x: "x = (c, d, t)" by (cases x) blast
  note l = act_on_chip_later [OF Cons.prems, of env c d t]
  have "distinct (map fst (ib_rows (oc_inbox (act_on_chip env i c d t s))))" using l(4) Cons.prems(1) by simp
  from Cons.IH [OF this l(3) Cons.prems(3)] l(1) show ?case by (simp add: x Let_def case_prod_beta)
qed simp

text \<open>C31: of all taps on the chips of a notification, by any devices in any order, exactly the first one that
  names a chip it has and comes from a registered device takes effect: it alone is announced and
  recorded, and its mark is never overwritten.\<close>

theorem first_tap_wins:
  assumes "distinct (map fst (ib_rows s))" and "notifications_get s i = Some r" and "n_action_taken r = None"
  shows "taps env i xs s = (evs, s') \<Longrightarrow>
    (case find (accepts_tap env s r) xs of
       None \<Rightarrow> evs = [] \<and> notifications_get s' i = Some r
     | Some (chip_id, device, at) \<Rightarrow>
         evs = [Acted i chip_id device] \<and> notifications_get s' i = Some (acted_row chip_id device at r))"
  using assms
proof (induction xs arbitrary: evs)
  case (Cons x xs)
  obtain c d t where x: "x = (c, d, t)" by (cases x) blast
  note first = act_on_chip_first [OF Cons.prems(2-4), of env c d t]
  show ?case
  proof (cases "accepts_tap env s r x")
    case True
    let ?s = "snd (update_where i (\<lambda>r. n_action_taken r = None) (acted_row c d t) s)"
    from True have "find (\<lambda>ch. ch_rule_id ch = c) (stored_chips env r) \<noteq> None"
      by (auto simp: accepts_tap_def x find_None_bex)
    then obtain ch where "find (\<lambda>ch. ch_rule_id ch = c) (stored_chips env r) = Some ch" by blast
    with True first have o1: "oc_events (act_on_chip env i c d t s) = [Acted i c d]"
      "oc_inbox (act_on_chip env i c d t s) = ?s" by (simp_all add: accepts_tap_def x)
    have "notifications_get ?s i = Some (acted_row c d t r)" "distinct (map fst (ib_rows ?s))"
      using Cons.prems(2-4) by (simp_all add: get_update_where)
    then have "fst (taps env i xs ?s) = [] \<and> notifications_get (snd (taps env i xs ?s)) i = Some (acted_row c d t r)"
      by (intro taps_after_first) (simp_all add: acted_row_def)
    with Cons.prems(1) True o1 show ?thesis by (auto simp: x Let_def case_prod_beta)
  next
    case False
    then have "oc_events (act_on_chip env i c d t s) = [] \<and> oc_inbox (act_on_chip env i c d t s) = s"
      unfolding first by (auto simp: accepts_tap_def x find_Some_iff split: option.split)
    with Cons.IH [OF _ Cons.prems(2-4)] Cons.prems(1) False show ?thesis
      by (simp add: x Let_def case_prod_beta)
  qed
qed simp

text \<open>opening a notification's diff uses up its approval: after a tap on a chip that only navigates, every
  later tap on the approve chip is told that it is already resolved, though nothing was approved.\<close>

theorem navigation_uses_up_the_approval:
  assumes "distinct (map fst (ib_rows s))" and "oc_result (act_on_chip env i nav d1 t1 s) = Inr a"
    and "ao_dispatch a = Navigate target" and "\<not> ao_already_resolved a"
    and "oc_result (act_on_chip env i approve d2 t2 (oc_inbox (act_on_chip env i nav d1 t1 s))) = Inr b"
  shows "ao_already_resolved b
    \<and> oc_events (act_on_chip env i approve d2 t2 (oc_inbox (act_on_chip env i nav d1 t1 s))) = []"
proof -
  from assms(2) obtain r where r: "notifications_get s i = Some r"
    by (auto simp: act_on_chip_def act_on_chip_row_def split: option.splits prod.splits sum.splits)
  have none: "n_action_taken r = None"
    using act_on_chip_later(2) [OF assms(1) r _ assms(2)] assms(4) by (cases "n_action_taken r") auto
  let ?s = "oc_inbox (act_on_chip env i nav d1 t1 s)"
  from assms(2) act_on_chip_first [OF assms(1) r none, of env nav d1 t1]
  have s: "?s = snd (update_where i (\<lambda>r. n_action_taken r = None) (acted_row nav d1 t1) s)"
    by (auto split: option.splits if_splits)
  have "notifications_get ?s i = Some (acted_row nav d1 t1 r)" "distinct (map fst (ib_rows ?s))"
    using none r assms(1) unfolding s by (simp_all add: get_update_where)
  moreover have "n_action_taken (acted_row nav d1 t1 r) = Some nav" by (simp add: acted_row_def)
  ultimately show ?thesis using act_on_chip_later(1,2) assms(5) by blast
qed

text \<open>a second message of the Maestro within five minutes of an unread first one takes its place: the first
  text is gone from the inbox, the severity stays the first one's however urgent the second is, and
  no device is woken.\<close>

theorem second_message_replaces_first:
  assumes "inbox_ok s" and "0 \<le> ne_window env" and "\<forall>(j, r)\<in>set (ib_rows s). n_created_at r < t1 - ne_window env"
    and "oc_result (notify_user env subject t1 fresh1 body1 sev1 s) = Inr i" and "t1 \<le> t2" "t2 \<le> t1 + ne_window env"
  shows "let s1 = oc_inbox (notify_user env subject t1 fresh1 body1 sev1 s);
             second = notify_user env subject t2 fresh2 body2 sev2 s1
         in oc_result second = Inr i \<and> oc_sent second = []
          \<and> map fst (ib_rows (oc_inbox second)) = map fst (ib_rows s1)
          \<and> map_option n_body (notifications_get s1 i) = Some body1
          \<and> map_option n_body (notifications_get (oc_inbox second) i) = Some body2
          \<and> map_option n_severity (notifications_get (oc_inbox second) i)
              = Some (severity_as_db (map_severity (severity_from_wire sev1)))"
proof -
  let ?r1 = "request_for (sink_subject subject) body1 (severity_from_wire sev1)"
  let ?r2 = "request_for (sink_subject subject) body2 (severity_from_wire sev2)"
  let ?row = "new_row env ?r1 t1"
  define s1 where "s1 = oc_inbox (notify_user env subject t1 fresh1 body1 sev1 s)"
  have none: "dedup_candidate s ?r1 (t1 - ne_window env) = None"
    using assms(3) by (fastforce simp: dedup_candidate_None matches_key_def)
  have ins: "i = fresh1" "\<not> has_key (ib_rows s) fresh1"
    "notifications_insert fresh1 ?row s = (Inr fresh1, s\<lparr>ib_rows := ib_rows s @ [(fresh1, ?row)]\<rparr>)"
    using assms(4) none inserted_outcome(1) [OF assms(1,2) none]
    by (cases rule: notify_cases [OF assms(2), of s ?r1 t1 fresh1]; simp add: notify_user_def)+
  note o1 = inserted_outcome [OF assms(1,2) none ins(3)]
  have rows: "ib_rows s1 = ib_rows s @ [(fresh1, ?row)]"
    using o1(3) by (simp add: s1_def notify_user_def)
  have dist: "distinct (map fst (ib_rows s1))" using o1(2) by (simp add: inbox_ok_def s1_def notify_user_def)
  have "matches_key s1 ?r2 (t2 - ne_window env) (fresh1, ?row)"
    using assms(6) by (simp add: matches_key_def request_for_def)
  moreover have "\<not> matches_key s1 ?r2 (t2 - ne_window env) x" if "x \<in> set (ib_rows s)" for x
    using that assms(3,5) by (fastforce simp: matches_key_def)
  ultimately have "filter (matches_key s1 ?r2 (t2 - ne_window env)) (ib_rows s1) = [(fresh1, ?row)]"
    by (simp add: rows filter_empty_conv)
  then have cand: "dedup_candidate s1 ?r2 (t2 - ne_window env) = Some (fresh1, ?row)"
    by (simp add: dedup_candidate_head newest_first_def)
  have two: "notify env t2 fresh2 ?r2 s1 = \<lparr>oc_result = Inr fresh1, oc_inbox = snd (update_body_and_at fresh1 body2 t2 s1),
      oc_events = [Updated fresh1], oc_sent = []\<rparr>"
    using cand dedup_decide_candidate [OF assms(2), of s1 ?r2 t2] by (simp add: notify_def request_for_def)
  have get: "notifications_get s1 fresh1 = Some ?row"
    using ins(2) by (simp add: rows notifications_get_def has_key_iff map_add_def)
  show ?thesis unfolding s1_def [symmetric] using two get
    by (simp add: Let_def notify_user_def ins(1) update_body_and_at_def get_update_where effective_severity_def request_for_def)
qed

text \<open>the notification of a device without a row (the local socket's clients have none) cannot be
  fetched: the delivery record violates its foreign key, and the call fails although the row is there.\<close>

theorem unregistered_device_cannot_fetch:
  assumes "notifications_get s i = Some r" and "\<not> has_key (ib_devices s) device" and "i \<noteq> []"
  shows "rpc_get_notification env i device now s =
    (Inl (error_to_status (Sqlx ''FOREIGN KEY constraint failed'')), s)"
  using assms by (simp add: rpc_get_notification_def fetch_for_device_def upsert_delivery_def)

lemma map_of_map_insert: "map_of (map_insert k v m) j = (if j = k then Some v else map_of m j)"
proof (cases "k \<in> fst ` set m")
  case True
  then have "map_insert k v m = sql_update k (\<lambda>_. v) m" by (simp add: map_insert_def sql_update_def)
  moreover have "map_of m k \<noteq> None" using True by (simp add: map_of_eq_None_iff)
  then obtain w where "map_of m k = Some w" by blast
  ultimately show ?thesis by (simp add: map_of_sql_update)
next
  case False
  then have "map_of m k = None" by (simp add: map_of_eq_None_iff)
  with False show ?thesis by (auto simp: map_insert_def map_add_def split: option.split)
qed

text \<open>the workspace's switch is read back as it was set, with a serializer whose text parses to what was
  written; the other keys of the workspace's settings keep their values, and the other workspaces theirs.\<close>

theorem opt_out_read_back:
  assumes "\<forall>m p. ne_to_string env (JObject m) = Inr p \<longrightarrow> ne_from_str env p = Some (JObject m)"
    and "get_settings_json (ib_db s) ws = Some old" and "set_workspace_opt_out env ws b s = (Inr (), s')"
  shows "opted_out env s' (Some ws) = b
    \<and> (\<forall>m. ne_from_str env old = Some (JObject m) \<longrightarrow>
         (\<exists>new m'. get_settings_json (ib_db s') ws = Some new \<and> ne_from_str env new = Some (JObject m')
            \<and> (\<forall>k. k \<noteq> ''notifications_opt_out'' \<longrightarrow> map_of m' k = map_of m k)))
    \<and> (\<forall>w. w \<noteq> ws \<longrightarrow> opted_out env s' (Some w) = opted_out env s (Some w))"
proof -
  define obj where "obj = (case ne_from_str env old of Some (JObject m) \<Rightarrow> m | _ \<Rightarrow> [])"
  define m' where "m' = map_insert ''notifications_opt_out'' (JBool b) obj"
  from assms(2,3) obtain p where p: "ne_to_string env (JObject m') = Inr p"
    and db: "ib_db s' = (ib_db s)\<lparr>db_workspaces := sql_update ws (\<lambda>r. r\<lparr>ws_settings_json := p\<rparr>) (db_workspaces (ib_db s))\<rparr>"
    by (auto simp: set_workspace_opt_out_def set_settings_json_key_def m'_def obj_def Let_def split: sum.splits)
  from assms(1) p have parsed: "ne_from_str env p = Some (JObject m')" by blast
  have get: "get_settings_json (ib_db s') w = (if w = ws then Some p else get_settings_json (ib_db s) w)" for w
    using assms(2) by (auto simp: get_settings_json_def db map_of_sql_update)
  have "opted_out env s' (Some ws) = b"
    by (simp add: opted_out_def get parse_workspace_opt_out_def parsed m'_def map_of_map_insert)
  moreover have "map_of m' k = map_of m k" if "ne_from_str env old = Some (JObject m)" "k \<noteq> ''notifications_opt_out''" for m k
    using that by (simp add: m'_def obj_def map_of_map_insert)
  moreover have "opted_out env s' (Some w) = opted_out env s (Some w)" if "w \<noteq> ws" for w
    using that by (simp add: opted_out_def get)
  ultimately show ?thesis using get parsed by auto
qed

section \<open>Examples\<close>

text \<open>Two devices, the second one in Do-Not-Disturb until 100, and a codec with two texts.\<close>

definition sample_push_device :: "int option \<Rightarrow> push_device" where
  "sample_push_device dnd =
     \<lparr>de_name = ''phone'', de_public_key = [], de_paired_at = 0, de_last_seen_at = None, de_revoked_at = None,
      de_push_token = Some ''tok'', de_push_platform = Some ''expo'', de_dnd_until = dnd\<rparr>"

definition sample_inbox :: inbox where
  "sample_inbox =
     \<lparr>ib_rows = [], ib_deliveries = [],
      ib_devices = [(''d1'', sample_push_device None), (''d2'', sample_push_device (Some 100))],
      ib_db = \<lparr>db_sessions = [], db_workareas = [],
        db_workspaces = [(''s'', \<lparr>ws_permission_mode = None, ws_bypass = None, ws_settings_json = ''{}'',
           ws_slug = ''s'', ws_archived_at = None\<rparr>)],
        db_repositories = [], db_workarea_repos = [], db_workspace_repos = []\<rparr>\<rparr>"

definition sample_chip :: "string \<Rightarrow> string \<Rightarrow> chip" where
  "sample_chip rule action =
     \<lparr>ch_rule_id = rule, ch_workarea_id = [], ch_title = rule, ch_priority = 1, ch_created_at_ms = 0, ch_action = action\<rparr>"

definition sample_chips :: "chip list" where
  "sample_chips = [sample_chip ''diff'' ''open_diff'', sample_chip ''yes'' ''approve'']"

definition sample_notify_env :: notify_env where
  "sample_notify_env =
     \<lparr>ne_window = DEDUP_WINDOW_MS, ne_view = no_active_viewing, ne_send = (\<lambda>t b k. Inr \<lparr>dr_ok = True, dr_detail = None\<rparr>),
      ne_from_str = (\<lambda>s. if s = ''{}'' then Some (JObject []) else if s = ''on'' then Some (JObject [(''notifications_opt_out'', JBool True)]) else None),
      ne_to_string = (\<lambda>v. case v of
           JObject [] \<Rightarrow> Inr ''{}''
         | JObject [(k, JBool True)] \<Rightarrow> if k = ''notifications_opt_out'' then Inr ''on'' else Inl (Internal [])
         | _ \<Rightarrow> Inl (Internal [])),
      ne_chips_to_string = (\<lambda>cs. Some ''chips''), ne_chips_from_str = (\<lambda>s. if s = ''chips'' then Some sample_chips else None),
      ne_approval_to_string = (\<lambda>a. None), ne_approval_from_str = (\<lambda>s. None)\<rparr>"

definition sample_notify :: notify_request where
  "sample_notify =
     \<lparr>nr_kind = ToolApprovalNeeded, nr_subject_kind = SubSession, nr_subject_id = ''x'', nr_workspace_id = Some ''s'',
      nr_workarea_id = None, nr_session_id = None, nr_title = ''t'', nr_body = ''b'', nr_chips = sample_chips,
      nr_approval = None, nr_severity = None\<rparr>"

definition sample_filled :: inbox where
  "sample_filled = oc_inbox (notify sample_notify_env 10 ''n1'' sample_notify sample_inbox)"

lemma sample_inbox_ok: "inbox_ok sample_inbox"
  by (simp add: inbox_ok_def sample_inbox_def)

lemma sample_window: "0 \<le> ne_window sample_notify_env"
  by (simp add: sample_notify_env_def DEDUP_WINDOW_MS_def)

lemma sample_filled_ok: "inbox_ok sample_filled"
  unfolding sample_filled_def by (intro notify_ok sample_window sample_inbox_ok)

lemma sample_filled_distinct: "distinct (map fst (ib_rows sample_filled))"
  using sample_filled_ok by (simp add: inbox_ok_def)



theorem wakeups_exactly_where_wanted_witness:
  "(\<lparr>pt_device_id = ''d1'', pt_token = ''tok'', pt_platform = Expo\<rparr>,
    \<lparr>wb_notification_id = ''n1'', wb_kind = ''tool_approval_needed'', wb_source = ''concerto-relay''\<rparr>)
     \<in> set (oc_sent (notify sample_notify_env 10 ''n1'' sample_notify sample_inbox))"
proof -
  have "oc_events (notify sample_notify_env 10 ''n1'' sample_notify sample_inbox) = [Created ''n1'']"
    "default_push_for_kind (nr_kind sample_notify)"
    "\<not> opted_out sample_notify_env sample_inbox (nr_workspace_id sample_notify)" by code_simp+
  moreover have "wants_wakeup sample_notify_env sample_inbox (nr_workarea_id sample_notify) 10
      \<lparr>pt_device_id = ''d1'', pt_token = ''tok'', pt_platform = Expo\<rparr>"
    by (simp add: wants_wakeup_def sample_notify_env_def no_active_viewing_def sample_inbox_def sample_push_device_def)
  moreover have "kind_as_db (nr_kind sample_notify) = ''tool_approval_needed''" by (simp add: sample_notify_def)
  ultimately show ?thesis
    by (subst wakeups_exactly_where_wanted [OF sample_inbox_ok sample_window]) (simp add: sample_notify_def)
qed

lemma sample_live: "live_at sample_filled sample_notify 10"
proof -
  have "list_ex (\<lambda>x. matches_key sample_filled sample_notify 10 x \<and> n_created_at (snd x) = 10) (ib_rows sample_filled)"
    by code_simp
  then show ?thesis by (simp add: live_at_def list_ex_iff)
qed

theorem repeated_event_is_silent_witness:
  "snd (notify_all sample_notify_env sample_notify
     [(300000, ''n2'', ''b2''), (600000, ''n3'', ''b3''), (900000, ''n4'', ''b4'')] sample_filled) = []"
proof -
  have "within_gaps (ne_window sample_notify_env) 10 [(300000, ''n2'', ''b2''), (600000, ''n3'', ''b3''), (900000, ''n4'', ''b4'')]"
    by (simp add: sample_notify_env_def DEDUP_WINDOW_MS_def)
  from repeated_event_is_silent [OF sample_window sample_filled_ok sample_live this] show ?thesis by blast
qed

definition sample_notification :: notification_row where
  "sample_notification = new_row sample_notify_env sample_notify 10"

lemma sample_filled_row: "notifications_get sample_filled ''n1'' = Some sample_notification"
  unfolding sample_filled_def sample_notification_def by code_simp

theorem first_tap_wins_witness:
  "fst (taps sample_notify_env ''n1'' [(''diff'', ''desktop'', 20), (''yes'', ''d2'', 21), (''yes'', ''d1'', 22)] sample_filled)
     = [Acted ''n1'' ''yes'' ''d2'']"
proof -
  let ?xs = "[(''diff'', ''desktop'', 20), (''yes'', ''d2'', 21), (''yes'', ''d1'', 22 :: int)]"
  have none: "n_action_taken sample_notification = None" by (simp add: sample_notification_def)
  have devices: "ib_devices sample_filled = ib_devices sample_inbox" unfolding sample_filled_def by code_simp
  have chips: "stored_chips sample_notify_env sample_notification = sample_chips"
    by (simp add: stored_chips_def sample_notification_def new_row_def sample_notify_def sample_chips_def sample_notify_env_def)
  have "find (accepts_tap sample_notify_env sample_filled sample_notification) ?xs = Some (''yes'', ''d2'', 21)"
    by (simp add: accepts_tap_def chips devices sample_chips_def sample_chip_def sample_inbox_def has_key_def)
  then show ?thesis
    using first_tap_wins [OF sample_filled_distinct sample_filled_row none prod.collapse [symmetric], of sample_notify_env ?xs] by simp
qed

theorem navigation_uses_up_the_approval_witness:
  "\<exists>b. oc_result (act_on_chip sample_notify_env ''n1'' ''yes'' ''d2'' 21
      (oc_inbox (act_on_chip sample_notify_env ''n1'' ''diff'' ''d1'' 20 sample_filled))) = Inr b \<and> ao_already_resolved b"
proof -
  have "oc_result (act_on_chip sample_notify_env ''n1'' ''diff'' ''d1'' 20 sample_filled)
      = Inr \<lparr>ao_dispatch = Navigate ''open_diff'', ao_already_resolved = False\<rparr>"
    "oc_result (act_on_chip sample_notify_env ''n1'' ''yes'' ''d2'' 21
      (oc_inbox (act_on_chip sample_notify_env ''n1'' ''diff'' ''d1'' 20 sample_filled)))
      = Inr \<lparr>ao_dispatch = ResolveApproval ''approve'', ao_already_resolved = True\<rparr>"
    unfolding sample_filled_def by code_simp+
  then show ?thesis
    using navigation_uses_up_the_approval [OF sample_filled_distinct, of sample_notify_env "''n1''" "''diff''" "''d1''" 20 _ "''open_diff''" "''yes''" "''d2''" 21]
    by fastforce
qed

theorem second_message_replaces_first_witness:
  "map_option n_severity (notifications_get (oc_inbox (notify_user sample_notify_env None 2000 ''n2'' ''urgent'' ''high''
     (oc_inbox (notify_user sample_notify_env None 1000 ''n1'' ''hello'' ''low'' sample_inbox)))) ''n1'') = Some ''low''"
proof -
  have old: "\<forall>(j, r)\<in>set (ib_rows sample_inbox). n_created_at r < 1000 - ne_window sample_notify_env"
    by (simp add: sample_inbox_def)
  have first: "oc_result (notify_user sample_notify_env None 1000 ''n1'' ''hello'' ''low'' sample_inbox) = Inr ''n1''" by code_simp
  have "(1000 :: int) \<le> 2000" "2000 \<le> 1000 + ne_window sample_notify_env" by (simp_all add: sample_notify_env_def DEDUP_WINDOW_MS_def)
  from second_message_replaces_first [OF sample_inbox_ok sample_window old first this, of "''n2''" "''urgent''" "''high''"]
  show ?thesis by (simp add: Let_def severity_from_wire_def)
qed

theorem unregistered_device_cannot_fetch_witness:
  "fst (rpc_get_notification sample_notify_env ''n1'' ''local-uds'' 20 sample_filled)
     = Inl (error_to_status (Sqlx ''FOREIGN KEY constraint failed''))"
proof -
  have "\<not> has_key (ib_devices sample_filled) ''local-uds''" unfolding sample_filled_def by code_simp
  with unregistered_device_cannot_fetch [OF sample_filled_row, of "''local-uds''" sample_notify_env 20] show ?thesis by simp
qed

theorem opt_out_read_back_witness:
  "opted_out sample_notify_env (snd (set_workspace_opt_out sample_notify_env ''s'' True sample_inbox)) (Some ''s'')"
proof -
  have law: "\<forall>m p. ne_to_string sample_notify_env (JObject m) = Inr p \<longrightarrow> ne_from_str sample_notify_env p = Some (JObject m)"
    by (auto simp: sample_notify_env_def split: list.splits json.splits bool.splits if_splits)
  have old: "get_settings_json (ib_db sample_inbox) ''s'' = Some ''{}''" by code_simp
  have "fst (set_workspace_opt_out sample_notify_env ''s'' True sample_inbox) = Inr ()" by code_simp
  then have "set_workspace_opt_out sample_notify_env ''s'' True sample_inbox
      = (Inr (), snd (set_workspace_opt_out sample_notify_env ''s'' True sample_inbox))" by (metis prod.collapse)
  from opt_out_read_back [OF law old this] show ?thesis by simp
qed

end
