(* ===== verification/Permission.thy ===== *)
theory Permission
  imports Prelude
begin

text \<open>
  The permission modes, the tool classes and the per-session resolver of
  \<open>crates/core/src/security/permission.rs\<close> and \<open>tool_classes.rs\<close>: which tool calls are
  approved without asking, in which mode.
\<close>

section \<open>Modes\<close>

datatype permission_mode = Strict | Normal | Auto | Yolo

fun as_str_mode :: "permission_mode \<Rightarrow> string" where
  "as_str_mode Strict = ''strict''"
| "as_str_mode Normal = ''normal''"
| "as_str_mode Auto = ''auto''"
| "as_str_mode Yolo = ''yolo''"

fun rank :: "permission_mode \<Rightarrow> nat" where
  "rank Strict = 0"
| "rank Normal = 1"
| "rank Auto = 2"
| "rank Yolo = 3"

lemma rank_inject [simp]: "rank a = rank b \<longleftrightarrow> a = b"
  by (cases a; cases b) simp_all

text \<open>The derived \<open>Ord\<close> of the enum is the order of the ranks.\<close>

instantiation permission_mode :: linorder
begin

definition less_eq_permission_mode :: "permission_mode \<Rightarrow> permission_mode \<Rightarrow> bool" where
  "less_eq_permission_mode a b \<longleftrightarrow> rank a \<le> rank b"

definition less_permission_mode :: "permission_mode \<Rightarrow> permission_mode \<Rightarrow> bool" where
  "less_permission_mode a b \<longleftrightarrow> rank a < rank b"

instance
  by standard (auto simp: less_eq_permission_mode_def less_permission_mode_def)

end

lemma Yolo_top: "m \<le> Yolo"
  by (cases m) (simp_all add: less_eq_permission_mode_def)

lemma Strict_bot: "Strict \<le> m"
  by (simp add: less_eq_permission_mode_def)

lemma not_Yolo_iff: "m \<noteq> Yolo \<longleftrightarrow> m \<le> Auto"
  by (cases m) (simp_all add: less_eq_permission_mode_def)

definition parse_permission_mode :: "string \<Rightarrow> permission_mode result" where
  "parse_permission_mode s =
     (if s = ''strict'' then Inr Strict
      else if s = ''normal'' then Inr Normal
      else if s = ''auto'' then Inr Auto
      else if s = ''yolo'' then Inr Yolo
      else Inl (Validation (''permission_mode '' @ debug_str s
                @ '' must be one of strict|normal|auto|yolo'')))"

lemma parse_as_str [simp]: "parse_permission_mode (as_str_mode m) = Inr m"
  by (cases m) (simp_all add: parse_permission_mode_def)

lemma parse_Inr_iff: "parse_permission_mode s = Inr m \<longleftrightarrow> s = as_str_mode m"
  by (cases m) (auto simp: parse_permission_mode_def split: if_splits)

datatype mode_source = SrcSession | SrcWorkarea | SrcWorkspace | SrcManaged | SrcDefault

fun as_str_source :: "mode_source \<Rightarrow> string" where
  "as_str_source SrcSession = ''session''"
| "as_str_source SrcWorkarea = ''workarea''"
| "as_str_source SrcWorkspace = ''workspace''"
| "as_str_source SrcManaged = ''managed''"
| "as_str_source SrcDefault = ''default''"

record effective_mode =
  em_mode :: permission_mode
  em_bypass_destructive_guard :: bool
  em_source :: mode_source

definition ACK_YOLO :: string where
  "ACK_YOLO = ''I understand''"

definition ACK_BYPASS_DESTRUCTIVE_GUARD :: string where
  "ACK_BYPASS_DESTRUCTIVE_GUARD = ''I understand the risks''"

definition ack_for_yolo :: "string \<Rightarrow> bool" where
  "ack_for_yolo ack \<longleftrightarrow> ack = ACK_YOLO"

definition ack_for_bypass_destructive_guard :: "string \<Rightarrow> bool" where
  "ack_for_bypass_destructive_guard ack \<longleftrightarrow> ack = ACK_BYPASS_DESTRUCTIVE_GUARD"

section \<open>Tool classes\<close>

datatype tool_class = Safe | Restricted | Dangerous | ReadOnly

definition TOOL_CLASSES :: "(string \<times> tool_class) list" where
  "TOOL_CLASSES =
     [(''Read'', Safe), (''Glob'', Safe), (''Grep'', Safe),
      (''Write'', Restricted), (''Edit'', Restricted), (''NotebookEdit'', Restricted),
      (''Bash'', Restricted),
      (''Delete'', Dangerous),
      (''list_workspaces'', ReadOnly), (''list_workareas'', ReadOnly),
      (''list_sessions'', ReadOnly), (''get_workspace_summary'', ReadOnly),
      (''get_workarea_summary'', ReadOnly), (''list_recent_activity'', ReadOnly),
      (''list_active_schedules'', ReadOnly), (''read_inbox_summary'', ReadOnly),
      (''read_pr_set_for_workarea'', ReadOnly), (''get_workarea_recent_commits'', ReadOnly),
      (''cross_workarea_search'', ReadOnly)]"

definition classify_tool :: "string \<Rightarrow> tool_class" where
  "classify_tool tool = (case map_of TOOL_CLASSES tool of Some c \<Rightarrow> c | None \<Rightarrow> Restricted)"

lemma classify_tool_unknown: "tool \<notin> set (map fst TOOL_CLASSES) \<Longrightarrow> classify_tool tool = Restricted"
  by (auto simp: classify_tool_def map_of_eq_None_iff split: option.split)
    (metis image_eqI map_of_SomeD fst_conv)

section \<open>The resolver\<close>

datatype decision = AutoApprove | AutoApproveOnce | MustAsk | AutoDeny

record permission_resolver =
  pr_mode :: permission_mode
  pr_bypass :: bool

definition new_resolver :: "permission_mode \<Rightarrow> bool \<Rightarrow> permission_resolver" where
  "new_resolver m b = \<lparr>pr_mode = m, pr_bypass = b\<rparr>"

definition set_mode :: "permission_mode \<Rightarrow> permission_resolver \<Rightarrow> permission_resolver" where
  "set_mode m r = r\<lparr>pr_mode := m\<rparr>"

text \<open>The match of \<open>decide\<close>, arm by arm and in its order.\<close>

fun decide_class :: "permission_mode \<Rightarrow> bool \<Rightarrow> tool_class \<Rightarrow> decision" where
  "decide_class Strict _ ReadOnly = AutoApprove"
| "decide_class Strict _ _ = MustAsk"
| "decide_class Normal _ Safe = AutoApprove"
| "decide_class Normal _ _ = MustAsk"
| "decide_class Auto _ Dangerous = MustAsk"
| "decide_class Auto _ _ = AutoApprove"
| "decide_class Yolo bypass Dangerous = (if bypass then AutoApprove else MustAsk)"
| "decide_class Yolo _ _ = AutoApprove"

definition decide :: "permission_resolver \<Rightarrow> string \<Rightarrow> decision" where
  "decide r tool = decide_class (pr_mode r) (pr_bypass r) (classify_tool tool)"

fun auto_decision_string :: "permission_mode \<Rightarrow> string" where
  "auto_decision_string Strict = ''auto_strict''"
| "auto_decision_string Normal = ''auto_normal''"
| "auto_decision_string Auto = ''auto_auto''"
| "auto_decision_string Yolo = ''auto_yolo''"

lemma decide_class_range: "decide_class m b c = AutoApprove \<or> decide_class m b c = MustAsk"
  by (cases m; cases c) auto

lemma decide_range: "decide r tool = AutoApprove \<or> decide r tool = MustAsk"
  by (simp add: decide_def decide_class_range)

lemma decide_class_mono:
  assumes "m \<le> m'" and "b \<longrightarrow> b'" and "c \<noteq> ReadOnly" and "decide_class m b c = AutoApprove"
  shows "decide_class m' b' c = AutoApprove"
  using assms by (cases m; cases m'; cases c) (auto simp: less_eq_permission_mode_def split: if_splits)

lemma decide_dangerous:
  "classify_tool tool = Dangerous \<Longrightarrow>
     decide r tool = AutoApprove \<longleftrightarrow> pr_mode r = Yolo \<and> pr_bypass r"
  by (cases "pr_mode r") (auto simp: decide_def)

end
