(* ===== verification/PathPolicy.thy ===== *)
theory PathPolicy
  imports Tables
begin

text \<open>
  The filesystem floor under the approval gate: \<open>security/path_policy.rs\<close> (the allow and deny
  lists and \<open>classify\<close>) and \<open>agent_supervisor/tool_args.rs\<close> (which path a tool call names).

  The file system enters through \<open>fs_env\<close>: what \<open>std::fs::canonicalize\<close> returns for a path (or
  \<open>None\<close> on an error), the working directory, and the third-party \<open>path_clean::clean\<close>.
\<close>

section \<open>Paths of the standard library\<close>

text \<open>
  \<open>Path::components\<close>: the root, then the segments; empty segments and \<open>.\<close> vanish, except a
  \<open>.\<close> that starts a relative path.
\<close>

datatype component = RootDir | CurDir | ParentDir | NormalComp string

fun split_on :: "char \<Rightarrow> string \<Rightarrow> string list" where
  "split_on c [] = [[]]"
| "split_on c (x # xs) =
     (if x = c then [] # split_on c xs
      else case split_on c xs of [] \<Rightarrow> [[x]] | y # ys \<Rightarrow> (x # y) # ys)"

fun segment :: "string \<Rightarrow> component list" where
  "segment s = (if s = [] \<or> s = ''.'' then [] else if s = ''..'' then [ParentDir] else [NormalComp s])"

definition is_absolute :: "string \<Rightarrow> bool" where
  "is_absolute p = starts_with_str p ''/''"

definition components :: "string \<Rightarrow> component list" where
  "components p =
     (if is_absolute p then RootDir # concat (map segment (split_on CHR ''/'' p))
      else case split_on CHR ''/'' p of
             [] \<Rightarrow> []
           | s # ss \<Rightarrow> (if s = ''.'' then [CurDir] else segment s) @ concat (map segment ss))"

text \<open>\<open>Path::join\<close>: an absolute argument replaces the base.\<close>

definition path_join :: "string \<Rightarrow> string \<Rightarrow> string" where
  "path_join base p =
     (if is_absolute p then p
      else if base = [] \<or> ends_with_str base ''/'' then base @ p
      else base @ ''/'' @ p)"

definition starts_with_path :: "string \<Rightarrow> string \<Rightarrow> bool" where
  "starts_with_path candidate prefix \<longleftrightarrow>
     take (length (components prefix)) (components candidate) = components prefix"

lemma starts_with_path_refl [simp]: "starts_with_path p p"
  by (simp add: starts_with_path_def)

lemma take_eq_trans:
  "take (length ys) xs = ys \<Longrightarrow> take (length zs) ys = zs \<Longrightarrow> take (length zs) xs = zs"
  by (metis append_eq_conv_conj append_take_drop_id append_assoc)

lemma starts_with_path_trans:
  "starts_with_path a b \<Longrightarrow> starts_with_path b c \<Longrightarrow> starts_with_path a c"
  by (simp add: starts_with_path_def) (rule take_eq_trans)

section \<open>The lists\<close>

record fs_env =
  fs_canonicalize :: "string \<Rightarrow> string option"
  fs_current_dir :: "string option"
  fs_clean :: "string \<Rightarrow> string"

definition canonicalize_or_clean :: "fs_env \<Rightarrow> string \<Rightarrow> string" where
  "canonicalize_or_clean fs p =
     (case fs_canonicalize fs p of
        Some c \<Rightarrow> c
      | None \<Rightarrow>
          fs_clean fs
            (if is_absolute p then p
             else case fs_current_dir fs of Some cwd \<Rightarrow> path_join cwd p | None \<Rightarrow> p))"

definition extract_writable_paths :: "(string \<Rightarrow> json option) \<Rightarrow> string \<Rightarrow> string list" where
  "extract_writable_paths from_str settings_json =
     (case from_str settings_json of
        None \<Rightarrow> []
      | Some parsed \<Rightarrow>
          (case Option.bind (Option.bind (as_object parsed) (\<lambda>m. map_of m ''writable_paths'')) as_array of
             None \<Rightarrow> []
           | Some arr \<Rightarrow> List.map_filter as_str arr))"

text \<open>An \<open>AllowList\<close> and a \<open>DenyList\<close> are the vectors of their roots.\<close>

definition for_workarea ::
  "fs_env \<Rightarrow> (string \<Rightarrow> json option) \<Rightarrow> workarea_row \<Rightarrow> repository_row list \<Rightarrow> string option \<Rightarrow> string \<Rightarrow> string list" where
  "for_workarea fs from_str workarea repos settings home =
     (let worktree_root = wa_worktree_root workarea
      in [canonicalize_or_clean fs worktree_root,
          canonicalize_or_clean fs (path_join worktree_root ''.context'')]
         @ map (\<lambda>r. canonicalize_or_clean fs (r_local_path r)) repos
         @ (case settings of
              Some s \<Rightarrow> map (canonicalize_or_clean fs) (extract_writable_paths from_str s)
            | None \<Rightarrow> [])
         @ [canonicalize_or_clean fs (path_join home ''concerto'')])"

definition deny_raw :: "string \<Rightarrow> string list" where
  "deny_raw home =
     [path_join home ''.ssh'', path_join home ''.aws'', path_join home ''.gnupg'',
      path_join home ''.kube'', path_join home ''.netrc'',
      path_join (path_join home ''.docker'') ''config.json'']"

definition v0_1_default :: "fs_env \<Rightarrow> string \<Rightarrow> string list" where
  "v0_1_default fs home = map (canonicalize_or_clean fs) (deny_raw home)"

definition push_root :: "fs_env \<Rightarrow> string \<Rightarrow> string list \<Rightarrow> string list" where
  "push_root fs root roots = roots @ [canonicalize_or_clean fs root]"

datatype path_decision = PathAllowed | PathOutside | PathDenied

fun any_root :: "string \<Rightarrow> string list \<Rightarrow> bool" where
  "any_root canonical [] = False"
| "any_root canonical (d # ds) = (if starts_with_path canonical d then True else any_root canonical ds)"

lemma any_root_iff: "any_root c ds \<longleftrightarrow> (\<exists>d\<in>set ds. starts_with_path c d)"
  by (induction ds) auto

definition classify :: "fs_env \<Rightarrow> string \<Rightarrow> string list \<Rightarrow> string list \<Rightarrow> path_decision" where
  "classify fs path allow deny =
     (let canonical = canonicalize_or_clean fs path
      in if any_root canonical deny then PathDenied
         else if any_root canonical allow then PathAllowed
         else PathOutside)"

text \<open>The lists of a workarea, from its rows. Attached repositories whose row is gone are skipped.\<close>

definition for_workarea_from_db ::
  "fs_env \<Rightarrow> (string \<Rightarrow> json option) \<Rightarrow> database \<Rightarrow> string \<Rightarrow> string \<Rightarrow> (string list \<times> string list) result" where
  "for_workarea_from_db fs from_str db wid home =
     and_then (ok_or (NotFound (''workarea '' @ wid @ '' not found'')) (workareas_get db wid)) (\<lambda>workarea.
       let repos = List.map_filter (\<lambda>(rid, path). repositories_get db rid) (list_workarea_repos db wid);
           settings = get_settings_json db (wa_workspace_id workarea)
       in Inr (for_workarea fs from_str workarea repos settings home, v0_1_default fs home))"

definition build_path_policy ::
  "fs_env \<Rightarrow> (string \<Rightarrow> json option) \<Rightarrow> string option \<Rightarrow> database \<Rightarrow> string \<Rightarrow> (string list \<times> string list) result" where
  "build_path_policy fs from_str home_dir db wid =
     for_workarea_from_db fs from_str db wid (case home_dir of Some h \<Rightarrow> h | None \<Rightarrow> ''/'')"

section \<open>The path a tool call names\<close>

fun first_nonempty :: "(string \<times> json) list \<Rightarrow> string list \<Rightarrow> string option" where
  "first_nonempty obj [] = None"
| "first_nonempty obj (key # keys) =
     (case Option.bind (map_of obj key) as_str of
        Some s \<Rightarrow> if s \<noteq> [] then Some s else first_nonempty obj keys
      | None \<Rightarrow> first_nonempty obj keys)"

definition extract_path_field :: "json \<Rightarrow> string option" where
  "extract_path_field args =
     (case as_object args of
        None \<Rightarrow> None
      | Some obj \<Rightarrow> first_nonempty obj [''file_path'', ''path'', ''target''])"

definition is_quote :: "char \<Rightarrow> bool" where
  "is_quote c \<longleftrightarrow> c = CHR 0x27 \<or> c = CHR 0x22"

definition trim_matches :: "(char \<Rightarrow> bool) \<Rightarrow> string \<Rightarrow> string" where
  "trim_matches f s = rev (dropWhile f (rev (dropWhile f s)))"

text \<open>\<open>split_whitespace\<close> on ASCII text: the maximal runs of non-space characters.\<close>

fun split_ws :: "string \<Rightarrow> string \<Rightarrow> string list" where
  "split_ws cur [] = (if cur = [] then [] else [cur])"
| "split_ws cur (c # cs) =
     (if is_space c then (if cur = [] then split_ws [] cs else cur # split_ws [] cs)
      else split_ws (cur @ [c]) cs)"

fun first_path_token :: "string list \<Rightarrow> string option" where
  "first_path_token [] = None"
| "first_path_token (raw # rest) =
     (let token = dropWhile (\<lambda>c. c = CHR ''>'') (trim_matches is_quote raw)
      in if starts_with_str token ''/'' \<or> starts_with_str token ''~/'' then Some token
         else first_path_token rest)"

definition extract_path_from_command :: "json \<Rightarrow> string option" where
  "extract_path_from_command args =
     (case as_object args of
        None \<Rightarrow> None
      | Some obj \<Rightarrow>
          (case Option.bind (map_of obj ''command'') as_str of
             None \<Rightarrow> None
           | Some cmd \<Rightarrow> first_path_token (split_ws [] cmd)))"

definition extract_path :: "string \<Rightarrow> json \<Rightarrow> string option" where
  "extract_path tool args =
     (if tool \<in> {''Write'', ''Edit'', ''Read'', ''NotebookEdit''} then extract_path_field args
      else if tool = ''Bash'' then extract_path_from_command args
      else None)"

section \<open>Lemmas\<close>

lemma classify_denied_iff:
  "classify fs path allow deny = PathDenied \<longleftrightarrow>
     (\<exists>d\<in>set deny. starts_with_path (canonicalize_or_clean fs path) d)"
  by (simp add: classify_def Let_def any_root_iff)

lemma classify_allowed_iff:
  "classify fs path allow deny = PathAllowed \<longleftrightarrow>
     (\<exists>a\<in>set allow. starts_with_path (canonicalize_or_clean fs path) a)
     \<and> \<not> (\<exists>d\<in>set deny. starts_with_path (canonicalize_or_clean fs path) d)"
  by (simp add: classify_def Let_def any_root_iff)

lemma first_path_token_prefix:
  "first_path_token ts = Some p \<Longrightarrow> starts_with_str p ''/'' \<or> starts_with_str p ''~/''"
  by (induction ts) (auto simp: Let_def split: if_splits)

lemma extract_path_field_nonempty: "extract_path_field args = Some p \<Longrightarrow> p \<noteq> []"
proof -
  have "first_nonempty obj keys = Some p \<Longrightarrow> p \<noteq> []" for obj keys
    by (induction obj keys rule: first_nonempty.induct) (auto split: option.splits if_splits)
  then show "extract_path_field args = Some p \<Longrightarrow> p \<noteq> []"
    by (auto simp: extract_path_field_def simp del: first_nonempty.simps split: option.splits)
qed

lemma components_tilde: "components (''~/'' @ p) = NormalComp ''~'' # concat (map segment (split_on CHR ''/'' p))"
  by (simp add: components_def is_absolute_def starts_with_str_def)

lemma split_on_nonempty [simp]: "split_on c s \<noteq> []"
  by (induction s) (auto split: list.split)

lemma split_on_plain: "c \<notin> set s \<Longrightarrow> split_on c s = [s]"
  by (induction s) auto

lemma split_on_append: "split_on c (xs @ c # ys) = split_on c xs @ split_on c ys"
proof (induction xs)
  case Nil
  then show ?case by simp
next
  case (Cons x xs)
  then show ?case by (cases "split_on c xs") auto
qed

lemma components_join_relative:
  assumes "is_absolute base" and "\<not> is_absolute p" and "\<not> ends_with_str base ''/''"
  shows "components (path_join base p) = components base @ concat (map segment (split_on CHR ''/'' p))"
proof -
  have ne: "base \<noteq> []" using assms(1) by (auto simp: is_absolute_def starts_with_str_def)
  have "is_absolute (base @ ''/'' @ p)"
    using assms(1) ne by (cases base) (auto simp: is_absolute_def starts_with_str_def)
  with assms ne show ?thesis
    by (simp add: path_join_def components_def split_on_append)
qed

lemma starts_with_append_other:
  assumes "take (length ds) (xs @ x # ys) = ds" and "x \<notin> set ds"
  shows "take (length ds) xs = ds"
proof (cases "length ds \<le> length xs")
  case True
  then show ?thesis using assms(1) by simp
next
  case False
  then have "x \<in> set (take (length ds) (xs @ x # ys))"
    by (cases "length ds - length xs") simp_all
  then have "x \<in> set ds" by (simp only: assms(1))
  with assms(2) show ?thesis by simp
qed

section \<open>Properties\<close>

text \<open>C3: the deny list is a floor no configuration lowers. For the lists built from the database,
  whatever the workarea, its repositories and the writable paths of its workspace settings say, a
  path that resolves to a place at or below one of the six secret locations of the home directory
  is classified as denied.\<close>

theorem deny_floor:
  assumes "for_workarea_from_db fs from_str db wid home = Inr (allow, deny)"
    and "secret \<in> set (deny_raw home)"
    and "starts_with_path (canonicalize_or_clean fs path) (canonicalize_or_clean fs secret)"
  shows "classify fs path allow deny = PathDenied"
proof -
  have "deny = v0_1_default fs home"
    using assms(1) by (auto simp: for_workarea_from_db_def and_then_Inr_iff Let_def)
  with assms(2,3) show ?thesis by (auto simp: classify_denied_iff v0_1_default_def)
qed

definition plain_fs :: fs_env where
  "plain_fs = \<lparr>fs_canonicalize = \<lambda>_. None, fs_current_dir = Some ''/work'', fs_clean = \<lambda>p. p\<rparr>"

definition sample_path_db :: database where
  "sample_path_db =
     \<lparr>db_sessions = [],
      db_workareas = [(''w1'', \<lparr>wa_workspace_id = ''p1'', wa_worktree_root = ''/work'', wa_status = ''running'',
         wa_permission_mode = None, wa_bypass = None, wa_archived_at = None,
        wa_composer_name = ''bach'', wa_branch_name = ''concerto/bach'', wa_settings_json = ''{}''\<rparr>)],
      db_workspaces = [(''p1'', \<lparr>ws_permission_mode = None, ws_bypass = None, ws_settings_json = ''S'',
        ws_slug = ''p'', ws_archived_at = None\<rparr>)],
      db_repositories = [], db_workarea_repos = [],
      db_workspace_repos = []\<rparr>"

theorem deny_floor_witness:
  "case for_workarea_from_db plain_fs
      (\<lambda>_. Some (JObject [(''writable_paths'', JArray [JString ''/h/.ssh''])])) sample_path_db ''w1'' ''/h'' of
     Inr (allow, deny) \<Rightarrow> ''/h/.ssh'' \<in> set allow \<and> classify plain_fs ''/h/.ssh/id'' allow deny = PathDenied
   | Inl _ \<Rightarrow> False"
proof -
  let ?p = "\<lambda>_. Some (JObject [(''writable_paths'', JArray [JString ''/h/.ssh''])])"
  obtain allow deny where r: "for_workarea_from_db plain_fs ?p sample_path_db ''w1'' ''/h'' = Inr (allow, deny)"
    and a: "''/h/.ssh'' \<in> set allow"
    by (simp add: for_workarea_from_db_def workareas_get_def sample_path_db_def list_workarea_repos_def
        sort_by_key_def get_settings_json_def for_workarea_def extract_writable_paths_def Let_def
        List.map_filter_def canonicalize_or_clean_def plain_fs_def is_absolute_def starts_with_str_def)
  have "classify plain_fs ''/h/.ssh/id'' allow deny = PathDenied"
    by (rule deny_floor [OF r, of "''/h/.ssh''"])
      (simp_all add: deny_raw_def path_join_def is_absolute_def starts_with_str_def ends_with_str_def
        canonicalize_or_clean_def plain_fs_def starts_with_path_def components_def)
  with r a show ?thesis by simp
qed

text \<open>a home-relative path in a shell command escapes the floor. The token \<open>~/...\<close> that the
  extractor takes from a Bash command is not absolute, so it is resolved below the working
  directory: unless that directory itself lies under a deny root, no deny root matches it, in
  particular not the secret directory the shell will expand it to.\<close>

theorem tilde_path_not_denied:
  assumes "fs_canonicalize fs (''~/'' @ p) = None" and "fs_current_dir fs = Some cwd"
    and "is_absolute cwd" and "\<not> ends_with_str cwd ''/''"
    and "components (fs_clean fs (path_join cwd (''~/'' @ p))) = components (path_join cwd (''~/'' @ p))"
    and "\<forall>d\<in>set deny. NormalComp ''~'' \<notin> set (components d) \<and> \<not> starts_with_path cwd d"
  shows "classify fs (''~/'' @ p) allow deny \<noteq> PathDenied"
proof
  let ?c = "canonicalize_or_clean fs (''~/'' @ p)"
  have na: "\<not> is_absolute (''~/'' @ p)" by (simp add: is_absolute_def starts_with_str_def)
  then have c: "components ?c = components cwd @ NormalComp ''~'' # concat (map segment (split_on CHR ''/'' p))"
    using assms(1,2,5) components_join_relative [OF assms(3) na assms(4)]
    by (simp add: canonicalize_or_clean_def)
  assume "classify fs (''~/'' @ p) allow deny = PathDenied"
  then obtain d where d: "d \<in> set deny" "starts_with_path ?c d" by (auto simp: classify_denied_iff)
  then have "take (length (components d)) (components cwd @ NormalComp ''~''
      # concat (map segment (split_on CHR ''/'' p))) = components d"
    using c by (simp add: starts_with_path_def)
  then have "starts_with_path cwd d"
    using assms(6) d(1) unfolding starts_with_path_def by (blast intro: starts_with_append_other)
  with assms(6) d(1) show False by blast
qed

theorem tilde_path_not_denied_witness:
  "extract_path ''Bash'' (JObject [(''command'', JString ''cat ~/.ssh/id'')]) = Some ''~/.ssh/id''
   \<and> classify plain_fs ''~/.ssh/id'' [] (v0_1_default plain_fs ''/h'') \<noteq> PathDenied"
proof
  show "extract_path ''Bash'' (JObject [(''command'', JString ''cat ~/.ssh/id'')]) = Some ''~/.ssh/id''"
    by (simp add: extract_path_def extract_path_from_command_def is_space_def trim_matches_def is_quote_def
        starts_with_str_def)
  show "classify plain_fs ''~/.ssh/id'' [] (v0_1_default plain_fs ''/h'') \<noteq> PathDenied"
    using tilde_path_not_denied [of plain_fs "''.ssh/id''" "''/work''" "v0_1_default plain_fs ''/h''" "[]"]
    by (simp add: plain_fs_def is_absolute_def starts_with_str_def ends_with_str_def v0_1_default_def
        deny_raw_def path_join_def canonicalize_or_clean_def components_def starts_with_path_def)
qed

end
