(* ===== verification/EditMutex.thy ===== *)
theory EditMutex
  imports Prelude
begin

text \<open>
  The per-workarea edit lock (\<open>workspace_manager/edit_mutex.rs\<close>) as a transition system. A
  task is one call of \<open>acquire\<close> with the guard it returns. The awaits of the code are the step
  boundaries: the lookup under the map lock, the acquisition of the inner mutex, the write of
  the holder cell, the timeout and the read of the holder that follows it, and the two actions
  of \<open>EditGuard::drop\<close> (the holder cell, by \<open>try_lock\<close>, then the inner mutex).
\<close>

definition is_write_class :: "string \<Rightarrow> bool" where
  "is_write_class tool \<longleftrightarrow> tool \<in> {''Write'', ''Edit'', ''MultiEdit'', ''NotebookEdit''}"

definition EDIT_MUTEX_BLOCKED_WIRE_CODE :: string where
  "EDIT_MUTEX_BLOCKED_WIRE_CODE = ''workarea.edit_mutex.blocked''"

text \<open>\<open>EditBlocked\<close> is its holder.\<close>

fun describe_blocked :: "string option \<Rightarrow> string" where
  "describe_blocked (Some sid) = ''blocked on session '' @ sid"
| "describe_blocked None = ''blocked on another session''"

definition show_blocked :: "string option \<Rightarrow> string" where
  "show_blocked holder = EDIT_MUTEX_BLOCKED_WIRE_CODE @ '': '' @ describe_blocked holder"

section \<open>State\<close>

text \<open>The inner mutex is the task that owns it, if any.\<close>

record workarea_lock =
  wl_inner :: "nat option"
  wl_holder :: "string option"

datatype phase =
    Waiting            \<comment> \<open>in \<open>timeout(lock_owned)\<close>\<close>
  | Locked             \<comment> \<open>owns the inner mutex, the holder cell not yet written\<close>
  | Holding            \<comment> \<open>\<open>acquire\<close> returned the guard\<close>
  | TimedOut           \<comment> \<open>the timeout elapsed, the holder not yet read\<close>
  | Blocked "string option"
  | Releasing          \<comment> \<open>in \<open>drop\<close>, after the holder cell\<close>
  | Released

record edit_task =
  t_workarea :: string
  t_session :: string
  t_phase :: phase

record registry =
  reg_map :: "string \<rightharpoonup> workarea_lock"
  reg_tasks :: "nat \<rightharpoonup> edit_task"

definition new_registry :: registry where
  "new_registry = \<lparr>reg_map = Map.empty, reg_tasks = Map.empty\<rparr>"

definition lookup_or_insert :: "string \<Rightarrow> (string \<rightharpoonup> workarea_lock) \<Rightarrow> (string \<rightharpoonup> workarea_lock)" where
  "lookup_or_insert w m = (case m w of Some _ \<Rightarrow> m | None \<Rightarrow> m(w \<mapsto> \<lparr>wl_inner = None, wl_holder = None\<rparr>))"

definition holder :: "registry \<Rightarrow> string \<Rightarrow> string option" where
  "holder r w = (case reg_map r w of Some l \<Rightarrow> wl_holder l | None \<Rightarrow> None)"

definition set_phase :: "nat \<Rightarrow> phase \<Rightarrow> registry \<Rightarrow> registry" where
  "set_phase t ph r =
     r\<lparr>reg_tasks := (reg_tasks r)(t := map_option (\<lambda>k. k\<lparr>t_phase := ph\<rparr>) (reg_tasks r t))\<rparr>"

definition set_lock :: "string \<Rightarrow> workarea_lock \<Rightarrow> registry \<Rightarrow> registry" where
  "set_lock w l r = r\<lparr>reg_map := (reg_map r)(w \<mapsto> l)\<rparr>"

section \<open>Steps\<close>

text \<open>\<open>task_at r t ph k l\<close>: task \<open>t\<close> is in phase \<open>ph\<close>, with its lock entry \<open>l\<close>.\<close>

definition task_at :: "registry \<Rightarrow> nat \<Rightarrow> phase \<Rightarrow> edit_task \<Rightarrow> workarea_lock \<Rightarrow> bool" where
  "task_at r t ph k l \<longleftrightarrow> reg_tasks r t = Some k \<and> t_phase k = ph \<and> reg_map r (t_workarea k) = Some l"

inductive edit_step :: "registry \<Rightarrow> registry \<Rightarrow> bool" where
  call: "reg_tasks r t = None \<Longrightarrow>
     edit_step r (r\<lparr>reg_map := lookup_or_insert w (reg_map r),
        reg_tasks := (reg_tasks r)(t \<mapsto> \<lparr>t_workarea = w, t_session = s, t_phase = Waiting\<rparr>)\<rparr>)"
| lock: "task_at r t Waiting k l \<Longrightarrow> wl_inner l = None \<Longrightarrow>
     edit_step r (set_phase t Locked (set_lock (t_workarea k) (l\<lparr>wl_inner := Some t\<rparr>) r))"
| name_holder: "task_at r t Locked k l \<Longrightarrow>
     edit_step r (set_phase t Holding (set_lock (t_workarea k) (l\<lparr>wl_holder := Some (t_session k)\<rparr>) r))"
| elapse: "task_at r t Waiting k l \<Longrightarrow> edit_step r (set_phase t TimedOut r)"
| read_holder: "task_at r t TimedOut k l \<Longrightarrow> edit_step r (set_phase t (Blocked (wl_holder l)) r)"
| drop_clear: "task_at r t Holding k l \<Longrightarrow>
     edit_step r (set_phase t Releasing (set_lock (t_workarea k) (l\<lparr>wl_holder := None\<rparr>) r))"
| drop_contended: "task_at r t Holding k l \<Longrightarrow> edit_step r (set_phase t Releasing r)"
| drop_release: "task_at r t Releasing k l \<Longrightarrow>
     edit_step r (set_phase t Released (set_lock (t_workarea k) (l\<lparr>wl_inner := None\<rparr>) r))"

inductive edit_reach :: "registry \<Rightarrow> bool" where
  init: "edit_reach new_registry"
| step: "edit_reach r \<Longrightarrow> edit_step r r' \<Longrightarrow> edit_reach r'"

section \<open>Invariant\<close>

definition owning :: "phase \<Rightarrow> bool" where
  "owning ph \<longleftrightarrow> ph \<in> {Locked, Holding, Releasing}"

lemma owning_simps [simp]:
  "owning Locked" "owning Holding" "owning Releasing"
  "\<not> owning Waiting" "\<not> owning TimedOut" "\<not> owning (Blocked h)" "\<not> owning Released"
  by (simp_all add: owning_def)

definition edit_inv :: "registry \<Rightarrow> bool" where
  "edit_inv r \<longleftrightarrow>
     (\<forall>t k. reg_tasks r t = Some k \<longrightarrow>
        (\<exists>l. reg_map r (t_workarea k) = Some l
           \<and> (owning (t_phase k) \<longleftrightarrow> wl_inner l = Some t)
           \<and> (t_phase k = Holding \<longrightarrow> wl_holder l = Some (t_session k))))
     \<and> (\<forall>w l t. reg_map r w = Some l \<longrightarrow> wl_inner l = Some t \<longrightarrow>
        (\<exists>k. reg_tasks r t = Some k \<and> t_workarea k = w))"

lemma edit_invD:
  "edit_inv r \<Longrightarrow> reg_tasks r t = Some k \<Longrightarrow>
     \<exists>l. reg_map r (t_workarea k) = Some l
       \<and> (owning (t_phase k) \<longleftrightarrow> wl_inner l = Some t)
       \<and> (t_phase k = Holding \<longrightarrow> wl_holder l = Some (t_session k))"
  by (auto simp: edit_inv_def)

lemma edit_inv_owner:
  "edit_inv r \<Longrightarrow> reg_map r w = Some l \<Longrightarrow> wl_inner l = Some t \<Longrightarrow>
     \<exists>k. reg_tasks r t = Some k \<and> t_workarea k = w"
  by (auto simp: edit_inv_def)

text \<open>
  One lemma for all steps of a task: it moves from one phase to the next and rewrites its
  own lock entry; the other tasks of the workarea keep their part of the invariant because
  none of them owns the inner mutex when this one does, or when it is free.
\<close>

lemma edit_inv_move:
  assumes "edit_inv r" and "task_at r t ph k l"
    and "owning ph' \<longleftrightarrow> wl_inner l' = Some t"
    and "wl_inner l' = wl_inner l \<or> (wl_inner l \<in> {None, Some t} \<and> wl_inner l' \<in> {None, Some t})"
    and "ph' = Holding \<longrightarrow> wl_holder l' = Some (t_session k)"
    and "wl_holder l' = wl_holder l \<or> wl_inner l = Some t"
  shows "edit_inv (set_phase t ph' (set_lock (t_workarea k) l' r))"
proof -
  have k: "reg_tasks r t = Some k" "reg_map r (t_workarea k) = Some l"
    using assms(2) by (auto simp: task_at_def)
  have other: "\<exists>l''. reg_map (set_lock (t_workarea k) l' r) (t_workarea j) = Some l''
      \<and> (owning (t_phase j) \<longleftrightarrow> wl_inner l'' = Some u)
      \<and> (t_phase j = Holding \<longrightarrow> wl_holder l'' = Some (t_session j))"
    if "reg_tasks r u = Some j" "u \<noteq> t" for u j
  proof (cases "t_workarea j = t_workarea k")
    case True
    with edit_invD [OF assms(1) that(1)] k(2)
    have o: "owning (t_phase j) \<longleftrightarrow> wl_inner l = Some u"
      and h: "t_phase j = Holding \<longrightarrow> wl_holder l = Some (t_session j)" by auto
    have "owning (t_phase j) \<longleftrightarrow> wl_inner l' = Some u" using o assms(4) that(2) by auto
    moreover have "t_phase j = Holding \<longrightarrow> wl_holder l' = Some (t_session j)"
      using h o assms(6) that(2) by auto
    ultimately show ?thesis using True by (simp add: set_lock_def)
  next
    case False
    with edit_invD [OF assms(1) that(1)] show ?thesis by (simp add: set_lock_def)
  qed
  have mine: "\<exists>k'. reg_tasks r u = Some k' \<and> t_workarea k' = w"
    if "reg_map (set_lock (t_workarea k) l' r) w = Some m" "wl_inner m = Some u" for w m u
  proof (cases "w = t_workarea k")
    case True
    with that have "m = l'" by (simp add: set_lock_def)
    with that(2) assms(4) edit_inv_owner [OF assms(1) k(2), of u] k(1) True show ?thesis by auto
  next
    case False
    with that edit_inv_owner [OF assms(1)] show ?thesis by (simp add: set_lock_def)
  qed
  show ?thesis
    unfolding edit_inv_def
  proof (intro conjI allI impI)
    fix u j assume "reg_tasks (set_phase t ph' (set_lock (t_workarea k) l' r)) u = Some j"
    then show "\<exists>l''. reg_map (set_phase t ph' (set_lock (t_workarea k) l' r)) (t_workarea j) = Some l''
        \<and> (owning (t_phase j) \<longleftrightarrow> wl_inner l'' = Some u)
        \<and> (t_phase j = Holding \<longrightarrow> wl_holder l'' = Some (t_session j))"
      using assms(3,5) k other by (cases "u = t") (auto simp: set_phase_def set_lock_def)
  next
    fix w m u assume "reg_map (set_phase t ph' (set_lock (t_workarea k) l' r)) w = Some m"
      and "wl_inner m = Some u"
    then show "\<exists>k'. reg_tasks (set_phase t ph' (set_lock (t_workarea k) l' r)) u = Some k' \<and> t_workarea k' = w"
      using mine [of w m u] k(1) by (auto simp: set_phase_def set_lock_def)
  qed
qed

lemma set_lock_same: "reg_map r w = Some l \<Longrightarrow> set_lock w l r = r"
  by (simp add: set_lock_def map_upd_triv)

lemma edit_inv_move_only:
  assumes "edit_inv r" and "task_at r t ph k l" and "owning ph' \<longleftrightarrow> owning ph" and "ph' \<noteq> Holding"
  shows "edit_inv (set_phase t ph' r)"
proof -
  from assms(2) have l: "reg_map r (t_workarea k) = Some l" "reg_tasks r t = Some k" "t_phase k = ph"
    by (auto simp: task_at_def)
  with edit_invD [OF assms(1) l(2)] have "owning ph \<longleftrightarrow> wl_inner l = Some t" by auto
  with edit_inv_move [OF assms(1,2), of ph' l] assms(3,4) show ?thesis
    by (simp add: set_lock_same l(1))
qed

lemma at_owner: "edit_inv r \<Longrightarrow> task_at r t ph k l \<Longrightarrow> owning ph \<longleftrightarrow> wl_inner l = Some t"
  using edit_invD by (fastforce simp: task_at_def)

lemma edit_inv_call:
  assumes "edit_inv r" and "reg_tasks r t = None"
  shows "edit_inv (r\<lparr>reg_map := lookup_or_insert w (reg_map r),
        reg_tasks := (reg_tasks r)(t \<mapsto> \<lparr>t_workarea = w, t_session = s, t_phase = Waiting\<rparr>)\<rparr>)"
proof -
  have keep: "reg_map r v = Some l \<Longrightarrow> lookup_or_insert w (reg_map r) v = Some l" for v l
    by (auto simp: lookup_or_insert_def split: option.splits)
  have new: "lookup_or_insert w (reg_map r) v = Some l \<Longrightarrow> wl_inner l = Some u \<Longrightarrow> reg_map r v = Some l" for v l u
    by (auto simp: lookup_or_insert_def split: option.splits if_splits)
  have there: "\<exists>l. lookup_or_insert w (reg_map r) w = Some l \<and> wl_inner l \<noteq> Some t"
    using assms edit_inv_owner [OF assms(1), of w _ t]
    by (auto simp: lookup_or_insert_def split: option.splits)
  show ?thesis
    unfolding edit_inv_def
  proof (intro conjI allI impI)
    fix u j assume "reg_tasks (r\<lparr>reg_map := lookup_or_insert w (reg_map r),
        reg_tasks := (reg_tasks r)(t \<mapsto> \<lparr>t_workarea = w, t_session = s, t_phase = Waiting\<rparr>)\<rparr>) u = Some j"
    then show "\<exists>l. reg_map (r\<lparr>reg_map := lookup_or_insert w (reg_map r),
        reg_tasks := (reg_tasks r)(t \<mapsto> \<lparr>t_workarea = w, t_session = s, t_phase = Waiting\<rparr>)\<rparr>) (t_workarea j) = Some l
        \<and> (owning (t_phase j) \<longleftrightarrow> wl_inner l = Some u)
        \<and> (t_phase j = Holding \<longrightarrow> wl_holder l = Some (t_session j))"
      using there edit_invD [OF assms(1), of u j] keep by (cases "u = t") auto
  next
    fix v l u assume "reg_map (r\<lparr>reg_map := lookup_or_insert w (reg_map r),
        reg_tasks := (reg_tasks r)(t \<mapsto> \<lparr>t_workarea = w, t_session = s, t_phase = Waiting\<rparr>)\<rparr>) v = Some l"
      and "wl_inner l = Some u"
    then show "\<exists>k. reg_tasks (r\<lparr>reg_map := lookup_or_insert w (reg_map r),
        reg_tasks := (reg_tasks r)(t \<mapsto> \<lparr>t_workarea = w, t_session = s, t_phase = Waiting\<rparr>)\<rparr>) u = Some k \<and> t_workarea k = v"
      using new [of v l u] edit_inv_owner [OF assms(1), of v l u] assms(2) by auto
  qed
qed

lemma edit_inv_step: "edit_step r r' \<Longrightarrow> edit_inv r \<Longrightarrow> edit_inv r'"
proof (induction rule: edit_step.induct)
  case (call r t w s)
  then show ?case by (simp add: edit_inv_call)
next
  case (lock r t k l)
  then show ?case by (intro edit_inv_move) auto
next
  case (name_holder r t k l)
  with at_owner [OF name_holder.prems name_holder.hyps] show ?case by (intro edit_inv_move) auto
next
  case (elapse r t k l)
  then show ?case by (intro edit_inv_move_only) auto
next
  case (read_holder r t k l)
  then show ?case by (intro edit_inv_move_only) auto
next
  case (drop_clear r t k l)
  with at_owner [OF drop_clear.prems drop_clear.hyps] show ?case by (intro edit_inv_move) auto
next
  case (drop_contended r t k l)
  then show ?case by (intro edit_inv_move_only) auto
next
  case (drop_release r t k l)
  with at_owner [OF drop_release.prems drop_release.hyps] show ?case by (intro edit_inv_move) auto
qed

lemma edit_reach_inv: "edit_reach r \<Longrightarrow> edit_inv r"
proof (induction rule: edit_reach.induct)
  case init
  then show ?case by (simp add: edit_inv_def new_registry_def)
next
  case (step r r')
  then show ?case using edit_inv_step by blast
qed

section \<open>Properties\<close>

text \<open>C4: at most one session writes in a workarea. In every reachable state of the registry, two
  different tasks on the same workarea are never both between acquiring its inner mutex and
  releasing it; and while a task holds the guard, the holder the registry reports is its session.\<close>

theorem one_writer_per_workarea:
  assumes "edit_reach r" and "reg_tasks r t = Some k" and "owning (t_phase k)"
  shows "(\<forall>u j. reg_tasks r u = Some j \<and> t_workarea j = t_workarea k \<and> owning (t_phase j) \<longrightarrow> u = t)
    \<and> (t_phase k = Holding \<longrightarrow> holder r (t_workarea k) = Some (t_session k))"
proof -
  have inv: "edit_inv r" using assms(1) by (rule edit_reach_inv)
  from edit_invD [OF inv assms(2)] obtain l where l: "reg_map r (t_workarea k) = Some l" "wl_inner l = Some t"
    and h: "t_phase k = Holding \<longrightarrow> wl_holder l = Some (t_session k)"
    using assms(3) by auto
  show ?thesis
    using l h edit_invD [OF inv] by (fastforce simp: holder_def)
qed

text \<open>The states of a task that was called, locked and named the holder, for the examples.\<close>

definition held_registry :: registry where
  "held_registry =
     \<lparr>reg_map = [''w'' \<mapsto> \<lparr>wl_inner = Some 1, wl_holder = Some ''s''\<rparr>],
      reg_tasks = [1 \<mapsto> \<lparr>t_workarea = ''w'', t_session = ''s'', t_phase = Holding\<rparr>]\<rparr>"

definition waiting_registry :: registry where
  "waiting_registry =
     \<lparr>reg_map = [''w'' \<mapsto> \<lparr>wl_inner = None, wl_holder = None\<rparr>],
      reg_tasks = [1 \<mapsto> \<lparr>t_workarea = ''w'', t_session = ''s'', t_phase = Waiting\<rparr>]\<rparr>"

lemma reach_waiting: "edit_reach waiting_registry"
proof -
  have "edit_step new_registry waiting_registry"
    using edit_step.call [of new_registry 1 "''w''" "''s''"]
    by (simp add: new_registry_def lookup_or_insert_def waiting_registry_def)
  with edit_reach.init show ?thesis by (rule edit_reach.step)
qed

lemma reach_held: "edit_reach held_registry"
proof -
  let ?l = "\<lparr>reg_map = [''w'' \<mapsto> \<lparr>wl_inner = Some 1, wl_holder = None\<rparr>],
      reg_tasks = [1 \<mapsto> \<lparr>t_workarea = ''w'', t_session = ''s'', t_phase = Locked\<rparr>]\<rparr>"
  have "edit_step waiting_registry ?l"
    using edit_step.lock [of waiting_registry 1]
    by (simp add: waiting_registry_def task_at_def set_phase_def set_lock_def)
  moreover have "edit_step ?l held_registry"
    using edit_step.name_holder [of ?l 1] by (simp add: held_registry_def task_at_def set_phase_def set_lock_def)
  ultimately show ?thesis using reach_waiting by (blast intro: edit_reach.step)
qed

theorem one_writer_per_workarea_witness:
  "holder held_registry ''w'' = Some ''s''"
  using one_writer_per_workarea [OF reach_held, of 1] by (simp add: held_registry_def)

text \<open>the lock is never wedged. In every reachable state, a task that waits on a workarea where
  no task is between acquiring and releasing the inner mutex can acquire it at once, whatever the
  holder cell says, a stale name left by a contended drop included.\<close>

theorem free_lock_is_acquirable:
  assumes "edit_reach r" and "reg_tasks r t = Some k" and "t_phase k = Waiting"
    and "\<forall>u j. reg_tasks r u = Some j \<and> t_workarea j = t_workarea k \<longrightarrow> \<not> owning (t_phase j)"
  shows "\<exists>r' k'. edit_step r r' \<and> reg_tasks r' t = Some k' \<and> t_phase k' = Locked"
proof -
  have inv: "edit_inv r" using assms(1) by (rule edit_reach_inv)
  from edit_invD [OF inv assms(2)] obtain l where l: "reg_map r (t_workarea k) = Some l" by auto
  have "wl_inner l = None"
  proof (rule ccontr)
    assume "wl_inner l \<noteq> None"
    then obtain u where u: "wl_inner l = Some u" by auto
    from edit_inv_owner [OF inv l u] obtain j where j: "reg_tasks r u = Some j" "t_workarea j = t_workarea k"
      by auto
    with edit_invD [OF inv j(1)] l u have "owning (t_phase j)" by auto
    with assms(4) j show False by blast
  qed
  with l assms(2,3) have "edit_step r (set_phase t Locked (set_lock (t_workarea k) (l\<lparr>wl_inner := Some t\<rparr>) r))"
    by (intro edit_step.lock) (auto simp: task_at_def)
  then show ?thesis using assms(2) by (fastforce simp: set_phase_def set_lock_def)
qed

theorem free_lock_is_acquirable_witness:
  "\<exists>r' k'. edit_step waiting_registry r' \<and> reg_tasks r' 1 = Some k' \<and> t_phase k' = Locked"
  by (rule free_lock_is_acquirable [OF reach_waiting]) (auto simp: waiting_registry_def split: if_splits)

end
