(* ===== verification/Approval.thy ===== *)
theory Approval
  imports Permission PathPolicy EditMutex
begin

text \<open>
  The tool-approval gate of a session: \<open>agent_supervisor/approval.rs\<close>, the
  \<open>AwaitingApproval\<close> branch of \<open>dispatch_parse_event\<close>, its waiter task,
  \<open>emit_edit_mutex_blocked\<close>, \<open>push_replay\<close> and \<open>resolve_approval\<close> of \<open>actor.rs\<close>, and the
  statements of \<open>persist/src/tool_approvals.rs\<close> under the CHECK of the schema.

  Arguments: the outcome of building the path policy, the regex matcher \<open>is_destructive\<close>, the
  parser pack's injection bytes, the fresh approval id and the clock, the outcome of the edit
  mutex, and whether the write transaction begins.
\<close>

section \<open>Rows\<close>

record approval_row =
  ta_session_id :: string
  ta_tool_name :: string
  ta_payload_json :: string
  ta_requested_at :: int
  ta_decision :: "string option"
  ta_decided_at :: "int option"
  ta_decided_by :: "string option"
  ta_urgent :: bool

text \<open>The column's CHECK in migration 0001.\<close>

definition DECISION_CHECK :: "string list" where
  "DECISION_CHECK =
     [''approve'', ''approve_once'', ''deny'', ''auto_strict'', ''auto_normal'', ''auto_auto'', ''auto_yolo'']"

definition check_decision :: "string option \<Rightarrow> bool" where
  "check_decision d = (case d of None \<Rightarrow> True | Some s \<Rightarrow> s \<in> set DECISION_CHECK)"

definition approvals_insert :: "string \<Rightarrow> approval_row \<Rightarrow> approval_row table \<Rightarrow> unit result \<times> approval_row table" where
  "approvals_insert aid row t =
     (if map_of t aid \<noteq> None then (Inl (Sqlx ''UNIQUE constraint failed''), t)
      else if \<not> check_decision (ta_decision row) then (Inl (Sqlx ''CHECK constraint failed''), t)
      else (Inr (), t @ [(aid, row)]))"

text \<open>\<open>UPDATE \<dots> WHERE id = ? AND decision IS NULL\<close>, with the number of rows it changed.\<close>

definition update_decision ::
  "string \<Rightarrow> string \<Rightarrow> int \<Rightarrow> string option \<Rightarrow> approval_row table \<Rightarrow> nat \<times> approval_row table" where
  "update_decision aid decision at device t =
     (case map_of t aid of
        Some r \<Rightarrow>
          if ta_decision r = None
          then (1, sql_update aid (\<lambda>r. r\<lparr>ta_decision := Some decision, ta_decided_at := Some at, ta_decided_by := device\<rparr>) t)
          else (0, t)
      | None \<Rightarrow> (0, t))"

section \<open>Events and the replay buffer\<close>

datatype agent_event =
    EvStarted string
  | EvMessage string string string
  | EvExited string "int option" "int option"
  | EvAwaitingApproval string string string string string bool "string option"
  | EvApprovalResolved string string string string
  | EvToolCall string string string string
  | EvTurnComplete string
  | EvCheckpointCreated string string string
  | EvContextUsage string nat
  | EvCrashed string

definition MAX_REPLAY_EVENTS :: nat where
  "MAX_REPLAY_EVENTS = 64"

definition push_replay :: "'e list \<Rightarrow> 'e \<Rightarrow> 'e list" where
  "push_replay v ev = (if MAX_REPLAY_EVENTS \<le> length v then tl v else v) @ [ev]"

interpretation replay: bounded_log push_replay "\<lambda>v. v" MAX_REPLAY_EVENTS
proof
  show "0 < MAX_REPLAY_EVENTS" by (simp add: MAX_REPLAY_EVENTS_def)
next
  fix v :: "'e list" and x
  assume "length v \<le> MAX_REPLAY_EVENTS"
  then show "push_replay v x = take_last MAX_REPLAY_EVENTS (v @ [x])"
    by (cases v) (auto simp: push_replay_def take_last_def MAX_REPLAY_EVENTS_def)
qed

section \<open>The verdict\<close>

datatype policy_verdict = Passthrough | OutsidePolicy | DeniedPolicy

definition DENIED_BY_POLICY :: string where "DENIED_BY_POLICY = ''denied_by_policy''"

fun user_decision_string :: "decision \<Rightarrow> string" where
  "user_decision_string AutoApprove = ''approve''"
| "user_decision_string AutoApproveOnce = ''approve_once''"
| "user_decision_string AutoDeny = ''deny''"
| "user_decision_string MustAsk = ''deny''"

definition classify_policy_for_path :: "fs_env \<Rightarrow> string \<Rightarrow> string list \<Rightarrow> string list \<Rightarrow> policy_verdict" where
  "classify_policy_for_path fs path allow deny =
     (case classify fs path allow deny of
        PathAllowed \<Rightarrow> Passthrough
      | PathOutside \<Rightarrow> OutsidePolicy
      | PathDenied \<Rightarrow> DeniedPolicy)"

definition policy_override :: "fs_env \<Rightarrow> string \<Rightarrow> json \<Rightarrow> string list \<Rightarrow> string list \<Rightarrow> policy_verdict" where
  "policy_override fs tool args allow deny =
     (case extract_path tool args of
        None \<Rightarrow> Passthrough
      | Some path \<Rightarrow> classify_policy_for_path fs path allow deny)"

record gate_env =
  ge_session :: string
  ge_resolver :: permission_resolver
  ge_fs :: fs_env
  ge_policy :: "(string list \<times> string list) result"
  ge_destructive :: "string \<Rightarrow> json \<Rightarrow> string option"
  ge_inject :: "decision \<Rightarrow> string"
  ge_print :: "json \<Rightarrow> string"

definition policy_verdict_of :: "gate_env \<Rightarrow> string \<Rightarrow> json \<Rightarrow> policy_verdict" where
  "policy_verdict_of env tool payload =
     (case ge_policy env of
        Inr (allow, deny) \<Rightarrow> policy_override (ge_fs env) tool payload allow deny
      | Inl e \<Rightarrow> Passthrough)"

text \<open>The final decision, whether the floor forced it, and the destructive label.\<close>

definition gate_decision :: "gate_env \<Rightarrow> string \<Rightarrow> json \<Rightarrow> decision \<times> bool \<times> string option" where
  "gate_decision env tool payload =
     (let decision = decide (ge_resolver env) tool;
          denied_by_policy = (policy_verdict_of env tool payload = DeniedPolicy);
          decision = (if denied_by_policy then AutoDeny else decision);
          destructive = (if denied_by_policy then None else ge_destructive env tool payload);
          decision = (case destructive of
              Some _ \<Rightarrow> if pr_bypass (ge_resolver env) then AutoApprove else MustAsk
            | None \<Rightarrow> decision)
      in (decision, denied_by_policy, destructive))"

section \<open>The gate's state and operations\<close>

text \<open>
  \<open>g_pending\<close>: the waiter (its tool) behind each pending id. \<open>g_woken\<close>: waiters whose channel
  got a decision and that have not run yet. \<open>g_stdin\<close>: the frames written to the agent.
\<close>

record gate =
  g_rows :: "approval_row table"
  g_pending :: "(string \<times> string) list"
  g_woken :: "(string \<times> string \<times> decision) list"
  g_replay :: "agent_event list"
  g_sent :: "agent_event list"
  g_stdin :: "string list"

text \<open>The outcome of the edit mutex: no registry wired, the guard, or the holder at the timeout.\<close>

datatype acquired = Unwired | Guarded | BlockedBy "string option"

definition emit :: "agent_event \<Rightarrow> gate \<Rightarrow> gate" where
  "emit ev g = g\<lparr>g_replay := push_replay (g_replay g) ev, g_sent := g_sent g @ [ev]\<rparr>"

definition inject :: "gate_env \<Rightarrow> decision \<Rightarrow> gate \<Rightarrow> gate" where
  "inject env d g = (let bytes = ge_inject env d in if bytes \<noteq> [] then g\<lparr>g_stdin := g_stdin g @ [bytes]\<rparr> else g)"

definition insert_row :: "bool \<Rightarrow> string \<Rightarrow> approval_row \<Rightarrow> gate \<Rightarrow> gate" where
  "insert_row begins aid row g = (if begins then g\<lparr>g_rows := snd (approvals_insert aid row (g_rows g))\<rparr> else g)"

definition emit_edit_mutex_blocked :: "gate_env \<Rightarrow> string \<Rightarrow> string \<Rightarrow> string option \<Rightarrow> gate \<Rightarrow> gate" where
  "emit_edit_mutex_blocked env aid tool blocked g =
     emit (EvApprovalResolved (ge_session env) aid tool (show_blocked blocked)) (inject env AutoDeny g)"

definition approving :: "decision \<Rightarrow> bool" where
  "approving d \<longleftrightarrow> d = AutoApprove \<or> d = AutoApproveOnce"

definition dispatch_auto ::
  "gate_env \<Rightarrow> string \<Rightarrow> int \<Rightarrow> bool \<Rightarrow> acquired \<Rightarrow> string \<Rightarrow> json \<Rightarrow> decision \<Rightarrow> bool \<Rightarrow> bool \<Rightarrow> gate \<Rightarrow> gate" where
  "dispatch_auto env aid now begins acq tool payload decision denied_by_policy urgent g =
     (case (is_write_class tool \<and> approving decision, acq) of
        (True, BlockedBy blocked) \<Rightarrow> emit_edit_mutex_blocked env aid tool blocked g
      | _ \<Rightarrow>
          (let auto_string = (if denied_by_policy then DENIED_BY_POLICY
                              else auto_decision_string (pr_mode (ge_resolver env)));
               row = \<lparr>ta_session_id = ge_session env, ta_tool_name = tool, ta_payload_json = ge_print env payload,
                      ta_requested_at = now, ta_decision = Some auto_string, ta_decided_at = Some now,
                      ta_decided_by = None, ta_urgent = urgent\<rparr>
           in emit (EvApprovalResolved (ge_session env) aid tool auto_string)
                (inject env decision (insert_row begins aid row g))))"

definition dispatch_ask ::
  "gate_env \<Rightarrow> string \<Rightarrow> int \<Rightarrow> bool \<Rightarrow> string \<Rightarrow> string \<Rightarrow> json \<Rightarrow> string option \<Rightarrow> gate \<Rightarrow> gate" where
  "dispatch_ask env aid now begins tool summary payload label g =
     (let urgent = (label \<noteq> None);
          row = \<lparr>ta_session_id = ge_session env, ta_tool_name = tool, ta_payload_json = ge_print env payload,
                 ta_requested_at = now, ta_decision = None, ta_decided_at = None,
                 ta_decided_by = None, ta_urgent = urgent\<rparr>;
          g = insert_row begins aid row g;
          g = g\<lparr>g_pending := (aid, tool) # filter (\<lambda>(i, w). i \<noteq> aid) (g_pending g)\<rparr>
      in emit (EvAwaitingApproval (ge_session env) aid tool summary (ge_print env payload) urgent label) g)"

definition awaiting_approval ::
  "gate_env \<Rightarrow> string \<Rightarrow> int \<Rightarrow> bool \<Rightarrow> acquired \<Rightarrow> string \<Rightarrow> string \<Rightarrow> json \<Rightarrow> gate \<Rightarrow> gate" where
  "awaiting_approval env aid now begins acq tool summary payload g =
     (case gate_decision env tool payload of
        (MustAsk, denied, label) \<Rightarrow> dispatch_ask env aid now begins tool summary payload label g
      | (decision, denied, label) \<Rightarrow>
          dispatch_auto env aid now begins acq tool payload decision denied (label \<noteq> None) g)"

text \<open>\<open>PendingApprovals::remove\<close>.\<close>

definition take_pending :: "string \<Rightarrow> (string \<times> string) list \<Rightarrow> string option \<times> (string \<times> string) list" where
  "take_pending aid p = (map_of p aid, filter (\<lambda>(i, w). i \<noteq> aid) p)"

definition not_pending :: "string \<Rightarrow> error" where
  "not_pending aid = Validation (''tool_approval.already_resolved: approval '' @ aid @ '' not pending'')"

definition row_decided :: "string \<Rightarrow> error" where
  "row_decided aid = Validation (''tool_approval.already_resolved: row '' @ aid @ '' already had a decision'')"

definition resolve_approval :: "string \<Rightarrow> decision \<Rightarrow> string option \<Rightarrow> int \<Rightarrow> gate \<Rightarrow> unit result \<times> gate" where
  "resolve_approval aid decision device now g =
     (case take_pending aid (g_pending g) of
        (None, pending) \<Rightarrow> (Inl (not_pending aid), g\<lparr>g_pending := pending\<rparr>)
      | (Some tool, pending) \<Rightarrow>
          (let g = g\<lparr>g_pending := pending\<rparr>;
               (rows_affected, rows) = update_decision aid (user_decision_string decision) now device (g_rows g);
               g = g\<lparr>g_rows := rows\<rparr>
           in if rows_affected = 0 then (Inl (row_decided aid), g)
              else (Inr (), g\<lparr>g_woken := g_woken g @ [(aid, tool, decision)]\<rparr>)))"

text \<open>The handler looks the session up first; a gate belongs to a running session.\<close>

definition not_running :: "string \<Rightarrow> error" where
  "not_running sid = NotFound (''session '' @ sid @ '' not running'')"

definition resolve_session_approval ::
  "(string \<rightharpoonup> gate) \<Rightarrow> string \<Rightarrow> string \<Rightarrow> decision \<Rightarrow> string option \<Rightarrow> int \<Rightarrow> unit result \<times> (string \<rightharpoonup> gate)" where
  "resolve_session_approval sessions sid aid decision device now =
     (case sessions sid of
        None \<Rightarrow> (Inl (not_running sid), sessions)
      | Some g \<Rightarrow> (let (r, g') = resolve_approval aid decision device now g in (r, sessions(sid \<mapsto> g'))))"

text \<open>The waiter task, once its channel delivered the decision.\<close>

definition run_waiter :: "gate_env \<Rightarrow> acquired \<Rightarrow> string \<times> string \<times> decision \<Rightarrow> gate \<Rightarrow> gate" where
  "run_waiter env acq w g =
     (case w of (aid, tool, d) \<Rightarrow>
        (case (approving d \<and> is_write_class tool, acq) of
           (True, BlockedBy blocked) \<Rightarrow> emit_edit_mutex_blocked env aid tool blocked g
         | _ \<Rightarrow> emit (EvApprovalResolved (ge_session env) aid tool (user_decision_string d)) (inject env d g)))"

interpretation pending: claim_once take_pending "\<lambda>p k. k \<in> fst ` set p"
  by unfold_locales (force simp: take_pending_def image_iff map_of_eq_None_iff)+

section \<open>Lemmas\<close>

lemma emit_simps [simp]:
  "g_rows (emit ev g) = g_rows g" "g_pending (emit ev g) = g_pending g"
  "g_woken (emit ev g) = g_woken g" "g_stdin (emit ev g) = g_stdin g"
  "g_sent (emit ev g) = g_sent g @ [ev]" "g_replay (emit ev g) = push_replay (g_replay g) ev"
  by (simp_all add: emit_def)

lemma inject_simps [simp]:
  "g_rows (inject env d g) = g_rows g" "g_pending (inject env d g) = g_pending g"
  "g_woken (inject env d g) = g_woken g" "g_sent (inject env d g) = g_sent g"
  "g_replay (inject env d g) = g_replay g"
  "g_stdin (inject env d g) = g_stdin g @ (if ge_inject env d = [] then [] else [ge_inject env d])"
  by (simp_all add: inject_def Let_def)

lemma insert_row_simps [simp]:
  "g_pending (insert_row b i row g) = g_pending g" "g_woken (insert_row b i row g) = g_woken g"
  "g_sent (insert_row b i row g) = g_sent g" "g_replay (insert_row b i row g) = g_replay g"
  "g_stdin (insert_row b i row g) = g_stdin g"
  by (simp_all add: insert_row_def)

lemma gate_decision_denied:
  "policy_verdict_of env tool payload = DeniedPolicy \<Longrightarrow> gate_decision env tool payload = (AutoDeny, True, None)"
  by (simp add: gate_decision_def)

lemma gate_decision_not_denied:
  "policy_verdict_of env tool payload \<noteq> DeniedPolicy \<Longrightarrow>
     gate_decision env tool payload =
       (case ge_destructive env tool payload of
          Some l \<Rightarrow> (if pr_bypass (ge_resolver env) then AutoApprove else MustAsk, False, Some l)
        | None \<Rightarrow> (decide (ge_resolver env) tool, False, None))"
  by (simp add: gate_decision_def split: option.split)

lemma take_pending_None: "fst (take_pending i p) = None \<Longrightarrow> snd (take_pending i p) = p"
  by (auto simp: take_pending_def map_of_eq_None_iff image_iff intro!: filter_True)

lemma resolve_approval_gone:
  assumes "i \<notin> fst ` set (g_pending g)"
  shows "resolve_approval i d dev now g = (Inl (not_pending i), g)"
proof -
  have "fst (take_pending i (g_pending g)) = None" using assms pending.claim_Some by blast
  with take_pending_None [OF this] show ?thesis
    by (cases "take_pending i (g_pending g)") (simp add: resolve_approval_def)
qed

lemma resolve_approval_pending:
  "g_pending (snd (resolve_approval i d dev now g)) = snd (take_pending i (g_pending g))"
  by (auto simp: resolve_approval_def Let_def split: prod.splits option.splits)

section \<open>Properties\<close>


definition sample_env :: gate_env where
  "sample_env =
     \<lparr>ge_session = ''s'', ge_resolver = \<lparr>pr_mode = Strict, pr_bypass = True\<rparr>, ge_fs = plain_fs,
      ge_policy = Inr ([''/work''], [''/h/.ssh'']),
      ge_destructive = \<lambda>tool args. if tool = ''Bash'' then Some ''sudo'' else None,
      ge_inject = \<lambda>d. if approving d then ''y'' else ''n'', ge_print = \<lambda>_. ''{}''\<rparr>"


text \<open>the deny floor overrides every mode and leaves a trace in the events only. A call under a
  deny root gets the deny bytes and an event \<open>denied_by_policy\<close>, in any mode and with the bypass on;
  the audit row it tries to insert violates the CHECK of the column, the error is discarded, and
  the table of approvals stays as it was.\<close>

theorem denied_by_policy_unrecorded:
  assumes "policy_verdict_of env tool payload = DeniedPolicy"
  shows "let g' = awaiting_approval env i now begins acq tool summary payload g in
     g_rows g' = g_rows g \<and> g_pending g' = g_pending g
     \<and> g_sent g' = g_sent g @ [EvApprovalResolved (ge_session env) i tool ''denied_by_policy'']
     \<and> g_stdin g' = g_stdin g @ (if ge_inject env AutoDeny = [] then [] else [ge_inject env AutoDeny])"
proof -
  have d: "gate_decision env tool payload = (AutoDeny, True, None)" using assms by (rule gate_decision_denied)
  have row: "snd (approvals_insert i r t) = t" if "ta_decision r = Some ''denied_by_policy''" for r t
    using that by (simp add: approvals_insert_def check_decision_def DECISION_CHECK_def)
  show ?thesis
    by (simp add: awaiting_approval_def d dispatch_auto_def approving_def DENIED_BY_POLICY_def Let_def
        insert_row_def row)
qed

definition empty_gate :: gate where
  "empty_gate = \<lparr>g_rows = [], g_pending = [], g_woken = [], g_replay = [], g_sent = [], g_stdin = []\<rparr>"

theorem denied_by_policy_unrecorded_witness:
  "g_rows (awaiting_approval sample_env ''a'' 0 True Unwired ''Write'' ''w''
      (JObject [(''file_path'', JString ''/h/.ssh/id'')]) empty_gate) = []"
proof -
  have "policy_verdict_of sample_env ''Write'' (JObject [(''file_path'', JString ''/h/.ssh/id'')]) = DeniedPolicy"
    by (simp add: policy_verdict_of_def sample_env_def policy_override_def extract_path_def extract_path_field_def
        classify_policy_for_path_def classify_def plain_fs_def canonicalize_or_clean_def is_absolute_def
        starts_with_str_def starts_with_path_def components_def)
  from denied_by_policy_unrecorded [OF this, of "''a''" 0 True Unwired "''w''" empty_gate]
  show ?thesis by (simp add: Let_def empty_gate_def)
qed

text \<open>C19: an approval is resolved at most once. After a resolution that took the pending entry,
  successful or not, and any number of resolutions of other calls, resolving the same call again
  is refused as not pending and changes nothing: the first decision stays in the row.\<close>

theorem approval_resolved_once:
  "let g1 = snd (resolve_approval i d dev now g);
       g2 = fold (\<lambda>(j, dj, devj, nowj) h. snd (resolve_approval j dj devj nowj h)) others g1
   in resolve_approval i d' dev' now' g2 = (Inl (not_pending i), g2)"
proof -
  let ?f = "\<lambda>(j, dj, devj, nowj) h. snd (resolve_approval j dj devj nowj h)"
  have p: "g_pending (fold ?f os h) = fold (\<lambda>j p. snd (take_pending j p)) (map fst os) (g_pending h)" for os h
    by (induction os arbitrary: h) (auto simp: resolve_approval_pending)
  let ?g1 = "snd (resolve_approval i d dev now g)"
  have "i \<notin> fst ` set (g_pending ?g1)"
    unfolding resolve_approval_pending by (rule pending.claim_gone)
  then have "fst (take_pending i (g_pending (fold ?f others ?g1))) = None"
    unfolding p by (rule pending.claims_stay_gone)
  then have "i \<notin> fst ` set (g_pending (fold ?f others ?g1))" using pending.claim_Some by blast
  then show ?thesis by (simp add: Let_def resolve_approval_gone)
qed

text \<open>C18: a resolution records the user's decision. When the handler returns success, the session was
  running and the call pending, its row had no decision, and afterwards the row carries exactly the
  decision's string, the time and the device, every other row is untouched, and the waiter of the
  call is handed the same decision.\<close>

theorem resolution_recorded:
  assumes "resolve_session_approval sessions sid i d dev now = (Inr (), sessions')"
  shows "\<exists>g g' r tool. sessions sid = Some g \<and> sessions' = sessions(sid \<mapsto> g')
    \<and> map_of (g_rows g) i = Some r \<and> ta_decision r = None \<and> map_of (g_pending g) i = Some tool
    \<and> map_of (g_rows g') i
        = Some (r\<lparr>ta_decision := Some (user_decision_string d), ta_decided_at := Some now, ta_decided_by := dev\<rparr>)
    \<and> (\<forall>j. j \<noteq> i \<longrightarrow> map_of (g_rows g') j = map_of (g_rows g) j)
    \<and> g_woken g' = g_woken g @ [(i, tool, d)]"
  using assms
  by (auto simp: resolve_session_approval_def resolve_approval_def Let_def update_decision_def take_pending_def
      map_of_sql_update split: prod.splits option.splits if_splits)

definition asked_gate :: gate where
  "asked_gate = dispatch_ask sample_env ''a'' 5 True ''Write'' ''w'' JNull None empty_gate"

theorem resolution_recorded_witness:
  "\<exists>g'. snd (resolve_session_approval [''s'' \<mapsto> asked_gate] ''s'' ''a'' AutoApprove None 7) ''s'' = Some g'
     \<and> map_of (g_rows g') ''a''
     = Some \<lparr>ta_session_id = ''s'', ta_tool_name = ''Write'', ta_payload_json = ''{}'', ta_requested_at = 5,
             ta_decision = Some ''approve'', ta_decided_at = Some 7, ta_decided_by = None, ta_urgent = False\<rparr>"
proof -
  let ?r = "resolve_session_approval [''s'' \<mapsto> asked_gate] ''s'' ''a'' AutoApprove None 7"
  have g: "g_rows asked_gate = [(''a'', \<lparr>ta_session_id = ''s'', ta_tool_name = ''Write'', ta_payload_json = ''{}'',
      ta_requested_at = 5, ta_decision = None, ta_decided_at = None, ta_decided_by = None, ta_urgent = False\<rparr>)]"
    "g_pending asked_gate = [(''a'', ''Write'')]"
    by (simp_all add: asked_gate_def dispatch_ask_def insert_row_def approvals_insert_def check_decision_def
        sample_env_def empty_gate_def Let_def)
  have "fst ?r = Inr ()"
    by (simp add: resolve_session_approval_def resolve_approval_def take_pending_def g update_decision_def Let_def)
  then have "?r = (Inr (), snd ?r)" by (metis prod.collapse)
  from resolution_recorded [OF this] show ?thesis by (auto simp: g)
qed

text \<open>a write reaches the agent only under the workarea's edit lock. For a write-class tool whose
  call was blocked on the mutex, both the immediate path and the waiter of a user's approval send
  the agent the deny bytes and never the approval, and publish the blocking session as the outcome.
  Neither touches the rows: an immediate call leaves no row, and the row of a call the user approved
  keeps saying so.\<close>

theorem blocked_write_is_denied:
  assumes "is_write_class tool" and "approving d"
  shows "(let g' = dispatch_auto env i now begins (BlockedBy h) tool payload d denied urgent g in
       g_stdin g' = g_stdin g @ (if ge_inject env AutoDeny = [] then [] else [ge_inject env AutoDeny])
       \<and> g_sent g' = g_sent g @ [EvApprovalResolved (ge_session env) i tool (show_blocked h)]
       \<and> g_rows g' = g_rows g)
    \<and> (let g' = run_waiter env (BlockedBy h) (i, tool, d) g in
       g_stdin g' = g_stdin g @ (if ge_inject env AutoDeny = [] then [] else [ge_inject env AutoDeny])
       \<and> g_sent g' = g_sent g @ [EvApprovalResolved (ge_session env) i tool (show_blocked h)]
       \<and> g_rows g' = g_rows g)"
  using assms by (simp add: dispatch_auto_def run_waiter_def emit_edit_mutex_blocked_def Let_def)

theorem blocked_write_is_denied_witness:
  "g_stdin (run_waiter sample_env (BlockedBy (Some ''t'')) (''a'', ''Write'', AutoApprove) empty_gate) = [''n'']"
  using blocked_write_is_denied [of "''Write''" AutoApprove sample_env "''a''" 0 True "Some ''t''" JNull False False empty_gate]
  by (simp add: is_write_class_def approving_def Let_def sample_env_def empty_gate_def)

text \<open>what a late subscriber replays. After any sequence of events, the replay buffer of a session
  that started empty holds exactly the newest 64 of them, in order.\<close>

theorem replay_is_newest_events:
  "fold (\<lambda>ev v. push_replay v ev) evs [] = take_last 64 evs"
  using replay.pushes_contents [of "[]" evs] by (simp add: MAX_REPLAY_EVENTS_def)

end
