(* ===== verification/Destructive.thy ===== *)
theory Destructive
  imports Approval
begin

text \<open>
  The destructive-command intercept (\<open>security/destructive.rs\<close>): the table of patterns and the
  function that runs them over the printed arguments of a tool call. The regular expressions are
  written as syntax trees; the engine of the \<open>regex\<close> crate is an argument \<open>is_match\<close>, with what
  its documentation says of a pattern and an ASCII text as the contract \<open>regex_engine\<close>. The
  printer of JSON values is an argument as well.
\<close>

section \<open>Patterns\<close>

datatype regex =
    Eps
  | Cls "char \<Rightarrow> bool"
  | Many "char \<Rightarrow> bool"
  | Bound
  | Seq regex regex
  | Alt regex regex

definition cat :: "regex list \<Rightarrow> regex" where
  "cat rs = foldr Seq rs Eps"

fun alts :: "regex list \<Rightarrow> regex" where
  "alts [] = Cls (\<lambda>_. False)"
| "alts [r] = r"
| "alts (r # rs) = Alt r (alts rs)"

definition ci :: "string \<Rightarrow> regex" where
  "ci w = cat (map (\<lambda>c. Cls (\<lambda>x. ascii_lower x = c)) w)"

definition cs :: "string \<Rightarrow> regex" where
  "cs w = cat (map (\<lambda>c. Cls (\<lambda>x. x = c)) w)"

definition plus :: "(char \<Rightarrow> bool) \<Rightarrow> regex" where
  "plus P = Seq (Cls P) (Many P)"

definition opt :: "regex \<Rightarrow> regex" where
  "opt r = Alt r Eps"

definition is_letter :: "char \<Rightarrow> bool" where
  "is_letter c = (let n = of_char (ascii_lower c) :: nat in 97 \<le> n \<and> n \<le> 122)"

definition is_word :: "char \<Rightarrow> bool" where
  "is_word c \<longleftrightarrow> is_letter c \<or> is_digit c \<or> c = CHR ''_''"

definition PATTERNS :: "(regex \<times> string) list" where
  "PATTERNS =
     [(cat [Bound, ci ''rm'', plus is_space,
            alts [cat [ci ''-'', Many is_letter, ci ''r'', Many is_letter, ci ''f''],
                  cat [ci ''-'', Many is_letter, ci ''f'', Many is_letter, ci ''r''],
                  cat [ci ''--recursive'', plus is_space, ci ''--force''],
                  cat [ci ''--force'', plus is_space, ci ''--recursive''],
                  cat [ci ''-r'', plus is_space, ci ''-f''],
                  cat [ci ''-f'', plus is_space, ci ''-r'']]], ''recursive-delete''),
      (cat [Bound, ci ''git'', plus is_space, ci ''push'', Bound, Many (\<lambda>c. c \<noteq> CHR 0x0A),
            alts [cat [ci ''--force'', opt (ci ''-with-lease'')],
                  cat [Cls is_space, ci ''-f'', Bound]]], ''force-push''),
      (cat [Bound, ci ''git'', plus is_space, ci ''reset'', Bound, Many (\<lambda>c. c \<noteq> CHR 0x0A),
            ci ''--hard'', Bound], ''git-reset-hard''),
      (cat [Bound, cs ''git'', plus is_space,
            alts [cat [cs ''branch'', plus is_space, cs ''-D'', Bound],
                  cat [cs ''tag'', plus is_space, cs ''-d'', Bound]]], ''git-branch-delete''),
      (cat [Bound, alts [ci ''drop'', ci ''truncate''], plus is_space, ci ''table'', Bound], ''sql-drop''),
      (cat [Bound, ci ''kubectl'', plus is_space, ci ''delete'', Bound], ''kubectl-delete''),
      (cat [Bound, ci ''docker'', plus is_space,
            alts [cat [ci ''rm'', Bound],
                  cat [ci ''volume'', plus is_space, ci ''rm'', Bound],
                  cat [ci ''system'', plus is_space, ci ''prune'', Bound]]], ''docker-rm''),
      (alts [cat [Bound, ci ''mkfs'', opt (cat [ci ''.'', plus (\<lambda>c. is_letter c \<or> is_digit c)]), Bound],
             cat [Bound, ci ''dd'', Bound, Many (\<lambda>c. c \<noteq> CHR 0x0A), Bound, ci ''of=/dev/''],
             cat [Bound, ci ''parted'', Bound],
             cat [Bound, ci ''wipefs'', Bound]], ''disk-wipe''),
      (cat [Bound, ci ''sudo'', Bound], ''sudo'')]"

text \<open>The loop over the table: the label of the first pattern that matches the printed arguments.\<close>

fun first_match :: "(regex \<Rightarrow> string \<Rightarrow> bool) \<Rightarrow> string \<Rightarrow> (regex \<times> string) list \<Rightarrow> string option" where
  "first_match is_match haystack [] = None"
| "first_match is_match haystack ((re, label) # ps) =
     (if is_match re haystack then Some label else first_match is_match haystack ps)"

definition is_destructive ::
  "(regex \<Rightarrow> string \<Rightarrow> bool) \<Rightarrow> (json \<Rightarrow> string option) \<Rightarrow> string \<Rightarrow> json \<Rightarrow> string option" where
  "is_destructive is_match to_string tool_name args =
     (case to_string args of
        None \<Rightarrow> None
      | Some haystack \<Rightarrow> first_match is_match haystack PATTERNS)"

section \<open>What a pattern means\<close>

text \<open>
  \<open>matches r p w rest\<close>: the pattern matches \<open>w\<close> where the character before it is \<open>p\<close> and the text
  goes on with \<open>rest\<close>. A boundary lies between a word character and a position without one.
\<close>

definition last_of :: "char option \<Rightarrow> string \<Rightarrow> char option" where
  "last_of p w = (if w = [] then p else Some (last w))"

definition boundary :: "char option \<Rightarrow> string \<Rightarrow> bool" where
  "boundary p s \<longleftrightarrow> (case p of Some c \<Rightarrow> is_word c | None \<Rightarrow> False) \<noteq> (s \<noteq> [] \<and> is_word (hd s))"

primrec matches :: "regex \<Rightarrow> char option \<Rightarrow> string \<Rightarrow> string \<Rightarrow> bool" where
  "matches Eps p w rest \<longleftrightarrow> w = []"
| "matches (Cls P) p w rest \<longleftrightarrow> (\<exists>c. w = [c] \<and> P c)"
| "matches (Many P) p w rest \<longleftrightarrow> list_all P w"
| "matches Bound p w rest \<longleftrightarrow> w = [] \<and> boundary p rest"
| "matches (Seq r s) p w rest \<longleftrightarrow>
     (\<exists>u v. w = u @ v \<and> matches r p u (v @ rest) \<and> matches s (last_of p u) v rest)"
| "matches (Alt r s) p w rest \<longleftrightarrow> matches r p w rest \<or> matches s p w rest"

definition occurs :: "regex \<Rightarrow> string \<Rightarrow> bool" where
  "occurs r s \<longleftrightarrow> (\<exists>b w a. s = b @ w @ a \<and> matches r (last_of None b) w a)"

definition ascii :: "string \<Rightarrow> bool" where
  "ascii s \<longleftrightarrow> list_all (\<lambda>c. of_char c < (128 :: nat)) s"

locale regex_engine =
  fixes is_match :: "regex \<Rightarrow> string \<Rightarrow> bool"
  assumes documented: "ascii s \<Longrightarrow> is_match r s \<longleftrightarrow> occurs r s"
begin

lemma first_match_occurs:
  "ascii s \<Longrightarrow> first_match is_match s ps = first_match occurs s ps"
  by (induction ps) (auto simp: documented)

end

section \<open>An executable reading\<close>

primrec ends_many :: "(char \<Rightarrow> bool) \<Rightarrow> string \<Rightarrow> char option \<Rightarrow> (char option \<times> string) list" where
  "ends_many P [] p = [(p, [])]"
| "ends_many P (c # s) p = (p, c # s) # (if P c then ends_many P s (Some c) else [])"

primrec ends :: "regex \<Rightarrow> char option \<Rightarrow> string \<Rightarrow> (char option \<times> string) list" where
  "ends Eps p s = [(p, s)]"
| "ends (Cls P) p s = (case s of [] \<Rightarrow> [] | c # t \<Rightarrow> if P c then [(Some c, t)] else [])"
| "ends (Many P) p s = ends_many P s p"
| "ends Bound p s = (if boundary p s then [(p, s)] else [])"
| "ends (Seq r1 r2) p s = concat (map (\<lambda>(q, t). ends r2 q t) (ends r1 p s))"
| "ends (Alt r1 r2) p s = ends r1 p s @ ends r2 p s"

primrec search_from :: "regex \<Rightarrow> string \<Rightarrow> char option \<Rightarrow> bool" where
  "search_from r [] p = (ends r p [] \<noteq> [])"
| "search_from r (c # s) p = (ends r p (c # s) \<noteq> [] \<or> search_from r s (Some c))"

definition search :: "regex \<Rightarrow> string \<Rightarrow> bool" where
  "search r s = search_from r s None"

lemma last_of_simps [simp]: "last_of p [] = p" "last_of p (c # w) = last_of (Some c) w"
  by (auto simp: last_of_def)

lemma last_of_append [simp]: "last_of p (u @ v) = last_of (last_of p u) v"
  by (simp add: last_of_def)

lemma ends_many_iff: "(q, t) \<in> set (ends_many P s p) \<longleftrightarrow> (\<exists>w. s = w @ t \<and> q = last_of p w \<and> list_all P w)"
proof (induction s arbitrary: p)
  case (Cons c s)
  show ?case
    by (auto simp: Cons.IH Cons_eq_append_conv)
qed auto

lemma ends_iff: "(q, t) \<in> set (ends r p s) \<longleftrightarrow> (\<exists>w. s = w @ t \<and> q = last_of p w \<and> matches r p w t)"
proof (induction r arbitrary: p q s t)
  case (Cls P)
  then show ?case by (auto split: list.splits)
next
  case (Many P)
  then show ?case by (simp add: ends_many_iff)
next
  case (Seq r1 r2)
  have "(q, t) \<in> set (ends (Seq r1 r2) p s) \<longleftrightarrow>
      (\<exists>q' t'. (q', t') \<in> set (ends r1 p s) \<and> (q, t) \<in> set (ends r2 q' t'))"
    by auto
  also have "\<dots> \<longleftrightarrow> (\<exists>u v. s = u @ v @ t \<and> q = last_of p (u @ v) \<and> matches r1 p u (v @ t) \<and> matches r2 (last_of p u) v t)"
    unfolding Seq.IH by auto
  also have "\<dots> \<longleftrightarrow> (\<exists>w. s = w @ t \<and> q = last_of p w \<and> matches (Seq r1 r2) p w t)"
    unfolding matches.simps by (metis append_assoc)
  finally show ?case .
next
  case (Alt r1 r2)
  then show ?case by auto
qed auto

lemma search_from_iff:
  "search_from r s p \<longleftrightarrow> (\<exists>b w a. s = b @ w @ a \<and> matches r (last_of p b) w a)"
proof (induction s arbitrary: p)
  case Nil
  have "ends r p [] \<noteq> [] \<longleftrightarrow> (\<exists>q t. (q, t) \<in> set (ends r p []))" by (cases "ends r p []") auto
  then show ?case by (simp add: ends_iff)
next
  case (Cons c s)
  have "ends r p (c # s) \<noteq> [] \<longleftrightarrow> (\<exists>q t. (q, t) \<in> set (ends r p (c # s)))" by (cases "ends r p (c # s)") auto
  also have "\<dots> \<longleftrightarrow> (\<exists>w a. c # s = w @ a \<and> matches r p w a)" by (auto simp: ends_iff)
  finally have h: "ends r p (c # s) \<noteq> [] \<longleftrightarrow> (\<exists>w a. c # s = w @ a \<and> matches r p w a)" .
  have "(\<exists>b w a. c # s = b @ w @ a \<and> matches r (last_of p b) w a) \<longleftrightarrow>
      (\<exists>w a. c # s = w @ a \<and> matches r p w a) \<or> (\<exists>b w a. s = b @ w @ a \<and> matches r (last_of (Some c) b) w a)"
    (is "?l \<longleftrightarrow> ?a \<or> ?b")
  proof
    assume ?l
    then obtain b w a where e: "c # s = b @ w @ a" "matches r (last_of p b) w a" by blast
    then show "?a \<or> ?b" by (cases b) auto
  next
    assume "?a \<or> ?b"
    then show ?l
    proof
      assume ?a
      then show ?l by (metis append_Nil last_of_simps(1))
    next
      assume ?b
      then obtain b w a where "s = b @ w @ a" "matches r (last_of (Some c) b) w a" by blast
      then have "c # s = (c # b) @ w @ a \<and> matches r (last_of p (c # b)) w a" by simp
      then show ?l by blast
    qed
  qed
  with h show ?case by (simp add: Cons.IH)
qed

interpretation search: regex_engine search
  by unfold_locales (simp add: search_def search_from_iff occurs_def)

section \<open>Lemmas\<close>

lemma matches_cat_Nil [simp]: "matches (cat []) p w rest \<longleftrightarrow> w = []"
  by (simp add: cat_def)

lemma matches_cat_Cons:
  "matches r p u (v @ rest) \<Longrightarrow> matches (cat rs) (last_of p u) v rest \<Longrightarrow> matches (cat (r # rs)) p (u @ v) rest"
  by (auto simp: cat_def)

lemma matches_ci: "map ascii_lower w = k \<Longrightarrow> matches (ci k) p w rest"
proof (induction k arbitrary: w p)
  case Nil
  then show ?case by (simp add: ci_def)
next
  case (Cons c k)
  then obtain x v where w: "w = x # v" "ascii_lower x = c" "map ascii_lower v = k" by auto
  have "matches (cat (Cls (\<lambda>x. ascii_lower x = c) # map (\<lambda>c. Cls (\<lambda>x. ascii_lower x = c)) k)) p ([x] @ v) rest"
    using Cons.IH [OF w(3)] w(2) by (intro matches_cat_Cons) (auto simp: ci_def)
  then show ?case by (simp add: ci_def w(1))
qed

lemma matches_plus: "list_all P w \<Longrightarrow> w \<noteq> [] \<Longrightarrow> matches (plus P) p w rest"
proof (cases w)
  case (Cons c t)
  then show "list_all P w \<Longrightarrow> ?thesis"
    by (simp add: plus_def) (intro exI [of _ "[c]"] exI [of _ t], simp)
qed simp

lemma first_match_Some:
  assumes "(r, l) \<in> set ps" and "m r s"
  shows "\<exists>l'. first_match m s ps = Some l'"
  using assms by (induction ps) auto

lemma gate_on_match:
  assumes "ge_destructive env tool payload = Some l" and "\<not> pr_bypass (ge_resolver env)"
  shows "gate_decision env tool payload \<in> {(MustAsk, False, Some l), (AutoDeny, True, None)}"
  using assms gate_decision_denied [of env tool payload] gate_decision_not_denied [of env tool payload] by auto

section \<open>Properties\<close>


lemma rm_matches:
  assumes "map ascii_lower rm = ''rm''" and "list_all is_space sp" and "sp \<noteq> []"
    and "list_all is_letter a" and "list_all is_letter b" and "map ascii_lower r = ''r''" and "map ascii_lower f = ''f''"
    and "pre = [] \<or> \<not> is_word (last pre)"
  shows "occurs (fst (hd PATTERNS)) (pre @ (rm @ sp @ ''-'' @ a @ r @ b @ f) @ post)"
proof -
  have r0: "rm \<noteq> []" "is_word (hd rm)" using assms(1)
    by (cases rm; auto simp: is_word_def is_letter_def)+
  have bd: "boundary (last_of None pre) (rm @ x)" for x
    using assms(8) r0 by (auto simp: boundary_def last_of_def)
  have fl: "matches (cat [ci ''-'', Many is_letter, ci ''r'', Many is_letter, ci ''f'']) p (''-'' @ a @ r @ b @ f) post" for p
  proof -
    have "matches (cat [ci ''-'', Many is_letter, ci ''r'', Many is_letter, ci ''f'']) p (''-'' @ a @ r @ b @ f @ []) post"
      using assms(4-7) by (intro matches_cat_Cons matches_ci) (auto simp: ascii_lower_def)
    then show ?thesis by simp
  qed
  have "matches (fst (hd PATTERNS)) (last_of None pre) ([] @ rm @ sp @ (''-'' @ a @ r @ b @ f) @ []) post"
    unfolding PATTERNS_def list.sel fst_conv
    using assms(1-3) bd fl by (intro matches_cat_Cons matches_ci matches_plus) auto
  then show ?thesis unfolding occurs_def by (intro exI [of _ pre] exI [of _ "rm @ sp @ ''-'' @ a @ r @ b @ f"] exI [of _ post]) simp
qed



text \<open>recursive deletion in any dress. A printed call that holds \<open>rm\<close> in any case, after a
  non-word character or at the start, followed by white space and a flag word with an \<open>r\<close> before an
  \<open>f\<close> among any letters, is reported as \<open>recursive-delete\<close>, and so asked for unless the bypass is on.\<close>

theorem recursive_delete_caught:
  assumes "regex_engine is_match"
    and "to_string payload = Some (pre @ (rm @ sp @ ''-'' @ a @ r @ b @ f) @ post)"
    and "ascii (pre @ (rm @ sp @ ''-'' @ a @ r @ b @ f) @ post)"
    and "map ascii_lower rm = ''rm''" and "list_all is_space sp" and "sp \<noteq> []"
    and "list_all is_letter a" and "list_all is_letter b"
    and "map ascii_lower r = ''r''" and "map ascii_lower f = ''f''"
    and "pre = [] \<or> \<not> is_word (last pre)"
  shows "is_destructive is_match to_string tool payload = Some ''recursive-delete''"
proof -
  obtain re ps where p: "PATTERNS = (re, ''recursive-delete'') # ps" by (simp add: PATTERNS_def)
  have "is_match (fst (hd PATTERNS)) (pre @ (rm @ sp @ ''-'' @ a @ r @ b @ f) @ post)"
    using regex_engine.documented [OF assms(1,3)] rm_matches [OF assms(4-6,7,8,9,10,11)] by blast
  then have m: "is_match re (pre @ (rm @ sp @ ''-'' @ a @ r @ b @ f) @ post)" unfolding p list.sel fst_conv .
  show ?thesis
    unfolding is_destructive_def assms(2) p option.case first_match.simps using m by (rule if_P)
qed

theorem recursive_delete_caught_witness:
  "is_destructive search (\<lambda>_. Some (''a;'' @ (''RM'' @ '' '' @ ''-'' @ ''v'' @ ''r'' @ [] @ ''F'') @ '' x'')) ''Bash'' JNull
     = Some ''recursive-delete''"
  by (rule recursive_delete_caught [where pre = "''a;''" and rm = "''RM''" and sp = "'' ''" and a = "''v''"
        and r = "''r''" and b = "[]" and f = "''F''" and post = "'' x''"])
    (simp_all add: search.regex_engine_axioms ascii_def ascii_lower_def is_space_def is_letter_def is_word_def
      is_digit_def char_of_def bit_Suc_0_iff)

text \<open>a line break hides a command. The printer writes a line break inside a string as a backslash
  and an \<open>n\<close>; the letter before the command then leaves no word boundary, so a recursive deletion on
  the second line of a shell command matches no pattern, and the gate of a session in auto mode
  approves it; the same command after a semicolon and a space is caught.\<close>

definition quoted :: "string \<Rightarrow> string" where
  "quoted sep = [CHR ''{'', CHR 0x22] @ ''command'' @ [CHR 0x22, CHR '':'', CHR 0x22] @ ''cd x'' @ sep
     @ ''rm -rf y'' @ [CHR 0x22, CHR ''}'']"

lemmas search_eval = quoted_def PATTERNS_def cat_def ci_def cs_def plus_def opt_def search_def boundary_def
  is_word_def is_letter_def is_digit_def is_space_def ascii_lower_def

lemma quoted_newline: "first_match search (quoted [CHR 0x5C, CHR ''n'']) PATTERNS = None"
  by (simp add: search_eval)

lemma quoted_semicolon: "first_match search (quoted ''; '') PATTERNS = Some ''recursive-delete''"
  by (simp add: search_eval)

theorem line_break_hides_command:
  assumes "regex_engine is_match" and "ge_destructive env = is_destructive is_match to_string"
    and "policy_verdict_of env ''Bash'' payload \<noteq> DeniedPolicy" and "pr_mode (ge_resolver env) = Auto"
  shows "(to_string payload = Some (quoted [CHR 0x5C, CHR ''n'']) \<longrightarrow>
        gate_decision env ''Bash'' payload = (AutoApprove, False, None))
    \<and> (to_string payload = Some (quoted ''; '') \<longrightarrow> \<not> pr_bypass (ge_resolver env) \<longrightarrow>
        gate_decision env ''Bash'' payload = (MustAsk, False, Some ''recursive-delete''))"
proof -
  have e: "first_match is_match (quoted sep) PATTERNS = first_match search (quoted sep) PATTERNS" if "ascii (quoted sep)" for sep
    using regex_engine.first_match_occurs [OF assms(1) that] search.first_match_occurs [OF that] by simp
  have a: "ascii (quoted [CHR 0x5C, CHR ''n''])" "ascii (quoted ''; '')" by (simp_all add: ascii_def quoted_def)
  have d: "decide (ge_resolver env) ''Bash'' = AutoApprove"
    by (simp add: decide_def assms(4) classify_tool_def TOOL_CLASSES_def)
  show ?thesis
    using gate_decision_not_denied [OF assms(3)] d e [OF a(1)] e [OF a(2)]
    by (simp add: assms(2) is_destructive_def quoted_newline quoted_semicolon)
qed

definition engine_env :: "string \<Rightarrow> gate_env" where
  "engine_env hay = sample_env\<lparr>ge_resolver := new_resolver Auto False,
     ge_destructive := is_destructive search (\<lambda>_. Some hay)\<rparr>"

theorem line_break_hides_command_witness:
  "gate_decision (engine_env (quoted [CHR 0x5C, CHR ''n''])) ''Bash'' JNull = (AutoApprove, False, None)"
proof -
  have "policy_verdict_of (engine_env (quoted [CHR 0x5C, CHR ''n''])) ''Bash'' JNull \<noteq> DeniedPolicy"
    by (simp add: engine_env_def policy_verdict_of_def sample_env_def policy_override_def extract_path_def
        extract_path_from_command_def)
  then show ?thesis
    using line_break_hides_command [OF search.regex_engine_axioms, of "engine_env (quoted [CHR 0x5C, CHR ''n''])"
        "\<lambda>_. Some (quoted [CHR 0x5C, CHR ''n''])" JNull]
    by (simp add: engine_env_def new_resolver_def)
qed

end
