(* ===== verification/Suggestions.thy ===== *)
theory Suggestions
  imports Destructive Status "HOL-Library.Multiset"
begin

text \<open>
  The suggestion engine (\<open>suggestions/*.rs\<close>, \<open>handlers/suggestions.rs\<close>): what it remembers of a
  workarea, the six rules, the minute in which a rule is silent after it spoke, the chips a client can
  list, and the task per session that feeds events to the rules. The tasks of the sessions interleave:
  a task notes an event, judges it, passes the minute's filter and publishes, each under its own lock.
  Instants are nanoseconds. The engine of the \<open>regex\<close> crate is the argument \<open>is_match\<close>, the answer of
  \<open>git status\<close> an argument of the step that asks for it.
\<close>

section \<open>What is remembered of a workarea\<close>

record workarea_notes =
  wn_last_context_pct :: "nat option"
  wn_last_turn_complete_ms :: "int option"
  wn_awaiting_approval_count :: nat
  wn_crashed :: bool
  wn_last_message_content :: string

definition no_notes :: workarea_notes where
  "no_notes = \<lparr>wn_last_context_pct = None, wn_last_turn_complete_ms = None, wn_awaiting_approval_count = 0,
     wn_crashed = False, wn_last_message_content = []\<rparr>"

definition MAX_MESSAGE_BUFFER :: nat where "MAX_MESSAGE_BUFFER = 4 * 1024"

text \<open>A byte that continues a UTF-8 sequence; a boundary is the end or a byte that does not.\<close>

definition continuation :: "char \<Rightarrow> bool" where
  "continuation c \<longleftrightarrow> (let n = of_char c :: nat in 128 \<le> n \<and> n < 192)"

definition is_char_boundary :: "string \<Rightarrow> nat \<Rightarrow> bool" where
  "is_char_boundary s i \<longleftrightarrow> i = 0 \<or> i = length s \<or> (i < length s \<and> \<not> continuation (s ! i))"

function next_boundary :: "string \<Rightarrow> nat \<Rightarrow> nat" where
  "next_boundary s i = (if i < length s \<and> \<not> is_char_boundary s i then next_boundary s (i + 1) else i)"
  by pat_completeness auto
termination by (relation "measure (\<lambda>(s, i). length s - i)") auto

declare next_boundary.simps [simp del]

definition trim_message_buffer :: "string \<Rightarrow> string" where
  "trim_message_buffer s =
     (if MAX_MESSAGE_BUFFER < length s
      then drop (next_boundary s (length s - MAX_MESSAGE_BUFFER)) s else s)"

text \<open>The count is a \<open>u32\<close> and saturates.\<close>

fun note_event :: "int \<Rightarrow> agent_event \<Rightarrow> workarea_notes \<Rightarrow> workarea_notes" where
  "note_event now_ms (EvContextUsage sid pct) s = s\<lparr>wn_last_context_pct := Some pct\<rparr>"
| "note_event now_ms (EvTurnComplete sid) s = s\<lparr>wn_last_turn_complete_ms := Some now_ms\<rparr>"
| "note_event now_ms (EvAwaitingApproval _ _ _ _ _ _ _) s =
     s\<lparr>wn_awaiting_approval_count := min (wn_awaiting_approval_count s + 1) (2 ^ 32 - 1)\<rparr>"
| "note_event now_ms (EvApprovalResolved _ _ _ _) s =
     s\<lparr>wn_awaiting_approval_count := wn_awaiting_approval_count s - 1\<rparr>"
| "note_event now_ms (EvCrashed sid) s = s\<lparr>wn_crashed := True\<rparr>"
| "note_event now_ms (EvStarted sid) s = s\<lparr>wn_crashed := False\<rparr>"
| "note_event now_ms (EvMessage sid role content) s =
     s\<lparr>wn_last_message_content := trim_message_buffer (wn_last_message_content s @ content)\<rparr>"
| "note_event now_ms _ s = s"

section \<open>Chips and rules\<close>

datatype chip_action = Compress | NewSession | OpenTestFailure | CommitAndPush | ReviewTool | ResumeAgent

fun as_wire_str :: "chip_action \<Rightarrow> string" where
  "as_wire_str Compress = ''compress''"
| "as_wire_str NewSession = ''new_session''"
| "as_wire_str OpenTestFailure = ''open_test_failure''"
| "as_wire_str CommitAndPush = ''commit_and_push''"
| "as_wire_str ReviewTool = ''review_tool''"
| "as_wire_str ResumeAgent = ''resume''"

record suggestion =
  ch_rule_id :: string
  ch_workarea_id :: string
  ch_title :: string
  ch_priority :: int
  ch_created_at :: int
  ch_action :: chip_action

type_synonym rule = "string \<Rightarrow> int \<Rightarrow> workarea_notes \<Rightarrow> agent_event \<Rightarrow> suggestion option"

definition context_50 :: rule where
  "context_50 wa now_ms s ev =
     (case ev of
        EvContextUsage _ pct \<Rightarrow>
          if 50 \<le> pct \<and> pct < 80
          then Some \<lparr>ch_rule_id = ''context_window_50'', ch_workarea_id = wa, ch_title = ''Compress context now'',
                 ch_priority = 40, ch_created_at = now_ms, ch_action = Compress\<rparr>
          else None
      | _ \<Rightarrow> None)"

definition context_80 :: rule where
  "context_80 wa now_ms s ev =
     (case ev of
        EvContextUsage _ pct \<Rightarrow>
          if 80 \<le> pct
          then Some \<lparr>ch_rule_id = ''context_window_80'', ch_workarea_id = wa,
                 ch_title = ''Start new session with a summary'',
                 ch_priority = 80, ch_created_at = now_ms, ch_action = NewSession\<rparr>
          else None
      | _ \<Rightarrow> None)"

text \<open>\<open>(?i)\d+ (test|spec)s? failed\<close>\<close>

definition FAILED_PATTERN :: regex where
  "FAILED_PATTERN = cat [plus is_digit, cs '' '', alts [ci ''test'', ci ''spec''], opt (ci ''s''), ci '' failed'']"

definition tests_failed :: "(regex \<Rightarrow> string \<Rightarrow> bool) \<Rightarrow> rule" where
  "tests_failed is_match wa now_ms s ev =
     (case ev of
        EvMessage _ _ _ \<Rightarrow>
          if is_match FAILED_PATTERN (wn_last_message_content s)
          then Some \<lparr>ch_rule_id = ''tests_failed'', ch_workarea_id = wa, ch_title = ''Investigate test failure'',
                 ch_priority = 60, ch_created_at = now_ms, ch_action = OpenTestFailure\<rparr>
          else None
      | _ \<Rightarrow> None)"

definition COMMIT_RULE :: string where "COMMIT_RULE = ''turn_complete_with_uncommitted''"

definition commit_uncommitted :: rule where
  "commit_uncommitted wa now_ms s ev =
     (case ev of
        EvTurnComplete _ \<Rightarrow>
          Some \<lparr>ch_rule_id = COMMIT_RULE, ch_workarea_id = wa, ch_title = ''Commit and push'',
             ch_priority = 50, ch_created_at = now_ms, ch_action = CommitAndPush\<rparr>
      | _ \<Rightarrow> None)"

definition review_tool :: rule where
  "review_tool wa now_ms s ev =
     (case ev of
        EvAwaitingApproval _ _ _ _ _ _ _ \<Rightarrow>
          Some \<lparr>ch_rule_id = ''awaiting_approval'', ch_workarea_id = wa, ch_title = ''Review tool call'',
             ch_priority = 90, ch_created_at = now_ms, ch_action = ReviewTool\<rparr>
      | _ \<Rightarrow> None)"

definition agent_crashed :: rule where
  "agent_crashed wa now_ms s ev =
     (case ev of
        EvCrashed _ \<Rightarrow>
          Some \<lparr>ch_rule_id = ''agent_crashed'', ch_workarea_id = wa, ch_title = ''Resume agent'',
             ch_priority = 100, ch_created_at = now_ms, ch_action = ResumeAgent\<rparr>
      | _ \<Rightarrow> None)"

definition builtin_rules :: "(regex \<Rightarrow> string \<Rightarrow> bool) \<Rightarrow> rule list" where
  "builtin_rules is_match =
     [context_50, context_80, tests_failed is_match, commit_uncommitted, review_tool, agent_crashed]"

section \<open>The engine\<close>

definition DEDUP_TTL :: nat where "DEDUP_TTL = 60 * 1000000000"
definition CHIP_RETENTION :: nat where "CHIP_RETENTION = DEDUP_TTL"

text \<open>
  The task of a session: the events of the replay, those of the channel, and how far it is with the
  event at hand.
\<close>

datatype eval_phase =
    Waiting
  | Noted agent_event
  | Judged "suggestion list"
  | Emitting "suggestion list"

record pump =
  pm_workarea :: string
  pm_replay :: "agent_event list"
  pm_channel :: "agent_event list"
  pm_phase :: eval_phase

text \<open>
  \<open>en_emitted\<close> records what passed the filter and at which instant, \<open>en_sent\<close> what was broadcast.
\<close>

record suggestion_engine =
  en_notes :: "string \<Rightarrow> workarea_notes"
  en_last_emit :: "(string \<times> string) \<rightharpoonup> nat"
  en_chips :: "string \<Rightarrow> (suggestion \<times> nat) list"
  en_attached :: "string list"
  en_pumps :: "(string \<times> pump) list"
  en_emitted :: "(nat \<times> suggestion) list"
  en_sent :: "suggestion list"

definition new_engine :: suggestion_engine where
  "new_engine = \<lparr>en_notes = (\<lambda>_. no_notes), en_last_emit = Map.empty, en_chips = (\<lambda>_. []), en_attached = [],
     en_pumps = [], en_emitted = [], en_sent = []\<rparr>"

definition update_state :: "string \<Rightarrow> int \<Rightarrow> agent_event \<Rightarrow> suggestion_engine \<Rightarrow> suggestion_engine" where
  "update_state wa now_ms ev s = s\<lparr>en_notes := (en_notes s)(wa := note_event now_ms ev (en_notes s wa))\<rparr>"

text \<open>The files \<open>git status\<close> reports below the root of the worktree, where both are there.\<close>

definition has_uncommitted :: "string option \<Rightarrow> (string \<Rightarrow> string list result) \<Rightarrow> bool" where
  "has_uncommitted worktree_root status =
     (case worktree_root of
        None \<Rightarrow> False
      | Some root \<Rightarrow> (case status root of Inr files \<Rightarrow> files \<noteq> [] | Inl e \<Rightarrow> False))"

definition rule_candidates ::
  "(regex \<Rightarrow> string \<Rightarrow> bool) \<Rightarrow> string \<Rightarrow> int \<Rightarrow> workarea_notes \<Rightarrow> bool \<Rightarrow> agent_event \<Rightarrow> suggestion list" where
  "rule_candidates is_match wa now_ms notes uncommitted ev =
     (let cands = List.map_filter (\<lambda>r. r wa now_ms notes ev) (builtin_rules is_match)
      in if (\<exists>c\<in>set cands. ch_rule_id c = COMMIT_RULE) \<and> \<not> uncommitted
         then filter (\<lambda>c. ch_rule_id c \<noteq> COMMIT_RULE) cands else cands)"

definition chip_key :: "suggestion \<Rightarrow> string \<times> string" where
  "chip_key c = (ch_workarea_id c, ch_rule_id c)"

definition recent :: "nat \<Rightarrow> nat \<Rightarrow> bool" where
  "recent now t \<longleftrightarrow> now - t < DEDUP_TTL"

definition retain_recent :: "nat \<Rightarrow> ('k \<rightharpoonup> nat) \<Rightarrow> ('k \<rightharpoonup> nat)" where
  "retain_recent now m = (\<lambda>k. case m k of Some t \<Rightarrow> if recent now t then Some t else None | None \<Rightarrow> None)"

fun dedup_chips :: "nat \<Rightarrow> suggestion list \<Rightarrow> ((string \<times> string) \<rightharpoonup> nat) \<Rightarrow> suggestion list \<times> ((string \<times> string) \<rightharpoonup> nat)" where
  "dedup_chips now [] m = ([], m)"
| "dedup_chips now (c # cands) m =
     (if (case m (chip_key c) of Some prev \<Rightarrow> recent now prev | None \<Rightarrow> False)
      then dedup_chips now cands m
      else (let (out, m') = dedup_chips now cands (m(chip_key c \<mapsto> now)) in (c # out, m')))"

definition emit_chips :: "nat \<Rightarrow> suggestion list \<Rightarrow> suggestion_engine \<Rightarrow> suggestion list \<times> suggestion_engine" where
  "emit_chips now cands s =
     (let (out, m) = dedup_chips now cands (retain_recent now (en_last_emit s))
      in (out, s\<lparr>en_last_emit := m, en_emitted := en_emitted s @ map (Pair now) out\<rparr>))"

definition publish_chips :: "string \<Rightarrow> nat \<Rightarrow> suggestion list \<Rightarrow> suggestion_engine \<Rightarrow> suggestion_engine" where
  "publish_chips wa now emitted s =
     (if emitted = [] then s
      else s\<lparr>en_chips := (en_chips s)(wa := en_chips s wa @ map (\<lambda>c. (c, now)) emitted),
             en_sent := en_sent s @ emitted\<rparr>)"

text \<open>\<open>evaluate_event\<close> without another task in between.\<close>

definition evaluate_event ::
  "(regex \<Rightarrow> string \<Rightarrow> bool) \<Rightarrow> string \<Rightarrow> nat \<Rightarrow> int \<Rightarrow> bool \<Rightarrow> agent_event \<Rightarrow> suggestion_engine
     \<Rightarrow> suggestion list \<times> suggestion_engine" where
  "evaluate_event is_match wa now now_ms uncommitted ev s =
     (let s1 = update_state wa now_ms ev s;
          (emitted, s2) = emit_chips now (rule_candidates is_match wa now_ms (en_notes s1 wa) uncommitted ev) s1
      in (emitted, publish_chips wa now emitted s2))"

definition list_for_workarea :: "string \<Rightarrow> nat \<Rightarrow> suggestion_engine \<Rightarrow> suggestion list \<times> suggestion_engine" where
  "list_for_workarea wa now s =
     (let buf = filter (\<lambda>(c, at). now - at < CHIP_RETENTION) (en_chips s wa)
      in (sort_key (\<lambda>c. - ch_priority c) (sort_key (\<lambda>c. - ch_created_at c) (map fst buf)),
          s\<lparr>en_chips := (en_chips s)(wa := buf)\<rparr>))"

section \<open>The task of a session\<close>

definition attach_session :: "string \<Rightarrow> string \<Rightarrow> agent_event list option \<Rightarrow> suggestion_engine \<Rightarrow> bool \<times> suggestion_engine" where
  "attach_session wa sid subscribed s =
     (if sid \<in> set (en_attached s) then (False, s)
      else (case subscribed of
              None \<Rightarrow> (False, s)
            | Some replay \<Rightarrow>
                (True, s\<lparr>en_attached := sid # en_attached s,
                   en_pumps := (sid, \<lparr>pm_workarea = wa, pm_replay = replay, pm_channel = [], pm_phase = Waiting\<rparr>)
                                 # en_pumps s\<rparr>)))"

definition set_pump :: "string \<Rightarrow> pump \<Rightarrow> suggestion_engine \<Rightarrow> suggestion_engine" where
  "set_pump sid p s = s\<lparr>en_pumps := map (\<lambda>(i, q). if i = sid then (i, p) else (i, q)) (en_pumps s)\<rparr>"

text \<open>The next event: of the replay first, then of the channel.\<close>

definition pump_note :: "string \<Rightarrow> int \<Rightarrow> suggestion_engine \<Rightarrow> suggestion_engine" where
  "pump_note sid now_ms s =
     (case map_of (en_pumps s) sid of
        None \<Rightarrow> s
      | Some p \<Rightarrow>
          (case (pm_phase p, pm_replay p, pm_channel p) of
             (Waiting, ev # rest, _) \<Rightarrow>
               update_state (pm_workarea p) now_ms ev (set_pump sid (p\<lparr>pm_replay := rest, pm_phase := Noted ev\<rparr>) s)
           | (Waiting, [], ev # rest) \<Rightarrow>
               update_state (pm_workarea p) now_ms ev (set_pump sid (p\<lparr>pm_channel := rest, pm_phase := Noted ev\<rparr>) s)
           | _ \<Rightarrow> s))"

definition pump_judge :: "(regex \<Rightarrow> string \<Rightarrow> bool) \<Rightarrow> string \<Rightarrow> int \<Rightarrow> bool \<Rightarrow> suggestion_engine \<Rightarrow> suggestion_engine" where
  "pump_judge is_match sid now_ms uncommitted s =
     (case map_of (en_pumps s) sid of
        None \<Rightarrow> s
      | Some p \<Rightarrow>
          (case pm_phase p of
             Noted ev \<Rightarrow>
               set_pump sid (p\<lparr>pm_phase := Judged (rule_candidates is_match (pm_workarea p) now_ms
                 (en_notes s (pm_workarea p)) uncommitted ev)\<rparr>) s
           | _ \<Rightarrow> s))"

definition pump_emit :: "string \<Rightarrow> nat \<Rightarrow> suggestion_engine \<Rightarrow> suggestion_engine" where
  "pump_emit sid now s =
     (case map_of (en_pumps s) sid of
        None \<Rightarrow> s
      | Some p \<Rightarrow>
          (case pm_phase p of
             Judged cands \<Rightarrow> (let (out, s') = emit_chips now cands s in set_pump sid (p\<lparr>pm_phase := Emitting out\<rparr>) s')
           | _ \<Rightarrow> s))"

definition pump_publish :: "string \<Rightarrow> nat \<Rightarrow> suggestion_engine \<Rightarrow> suggestion_engine" where
  "pump_publish sid now s =
     (case map_of (en_pumps s) sid of
        None \<Rightarrow> s
      | Some p \<Rightarrow>
          (case pm_phase p of
             Emitting out \<Rightarrow> publish_chips (pm_workarea p) now out (set_pump sid (p\<lparr>pm_phase := Waiting\<rparr>) s)
           | _ \<Rightarrow> s))"

text \<open>The channel delivers an event, or reports an error (it was closed, or the task lagged behind).\<close>

definition channel_event :: "string \<Rightarrow> agent_event \<Rightarrow> suggestion_engine \<Rightarrow> suggestion_engine" where
  "channel_event sid ev s =
     (case map_of (en_pumps s) sid of
        None \<Rightarrow> s
      | Some p \<Rightarrow> set_pump sid (p\<lparr>pm_channel := pm_channel p @ [ev]\<rparr>) s)"

definition channel_error :: "string \<Rightarrow> suggestion_engine \<Rightarrow> suggestion_engine" where
  "channel_error sid s =
     (case map_of (en_pumps s) sid of
        None \<Rightarrow> s
      | Some p \<Rightarrow>
          if pm_phase p = Waiting \<and> pm_replay p = []
          then s\<lparr>en_pumps := filter (\<lambda>(i, q). i \<noteq> sid) (en_pumps s)\<rparr> else s)"

datatype engine_event =
    EvAttach string string "agent_event list option"
  | EvDeliver string agent_event
  | EvChannelError string
  | EvNote string int
  | EvJudge string int bool
  | EvEmit string nat
  | EvPublish string nat
  | EvList string nat

fun engine_step :: "(regex \<Rightarrow> string \<Rightarrow> bool) \<Rightarrow> suggestion_engine \<Rightarrow> engine_event \<Rightarrow> suggestion_engine" where
  "engine_step is_match s (EvAttach wa sid subscribed) = snd (attach_session wa sid subscribed s)"
| "engine_step is_match s (EvDeliver sid ev) = channel_event sid ev s"
| "engine_step is_match s (EvChannelError sid) = channel_error sid s"
| "engine_step is_match s (EvNote sid now_ms) = pump_note sid now_ms s"
| "engine_step is_match s (EvJudge sid now_ms uncommitted) = pump_judge is_match sid now_ms uncommitted s"
| "engine_step is_match s (EvEmit sid now) = pump_emit sid now s"
| "engine_step is_match s (EvPublish sid now) = pump_publish sid now s"
| "engine_step is_match s (EvList wa now) = snd (list_for_workarea wa now s)"

definition engine_run :: "(regex \<Rightarrow> string \<Rightarrow> bool) \<Rightarrow> engine_event list \<Rightarrow> suggestion_engine \<Rightarrow> suggestion_engine" where
  "engine_run is_match es s = fold (\<lambda>e t. engine_step is_match t e) es s"

section \<open>The RPCs\<close>

record proto_chip =
  ps_rule_id :: string
  ps_workarea_id :: string
  ps_title :: string
  ps_priority :: int
  ps_created_at_ms :: int
  ps_action :: string

definition chip_to_proto :: "suggestion \<Rightarrow> proto_chip" where
  "chip_to_proto c = \<lparr>ps_rule_id = ch_rule_id c, ps_workarea_id = ch_workarea_id c, ps_title = ch_title c,
     ps_priority = ch_priority c, ps_created_at_ms = ch_created_at c, ps_action = as_wire_str (ch_action c)\<rparr>"

definition get_suggestions :: "string \<Rightarrow> nat \<Rightarrow> suggestion_engine \<Rightarrow> proto_chip list response \<times> suggestion_engine" where
  "get_suggestions wa now s =
     (if wa = [] then (Inl (invalid_argument ''workarea_id is required''), s)
      else (let (chips, s') = list_for_workarea wa now s in (Inr (map chip_to_proto chips), s')))"

text \<open>The outcome is only logged.\<close>

definition record_suggestion_outcome :: "string \<Rightarrow> string \<Rightarrow> string \<Rightarrow> suggestion_engine \<Rightarrow> unit response \<times> suggestion_engine" where
  "record_suggestion_outcome wa rule_id outcome s =
     (if wa = [] then (Inl (invalid_argument ''workarea_id is required''), s)
      else if rule_id = [] then (Inl (invalid_argument ''rule_id is required''), s)
      else (Inr (), s))"

section \<open>The message buffer\<close>

text \<open>The suffixes a text may be cut to, and the longest of them.\<close>

definition fitting :: "string \<Rightarrow> nat \<Rightarrow> bool" where
  "fitting s i \<longleftrightarrow> i \<le> length s \<and> length s - i \<le> MAX_MESSAGE_BUFFER \<and> is_char_boundary s i"

definition longest_tail :: "string \<Rightarrow> string" where
  "longest_tail s = drop (Min {i. fitting s i}) s"

text \<open>A text in UTF-8 does not begin in the middle of a character.\<close>

definition whole :: "string \<Rightarrow> bool" where
  "whole s \<longleftrightarrow> (case s of [] \<Rightarrow> True | c # _ \<Rightarrow> \<not> continuation c)"

lemma finite_fitting: "finite {i. fitting s i}"
  by (rule finite_subset [of _ "{..length s}"]) (auto simp: fitting_def)

lemma fitting_end: "fitting s (length s)"
  by (simp add: fitting_def is_char_boundary_def)

lemma next_boundary_least:
  assumes "i \<le> length s"
  shows "i \<le> next_boundary s i \<and> next_boundary s i \<le> length s \<and> is_char_boundary s (next_boundary s i)
    \<and> (\<forall>j. i \<le> j \<and> j < next_boundary s i \<longrightarrow> \<not> is_char_boundary s j)"
  using assms
proof (induction s i rule: next_boundary.induct)
  case (1 s i)
  show ?case
  proof (cases "i < length s \<and> \<not> is_char_boundary s i")
    case True
    then have step: "next_boundary s i = next_boundary s (i + 1)" by (simp add: next_boundary.simps [of s i])
    have IH: "i + 1 \<le> next_boundary s (i + 1)" "next_boundary s (i + 1) \<le> length s"
      "is_char_boundary s (next_boundary s (i + 1))"
      "\<And>j. i + 1 \<le> j \<Longrightarrow> j < next_boundary s (i + 1) \<Longrightarrow> \<not> is_char_boundary s j"
      using "1.IH" [OF True] True by auto
    have "\<not> is_char_boundary s j" if "i \<le> j" "j < next_boundary s (i + 1)" for j
      using that True IH(4) [of j] by (cases "j = i") auto
    then show ?thesis using IH(1-3) step by auto
  next
    case False
    then have "next_boundary s i = i" by (subst next_boundary.simps) auto
    then show ?thesis using False 1(2) by (auto simp: is_char_boundary_def)
  qed
qed

lemma trim_is_longest_tail: "trim_message_buffer s = longest_tail s"
proof (cases "MAX_MESSAGE_BUFFER < length s")
  case True
  let ?i = "length s - MAX_MESSAGE_BUFFER" and ?b = "next_boundary s (length s - MAX_MESSAGE_BUFFER)"
  have b: "?i \<le> ?b" "?b \<le> length s" "is_char_boundary s ?b" "\<And>j. ?i \<le> j \<Longrightarrow> j < ?b \<Longrightarrow> \<not> is_char_boundary s j"
    using next_boundary_least [of ?i s] by auto
  have "Min {i. fitting s i} = ?b"
  proof (rule Min_eqI [OF finite_fitting])
    show "?b \<in> {i. fitting s i}" using b(1-3) by (auto simp: fitting_def)
    show "?b \<le> j" if "j \<in> {i. fitting s i}" for j
    proof (rule ccontr)
      assume "\<not> ?b \<le> j"
      then show False using that b(4) [of j] by (simp add: fitting_def) linarith
    qed
  qed
  then show ?thesis using True by (simp add: trim_message_buffer_def longest_tail_def)
next
  case False
  have "Min {i. fitting s i} = 0"
    by (rule Min_eqI [OF finite_fitting]) (use False in \<open>auto simp: fitting_def is_char_boundary_def\<close>)
  then show ?thesis using False by (simp add: trim_message_buffer_def longest_tail_def)
qed

text \<open>Cutting after every message is cutting once at the end.\<close>

lemma longest_tail_append:
  assumes "whole m" and "whole s"
  shows "longest_tail (longest_tail s @ m) = longest_tail (s @ m)"
proof -
  define a where "a = Min {i. fitting s i}"
  define c where "c = Min {i. fitting (s @ m) i}"
  define d where "d = Min {i. fitting (longest_tail s @ m) i}"
  have a: "fitting s a" using Min_in [OF finite_fitting, of s] fitting_end [of s] by (auto simp: a_def)
  have c: "fitting (s @ m) c" using Min_in [OF finite_fitting, of "s @ m"] fitting_end [of "s @ m"] by (auto simp: c_def)
  have a_le: "a \<le> length s" using a by (simp add: fitting_def)
  have tail: "longest_tail s = drop a s" by (simp add: longest_tail_def a_def)
  have inner: "is_char_boundary (drop a s @ m) i \<longleftrightarrow> is_char_boundary (s @ m) (i + a)" for i
  proof (cases "i = 0")
    case True
    have "is_char_boundary (s @ m) a"
      using a assms by (cases m; cases "a = length s") (auto simp: fitting_def is_char_boundary_def nth_append whole_def)
    then show ?thesis using True by (simp add: is_char_boundary_def)
  next
    case False
    then show ?thesis using a_le by (auto simp: is_char_boundary_def nth_append add.commute less_diff_conv)
  qed
  have shift: "fitting (drop a s @ m) i \<longleftrightarrow> fitting (s @ m) (i + a)" for i
    using inner [of i] a_le by (auto simp: fitting_def)
  have ac: "a \<le> c"
  proof (cases "c \<le> length s")
    case True
    have "is_char_boundary s c"
      using c True by (cases "c = length s") (auto simp: fitting_def is_char_boundary_def nth_append)
    then have "fitting s c" using c True by (auto simp: fitting_def)
    then show ?thesis unfolding a_def by (intro Min_le [OF finite_fitting]) simp
  next
    case False
    then show ?thesis using a_le by simp
  qed
  have "d = c - a"
    unfolding d_def tail
  proof (rule Min_eqI [OF finite_fitting])
    show "c - a \<in> {i. fitting (drop a s @ m) i}" using shift [of "c - a"] c ac by simp
    fix j assume "j \<in> {i. fitting (drop a s @ m) i}"
    then have "fitting (s @ m) (j + a)" using shift by simp
    then have "c \<le> j + a" unfolding c_def by (intro Min_le [OF finite_fitting]) simp
    then show "c - a \<le> j" by simp
  qed
  then have "longest_tail (longest_tail s @ m) = drop (c - a) (drop a s @ m)"
    unfolding tail by (simp only: longest_tail_def [of "drop a s @ m"] d_def [unfolded tail, symmetric])
  also have "\<dots> = drop (c - a) (drop a (s @ m))" using a_le by simp
  also have "\<dots> = drop c (s @ m)" using ac by (simp only: drop_drop le_add_diff_inverse2)
  finally show ?thesis by (simp add: longest_tail_def c_def)
qed


definition message_of :: "agent_event \<Rightarrow> string" where
  "message_of ev = (case ev of EvMessage _ _ content \<Rightarrow> content | _ \<Rightarrow> [])"

lemma note_event_message:
  "wn_last_message_content (note_event t ev n) =
     (case ev of EvMessage _ _ content \<Rightarrow> longest_tail (wn_last_message_content n @ content)
      | _ \<Rightarrow> wn_last_message_content n)"
  by (cases "(t, ev, n)" rule: note_event.cases) (simp_all add: trim_is_longest_tail)

lemma longest_tail_id: "length s \<le> MAX_MESSAGE_BUFFER \<Longrightarrow> longest_tail s = s"
  by (simp add: trim_message_buffer_def flip: trim_is_longest_tail)

lemma longest_tail_suffix: "\<exists>p. s = p @ longest_tail s \<and> length (longest_tail s) \<le> MAX_MESSAGE_BUFFER \<and> is_char_boundary s (length p)"
proof -
  have "fitting s (Min {i. fitting s i})"
    using Min_in [OF finite_fitting, of s] fitting_end [of s] by auto
  then show ?thesis
    by (intro exI [of _ "take (Min {i. fitting s i}) s"]) (auto simp: longest_tail_def fitting_def min_def)
qed

lemma whole_append: "whole (a @ b) \<longleftrightarrow> whole a \<and> (a = [] \<longrightarrow> whole b)"
  by (cases a) (auto simp: whole_def)

section \<open>Passing the filter\<close>

text \<open>Two entries of the log of emissions for the same rule and workarea are a minute apart.\<close>

definition spaced :: "(nat \<times> suggestion) list \<Rightarrow> bool" where
  "spaced = sorted_wrt (\<lambda>x y. chip_key (snd x) = chip_key (snd y) \<longrightarrow> fst x + DEDUP_TTL \<le> fst y)"

definition emitted_recently :: "(nat \<times> suggestion) list \<Rightarrow> nat \<Rightarrow> string \<times> string \<Rightarrow> bool" where
  "emitted_recently log now k \<longleftrightarrow> (\<exists>e\<in>set log. chip_key (snd e) = k \<and> recent now (fst e))"

definition kept_recently :: "((string \<times> string) \<rightharpoonup> nat) \<Rightarrow> nat \<Rightarrow> string \<times> string \<Rightarrow> bool" where
  "kept_recently m now k \<longleftrightarrow> (\<exists>t. m k = Some t \<and> recent now t)"

text \<open>What the map remembers is what the log says, for every instant from \<open>b\<close> on.\<close>

definition dedup_inv :: "nat \<Rightarrow> (nat \<times> suggestion) list \<Rightarrow> ((string \<times> string) \<rightharpoonup> nat) \<Rightarrow> bool" where
  "dedup_inv b log m \<longleftrightarrow> spaced log \<and> (\<forall>e\<in>set log. fst e \<le> b)
     \<and> (\<forall>now\<ge>b. \<forall>k. kept_recently m now k \<longleftrightarrow> emitted_recently log now k)"

lemma recent_mono: "recent now' t \<Longrightarrow> now \<le> now' \<Longrightarrow> recent now t"
  by (simp add: recent_def)

lemma kept_retained:
  assumes "now \<le> now'" shows "kept_recently (retain_recent now m) now' k \<longleftrightarrow> kept_recently m now' k"
  using assms by (auto simp: kept_recently_def retain_recent_def intro: recent_mono split: option.splits if_splits)

lemma kept_retained_Some: "(case retain_recent now m k of Some prev \<Rightarrow> recent now prev | None \<Rightarrow> False) = kept_recently m now k"
  by (auto simp: kept_recently_def retain_recent_def split: option.splits)

lemma case_kept: "(case m k of Some prev \<Rightarrow> recent now prev | None \<Rightarrow> False) = kept_recently m now k"
  by (auto simp: kept_recently_def split: option.splits)

lemma dedup_inv_later: "dedup_inv b log m \<Longrightarrow> b \<le> now \<Longrightarrow> dedup_inv now log (retain_recent now m)"
  by (fastforce simp: dedup_inv_def kept_retained)

lemma dedup_inv_emit:
  assumes inv: "dedup_inv now log m" and free: "\<not> kept_recently m now (chip_key c)"
  shows "dedup_inv now (log @ [(now, c)]) (m(chip_key c \<mapsto> now))"
proof -
  have spaced: "spaced log" and bound: "\<And>e. e \<in> set log \<Longrightarrow> fst e \<le> now"
    and blk: "\<And>now' k. now \<le> now' \<Longrightarrow> kept_recently m now' k \<longleftrightarrow> emitted_recently log now' k"
    using inv by (auto simp: dedup_inv_def)
  have gap: "fst e + DEDUP_TTL \<le> now" if "e \<in> set log" "chip_key (snd e) = chip_key c" for e
    using free blk [of now "chip_key c"] that bound [OF that(1)] by (force simp: emitted_recently_def recent_def)
  have "spaced (log @ [(now, c)])"
    using spaced gap by (auto simp: spaced_def sorted_wrt_append)
  moreover have "kept_recently (m(chip_key c \<mapsto> now)) now' k \<longleftrightarrow> emitted_recently (log @ [(now, c)]) now' k"
    if "now \<le> now'" for now' k
  proof (cases "k = chip_key c")
    case True
    have "recent now' now" if "e \<in> set log" "recent now' (fst e)" for e
      using that bound [OF that(1)] by (simp add: recent_def)
    then show ?thesis using True by (auto simp: kept_recently_def emitted_recently_def)
  next
    case False
    then show ?thesis using blk [OF that, of k] by (auto simp: kept_recently_def emitted_recently_def)
  qed
  ultimately show ?thesis using bound by (auto simp: dedup_inv_def)
qed

lemma dedup_chips_inv:
  assumes "dedup_inv now log m" and "dedup_chips now cands m = (out, m')"
  shows "dedup_inv now (log @ map (Pair now) out) m' \<and> set out \<subseteq> set cands"
  using assms
proof (induction now cands m arbitrary: log out m' rule: dedup_chips.induct)
  case (1 now m)
  then show ?case by simp
next
  case (2 now c cands m)
  show ?case
  proof (cases "kept_recently m now (chip_key c)")
    case True
    then show ?thesis using 2(1) [of log out m'] 2(3,4) by (auto simp: case_kept)
  next
    case False
    obtain out' where "dedup_chips now cands (m(chip_key c \<mapsto> now)) = (out', m')" "out = c # out'"
      using 2(4) False by (auto simp: case_kept split: prod.splits)
    note rest = this
    have "dedup_inv now ((log @ [(now, c)]) @ map (Pair now) out') m' \<and> set out' \<subseteq> set cands"
      by (rule 2(2)) (use False rest dedup_inv_emit [OF 2(3) False] in \<open>simp_all only: case_kept not_False_eq_True\<close>)
    then show ?thesis using rest(2) by auto
  qed
qed

text \<open>With one suggestion per rule a suggestion passes exactly where its rule was silent for a minute.\<close>

lemma dedup_chips_filter:
  assumes "distinct (map chip_key cands)"
  shows "fst (dedup_chips now cands m) = filter (\<lambda>c. \<not> kept_recently m now (chip_key c)) cands"
  using assms
proof (induction now cands m rule: dedup_chips.induct)
  case (2 now c cands m)
  have other: "kept_recently (m(chip_key c \<mapsto> now)) now (chip_key d) = kept_recently m now (chip_key d)" if "d \<in> set cands" for d
  proof -
    have "chip_key d \<noteq> chip_key c" using 2(3) that by (auto simp: image_iff)
    then show ?thesis by (simp add: kept_recently_def)
  qed
  have same: "filter (\<lambda>d. \<not> kept_recently (m(chip_key c \<mapsto> now)) now (chip_key d)) cands
    = filter (\<lambda>d. \<not> kept_recently m now (chip_key d)) cands"
    by (rule filter_cong) (simp_all only: other)
  show ?case
    using 2 same by (cases "kept_recently m now (chip_key c)") (auto simp: case_kept simp del: fun_upd_apply split: prod.splits)
qed simp

definition rule_ids :: "string list" where
  "rule_ids = [''context_window_50'', ''context_window_80'', ''tests_failed'', COMMIT_RULE, ''awaiting_approval'',
     ''agent_crashed'']"

lemmas rule_defs = context_50_def context_80_def tests_failed_def commit_uncommitted_def review_tool_def agent_crashed_def

text \<open>An event has at most one suggestion.\<close>

lemma candidates_cases:
  "rule_candidates is_match wa t n u ev = [] \<or>
   (\<exists>c. rule_candidates is_match wa t n u ev = [c] \<and> ch_workarea_id c = wa \<and> ch_created_at c = t
      \<and> (ch_rule_id c = COMMIT_RULE \<longrightarrow> u \<and> (\<exists>sid. ev = EvTurnComplete sid)))"
  by (cases ev) (auto simp: rule_candidates_def builtin_rules_def rule_defs map_filter_def Let_def COMMIT_RULE_def)


section \<open>What the steps keep\<close>

definition emit_times :: "engine_event list \<Rightarrow> nat list" where
  "emit_times es = List.map_filter (\<lambda>e. case e of EvEmit sid now \<Rightarrow> Some now | _ \<Rightarrow> None) es"

lemma emit_times_simps [simp]:
  "emit_times [] = []"
  "emit_times (EvEmit sid now # es) = now # emit_times es"
  "\<forall>sid now. e \<noteq> EvEmit sid now \<Longrightarrow> emit_times (e # es) = emit_times es"
  by (auto simp: emit_times_def map_filter_def split: engine_event.splits)

lemmas step_defs = attach_session_def channel_event_def channel_error_def pump_note_def pump_judge_def pump_emit_def
  pump_publish_def list_for_workarea_def update_state_def set_pump_def emit_chips_def publish_chips_def

lemma other_steps_log:
  assumes "\<forall>sid now. e \<noteq> EvEmit sid now"
  shows "en_emitted (engine_step is_match s e) = en_emitted s \<and> en_last_emit (engine_step is_match s e) = en_last_emit s"
  using assms by (cases e) (simp_all add: step_defs Let_def split: option.splits list.splits eval_phase.splits)

lemma emit_chips_inv:
  assumes "dedup_inv b (en_emitted s) (en_last_emit s)" "b \<le> now" "emit_chips now cands s = (out, s')"
  shows "dedup_inv now (en_emitted s') (en_last_emit s') \<and> en_emitted s' = en_emitted s @ map (Pair now) out \<and> set out \<subseteq> set cands"
  using dedup_chips_inv [OF dedup_inv_later [OF assms(1,2)]] assms(3)
  by (fastforce simp: emit_chips_def split: prod.splits)

lemma engine_step_dedup:
  assumes inv: "dedup_inv b (en_emitted s) (en_last_emit s)" and now: "\<And>t. t \<in> set (emit_times [e]) \<Longrightarrow> b \<le> t"
  shows "dedup_inv (last (b # emit_times [e])) (en_emitted (engine_step is_match s e)) (en_last_emit (engine_step is_match s e))"
proof (cases "\<exists>sid now. e = EvEmit sid now")
  case True
  then obtain sid t where e: "e = EvEmit sid t" by blast
  have bt: "b \<le> t" using now [of t] e by simp
  have stay: "dedup_inv t (en_emitted s) (en_last_emit s)"
    using inv bt by (auto simp: dedup_inv_def)
  have emit: "dedup_inv t (en_emitted s') (en_last_emit s')" if "emit_chips t cands s = (out, s')" for cands out s'
    using emit_chips_inv [OF inv bt that] by blast
  show ?thesis
    using stay by (auto simp: e pump_emit_def set_pump_def emit split: option.splits eval_phase.splits prod.splits)
next
  case False
  then show ?thesis using inv other_steps_log [of e is_match s] by (cases e) simp_all
qed

lemma engine_run_dedup:
  assumes "dedup_inv b (en_emitted s) (en_last_emit s)" and "sorted (b # emit_times es)"
  shows "dedup_inv (last (b # emit_times es)) (en_emitted (engine_run is_match es s)) (en_last_emit (engine_run is_match es s))"
  using assms
proof (induction es arbitrary: s b)
  case (Cons e es)
  have split: "emit_times (e # es) = emit_times [e] @ emit_times es" by (cases e) simp_all
  let ?b = "last (b # emit_times [e])"
  have one: "\<exists>t. emit_times [e] = [t] \<or> emit_times [e] = []" by (cases e) simp_all
  have "dedup_inv ?b (en_emitted (engine_step is_match s e)) (en_last_emit (engine_step is_match s e))"
    by (rule engine_step_dedup [OF Cons.prems(1)]) (use Cons.prems(2) split in auto)
  moreover have "sorted (?b # emit_times es)" and "last (b # emit_times (e # es)) = last (?b # emit_times es)"
    using Cons.prems(2) one unfolding split by (auto simp: last.simps)
  ultimately show ?case using Cons.IH by (simp add: engine_run_def)
qed (simp add: engine_run_def)

lemma new_engine_dedup: "dedup_inv 0 (en_emitted new_engine) (en_last_emit new_engine)"
  by (simp add: dedup_inv_def new_engine_def spaced_def kept_recently_def emitted_recently_def)

text \<open>
  What is published passed the filter before, for the workarea it is listed under; a suggestion that asks to
  commit comes from the end of a turn in a dirty worktree; a session has one task.
\<close>

definition own_chips :: "string \<Rightarrow> suggestion list \<Rightarrow> bool" where
  "own_chips wa cands \<longleftrightarrow> (\<forall>c\<in>set cands. ch_workarea_id c = wa) \<and> distinct (map chip_key cands)"

definition pump_ok :: "(nat \<times> suggestion) list \<Rightarrow> pump \<Rightarrow> bool" where
  "pump_ok log p = (case pm_phase p of
     Judged cands \<Rightarrow> own_chips (pm_workarea p) cands
   | Emitting out \<Rightarrow> (\<forall>c\<in>set out. ch_workarea_id c = pm_workarea p) \<and> set out \<subseteq> snd ` set log
   | _ \<Rightarrow> True)"

definition engine_ok :: "suggestion_engine \<Rightarrow> bool" where
  "engine_ok s \<longleftrightarrow> distinct (en_attached s) \<and> distinct (map fst (en_pumps s))
     \<and> fst ` set (en_pumps s) \<subseteq> set (en_attached s)
     \<and> (\<forall>(sid, p)\<in>set (en_pumps s). pump_ok (en_emitted s) p)
     \<and> set (en_sent s) \<subseteq> snd ` set (en_emitted s)
     \<and> (\<forall>wa. \<forall>(c, at)\<in>set (en_chips s wa). ch_workarea_id c = wa \<and> c \<in> set (en_sent s))"


lemma own_candidates: "own_chips wa (rule_candidates is_match wa t n u ev)"
  using candidates_cases [of is_match wa t n u ev] by (auto simp: own_chips_def)

lemma pump_ok_simps [simp]:
  "pump_ok log (p\<lparr>pm_phase := Waiting\<rparr>)"
  "pump_ok log (p\<lparr>pm_phase := Noted ev\<rparr>)"
  "pump_ok log (p\<lparr>pm_phase := Judged cands\<rparr>) = own_chips (pm_workarea p) cands"
  "pump_ok log \<lparr>pm_workarea = wa, pm_replay = r, pm_channel = c, pm_phase = Waiting\<rparr>"
  by (simp_all add: pump_ok_def)

lemma pump_ok_queues [simp]:
  "pump_ok log (p\<lparr>pm_channel := evs\<rparr>) = pump_ok log p"
  "pump_ok log (p\<lparr>pm_replay := evs\<rparr>) = pump_ok log p"
  by (cases "pm_phase p", simp_all add: pump_ok_def)+

lemma pump_ok_mono: "pump_ok log p \<Longrightarrow> set log \<subseteq> set log' \<Longrightarrow> pump_ok log' p"
  by (cases "pm_phase p") (simp_all add: pump_ok_def, meson image_mono order_trans)

lemma fst_set_pump: "fst ` (\<lambda>(i, q). if i = sid then (i, p) else (i, q)) ` A = fst ` A"
  by force

lemma keys_set_pump: "map fst (map (\<lambda>(i, q). if i = sid then (i, p) else (i, q)) ps) = map fst ps"
  by (induction ps) auto

lemma engine_ok_set_pump:
  assumes "engine_ok s" "pump_ok (en_emitted s) p" shows "engine_ok (set_pump sid p s)"
  using assms unfolding engine_ok_def set_pump_def
  by (simp add: keys_set_pump fst_set_pump del: map_map) (auto split: if_splits)

lemma engine_ok_update_state: "engine_ok (update_state wa t ev s) = engine_ok s"
  by (simp add: engine_ok_def update_state_def)

lemma engine_ok_pump: "engine_ok s \<Longrightarrow> map_of (en_pumps s) sid = Some p \<Longrightarrow> pump_ok (en_emitted s) p"
  by (auto simp: engine_ok_def dest!: map_of_SomeD)

lemma engine_ok_emit:
  assumes "engine_ok s" "emit_chips now cands s = (out, s')"
  shows "engine_ok s' \<and> en_emitted s' = en_emitted s @ map (Pair now) out"
proof -
  have s': "en_emitted s' = en_emitted s @ map (Pair now) out" "en_attached s' = en_attached s" "en_pumps s' = en_pumps s"
    "en_sent s' = en_sent s" "en_chips s' = en_chips s"
    using assms(2) by (auto simp: emit_chips_def split: prod.splits)
  then show ?thesis
    using assms(1) pump_ok_mono [of "en_emitted s" _ "en_emitted s'"] by (auto simp: engine_ok_def image_Un)
qed

lemma dedup_chips_subset: "set (fst (dedup_chips now cands m)) \<subseteq> set cands"
  by (induction now cands m rule: dedup_chips.induct) (auto simp del: fun_upd_apply split: prod.splits option.splits)

lemma engine_ok_publish:
  assumes "engine_ok s" "\<forall>c\<in>set out. ch_workarea_id c = wa" "set out \<subseteq> snd ` set (en_emitted s)"
  shows "engine_ok (publish_chips wa now out s)"
  using assms by (auto simp: engine_ok_def publish_chips_def)

lemma engine_step_ok: "engine_ok s \<Longrightarrow> engine_ok (engine_step is_match s e)"
proof (cases e)
  case (EvAttach wa sid subscribed)
  assume "engine_ok s"
  then show ?thesis
    by (auto simp: EvAttach attach_session_def engine_ok_def image_iff split: option.splits)
next
  case (EvDeliver sid ev)
  assume ok: "engine_ok s"
  have "pump_ok (en_emitted s) (p\<lparr>pm_channel := pm_channel p @ [ev]\<rparr>)" if "map_of (en_pumps s) sid = Some p" for p
    using engine_ok_pump [OF ok that] by simp
  then show ?thesis using ok by (auto simp: EvDeliver channel_event_def intro: engine_ok_set_pump split: option.splits)
next
  case (EvChannelError sid)
  assume "engine_ok s"
  then show ?thesis
    by (auto simp: EvChannelError channel_error_def engine_ok_def distinct_map_filter image_subset_iff
        split: option.splits)
next
  case (EvNote sid t)
  assume ok: "engine_ok s"
  then show ?thesis
    by (auto simp: EvNote pump_note_def engine_ok_update_state intro!: engine_ok_set_pump
        split: option.splits list.splits eval_phase.splits)
next
  case (EvJudge sid t u)
  assume ok: "engine_ok s"
  then show ?thesis
    by (auto simp: EvJudge pump_judge_def own_candidates intro!: engine_ok_set_pump
        split: option.splits eval_phase.splits)
next
  case (EvEmit sid now)
  assume ok: "engine_ok s"
  show ?thesis
  proof (cases "\<exists>p cands. map_of (en_pumps s) sid = Some p \<and> pm_phase p = Judged cands")
    case True
    then obtain p cands out s' where p: "map_of (en_pumps s) sid = Some p" "pm_phase p = Judged cands"
      and em: "emit_chips now cands s = (out, s')" by (metis surj_pair)
    have own: "own_chips (pm_workarea p) cands" using engine_ok_pump [OF ok p(1)] p(2) by (simp add: pump_ok_def)
    have "set out \<subseteq> set cands"
      using em dedup_chips_subset [of now cands] by (auto simp: emit_chips_def split: prod.splits) (metis fst_conv subsetD)
    then have "pump_ok (en_emitted s') (p\<lparr>pm_phase := Emitting out\<rparr>)"
      using engine_ok_emit [OF ok em] own by (auto simp: pump_ok_def own_chips_def image_Un image_image)
    then show ?thesis using engine_ok_emit [OF ok em] p em by (simp add: EvEmit pump_emit_def engine_ok_set_pump)
  next
    case False
    then show ?thesis using ok by (auto simp: EvEmit pump_emit_def split: option.splits eval_phase.splits)
  qed
next
  case (EvPublish sid now)
  assume ok: "engine_ok s"
  have "engine_ok (publish_chips (pm_workarea p) now out (set_pump sid (p\<lparr>pm_phase := Waiting\<rparr>) s))"
    if "map_of (en_pumps s) sid = Some p" "pm_phase p = Emitting out" for p out
    using engine_ok_pump [OF ok that(1)] that(2) ok
    by (intro engine_ok_publish engine_ok_set_pump) (auto simp: pump_ok_def set_pump_def)
  then show ?thesis using ok by (auto simp: EvPublish pump_publish_def split: option.splits eval_phase.splits)
next
  case (EvList wa now)
  assume "engine_ok s"
  then show ?thesis
    by (auto simp: EvList list_for_workarea_def engine_ok_def Let_def)
qed

interpretation engine: event_machine "engine_step is_match" engine_ok
  by unfold_locales (rule engine_step_ok)

lemma engine_run_ok: "engine_ok s \<Longrightarrow> engine_ok (engine_run is_match es s)"
  unfolding engine_run_def by (rule engine.run_inv)

lemma new_engine_ok: "engine_ok new_engine"
  by (simp add: engine_ok_def new_engine_def)

text \<open>What the channel of a session without a task brings changes nothing.\<close>

definition about :: "string \<Rightarrow> engine_event \<Rightarrow> bool" where
  "about sid e = (case e of
     EvAttach wa i sub \<Rightarrow> i = sid | EvDeliver i ev \<Rightarrow> i = sid | EvChannelError i \<Rightarrow> i = sid | EvNote i t \<Rightarrow> i = sid
   | EvJudge i t u \<Rightarrow> i = sid | EvEmit i now \<Rightarrow> i = sid | EvPublish i now \<Rightarrow> i = sid | EvList wa now \<Rightarrow> False)"

definition ended :: "string \<Rightarrow> suggestion_engine \<Rightarrow> bool" where
  "ended sid s \<longleftrightarrow> sid \<in> set (en_attached s) \<and> map_of (en_pumps s) sid = None"

lemma ended_ignores: "ended sid s \<Longrightarrow> about sid e \<Longrightarrow> engine_step is_match s e = s"
  by (cases e) (simp_all add: about_def ended_def step_defs)

lemma map_of_set_pump: "map_of (map (\<lambda>(i, q). if i = sid then (i, p) else (i, q)) ps) j
   = (if j = sid then map_option (\<lambda>_. p) (map_of ps j) else map_of ps j)"
  by (induction ps) auto

lemma ended_stays: "ended sid s \<Longrightarrow> ended sid (engine_step is_match s e)"
  by (cases e) (auto simp: ended_def step_defs map_of_set_pump Let_def map_of_eq_None_iff image_iff
      split: option.splits list.splits eval_phase.splits prod.splits)


lemma ended_run: "ended sid s \<Longrightarrow> engine_run is_match es s = engine_run is_match (filter (\<lambda>e. \<not> about sid e) es) s"
proof (induction es arbitrary: s)
  case (Cons e es)
  then show ?case
    using ended_ignores [OF Cons.prems, of e is_match] ended_stays [OF Cons.prems, of is_match e]
    by (cases "about sid e") (simp_all add: engine_run_def)
qed (simp add: engine_run_def)

text \<open>A pattern without word boundaries that occurs in a text occurs in every longer one.\<close>

fun boundless :: "regex \<Rightarrow> bool" where
  "boundless Bound = False"
| "boundless (Seq r q) = (boundless r \<and> boundless q)"
| "boundless (Alt r q) = (boundless r \<and> boundless q)"
| "boundless _ = True"

lemma matches_boundless: "boundless r \<Longrightarrow> matches r p w a \<longleftrightarrow> matches r q w b"
proof (induction r arbitrary: p q w a b)
  case (Seq r1 r2)
  have "matches r1 p u (v @ a) \<and> matches r2 (last_of p u) v a \<longleftrightarrow> matches r1 q u (v @ b) \<and> matches r2 (last_of q u) v b"
    for u v
    using Seq.prems Seq.IH(1) [of p u "v @ a" q "v @ b"] Seq.IH(2) [of "last_of p u" v a "last_of q u" b] by simp
  then show ?case by simp
next
  case (Alt r1 r2)
  then show ?case using Alt.IH(1) [of p w a q b] Alt.IH(2) [of p w a q b] by (metis boundless.simps(3) matches.simps(6))
qed simp_all

lemma occurs_longer:
  assumes "boundless r" and "occurs r s" shows "occurs r (s @ m)"
proof -
  obtain b w a where "s = b @ w @ a" "matches r (last_of None b) w a" using assms(2) by (auto simp: occurs_def)
  then show ?thesis
    using matches_boundless [OF assms(1), of "last_of None b" w a "last_of None b" "a @ m"]
    unfolding occurs_def by (intro exI [of _ b] exI [of _ w] exI [of _ "a @ m"]) simp
qed

lemma boundless_cat: "boundless (cat rs) \<longleftrightarrow> list_all boundless rs"
  by (induction rs) (simp_all add: cat_def)

lemma boundless_failed: "boundless FAILED_PATTERN"
  by (simp add: FAILED_PATTERN_def boundless_cat plus_def cs_def ci_def opt_def)

section \<open>The properties\<close>


text \<open>The filter agrees with the log of what it let pass: after any interleaving, while the clock
  does not go back, it stops a suggestion of an event exactly where the same rule spoke for the same
  workarea less than a minute before, so nothing is silenced longer and nothing sooner.\<close>

theorem silent_only_within_a_minute:
  fixes is_match :: "regex \<Rightarrow> string \<Rightarrow> bool"
  assumes "sorted (emit_times es @ [now])" and "s = engine_run is_match es new_engine"
    and "cands = rule_candidates is_match wa now_ms notes uncommitted ev"
  shows "fst (emit_chips now cands s) =
    filter (\<lambda>c. \<not> (\<exists>(t, d)\<in>set (en_emitted s). chip_key d = chip_key c \<and> now < t + DEDUP_TTL)) cands"
proof -
  let ?b = "last (0 # emit_times es)"
  have "dedup_inv ?b (en_emitted s) (en_last_emit s)"
    using engine_run_dedup [OF new_engine_dedup] assms(1,2) by (simp add: sorted_append)
  moreover have "?b \<le> now" using assms(1) by (auto simp: sorted_append)
  ultimately have "kept_recently (retain_recent now (en_last_emit s)) now k \<longleftrightarrow> emitted_recently (en_emitted s) now k" for k
    unfolding dedup_inv_def using kept_retained [of now now] by blast
  moreover have "emitted_recently (en_emitted s) now (chip_key c)
    \<longleftrightarrow> (\<exists>(t, d)\<in>set (en_emitted s). chip_key d = chip_key c \<and> now < t + DEDUP_TTL)" for c
    by (force simp: emitted_recently_def recent_def DEDUP_TTL_def)
  ultimately show ?thesis
    using dedup_chips_filter [of cands now "retain_recent now (en_last_emit s)"] own_candidates [unfolded own_chips_def] assms(3)
    by (simp add: emit_chips_def case_prod_unfold)
qed

lemma whole_concat: "\<forall>m\<in>set ms. whole m \<Longrightarrow> whole (concat ms)"
proof (induction ms)
  case (Cons m ms)
  then show ?case using whole_append [of m "concat ms"] by simp
qed (simp add: whole_def)

text \<open>The buffer a workarea's messages are gathered in, cut at a character after each of them, is
  the longest tail of everything said that fits into 4096 bytes and begins with a whole character.\<close>

theorem message_buffer_is_longest_tail:
  assumes "\<forall>(t, ev)\<in>set evs. whole (message_of ev)"
  shows "wn_last_message_content (fold (\<lambda>(t, ev). note_event t ev) evs no_notes)
      = longest_tail (concat (map (message_of \<circ> snd) evs))
    \<and> length (longest_tail (concat (map (message_of \<circ> snd) evs))) \<le> MAX_MESSAGE_BUFFER"
proof -
  have "wn_last_message_content (fold (\<lambda>(t, ev). note_event t ev) evs n) = longest_tail (b @ concat (map (message_of \<circ> snd) evs))"
    if "wn_last_message_content n = longest_tail b" "whole b" for n b
    using assms that
  proof (induction evs arbitrary: n b)
    case (Cons e evs)
    obtain t ev where e: "e = (t, ev)" by (cases e)
    have whole_ev: "whole (message_of ev)" using Cons.prems(1) e by simp
    have b: "whole (b @ message_of ev)" using Cons.prems(3) whole_ev by (simp add: whole_append)
    have "wn_last_message_content (note_event t ev n) = longest_tail (b @ message_of ev)"
    proof (cases "\<exists>i r content. ev = EvMessage i r content")
      case True
      then show ?thesis using Cons.prems(2,3) whole_ev by (auto simp: note_event_message message_of_def longest_tail_append)
    next
      case False
      then have "message_of ev = []" "wn_last_message_content (note_event t ev n) = wn_last_message_content n"
        by (cases ev; simp add: message_of_def note_event_message)+
      then show ?thesis using Cons.prems(2) by simp
    qed
    then show ?case using Cons.IH [of "note_event t ev n" "b @ message_of ev"] Cons.prems(1) b e by simp
  qed simp
  from this [of no_notes "[]"] show ?thesis
    using longest_tail_suffix [of "concat (map (message_of \<circ> snd) evs)"] longest_tail_id [of "[]"]
    by (auto simp: no_notes_def whole_def)
qed

text \<open>The list of a workarea holds exactly the chips published for it in the last minute, higher
  priorities first and newer ones first among equal ones, and listing earlier loses none of them.\<close>

theorem listed_chips_are_the_recent_ones:
  assumes "now \<le> now'"
  shows "sorted_wrt (\<lambda>c d. ch_priority d < ch_priority c
        \<or> ch_priority c = ch_priority d \<and> ch_created_at d \<le> ch_created_at c) (fst (list_for_workarea wa now s))
    \<and> mset (fst (list_for_workarea wa now s)) = mset (map fst (filter (\<lambda>(c, at). now < at + CHIP_RETENTION) (en_chips s wa)))
    \<and> fst (list_for_workarea wa now' (snd (list_for_workarea v now s))) = fst (list_for_workarea wa now' s)"
proof -
  have flt: "(\<lambda>(c, at). now - at < CHIP_RETENTION) = (\<lambda>(c, at). now < at + CHIP_RETENTION)"
    by (force simp: CHIP_RETENTION_def DEDUP_TTL_def)
  have "filter (\<lambda>(c, at). now' - at < CHIP_RETENTION) (filter (\<lambda>(c, at). now - at < CHIP_RETENTION) xs)
    = filter (\<lambda>(c, at). now' - at < CHIP_RETENTION) xs" for xs :: "(suggestion \<times> nat) list"
    using assms by (auto intro: filter_cong)
  then show ?thesis
    using sort_key_two [of "\<lambda>c. - ch_priority c" "\<lambda>c. - ch_created_at c"]
    by (cases "wa = v") (simp_all add: list_for_workarea_def Let_def flt)
qed

text \<open>A session whose channel reported an error, be it only that the task lagged behind, is never
  heard again: its events, and attempts to attach it, have no effect on any suggestion from then on.\<close>

theorem lagged_session_is_silent:
  fixes is_match :: "regex \<Rightarrow> string \<Rightarrow> bool"
  assumes "s = engine_run is_match es new_engine" and "map_of (en_pumps s) sid = Some p"
    and "pm_phase p = Waiting" and "pm_replay p = []"
  shows "engine_run is_match later (engine_step is_match s (EvChannelError sid))
    = engine_run is_match (filter (\<lambda>e. \<not> about sid e) later) (engine_step is_match s (EvChannelError sid))"
proof (rule ended_run)
  have "engine_ok s" using engine_run_ok [OF new_engine_ok] assms(1) by simp
  moreover have "sid \<in> fst ` set (en_pumps s)" using map_of_SomeD [OF assms(2)] by (rule image_eqI [rotated]) simp
  ultimately have "sid \<in> set (en_attached s)" unfolding engine_ok_def by blast
  moreover have "map_of (filter (\<lambda>(i, q). i \<noteq> sid) (en_pumps s)) sid = None" by (auto simp: map_of_eq_None_iff)
  ultimately show "ended sid (engine_step is_match s (EvChannelError sid))"
    using assms(2-4) by (simp add: ended_def channel_error_def)
qed

text \<open>A report of failed tests is held against later messages: while it is still in the buffer,
  any further message of the workarea, whatever it says, suggests to investigate the failure again
  once a minute has passed.\<close>

theorem old_failure_suggests_again:
  assumes "regex_engine is_match" and "wn_last_message_content (en_notes s wa) = b" and "ascii (b @ m)"
    and "occurs FAILED_PATTERN b" and "length (b @ m) \<le> MAX_MESSAGE_BUFFER"
    and "case en_last_emit s (wa, ''tests_failed'') of Some t \<Rightarrow> t + DEDUP_TTL \<le> now | None \<Rightarrow> True"
  shows "map ch_rule_id (fst (evaluate_event is_match wa now now_ms uncommitted (EvMessage sid role m) s)) = [''tests_failed'']"
proof -
  have tail: "trim_message_buffer (b @ m) = b @ m" using assms(5) by (simp add: trim_message_buffer_def)
  have "occurs FAILED_PATTERN (b @ m)" by (rule occurs_longer [OF boundless_failed assms(4)])
  then have found: "is_match FAILED_PATTERN (b @ m)" using regex_engine.documented [OF assms(1,3)] by simp
  have "\<not> kept_recently (en_last_emit s) now (wa, ''tests_failed'')"
    using assms(6) by (auto simp: kept_recently_def recent_def)
  then show ?thesis
    using found assms(2) tail
    by (simp add: evaluate_event_def update_state_def rule_candidates_def builtin_rules_def rule_defs map_filter_def COMMIT_RULE_def
        emit_chips_def kept_retained_Some chip_key_def case_prod_unfold)
qed

section \<open>Concrete runs\<close>

text \<open>A session that crashes, crashes again within the minute and once more after it.\<close>

definition sample_engine_run :: "engine_event list" where
  "sample_engine_run =
     (let turn = (\<lambda>t. [EvNote ''s1'' 5, EvJudge ''s1'' 5 False, EvEmit ''s1'' t, EvPublish ''s1'' t])
      in EvAttach ''w1'' ''s1'' (Some [EvCrashed ''s1'', EvCrashed ''s1'', EvCrashed ''s1''])
           # turn 0 @ turn 7 @ turn DEDUP_TTL)"

definition resume_chip :: suggestion where
  "resume_chip = \<lparr>ch_rule_id = ''agent_crashed'', ch_workarea_id = ''w1'', ch_title = ''Resume agent'',
     ch_priority = 100, ch_created_at = 5, ch_action = ResumeAgent\<rparr>"

definition sample_engine :: suggestion_engine where
  "sample_engine = engine_run search sample_engine_run new_engine"

lemma sample_candidates: "rule_candidates is_match ''w1'' 5 n False (EvCrashed sid) = [resume_chip]"
  by (simp add: rule_candidates_def builtin_rules_def rule_defs map_filter_def COMMIT_RULE_def resume_chip_def)

lemma sample_engine_fields:
  "en_emitted sample_engine = [(0, resume_chip), (DEDUP_TTL, resume_chip)]"
  "en_pumps sample_engine = [(''s1'', \<lparr>pm_workarea = ''w1'', pm_replay = [], pm_channel = [], pm_phase = Waiting\<rparr>)]"
  "en_chips sample_engine ''w1'' = [(resume_chip, 0), (resume_chip, DEDUP_TTL)]"
  by (simp_all add: sample_engine_def sample_engine_run_def engine_run_def new_engine_def step_defs sample_candidates
      retain_recent_def recent_def DEDUP_TTL_def Let_def)


lemma sample_times: "emit_times sample_engine_run = [0, 7, DEDUP_TTL]"
  by (simp add: sample_engine_run_def Let_def)


theorem silent_only_within_a_minute_witness:
  "fst (emit_chips (DEDUP_TTL + 5) [resume_chip] sample_engine) = []
   \<and> fst (emit_chips (DEDUP_TTL + DEDUP_TTL) [resume_chip] sample_engine) = [resume_chip]"
proof -
  have one: "fst (emit_chips now [resume_chip] sample_engine) =
      filter (\<lambda>c. \<not> (\<exists>(t, d)\<in>set (en_emitted sample_engine). chip_key d = chip_key c \<and> now < t + DEDUP_TTL)) [resume_chip]"
    if "DEDUP_TTL \<le> now" for now
    by (rule silent_only_within_a_minute [OF _ sample_engine_def sample_candidates [symmetric]])
      (use that in \<open>simp add: sample_times DEDUP_TTL_def\<close>)
  show ?thesis by (simp add: one sample_engine_fields(1)) (simp add: DEDUP_TTL_def)
qed

theorem message_buffer_is_longest_tail_witness:
  "wn_last_message_content (fold (\<lambda>(t, ev). note_event t ev)
     [(0, EvMessage ''s1'' ''assistant'' ''3 tests ''), (1, EvTurnComplete ''s1''), (2, EvMessage ''s1'' ''assistant'' ''failed'')]
     no_notes) = ''3 tests failed''"
proof -
  let ?evs = "[(0 :: int, EvMessage ''s1'' ''assistant'' ''3 tests ''), (1, EvTurnComplete ''s1''),
    (2, EvMessage ''s1'' ''assistant'' ''failed'')]"
  have "\<forall>(t, ev)\<in>set ?evs. whole (message_of ev)" by (simp add: whole_def message_of_def continuation_def)
  from message_buffer_is_longest_tail [OF this]
  show ?thesis by (simp add: message_of_def longest_tail_id MAX_MESSAGE_BUFFER_def)
qed

theorem listed_chips_are_the_recent_ones_witness:
  "mset (fst (list_for_workarea ''w1'' (DEDUP_TTL + 5) sample_engine)) = {#resume_chip#}"
proof -
  have "5 < DEDUP_TTL" by (simp add: DEDUP_TTL_def)
  then show ?thesis
    using listed_chips_are_the_recent_ones [of "DEDUP_TTL + 5" "DEDUP_TTL + 5" "''w1''" sample_engine]
    by (simp add: sample_engine_fields(3) CHIP_RETENTION_def)
qed

theorem lagged_session_is_silent_witness:
  "engine_run search [EvAttach ''w1'' ''s1'' (Some []), EvDeliver ''s1'' (EvCrashed ''s1''), EvNote ''s1'' 9]
     (engine_step search sample_engine (EvChannelError ''s1'')) = engine_step search sample_engine (EvChannelError ''s1'')"
proof -
  let ?later = "[EvAttach ''w1'' ''s1'' (Some []), EvDeliver ''s1'' (EvCrashed ''s1''), EvNote ''s1'' 9]"
  have "map_of (en_pumps sample_engine) ''s1'' = Some \<lparr>pm_workarea = ''w1'', pm_replay = [], pm_channel = [], pm_phase = Waiting\<rparr>"
    by (simp add: sample_engine_fields(2))
  from lagged_session_is_silent [OF sample_engine_def this, of ?later]
  show ?thesis by (simp add: about_def) (simp add: engine_run_def)
qed

theorem old_failure_suggests_again_witness:
  "map ch_rule_id (fst (evaluate_event search ''w1'' 0 5 False (EvMessage ''s1'' ''assistant'' '' all fixed'')
     (new_engine\<lparr>en_notes := (\<lambda>_. no_notes\<lparr>wn_last_message_content := ''3 tests failed''\<rparr>)\<rparr>))) = [''tests_failed'']"
proof -
  let ?s = "new_engine\<lparr>en_notes := (\<lambda>_. no_notes\<lparr>wn_last_message_content := ''3 tests failed''\<rparr>)\<rparr>"
  have "ascii ''3 tests failed all fixed''" by (simp add: ascii_def)
  moreover have "search FAILED_PATTERN ''3 tests failed''" by code_simp
  then have "occurs FAILED_PATTERN ''3 tests failed''"
    using search.documented [of "''3 tests failed''" FAILED_PATTERN] by (simp add: ascii_def)
  ultimately show ?thesis
    by (intro old_failure_suggests_again [OF search.regex_engine_axioms, of _ _ "''3 tests failed''"])
      (simp_all add: new_engine_def MAX_MESSAGE_BUFFER_def)
qed

end
