(* ===== verification/WorkareaFsm.thy ===== *)
theory WorkareaFsm
  imports Approval
begin

text \<open>
  The workarea state machine: \<open>workspace_manager/fsm.rs\<close>, and the operations of \<open>workarea.rs\<close>
  that drive it: \<open>transition_workarea\<close>, \<open>apply_session_event\<close> (which maps a session's events
  to the machine's), \<open>pause_workarea\<close> and \<open>resume_workarea\<close>.
\<close>

section \<open>The pure machine\<close>

datatype workarea_state =
  Created | Active | Running | Awaiting | Paused | Finished | Partial | Crashed | Archived

fun as_sql :: "workarea_state \<Rightarrow> string" where
  "as_sql Created = ''created''"
| "as_sql Active = ''active''"
| "as_sql Running = ''running''"
| "as_sql Awaiting = ''awaiting''"
| "as_sql Paused = ''paused''"
| "as_sql Finished = ''finished''"
| "as_sql Partial = ''partial''"
| "as_sql Crashed = ''crashed''"
| "as_sql Archived = ''archived''"

definition from_sql :: "string \<Rightarrow> workarea_state option" where
  "from_sql s =
     (if s = ''created'' then Some Created
      else if s = ''active'' then Some Active
      else if s = ''running'' then Some Running
      else if s = ''awaiting'' then Some Awaiting
      else if s = ''paused'' then Some Paused
      else if s = ''finished'' then Some Finished
      else if s = ''partial'' then Some Partial
      else if s = ''crashed'' then Some Crashed
      else if s = ''archived'' then Some Archived
      else None)"

datatype workarea_event =
    SessionStarted | SessionAwaiting | SessionResumed | SessionFinished | SessionCrashed
  | Pause | Resume | Archive | Restore | AdoptCrashed

text \<open>The \<open>Debug\<close> forms in the message of a rejection.\<close>

fun debug_state :: "workarea_state \<Rightarrow> string" where
  "debug_state Created = ''Created''"
| "debug_state Active = ''Active''"
| "debug_state Running = ''Running''"
| "debug_state Awaiting = ''Awaiting''"
| "debug_state Paused = ''Paused''"
| "debug_state Finished = ''Finished''"
| "debug_state Partial = ''Partial''"
| "debug_state Crashed = ''Crashed''"
| "debug_state Archived = ''Archived''"

fun debug_event :: "workarea_event \<Rightarrow> string" where
  "debug_event SessionStarted = ''SessionStarted''"
| "debug_event SessionAwaiting = ''SessionAwaiting''"
| "debug_event SessionResumed = ''SessionResumed''"
| "debug_event SessionFinished = ''SessionFinished''"
| "debug_event SessionCrashed = ''SessionCrashed''"
| "debug_event Pause = ''Pause''"
| "debug_event Resume = ''Resume''"
| "debug_event Archive = ''Archive''"
| "debug_event Restore = ''Restore''"
| "debug_event AdoptCrashed = ''AdoptCrashed''"

definition INVALID_TRANSITION_WIRE_CODE :: string where
  "INVALID_TRANSITION_WIRE_CODE = ''workarea.fsm.invalid_transition''"

definition invalid_transition :: "workarea_state \<Rightarrow> workarea_event \<Rightarrow> string" where
  "invalid_transition state event = INVALID_TRANSITION_WIRE_CODE @ '': cannot apply ''
     @ debug_event event @ '' from '' @ debug_state state"

definition transition :: "workarea_state \<Rightarrow> workarea_event \<Rightarrow> workarea_state result" where
  "transition state event =
     (case (state, event) of
        (Active, SessionStarted) \<Rightarrow> Inr Running
      | (Active, Pause) \<Rightarrow> Inr Paused
      | (Active, Archive) \<Rightarrow> Inr Archived
      | (Active, AdoptCrashed) \<Rightarrow> Inr Crashed
      | (Running, SessionAwaiting) \<Rightarrow> Inr Awaiting
      | (Running, SessionFinished) \<Rightarrow> Inr Finished
      | (Running, SessionCrashed) \<Rightarrow> Inr Crashed
      | (Running, Pause) \<Rightarrow> Inr Paused
      | (Running, Archive) \<Rightarrow> Inr Archived
      | (Running, AdoptCrashed) \<Rightarrow> Inr Crashed
      | (Awaiting, SessionResumed) \<Rightarrow> Inr Running
      | (Awaiting, SessionFinished) \<Rightarrow> Inr Finished
      | (Awaiting, SessionCrashed) \<Rightarrow> Inr Crashed
      | (Awaiting, Pause) \<Rightarrow> Inr Paused
      | (Awaiting, Archive) \<Rightarrow> Inr Archived
      | (Awaiting, AdoptCrashed) \<Rightarrow> Inr Crashed
      | (Paused, Resume) \<Rightarrow> Inr Active
      | (Paused, Archive) \<Rightarrow> Inr Archived
      | (Paused, AdoptCrashed) \<Rightarrow> Inr Crashed
      | (Finished, SessionStarted) \<Rightarrow> Inr Running
      | (Finished, Archive) \<Rightarrow> Inr Archived
      | (Finished, AdoptCrashed) \<Rightarrow> Inr Crashed
      | (Partial, SessionStarted) \<Rightarrow> Inr Running
      | (Partial, SessionResumed) \<Rightarrow> Inr Active
      | (Partial, Archive) \<Rightarrow> Inr Archived
      | (Partial, AdoptCrashed) \<Rightarrow> Inr Crashed
      | (Crashed, SessionStarted) \<Rightarrow> Inr Running
      | (Crashed, Archive) \<Rightarrow> Inr Archived
      | (Created, Archive) \<Rightarrow> Inr Archived
      | (Archived, Restore) \<Rightarrow> Inr Active
      | (Archived, Archive) \<Rightarrow> Inr Archived
      | _ \<Rightarrow> Inl (Validation (invalid_transition state event)))"

definition is_allowed :: "workarea_state \<Rightarrow> workarea_event \<Rightarrow> bool" where
  "is_allowed state event = is_ok (transition state event)"

section \<open>The stored machine\<close>

record workarea_store =
  st_db :: database
  st_broadcast :: "(string \<times> string \<times> string) list"

definition transition_workarea :: "string \<Rightarrow> workarea_event \<Rightarrow> workarea_store \<Rightarrow> workarea_row result \<times> workarea_store" where
  "transition_workarea wid event st =
     (case workareas_get (st_db st) wid of
        None \<Rightarrow> (Inl (NotFound (''workarea '' @ wid @ '' not found'')), st)
      | Some workarea \<Rightarrow>
          (case from_sql (wa_status workarea) of
             None \<Rightarrow> (Inl (Internal (''workarea '' @ wid @ '' has an unrecognized status ''
                        @ debug_str (wa_status workarea) @ '' in the DB'')), st)
           | Some from \<Rightarrow>
               (case transition from event of
                  Inl (Validation msg) \<Rightarrow>
                    (if starts_with_str msg INVALID_TRANSITION_WIRE_CODE then (Inl (Policy msg), st)
                     else (Inl (Validation msg), st))
                | Inl e \<Rightarrow> (Inl e, st)
                | Inr to \<Rightarrow>
                    (let db' = workareas_update_status wid (as_sql to) (st_db st);
                         st' = st\<lparr>st_db := db', st_broadcast := st_broadcast st @ [(wid, as_sql from, as_sql to)]\<rparr>
                     in (ok_or (Internal (''workarea '' @ wid @ '' vanished mid-transition'')) (workareas_get db' wid), st')))))"

text \<open>Which machine event a session event stands for; an exit counts once no session is live.\<close>

definition fsm_event_of :: "database \<Rightarrow> string \<Rightarrow> agent_event \<Rightarrow> workarea_event option" where
  "fsm_event_of db wid ev =
     (case ev of
        EvStarted _ \<Rightarrow> Some SessionStarted
      | EvAwaitingApproval _ _ _ _ _ _ _ \<Rightarrow> Some SessionAwaiting
      | EvApprovalResolved _ _ _ _ \<Rightarrow> Some SessionResumed
      | EvCrashed _ \<Rightarrow> Some SessionCrashed
      | EvExited _ _ _ \<Rightarrow> (if list_live_ids_by_workarea db wid = [] then Some SessionFinished else None)
      | _ \<Rightarrow> None)"

definition apply_session_event :: "string \<Rightarrow> agent_event \<Rightarrow> workarea_store \<Rightarrow> workarea_store" where
  "apply_session_event wid ev st =
     (case fsm_event_of (st_db st) wid ev of
        None \<Rightarrow> st
      | Some e \<Rightarrow> snd (transition_workarea wid e st))"

text \<open>\<open>stop\<close>: what the supervisor's \<open>stop_session\<close> does to the database, errors included.\<close>

definition stop_live_sessions :: "(string \<Rightarrow> database \<Rightarrow> database) \<Rightarrow> string \<Rightarrow> workarea_store \<Rightarrow> workarea_store" where
  "stop_live_sessions stop wid st =
     st\<lparr>st_db := fold stop (list_live_ids_by_workarea (st_db st) wid) (st_db st)\<rparr>"

definition pause_workarea ::
  "(string \<Rightarrow> database \<Rightarrow> database) \<Rightarrow> string \<Rightarrow> workarea_store \<Rightarrow> workarea_row result \<times> workarea_store" where
  "pause_workarea stop wid st =
     (if workareas_get (st_db st) wid = None then (Inl (NotFound (''workarea '' @ wid @ '' not found'')), st)
      else transition_workarea wid Pause (stop_live_sessions stop wid st))"

definition resume_workarea :: "string \<Rightarrow> workarea_store \<Rightarrow> workarea_row result \<times> workarea_store" where
  "resume_workarea wid st = transition_workarea wid Resume st"

section \<open>Lemmas\<close>

lemma from_as_sql [simp]: "from_sql (as_sql s) = Some s"
  by (cases s) (simp_all add: from_sql_def)

lemma from_sql_Some_iff: "from_sql t = Some s \<longleftrightarrow> t = as_sql s"
  by (cases s) (auto simp: from_sql_def split: if_splits)

lemma transition_Inl: "transition s e = Inl err \<Longrightarrow> err = Validation (invalid_transition s e)"
  by (cases s; cases e) (auto simp: transition_def)

lemma transition_target: "transition s e = Inr s' \<Longrightarrow> s' \<notin> {Created, Partial}"
  by (cases s; cases e) (auto simp: transition_def)

text \<open>The machine as its subscribers see it: a rejected event leaves the state.\<close>

definition fsm_step :: "workarea_state \<Rightarrow> workarea_event \<Rightarrow> workarea_state" where
  "fsm_step s e = unwrap_or s (transition s e)"

interpretation fsm: event_machine fsm_step "\<lambda>s. s \<notin> {Created, Partial}"
proof
  fix s e
  assume "s \<notin> {Created, Partial}"
  then show "fsm_step s e \<notin> {Created, Partial}"
    using transition_target by (cases "transition s e") (auto simp: fsm_step_def)
qed

lemma transition_workarea_cases:
  assumes "workareas_get (st_db st) wid = Some w" and "wa_status w = as_sql s"
  shows "transition_workarea wid e st =
    (case transition s e of
       Inl _ \<Rightarrow> (Inl (Policy (invalid_transition s e)), st)
     | Inr s' \<Rightarrow> (Inr (w\<lparr>wa_status := as_sql s'\<rparr>),
         st\<lparr>st_db := workareas_update_status wid (as_sql s') (st_db st),
            st_broadcast := st_broadcast st @ [(wid, as_sql s, as_sql s')]\<rparr>))"
proof (cases "transition s e")
  case (Inl err)
  with transition_Inl [OF Inl] assms show ?thesis
    by (simp add: transition_workarea_def invalid_transition_def)
next
  case (Inr s')
  with assms show ?thesis by (simp add: transition_workarea_def Let_def workareas_get_update_status)
qed

lemma transition_workarea_status:
  assumes "workareas_get (st_db st) wid = Some w" and "wa_status w = as_sql s"
  shows "map_option wa_status (workareas_get (st_db (snd (transition_workarea wid e st))) wid)
     = Some (as_sql (fsm_step s e))"
  using assms transition_workarea_cases [OF assms, of e]
  by (auto simp: fsm_step_def workareas_get_update_status split: sum.splits)

section \<open>Properties\<close>

text \<open>the shape of the state graph. Every state can be archived and archiving twice is archiving
  once; an archived workarea leaves only by a restore, to active; a created one leaves only by an
  archive; once archived, no sequence of events, rejected ones included, makes it created or
  partial again.\<close>

theorem fsm_graph:
  "transition s Archive = Inr Archived
   \<and> (transition Archived e = Inr s' \<longleftrightarrow> (e = Restore \<and> s' = Active) \<or> (e = Archive \<and> s' = Archived))
   \<and> (transition Created e = Inr s' \<longleftrightarrow> e = Archive \<and> s' = Archived)
   \<and> fold (\<lambda>e t. fsm_step t e) (Archive # es) s \<notin> {Created, Partial}"
proof (intro conjI)
  show a: "transition s Archive = Inr Archived" by (cases s) (simp_all add: transition_def)
  show "transition Archived e = Inr s' \<longleftrightarrow> (e = Restore \<and> s' = Active) \<or> (e = Archive \<and> s' = Archived)"
    by (cases e) (auto simp: transition_def)
  show "transition Created e = Inr s' \<longleftrightarrow> e = Archive \<and> s' = Archived" by (cases e) (auto simp: transition_def)
  have "fold (\<lambda>e t. fsm_step t e) es (fsm_step s Archive) \<notin> {Created, Partial}"
    by (rule fsm.run_inv) (simp add: fsm_step_def a)
  then show "fold (\<lambda>e t. fsm_step t e) (Archive # es) s \<notin> {Created, Partial}" by simp
qed

text \<open>C9: a stored transition is the machine's transition. For a workarea whose row holds a state, an
  admitted event stores the next state, broadcasts the pair and returns the updated row; a rejected
  one returns the typed precondition error with the machine's message and changes nothing. Other
  workareas keep their rows either way.\<close>

theorem transition_workarea_refines_fsm:
  assumes "workareas_get (st_db st) wid = Some w" and "wa_status w = as_sql s"
  shows "let (r, st') = transition_workarea wid e st in
     map_option wa_status (workareas_get (st_db st') wid) = Some (as_sql (fsm_step s e))
     \<and> (\<forall>v. v \<noteq> wid \<longrightarrow> workareas_get (st_db st') v = workareas_get (st_db st) v)
     \<and> (if is_allowed s e
        then r = Inr (w\<lparr>wa_status := as_sql (fsm_step s e)\<rparr>)
          \<and> st_broadcast st' = st_broadcast st @ [(wid, as_sql s, as_sql (fsm_step s e))]
        else r = Inl (Policy (invalid_transition s e)) \<and> st' = st)"
  using assms transition_workarea_cases [OF assms, of e]
  by (auto simp: fsm_step_def is_allowed_def workareas_get_update_status split: sum.splits)

definition sample_store :: workarea_store where
  "sample_store =
     \<lparr>st_db = \<lparr>db_sessions =
        [(''a'', \<lparr>s_workarea_id = ''w'', s_status = ''awaiting'', s_permission_mode = None, s_bypass = 0,
           s_ended_at = None, s_last_acked_seq = 0\<rparr>),
         (''b'', \<lparr>s_workarea_id = ''w'', s_status = ''running'', s_permission_mode = None, s_bypass = 0,
           s_ended_at = None, s_last_acked_seq = 0\<rparr>)],
        db_workareas = [(''w'', \<lparr>wa_workspace_id = ''p'', wa_worktree_root = ''/w'', wa_status = ''awaiting'',
           wa_permission_mode = None, wa_bypass = None, wa_archived_at = None,
        wa_composer_name = ''bach'', wa_branch_name = ''concerto/bach'', wa_settings_json = ''{}''\<rparr>)],
        db_workspaces = [], db_repositories = [], db_workarea_repos = [],
      db_workspace_repos = []\<rparr>,
      st_broadcast = []\<rparr>"

theorem transition_workarea_refines_fsm_witness:
  "map_option wa_status (workareas_get (st_db (snd (transition_workarea ''w'' Pause sample_store))) ''w'') = Some ''paused''"
  using transition_workarea_refines_fsm [of sample_store "''w''" _ Awaiting Pause]
  by (simp add: sample_store_def workareas_get_def fsm_step_def transition_def case_prod_beta)

text \<open>a workarea finishes only with its last session. If a session's event turns the stored
  status to finished, the event was an exit and no session of the workarea is live: an exit among
  live siblings changes nothing.\<close>

theorem finished_only_when_no_session_live:
  assumes "workareas_get (st_db st) wid = Some w" and "wa_status w = as_sql s" and "s \<noteq> Finished"
    and "map_option wa_status (workareas_get (st_db (apply_session_event wid ev st)) wid) = Some ''finished''"
  shows "list_live_ids_by_workarea (st_db st) wid = [] \<and> (\<exists>sid code sig. ev = EvExited sid code sig)"
proof (cases "fsm_event_of (st_db st) wid ev")
  case None
  with assms have "s = Finished"
    using from_sql_Some_iff [of "''finished''" s] by (simp add: apply_session_event_def from_sql_def)
  with assms(3) show ?thesis by simp
next
  case (Some e)
  obtain r st' where t: "transition_workarea wid e st = (r, st')" by fastforce
  have "as_sql (fsm_step s e) = ''finished''"
    using transition_workarea_status [OF assms(1,2), of e] assms(4) Some t by (auto simp: apply_session_event_def)
  then have "fsm_step s e = Finished" by (cases "fsm_step s e") auto
  with assms(3) have "e = SessionFinished" by (cases s; cases e) (auto simp: fsm_step_def transition_def)
  with Some show ?thesis by (auto simp: fsm_event_of_def split: agent_event.splits if_splits)
qed

definition ended_store :: workarea_store where
  "ended_store = sample_store\<lparr>st_db := sessions_mark_ended ''b'' 9 (sessions_mark_ended ''a'' 8 (st_db sample_store))\<rparr>"

theorem finished_only_when_no_session_live_witness:
  "list_live_ids_by_workarea (st_db ended_store) ''w'' = []"
  using finished_only_when_no_session_live [of ended_store "''w''" _ Awaiting "EvExited ''b'' (Some 0) None"]
  by (simp add: ended_store_def sample_store_def sessions_mark_ended_def sql_update_def workareas_get_def
      apply_session_event_def fsm_event_of_def list_live_ids_by_workarea_def transition_workarea_def
      transition_def from_sql_def workareas_update_status_def Let_def)

text \<open>the status is not the union of the sessions' states. An approval resolved in any session
  moves an awaiting workarea to running, whichever session the workarea was waiting on: the event
  names a session, but neither it nor the other sessions' states are looked at.\<close>

theorem awaiting_cleared_by_any_session:
  assumes "workareas_get (st_db st) wid = Some w" and "wa_status w = ''awaiting''"
  shows "map_option wa_status (workareas_get (st_db (apply_session_event wid
           (EvApprovalResolved sid aid tool decision) st)) wid) = Some ''running''"
proof -
  obtain r st' where t: "transition_workarea wid SessionResumed st = (r, st')" by fastforce
  show ?thesis
    using transition_workarea_status [OF assms(1), of Awaiting SessionResumed] assms(2) t
    by (auto simp: apply_session_event_def fsm_event_of_def fsm_step_def transition_def)
qed

theorem awaiting_cleared_by_any_session_witness:
  "map_option s_status (sessions_get (st_db sample_store) ''a'') = Some ''awaiting''
   \<and> map_option wa_status (workareas_get (st_db (apply_session_event ''w''
        (EvApprovalResolved ''b'' ''x'' ''Read'' ''auto_normal'') sample_store)) ''w'') = Some ''running''"
  using awaiting_cleared_by_any_session [of sample_store "''w''" _ "''b''" "''x''" "''Read''" "''auto_normal''"]
  by (simp add: sample_store_def workareas_get_def sessions_get_def)

end
