(* ===== verification/Routing.thy ===== *)
theory Routing
  imports WorkareaFsm PathPolicy
begin

text \<open>
  Routing of a line typed to the Maestro (\<open>maestro/routing.rs\<close>): the parser of \<open>@\<close>-targets and
  \<open>/\<close>-directives, the resolution of targets to live sessions over the rows of one workspace, and the
  dispatch of the text. The read side follows the live reader: the workareas of a workspace by composer
  name (\<open>persist/src/workareas.rs\<close>) and the sessions of a workarea, newest first
  (\<open>persist/src/sessions.rs\<close>); whitespace is that of ASCII. The agent supervisor's \<open>send_input\<close>
  is the argument \<open>send_input\<close>; a failing read is an argument of the operation that branches on it.
\<close>

section \<open>The grammar\<close>

datatype routing_target =
    WorkareaTarget string
  | SessionTarget string string
  | AllTarget
  | IdleTarget
  | BlockedTarget

datatype slash_directive = DigestDirective | PauseDirective | NewDirective

datatype parse_outcome =
    Freeform string
  | RouteTo "routing_target list" string
  | Slash slash_directive string

definition trim_start :: "string \<Rightarrow> string" where
  "trim_start s = dropWhile is_space s"

definition split_first_token :: "string \<Rightarrow> string \<times> string" where
  "split_first_token s = (takeWhile (\<lambda>c. \<not> is_space c) s, trim_start (dropWhile (\<lambda>c. \<not> is_space c) s))"

definition parse_slash :: "string \<Rightarrow> (slash_directive \<times> string) option" where
  "parse_slash input =
     (case strip_prefix input ''/'' of
        None \<Rightarrow> None
      | Some rest \<Rightarrow>
          (let (token, body) = split_first_token rest; t = to_ascii_lowercase token
           in if t = ''digest'' then Some (DigestDirective, body)
              else if t = ''pause'' then Some (PauseDirective, body)
              else if t = ''new'' then Some (NewDirective, body)
              else None))"

definition parse_one_target :: "string \<Rightarrow> routing_target option" where
  "parse_one_target inner =
     (let low = to_ascii_lowercase inner
      in if low = ''all'' then Some AllTarget
         else if low = ''idle'' then Some IdleTarget
         else if low = ''blocked'' then Some BlockedTarget
         else if CHR ''/'' \<in> set inner
         then (let composer = takeWhile (\<lambda>c. c \<noteq> CHR ''/'') inner;
                   agent_kind = tl (dropWhile (\<lambda>c. c \<noteq> CHR ''/'') inner)
               in if composer = [] \<or> agent_kind = [] then None
                  else Some (SessionTarget composer (to_ascii_lowercase agent_kind)))
         else Some (WorkareaTarget inner))"

definition parse_spec :: "string \<Rightarrow> routing_target option" where
  "parse_spec spec =
     (case strip_prefix (trim spec) ''@'' of
        None \<Rightarrow> None
      | Some inner \<Rightarrow> if inner = [] then None else parse_one_target inner)"

definition parse_at :: "string \<Rightarrow> (routing_target list \<times> string) option" where
  "parse_at input =
     (if starts_with_str input ''@''
      then (let (target_run, body) = split_first_token input
            in map_option (\<lambda>ts. (ts, body)) (those (map parse_spec (split_on CHR '','' target_run))))
      else None)"

definition pre_parse :: "string \<Rightarrow> parse_outcome" where
  "pre_parse input =
     (let trimmed = trim_start input
      in case parse_slash trimmed of
           Some (directive, body) \<Rightarrow> Slash directive body
         | None \<Rightarrow>
             (case parse_at trimmed of
                Some (targets, body) \<Rightarrow> RouteTo targets body
              | None \<Rightarrow> Freeform input))"

section \<open>The read side\<close>

text \<open>The columns of a session row that routing reads.\<close>

record session_listing =
  sl_workarea_id :: string
  sl_chat_id :: "string option"
  sl_agent_kind :: string
  sl_started_at :: int
  sl_ended_at :: "int option"
  sl_status :: string

definition list_by_workspace :: "workarea_row table \<Rightarrow> string \<Rightarrow> (string \<times> workarea_row) list" where
  "list_by_workspace was ws =
     sort_by_key (\<lambda>(i, w). str_key (wa_composer_name w))
       (filter (\<lambda>(i, w). wa_workspace_id w = ws \<and> i \<noteq> MAESTRO_SYSTEM_WORKAREA_ID \<and> wa_archived_at w = None) was)"

definition sessions_by_workarea :: "session_listing table \<Rightarrow> string \<Rightarrow> (string \<times> session_listing) list" where
  "sessions_by_workarea sessions wa =
     sort_key (\<lambda>(i, s). - sl_started_at s) (filter (\<lambda>(i, s). sl_workarea_id s = wa) sessions)"

section \<open>Resolution\<close>

record resolved_route =
  rr_workarea_id :: string
  rr_session_id :: string
  rr_composer :: string
  rr_agent_kind :: string

datatype routing_error =
    NoSuchWorkarea string "string list"
  | NoActiveAgent string
  | NoMatchingSession string string
  | EmptyDynamicSet string

definition eq_ignore_ascii_case :: "string \<Rightarrow> string \<Rightarrow> bool" where
  "eq_ignore_ascii_case a b \<longleftrightarrow> to_ascii_lowercase a = to_ascii_lowercase b"

definition find_workarea :: "(string \<times> workarea_row) list \<Rightarrow> string \<Rightarrow> routing_error + (string \<times> workarea_row)" where
  "find_workarea was composer =
     (case find (\<lambda>(i, w). eq_ignore_ascii_case (wa_composer_name w) composer) was of
        None \<Rightarrow> Inl (NoSuchWorkarea composer (map (\<lambda>(i, w). wa_composer_name w) was))
      | Some wa \<Rightarrow> Inr wa)"

definition is_live_session :: "session_listing \<Rightarrow> bool" where
  "is_live_session s \<longleftrightarrow> sl_ended_at s = None \<and> sl_status s \<notin> {''finished'', ''crashed''}"

definition is_idle_status :: "string \<Rightarrow> string \<Rightarrow> bool" where
  "is_idle_status workarea_status session_status \<longleftrightarrow>
     workarea_status \<in> {''paused'', ''idle'', ''awaiting''} \<or> session_status \<in> {''awaiting'', ''idle''}"

definition is_blocked_workarea_status :: "string \<Rightarrow> bool" where
  "is_blocked_workarea_status st \<longleftrightarrow> st \<in> {''awaiting_approval'', ''test_failure'', ''merge_conflict'', ''blocked''}"

definition make_route :: "string \<times> workarea_row \<Rightarrow> string \<times> session_listing \<Rightarrow> resolved_route" where
  "make_route wa s = \<lparr>rr_workarea_id = fst wa, rr_session_id = fst s, rr_composer = wa_composer_name (snd wa),
     rr_agent_kind = sl_agent_kind (snd s)\<rparr>"

text \<open>A failed read of the sessions counts as no session; \<open>sessions\<close> is what the read gives.\<close>

definition resolve_workarea ::
  "(string \<Rightarrow> (string \<times> session_listing) list) \<Rightarrow> (string \<times> workarea_row) list \<Rightarrow> string \<Rightarrow> routing_error + resolved_route" where
  "resolve_workarea sessions was composer =
     (case find_workarea was composer of
        Inl e \<Rightarrow> Inl e
      | Inr wa \<Rightarrow>
          (case find (\<lambda>s. is_live_session (snd s)) (sessions (fst wa)) of
             None \<Rightarrow> Inl (NoActiveAgent (wa_composer_name (snd wa)))
           | Some s \<Rightarrow> Inr (make_route wa s)))"

definition resolve_session ::
  "(string \<Rightarrow> (string \<times> session_listing) list) \<Rightarrow> (string \<times> workarea_row) list \<Rightarrow> string \<Rightarrow> string
     \<Rightarrow> routing_error + resolved_route" where
  "resolve_session sessions was composer agent_kind =
     (case find_workarea was composer of
        Inl e \<Rightarrow> Inl e
      | Inr wa \<Rightarrow>
          (case find (\<lambda>s. is_live_session (snd s) \<and> eq_ignore_ascii_case (sl_agent_kind (snd s)) agent_kind)
                  (sessions (fst wa)) of
             None \<Rightarrow> Inl (NoMatchingSession (wa_composer_name (snd wa)) agent_kind)
           | Some s \<Rightarrow> Inr (make_route wa s)))"

datatype dynamic_set = AllSet | IdleSet | BlockedSet

fun set_label :: "dynamic_set \<Rightarrow> string" where
  "set_label AllSet = ''all''"
| "set_label IdleSet = ''idle''"
| "set_label BlockedSet = ''blocked''"

definition dynamic_route ::
  "(string \<Rightarrow> (string \<times> session_listing) list) \<Rightarrow> dynamic_set \<Rightarrow> string \<times> workarea_row \<Rightarrow> resolved_route option" where
  "dynamic_route sessions st wa =
     (if st = BlockedSet
      then (if is_blocked_workarea_status (wa_status (snd wa))
            then map_option (make_route wa) (find (\<lambda>s. is_live_session (snd s)) (sessions (fst wa)))
            else None)
      else (case find (\<lambda>s. is_live_session (snd s)) (sessions (fst wa)) of
              None \<Rightarrow> None
            | Some s \<Rightarrow>
                if st = AllSet \<or> is_idle_status (wa_status (snd wa)) (sl_status (snd s)) then Some (make_route wa s) else None))"

definition resolve_dynamic ::
  "(string \<Rightarrow> (string \<times> session_listing) list) \<Rightarrow> (string \<times> workarea_row) list \<Rightarrow> dynamic_set
     \<Rightarrow> routing_error + resolved_route list" where
  "resolve_dynamic sessions was st =
     (let routes = List.map_filter (dynamic_route sessions st) was
      in if routes = [] then Inl (EmptyDynamicSet (set_label st)) else Inr routes)"

fun resolve_one ::
  "(string \<Rightarrow> (string \<times> session_listing) list) \<Rightarrow> (string \<times> workarea_row) list \<Rightarrow> routing_target
     \<Rightarrow> routing_error + resolved_route list" where
  "resolve_one sessions was (WorkareaTarget composer) =
     (case resolve_workarea sessions was composer of Inl e \<Rightarrow> Inl e | Inr r \<Rightarrow> Inr [r])"
| "resolve_one sessions was (SessionTarget composer agent_kind) =
     (case resolve_session sessions was composer agent_kind of Inl e \<Rightarrow> Inl e | Inr r \<Rightarrow> Inr [r])"
| "resolve_one sessions was AllTarget = resolve_dynamic sessions was AllSet"
| "resolve_one sessions was IdleTarget = resolve_dynamic sessions was IdleSet"
| "resolve_one sessions was BlockedTarget = resolve_dynamic sessions was BlockedSet"

fun resolve_each ::
  "(string \<Rightarrow> (string \<times> session_listing) list) \<Rightarrow> (string \<times> workarea_row) list \<Rightarrow> routing_target list
     \<Rightarrow> routing_error + resolved_route list" where
  "resolve_each sessions was [] = Inr []"
| "resolve_each sessions was (t # ts) =
     (case resolve_one sessions was t of
        Inl e \<Rightarrow> Inl e
      | Inr routes \<Rightarrow> (case resolve_each sessions was ts of Inl e \<Rightarrow> Inl e | Inr others \<Rightarrow> Inr (routes @ others)))"

definition resolve_targets ::
  "(string \<Rightarrow> (string \<times> workarea_row) list result) \<Rightarrow> (string \<Rightarrow> (string \<times> session_listing) list result)
     \<Rightarrow> string \<Rightarrow> routing_target list \<Rightarrow> routing_error + resolved_route list" where
  "resolve_targets list_workareas list_sessions ws targets =
     (case list_workareas ws of
        Inl e \<Rightarrow> Inl (EmptyDynamicSet ''all'')
      | Inr was \<Rightarrow> resolve_each (\<lambda>wa. unwrap_or [] (list_sessions wa)) was targets)"

text \<open>The live reader.\<close>

definition live_resolve ::
  "workarea_row table \<Rightarrow> session_listing table \<Rightarrow> string \<Rightarrow> routing_target list \<Rightarrow> routing_error + resolved_route list" where
  "live_resolve was sessions =
     resolve_targets (\<lambda>ws. Inr (list_by_workspace was ws)) (\<lambda>wa. Inr (sessions_by_workarea sessions wa))"

section \<open>Dispatch\<close>

record dispatch_result =
  dr_route :: resolved_route
  dr_outcome :: "routing_error + unit"

text \<open>\<open>send_input\<close> answers each call; the calls made are the second component.\<close>

definition dispatch_body ::
  "(string \<Rightarrow> string \<Rightarrow> unit result) \<Rightarrow> resolved_route list \<Rightarrow> string \<Rightarrow> dispatch_result list \<times> (string \<times> string) list" where
  "dispatch_body send_input routes body =
     (let payload = body @ [CHR 0x0D]
      in (map (\<lambda>r. \<lparr>dr_route = r, dr_outcome = (case send_input (rr_session_id r) payload of
                       Inr _ \<Rightarrow> Inr ()
                     | Inl e \<Rightarrow> Inl (NoActiveAgent (rr_composer r)))\<rparr>) routes,
          map (\<lambda>r. (rr_session_id r, payload)) routes))"

section \<open>Printing and parsing\<close>

fun show_target :: "routing_target \<Rightarrow> string" where
  "show_target (WorkareaTarget c) = ''@'' @ c"
| "show_target (SessionTarget c k) = ''@'' @ c @ ''/'' @ k"
| "show_target AllTarget = ''@all''"
| "show_target IdleTarget = ''@idle''"
| "show_target BlockedTarget = ''@blocked''"

text \<open>Names that the grammar can carry: not empty, no whitespace, comma or slash; a composer is not
  one of the three set names; an agent kind is in lower case.\<close>

definition plain_name :: "string \<Rightarrow> bool" where
  "plain_name n \<longleftrightarrow> n \<noteq> [] \<and> (\<forall>c\<in>set n. \<not> is_space c \<and> c \<noteq> CHR '','' \<and> c \<noteq> CHR ''/'')"

fun writable :: "routing_target \<Rightarrow> bool" where
  "writable (WorkareaTarget c) = (plain_name c \<and> to_ascii_lowercase c \<notin> {''all'', ''idle'', ''blocked''})"
| "writable (SessionTarget c k) = (plain_name c \<and> plain_name k \<and> to_ascii_lowercase k = k)"
| "writable _ = True"

fun show_targets :: "routing_target list \<Rightarrow> string" where
  "show_targets [] = []"
| "show_targets [t] = show_target t"
| "show_targets (t # ts) = show_target t @ '','' @ show_targets ts"

definition spec_chars :: "string \<Rightarrow> bool" where
  "spec_chars s \<longleftrightarrow> (\<forall>c\<in>set s. \<not> is_space c \<and> c \<noteq> CHR '','')"

lemma spec_chars_simps [simp]:
  "spec_chars [] \<longleftrightarrow> True" "spec_chars (c # s) \<longleftrightarrow> \<not> is_space c \<and> c \<noteq> CHR '','' \<and> spec_chars s"
  "spec_chars (s @ t) \<longleftrightarrow> spec_chars s \<and> spec_chars t"
  by (auto simp: spec_chars_def)

lemma plain_spec: "plain_name n \<Longrightarrow> spec_chars n"
  by (auto simp: plain_name_def spec_chars_def)

lemma show_target_spec: "writable t \<Longrightarrow> spec_chars (show_target t)"
  by (cases t) (auto simp: plain_spec is_space_def)

lemma trim_spec: "spec_chars s \<Longrightarrow> trim s = s"
proof -
  assume "spec_chars s"
  then have "\<And>c. c \<in> set s \<Longrightarrow> \<not> is_space c" by (auto simp: spec_chars_def)
  then have "dropWhile is_space s = s" "dropWhile is_space (rev s) = rev s"
    by (auto simp: dropWhile_eq_self_iff hd_rev)
  then show ?thesis by (simp add: trim_def)
qed


lemma lower_slash: "CHR ''/'' \<in> set s \<Longrightarrow> CHR ''/'' \<in> set (to_ascii_lowercase s)"
proof -
  assume "CHR ''/'' \<in> set s"
  moreover have "ascii_lower CHR ''/'' = CHR ''/''" by (simp add: ascii_lower_def)
  ultimately show ?thesis by (force simp: to_ascii_lowercase_def)
qed

lemma parse_spec_sets:
  "parse_spec ''@all'' = Some AllTarget" "parse_spec ''@idle'' = Some IdleTarget" "parse_spec ''@blocked'' = Some BlockedTarget"
  by code_simp+

lemma parse_show_target: "writable t \<Longrightarrow> parse_spec (show_target t) = Some t"
proof -
  assume w: "writable t"
  have strip: "parse_spec (show_target t) = (let inner = tl (show_target t) in if inner = [] then None else parse_one_target inner)"
    using trim_spec [OF show_target_spec [OF w]]
    by (cases t) (simp_all add: parse_spec_def strip_prefix_def starts_with_str_def)
  show ?thesis
  proof (cases t)
    case (WorkareaTarget c)
    then have "CHR ''/'' \<notin> set c" "c \<noteq> []" using w by (auto simp: plain_name_def)
    then show ?thesis using w WorkareaTarget strip by (simp add: parse_one_target_def Let_def)
  next
    case (SessionTarget c k)
    have c: "CHR ''/'' \<notin> set c" "c \<noteq> []" and k: "k \<noteq> []" "to_ascii_lowercase k = k"
      using w SessionTarget by (auto simp: plain_name_def)
    have run: "takeWhile (\<lambda>x. x \<noteq> CHR ''/'') (c @ CHR ''/'' # k) = c" "dropWhile (\<lambda>x. x \<noteq> CHR ''/'') (c @ CHR ''/'' # k) = CHR ''/'' # k"
      using c(1) by (induction c) auto
    have "to_ascii_lowercase (c @ CHR ''/'' # k) \<noteq> n" if "CHR ''/'' \<notin> set n" for n
      using lower_slash [of "c @ CHR ''/'' # k"] that by auto
    from this [of "''all''"] this [of "''idle''"] this [of "''blocked''"]
    show ?thesis using strip SessionTarget c k run by (simp add: parse_one_target_def Let_def)
  qed (simp_all add: parse_spec_sets)
qed

lemma show_targets_specs:
  assumes "ts \<noteq> []" and "list_all writable ts"
  shows "split_on CHR '','' (show_targets ts) = map show_target ts"
    and "\<forall>c\<in>set (show_targets ts). \<not> is_space c"
    and "\<exists>r. show_targets ts = CHR ''@'' # r"
proof -
  have no_comma: "CHR '','' \<notin> set (show_target t)" if "writable t" for t
    using show_target_spec [OF that] by (auto simp: spec_chars_def)
  show "split_on CHR '','' (show_targets ts) = map show_target ts"
    using assms by (induction ts rule: show_targets.induct) (auto simp: split_on_plain no_comma split_on_append)
  have no_space: "\<not> is_space c" if "writable t" "c \<in> set (show_target t)" for t c
    using show_target_spec [OF that(1)] that(2) by (auto simp: spec_chars_def)
  have "\<not> is_space CHR '',''" by (simp add: is_space_def)
  then show "\<forall>c\<in>set (show_targets ts). \<not> is_space c"
    using assms by (induction ts rule: show_targets.induct) (auto dest: no_space)
  have "\<exists>r. show_target t = CHR ''@'' # r" for t by (cases t) auto
  then show "\<exists>r. show_targets ts = CHR ''@'' # r"
    using assms by (cases ts rule: show_targets.cases) (auto, metis append_Cons)
qed

lemma those_map_Some: "(\<And>x. x \<in> set xs \<Longrightarrow> f x = Some (g x)) \<Longrightarrow> those (map f xs) = Some (map g xs)"
  by (induction xs) auto

section \<open>The properties\<close>


lemma find_Some_mem: "find P xs = Some x \<Longrightarrow> x \<in> set xs \<and> P x"
  by (induction xs) (auto split: if_splits)

text \<open>A route leads to a live session of a workarea of the list.\<close>

definition good_route :: "(string \<Rightarrow> (string \<times> session_listing) list) \<Rightarrow> (string \<times> workarea_row) list \<Rightarrow> resolved_route \<Rightarrow> bool" where
  "good_route sessions was r \<longleftrightarrow> (\<exists>wa\<in>set was. \<exists>s\<in>set (sessions (fst wa)). is_live_session (snd s) \<and> r = make_route wa s)"

lemma good_routeI: "wa \<in> set was \<Longrightarrow> s \<in> set (sessions (fst wa)) \<Longrightarrow> is_live_session (snd s) \<Longrightarrow> good_route sessions was (make_route wa s)"
  unfolding good_route_def by blast

lemma find_workarea_mem: "find_workarea was c = Inr wa \<Longrightarrow> wa \<in> set was \<and> eq_ignore_ascii_case (wa_composer_name (snd wa)) c"
  by (force simp: find_workarea_def split: option.splits dest: find_Some_mem)

lemma dynamic_route_good: "wa \<in> set was \<Longrightarrow> dynamic_route sessions st wa = Some r \<Longrightarrow> good_route sessions was r"
  by (auto simp: dynamic_route_def split: if_splits option.splits dest!: find_Some_mem intro!: good_routeI)

lemma resolve_one_good: "resolve_one sessions was t = Inr rs \<Longrightarrow> r \<in> set rs \<Longrightarrow> good_route sessions was r"
proof (cases t)
  case (WorkareaTarget c)
  assume "resolve_one sessions was t = Inr rs" "r \<in> set rs"
  then show ?thesis
    by (auto simp: WorkareaTarget resolve_workarea_def split: sum.splits option.splits dest!: find_workarea_mem find_Some_mem
        intro!: good_routeI)
next
  case (SessionTarget c k)
  assume "resolve_one sessions was t = Inr rs" "r \<in> set rs"
  then show ?thesis
    by (auto simp: SessionTarget resolve_session_def split: sum.splits option.splits dest!: find_workarea_mem find_Some_mem
        intro!: good_routeI)
qed (auto simp: resolve_dynamic_def Let_def map_filter_def dynamic_route_good split: if_splits)

lemma resolve_each_good: "resolve_each sessions was ts = Inr rs \<Longrightarrow> r \<in> set rs \<Longrightarrow> good_route sessions was r"
  by (induction ts arbitrary: rs) (auto split: sum.splits dest: resolve_one_good)

text \<open>C37: Whatever the targets, a text is routed only to sessions that are live, each in a workarea of
  the named workspace that is neither archived nor the Maestro's own; and where one target cannot be
  resolved no route is given at all.\<close>

theorem routes_lead_to_live_sessions:
  assumes "live_resolve was sessions ws ts = Inr routes"
  shows "(\<forall>r\<in>set routes. \<exists>w s. (rr_workarea_id r, w) \<in> set was \<and> wa_workspace_id w = ws \<and> wa_archived_at w = None
      \<and> rr_workarea_id r \<noteq> MAESTRO_SYSTEM_WORKAREA_ID \<and> rr_composer r = wa_composer_name w
      \<and> (rr_session_id r, s) \<in> set sessions \<and> sl_workarea_id s = rr_workarea_id r
      \<and> sl_ended_at s = None \<and> sl_status s \<notin> {''finished'', ''crashed''} \<and> rr_agent_kind r = sl_agent_kind s)
    \<and> (\<forall>t\<in>set ts. \<exists>rs. rs \<noteq> [] \<and> set rs \<subseteq> set routes
        \<and> resolve_one (sessions_by_workarea sessions) (list_by_workspace was ws) t = Inr rs)"
proof -
  have res: "resolve_each (sessions_by_workarea sessions) (list_by_workspace was ws) ts = Inr routes"
    using assms by (simp add: live_resolve_def resolve_targets_def)
  have part: "\<exists>rs. rs \<noteq> [] \<and> set rs \<subseteq> set routes \<and> resolve_one sess l t = Inr rs"
    if "resolve_each sess l ts = Inr routes" "t \<in> set ts" for t sess l
    using that
  proof (induction ts arbitrary: routes)
    case (Cons u us)
    obtain a b where ab: "resolve_one sess l u = Inr a" "resolve_each sess l us = Inr b" "routes = a @ b"
      using Cons.prems(1) by (auto split: sum.splits)
    have "a \<noteq> []" using ab(1) by (cases u) (auto simp: resolve_dynamic_def Let_def split: if_splits sum.splits)
    then show ?case using Cons.IH [OF ab(2)] Cons.prems(2) ab by (cases "t = u") auto
  qed simp
  have "\<exists>w s. (rr_workarea_id r, w) \<in> set was \<and> wa_workspace_id w = ws \<and> wa_archived_at w = None
      \<and> rr_workarea_id r \<noteq> MAESTRO_SYSTEM_WORKAREA_ID \<and> rr_composer r = wa_composer_name w
      \<and> (rr_session_id r, s) \<in> set sessions \<and> sl_workarea_id s = rr_workarea_id r
      \<and> sl_ended_at s = None \<and> sl_status s \<notin> {''finished'', ''crashed''} \<and> rr_agent_kind r = sl_agent_kind s"
    if route: "r \<in> set routes" for r
  proof -
    obtain i w j s where "(i, w) \<in> set (list_by_workspace was ws)" "(j, s) \<in> set (sessions_by_workarea sessions i)"
      "is_live_session s" "r = make_route (i, w) (j, s)"
      using resolve_each_good [OF res route] by (force simp: good_route_def)
    then show ?thesis
      by (intro exI [of _ w] exI [of _ s])
        (simp add: list_by_workspace_def sessions_by_workarea_def make_route_def is_live_session_def)
  qed
  then show ?thesis using part [OF res] by blast
qed

text \<open>While the statuses of the workareas are those of the state machine, no workarea is ever in
  the set of the blocked ones: a line with the target \<open>@blocked\<close> is never routed.\<close>

theorem blocked_target_never_resolves:
  assumes "\<forall>(i, w)\<in>set was. \<exists>st. wa_status w = as_sql st"
  shows "live_resolve was sessions ws [BlockedTarget] = Inl (EmptyDynamicSet ''blocked'')
    \<and> (BlockedTarget \<in> set ts \<longrightarrow> (\<exists>e. live_resolve was sessions ws ts = Inl e))"
proof -
  have "\<not> is_blocked_workarea_status (as_sql st)" for st
    by (cases st) (simp_all add: is_blocked_workarea_status_def)
  then have none: "dynamic_route sess BlockedSet wa = None" if "wa \<in> set (list_by_workspace was ws)" for sess wa
    using that assms by (force simp: dynamic_route_def list_by_workspace_def)
  then have one: "resolve_one sess (list_by_workspace was ws) BlockedTarget = Inl (EmptyDynamicSet ''blocked'')" for sess
    by (simp add: resolve_dynamic_def map_filter_def Let_def filter_empty_conv)
  have "\<exists>e. resolve_each sess (list_by_workspace was ws) ts = Inl e" if "BlockedTarget \<in> set ts" for sess
    using that by (induction ts) (auto simp: one split: sum.splits simp del: resolve_one.simps)
  then show ?thesis using one by (simp add: live_resolve_def resolve_targets_def del: resolve_one.simps)
qed

lemma find_sorted_newest:
  assumes "find P (sort_key f xs) = Some x" shows "x \<in> set xs \<and> P x \<and> (\<forall>y\<in>set xs. P y \<longrightarrow> f x \<le> f y)"
proof -
  have "\<forall>y\<in>set zs. P y \<longrightarrow> f x \<le> f y" if "sorted (map f zs)" "find P zs = Some x" for zs
    using that by (induction zs) (auto split: if_splits dest: find_Some_mem)
  from this [of "sort_key f xs"] show ?thesis using find_Some_mem [OF assms] assms by simp
qed

lemma find_None_filter: "find P xs = None \<longleftrightarrow> (\<forall>x\<in>set xs. \<not> P x)"
  by (induction xs) auto

text \<open>The target \<open>@all\<close> gives one route for each workarea of the workspace that has a live
  session, in the order of the composer names, and to the session started last of the live ones.\<close>

theorem all_target_reaches_every_live_workarea:
  assumes "live_resolve was sessions ws [AllTarget] = Inr routes"
  shows "map rr_workarea_id routes = map fst (filter (\<lambda>(i, w). \<exists>(j, s)\<in>set sessions. sl_workarea_id s = i \<and> is_live_session s)
       (list_by_workspace was ws))
    \<and> (\<forall>r\<in>set routes. \<exists>s. (rr_session_id r, s) \<in> set sessions \<and> sl_workarea_id s = rr_workarea_id r \<and> is_live_session s
         \<and> (\<forall>(j, t)\<in>set sessions. sl_workarea_id t = rr_workarea_id r \<and> is_live_session t \<longrightarrow> sl_started_at t \<le> sl_started_at s))"
proof -
  let ?d = "dynamic_route (sessions_by_workarea sessions) AllSet"
  let ?live = "\<lambda>(i, w). \<exists>(j, s)\<in>set sessions. sl_workarea_id s = i \<and> is_live_session s"
  have routes: "routes = List.map_filter ?d (list_by_workspace was ws)"
    using assms by (auto simp: live_resolve_def resolve_targets_def resolve_dynamic_def Let_def split: if_splits)
  have newest: "\<exists>s. (rr_session_id r, s) \<in> set sessions \<and> sl_workarea_id s = i \<and> is_live_session s \<and> rr_workarea_id r = i
      \<and> (\<forall>(j, t)\<in>set sessions. sl_workarea_id t = i \<and> is_live_session t \<longrightarrow> sl_started_at t \<le> sl_started_at s)"
    if d: "?d (i, w) = Some r" for i w r
  proof -
    obtain j s where f: "find (\<lambda>s. is_live_session (snd s)) (sessions_by_workarea sessions i) = Some (j, s)" and r: "r = make_route (i, w) (j, s)"
      using d by (auto simp: dynamic_route_def split: option.splits)
    from find_sorted_newest [OF f [unfolded sessions_by_workarea_def]] show ?thesis
      by (intro exI [of _ s]) (auto simp: r make_route_def)
  qed
  have "?d (i, w) = None \<longleftrightarrow> \<not> ?live (i, w)" for i w
    by (fastforce simp: dynamic_route_def sessions_by_workarea_def find_None_filter split: option.splits dest: find_Some_mem)
  then have "map rr_workarea_id (List.map_filter ?d l) = map fst (filter ?live l)" for l
    using newest by (induction l) (fastforce simp: map_filter_def)+
  moreover have "\<exists>w. ?d (rr_workarea_id r, w) = Some r" if "r \<in> set routes" for r
    using that newest by (fastforce simp: routes map_filter_def)
  ultimately show ?thesis using newest routes by blast
qed


section \<open>A small workspace\<close>

definition sample_listing :: "string \<Rightarrow> int \<Rightarrow> string \<Rightarrow> session_listing" where
  "sample_listing wa started status = \<lparr>sl_workarea_id = wa, sl_chat_id = None, sl_agent_kind = ''claude'',
     sl_started_at = started, sl_ended_at = None, sl_status = status\<rparr>"

definition sample_area :: "string \<Rightarrow> string \<Rightarrow> workarea_row" where
  "sample_area composer status = \<lparr>wa_workspace_id = ''ws'', wa_worktree_root = ''/w'', wa_status = status,
     wa_permission_mode = None, wa_bypass = None, wa_archived_at = None, wa_composer_name = composer,
     wa_branch_name = ''b'', wa_settings_json = []\<rparr>"

definition sample_areas :: "workarea_row table" where
  "sample_areas = [(''w2'', sample_area ''mozart'' ''awaiting''), (''w1'', sample_area ''bach'' ''running'')]"

definition sample_listings :: "session_listing table" where
  "sample_listings = [(''s1'', sample_listing ''w1'' 1 ''running''), (''s2'', sample_listing ''w1'' 2 ''running''),
     (''s3'', sample_listing ''w2'' 3 ''crashed'')]"

definition sample_route :: resolved_route where
  "sample_route = \<lparr>rr_workarea_id = ''w1'', rr_session_id = ''s2'', rr_composer = ''bach'', rr_agent_kind = ''claude''\<rparr>"

lemma sample_routes:
  "live_resolve sample_areas sample_listings ''ws'' [AllTarget] = Inr [sample_route]"
  "live_resolve sample_areas sample_listings ''ws'' [SessionTarget ''Bach'' ''claude'', WorkareaTarget ''BACH''] = Inr [sample_route, sample_route]"
  by code_simp+


theorem routes_lead_to_live_sessions_witness:
  "\<exists>rs. rs \<noteq> [] \<and> set rs \<subseteq> {sample_route}
    \<and> resolve_one (sessions_by_workarea sample_listings) (list_by_workspace sample_areas ''ws'') AllTarget = Inr rs"
  using routes_lead_to_live_sessions [OF sample_routes(1)] by simp

theorem blocked_target_never_resolves_witness:
  "live_resolve sample_areas sample_listings ''ws'' [BlockedTarget] = Inl (EmptyDynamicSet ''blocked'')"
proof -
  have "\<exists>st. ''awaiting'' = as_sql st" "\<exists>st. ''running'' = as_sql st" by (metis as_sql.simps)+
  then have "\<forall>(i, w)\<in>set sample_areas. \<exists>st. wa_status w = as_sql st" by (simp add: sample_areas_def sample_area_def)
  from blocked_target_never_resolves [OF this] show ?thesis by blast
qed

theorem all_target_reaches_every_live_workarea_witness:
  "map fst (filter (\<lambda>(i, w). \<exists>(j, s)\<in>set sample_listings. sl_workarea_id s = i \<and> is_live_session s)
     (list_by_workspace sample_areas ''ws'')) = [''w1'']"
  using all_target_reaches_every_live_workarea [OF sample_routes(1)] by (simp add: sample_route_def)

end
