(* ===== verification/Chats.thy ===== *)
theory Chats
  imports Tables "HOL-Library.Multiset"
begin

text \<open>
  Chat messages (\<open>persist/src/chat_messages.rs\<close>) and their daily condensation
  (\<open>maestro/condense.rs\<close>). A row that is superseded is hidden from every reader. SQLite's
  \<open>json_extract(metadata, '$.role_extra')\<close> is the argument \<open>role_extra\<close>, the printer of JSON the argument
  \<open>print_json\<close>, the language model the argument \<open>suggest\<close> of a prompt and a context.
\<close>

section \<open>Rows\<close>

record chat_message =
  cm_chat_id :: string
  cm_role :: string
  cm_content_json :: string
  cm_created_at :: int
  cm_parent_id :: "string option"
  cm_superseded_by :: "string option"
  cm_metadata :: "string option"

type_synonym chat_table = "chat_message table"

definition chat_insert :: "string list \<Rightarrow> string \<Rightarrow> chat_message \<Rightarrow> chat_table \<Rightarrow> string result \<times> chat_table" where
  "chat_insert chats i row t =
     (if i \<in> fst ` set t then (Inl (Sqlx ''UNIQUE constraint failed: chat_messages.id''), t)
      else if cm_chat_id row \<notin> set chats then (Inl (Sqlx ''FOREIGN KEY constraint failed''), t)
      else (Inr i, t @ [(i, row)]))"

definition said_row :: "(json \<Rightarrow> string) \<Rightarrow> string \<Rightarrow> string \<Rightarrow> string \<Rightarrow> int \<Rightarrow> chat_message" where
  "said_row print_json role chat words now_ms =
     \<lparr>cm_chat_id = chat, cm_role = role, cm_content_json = print_json (JObject [(''text'', JString words)]),
      cm_created_at = now_ms, cm_parent_id = None, cm_superseded_by = None, cm_metadata = None\<rparr>"

definition insert_user_message ::
  "(json \<Rightarrow> string) \<Rightarrow> string list \<Rightarrow> string \<Rightarrow> int \<Rightarrow> string \<Rightarrow> string \<Rightarrow> chat_table \<Rightarrow> string result \<times> chat_table" where
  "insert_user_message print_json chats fresh now_ms chat words t =
     chat_insert chats fresh (said_row print_json ''user'' chat words now_ms) t"

definition insert_assistant_message ::
  "(json \<Rightarrow> string) \<Rightarrow> string list \<Rightarrow> string \<Rightarrow> int \<Rightarrow> string \<Rightarrow> string \<Rightarrow> chat_table \<Rightarrow> string result \<times> chat_table" where
  "insert_assistant_message print_json chats fresh now_ms chat words t =
     chat_insert chats fresh (said_row print_json ''assistant'' chat words now_ms) t"

definition DAILY_SUMMARY_METADATA :: string where
  "DAILY_SUMMARY_METADATA = [CHR 0x7B, CHR 0x22] @ ''role_extra'' @ [CHR 0x22, CHR 0x3A, CHR 0x22]
     @ ''daily_summary'' @ [CHR 0x22, CHR 0x7D]"

definition shown :: "string \<Rightarrow> string \<times> chat_message \<Rightarrow> bool" where
  "shown chat m \<longleftrightarrow> cm_chat_id (snd m) = chat \<and> cm_superseded_by (snd m) = None"

definition list_in_day_range :: "chat_table \<Rightarrow> string \<Rightarrow> int \<Rightarrow> int \<Rightarrow> (string \<times> chat_message) list" where
  "list_in_day_range t chat start_ms end_ms =
     sort_key (\<lambda>m. cm_created_at (snd m))
       (filter (\<lambda>m. shown chat m \<and> start_ms \<le> cm_created_at (snd m) \<and> cm_created_at (snd m) < end_ms) t)"

text \<open>The newest \<open>n\<close> rows, oldest first; the ids order rows of the same instant.\<close>

definition list_by_chat :: "chat_table \<Rightarrow> string \<Rightarrow> nat \<Rightarrow> (string \<times> chat_message) list" where
  "list_by_chat t chat n =
     take_last n (sort_key (\<lambda>m. cm_created_at (snd m)) (sort_by_key (\<lambda>m. str_key (fst m)) (filter (shown chat) t)))"

definition insert_daily_summary ::
  "string list \<Rightarrow> string \<Rightarrow> string \<Rightarrow> string \<Rightarrow> int \<Rightarrow> chat_table \<Rightarrow> string result \<times> chat_table" where
  "insert_daily_summary chats chat i content_json created_at t =
     chat_insert chats i \<lparr>cm_chat_id = chat, cm_role = ''assistant'', cm_content_json = content_json,
       cm_created_at = created_at, cm_parent_id = None, cm_superseded_by = None,
       cm_metadata = Some DAILY_SUMMARY_METADATA\<rparr> t"

definition is_daily_summary :: "(string \<Rightarrow> string option) \<Rightarrow> chat_message \<Rightarrow> bool" where
  "is_daily_summary role_extra m \<longleftrightarrow>
     (case cm_metadata m of None \<Rightarrow> False | Some md \<Rightarrow> role_extra md = Some ''daily_summary'')"

definition list_daily_summaries :: "(string \<Rightarrow> string option) \<Rightarrow> chat_table \<Rightarrow> string \<Rightarrow> (string \<times> chat_message) list" where
  "list_daily_summaries role_extra t chat =
     sort_key (\<lambda>m. cm_created_at (snd m)) (filter (\<lambda>m. shown chat m \<and> is_daily_summary role_extra (snd m)) t)"

definition later_than :: "string \<Rightarrow> int \<Rightarrow> string \<Rightarrow> string \<times> chat_message \<Rightarrow> bool" where
  "later_than chat at keep m \<longleftrightarrow> cm_chat_id (snd m) = chat \<and> at < cm_created_at (snd m) \<and> fst m \<noteq> keep"

definition soft_delete_after :: "string \<Rightarrow> int \<Rightarrow> string \<Rightarrow> chat_table \<Rightarrow> nat \<times> chat_table" where
  "soft_delete_after chat checkpoint_created_at superseded_by t =
     (length (filter (later_than chat checkpoint_created_at superseded_by) t),
      map (\<lambda>m. if later_than chat checkpoint_created_at superseded_by m
               then (fst m, (snd m)\<lparr>cm_superseded_by := Some superseded_by\<rparr>) else m) t)"

section \<open>Condensing a day\<close>

definition DAY_MS :: int where "DAY_MS = 24 * 60 * 60 * 1000"
definition WEEKLY_SUMMARY_WINDOW :: nat where "WEEKLY_SUMMARY_WINDOW = 7"

fun join_lines :: "string list \<Rightarrow> string" where
  "join_lines [] = []"
| "join_lines [l] = l"
| "join_lines (l # ls) = l @ [CHR 0x0A] @ join_lines ls"

definition render_slice :: "(string \<times> chat_message) list \<Rightarrow> string" where
  "render_slice msgs = join_lines (map (\<lambda>(i, m). cm_role m @ '': '' @ cm_content_json m) msgs)"

definition summary_id :: "string \<Rightarrow> int \<Rightarrow> string" where
  "summary_id chat slice_start = ''daily-summary-'' @ chat @ ''-'' @ show_int slice_start"

definition condense_day ::
  "(string \<Rightarrow> string option) \<Rightarrow> (json \<Rightarrow> string) \<Rightarrow> (string \<Rightarrow> string \<Rightarrow> string result) \<Rightarrow> string list \<Rightarrow> string \<Rightarrow> int
     \<Rightarrow> chat_table \<Rightarrow> string option result \<times> chat_table" where
  "condense_day role_extra print_json suggest chats chat now_ms t =
     (let slice_start = now_ms - 2 * DAY_MS; slice_end = now_ms - DAY_MS;
          msgs = list_in_day_range t chat slice_start slice_end
      in if msgs = [] then (Inr None, t)
         else if \<exists>m\<in>set (list_daily_summaries role_extra t chat). cm_created_at (snd m) = slice_start then (Inr None, t)
         else (case suggest (''Summarize the following '' @ show_nat (length msgs)
                       @ '' chat messages from the previous day into one paragraph.'') (render_slice msgs) of
                 Inl e \<Rightarrow> (Inl e, t)
               | Inr words \<Rightarrow>
                   (case insert_daily_summary chats chat (summary_id chat slice_start)
                           (print_json (JObject [(''text'', JString words)])) slice_start t of
                      (Inl e, t') \<Rightarrow> (Inl e, t')
                    | (Inr i, t') \<Rightarrow> (Inr (Some i), t'))))"

record input_window =
  iw_summaries :: "(string \<times> chat_message) list"
  iw_verbatim :: "(string \<times> chat_message) list"
  iw_latest :: string

definition assemble_input_window ::
  "(string \<Rightarrow> string option) \<Rightarrow> string \<Rightarrow> int \<Rightarrow> string \<Rightarrow> chat_table \<Rightarrow> input_window" where
  "assemble_input_window role_extra chat now_ms latest t =
     (let summaries = list_daily_summaries role_extra t chat
      in \<lparr>iw_summaries = (if WEEKLY_SUMMARY_WINDOW < length summaries
                          then drop (length summaries - WEEKLY_SUMMARY_WINDOW) summaries else summaries),
          iw_verbatim = list_in_day_range t chat (now_ms - DAY_MS) now_ms,
          iw_latest = latest\<rparr>)"

section \<open>Lemmas\<close>

lemma chat_insert_Inr: "chat_insert chats i row t = (Inr j, t') \<longleftrightarrow>
   j = i \<and> t' = t @ [(i, row)] \<and> i \<notin> fst ` set t \<and> cm_chat_id row \<in> set chats"
  by (auto simp: chat_insert_def)

lemma mem_range: "m \<in> set (list_in_day_range t chat a b) \<longleftrightarrow>
   m \<in> set t \<and> shown chat m \<and> a \<le> cm_created_at (snd m) \<and> cm_created_at (snd m) < b"
  by (auto simp: list_in_day_range_def)

lemma mem_summaries: "m \<in> set (list_daily_summaries role_extra t chat) \<longleftrightarrow>
   m \<in> set t \<and> shown chat m \<and> is_daily_summary role_extra (snd m)"
  by (auto simp: list_daily_summaries_def)

lemma condense_Some:
  assumes "condense_day role_extra print_json suggest chats chat now t = (Inr (Some i), t')"
  obtains words where "i = summary_id chat (now - 2 * DAY_MS)"
    "t' = t @ [(i, \<lparr>cm_chat_id = chat, cm_role = ''assistant'', cm_content_json = print_json (JObject [(''text'', JString words)]),
       cm_created_at = now - 2 * DAY_MS, cm_parent_id = None, cm_superseded_by = None,
       cm_metadata = Some DAILY_SUMMARY_METADATA\<rparr>)]"
    "list_in_day_range t chat (now - 2 * DAY_MS) (now - DAY_MS) \<noteq> []"
  using assms
  by (auto simp: condense_day_def Let_def insert_daily_summary_def chat_insert_def split: if_splits sum.splits)

lemma length_insert_by_key: "length (insert_by_key k x ys) = Suc (length ys)"
  by (induction ys) auto

lemma sort_by_key_length: "length (sort_by_key k xs) = length xs"
  by (induction xs) (simp_all add: sort_by_key_def length_insert_by_key)

section \<open>The properties\<close>

text \<open>A day that was condensed at some instant is not condensed again by another run for the same
  instant, whatever was added to the chat meanwhile: that run asks no model and changes nothing.\<close>

theorem day_condensed_once:
  assumes "role_extra DAILY_SUMMARY_METADATA = Some ''daily_summary''"
    and "condense_day role_extra print_json suggest chats chat now t = (Inr (Some i), t')"
  shows "condense_day role_extra print_json suggest' chats chat now (t' @ added) = (Inr None, t' @ added)"
proof -
  obtain words where t': "t' = t @ [(i, \<lparr>cm_chat_id = chat, cm_role = ''assistant'',
       cm_content_json = print_json (JObject [(''text'', JString words)]),
       cm_created_at = now - 2 * DAY_MS, cm_parent_id = None, cm_superseded_by = None,
       cm_metadata = Some DAILY_SUMMARY_METADATA\<rparr>)]"
    using condense_Some [OF assms(2)] by metis
  have "\<exists>m\<in>set (list_daily_summaries role_extra (t' @ added) chat). cm_created_at (snd m) = now - 2 * DAY_MS"
    by (rule bexI [of _ "last t'"]) (simp_all add: mem_summaries t' shown_def is_daily_summary_def assms(1))
  then show ?thesis by (simp add: condense_day_def Let_def)
qed

text \<open>The check for an existing summary compares instants, not days: a run that comes some
  milliseconds later condenses again, and every message of the chat in the common part of the two
  periods is in both summaries.\<close>

theorem later_run_condenses_again:
  assumes "role_extra DAILY_SUMMARY_METADATA = Some ''daily_summary''"
    and "condense_day role_extra print_json suggest chats chat now t = (Inr (Some i), t')"
    and "now < now'" and "now' < now + DAY_MS"
    and "\<forall>m\<in>set t. cm_created_at (snd m) = now' - 2 * DAY_MS \<longrightarrow> \<not> is_daily_summary role_extra (snd m)"
    and "summary_id chat (now' - 2 * DAY_MS) \<notin> fst ` set t'"
    and "(j, m) \<in> set t" and "shown chat (j, m)"
    and "now' - 2 * DAY_MS \<le> cm_created_at m" and "cm_created_at m < now - DAY_MS"
    and "\<And>p c. \<exists>words. suggest p c = Inr words"
  shows "(\<exists>t''. condense_day role_extra print_json suggest chats chat now' t' = (Inr (Some (summary_id chat (now' - 2 * DAY_MS))), t''))
    \<and> (j, m) \<in> set (list_in_day_range t chat (now - 2 * DAY_MS) (now - DAY_MS))
    \<and> (j, m) \<in> set (list_in_day_range t' chat (now' - 2 * DAY_MS) (now' - DAY_MS))"
proof -
  obtain words where t': "t' = t @ [(i, \<lparr>cm_chat_id = chat, cm_role = ''assistant'',
       cm_content_json = print_json (JObject [(''text'', JString words)]),
       cm_created_at = now - 2 * DAY_MS, cm_parent_id = None, cm_superseded_by = None,
       cm_metadata = Some DAILY_SUMMARY_METADATA\<rparr>)]"
    using condense_Some [OF assms(2)] by metis
  have chats: "chat \<in> set chats"
    using assms(2) by (auto simp: condense_day_def Let_def insert_daily_summary_def chat_insert_def split: if_splits sum.splits)
  have first: "(j, m) \<in> set (list_in_day_range t chat (now - 2 * DAY_MS) (now - DAY_MS))"
    using assms(3,7-10) by (simp add: mem_range)
  have second: "(j, m) \<in> set (list_in_day_range t' chat (now' - 2 * DAY_MS) (now' - DAY_MS))"
    using assms(3,4,7-10) by (simp add: mem_range t')
  have fresh: "\<not> (\<exists>m\<in>set (list_daily_summaries role_extra t' chat). cm_created_at (snd m) = now' - 2 * DAY_MS)"
    using assms(3,5) by (auto simp: mem_summaries t')
  have nonempty: "list_in_day_range t' chat (now' - 2 * DAY_MS) (now' - DAY_MS) \<noteq> []"
    using second by auto
  obtain out where out: "suggest (''Summarize the following '' @ show_nat (length (list_in_day_range t' chat (now' - 2 * DAY_MS) (now' - DAY_MS)))
      @ '' chat messages from the previous day into one paragraph.'')
      (render_slice (list_in_day_range t' chat (now' - 2 * DAY_MS) (now' - DAY_MS))) = Inr out"
    using assms(11) by blast
  have "\<exists>t''. condense_day role_extra print_json suggest chats chat now' t' = (Inr (Some (summary_id chat (now' - 2 * DAY_MS))), t'')"
    unfolding condense_day_def Let_def
    using nonempty fresh out assms(6) chats by (simp add: insert_daily_summary_def chat_insert_def)
  then show ?thesis using first second by blast
qed

lemma sorted_drop_map: "sorted (map f xs) \<Longrightarrow> sorted (map f (drop n xs))"
  by (metis drop_map sorted_wrt_drop)

lemma sorted_split_le: "sorted (map f xs) \<Longrightarrow> x \<in> set (take n xs) \<Longrightarrow> y \<in> set (drop n xs) \<Longrightarrow> f x \<le> f y"
proof -
  assume "sorted (map f xs)" "x \<in> set (take n xs)" "y \<in> set (drop n xs)"
  moreover have "map f xs = map f (take n xs) @ map f (drop n xs)" by (metis append_take_drop_id map_append)
  ultimately show ?thesis by (auto simp: sorted_append)
qed

text \<open>What the Maestro is given holds every message of the last day that is not superseded, word
  for word and in order, and of the daily summaries the newest seven, oldest first.\<close>

theorem input_window_contents:
  shows "(\<forall>m. m \<in> set (iw_verbatim (assemble_input_window role_extra chat now latest t)) \<longleftrightarrow>
        m \<in> set t \<and> shown chat m \<and> now - DAY_MS \<le> cm_created_at (snd m) \<and> cm_created_at (snd m) < now)
    \<and> sorted (map (\<lambda>m. cm_created_at (snd m)) (iw_verbatim (assemble_input_window role_extra chat now latest t)))
    \<and> sorted (map (\<lambda>m. cm_created_at (snd m)) (iw_summaries (assemble_input_window role_extra chat now latest t)))
    \<and> length (iw_summaries (assemble_input_window role_extra chat now latest t))
        = min 7 (length (list_daily_summaries role_extra t chat))
    \<and> (\<forall>m\<in>set (list_daily_summaries role_extra t chat). \<forall>k\<in>set (iw_summaries (assemble_input_window role_extra chat now latest t)).
         m \<notin> set (iw_summaries (assemble_input_window role_extra chat now latest t)) \<longrightarrow> cm_created_at (snd m) \<le> cm_created_at (snd k))"
proof -
  let ?all = "list_daily_summaries role_extra t chat"
  let ?w = "assemble_input_window role_extra chat now latest t"
  have sorted: "sorted (map (\<lambda>m. cm_created_at (snd m)) ?all)"
    by (simp add: list_daily_summaries_def)
  have win: "iw_summaries ?w = drop (length ?all - 7) ?all"
    by (simp add: assemble_input_window_def Let_def WEEKLY_SUMMARY_WINDOW_def)
  have older: "cm_created_at (snd m) \<le> cm_created_at (snd k)"
    if "m \<in> set ?all" "k \<in> set (iw_summaries ?w)" "m \<notin> set (iw_summaries ?w)" for m k
  proof -
    have "m \<in> set (take (length ?all - 7) ?all)"
      using that(1,3) win by (metis Un_iff append_take_drop_id set_append)
    then show ?thesis using sorted_split_le [OF sorted] that(2) win by simp
  qed
  have "sorted (map (\<lambda>m. cm_created_at (snd m)) (iw_verbatim ?w))"
    by (simp add: assemble_input_window_def Let_def list_in_day_range_def)
  moreover have "m \<in> set (iw_verbatim ?w) \<longleftrightarrow> m \<in> set t \<and> shown chat m \<and> now - DAY_MS \<le> cm_created_at (snd m) \<and> cm_created_at (snd m) < now" for m
    by (simp add: assemble_input_window_def Let_def mem_range)
  ultimately show ?thesis using win older sorted_drop_map [OF sorted] by auto
qed

text \<open>Going back to a checkpoint hides exactly the messages of that chat that are later than it,
  the checkpoint's own message excepted, reports how many, and leaves other chats alone.\<close>

theorem revert_hides_exactly_later_messages:
  "(\<forall>c. set (list_by_chat (snd (soft_delete_after chat at keep t)) c (length t)) =
      {m \<in> set t. shown c m \<and> \<not> later_than chat at keep m})
   \<and> fst (soft_delete_after chat at keep t) = length (filter (later_than chat at keep) t)
   \<and> map fst (snd (soft_delete_after chat at keep t)) = map fst t"
proof -
  let ?f = "\<lambda>m. if later_than chat at keep m then (fst m, (snd m)\<lparr>cm_superseded_by := Some keep\<rparr>) else m"
  have hidden: "shown c (?f m) \<longleftrightarrow> shown c m \<and> \<not> later_than chat at keep m" for c m
    by (auto simp: shown_def)
  have "length (filter (shown c) (map ?f t)) \<le> length t" for c
    using length_filter_le [of "shown c" "map ?f t"] by simp
  then have "set (list_by_chat (map ?f t) c (length t)) = set (filter (shown c) (map ?f t))" for c
    unfolding list_by_chat_def by (subst take_last_all) (simp_all add: sort_by_key_length)
  moreover have "set (filter (shown c) (map ?f t)) = {m \<in> set t. shown c m \<and> \<not> later_than chat at keep m}" for c
    using hidden by force
  ultimately show ?thesis by (simp add: soft_delete_after_def comp_def if_distrib cong: if_cong)
qed

section \<open>A chat of two days\<close>

definition sample_message :: "int \<Rightarrow> chat_message" where
  "sample_message at = \<lparr>cm_chat_id = ''c'', cm_role = ''user'', cm_content_json = ''{}'', cm_created_at = at,
     cm_parent_id = None, cm_superseded_by = None, cm_metadata = None\<rparr>"

definition sample_extra :: "string \<Rightarrow> string option" where
  "sample_extra md = (if md = DAILY_SUMMARY_METADATA then Some ''daily_summary'' else None)"

definition sample_chat :: chat_table where
  "sample_chat = [(''m1'', sample_message 1000), (''m2'', sample_message 90000000)]"

definition sample_condensed :: chat_table where
  "sample_condensed = snd (condense_day sample_extra (\<lambda>_. ''{}'') (\<lambda>p c. Inr ''ok'') [''c''] ''c'' (2 * DAY_MS) sample_chat)"

lemmas chat_eval = condense_day_def list_in_day_range_def list_daily_summaries_def shown_def is_daily_summary_def
  sample_chat_def sample_message_def insert_daily_summary_def chat_insert_def Let_def DAY_MS_def

lemma sample_condense:
  "condense_day sample_extra (\<lambda>_. ''{}'') (\<lambda>p c. Inr ''ok'') [''c''] ''c'' (2 * DAY_MS) sample_chat
     = (Inr (Some (summary_id ''c'' (2 * DAY_MS - 2 * DAY_MS))), sample_condensed)"
proof -
  have "summary_id ''c'' 0 \<notin> {''m1'', ''m2''}" by (simp add: summary_id_def)
  then show ?thesis unfolding sample_condensed_def by (simp add: chat_eval)
qed

theorem day_condensed_once_witness:
  "condense_day sample_extra (\<lambda>_. ''{}'') (\<lambda>p c. Inl (Internal ''unreachable'')) [''c''] ''c'' (2 * DAY_MS)
     (sample_condensed @ [(''m3'', sample_message 7)]) = (Inr None, sample_condensed @ [(''m3'', sample_message 7)])"
  by (rule day_condensed_once [OF _ sample_condense]) (simp add: sample_extra_def)

theorem later_run_condenses_again_witness:
  "\<exists>t''. condense_day sample_extra (\<lambda>_. ''{}'') (\<lambda>p c. Inr ''ok'') [''c''] ''c'' (2 * DAY_MS + 5) sample_condensed
     = (Inr (Some (summary_id ''c'' (2 * DAY_MS + 5 - 2 * DAY_MS))), t'')"
proof -
  have ids: "summary_id ''c'' 5 \<notin> {''m1'', ''m2'', summary_id ''c'' 0}" "summary_id ''c'' 0 \<notin> {''m1'', ''m2''}"
    by (simp_all add: summary_id_def show_int_def show_nat.simps digit_char_def)
  have "summary_id ''c'' (2 * DAY_MS + 5 - 2 * DAY_MS) \<notin> fst ` set sample_condensed"
    unfolding sample_condensed_def using ids by (simp add: chat_eval)
  then show ?thesis
    using later_run_condenses_again [OF _ sample_condense, of "2 * DAY_MS + 5" "''m1''" "sample_message 1000"]
    by (simp add: sample_extra_def DAY_MS_def sample_chat_def sample_message_def shown_def is_daily_summary_def)
qed

end
