(* ===== verification/Composers.thy ===== *)
theory Composers
  imports Prelude
begin

text \<open>
  The pool of names a workarea is called after (\<open>workspace_manager/composers.rs\<close>) and the allocation of a
  free one (\<open>allocate_composer\<close> in \<open>workarea.rs\<close>).
\<close>

definition COMPOSERS :: "string list" where
  "COMPOSERS =
   [''bach'', ''handel'', ''vivaldi'', ''telemann'', ''scarlatti'', ''purcell'', ''rameau'', ''lully'',
    ''couperin'', ''corelli'', ''albinoni'', ''pachelbel'', ''monteverdi'', ''gabrieli'', ''buxtehude'',
    ''froberger'', ''frescobaldi'', ''praetorius'', ''schein'', ''schutz'', ''sweelinck'', ''biber'',
    ''marais'', ''marin'', ''leclair'', ''geminiani'', ''locatelli'', ''stradella'', ''torelli'', ''zelenka'',
    ''fasch'', ''graupner'', ''heinichen'', ''kuhnau'', ''muffat'', ''pergolesi'', ''porpora'', ''tartini'',
    ''campra'', ''charpentier'', ''delalande'', ''destouches'', ''leonardo'', ''froger'', ''mozart'',
    ''haydn'', ''beethoven'', ''schubert'', ''salieri'', ''cherubini'', ''clementi'', ''cimarosa'',
    ''boccherini'', ''gluck'', ''stamitz'', ''gossec'', ''dittersdorf'', ''kraus'', ''myslivecek'',
    ''paisiello'', ''spontini'', ''wagenseil'', ''vanhal'', ''hummel'', ''pleyel'', ''kozeluch'', ''krommer'',
    ''rossini'', ''donizetti'', ''bellini'', ''spohr'', ''weber'', ''field'', ''mehul'', ''boieldieu'',
    ''auber'', ''herold'', ''halevy'', ''mendelssohn'', ''schumann'', ''chopin'', ''berlioz'', ''liszt'',
    ''wagner'', ''verdi'', ''brahms'', ''bruckner'', ''smetana'', ''dvorak'', ''tchaikovsky'', ''musorgsky'',
    ''borodin'', ''balakirev'', ''cui'', ''rimsky'', ''glinka'', ''alkan'', ''thalberg'', ''moscheles'',
    ''marschner'', ''nicolai'', ''lortzing'', ''flotow'', ''raff'', ''rubinstein'', ''joachim'', ''bruch'',
    ''reinecke'', ''rheinberger'', ''kiel'', ''draeseke'', ''volkmann'', ''gade'', ''kuhlau'', ''weyse'',
    ''berwald'', ''lindblad'', ''norman'', ''mahler'', ''strauss'', ''wolf'', ''humperdinck'', ''reger'',
    ''puccini'', ''leoncavallo'', ''mascagni'', ''ponchielli'', ''boito'', ''catalani'', ''giordano'',
    ''cilea'', ''saint'', ''franck'', ''faure'', ''chausson'', ''duparc'', ''lalo'', ''chabrier'', ''delibes'',
    ''bizet'', ''gounod'', ''thomas'', ''massenet'', ''offenbach'', ''lecocq'', ''messager'', ''indy'',
    ''magnard'', ''lekeu'', ''godard'', ''guilmant'', ''widor'', ''vierne'', ''tournemire'', ''boellmann'',
    ''dubois'', ''pierne'', ''roussel'', ''gilson'', ''ysaye'', ''jongen'', ''lekeur'', ''tinel'', ''gevaert'',
    ''benoit'', ''grieg'', ''sibelius'', ''nielsen'', ''stenhammar'', ''alfven'', ''atterberg'', ''rangstrom'',
    ''halvorsen'', ''svendsen'', ''klami'', ''sallinen'', ''rautavaara'', ''kuula'', ''madetoja'',
    ''merikanto'', ''palmgren'', ''kajanus'', ''wegelius'', ''albeniz'', ''granados'', ''falla'', ''turina'',
    ''mompou'', ''rodrigo'', ''halffter'', ''guridi'', ''espla'', ''breton'', ''chapi'', ''barbieri'',
    ''arrieta'', ''sarasate'', ''tarrega'', ''villa'', ''lobos'', ''ginastera'', ''piazzolla'', ''guastavino'',
    ''chavez'', ''revueltas'', ''ponce'', ''moncayo'', ''galindo'', ''carrillo'', ''lavista'', ''nazareth'',
    ''gomes'', ''guarnieri'', ''mignone'', ''bonis'', ''debussy'', ''ravel'', ''satie'', ''poulenc'',
    ''milhaud'', ''honegger'', ''auric'', ''tailleferre'', ''durey'', ''messiaen'', ''boulez'', ''dutilleux'',
    ''jolivet'', ''varese'', ''ohana'', ''xenakis'', ''grisey'', ''murail'', ''saariaho'', ''lindberg'',
    ''salonen'', ''kaija'', ''magnus'', ''knussen'', ''tippett'', ''britten'', ''walton'', ''vaughan'',
    ''holst'', ''elgar'', ''delius'', ''bax'', ''bridge'', ''ireland'', ''moeran'', ''bantock'', ''stanford'',
    ''parry'', ''sullivan'', ''boyce'', ''arne'', ''tallis'', ''byrd'', ''dowland'', ''morley'', ''weelkes'',
    ''wilbye'', ''gibbons'', ''tomkins'', ''tye'', ''tavener'', ''macmillan'', ''birtwistle'', ''maxwell'',
    ''ferneyhough'', ''finnissy'', ''skempton'', ''casken'', ''weir'', ''dove'', ''turnage'', ''stravinsky'',
    ''rachmaninoff'', ''scriabin'', ''prokofiev'', ''shostakovich'', ''khachaturian'', ''kabalevsky'',
    ''schnittke'', ''gubaidulina'', ''denisov'', ''ustvolskaya'', ''weinberg'', ''myaskovsky'', ''glazunov'',
    ''lyadov'', ''lyapunov'', ''arensky'', ''taneyev'', ''medtner'', ''bortkiewicz'', ''tcherepnin'',
    ''lourie'', ''obouhow'', ''wyschnegradsky'', ''mosolov'', ''roslavets'', ''bartok'', ''kodaly'',
    ''dohnanyi'', ''janacek'', ''martinu'', ''suk'', ''novak'', ''fibich'', ''foerster'', ''schulhoff'',
    ''haba'', ''krasa'', ''ullmann'', ''klein'', ''szymanowski'', ''lutoslawski'', ''penderecki'', ''gorecki'',
    ''panufnik'', ''bacewicz'', ''kilar'', ''moniuszko'', ''paderewski'', ''wieniawski'', ''karlowicz'',
    ''ligeti'', ''kurtag'', ''eotvos'', ''weiner'', ''veress'', ''enescu'', ''silvestri'', ''constantinescu'',
    ''jora'', ''lipatti'', ''schoenberg'', ''berg'', ''webern'', ''krenek'', ''zemlinsky'', ''schreker'',
    ''korngold'', ''weill'', ''hindemith'', ''henze'', ''stockhausen'', ''lachenmann'', ''rihm'',
    ''zimmermann'', ''eisler'', ''dessau'', ''blacher'', ''fortner'', ''orff'', ''pfitzner'', ''schmidt'',
    ''marx'', ''schoeck'', ''martin'', ''honneger'', ''burkhard'', ''klose'', ''graener'', ''trapp'',
    ''gershwin'', ''copland'', ''bernstein'', ''ives'', ''barber'', ''rorem'', ''harris'', ''schuman'',
    ''piston'', ''hanson'', ''thomson'', ''sessions'', ''carter'', ''babbitt'', ''wuorinen'', ''feldman'',
    ''cage'', ''crumb'', ''rzewski'', ''reich'', ''glass'', ''adams'', ''riley'', ''young'', ''monk'',
    ''andriessen'', ''nyman'', ''yoshimatsu'', ''takemitsu'', ''toru'', ''ichiyanagi'', ''miyoshi'',
    ''hosokawa'', ''fujikura'', ''yun'', ''chin'', ''sheng'', ''tan'', ''chen'', ''zhou'', ''isang'',
    ''joplin'', ''sousa'', ''macdowell'', ''beach'', ''chadwick'', ''paine'', ''foote'', ''parker'',
    ''loeffler'', ''griffes'', ''ruggles'', ''varese'', ''antheil'', ''harrison'', ''partch'', ''nancarrow'',
    ''brant'', ''tower'', ''zwilich'', ''larsen'', ''higdon'', ''puts'', ''mackey'', ''muhly'', ''lang'',
    ''wolfe'', ''gordon'', ''norman'', ''shaw'', ''andres'', ''kernis'', ''rouse'', ''schwantner'',
    ''corigliano'', ''del'', ''tredici'', ''argento'', ''bolcom'', ''harbison'', ''tower'', ''danielpour'',
    ''kapilow'', ''torke'', ''daugherty'', ''schickele'', ''herrmann'', ''korngold'', ''rozsa'', ''tiomkin'',
    ''newman'', ''goldsmith'', ''morricone'', ''rota'', ''nino'', ''delerue'', ''legrand'', ''jarre'',
    ''williams'', ''horner'', ''shore'', ''elfman'', ''zimmer'', ''desplat'', ''giacchino'', ''powell'',
    ''silvestri'', ''broughton'', ''isham'', ''kamen'', ''kilar'', ''marianelli'', ''newton'', ''howard'',
    ''doyle'', ''barry'', ''bernstein'', ''raksin'', ''waxman'', ''north'', ''korngold'', ''salonen'',
    ''einaudi'', ''yiruma'', ''richter'', ''frahm'', ''arnalds'', ''tiersen'', ''nyman'', ''glassworks'',
    ''metheny'', ''zorn'', ''lang'', ''shaw'', ''andres'', ''muhly'', ''dessner'', ''greenwood'', ''wolfe'',
    ''gordon'', ''norman'', ''mazzoli'', ''viola'', ''esmail'', ''sorey'', ''lewis'', ''smith'', ''victoria'',
    ''palestrina'', ''lassus'', ''josquin'', ''ockeghem'', ''dufay'', ''binchois'', ''machaut'', ''perotin'',
    ''leonin'', ''landini'', ''ciconia'', ''isaac'', ''obrecht'', ''willaert'', ''rore'', ''gesualdo'',
    ''marenzio'', ''monteverde'', ''schein'', ''scheidt'', ''schop'', ''bull'', ''weelkes'', ''cavalli'',
    ''cesti'', ''carissimi'', ''stradella'', ''steffani'', ''lotti'', ''caldara'', ''vinci'', ''leo'',
    ''jommelli'', ''traetta'', ''piccinni'', ''sacchini'', ''salieri'', ''soler'', ''scarlatti'', ''porpora'',
    ''durante'', ''feo'', ''logroscino'', ''pergolesi'', ''galuppi'', ''hasse'', ''graun'', ''agricola'',
    ''kirnberger'', ''marpurg'', ''krebs'', ''homilius'', ''doles'', ''harrer'', ''bach'', ''richter'',
    ''vogler'', ''gyrowetz'', ''wranitzky'', ''rosetti'', ''rejcha'', ''reicha'', ''onslow'', ''ries'',
    ''moscheles'', ''kalkbrenner'', ''henselt'', ''thalberg'', ''dreyschock'', ''leschetizky'', ''godowsky'',
    ''scharwenka'', ''moszkowski'', ''leschetitzky'', ''busoni'', ''sgambati'', ''martucci'', ''casella'',
    ''respighi'', ''malipiero'', ''pizzetti'', ''alfano'', ''wolf'', ''ferrari'', ''tosti'', ''denza'',
    ''leoncavallo'', ''smareglia'', ''sinigaglia'', ''perosi'', ''refice'', ''petrassi'', ''dallapiccola'',
    ''nono'', ''berio'', ''maderna'', ''donatoni'', ''bussotti'', ''togni'', ''evangelisti'', ''scelsi'',
    ''sciarrino'', ''fedele'', ''francesconi'', ''filidei'', ''battistelli'', ''ferrero'', ''vacchi'',
    ''solbiati'', ''dusapin'', ''mache'', ''manoury'', ''campion'', ''campana'']"

definition MAX_COMPOSER_ATTEMPTS :: nat where
  "MAX_COMPOSER_ATTEMPTS = 100"

definition suffixed_name :: "string \<Rightarrow> nat \<Rightarrow> string" where
  "suffixed_name base n = base @ ''-'' @ show_nat n"

text \<open>The overflow pass: the suffixes in order, for each of them the pool in order.\<close>

fun allocate_suffixed :: "string list \<Rightarrow> (string \<Rightarrow> bool) \<Rightarrow> nat list \<Rightarrow> string option" where
  "allocate_suffixed pool used [] = None"
| "allocate_suffixed pool used (n # ns) =
     (case find (\<lambda>base. \<not> used (suffixed_name base n)) pool of
        Some base \<Rightarrow> Some (suffixed_name base n)
      | None \<Rightarrow> allocate_suffixed pool used ns)"

definition allocate_from :: "string list \<Rightarrow> string list \<Rightarrow> string option" where
  "allocate_from pool used =
     (case find (\<lambda>n. n \<notin> set used) pool of
        Some name \<Rightarrow> Some name
      | None \<Rightarrow> allocate_suffixed pool (\<lambda>c. c \<in> set used) [2..<MAX_COMPOSER_ATTEMPTS + 1])"

definition allocate_composer :: "string list \<Rightarrow> string option" where
  "allocate_composer used = allocate_from COMPOSERS used"

lemma COMPOSERS_plain: "list_all (list_all (\<lambda>c. c \<noteq> CHR ''-'' \<and> c \<noteq> CHR ''/'')) COMPOSERS"
  by code_simp

section \<open>Allocation\<close>

definition candidates :: "string list \<Rightarrow> string set" where
  "candidates pool = set pool \<union> (\<lambda>(b, n). suffixed_name b n) ` (set pool \<times> {2..MAX_COMPOSER_ATTEMPTS})"

lemma allocate_suffixed_Some:
  "allocate_suffixed pool used ns = Some c \<Longrightarrow> \<not> used c \<and> (\<exists>b \<in> set pool. \<exists>n \<in> set ns. c = suffixed_name b n)"
  by (induction ns) (auto split: option.splits simp: find_Some_iff)

lemma allocate_suffixed_None:
  "allocate_suffixed pool used ns = None \<Longrightarrow> b \<in> set pool \<Longrightarrow> n \<in> set ns \<Longrightarrow> used (suffixed_name b n)"
  by (induction ns) (auto split: option.splits simp: find_None_iff)

lemma allocate_from_Some: "allocate_from pool used = Some c \<Longrightarrow> c \<notin> set used \<and> c \<in> candidates pool"
  by (fastforce simp: allocate_from_def candidates_def find_Some_iff split: option.splits dest!: allocate_suffixed_Some)

lemma allocate_from_None: "allocate_from pool used = None \<Longrightarrow> candidates pool \<subseteq> set used"
  by (auto simp: allocate_from_def candidates_def find_None_iff split: option.splits dest!: allocate_suffixed_None)

lemma show_nat_inject: "show_nat m = show_nat n \<Longrightarrow> m = n"
  by (metis foldl_show_nat)

lemma append_dash_inject:
  "CHR ''-'' \<notin> set b \<Longrightarrow> CHR ''-'' \<notin> set b' \<Longrightarrow> b @ CHR ''-'' # r = b' @ CHR ''-'' # r' \<Longrightarrow> b = b' \<and> r = r'"
  by (induction b arbitrary: b') (auto simp: Cons_eq_append_conv append_eq_Cons_conv)

lemma card_candidates:
  assumes "\<forall>b \<in> set pool. CHR ''-'' \<notin> set b"
  shows "card (candidates pool) = card (set pool) * MAX_COMPOSER_ATTEMPTS"
proof -
  have inj: "inj_on (\<lambda>(b, n). suffixed_name b n) (set pool \<times> {2..MAX_COMPOSER_ATTEMPTS})"
  proof (rule inj_onI)
    fix x y
    assume x: "x \<in> set pool \<times> {2..MAX_COMPOSER_ATTEMPTS}" and y: "y \<in> set pool \<times> {2..MAX_COMPOSER_ATTEMPTS}"
      and "(case x of (b, n) \<Rightarrow> suffixed_name b n) = (case y of (b, n) \<Rightarrow> suffixed_name b n)"
    then have "fst x = fst y \<and> show_nat (snd x) = show_nat (snd y)"
      using assms by (intro append_dash_inject) (auto simp: suffixed_name_def)
    then show "x = y" using show_nat_inject by (simp add: prod_eq_iff)
  qed
  have "set pool \<inter> (\<lambda>(b, n). suffixed_name b n) ` (set pool \<times> {2..MAX_COMPOSER_ATTEMPTS}) = {}"
    using assms by (auto simp: suffixed_name_def)
  then have "card (candidates pool) = card (set pool) + card (set pool \<times> {2..MAX_COMPOSER_ATTEMPTS})"
    unfolding candidates_def by (subst card_Un_disjoint) (simp_all add: card_image [OF inj])
  then show ?thesis by (simp add: card_cartesian_product MAX_COMPOSER_ATTEMPTS_def)
qed

lemma card_COMPOSERS: "0 < card (set COMPOSERS)"
  by (simp add: card_gt_0_iff COMPOSERS_def)

text \<open>A workspace does not run out of workarea names before a hundred times as many as the pool has are
  in use: until then the allocation returns a name of the pool, bare or with a suffix from 2 to 100,
  that no workarea of the workspace has, archived ones included.\<close>

theorem composer_always_free:
  assumes "card (set used) < card (set COMPOSERS) * 100"
  shows "\<exists>c. allocate_composer used = Some c \<and> c \<notin> set used \<and> c \<in> candidates COMPOSERS"
proof -
  have "CHR ''-'' \<notin> set b" if "b \<in> set COMPOSERS" for b
    using COMPOSERS_plain that by (auto simp: list_all_iff)
  then have "card (candidates COMPOSERS) = card (set COMPOSERS) * 100"
    by (simp add: card_candidates MAX_COMPOSER_ATTEMPTS_def)
  then have "\<not> candidates COMPOSERS \<subseteq> set used"
    using assms card_mono [of "set used" "candidates COMPOSERS"] by auto
  then have "allocate_composer used \<noteq> None"
    using allocate_from_None by (auto simp: allocate_composer_def)
  then show ?thesis using allocate_from_Some by (auto simp: allocate_composer_def)
qed

theorem composer_always_free_witness: "\<exists>c. allocate_composer [''bach''] = Some c \<and> c \<noteq> ''bach''"
  using composer_always_free [of "[''bach'']"] card_COMPOSERS by auto

end
