(* ===== verification/RateLimit.thy ===== *)
theory RateLimit
  imports Prelude "HOL-Library.Multiset"
begin

text \<open>
  The rate-limit pools of the version-control providers (\<open>vcs/src/rate_limit.rs\<close>, with the keys and
  budgets of \<open>vcs/src/dispatch.rs\<close>): budgets seeded from documented caps and overwritten by response
  headers, the debounced warning, and the queue of operations parked until a reset.

  The code compares \<open>remaining / limit\<close> in double precision with the literals 0.10 and 0.20. Both
  numbers are below \<open>2 ^ 32\<close>, so the quotient differs from a literal it does not equal by at least
  \<open>2 ^ -35\<close>, far above the rounding error of a double: the comparisons are those of the rationals,
  written here without division.
\<close>

section \<open>Budgets\<close>

datatype provider_key = GithubPat | GithubApp string | GhCli

record budget =
  rb_limit :: nat
  rb_remaining :: nat
  rb_reset_at :: int

definition seed :: "nat \<Rightarrow> budget" where
  "seed lim = \<lparr>rb_limit = lim, rb_remaining = lim, rb_reset_at = 0\<rparr>"

fun seed_for :: "provider_key \<Rightarrow> budget" where
  "seed_for (GithubApp _) = seed 15000"
| "seed_for GithubPat = seed 5000"
| "seed_for GhCli = seed 5000"

text \<open>Parsing a decimal: an optional sign, digits, the range of the target type.\<close>

definition parse_u32 :: "string \<Rightarrow> nat option" where
  "parse_u32 s =
     (case (case s of c # r \<Rightarrow> if c = CHR ''+'' then parse_nat r else parse_nat s | [] \<Rightarrow> None) of
        Some n \<Rightarrow> if n \<le> u32_max then Some n else None
      | None \<Rightarrow> None)"

definition parse_i64 :: "string \<Rightarrow> int option" where
  "parse_i64 s =
     (case (case s of
              c # r \<Rightarrow> if c = CHR ''-'' then map_option (\<lambda>n. - int n) (parse_nat r)
                       else if c = CHR ''+'' then map_option int (parse_nat r)
                       else map_option int (parse_nat s)
            | [] \<Rightarrow> None) of
        Some i \<Rightarrow> if i64_min \<le> i \<and> i \<le> i64_max then Some i else None
      | None \<Rightarrow> None)"

text \<open>\<open>get\<close>: the lookup of a response header.\<close>

definition observe_headers :: "(string \<Rightarrow> string option) \<Rightarrow> budget \<Rightarrow> budget" where
  "observe_headers get b =
     (let b = (case Option.bind (get ''x-ratelimit-limit'') (\<lambda>s. parse_u32 (trim s)) of
                 Some v \<Rightarrow> b\<lparr>rb_limit := v\<rparr> | None \<Rightarrow> b);
          b = (case Option.bind (get ''x-ratelimit-remaining'') (\<lambda>s. parse_u32 (trim s)) of
                 Some v \<Rightarrow> b\<lparr>rb_remaining := v\<rparr> | None \<Rightarrow> b)
      in (case Option.bind (get ''x-ratelimit-reset'') (\<lambda>s. parse_i64 (trim s)) of
            Some v \<Rightarrow> b\<lparr>rb_reset_at := v\<rparr> | None \<Rightarrow> b))"

definition is_degraded :: "budget \<Rightarrow> bool" where
  "is_degraded b \<longleftrightarrow> rb_limit b \<noteq> 0 \<and> 10 * rb_remaining b < rb_limit b"

definition is_warning :: "budget \<Rightarrow> bool" where
  "is_warning b \<longleftrightarrow> rb_limit b \<noteq> 0 \<and> 5 * rb_remaining b < rb_limit b"

definition is_exhausted :: "budget \<Rightarrow> bool" where
  "is_exhausted b \<longleftrightarrow> rb_remaining b = 0"

definition reset_at_ms :: "budget \<Rightarrow> int" where
  "reset_at_ms b = sat_i64 (rb_reset_at b * 1000)"

section \<open>The pools\<close>

record warning =
  rw_provider :: string
  rw_scope_id :: string
  rw_reset_at_ms :: int
  rw_fraction :: "nat \<times> nat"

fun warning_identity :: "provider_key \<Rightarrow> string \<times> string" where
  "warning_identity GithubPat = (''github'', ''pat'')"
| "warning_identity (GithubApp app_id) = (''github'', app_id)"
| "warning_identity GhCli = (''gh'', ''gh'')"

record pools =
  pl_budgets :: "provider_key \<rightharpoonup> budget"
  pl_warned :: "provider_key \<rightharpoonup> bool"

definition new_pools :: pools where
  "new_pools = \<lparr>pl_budgets = Map.empty, pl_warned = Map.empty\<rparr>"

definition ensure :: "provider_key \<Rightarrow> pools \<Rightarrow> budget \<times> pools" where
  "ensure key p =
     (case pl_budgets p key of
        Some b \<Rightarrow> (b, p)
      | None \<Rightarrow> (seed_for key, p\<lparr>pl_budgets := (pl_budgets p)(key \<mapsto> seed_for key)\<rparr>))"

definition observe :: "provider_key \<Rightarrow> (string \<Rightarrow> string option) \<Rightarrow> pools \<Rightarrow> warning option \<times> pools" where
  "observe key get p =
     (let (b, p) = ensure key p;
          snapshot = observe_headers get b;
          p = p\<lparr>pl_budgets := (pl_budgets p)(key \<mapsto> snapshot)\<rparr>;
          already_warned = (case pl_warned p key of Some w \<Rightarrow> w | None \<Rightarrow> False)
      in if \<not> is_warning snapshot then (None, p\<lparr>pl_warned := (pl_warned p)(key \<mapsto> False)\<rparr>)
         else if already_warned then (None, p)
         else (Some \<lparr>rw_provider = fst (warning_identity key), rw_scope_id = snd (warning_identity key),
                     rw_reset_at_ms = reset_at_ms snapshot, rw_fraction = (rb_remaining snapshot, rb_limit snapshot)\<rparr>,
               p\<lparr>pl_warned := (pl_warned p)(key \<mapsto> True)\<rparr>))"

datatype pool_event = Ensure provider_key | Observe provider_key "string \<Rightarrow> string option"

fun pool_step :: "pools \<Rightarrow> pool_event \<Rightarrow> pools" where
  "pool_step p (Ensure key) = snd (ensure key p)"
| "pool_step p (Observe key get) = snd (observe key get p)"

definition low :: "pools \<Rightarrow> provider_key \<Rightarrow> bool" where
  "low p key \<longleftrightarrow> (case pl_budgets p key of Some b \<Rightarrow> is_warning b | None \<Rightarrow> False)"

definition pools_inv :: "pools \<Rightarrow> bool" where
  "pools_inv p \<longleftrightarrow> (\<forall>key. (pl_warned p key = Some True) = low p key)"

lemma seed_not_warning [simp]: "\<not> is_warning (seed_for key)"
  by (cases key) (simp_all add: seed_def is_warning_def)

lemma ensure_inv: "pools_inv p \<Longrightarrow> pools_inv (snd (ensure key p))"
  by (auto simp: pools_inv_def low_def ensure_def split: option.split)

lemma ensure_fst: "fst (ensure key p) = (case pl_budgets p key of Some b \<Rightarrow> b | None \<Rightarrow> seed_for key)"
  by (simp add: ensure_def split: option.split)

lemma ensure_snd:
  "pl_warned (snd (ensure key p)) = pl_warned p"
  "j \<noteq> key \<Longrightarrow> pl_budgets (snd (ensure key p)) j = pl_budgets p j"
  by (simp_all add: ensure_def split: option.split)

lemma observe_budgets:
  "pl_budgets (snd (observe key get p)) j =
     (if j = key then Some (observe_headers get (case pl_budgets p key of Some b \<Rightarrow> b | None \<Rightarrow> seed_for key))
      else pl_budgets p j)"
  using ensure_fst [of key p] ensure_snd [where key = key and p = p]
  by (auto simp: observe_def Let_def split: prod.split)

definition observed :: "provider_key \<Rightarrow> (string \<Rightarrow> string option) \<Rightarrow> pools \<Rightarrow> budget" where
  "observed key get p = observe_headers get (case pl_budgets p key of Some b \<Rightarrow> b | None \<Rightarrow> seed_for key)"

lemma observe_warned:
  "pl_warned (snd (observe key get p)) j = (if j = key then Some (is_warning (observed key get p)) else pl_warned p j)"
  "fst (observe key get p) \<noteq> None \<longleftrightarrow> is_warning (observed key get p) \<and> pl_warned p key \<noteq> Some True"
proof -
  obtain b q where e: "ensure key p = (b, q)" by fastforce
  have b: "b = (case pl_budgets p key of Some b \<Rightarrow> b | None \<Rightarrow> seed_for key)" and q: "pl_warned q = pl_warned p"
    using ensure_fst [of key p] ensure_snd(1) [of key p] e by auto
  show "pl_warned (snd (observe key get p)) j = (if j = key then Some (is_warning (observed key get p)) else pl_warned p j)"
    "fst (observe key get p) \<noteq> None \<longleftrightarrow> is_warning (observed key get p) \<and> pl_warned p key \<noteq> Some True"
    by (cases "pl_warned p key"; cases "is_warning (observed key get p)"; simp add: observe_def e b q observed_def Let_def)+
qed

lemma observe_low:
  "low (snd (observe key get p)) j = (if j = key then is_warning (observed key get p) else low p j)"
  by (simp add: low_def observe_budgets observed_def)

lemma observe_inv: "pools_inv p \<Longrightarrow> pools_inv (snd (observe key get p))"
  by (simp add: pools_inv_def observe_warned observe_low)

interpretation pools: event_machine pool_step pools_inv
proof
  fix p e assume "pools_inv p"
  then show "pools_inv (pool_step p e)" by (cases e) (simp_all add: ensure_inv observe_inv)
qed

section \<open>The resume queue\<close>

type_synonym resume_queue = "(string \<times> int) list"

definition park :: "string \<Rightarrow> int \<Rightarrow> resume_queue \<Rightarrow> resume_queue" where
  "park label resume_at q = q @ [(label, resume_at)]"

fun drain_loop :: "int \<Rightarrow> resume_queue \<Rightarrow> string list \<times> resume_queue" where
  "drain_loop now [] = ([], [])"
| "drain_loop now ((label, resume_at) # q) =
     (case drain_loop now q of
        (ready, kept) \<Rightarrow> if resume_at \<le> now then (label # ready, kept) else (ready, (label, resume_at) # kept))"

definition drain_ready :: "int \<Rightarrow> resume_queue \<Rightarrow> string list \<times> resume_queue" where
  "drain_ready now q = drain_loop now q"

datatype queue_event = Park string int | Drain int

text \<open>A run of the queue, with the labels every drain returned.\<close>

fun queue_run :: "queue_event list \<Rightarrow> resume_queue \<Rightarrow> string list \<times> resume_queue" where
  "queue_run [] q = ([], q)"
| "queue_run (Park label resume_at # es) q = queue_run es (park label resume_at q)"
| "queue_run (Drain now # es) q =
     (case drain_ready now q of (ready, q') \<Rightarrow>
        (case queue_run es q' of (later, q'') \<Rightarrow> (ready @ later, q'')))"

fun parked :: "queue_event list \<Rightarrow> string list" where
  "parked [] = []"
| "parked (Park label resume_at # es) = label # parked es"
| "parked (Drain now # es) = parked es"

lemma drain_loop_split:
  "drain_loop now q = (map fst (filter (\<lambda>(l, t). t \<le> now) q), filter (\<lambda>(l, t). \<not> t \<le> now) q)"
  by (induction now q rule: drain_loop.induct) (auto split: prod.split)

lemma drain_mset: "drain_ready now q = (ready, q') \<Longrightarrow> mset ready + mset (map fst q') = mset (map fst q)"
  by (induction q arbitrary: ready q') (auto simp: drain_ready_def drain_loop_split)

lemma queue_run_mset:
  "queue_run es q = (out, q') \<Longrightarrow> mset out + mset (map fst q') = mset (map fst q) + mset (parked es)"
proof (induction es q arbitrary: out q' rule: queue_run.induct)
  case (2 label resume_at es q)
  then show ?case by (simp add: park_def)
next
  case (3 now es q)
  obtain ready q1 where d: "drain_ready now q = (ready, q1)" by fastforce
  obtain later q2 where r: "queue_run es q1 = (later, q2)" by fastforce
  have o: "out = ready @ later" "q' = q2" using "3.prems" d r by auto
  have "mset out + mset (map fst q') = mset ready + (mset later + mset (map fst q2))" by (simp add: o)
  also have "\<dots> = (mset ready + mset (map fst q1)) + mset (parked es)"
    unfolding "3.IH" [OF d [symmetric] r] by simp
  finally show ?case unfolding drain_mset [OF d] by simp
qed simp

section \<open>Properties\<close>

text \<open>one warning per crossing, pool by pool. After any sequence of calls, an observation of a pool's
  headers broadcasts a warning exactly when the pool's budget is below a fifth after it and was not
  below a fifth before; it leaves the budget of every other pool alone, and a header that is
  missing or malformed leaves its field alone.\<close>

theorem warning_once_per_crossing:
  "let p = fold (\<lambda>e p. pool_step p e) es new_pools;
       (w, p') = observe key get p
   in (w \<noteq> None \<longleftrightarrow> low p' key \<and> \<not> low p key)
     \<and> (\<forall>j. j \<noteq> key \<longrightarrow> pl_budgets p' j = pl_budgets p j \<and> pl_warned p' j = pl_warned p j)
     \<and> (get ''x-ratelimit-remaining'' = None \<longrightarrow>
          map_option rb_remaining (pl_budgets p' key)
            = Some (rb_remaining (case pl_budgets p key of Some b \<Rightarrow> b | None \<Rightarrow> seed_for key)))"
proof -
  let ?p = "fold (\<lambda>e p. pool_step p e) es new_pools"
  have inv: "pools_inv ?p"
    by (rule pools.run_inv) (simp add: pools_inv_def low_def new_pools_def)
  have keep: "rb_remaining (observe_headers get b) = rb_remaining b" if "get ''x-ratelimit-remaining'' = None" for b
    using that by (simp add: observe_headers_def Let_def split: option.split)
  have "fst (observe key get ?p) \<noteq> None \<longleftrightarrow> low (snd (observe key get ?p)) key \<and> \<not> low ?p key"
    using inv unfolding pools_inv_def observe_warned(2) observe_low by simp
  moreover have "j \<noteq> key \<longrightarrow> pl_budgets (snd (observe key get ?p)) j = pl_budgets ?p j
      \<and> pl_warned (snd (observe key get ?p)) j = pl_warned ?p j" for j
    by (simp add: observe_budgets observe_warned(1))
  ultimately show ?thesis
    using keep observe_budgets [of key get ?p] by (simp add: Let_def case_prod_beta)
qed

theorem warning_once_per_crossing_witness:
  "let get = (\<lambda>h. if h = ''x-ratelimit-remaining'' then Some '' 900 '' else None)
   in low (snd (observe GithubPat get new_pools)) GithubPat
     \<and> fst (observe GithubPat get (snd (observe GithubPat get new_pools))) = None"
proof -
  let ?get = "\<lambda>h. if h = ''x-ratelimit-remaining'' then Some '' 900 '' else None"
  have "low (snd (observe GithubPat ?get new_pools)) GithubPat"
    by (simp add: observe_low observed_def new_pools_def seed_def observe_headers_def trim_def is_space_def
        parse_u32_def parse_nat_def is_digit_def digit_val_def u32_max_def is_warning_def)
  then show ?thesis
    using warning_once_per_crossing [of "[Observe GithubPat ?get]" GithubPat ?get] by (simp add: Let_def case_prod_beta)
qed

text \<open>no parked operation is lost, resumed twice or resumed early. For any sequence of parkings and
  drains, the labels handed out by the drains together with those still waiting are exactly the
  parked ones, each as often as it was parked; a drain hands out exactly the entries whose reset
  has come, in the order they were parked.\<close>

theorem parked_operations_resume_once:
  "mset (fst (queue_run es [])) + mset (map fst (snd (queue_run es []))) = mset (parked es)
   \<and> fst (drain_ready now q) = map fst (filter (\<lambda>(l, t). t \<le> now) q)
   \<and> (\<forall>(l, t)\<in>set (snd (drain_ready now q)). now < t)"
proof -
  have "mset (fst (queue_run es [])) + mset (map fst (snd (queue_run es []))) = mset (parked es)"
    using queue_run_mset [of es "[]" "fst (queue_run es [])" "snd (queue_run es [])"] by simp
  then show ?thesis by (auto simp: drain_ready_def drain_loop_split)
qed

end
