(* ===== verification/Checkpoints.thy ===== *)
theory Checkpoints
  imports Chats PathPolicy Composers RateLimit
begin

text \<open>
  Checkpoints of a workarea (\<open>agent_supervisor/checkpoint.rs\<close>, \<open>persist/src/checkpoints.rs\<close>, the
  snapshot commands of \<open>gix-wrap/src/api.rs\<close> and \<open>revert_to_checkpoint\<close> of
  \<open>agent_supervisor/actor.rs\<close>). A checkpoint of a turn is one commit, one ref and one row for each
  repository. The git commands run on a disk of any type \<open>'d\<close>: they are the argument \<open>git_cmds\<close>, and
  what git documents of them is \<open>git_documented\<close>, said through the observations \<open>git_view\<close>.
\<close>

section \<open>The commands of git\<close>

record 'd git_cmds =
  gc_rev_parse_head :: "string \<Rightarrow> 'd \<Rightarrow> string result"
  gc_read_tree :: "string \<Rightarrow> string \<Rightarrow> string \<Rightarrow> 'd \<Rightarrow> unit result \<times> 'd"
  gc_add_all :: "string \<Rightarrow> string \<Rightarrow> 'd \<Rightarrow> unit result \<times> 'd"
  gc_write_tree :: "string \<Rightarrow> string \<Rightarrow> 'd \<Rightarrow> string result \<times> 'd"
  gc_commit_tree :: "string \<Rightarrow> string \<Rightarrow> string option \<Rightarrow> string \<Rightarrow> 'd \<Rightarrow> string result \<times> 'd"
  gc_remove_file :: "string \<Rightarrow> 'd \<Rightarrow> 'd"
  gc_update_ref :: "string \<Rightarrow> string \<Rightarrow> string \<Rightarrow> 'd \<Rightarrow> unit result \<times> 'd"
  gc_reset_hard :: "string \<Rightarrow> string \<Rightarrow> 'd \<Rightarrow> unit result \<times> 'd"

definition git_err :: "string \<Rightarrow> 'a result \<Rightarrow> 'a result" where
  "git_err what r = (case r of Inl e \<Rightarrow> Inl (Git (what @ error_display e)) | Inr x \<Rightarrow> Inr x)"

definition index_path :: "string \<Rightarrow> string \<Rightarrow> string" where
  "index_path repo_dir unique = repo_dir @ ''/.git/concerto-checkpoint-index-'' @ unique"

definition stage_all :: "'d git_cmds \<Rightarrow> string \<Rightarrow> string \<Rightarrow> string option \<Rightarrow> 'd \<Rightarrow> unit result \<times> 'd" where
  "stage_all g repo_dir idx head d =
     (let (r, d1) = (case head of None \<Rightarrow> (Inr (), d) | Some h \<Rightarrow> gc_read_tree g repo_dir idx h d)
      in case git_err ''checkpoint read-tree: '' r of
           Inl e \<Rightarrow> (Inl e, d1)
         | Inr _ \<Rightarrow> (let (r2, d2) = gc_add_all g repo_dir idx d1 in (git_err ''checkpoint add -A: '' r2, d2)))"

definition commit_index :: "'d git_cmds \<Rightarrow> string \<Rightarrow> string \<Rightarrow> string \<Rightarrow> 'd \<Rightarrow> string result \<times> 'd" where
  "commit_index g unique repo_dir message d =
     (let idx = index_path repo_dir unique;
          head = (case gc_rev_parse_head g repo_dir d of Inr h \<Rightarrow> Some (trim h) | Inl _ \<Rightarrow> None)
      in case stage_all g repo_dir idx head d of
           (Inl e, d1) \<Rightarrow> (Inl e, d1)
         | (Inr _, d1) \<Rightarrow>
             (case gc_write_tree g repo_dir idx d1 of
                (Inl e, d2) \<Rightarrow> (git_err ''checkpoint write-tree: '' (Inl e), d2)
              | (Inr tree, d2) \<Rightarrow>
                  (case gc_commit_tree g repo_dir (trim tree) head message d2 of
                     (Inl e, d3) \<Rightarrow> (git_err (if head = None then ''checkpoint commit-tree (root): '' else ''checkpoint commit-tree: '') (Inl e), d3)
                   | (Inr commit, d3) \<Rightarrow> (Inr (trim commit), gc_remove_file g idx d3))))"

section \<open>Rows\<close>

record checkpoint_row =
  cp_workarea_id :: string
  cp_repository_id :: string
  cp_chat_message_id :: string
  cp_git_ref :: string
  cp_created_at :: int
  cp_diff_stats_json :: "string option"

record 'd checkpoint_store =
  ck_db :: database
  ck_rows :: "checkpoint_row table"
  ck_chats :: "string list"
  ck_messages :: chat_table
  ck_session_chats :: "(string \<times> string) list"
  ck_disk :: 'd

definition checkpoints_insert :: "string \<Rightarrow> checkpoint_row \<Rightarrow> 'd checkpoint_store \<Rightarrow> unit result \<times> 'd checkpoint_store" where
  "checkpoints_insert i row s =
     (if i \<in> fst ` set (ck_rows s) then (Inl (Sqlx ''UNIQUE constraint failed: checkpoints.id''), s)
      else if cp_chat_message_id row \<notin> fst ` set (ck_messages s) then (Inl (Sqlx ''FOREIGN KEY constraint failed''), s)
      else (Inr (), s\<lparr>ck_rows := ck_rows s @ [(i, row)]\<rparr>))"

definition checkpoints_get :: "'d checkpoint_store \<Rightarrow> string \<Rightarrow> checkpoint_row option" where
  "checkpoints_get s i = map_of (ck_rows s) i"

definition get_with_siblings :: "'d checkpoint_store \<Rightarrow> string \<Rightarrow> (string \<times> checkpoint_row) list" where
  "get_with_siblings s message =
     sort_by_key (\<lambda>(i, r). str_key (cp_repository_id r)) (filter (\<lambda>(i, r). cp_chat_message_id r = message) (ck_rows s))"

text \<open>The number after the last slash.\<close>

definition parse_trailing_n :: "string \<Rightarrow> int option" where
  "parse_trailing_n git_ref = parse_i64 (last (split_on CHR ''/'' git_ref))"

definition max_n_for :: "'d checkpoint_store \<Rightarrow> string \<Rightarrow> string \<Rightarrow> int" where
  "max_n_for s wa rid =
     foldl (\<lambda>m (i, r). case parse_trailing_n (cp_git_ref r) of Some n \<Rightarrow> if m < n then n else m | None \<Rightarrow> m) 0
       (filter (\<lambda>(i, r). cp_workarea_id r = wa \<and> cp_repository_id r = rid) (ck_rows s))"

section \<open>Taking a checkpoint\<close>

definition REF_PREFIX :: string where "REF_PREFIX = ''refs/concerto/checkpoints''"

definition checkpoint_ref :: "string \<Rightarrow> string \<Rightarrow> int \<Rightarrow> string" where
  "checkpoint_ref wa rid n = REF_PREFIX @ ''/'' @ wa @ ''/'' @ rid @ ''/'' @ show_int n"

definition next_ref :: "'d checkpoint_store \<Rightarrow> string \<Rightarrow> string \<Rightarrow> int \<times> string" where
  "next_ref s wa rid = (let n = max_n_for s wa rid + 1 in (n, checkpoint_ref wa rid n))"

record checkpoint_record =
  cr_checkpoint_id :: string
  cr_repository_id :: string
  cr_git_ref :: string

text \<open>One repository, once its number is read: the snapshot, the ref and the row.\<close>

definition take_checkpoint ::
  "'d git_cmds \<Rightarrow> string \<Rightarrow> string \<Rightarrow> int \<Rightarrow> string \<Rightarrow> string \<Rightarrow> string \<Rightarrow> string \<Rightarrow> string \<Rightarrow> int \<times> string
     \<Rightarrow> 'd checkpoint_store \<Rightarrow> checkpoint_record result \<times> 'd checkpoint_store" where
  "take_checkpoint g unique fresh now_ms wa message_id session rid worktree n_ref s =
     (let (n, git_ref) = n_ref
      in case commit_index g unique worktree (''concerto checkpoint '' @ show_int n @ '' for '' @ session) (ck_disk s) of
           (Inl e, d1) \<Rightarrow> (git_err ''checkpoint commit_index: '' (Inl e), s\<lparr>ck_disk := d1\<rparr>)
         | (Inr oid, d1) \<Rightarrow>
             (case gc_update_ref g worktree git_ref oid d1 of
                (Inl e, d2) \<Rightarrow> (git_err ''checkpoint update_ref: '' (Inl e), s\<lparr>ck_disk := d2\<rparr>)
              | (Inr _, d2) \<Rightarrow>
                  (case checkpoints_insert fresh \<lparr>cp_workarea_id = wa, cp_repository_id = rid, cp_chat_message_id = message_id,
                          cp_git_ref = git_ref, cp_created_at = now_ms, cp_diff_stats_json = None\<rparr> (s\<lparr>ck_disk := d2\<rparr>) of
                     (Inl e, s') \<Rightarrow> (Inl e, s')
                   | (Inr _, s') \<Rightarrow> (Inr \<lparr>cr_checkpoint_id = fresh, cr_repository_id = rid, cr_git_ref = git_ref\<rparr>, s'))))"

fun checkpoint_repos ::
  "'d git_cmds \<Rightarrow> (nat \<Rightarrow> string) \<Rightarrow> (nat \<Rightarrow> string) \<Rightarrow> nat \<Rightarrow> int \<Rightarrow> string \<Rightarrow> string \<Rightarrow> string \<Rightarrow> (string \<times> string) list
     \<Rightarrow> 'd checkpoint_store \<Rightarrow> checkpoint_record list result \<times> 'd checkpoint_store" where
  "checkpoint_repos g unique fresh k now_ms wa message_id session [] s = (Inr [], s)"
| "checkpoint_repos g unique fresh k now_ms wa message_id session ((rid, worktree) # repos) s =
     (case take_checkpoint g (unique k) (fresh k) now_ms wa message_id session rid worktree (next_ref s wa rid) s of
        (Inl e, s') \<Rightarrow> (Inl e, s')
      | (Inr rec, s') \<Rightarrow>
          (case checkpoint_repos g unique fresh (Suc k) now_ms wa message_id session repos s' of
             (Inl e, s'') \<Rightarrow> (Inl e, s'')
           | (Inr recs, s'') \<Rightarrow> (Inr (rec # recs), s'')))"

definition create_checkpoint_for_workarea ::
  "'d git_cmds \<Rightarrow> (nat \<Rightarrow> string) \<Rightarrow> (nat \<Rightarrow> string) \<Rightarrow> int \<Rightarrow> string \<Rightarrow> string \<Rightarrow> string
     \<Rightarrow> 'd checkpoint_store \<Rightarrow> checkpoint_record list result \<times> 'd checkpoint_store" where
  "create_checkpoint_for_workarea g unique fresh now_ms wa message_id session s =
     checkpoint_repos g unique fresh 0 now_ms wa message_id session (list_workarea_repos (ck_db s) wa) s"

text \<open>The marker message of a turn, and what the read pump does at the end of a turn: a failure is logged.\<close>

definition insert_turn_message :: "string \<Rightarrow> int \<Rightarrow> string \<Rightarrow> 'd checkpoint_store \<Rightarrow> string result \<times> 'd checkpoint_store" where
  "insert_turn_message fresh now_ms chat s =
     (let (r, t) = chat_insert (ck_chats s) fresh
            \<lparr>cm_chat_id = chat, cm_role = ''assistant'',
             cm_content_json = [CHR 0x7B, CHR 0x22] @ ''v0_1_turn_marker'' @ [CHR 0x22, CHR 0x3A] @ ''true'' @ [CHR 0x7D],
             cm_created_at = now_ms, cm_parent_id = None, cm_superseded_by = None, cm_metadata = None\<rparr> (ck_messages s)
      in (r, s\<lparr>ck_messages := t\<rparr>))"

definition turn_checkpoint ::
  "'d git_cmds \<Rightarrow> (nat \<Rightarrow> string) \<Rightarrow> (nat \<Rightarrow> string) \<Rightarrow> string \<Rightarrow> int \<Rightarrow> string \<Rightarrow> string \<Rightarrow> string
     \<Rightarrow> 'd checkpoint_store \<Rightarrow> (string \<times> string) list \<times> 'd checkpoint_store" where
  "turn_checkpoint g unique fresh message_id now_ms wa chat session s =
     (case insert_turn_message message_id now_ms chat s of
        (Inl e, s1) \<Rightarrow> ([], s1)
      | (Inr m, s1) \<Rightarrow>
          (case create_checkpoint_for_workarea g unique fresh now_ms wa m session s1 of
             (Inl e, s2) \<Rightarrow> ([], s2)
           | (Inr recs, s2) \<Rightarrow> (map (\<lambda>r. (cr_checkpoint_id r, cr_git_ref r)) recs, s2)))"

section \<open>Going back\<close>

fun reset_each ::
  "'d git_cmds \<Rightarrow> (string \<times> string) list \<Rightarrow> (string \<times> checkpoint_row) list \<Rightarrow> 'd \<Rightarrow> nat result \<times> 'd" where
  "reset_each g repo_paths [] d = (Inr 0, d)"
| "reset_each g repo_paths ((i, cp) # rest) d =
     (case find (\<lambda>(rid, path). rid = cp_repository_id cp) repo_paths of
        None \<Rightarrow> (Inl (NotFound (''no workarea_repos row for ('' @ cp_workarea_id cp @ '', '' @ cp_repository_id cp
                   @ '') '' @ [CHR 0xE2, CHR 0x80, CHR 0x94] @ '' cannot resolve worktree path'')), d)
      | Some (_, worktree) \<Rightarrow>
          (case gc_reset_hard g worktree (cp_git_ref cp) d of
             (Inl e, d1) \<Rightarrow> (git_err ''revert hard_reset: '' (Inl e), d1)
           | (Inr _, d1) \<Rightarrow>
               (case reset_each g repo_paths rest d1 of
                  (Inl e, d2) \<Rightarrow> (Inl e, d2)
                | (Inr n, d2) \<Rightarrow> (Inr (Suc n), d2))))"

definition revert_workarea_to_checkpoint ::
  "'d git_cmds \<Rightarrow> string \<Rightarrow> string \<Rightarrow> 'd checkpoint_store \<Rightarrow> nat result \<times> 'd checkpoint_store" where
  "revert_workarea_to_checkpoint g checkpoint_id chat s =
     (case checkpoints_get s checkpoint_id of
        None \<Rightarrow> (Inl (NotFound (''checkpoint '' @ checkpoint_id @ '' not found'')), s)
      | Some head \<Rightarrow>
          (let siblings = get_with_siblings s (cp_chat_message_id head);
               to_reset = (if siblings = [] then [(checkpoint_id, head)] else siblings)
           in case reset_each g (list_workarea_repos (ck_db s) (cp_workarea_id head)) to_reset (ck_disk s) of
                (Inl e, d) \<Rightarrow> (Inl e, s\<lparr>ck_disk := d\<rparr>)
              | (Inr n, d) \<Rightarrow>
                  (Inr n, s\<lparr>ck_disk := d, ck_messages := snd (soft_delete_after chat (cp_created_at head)
                            (cp_chat_message_id head) (ck_messages s))\<rparr>)))"

text \<open>\<open>live\<close> are the running sessions of the supervisor with their workareas; \<open>stop\<close> stops one.\<close>

fun stop_each :: "(string \<Rightarrow> unit result) \<Rightarrow> string list \<Rightarrow> unit result \<times> string list" where
  "stop_each stop [] = (Inr (), [])"
| "stop_each stop (sid # sids) =
     (case stop sid of
        Inl (NotFound _) \<Rightarrow> (let (r, done) = stop_each stop sids in (r, sid # done))
      | Inl e \<Rightarrow> (Inl e, [sid])
      | Inr _ \<Rightarrow> (let (r, done) = stop_each stop sids in (r, sid # done)))"

definition revert_to_checkpoint ::
  "'d git_cmds \<Rightarrow> (string \<Rightarrow> unit result) \<Rightarrow> (string \<times> string) list \<Rightarrow> string \<Rightarrow> string
     \<Rightarrow> 'd checkpoint_store \<Rightarrow> unit result \<times> string list \<times> 'd checkpoint_store" where
  "revert_to_checkpoint g stop live checkpoint_id session s =
     (case checkpoints_get s checkpoint_id of
        None \<Rightarrow> (Inl (NotFound (''checkpoint '' @ checkpoint_id @ '' not found'')), [], s)
      | Some cp \<Rightarrow>
          (case stop_each stop (map fst (filter (\<lambda>(sid, wa). wa = cp_workarea_id cp) live)) of
             (Inl e, stopped) \<Rightarrow> (Inl e, stopped, s)
           | (Inr _, stopped) \<Rightarrow>
               (case map_of (ck_session_chats s) session of
                  None \<Rightarrow> (Inl (NotFound (''session '' @ session @ '' not found'')), stopped, s)
                | Some chat \<Rightarrow>
                    (case revert_workarea_to_checkpoint g checkpoint_id chat s of
                       (Inl e, s') \<Rightarrow> (Inl e, stopped, s')
                     | (Inr n, s') \<Rightarrow> (Inr (), stopped, s')))))"


section \<open>What git documents\<close>

text \<open>
  The files of a worktree that are not ignored, the paths it tracks, the trees of commits and of trees,
  the refs, the contents of an index file, and whether \<open>.git\<close> is a directory; in a worktree that
  \<open>git worktree add\<close> made it is a file.
\<close>

record 'd git_view =
  gv_files :: "'d \<Rightarrow> string \<Rightarrow> string \<Rightarrow> string option"
  gv_tracked :: "'d \<Rightarrow> string \<Rightarrow> string set"
  gv_tree :: "'d \<Rightarrow> string \<Rightarrow> (string \<Rightarrow> string option) option"
  gv_ref :: "'d \<Rightarrow> string \<Rightarrow> string \<Rightarrow> string option"
  gv_index :: "'d \<Rightarrow> string \<Rightarrow> (string \<Rightarrow> string option) option"
  gv_dotgit_dir :: "'d \<Rightarrow> string \<Rightarrow> bool"

definition same_work :: "'d git_view \<Rightarrow> 'd \<Rightarrow> 'd \<Rightarrow> bool" where
  "same_work v d d' \<longleftrightarrow> gv_files v d' = gv_files v d \<and> gv_tracked v d' = gv_tracked v d \<and> gv_ref v d' = gv_ref v d
     \<and> gv_dotgit_dir v d' = gv_dotgit_dir v d \<and> (\<forall>i m. gv_tree v d i = Some m \<longrightarrow> gv_tree v d' i = Some m)"

text \<open>\<open>reset --hard\<close>: the files of the tree come back, other tracked ones go, untracked ones stay.\<close>

definition restored :: "(string \<Rightarrow> string option) \<Rightarrow> string set \<Rightarrow> (string \<Rightarrow> string option) \<Rightarrow> string \<Rightarrow> string option" where
  "restored tree tracked files p = (if tree p \<noteq> None then tree p else if p \<in> tracked then None else files p)"

definition git_documented :: "'d git_cmds \<Rightarrow> 'd git_view \<Rightarrow> bool" where
  "git_documented g v \<longleftrightarrow>
     (\<forall>dir u h d d'. gc_read_tree g dir (index_path dir u) h d = (Inr (), d') \<longrightarrow> gv_dotgit_dir v d dir \<and> same_work v d d')
   \<and> (\<forall>dir u d d'. gc_add_all g dir (index_path dir u) d = (Inr (), d') \<longrightarrow>
        gv_dotgit_dir v d dir \<and> same_work v d d' \<and> gv_index v d' (index_path dir u) = Some (gv_files v d dir))
   \<and> (\<forall>dir idx d d' t m. gc_write_tree g dir idx d = (Inr t, d') \<longrightarrow>
        same_work v d d' \<and> (gv_index v d idx = Some m \<longrightarrow> gv_tree v d' (trim t) = Some m))
   \<and> (\<forall>dir t p msg d d' c m. gc_commit_tree g dir t p msg d = (Inr c, d') \<longrightarrow>
        same_work v d d' \<and> (gv_tree v d t = Some m \<longrightarrow> gv_tree v d' (trim c) = Some m))
   \<and> (\<forall>dir u d. same_work v d (gc_remove_file g (index_path dir u) d))
   \<and> (\<forall>dir r i d d'. gc_update_ref g dir r i d = (Inr (), d') \<longrightarrow>
        gv_ref v d' dir r = Some i \<and> (\<forall>dir' r'. r' \<noteq> r \<longrightarrow> gv_ref v d' dir' r' = gv_ref v d dir' r')
        \<and> gv_files v d' = gv_files v d \<and> gv_tracked v d' = gv_tracked v d
        \<and> (\<forall>i m. gv_tree v d i = Some m \<longrightarrow> gv_tree v d' i = Some m))
   \<and> (\<forall>dir r d d'. gc_reset_hard g dir r d = (Inr (), d') \<longrightarrow>
        (\<exists>i m. gv_ref v d dir r = Some i \<and> gv_tree v d i = Some m
           \<and> gv_files v d' dir = restored m (gv_tracked v d dir) (gv_files v d dir))
        \<and> (\<forall>dir'. dir' \<noteq> dir \<longrightarrow> gv_files v d' dir' = gv_files v d dir' \<and> gv_tracked v d' dir' = gv_tracked v d dir')
        \<and> (\<forall>dir' r'. starts_with_str r' REF_PREFIX \<longrightarrow> gv_ref v d' dir' r' = gv_ref v d dir' r')
        \<and> (\<forall>i m. gv_tree v d i = Some m \<longrightarrow> gv_tree v d' i = Some m))"

lemma same_work_refl: "same_work v d d"
  by (simp add: same_work_def)

lemma same_work_trans: "same_work v d d1 \<Longrightarrow> same_work v d1 d2 \<Longrightarrow> same_work v d d2"
  by (simp add: same_work_def)

lemma git_err_simps [simp]: "git_err w (Inr x) = Inr x" "git_err w (Inl e) = Inl (Git (w @ error_display e))"
  by (simp_all add: git_err_def)

lemma git_err_Inr [simp]: "git_err w r = Inr x \<longleftrightarrow> r = Inr x"
  by (cases r) simp_all

lemma stage_all_ok:
  assumes "git_documented g v" and "stage_all g dir (index_path dir u) head d = (Inr (), d')"
  shows "gv_dotgit_dir v d dir \<and> same_work v d d' \<and> gv_index v d' (index_path dir u) = Some (gv_files v d dir)"
proof -
  obtain d1 where r: "(case head of None \<Rightarrow> (Inr (), d) | Some h \<Rightarrow> gc_read_tree g dir (index_path dir u) h d) = (Inr (), d1)"
    and a: "gc_add_all g dir (index_path dir u) d1 = (Inr (), d')"
    using assms(2) by (auto simp: stage_all_def Let_def split: prod.splits sum.splits)
  have d1: "same_work v d d1"
    using r assms(1) by (auto simp: git_documented_def same_work_refl split: option.splits)
  have "gv_dotgit_dir v d1 dir \<and> same_work v d1 d' \<and> gv_index v d' (index_path dir u) = Some (gv_files v d1 dir)"
    using a assms(1) by (simp add: git_documented_def)
  then show ?thesis using d1 same_work_trans [OF d1] by (simp add: same_work_def)
qed

lemma write_tree_ok:
  assumes "git_documented g v" and "gc_write_tree g dir idx d = (Inr t, d')"
  shows "same_work v d d' \<and> (gv_index v d idx = Some m \<longrightarrow> gv_tree v d' (trim t) = Some m)"
  using assms(2) conjunct1 [OF conjunct2 [OF conjunct2 [OF assms(1) [unfolded git_documented_def]]]] by blast

lemma commit_tree_ok:
  assumes "git_documented g v" and "gc_commit_tree g dir t p msg d = (Inr c, d')"
  shows "same_work v d d' \<and> (gv_tree v d t = Some m \<longrightarrow> gv_tree v d' (trim c) = Some m)"
  using assms(2) conjunct1 [OF conjunct2 [OF conjunct2 [OF conjunct2 [OF assms(1) [unfolded git_documented_def]]]]] by blast

lemma commit_index_ok:
  assumes doc: "git_documented g v" and ok: "commit_index g u dir msg d = (Inr c, d')"
  shows "gv_dotgit_dir v d dir \<and> same_work v d d' \<and> gv_tree v d' c = Some (gv_files v d dir)"
proof -
  let ?idx = "index_path dir u"
  obtain head d1 tree d2 commit d3 where
    s: "stage_all g dir ?idx head d = (Inr (), d1)" and w: "gc_write_tree g dir ?idx d1 = (Inr tree, d2)"
    and k: "gc_commit_tree g dir (trim tree) head msg d2 = (Inr commit, d3)"
    and out: "c = trim commit" "d' = gc_remove_file g ?idx d3"
    using ok by (auto simp: commit_index_def Let_def split: prod.splits sum.splits)
  note st = stage_all_ok [OF doc s]
  have w': "same_work v d1 d2" "gv_tree v d2 (trim tree) = Some (gv_files v d dir)"
    using write_tree_ok [OF doc w] st by blast+
  have k': "same_work v d2 d3" "gv_tree v d3 c = Some (gv_files v d dir)"
    using commit_tree_ok [OF doc k] w'(2) out(1) by blast+
  have f: "same_work v d3 d'" using doc out(2) by (simp add: git_documented_def)
  have "same_work v d d'" using st w'(1) k'(1) f by (meson same_work_trans)
  moreover have "gv_tree v d' c = Some (gv_files v d dir)" using k'(2) f by (simp add: same_work_def)
  ultimately show ?thesis using st by blast
qed

section \<open>Refs\<close>

lemma show_nat_no_slash: "CHR ''/'' \<notin> set (show_nat n)"
proof -
  have "\<not> is_digit CHR ''/''" by (simp add: is_digit_def)
  then show ?thesis using show_nat_digits [of n] by (auto simp: list_all_iff)
qed

lemma last_segment: "0 \<le> n \<Longrightarrow> last (split_on CHR ''/'' (checkpoint_ref wa rid n)) = show_int n"
proof -
  assume "0 \<le> n"
  then have s: "CHR ''/'' \<notin> set (show_int n)" by (simp add: show_int_def show_nat_no_slash)
  have r: "checkpoint_ref wa rid n = (REF_PREFIX @ ''/'' @ wa @ ''/'' @ rid) @ CHR ''/'' # show_int n"
    by (simp add: checkpoint_ref_def)
  show ?thesis unfolding r split_on_append split_on_plain [OF s] by simp
qed

lemma parse_checkpoint_ref:
  assumes "0 \<le> n" "n \<le> i64_max" shows "parse_trailing_n (checkpoint_ref wa rid n) = Some n"
proof -
  obtain c r where cr: "show_nat (nat n) = c # r" using show_nat_nonempty by (cases "show_nat (nat n)") auto
  have "is_digit c" using show_nat_digits [of "nat n"] cr by simp
  then have "c \<noteq> CHR ''-''" "c \<noteq> CHR ''+''" by (auto simp: is_digit_def)
  then have "parse_i64 (show_nat (nat n)) = Some n"
    using assms parse_show_nat [of "nat n"] by (simp add: parse_i64_def cr i64_min_def)
  then show ?thesis using assms(1) by (simp add: parse_trailing_n_def last_segment) (simp add: show_int_def)
qed

lemma checkpoint_ref_inject:
  assumes "0 \<le> n" "0 \<le> n'" "checkpoint_ref wa rid n = checkpoint_ref wa rid' n'"
  shows "rid = rid' \<and> n = n'"
proof -
  have "show_int n = show_int n'" using last_segment [OF assms(1)] last_segment [OF assms(2)] assms(3) by metis
  then have "nat n = nat n'" using assms(1,2) show_nat_inject by (simp add: show_int_def)
  then have "n = n'" using assms(1,2) by simp
  then show ?thesis using assms(3) by (simp add: checkpoint_ref_def)
qed

lemma fold_max_ge:
  fixes f :: "'a \<Rightarrow> int option"
  shows "a \<le> foldl (\<lambda>m x. case f x of Some n \<Rightarrow> if m < n then n else m | None \<Rightarrow> m) a xs
    \<and> (\<forall>x\<in>set xs. \<forall>n. f x = Some n \<longrightarrow> n \<le> foldl (\<lambda>m x. case f x of Some n \<Rightarrow> if m < n then n else m | None \<Rightarrow> m) a xs)"
proof (induction xs arbitrary: a)
  case (Cons x xs)
  let ?b = "case f x of Some n \<Rightarrow> if a < n then n else a | None \<Rightarrow> a"
  have "a \<le> ?b" "\<And>n. f x = Some n \<Longrightarrow> n \<le> ?b" by (auto split: option.splits)
  then show ?case using Cons.IH [of ?b] by fastforce
qed simp

lemma max_n_for_ge:
  "0 \<le> max_n_for s wa rid"
  "(i, r) \<in> set (ck_rows s) \<Longrightarrow> cp_workarea_id r = wa \<Longrightarrow> cp_repository_id r = rid \<Longrightarrow> parse_trailing_n (cp_git_ref r) = Some n
     \<Longrightarrow> n \<le> max_n_for s wa rid"
  using fold_max_ge [of 0 "\<lambda>(i, r). parse_trailing_n (cp_git_ref r)"
      "filter (\<lambda>(i, r). cp_workarea_id r = wa \<and> cp_repository_id r = rid) (ck_rows s)"]
  by (auto simp: max_n_for_def case_prod_unfold)

section \<open>What a checkpoint keeps\<close>

text \<open>A disk that has all the trees and checkpoint refs of another one.\<close>

definition keeps_trees :: "'d git_view \<Rightarrow> 'd \<Rightarrow> 'd \<Rightarrow> bool" where
  "keeps_trees v d d' \<longleftrightarrow> (\<forall>i m. gv_tree v d i = Some m \<longrightarrow> gv_tree v d' i = Some m)"

definition snapshot_at :: "'d git_view \<Rightarrow> 'd \<Rightarrow> string \<Rightarrow> string \<Rightarrow> (string \<Rightarrow> string option) \<Rightarrow> bool" where
  "snapshot_at v d dir r m \<longleftrightarrow> (\<exists>i. gv_ref v d dir r = Some i \<and> gv_tree v d i = Some m)"

lemma keeps_trees_trans: "keeps_trees v d d1 \<Longrightarrow> keeps_trees v d1 d2 \<Longrightarrow> keeps_trees v d d2"
  by (simp add: keeps_trees_def)

lemma update_ref_ok:
  assumes "git_documented g v" and "gc_update_ref g dir r i d = (Inr (), d')"
  shows "gv_ref v d' dir r = Some i \<and> (\<forall>dir' r'. r' \<noteq> r \<longrightarrow> gv_ref v d' dir' r' = gv_ref v d dir' r')
    \<and> gv_files v d' = gv_files v d \<and> gv_tracked v d' = gv_tracked v d \<and> keeps_trees v d d'"
  using assms(2) conjunct1 [OF conjunct2 [OF conjunct2 [OF conjunct2 [OF conjunct2 [OF conjunct2 [OF assms(1) [unfolded git_documented_def]]]]]]]
  unfolding keeps_trees_def by blast

lemma reset_hard_ok:
  assumes "git_documented g v" and "gc_reset_hard g dir r d = (Inr (), d')"
  shows "(\<exists>m. snapshot_at v d dir r m \<and> gv_files v d' dir = restored m (gv_tracked v d dir) (gv_files v d dir))
    \<and> (\<forall>dir'. dir' \<noteq> dir \<longrightarrow> gv_files v d' dir' = gv_files v d dir' \<and> gv_tracked v d' dir' = gv_tracked v d dir')
    \<and> (\<forall>dir' r'. starts_with_str r' REF_PREFIX \<longrightarrow> gv_ref v d' dir' r' = gv_ref v d dir' r') \<and> keeps_trees v d d'"
  using assms(2) conjunct2 [OF conjunct2 [OF conjunct2 [OF conjunct2 [OF conjunct2 [OF conjunct2 [OF assms(1) [unfolded git_documented_def]]]]]]]
  unfolding keeps_trees_def snapshot_at_def by blast

lemma take_checkpoint_Inr:
  assumes "take_checkpoint g u fresh now wa m session rid w (n, r) s = (Inr rec, s')"
  obtains c d1 d2 where "commit_index g u w (''concerto checkpoint '' @ show_int n @ '' for '' @ session) (ck_disk s) = (Inr c, d1)"
    "gc_update_ref g w r c d1 = (Inr (), d2)"
    "rec = \<lparr>cr_checkpoint_id = fresh, cr_repository_id = rid, cr_git_ref = r\<rparr>"
    "s' = s\<lparr>ck_disk := d2, ck_rows := ck_rows s @ [(fresh, \<lparr>cp_workarea_id = wa, cp_repository_id = rid,
       cp_chat_message_id = m, cp_git_ref = r, cp_created_at = now, cp_diff_stats_json = None\<rparr>)]\<rparr>"
    "fresh \<notin> fst ` set (ck_rows s)"
  using assms by (auto simp: take_checkpoint_def checkpoints_insert_def git_err_def split: sum.splits prod.splits if_splits)

lemma take_checkpoint_ok:
  assumes doc: "git_documented g v" and ok: "take_checkpoint g u fresh now wa m session rid w (n, r) s = (Inr rec, s')"
  shows "gv_dotgit_dir v (ck_disk s) w" "gv_files v (ck_disk s') = gv_files v (ck_disk s)"
    "keeps_trees v (ck_disk s) (ck_disk s')" "snapshot_at v (ck_disk s') w r (gv_files v (ck_disk s) w)"
    "\<And>dir r'. r' \<noteq> r \<Longrightarrow> gv_ref v (ck_disk s') dir r' = gv_ref v (ck_disk s) dir r'"
proof -
  obtain c d1 d2 where c: "commit_index g u w (''concerto checkpoint '' @ show_int n @ '' for '' @ session) (ck_disk s) = (Inr c, d1)"
    and up: "gc_update_ref g w r c d1 = (Inr (), d2)" and s': "ck_disk s' = d2"
    by (rule take_checkpoint_Inr [OF ok]) (auto intro: that)
  note k = commit_index_ok [OF doc c] and p = update_ref_ok [OF doc up]
  show "gv_dotgit_dir v (ck_disk s) w" using k by blast
  show "gv_files v (ck_disk s') = gv_files v (ck_disk s)" using k p by (simp add: same_work_def s')
  show "keeps_trees v (ck_disk s) (ck_disk s')" using k p by (simp add: same_work_def keeps_trees_def s')
  show "snapshot_at v (ck_disk s') w r (gv_files v (ck_disk s) w)"
    using k p by (auto simp: snapshot_at_def keeps_trees_def s')
  show "\<And>dir r'. r' \<noteq> r \<Longrightarrow> gv_ref v (ck_disk s') dir r' = gv_ref v (ck_disk s) dir r'"
    using k p by (simp add: same_work_def s')
qed

lemma next_ref_shape: "next_ref s wa rid = (n, r) \<Longrightarrow> 0 < n \<and> r = checkpoint_ref wa rid n"
  using max_n_for_ge(1) [of s wa rid] by (auto simp: next_ref_def Let_def)

lemma checkpoint_ref_prefix: "starts_with_str (checkpoint_ref wa rid n) REF_PREFIX"
  by (simp add: checkpoint_ref_def)

text \<open>What a run of checkpoints leaves: one row and one snapshot for each repository, and nothing else.\<close>

definition row_of ::
  "'d git_view \<Rightarrow> 'd \<Rightarrow> string \<Rightarrow> string \<Rightarrow> int \<Rightarrow> (string \<Rightarrow> string \<Rightarrow> string option)
     \<Rightarrow> string \<times> checkpoint_row \<Rightarrow> string \<times> string \<Rightarrow> bool" where
  "row_of v d wa m now files = (\<lambda>(i, r) (rid, w). cp_workarea_id r = wa \<and> cp_repository_id r = rid \<and> cp_chat_message_id r = m
     \<and> cp_created_at r = now \<and> (\<exists>n\<ge>0. cp_git_ref r = checkpoint_ref wa rid n) \<and> snapshot_at v d w (cp_git_ref r) (files w))"

lemma row_of_later:
  assumes "row_of v d wa m now files row (rid, w)" and "keeps_trees v d d'"
    and "gv_ref v d' w (cp_git_ref (snd row)) = gv_ref v d w (cp_git_ref (snd row))"
  shows "row_of v d' wa m now files row (rid, w)"
  using assms by (auto simp: row_of_def snapshot_at_def keeps_trees_def split: prod.splits)

lemma checkpoint_repos_ok:
  assumes "git_documented g v" and "checkpoint_repos g u f k now wa m session repos s = (Inr recs, s')"
    and "distinct (map fst repos)"
  shows "\<exists>rows. ck_rows s' = ck_rows s @ rows \<and> recs = map (\<lambda>(i, r). \<lparr>cr_checkpoint_id = i, cr_repository_id = cp_repository_id r, cr_git_ref = cp_git_ref r\<rparr>) rows
      \<and> list_all2 (row_of v (ck_disk s') wa m now (gv_files v (ck_disk s))) rows repos
      \<and> gv_files v (ck_disk s') = gv_files v (ck_disk s) \<and> keeps_trees v (ck_disk s) (ck_disk s')
      \<and> (\<forall>dir r. (\<forall>rid n. rid \<in> fst ` set repos \<longrightarrow> 0 \<le> n \<longrightarrow> r \<noteq> checkpoint_ref wa rid n) \<longrightarrow> gv_ref v (ck_disk s') dir r = gv_ref v (ck_disk s) dir r)
      \<and> ck_db s' = ck_db s \<and> ck_messages s' = ck_messages s"
  using assms(2,3)
proof (induction repos arbitrary: k s recs)
  case Nil
  then show ?case by (auto simp: keeps_trees_def)
next
  case (Cons x repos)
  obtain rid w where x: "x = (rid, w)" by (cases x)
  obtain n r where nr: "next_ref s wa rid = (n, r)" by (cases "next_ref s wa rid")
  obtain rec recs' s1 where one: "take_checkpoint g (u k) (f k) now wa m session rid w (n, r) s = (Inr rec, s1)"
    and more': "checkpoint_repos g u f (Suc k) now wa m session repos s1 = (Inr recs', s')" and recs: "recs = rec # recs'"
    using Cons.prems(1) by (auto simp: x nr split: sum.splits prod.splits)
  have dist: "rid \<notin> fst ` set repos" "distinct (map fst repos)" using Cons.prems(2) by (simp_all add: x)
  obtain row where rec: "rec = \<lparr>cr_checkpoint_id = f k, cr_repository_id = rid, cr_git_ref = r\<rparr>"
    and s1: "ck_rows s1 = ck_rows s @ [(f k, row)]" "ck_db s1 = ck_db s" "ck_messages s1 = ck_messages s"
    and row: "row = \<lparr>cp_workarea_id = wa, cp_repository_id = rid, cp_chat_message_id = m, cp_git_ref = r, cp_created_at = now, cp_diff_stats_json = None\<rparr>"
    by (rule take_checkpoint_Inr [OF one]) (auto intro: that)
  note t = take_checkpoint_ok [OF assms(1) one] and shape = next_ref_shape [OF nr]
  obtain rows where IH: "ck_rows s' = ck_rows s1 @ rows"
      "recs' = map (\<lambda>(i, r). \<lparr>cr_checkpoint_id = i, cr_repository_id = cp_repository_id r, cr_git_ref = cp_git_ref r\<rparr>) rows"
      "list_all2 (row_of v (ck_disk s') wa m now (gv_files v (ck_disk s1))) rows repos"
      "gv_files v (ck_disk s') = gv_files v (ck_disk s1)" "keeps_trees v (ck_disk s1) (ck_disk s')"
      "\<And>dir r. (\<And>rid n. rid \<in> fst ` set repos \<Longrightarrow> 0 \<le> n \<Longrightarrow> r \<noteq> checkpoint_ref wa rid n) \<Longrightarrow> gv_ref v (ck_disk s') dir r = gv_ref v (ck_disk s1) dir r"
      "ck_db s' = ck_db s1" "ck_messages s' = ck_messages s1"
    using Cons.IH [OF more' dist(2)] by (elim exE conjE) (rule that; blast)
  have r_free: "gv_ref v (ck_disk s') dir r = gv_ref v (ck_disk s1) dir r" for dir
    using IH(6) checkpoint_ref_inject dist(1) shape by (metis less_imp_le)
  have "row_of v (ck_disk s1) wa m now (gv_files v (ck_disk s)) (f k, row) (rid, w)"
    using t(4) shape by (auto simp: row_of_def row intro: less_imp_le)
  then have here: "row_of v (ck_disk s') wa m now (gv_files v (ck_disk s)) (f k, row) (rid, w)"
    by (rule row_of_later [OF _ IH(5)]) (simp add: row r_free)
  have others: "gv_ref v (ck_disk s') dir q = gv_ref v (ck_disk s) dir q"
    if q: "\<forall>rid' n. rid' \<in> fst ` set (x # repos) \<longrightarrow> 0 \<le> n \<longrightarrow> q \<noteq> checkpoint_ref wa rid' n" for dir q
  proof -
    have "q \<noteq> r" using q shape by (auto simp: x)
    moreover have "gv_ref v (ck_disk s') dir q = gv_ref v (ck_disk s1) dir q" using IH(6) q by auto
    ultimately show ?thesis using t(5) by simp
  qed
  have all: "list_all2 (row_of v (ck_disk s') wa m now (gv_files v (ck_disk s))) ((f k, row) # rows) (x # repos)"
    using here IH(3) t(2) by (simp add: x)
  have rows: "ck_rows s' = ck_rows s @ (f k, row) # rows" using IH(1) s1(1) by simp
  have recs'': "recs = map (\<lambda>(i, r). \<lparr>cr_checkpoint_id = i, cr_repository_id = cp_repository_id r, cr_git_ref = cp_git_ref r\<rparr>) ((f k, row) # rows)"
    using IH(2) by (simp add: recs rec row)
  have same: "gv_files v (ck_disk s') = gv_files v (ck_disk s)" "ck_db s' = ck_db s" "ck_messages s' = ck_messages s"
    using IH(4,7,8) t(2) s1 by simp_all
  show ?case
    using rows recs'' all same keeps_trees_trans [OF t(3) IH(5)] others by blast
qed

lemma mset_insert_by_key: "mset (insert_by_key k x ys) = add_mset x (mset ys)"
  by (induction ys) auto

lemma mset_sort_by_key: "mset (sort_by_key k xs) = mset xs"
  by (induction xs) (simp_all add: sort_by_key_def mset_insert_by_key)

lemma length_sort_by_key: "length (sort_by_key k xs) = length xs"
  using mset_sort_by_key by (metis size_mset)

lemma distinct_map_sort_by_key: "distinct (map f (sort_by_key k xs)) = distinct (map f xs)"
  by (rule mset_eq_imp_distinct_iff) (simp add: mset_map mset_sort_by_key)

lemma find_repo:
  "distinct (map fst repos) \<Longrightarrow> (rid, w) \<in> set repos \<Longrightarrow> find (\<lambda>(rid', path). rid' = rid) repos = Some (rid, w)"
  by (induction repos) (auto simp: image_iff)

lemma reset_each_ok:
  assumes "git_documented g v" and "distinct (map fst repos)" and "distinct (map snd repos)"
    and "reset_each g repos cps d = (Inr n, d')" and "distinct (map (cp_repository_id \<circ> snd) cps)"
    and "\<And>i r w. (i, r) \<in> set cps \<Longrightarrow> (cp_repository_id r, w) \<in> set repos \<Longrightarrow> snapshot_at v d w (cp_git_ref r) (files w) \<and> starts_with_str (cp_git_ref r) REF_PREFIX"
  shows "n = length cps \<and> (\<forall>(i, r)\<in>set cps. \<exists>w. (cp_repository_id r, w) \<in> set repos)
    \<and> (\<forall>(rid, w)\<in>set repos. gv_files v d' w = (if rid \<in> (cp_repository_id \<circ> snd) ` set cps
          then restored (files w) (gv_tracked v d w) (gv_files v d w) else gv_files v d w))"
  using assms(4,5,6)
proof (induction cps arbitrary: d n)
  case (Cons x cps)
  obtain i r where x: "x = (i, r)" by (cases x)
  obtain rid w d1 n1 where f: "find (\<lambda>(rid, path). rid = cp_repository_id r) repos = Some (rid, w)"
    and one: "gc_reset_hard g w (cp_git_ref r) d = (Inr (), d1)"
    and more': "reset_each g repos cps d1 = (Inr n1, d')" and n: "n = Suc n1"
    using Cons.prems(1) by (auto simp: x split: option.splits sum.splits prod.splits)
  have w: "(cp_repository_id r, w) \<in> set repos" using f unfolding find_Some_iff by clarsimp (metis nth_mem)
  note ok = reset_hard_ok [OF assms(1) one]
  have snap: "snapshot_at v d w (cp_git_ref r) (files w)" using Cons.prems(3) [of i r w] w x by simp
  then have here: "gv_files v d1 w = restored (files w) (gv_tracked v d w) (gv_files v d w)"
    using ok by (auto simp: snapshot_at_def)
  have snaps: "snapshot_at v d1 w' (cp_git_ref r') (files w') \<and> starts_with_str (cp_git_ref r') REF_PREFIX"
    if a: "(i', r') \<in> set cps" "(cp_repository_id r', w') \<in> set repos" for i' r' w'
    using Cons.prems(3) [of i' r' w'] a ok by (auto simp: snapshot_at_def keeps_trees_def)
  have d': "distinct (map (cp_repository_id \<circ> snd) cps)" using Cons.prems(2) by (simp add: comp_def)
  have IH: "n1 = length cps \<and> (\<forall>(i, r)\<in>set cps. \<exists>w. (cp_repository_id r, w) \<in> set repos)
    \<and> (\<forall>(rid, w)\<in>set repos. gv_files v d' w = (if rid \<in> (cp_repository_id \<circ> snd) ` set cps
          then restored (files w) (gv_tracked v d1 w) (gv_files v d1 w) else gv_files v d1 w))"
    by (rule Cons.IH [OF more' d']) (rule snaps; assumption)
  have elsewhere: "gv_files v d1 w' = gv_files v d w' \<and> gv_tracked v d1 w' = gv_tracked v d w'"
    if "(rid', w') \<in> set repos" "rid' \<noteq> cp_repository_id r" for rid' w'
  proof -
    have "w' \<noteq> w" using that w assms(3) by (metis distinct_map inj_onD prod.inject snd_conv)
    then show ?thesis using ok by blast
  qed
  have only: "w' = w" if "(cp_repository_id r, w') \<in> set repos" for w'
    using that w assms(2) by (meson eq_key_imp_eq_value)
  have notin: "cp_repository_id r \<notin> (cp_repository_id \<circ> snd) ` set cps" using Cons.prems(2) by (auto simp: x)
  have IH': "n1 = length cps" "\<forall>(i, r)\<in>set cps. \<exists>w. (cp_repository_id r, w) \<in> set repos"
    "\<And>rid w. (rid, w) \<in> set repos \<Longrightarrow> gv_files v d' w = (if rid \<in> (cp_repository_id \<circ> snd) ` set cps
          then restored (files w) (gv_tracked v d1 w) (gv_files v d1 w) else gv_files v d1 w)"
    using IH by blast+
  have "gv_files v d' w' = (if rid' \<in> (cp_repository_id \<circ> snd) ` set (x # cps)
          then restored (files w') (gv_tracked v d w') (gv_files v d w') else gv_files v d w')"
    if a: "(rid', w') \<in> set repos" for rid' w'
  proof (cases "rid' = cp_repository_id r")
    case True
    then show ?thesis using IH'(3) [OF a] only a notin here by (auto simp: x)
  next
    case False
    then show ?thesis using IH'(3) [OF a] elsewhere [OF a False] by (auto simp: x)
  qed
  then have "\<forall>(rid, w)\<in>set repos. gv_files v d' w = (if rid \<in> (cp_repository_id \<circ> snd) ` set (x # cps)
          then restored (files w) (gv_tracked v d w) (gv_files v d w) else gv_files v d w)" by blast
  moreover have "n = length (x # cps)" using IH'(1) n by simp
  moreover have "\<forall>(i, r)\<in>set (x # cps). \<exists>w. (cp_repository_id r, w) \<in> set repos" using IH'(2) w by (auto simp: x)
  ultimately show ?case by blast
qed auto

lemma workarea_repo_paths_functional:
  "distinct (map fst repos) \<Longrightarrow> (rid, w) \<in> set repos \<Longrightarrow> (rid, w') \<in> set repos \<Longrightarrow> w = w'"
  by (rule eq_key_imp_eq_value)

lemma row_of_set:
  assumes "list_all2 (row_of v d wa m now files) rows repos"
  shows "(i, r) \<in> set rows \<Longrightarrow> cp_chat_message_id r = m \<and> cp_workarea_id r = wa \<and> cp_created_at r = now
           \<and> (\<exists>w. (cp_repository_id r, w) \<in> set repos \<and> snapshot_at v d w (cp_git_ref r) (files w))
           \<and> starts_with_str (cp_git_ref r) REF_PREFIX"
    and "map (cp_repository_id \<circ> snd) rows = map fst repos" and "length rows = length repos"
  using assms
  by (induction rows repos rule: list_all2_induct) (auto simp: row_of_def checkpoint_ref_prefix split: prod.splits)

section \<open>The properties\<close>


text \<open>C40: In worktrees that \<open>git worktree add\<close> made, where \<open>.git\<close> is a file, no turn leaves a
  checkpoint: the temporary index is below \<open>.git\<close>, git cannot write it, and the failure is only logged.
  This is what every worktree of a workarea is.\<close>

theorem no_checkpoint_in_linked_worktrees:
  assumes doc: "git_documented g v"
    and linked: "\<forall>d. \<forall>(rid, w)\<in>set (list_workarea_repos (ck_db s) wa). \<not> gv_dotgit_dir v d w"
    and some: "list_workarea_repos (ck_db s) wa \<noteq> []"
  shows "fst (turn_checkpoint g unique fresh message_id now wa chat session s) = []
    \<and> ck_rows (snd (turn_checkpoint g unique fresh message_id now wa chat session s)) = ck_rows s"
proof -
  obtain rid w repos where r: "list_workarea_repos (ck_db s) wa = (rid, w) # repos"
    using some by (cases "list_workarea_repos (ck_db s) wa") auto
  have fails: "\<exists>e d1. commit_index g u w msg d = (Inl e, d1)" for u msg d
  proof (cases "fst (commit_index g u w msg d)")
    case (Inl e)
    then show ?thesis by (metis prod.collapse)
  next
    case (Inr c)
    then have "gv_dotgit_dir v d w" using commit_index_ok [OF doc] by (metis prod.collapse)
    then show ?thesis using linked r by auto
  qed
  have none: "\<exists>e d1. take_checkpoint g u f now wa m session rid w nr t = (Inl e, t\<lparr>ck_disk := d1\<rparr>)" for u f m nr t
    using fails [of u "''concerto checkpoint '' @ show_int (fst nr) @ '' for '' @ session" "ck_disk t"]
    by (cases nr) (auto simp: take_checkpoint_def)
  have create: "\<exists>e d1. create_checkpoint_for_workarea g unique fresh now wa m session t = (Inl e, t\<lparr>ck_disk := d1\<rparr>)"
    if t: "ck_db t = ck_db s" for m t
    using none [of "unique 0" "fresh 0" m "next_ref t wa rid" t] by (auto simp: create_checkpoint_for_workarea_def t r)
  obtain res s1 where i: "insert_turn_message message_id now chat s = (res, s1)" by (cases "insert_turn_message message_id now chat s")
  then have s1: "ck_db s1 = ck_db s" "ck_rows s1 = ck_rows s"
    by (auto simp: insert_turn_message_def split: prod.splits)
  show ?thesis
  proof (cases res)
    case (Inl e)
    then show ?thesis by (simp add: turn_checkpoint_def i s1)
  next
    case (Inr m)
    then show ?thesis using create [OF s1(1), of m] by (auto simp: turn_checkpoint_def i s1)
  qed
qed

text \<open>The ref of the next checkpoint of a repository is none of the refs that the rows of the
  workarea already name for it, and its number is the one that is read back from the ref.\<close>

theorem next_ref_is_new:
  assumes "max_n_for s wa rid < i64_max"
  shows "parse_trailing_n (snd (next_ref s wa rid)) = Some (max_n_for s wa rid + 1)
    \<and> (\<forall>(i, r)\<in>set (ck_rows s). cp_workarea_id r = wa \<longrightarrow> cp_repository_id r = rid \<longrightarrow> cp_git_ref r \<noteq> snd (next_ref s wa rid))"
proof -
  have n: "parse_trailing_n (snd (next_ref s wa rid)) = Some (max_n_for s wa rid + 1)"
    using assms max_n_for_ge(1) [of s wa rid] by (simp add: next_ref_def Let_def parse_checkpoint_ref)
  then show ?thesis using max_n_for_ge(2) [of _ _ s wa rid "max_n_for s wa rid + 1"] by fastforce
qed

text \<open>Two turns that end in one workarea at the same time (two sessions, or a turn that ends before
  the task of the turn before it) read the same number, so both rows name one ref: it is the later
  snapshot, and going back to the earlier checkpoint gives the later files.\<close>

theorem concurrent_turns_share_a_ref:
  assumes doc: "git_documented g v"
    and first: "take_checkpoint g u1 f1 t1 wa m1 session1 rid w (next_ref s wa rid) s = (Inr rec1, s1)"
    and work: "s1' = s1\<lparr>ck_disk := d\<rparr>"
    and second: "take_checkpoint g u2 f2 t2 wa m2 session2 rid w (next_ref s wa rid) s1' = (Inr rec2, s2)"
  shows "cr_git_ref rec1 = cr_git_ref rec2 \<and> cr_checkpoint_id rec1 \<noteq> cr_checkpoint_id rec2
    \<and> (\<exists>r1 r2. checkpoints_get s2 (cr_checkpoint_id rec1) = Some r1 \<and> checkpoints_get s2 (cr_checkpoint_id rec2) = Some r2 \<and> cp_git_ref r1 = cp_git_ref r2)
    \<and> snapshot_at v (ck_disk s2) w (cr_git_ref rec1) (gv_files v d w)"
proof -
  obtain n r where nr: "next_ref s wa rid = (n, r)" by (cases "next_ref s wa rid")
  obtain row1 where one: "rec1 = \<lparr>cr_checkpoint_id = f1, cr_repository_id = rid, cr_git_ref = r\<rparr>"
      "ck_rows s1 = ck_rows s @ [(f1, row1)]" "cp_git_ref row1 = r" "f1 \<notin> fst ` set (ck_rows s)"
    by (rule take_checkpoint_Inr [OF first [unfolded nr]]) (auto intro: that)
  obtain row2 where two: "rec2 = \<lparr>cr_checkpoint_id = f2, cr_repository_id = rid, cr_git_ref = r\<rparr>"
      "ck_rows s2 = ck_rows s1' @ [(f2, row2)]" "cp_git_ref row2 = r" "f2 \<notin> fst ` set (ck_rows s1')"
    by (rule take_checkpoint_Inr [OF second [unfolded nr]]) (auto intro: that)
  have "map_of (ck_rows s) f1 = None" "map_of (ck_rows s) f2 = None" "f1 \<noteq> f2"
    using one(2,4) two(4) work by (auto simp: map_of_eq_None_iff)
  then have "map_of (ck_rows s @ [(f1, row1), (f2, row2)]) f1 = Some row1" "map_of (ck_rows s @ [(f1, row1), (f2, row2)]) f2 = Some row2"
    by (simp_all add: map_add_def)
  then show ?thesis
    using one two take_checkpoint_ok(4) [OF doc second [unfolded nr]] by (auto simp: checkpoints_get_def work)
qed

text \<open>Going back changes the messages of the chat of the session that asked, and of no other: when
  that session is not the one that made the checkpoint, the conversation that goes with the restored
  files keeps its later messages.\<close>

theorem revert_keeps_other_chats:
  assumes "map_of (ck_session_chats s) session = Some chat"
  shows "filter (\<lambda>(i, m). cm_chat_id m \<noteq> chat) (ck_messages (snd (snd (revert_to_checkpoint g stop live checkpoint_id session s))))
     = filter (\<lambda>(i, m). cm_chat_id m \<noteq> chat) (ck_messages s)"
proof -
  have "filter (\<lambda>(i, m). cm_chat_id m \<noteq> chat) (snd (soft_delete_after chat at keep t)) = filter (\<lambda>(i, m). cm_chat_id m \<noteq> chat) t" for at keep t
    by (induction t) (auto simp: soft_delete_after_def later_than_def)
  then have "filter (\<lambda>(i, m). cm_chat_id m \<noteq> chat) (ck_messages (snd (revert_workarea_to_checkpoint g checkpoint_id chat s)))
      = filter (\<lambda>(i, m). cm_chat_id m \<noteq> chat) (ck_messages s)"
    by (simp add: revert_workarea_to_checkpoint_def Let_def split: option.split sum.split prod.split)
  moreover obtain r s' where "revert_workarea_to_checkpoint g checkpoint_id chat s = (r, s')"
    by (cases "revert_workarea_to_checkpoint g checkpoint_id chat s")
  ultimately show ?thesis
    using assms by (simp add: revert_to_checkpoint_def split: option.split sum.split prod.split)
qed

section \<open>A small git\<close>

text \<open>Every worktree has the one file \<open>f\<close>, with one of two contents; a commit is named by the content.\<close>

record toy_disk =
  td_text :: "string \<Rightarrow> bool"
  td_refs :: "(string \<times> string) \<Rightarrow> string option"
  td_index :: "string \<Rightarrow> bool option"

definition toy_text :: "bool \<Rightarrow> string" where
  "toy_text b = (if b then ''a'' else ''b'')"

definition toy_file :: "string \<Rightarrow> string \<Rightarrow> string option" where
  "toy_file content p = (if p = ''f'' then Some content else None)"

definition not_a_directory :: "'a result" where
  "not_a_directory = Inl (Git ''Not a directory'')"

definition toy_git :: "bool \<Rightarrow> toy_disk git_cmds" where
  "toy_git plain =
     \<lparr>gc_rev_parse_head = \<lambda>dir d. Inr ''a'',
      gc_read_tree = \<lambda>dir idx h d. (if plain then Inr () else not_a_directory, d),
      gc_add_all = \<lambda>dir idx d. (if plain then (Inr (), d\<lparr>td_index := (td_index d)(idx := Some (td_text d dir))\<rparr>) else (not_a_directory, d)),
      gc_write_tree = \<lambda>dir idx d. (case td_index d idx of None \<Rightarrow> (not_a_directory, d) | Some b \<Rightarrow> (Inr (toy_text b), d)),
      gc_commit_tree = \<lambda>dir t p msg d. (Inr t, d),
      gc_remove_file = \<lambda>idx d. d\<lparr>td_index := (td_index d)(idx := None)\<rparr>,
      gc_update_ref = \<lambda>dir r i d. (Inr (), d\<lparr>td_refs := (td_refs d)((dir, r) := Some i)\<rparr>),
      gc_reset_hard = \<lambda>dir r d. (if td_refs d (dir, r) = Some ''a'' then (Inr (), d\<lparr>td_text := (td_text d)(dir := True)\<rparr>)
        else if td_refs d (dir, r) = Some ''b'' then (Inr (), d\<lparr>td_text := (td_text d)(dir := False)\<rparr>)
        else (not_a_directory, d))\<rparr>"

definition toy_view :: "bool \<Rightarrow> toy_disk git_view" where
  "toy_view plain =
     \<lparr>gv_files = \<lambda>d dir. toy_file (toy_text (td_text d dir)),
      gv_tracked = \<lambda>d dir. {''f''},
      gv_tree = \<lambda>d i. if i = ''a'' \<or> i = ''b'' then Some (toy_file i) else None,
      gv_ref = \<lambda>d dir r. td_refs d (dir, r),
      gv_index = \<lambda>d idx. map_option (\<lambda>b. toy_file (toy_text b)) (td_index d idx),
      gv_dotgit_dir = \<lambda>d dir. plain\<rparr>"

lemma toy_documented: "git_documented (toy_git plain) (toy_view plain)"
proof -
  have trims: "trim ''a'' = ''a''" "trim ''b'' = ''b''" by code_simp+
  have back_to: "restored (toy_file i) {''f''} (toy_file j) = toy_file i" for i j
    by (rule ext) (simp add: restored_def toy_file_def)
  note toy = toy_git_def toy_view_def same_work_def not_a_directory_def
  have "\<forall>dir u h d d'. gc_read_tree (toy_git plain) dir (index_path dir u) h d = (Inr (), d') \<longrightarrow>
      gv_dotgit_dir (toy_view plain) d dir \<and> same_work (toy_view plain) d d'"
    by (simp add: toy)
  moreover have "\<forall>dir u d d'. gc_add_all (toy_git plain) dir (index_path dir u) d = (Inr (), d') \<longrightarrow>
      gv_dotgit_dir (toy_view plain) d dir \<and> same_work (toy_view plain) d d'
      \<and> gv_index (toy_view plain) d' (index_path dir u) = Some (gv_files (toy_view plain) d dir)"
    by (auto simp: toy)
  moreover have "\<forall>dir idx d d' t m. gc_write_tree (toy_git plain) dir idx d = (Inr t, d') \<longrightarrow> same_work (toy_view plain) d d'
      \<and> (gv_index (toy_view plain) d idx = Some m \<longrightarrow> gv_tree (toy_view plain) d' (trim t) = Some m)"
    by (auto simp: toy trims toy_text_def split: option.splits)
  moreover have "\<forall>dir t p msg d d' c m. gc_commit_tree (toy_git plain) dir t p msg d = (Inr c, d') \<longrightarrow> same_work (toy_view plain) d d'
      \<and> (gv_tree (toy_view plain) d t = Some m \<longrightarrow> gv_tree (toy_view plain) d' (trim c) = Some m)"
    by (auto simp: toy trims)
  moreover have "\<forall>dir u d. same_work (toy_view plain) d (gc_remove_file (toy_git plain) (index_path dir u) d)"
    by (simp add: toy)
  moreover have "\<forall>dir r i d d'. gc_update_ref (toy_git plain) dir r i d = (Inr (), d') \<longrightarrow> gv_ref (toy_view plain) d' dir r = Some i
      \<and> (\<forall>dir' r'. r' \<noteq> r \<longrightarrow> gv_ref (toy_view plain) d' dir' r' = gv_ref (toy_view plain) d dir' r')
      \<and> gv_files (toy_view plain) d' = gv_files (toy_view plain) d \<and> gv_tracked (toy_view plain) d' = gv_tracked (toy_view plain) d
      \<and> (\<forall>i m. gv_tree (toy_view plain) d i = Some m \<longrightarrow> gv_tree (toy_view plain) d' i = Some m)"
    by (auto simp: toy)
  moreover have "\<forall>dir r d d'. gc_reset_hard (toy_git plain) dir r d = (Inr (), d') \<longrightarrow>
      (\<exists>i m. gv_ref (toy_view plain) d dir r = Some i \<and> gv_tree (toy_view plain) d i = Some m
         \<and> gv_files (toy_view plain) d' dir = restored m (gv_tracked (toy_view plain) d dir) (gv_files (toy_view plain) d dir))
      \<and> (\<forall>dir'. dir' \<noteq> dir \<longrightarrow> gv_files (toy_view plain) d' dir' = gv_files (toy_view plain) d dir'
         \<and> gv_tracked (toy_view plain) d' dir' = gv_tracked (toy_view plain) d dir')
      \<and> (\<forall>dir' r'. starts_with_str r' REF_PREFIX \<longrightarrow> gv_ref (toy_view plain) d' dir' r' = gv_ref (toy_view plain) d dir' r')
      \<and> (\<forall>i m. gv_tree (toy_view plain) d i = Some m \<longrightarrow> gv_tree (toy_view plain) d' i = Some m)"
    by (auto simp: toy back_to toy_text_def split: if_splits)
  ultimately show ?thesis unfolding git_documented_def by blast
qed

definition toy_db :: database where
  "toy_db = \<lparr>db_sessions = [], db_workareas = [], db_workspaces = [], db_repositories = [],
     db_workarea_repos = [(''wa'', ''r1'', ''/w/r1''), (''wa'', ''r2'', ''/w/r2'')], db_workspace_repos = []\<rparr>"

definition toy_disk0 :: toy_disk where
  "toy_disk0 = \<lparr>td_text = \<lambda>dir. True, td_refs = \<lambda>r. None, td_index = \<lambda>idx. None\<rparr>"

definition toy_store :: "toy_disk checkpoint_store" where
  "toy_store = \<lparr>ck_db = toy_db, ck_rows = [], ck_chats = [''c'', ''c2''],
     ck_messages = [(''m'', sample_message 0), (''m2'', (sample_message 50)\<lparr>cm_chat_id := ''c2''\<rparr>)],
     ck_session_chats = [(''s'', ''c''), (''s2'', ''c2'')], ck_disk = toy_disk0\<rparr>"

definition toy_taken :: "checkpoint_record list result \<times> toy_disk checkpoint_store" where
  "toy_taken = create_checkpoint_for_workarea (toy_git True) show_nat show_nat 10 ''wa'' ''m'' ''s'' toy_store"

definition toy_later :: "toy_disk checkpoint_store" where
  "toy_later = (snd toy_taken)\<lparr>ck_disk := (ck_disk (snd toy_taken))\<lparr>td_text := \<lambda>dir. False\<rparr>\<rparr>"

lemma toy_repos: "list_workarea_repos toy_db ''wa'' = [(''r1'', ''/w/r1''), (''r2'', ''/w/r2'')]"
  by code_simp

lemma toy_recs: "fst toy_taken = Inr [\<lparr>cr_checkpoint_id = ''0'', cr_repository_id = ''r1'', cr_git_ref = ''refs/concerto/checkpoints/wa/r1/1''\<rparr>,
     \<lparr>cr_checkpoint_id = ''1'', cr_repository_id = ''r2'', cr_git_ref = ''refs/concerto/checkpoints/wa/r2/1''\<rparr>]"
  by code_simp


theorem no_checkpoint_in_linked_worktrees_witness:
  "fst (turn_checkpoint (toy_git False) show_nat show_nat ''turn'' 10 ''wa'' ''c'' ''s'' toy_store) = []
   \<and> ck_rows (snd (turn_checkpoint (toy_git False) show_nat show_nat ''turn'' 10 ''wa'' ''c'' ''s'' toy_store)) = []"
proof -
  have "ck_rows toy_store = []" "ck_db toy_store = toy_db" by (simp_all add: toy_store_def)
  then show ?thesis
    using no_checkpoint_in_linked_worktrees [OF toy_documented, of toy_store "''wa''" False show_nat show_nat "''turn''" 10 "''c''" "''s''"]
    by (simp add: toy_repos toy_view_def)
qed

theorem next_ref_is_new_witness:
  "parse_trailing_n (snd (next_ref (snd toy_taken) ''wa'' ''r1'')) = Some 2"
proof -
  have "max_n_for (snd toy_taken) ''wa'' ''r1'' = 1" by code_simp
  then show ?thesis using next_ref_is_new [of "snd toy_taken" "''wa''" "''r1''"] by (simp add: i64_max_def)
qed

definition toy_first :: "checkpoint_record result \<times> toy_disk checkpoint_store" where
  "toy_first = take_checkpoint (toy_git True) ''u1'' ''k1'' 10 ''wa'' ''m'' ''s'' ''r1'' ''/w/r1'' (next_ref toy_store ''wa'' ''r1'') toy_store"

definition toy_between :: "toy_disk checkpoint_store" where
  "toy_between = (snd toy_first)\<lparr>ck_disk := (ck_disk (snd toy_first))\<lparr>td_text := \<lambda>dir. False\<rparr>\<rparr>"

definition toy_second :: "checkpoint_record result \<times> toy_disk checkpoint_store" where
  "toy_second = take_checkpoint (toy_git True) ''u2'' ''k2'' 20 ''wa'' ''m2'' ''s2'' ''r1'' ''/w/r1'' (next_ref toy_store ''wa'' ''r1'') toy_between"

theorem concurrent_turns_share_a_ref_witness:
  "snapshot_at (toy_view True) (ck_disk (snd toy_second)) ''/w/r1'' ''refs/concerto/checkpoints/wa/r1/1'' (toy_file ''b'')"
proof -
  have recs: "fst toy_first = Inr \<lparr>cr_checkpoint_id = ''k1'', cr_repository_id = ''r1'', cr_git_ref = ''refs/concerto/checkpoints/wa/r1/1''\<rparr>"
    "fst toy_second = Inr \<lparr>cr_checkpoint_id = ''k2'', cr_repository_id = ''r1'', cr_git_ref = ''refs/concerto/checkpoints/wa/r1/1''\<rparr>"
    by code_simp+
  have first: "take_checkpoint (toy_git True) ''u1'' ''k1'' 10 ''wa'' ''m'' ''s'' ''r1'' ''/w/r1'' (next_ref toy_store ''wa'' ''r1'') toy_store
      = (Inr \<lparr>cr_checkpoint_id = ''k1'', cr_repository_id = ''r1'', cr_git_ref = ''refs/concerto/checkpoints/wa/r1/1''\<rparr>, snd toy_first)"
    using recs(1) by (simp add: toy_first_def prod_eq_iff)
  have second: "take_checkpoint (toy_git True) ''u2'' ''k2'' 20 ''wa'' ''m2'' ''s2'' ''r1'' ''/w/r1'' (next_ref toy_store ''wa'' ''r1'') toy_between
      = (Inr \<lparr>cr_checkpoint_id = ''k2'', cr_repository_id = ''r1'', cr_git_ref = ''refs/concerto/checkpoints/wa/r1/1''\<rparr>, snd toy_second)"
    using recs(2) by (simp add: toy_second_def prod_eq_iff)
  show ?thesis
    using concurrent_turns_share_a_ref [OF toy_documented first toy_between_def second]
    by (simp add: toy_view_def toy_text_def)
qed

theorem revert_keeps_other_chats_witness:
  "filter (\<lambda>(i, m). cm_chat_id m \<noteq> ''c'') (ck_messages (snd (snd (revert_to_checkpoint (toy_git True) (\<lambda>sid. Inr ()) [(''s'', ''wa'')] ''0'' ''s'' toy_later))))
     = [(''m2'', (sample_message 50)\<lparr>cm_chat_id := ''c2''\<rparr>)]
   \<and> fst (revert_to_checkpoint (toy_git True) (\<lambda>sid. Inr ()) [(''s'', ''wa'')] ''0'' ''s'' toy_later) = Inr ()"
proof -
  have "ck_session_chats toy_later = [(''s'', ''c''), (''s2'', ''c2'')]" by code_simp
  then have "map_of (ck_session_chats toy_later) ''s'' = Some ''c''" by simp
  note same = revert_keeps_other_chats [OF this]
  have "filter (\<lambda>(i, m). cm_chat_id m \<noteq> ''c'') (ck_messages toy_later) = [(''m2'', (sample_message 50)\<lparr>cm_chat_id := ''c2''\<rparr>)]"
    "fst (revert_to_checkpoint (toy_git True) (\<lambda>sid. Inr ()) [(''s'', ''wa'')] ''0'' ''s'' toy_later) = Inr ()"
    by code_simp+
  then show ?thesis using same by simp
qed

end
