(* ===== verification/Scheduler.thy ===== *)
theory Scheduler
  imports Tables Approval Status "HOL-Library.Multiset"
begin

text \<open>
  Scheduled prompts (\<open>/loop\<close>): the rows and statements (\<open>persist/src/schedules.rs\<close>, \<open>schedule_runs.rs\<close>),
  the operations of the handle and one fire of a schedule (\<open>scheduler/actor.rs\<close>), the fire loop over the
  wheel of due instants (\<open>scheduler/fire_loop.rs\<close>), and the RPCs (\<open>handlers/schedules.rs\<close>).

  A fire is cut into steps where its code awaits (\<open>fire_phase\<close>); the calls of clients, the sweep, the
  watchers of the runs and a restart of the Core come between them. Only the fire loop fires, one
  schedule at a time. Wall-clock times are milliseconds, the instants of the wheel nanoseconds.
  Fresh identifiers, the two clocks and what the supervisor answers are arguments.
\<close>

section \<open>Rows and statements\<close>

record schedule =
  sc_workarea_id :: string
  sc_kind :: string
  sc_interval_seconds :: int
  sc_expires_at :: int
  sc_last_run_at :: "int option"
  sc_paused :: bool
  sc_prompt :: string
  sc_agent_kind :: string
  sc_created_at :: int

record schedule_run =
  sr_schedule_id :: string
  sr_session_id :: "string option"
  sr_started_at :: int
  sr_ended_at :: "int option"
  sr_terminal_state :: "string option"

datatype session_agent = EchoAgent | ClaudeAgent | CodexAgent | GeminiAgent | MaestroAgent

record start_request =
  rq_workarea_id :: string
  rq_agent_kind :: session_agent
  rq_echo_text :: "string option"
  rq_cwd :: string
  rq_permission_mode :: "string option"
  rq_resume_session_id :: "string option"
  rq_chat_id :: "string option"

text \<open>The fire loop between two awaits: what it holds in its hands.\<close>

datatype fire_phase =
    Idle
  | Popped string
  | Arming string schedule
  | Firing string
  | Checked string schedule int
  | Inserted string string schedule int
  | Started string string string int

record scheduler =
  sd_rows :: "schedule table"
  sd_runs :: "schedule_run table"
  sd_db :: database
  sd_wheel :: "(nat \<times> string) list"
  sd_inflight :: "(string \<times> string) list"
  sd_fire :: fire_phase
  sd_watchers :: "(string \<times> string \<times> string) list"
  sd_requests :: "start_request list"

definition schedules_insert :: "string \<Rightarrow> schedule \<Rightarrow> scheduler \<Rightarrow> unit result \<times> scheduler" where
  "schedules_insert i r s =
     (if map_of (sd_rows s) i \<noteq> None then (Inl (Sqlx ''UNIQUE constraint failed: schedules.id''), s)
      else if workareas_get (sd_db s) (sc_workarea_id r) = None
      then (Inl (Sqlx ''FOREIGN KEY constraint failed''), s)
      else (Inr (), s\<lparr>sd_rows := sd_rows s @ [(i, r)]\<rparr>))"

definition schedules_get :: "scheduler \<Rightarrow> string \<Rightarrow> schedule option" where
  "schedules_get s i = map_of (sd_rows s) i"

definition schedules_by_workarea :: "scheduler \<Rightarrow> string \<Rightarrow> (string \<times> schedule) list" where
  "schedules_by_workarea s wa =
     sort_key (\<lambda>(i, r). sc_created_at r) (filter (\<lambda>(i, r). sc_workarea_id r = wa) (sd_rows s))"

definition list_active :: "scheduler \<Rightarrow> int \<Rightarrow> (string \<times> schedule) list" where
  "list_active s now_ms =
     sort_key (\<lambda>(i, r). sc_created_at r)
       (filter (\<lambda>(i, r). \<not> sc_paused r \<and> now_ms < sc_expires_at r) (sd_rows s))"

definition schedules_pause :: "string \<Rightarrow> scheduler \<Rightarrow> scheduler" where
  "schedules_pause i s = s\<lparr>sd_rows := sql_update i (\<lambda>r. r\<lparr>sc_paused := True\<rparr>) (sd_rows s)\<rparr>"

text \<open>The runs of a deleted schedule go with it.\<close>

definition schedules_delete :: "string \<Rightarrow> scheduler \<Rightarrow> scheduler" where
  "schedules_delete i s =
     s\<lparr>sd_rows := filter (\<lambda>(j, r). j \<noteq> i) (sd_rows s),
       sd_runs := filter (\<lambda>(j, r). sr_schedule_id r \<noteq> i) (sd_runs s)\<rparr>"

definition update_last_run :: "string \<Rightarrow> int \<Rightarrow> scheduler \<Rightarrow> scheduler" where
  "update_last_run i at s = s\<lparr>sd_rows := sql_update i (\<lambda>r. r\<lparr>sc_last_run_at := Some at\<rparr>) (sd_rows s)\<rparr>"

definition pause_expired :: "int \<Rightarrow> scheduler \<Rightarrow> nat \<times> scheduler" where
  "pause_expired now_ms s =
     (let due = (\<lambda>r. \<not> sc_paused r \<and> sc_expires_at r \<le> now_ms)
      in (length (filter (\<lambda>(i, r). due r) (sd_rows s)),
          s\<lparr>sd_rows := map (\<lambda>(i, r). if due r then (i, r\<lparr>sc_paused := True\<rparr>) else (i, r)) (sd_rows s)\<rparr>))"

definition runs_insert :: "string \<Rightarrow> string \<Rightarrow> int \<Rightarrow> scheduler \<Rightarrow> unit result \<times> scheduler" where
  "runs_insert run sid started_at s =
     (if map_of (sd_runs s) run \<noteq> None then (Inl (Sqlx ''UNIQUE constraint failed: schedule_runs.id''), s)
      else if map_of (sd_rows s) sid = None then (Inl (Sqlx ''FOREIGN KEY constraint failed''), s)
      else (Inr (), s\<lparr>sd_runs := sd_runs s @ [(run,
             \<lparr>sr_schedule_id = sid, sr_session_id = None, sr_started_at = started_at,
              sr_ended_at = None, sr_terminal_state = None\<rparr>)]\<rparr>))"

definition update_session :: "string \<Rightarrow> string \<Rightarrow> scheduler \<Rightarrow> scheduler" where
  "update_session run session s =
     s\<lparr>sd_runs := sql_update run (\<lambda>r. r\<lparr>sr_session_id := Some session\<rparr>) (sd_runs s)\<rparr>"

definition update_terminal :: "string \<Rightarrow> int \<Rightarrow> string \<Rightarrow> scheduler \<Rightarrow> scheduler" where
  "update_terminal run ended_at state s =
     s\<lparr>sd_runs := sql_update run (\<lambda>r. r\<lparr>sr_ended_at := Some ended_at, sr_terminal_state := Some state\<rparr>) (sd_runs s)\<rparr>"

definition in_flight_run :: "string \<Rightarrow> string \<times> schedule_run \<Rightarrow> bool" where
  "in_flight_run sid = (\<lambda>(run, r). sr_schedule_id r = sid \<and> sr_ended_at r = None)"

definition current_inflight :: "scheduler \<Rightarrow> string \<Rightarrow> string option" where
  "current_inflight s sid =
     (case sort_key (\<lambda>(run, r). - sr_started_at r) (filter (in_flight_run sid) (sd_runs s)) of
        [] \<Rightarrow> None
      | (run, r) # _ \<Rightarrow> Some run)"

definition runs_by_schedule :: "scheduler \<Rightarrow> string \<Rightarrow> (string \<times> schedule_run) list" where
  "runs_by_schedule s sid =
     sort_key (\<lambda>(run, r). - sr_started_at r) (filter (\<lambda>(run, r). sr_schedule_id r = sid) (sd_runs s))"

section \<open>The wheel\<close>

text \<open>A \<open>BTreeMap\<close> of instants: ascending keys, an insert at a taken key replaces what was there.\<close>

fun wheel_insert :: "nat \<Rightarrow> string \<Rightarrow> (nat \<times> string) list \<Rightarrow> (nat \<times> string) list" where
  "wheel_insert k v [] = [(k, v)]"
| "wheel_insert k v ((j, w) # rest) =
     (if k < j then (k, v) # (j, w) # rest
      else if k = j then (k, v) # rest
      else (j, w) # wheel_insert k v rest)"

definition evict_wheel :: "string \<Rightarrow> scheduler \<Rightarrow> scheduler" where
  "evict_wheel i s = s\<lparr>sd_wheel := filter (\<lambda>(k, v). v \<noteq> i) (sd_wheel s)\<rparr>"

text \<open>The loop that bumps a taken key by nanoseconds.\<close>

function free_key :: "nat list \<Rightarrow> nat \<Rightarrow> nat" where
  "free_key keys k = (if k \<in> set keys then free_key keys (k + 1) else k)"
  by pat_completeness auto
termination
proof (relation "measure (\<lambda>(keys, k). card {x \<in> set keys. k \<le> x})")
  fix keys :: "nat list" and k
  assume k: "k \<in> set keys"
  have "{x \<in> set keys. k + 1 \<le> x} \<subseteq> {x \<in> set keys. k \<le> x} - {k}" by auto
  moreover have "k \<in> {x \<in> set keys. k \<le> x}" using k by simp
  moreover have "finite {x \<in> set keys. k \<le> x}" by simp
  ultimately have "card {x \<in> set keys. k + 1 \<le> x} < card {x \<in> set keys. k \<le> x}"
    by (meson card_Diff1_less card_mono finite_Diff le_less_trans)
  then show "((keys, k + 1), keys, k) \<in> measure (\<lambda>(keys, k). card {x \<in> set keys. k \<le> x})" by simp
qed simp

declare free_key.simps [simp del]

definition NANOS :: nat where "NANOS = 1000000000"
definition NANOS_PER_MS :: nat where "NANOS_PER_MS = 1000000"

text \<open>When a schedule is due at the latest rebuild, and its key.\<close>

definition next_fire_ms :: "int \<Rightarrow> schedule \<Rightarrow> int" where
  "next_fire_ms now_ms r =
     (let interval_ms = sc_interval_seconds r * 1000
      in case sc_last_run_at r of
           Some last_run \<Rightarrow> max (last_run + interval_ms) now_ms
         | None \<Rightarrow> now_ms + interval_ms)"

definition rebuild_key :: "nat \<Rightarrow> int \<Rightarrow> nat \<Rightarrow> schedule \<Rightarrow> nat" where
  "rebuild_key now_instant now_ms nth_row r =
     now_instant + nat (sat_i64 (next_fire_ms now_ms r - now_ms)) * NANOS_PER_MS + nth_row"

definition rebuild_wheel :: "nat \<Rightarrow> int \<Rightarrow> scheduler \<Rightarrow> nat \<times> scheduler" where
  "rebuild_wheel now_instant now_ms s =
     (let active = list_active s now_ms
      in (length active,
          s\<lparr>sd_wheel := fold (\<lambda>(nth_row, i, r). wheel_insert (rebuild_key now_instant now_ms nth_row r) i)
                (List.enumerate 0 active) []\<rparr>))"

section \<open>The calls of clients\<close>

definition INTERVAL_MIN_SECONDS :: int where "INTERVAL_MIN_SECONDS = 30"
definition INTERVAL_MAX_SECONDS :: int where "INTERVAL_MAX_SECONDS = 7 * 24 * 3600"
definition LOOP_EXPIRY_DEFAULT_MS :: int where "LOOP_EXPIRY_DEFAULT_MS = 3 * 24 * 3600 * 1000"

record create_schedule_request =
  cs_workarea_id :: string
  cs_kind :: string
  cs_interval_seconds :: int
  cs_prompt :: string
  cs_agent_kind :: string
  cs_expires_at_unix_ms :: "int option"

definition validated_agent_kind :: "string \<Rightarrow> string result" where
  "validated_agent_kind k =
     (if trim k = [] then Inr ''claude''
      else if k \<in> {''claude'', ''codex'', ''gemini'', ''maestro''} then Inr k
      else Inl (Validation (''schedule.agent_kind_unsupported: must be one of claude|codex|gemini|maestro, got '' @ debug_str k)))"

definition validated_schedule :: "scheduler \<Rightarrow> int \<Rightarrow> create_schedule_request \<Rightarrow> schedule result" where
  "validated_schedule s now_ms req =
     (if cs_kind req \<noteq> ''loop''
      then Inl (Validation (''schedule.kind_unsupported: V0.1 supports kind='' @ debug_str ''loop'' @ '' only (got ''
             @ debug_str (cs_kind req) @ '')''))
      else if cs_interval_seconds req < INTERVAL_MIN_SECONDS \<or> INTERVAL_MAX_SECONDS < cs_interval_seconds req
      then Inl (Validation (''schedule.interval_out_of_bounds: must be '' @ show_int INTERVAL_MIN_SECONDS @ ''..=''
             @ show_int INTERVAL_MAX_SECONDS @ '', got '' @ show_int (cs_interval_seconds req)))
      else if trim (cs_prompt req) = []
      then Inl (Validation ''schedule.prompt_required: prompt must not be empty'')
      else and_then (validated_agent_kind (cs_agent_kind req)) (\<lambda>agent_kind.
        case workareas_get (sd_db s) (cs_workarea_id req) of
          None \<Rightarrow> Inl (workarea_not_found (cs_workarea_id req))
        | Some w \<Rightarrow>
            if wa_archived_at w \<noteq> None
            then Inl (Validation (''workarea.archived: workarea '' @ cs_workarea_id req @ '' is archived''))
            else (let expires_at = (case cs_expires_at_unix_ms req of
                        Some v \<Rightarrow> if 0 < v then v else now_ms + LOOP_EXPIRY_DEFAULT_MS
                      | None \<Rightarrow> now_ms + LOOP_EXPIRY_DEFAULT_MS)
                  in if expires_at \<le> now_ms
                     then Inl (Validation (''schedule.expired: expires_at ('' @ show_int expires_at
                            @ '') must be in the future (now='' @ show_int now_ms @ '')''))
                     else Inr \<lparr>sc_workarea_id = cs_workarea_id req, sc_kind = cs_kind req,
                            sc_interval_seconds = cs_interval_seconds req, sc_expires_at = expires_at,
                            sc_last_run_at = None, sc_paused = False, sc_prompt = cs_prompt req,
                            sc_agent_kind = agent_kind, sc_created_at = now_ms\<rparr>)))"

definition create_schedule ::
  "nat \<Rightarrow> int \<Rightarrow> string \<Rightarrow> create_schedule_request \<Rightarrow> scheduler \<Rightarrow> schedule result \<times> scheduler" where
  "create_schedule now_instant now_ms fresh req s =
     (case validated_schedule s now_ms req of
        Inl e \<Rightarrow> (Inl e, s)
      | Inr row \<Rightarrow>
          (case schedules_insert fresh row s of
             (Inl e, s') \<Rightarrow> (Inl e, s')
           | (Inr _, s') \<Rightarrow>
               (case schedules_get s' fresh of
                  None \<Rightarrow> (Inl (Internal ''schedule row missing after insert''), s')
                | Some inserted \<Rightarrow>
                    (Inr inserted, s'\<lparr>sd_wheel :=
                       wheel_insert (now_instant + nat (sc_interval_seconds inserted) * NANOS) fresh (sd_wheel s')\<rparr>))))"

definition schedule_not_found :: "string \<Rightarrow> error" where
  "schedule_not_found i = NotFound (''schedule '' @ i @ '' not found'')"

definition pause_schedule :: "string \<Rightarrow> scheduler \<Rightarrow> schedule result \<times> scheduler" where
  "pause_schedule i s =
     (case schedules_get s i of
        None \<Rightarrow> (Inl (schedule_not_found i), s)
      | Some _ \<Rightarrow>
          (let s' = evict_wheel i (schedules_pause i s)
           in (ok_or (Internal ''schedule row missing after pause'') (schedules_get s' i), s')))"

definition delete_schedule :: "string \<Rightarrow> scheduler \<Rightarrow> unit result \<times> scheduler" where
  "delete_schedule i s =
     (case schedules_get s i of
        None \<Rightarrow> (Inl (schedule_not_found i), s)
      | Some _ \<Rightarrow>
          (let s' = evict_wheel i (schedules_delete i s)
           in (Inr (), s'\<lparr>sd_inflight := filter (\<lambda>(j, r). j \<noteq> i) (sd_inflight s')\<rparr>)))"

definition get_history :: "scheduler \<Rightarrow> string \<Rightarrow> (string \<times> schedule_run) list result" where
  "get_history s i =
     (case schedules_get s i of
        None \<Rightarrow> Inl (schedule_not_found i)
      | Some _ \<Rightarrow> Inr (runs_by_schedule s i))"

definition run_expiration_sweep :: "nat \<Rightarrow> int \<Rightarrow> scheduler \<Rightarrow> nat \<times> scheduler" where
  "run_expiration_sweep now_instant now_ms s =
     (let (paused, s') = pause_expired now_ms s
      in (paused, if 0 < paused then snd (rebuild_wheel now_instant now_ms s') else s'))"

section \<open>One turn of the fire loop\<close>

text \<open>
  The loop takes an entry that is due, reads its row (the read may fail: the entry is then dropped),
  arms it again and fires.
\<close>

definition fire_pop :: "nat \<Rightarrow> nat \<Rightarrow> scheduler \<Rightarrow> scheduler" where
  "fire_pop now_instant due s =
     (case (sd_fire s, map_of (sd_wheel s) due) of
        (Idle, Some i) \<Rightarrow>
          if due \<le> now_instant
          then s\<lparr>sd_wheel := filter (\<lambda>(k, v). k \<noteq> due) (sd_wheel s), sd_fire := Popped i\<rparr> else s
      | _ \<Rightarrow> s)"

definition fire_read :: "bool \<Rightarrow> scheduler \<Rightarrow> scheduler" where
  "fire_read answers s =
     (case sd_fire s of
        Popped i \<Rightarrow>
          s\<lparr>sd_fire := (if answers then (case schedules_get s i of None \<Rightarrow> Idle | Some row \<Rightarrow> Arming i row) else Idle)\<rparr>
      | _ \<Rightarrow> s)"

definition fire_rearm :: "nat \<Rightarrow> scheduler \<Rightarrow> scheduler" where
  "fire_rearm now_instant s =
     (case sd_fire s of
        Arming i row \<Rightarrow>
          (let s' = (if sc_paused row then s
             else (let key = free_key (map fst (sd_wheel s)) (now_instant + nat (sc_interval_seconds row) * NANOS)
                   in s\<lparr>sd_wheel := wheel_insert key i (sd_wheel s)\<rparr>))
           in s'\<lparr>sd_fire := Firing i\<rparr>)
      | _ \<Rightarrow> s)"

definition fire_check :: "int \<Rightarrow> scheduler \<Rightarrow> scheduler" where
  "fire_check now_ms s =
     (case sd_fire s of
        Firing i \<Rightarrow>
          s\<lparr>sd_fire := (case schedules_get s i of
             None \<Rightarrow> Idle
           | Some row \<Rightarrow>
               if sc_paused row then Idle
               else if sc_expires_at row \<le> now_ms then Idle
               else if i \<in> fst ` set (sd_inflight s) then Idle
               else if current_inflight s i \<noteq> None then Idle
               else Checked i row now_ms)\<rparr>
      | _ \<Rightarrow> s)"

definition fire_insert :: "string \<Rightarrow> scheduler \<Rightarrow> scheduler" where
  "fire_insert run s =
     (case sd_fire s of
        Checked i row now_ms \<Rightarrow>
          (case runs_insert run i now_ms s of
             (Inl e, s') \<Rightarrow> s'\<lparr>sd_fire := Idle\<rparr>
           | (Inr _, s') \<Rightarrow>
               s'\<lparr>sd_inflight := (i, run) # filter (\<lambda>(j, r). j \<noteq> i) (sd_inflight s'), sd_fire := Inserted i run row now_ms\<rparr>)
      | _ \<Rightarrow> s)"

definition mark_run_failed :: "string \<Rightarrow> int \<Rightarrow> scheduler \<Rightarrow> scheduler" where
  "mark_run_failed run now s =
     (let s' = update_terminal run now ''failed'' s
      in s'\<lparr>sd_inflight := filter (\<lambda>(j, r). r \<noteq> run) (sd_inflight s')\<rparr>)"

definition fire_agent_kind :: "string \<Rightarrow> session_agent option" where
  "fire_agent_kind k =
     (if k = ''claude'' then Some ClaudeAgent else if k = ''codex'' then Some CodexAgent
      else if k = ''gemini'' then Some GeminiAgent else None)"

definition fire_request :: "schedule \<Rightarrow> workarea_row \<Rightarrow> session_agent \<Rightarrow> start_request" where
  "fire_request row w kind =
     \<lparr>rq_workarea_id = sc_workarea_id row, rq_agent_kind = kind, rq_echo_text = None, rq_cwd = wa_worktree_root w,
      rq_permission_mode = None, rq_resume_session_id = None, rq_chat_id = None\<rparr>"

text \<open>What \<open>start_session\<close> refuses before it starts anything; the rest of it is the argument \<open>spawn\<close>.\<close>

definition start_session_admits :: "database \<Rightarrow> start_request \<Rightarrow> unit result" where
  "start_session_admits db req =
     (if rq_agent_kind req \<in> {CodexAgent, GeminiAgent}
      then Inl (Validation (''agent.not_implemented: agent_kind ''
             @ (if rq_agent_kind req = CodexAgent then ''Codex'' else ''Gemini'')
             @ '' is not supported in V0.1 (parser pack arrives in Phase 3)''))
      else case workareas_get db (rq_workarea_id req) of
             None \<Rightarrow> Inl (workarea_not_found (rq_workarea_id req))
           | Some w \<Rightarrow>
               if wa_archived_at w \<noteq> None
               then Inl (Validation (''workarea.archived: workarea '' @ rq_workarea_id req @ '' is archived''))
               else Inr ())"

definition start_session_of :: "(start_request \<Rightarrow> string result) \<Rightarrow> start_request \<Rightarrow> scheduler \<Rightarrow> string result \<times> scheduler" where
  "start_session_of spawn req s =
     (case start_session_admits (sd_db s) req of
        Inl e \<Rightarrow> (Inl e, s)
      | Inr _ \<Rightarrow>
          (case spawn req of
             Inl e \<Rightarrow> (Inl e, s)
           | Inr session \<Rightarrow> (Inr session, s\<lparr>sd_requests := sd_requests s @ [req]\<rparr>)))"

definition fire_start ::
  "(start_request \<Rightarrow> string result) option \<Rightarrow> int \<Rightarrow> scheduler \<Rightarrow> scheduler" where
  "fire_start supervisor now s =
     (case sd_fire s of
        Inserted i run row now_ms \<Rightarrow>
          (case supervisor of
             None \<Rightarrow> (mark_run_failed run now s)\<lparr>sd_fire := Idle\<rparr>
           | Some spawn \<Rightarrow>
               (case workareas_get (sd_db s) (sc_workarea_id row) of
                  None \<Rightarrow> s\<lparr>sd_fire := Idle\<rparr>
                | Some w \<Rightarrow>
                    (case fire_agent_kind (sc_agent_kind row) of
                       None \<Rightarrow> (mark_run_failed run now s)\<lparr>sd_fire := Idle\<rparr>
                     | Some kind \<Rightarrow>
                         (case start_session_of spawn (fire_request row w kind) s of
                            (Inl e, s') \<Rightarrow> (mark_run_failed run now s')\<lparr>sd_fire := Idle\<rparr>
                          | (Inr session, s') \<Rightarrow> s'\<lparr>sd_fire := Started i run session now_ms\<rparr>))))
      | _ \<Rightarrow> s)"

text \<open>The transaction after the start; where it fails, the error leaves before the watcher is spawned.\<close>

definition fire_record :: "bool \<Rightarrow> scheduler \<Rightarrow> scheduler" where
  "fire_record commits s =
     (case sd_fire s of
        Started i run session now_ms \<Rightarrow>
          if commits
          then (update_last_run i now_ms (update_session run session s))
                 \<lparr>sd_fire := Idle, sd_watchers := (run, session, i) # sd_watchers s\<rparr>
          else s\<lparr>sd_fire := Idle\<rparr>
      | _ \<Rightarrow> s)"

section \<open>The watcher of a run\<close>

fun terminal_state_of :: "agent_event \<Rightarrow> string option" where
  "terminal_state_of (EvTurnComplete sid) = Some ''completed''"
| "terminal_state_of (EvExited sid exit_code signal) =
     (if signal \<noteq> None \<or> (case exit_code of Some c \<Rightarrow> c \<noteq> 0 | None \<Rightarrow> False)
      then Some ''crashed'' else Some ''completed'')"
| "terminal_state_of _ = None"

definition resolve_run :: "string \<Rightarrow> string \<Rightarrow> int \<Rightarrow> string \<Rightarrow> scheduler \<Rightarrow> scheduler" where
  "resolve_run run sid now state s =
     (let s' = update_terminal run now state s
      in s'\<lparr>sd_inflight := filter (\<lambda>e. e \<noteq> (sid, run)) (sd_inflight s')\<rparr>)"

text \<open>The watcher of a session sees an event, or that the channel is closed or was never there.\<close>

definition watcher_sees :: "string \<Rightarrow> agent_event option \<Rightarrow> int \<Rightarrow> scheduler \<Rightarrow> scheduler" where
  "watcher_sees run ev now s =
     (case find (\<lambda>w. fst w = run) (sd_watchers s) of
        None \<Rightarrow> s
      | Some (_, session, sid) \<Rightarrow>
          (case (case ev of None \<Rightarrow> Some ''completed'' | Some e \<Rightarrow> terminal_state_of e) of
             None \<Rightarrow> s
           | Some state \<Rightarrow>
               (resolve_run run sid now state s)\<lparr>sd_watchers := filter (\<lambda>w. fst w \<noteq> run) (sd_watchers s)\<rparr>))"

section \<open>The life of the scheduler\<close>

text \<open>A restart keeps the rows and loses the rest; the actor then rebuilds the wheel.\<close>

definition restart_scheduler :: "nat \<Rightarrow> int \<Rightarrow> scheduler \<Rightarrow> scheduler" where
  "restart_scheduler now_instant now_ms s =
     snd (rebuild_wheel now_instant now_ms (s\<lparr>sd_inflight := [], sd_fire := Idle, sd_watchers := []\<rparr>))"

datatype sched_event =
    EvCreate nat int string create_schedule_request
  | EvPause string
  | EvDelete string
  | EvSweep nat int
  | EvPop nat nat
  | EvRead bool
  | EvRearm nat
  | EvCheck int
  | EvInsert string
  | EvStart "(start_request \<Rightarrow> string result) option" int
  | EvRecord bool
  | EvWatch string "agent_event option" int
  | EvRestart nat int

fun sched_step :: "scheduler \<Rightarrow> sched_event \<Rightarrow> scheduler" where
  "sched_step s (EvCreate inst now fresh req) = snd (create_schedule inst now fresh req s)"
| "sched_step s (EvPause i) = snd (pause_schedule i s)"
| "sched_step s (EvDelete i) = snd (delete_schedule i s)"
| "sched_step s (EvSweep inst now) = snd (run_expiration_sweep inst now s)"
| "sched_step s (EvPop inst due) = fire_pop inst due s"
| "sched_step s (EvRead answers) = fire_read answers s"
| "sched_step s (EvRearm inst) = fire_rearm inst s"
| "sched_step s (EvCheck now) = fire_check now s"
| "sched_step s (EvInsert run) = fire_insert run s"
| "sched_step s (EvStart supervisor now) = fire_start supervisor now s"
| "sched_step s (EvRecord commits) = fire_record commits s"
| "sched_step s (EvWatch run ev now) = watcher_sees run ev now s"
| "sched_step s (EvRestart inst now) = restart_scheduler inst now s"

definition sched_run :: "sched_event list \<Rightarrow> scheduler \<Rightarrow> scheduler" where
  "sched_run es s = fold (\<lambda>e t. sched_step t e) es s"

section \<open>The RPCs\<close>

record timestamp =
  tm_seconds :: int
  tm_nanos :: int

definition unix_ms_to_timestamp :: "int \<Rightarrow> timestamp" where
  "unix_ms_to_timestamp ms = \<lparr>tm_seconds = ms div 1000, tm_nanos = (ms mod 1000) * 1000000\<rparr>"

record proto_schedule =
  ps_id :: string
  ps_row :: schedule
  ps_expires_at :: timestamp
  ps_last_run_at :: "timestamp option"
  ps_created_at :: timestamp

definition schedule_to_proto :: "string \<times> schedule \<Rightarrow> proto_schedule" where
  "schedule_to_proto = (\<lambda>(i, r).
     \<lparr>ps_id = i, ps_row = r, ps_expires_at = unix_ms_to_timestamp (sc_expires_at r),
      ps_last_run_at = map_option unix_ms_to_timestamp (sc_last_run_at r),
      ps_created_at = unix_ms_to_timestamp (sc_created_at r)\<rparr>)"

record proto_run =
  pr_id :: string
  pr_schedule_id :: string
  pr_session_id :: string
  pr_started_at :: timestamp
  pr_ended_at :: "timestamp option"
  pr_terminal_state :: string

definition schedule_run_to_proto :: "string \<times> schedule_run \<Rightarrow> proto_run" where
  "schedule_run_to_proto = (\<lambda>(i, r).
     \<lparr>pr_id = i, pr_schedule_id = sr_schedule_id r,
      pr_session_id = (case sr_session_id r of Some sid \<Rightarrow> sid | None \<Rightarrow> []),
      pr_started_at = unix_ms_to_timestamp (sr_started_at r),
      pr_ended_at = map_option unix_ms_to_timestamp (sr_ended_at r),
      pr_terminal_state = (case sr_terminal_state r of Some t \<Rightarrow> t | None \<Rightarrow> [])\<rparr>)"

definition rpc_create_schedule ::
  "nat \<Rightarrow> int \<Rightarrow> string \<Rightarrow> string \<Rightarrow> string \<Rightarrow> int \<Rightarrow> string \<Rightarrow> string \<Rightarrow> int \<Rightarrow> scheduler \<Rightarrow>
     proto_schedule response \<times> scheduler" where
  "rpc_create_schedule now_instant now_ms fresh wa kind interval prompt agent_kind expires s =
     (if wa = [] then (Inl (invalid_argument ''workarea_id is required''), s)
      else if kind = [] then (Inl (invalid_argument ''kind is required''), s)
      else (let (r, s') = create_schedule now_instant now_ms fresh
                  \<lparr>cs_workarea_id = wa, cs_kind = kind, cs_interval_seconds = interval, cs_prompt = prompt,
                   cs_agent_kind = agent_kind, cs_expires_at_unix_ms = (if 0 < expires then Some expires else None)\<rparr> s
            in (answer (and_then r (\<lambda>row. Inr (schedule_to_proto (fresh, row)))), s')))"

definition rpc_list_schedules :: "string \<Rightarrow> scheduler \<Rightarrow> proto_schedule list response" where
  "rpc_list_schedules wa s =
     (if wa = [] then Inl (invalid_argument ''workarea_id is required'')
      else Inr (map schedule_to_proto (schedules_by_workarea s wa)))"

definition rpc_pause_schedule :: "string \<Rightarrow> scheduler \<Rightarrow> proto_schedule response \<times> scheduler" where
  "rpc_pause_schedule i s =
     (if i = [] then (Inl (invalid_argument ''schedule id is required''), s)
      else (let (r, s') = pause_schedule i s
            in (answer (and_then r (\<lambda>row. Inr (schedule_to_proto (i, row)))), s')))"

definition rpc_delete_schedule :: "string \<Rightarrow> scheduler \<Rightarrow> unit response \<times> scheduler" where
  "rpc_delete_schedule i s =
     (if i = [] then (Inl (invalid_argument ''schedule id is required''), s)
      else (let (r, s') = delete_schedule i s in (answer r, s')))"

definition rpc_get_schedule_history :: "string \<Rightarrow> scheduler \<Rightarrow> proto_run list response" where
  "rpc_get_schedule_history i s =
     (if i = [] then Inl (invalid_argument ''schedule id is required'')
      else answer (and_then (get_history s i) (\<lambda>rows. Inr (map schedule_run_to_proto rows))))"

section \<open>Lemmas\<close>

lemma set_wheel_insert: "set (wheel_insert k v w) \<subseteq> insert (k, v) (set w)"
  by (induction k v w rule: wheel_insert.induct) auto

lemma set_wheel_insert_free:
  "k \<notin> fst ` set w \<Longrightarrow> set (wheel_insert k v w) = insert (k, v) (set w)"
  by (induction k v w rule: wheel_insert.induct) auto

lemma mset_wheel_insert_free:
  "k \<notin> fst ` set w \<Longrightarrow> mset (wheel_insert k v w) = add_mset (k, v) (mset w)"
  by (induction k v w rule: wheel_insert.induct) auto

lemma wheel_insert_mem [simp]: "(k, v) \<in> set (wheel_insert k v w)"
  by (induction k v w rule: wheel_insert.induct) auto

lemma free_key_free: "free_key keys k \<notin> set keys"
  by (induction keys k rule: free_key.induct) (subst free_key.simps, auto)

lemma free_key_ge: "k \<le> free_key keys k"
proof (induction keys k rule: free_key.induct)
  case (1 keys k)
  then show ?case by (subst free_key.simps) (auto intro: order_trans [OF le_add1])
qed

lemma current_inflight_None: "current_inflight s i = None \<longleftrightarrow> (\<forall>x\<in>set (sd_runs s). \<not> in_flight_run i x)"
proof -
  let ?xs = "sort_key (\<lambda>(run, r). - sr_started_at r) (filter (in_flight_run i) (sd_runs s))"
  have "?xs = [] \<longleftrightarrow> set ?xs = {}" by (simp only: set_empty)
  then show ?thesis by (auto simp: current_inflight_def split: list.splits)
qed

text \<open>Which fields an operation leaves alone.\<close>

lemma rows_frame [simp]:
  "sd_rows (update_session run x s) = sd_rows s" "sd_rows (update_terminal run a t s) = sd_rows s"
  "sd_rows (mark_run_failed run a s) = sd_rows s" "sd_rows (resolve_run run i a t s) = sd_rows s"
  "sd_rows (evict_wheel i s) = sd_rows s" "sd_rows (snd (rebuild_wheel inst now s)) = sd_rows s"
  by (simp_all add: update_session_def update_terminal_def mark_run_failed_def resolve_run_def evict_wheel_def
      rebuild_wheel_def Let_def)

lemma wheel_frame [simp]:
  "sd_wheel (update_session run x s) = sd_wheel s" "sd_wheel (update_terminal run a t s) = sd_wheel s"
  "sd_wheel (mark_run_failed run a s) = sd_wheel s" "sd_wheel (resolve_run run i a t s) = sd_wheel s"
  "sd_wheel (update_last_run i a s) = sd_wheel s" "sd_wheel (schedules_pause i s) = sd_wheel s"
  "sd_wheel (schedules_delete i s) = sd_wheel s" "sd_wheel (snd (pause_expired a s)) = sd_wheel s"
  by (simp_all add: update_session_def update_terminal_def mark_run_failed_def resolve_run_def update_last_run_def
      schedules_pause_def schedules_delete_def pause_expired_def Let_def)

lemma runs_frame [simp]:
  "sd_runs (update_last_run i a s) = sd_runs s" "sd_runs (schedules_pause i s) = sd_runs s"
  "sd_runs (evict_wheel i s) = sd_runs s" "sd_runs (snd (rebuild_wheel inst now s)) = sd_runs s"
  "sd_runs (snd (pause_expired a s)) = sd_runs s" "sd_runs (snd (run_expiration_sweep inst now s)) = sd_runs s"
  "sd_runs (snd (create_schedule inst now fresh req s)) = sd_runs s"
  "sd_runs (snd (pause_schedule i s)) = sd_runs s" "sd_runs (fire_pop inst due s) = sd_runs s"
  "sd_runs (fire_read b s) = sd_runs s" "sd_runs (fire_rearm inst s) = sd_runs s" "sd_runs (fire_check now s) = sd_runs s"
  "sd_runs (restart_scheduler inst now s) = sd_runs s" "sd_runs (snd (start_session_of f q s)) = sd_runs s"
  by (auto simp: update_last_run_def schedules_pause_def evict_wheel_def rebuild_wheel_def pause_expired_def
      run_expiration_sweep_def create_schedule_def schedules_insert_def pause_schedule_def fire_pop_def fire_read_def
      fire_rearm_def fire_check_def restart_scheduler_def start_session_of_def Let_def
      split: sum.split option.split fire_phase.split)

lemma fire_frame [simp]:
  "sd_fire (update_session run x s) = sd_fire s" "sd_fire (update_terminal run a t s) = sd_fire s"
  "sd_fire (mark_run_failed run a s) = sd_fire s" "sd_fire (resolve_run run i a t s) = sd_fire s"
  "sd_fire (update_last_run i a s) = sd_fire s" "sd_fire (schedules_pause i s) = sd_fire s"
  "sd_fire (schedules_delete i s) = sd_fire s" "sd_fire (snd (pause_expired a s)) = sd_fire s"
  "sd_fire (evict_wheel i s) = sd_fire s" "sd_fire (snd (rebuild_wheel inst now s)) = sd_fire s"
  "sd_fire (snd (run_expiration_sweep inst now s)) = sd_fire s"
  "sd_fire (snd (create_schedule inst now fresh req s)) = sd_fire s"
  "sd_fire (snd (pause_schedule i s)) = sd_fire s" "sd_fire (snd (delete_schedule i s)) = sd_fire s"
  "sd_fire (watcher_sees run ev a s) = sd_fire s" "sd_fire (restart_scheduler inst now s) = Idle"
  by (auto simp: update_session_def update_terminal_def mark_run_failed_def resolve_run_def update_last_run_def
      schedules_pause_def schedules_delete_def pause_expired_def evict_wheel_def rebuild_wheel_def
      run_expiration_sweep_def create_schedule_def schedules_insert_def pause_schedule_def delete_schedule_def
      watcher_sees_def restart_scheduler_def Let_def split: sum.split option.split)

text \<open>The runs of a schedule that are in flight.\<close>

definition flights :: "scheduler \<Rightarrow> string \<Rightarrow> nat" where
  "flights s sid = length (filter (in_flight_run sid) (sd_runs s))"

lemma flights_0: "flights s sid = 0 \<longleftrightarrow> current_inflight s sid = None"
  by (simp add: flights_def filter_empty_conv current_inflight_None)

lemma flights_same_runs: "sd_runs s' = sd_runs s \<Longrightarrow> flights s' sid = flights s sid"
  by (simp add: flights_def)

lemma flights_sql_update:
  assumes "\<And>r. in_flight_run sid (run, f r) \<Longrightarrow> in_flight_run sid (run, r)"
  shows "length (filter (in_flight_run sid) (sql_update run f t)) \<le> length (filter (in_flight_run sid) t)"
proof (induction t)
  case (Cons x t)
  obtain j r where x: "x = (j, r)" by force
  show ?case using Cons assms [of r] by (cases "j = run") (auto simp: sql_update_def x)
qed (simp add: sql_update_def)

lemma flights_mono [intro]:
  "flights (update_session run x s) sid \<le> flights s sid" "flights (update_terminal run a t s) sid \<le> flights s sid"
  "flights (mark_run_failed run a s) sid \<le> flights s sid" "flights (resolve_run run i a t s) sid \<le> flights s sid"
  using flights_sql_update [of sid run "\<lambda>r. r\<lparr>sr_session_id := Some x\<rparr>" "sd_runs s"]
    flights_sql_update [of sid run "\<lambda>r. r\<lparr>sr_ended_at := Some a, sr_terminal_state := Some t\<rparr>" "sd_runs s"]
    flights_sql_update [of sid run "\<lambda>r. r\<lparr>sr_ended_at := Some a, sr_terminal_state := Some ''failed''\<rparr>" "sd_runs s"]
  by (simp_all add: flights_def update_session_def update_terminal_def mark_run_failed_def resolve_run_def
      in_flight_run_def Let_def)

lemma flights_delete: "flights (snd (delete_schedule i s)) sid \<le> flights s sid"
proof -
  have "length (filter P (filter Q t)) \<le> length (filter P t)" for P Q and t :: "(string \<times> schedule_run) list"
    by (induction t) auto
  then show ?thesis
    by (auto simp: flights_def delete_schedule_def schedules_delete_def evict_wheel_def Let_def split: option.split)
qed

lemma flights_watcher: "flights (watcher_sees run ev now s) sid \<le> flights s sid"
  using flights_mono(4) by (auto simp: watcher_sees_def flights_def split: option.split prod.split)

text \<open>The ways the start of a session ends.\<close>

lemma fire_start_cases:
  obtains (idle) "fire_start sv now s = s" "\<forall>i run row n. sd_fire s \<noteq> Inserted i run row n"
  | (lost) i run row n where "sd_fire s = Inserted i run row n" "workareas_get (sd_db s) (sc_workarea_id row) = None"
      "sv \<noteq> None" "fire_start sv now s = s\<lparr>sd_fire := Idle\<rparr>"
  | (failed) i run row n where "sd_fire s = Inserted i run row n"
      "fire_start sv now s = (mark_run_failed run now s)\<lparr>sd_fire := Idle\<rparr>"
  | (started) i run row n w session where "sd_fire s = Inserted i run row n"
      "workareas_get (sd_db s) (sc_workarea_id row) = Some w" "sc_agent_kind row = ''claude''" "wa_archived_at w = None"
      "fire_start sv now s = s\<lparr>sd_requests := sd_requests s @ [fire_request row w ClaudeAgent], sd_fire := Started i run session n\<rparr>"
proof (cases "\<exists>i run row n. sd_fire s = Inserted i run row n")
  case False
  then have "fire_start sv now s = s" by (simp add: fire_start_def split: fire_phase.split)
  with False show ?thesis using idle by blast
next
  case True
  then obtain i run row n where f: "sd_fire s = Inserted i run row n" by blast
  show ?thesis
  proof (cases sv)
    case None
    then show ?thesis using failed [OF f] f by (simp add: fire_start_def)
  next
    case (Some spawn)
    show ?thesis
    proof (cases "workareas_get (sd_db s) (sc_workarea_id row)")
      case None
      then show ?thesis using lost [OF f] f Some by (simp add: fire_start_def)
    next
      case w: (Some w)
      show ?thesis
      proof (cases "\<exists>kind session. fire_agent_kind (sc_agent_kind row) = Some kind
          \<and> fst (start_session_of spawn (fire_request row w kind) s) = Inr session")
        case True
        then obtain kind session where k: "fire_agent_kind (sc_agent_kind row) = Some kind"
          and st: "fst (start_session_of spawn (fire_request row w kind) s) = Inr session" by blast
        from st have ok: "start_session_admits (sd_db s) (fire_request row w kind) = Inr ()"
          and s': "start_session_of spawn (fire_request row w kind) s
            = (Inr session, s\<lparr>sd_requests := sd_requests s @ [fire_request row w kind]\<rparr>)"
          by (auto simp: start_session_of_def split: sum.splits)
        from ok k w have kind: "kind = ClaudeAgent" "sc_agent_kind row = ''claude''" "wa_archived_at w = None"
          by (auto simp: start_session_admits_def fire_request_def fire_agent_kind_def split: if_splits)
        show ?thesis using started [OF f w kind(2,3)] f Some w k s' kind(1) by (simp add: fire_start_def)
      next
        case False
        then have "fire_start sv now s = (mark_run_failed run now s)\<lparr>sd_fire := Idle\<rparr>"
          using f Some w by (auto simp: fire_start_def start_session_of_def split: option.split sum.splits)
        with failed [OF f] show ?thesis by blast
      qed
    qed
  qed
qed

lemma flights_start: "flights (fire_start sv now s) sid \<le> flights s sid"
  using flights_mono(3) by (cases rule: fire_start_cases [of sv now s]) (auto simp: flights_def)

lemma flights_record: "flights (fire_record b s) sid \<le> flights s sid"
  using flights_mono(1) by (auto simp: fire_record_def flights_def split: fire_phase.split)

lemma flights_insert:
  "flights (fire_insert run s) sid \<le> flights s sid
    + (if \<exists>row n. sd_fire s = Checked sid row n then 1 else 0)"
  by (auto simp: fire_insert_def flights_def runs_insert_def in_flight_run_def split: fire_phase.split)

lemma flights_le_same: "sd_runs s' = sd_runs s \<Longrightarrow> flights s' sid \<le> flights s sid"
  by (simp add: flights_def)

lemma flights_other:
  assumes "\<forall>run. e \<noteq> EvInsert run"
  shows "flights (sched_step s e) sid \<le> flights s sid"
  by (cases e; simp only: sched_step.simps; (rule flights_le_same flights_delete flights_watcher flights_start flights_record; simp)?)
    (use assms in auto)

lemma flights_step:
  "flights (sched_step s e) sid \<le> flights s sid + (if \<exists>row n. sd_fire s = Checked sid row n then 1 else 0)"
proof (cases "\<exists>run. e = EvInsert run")
  case True
  then obtain run where "e = EvInsert run" by blast
  then show ?thesis using flights_insert [of run s sid] by simp
next
  case False
  then show ?thesis using flights_other [of e s sid] by simp
qed

lemma checked_step:
  assumes "sd_fire (sched_step s e) = Checked sid row n"
  shows "sd_fire s = Checked sid row n \<and> (\<forall>run. e \<noteq> EvInsert run)
    \<or> current_inflight s sid = None \<and> sd_runs (sched_step s e) = sd_runs s"
proof (cases e)
  case (EvStart sv now)
  from assms show ?thesis unfolding EvStart
    by (cases rule: fire_start_cases [of sv now s]) auto
next
  case (EvInsert run)
  from assms show ?thesis unfolding EvInsert
    by (simp add: fire_insert_def runs_insert_def split: fire_phase.splits if_splits)
next
  case (EvCheck now)
  from assms show ?thesis unfolding EvCheck
    by (auto simp: fire_check_def split: fire_phase.splits option.splits if_splits)
qed (use assms in \<open>auto simp: fire_pop_def fire_read_def fire_rearm_def fire_record_def Let_def
      split: fire_phase.splits option.splits if_splits\<close>)

definition sched_inv :: "scheduler \<Rightarrow> bool" where
  "sched_inv s \<longleftrightarrow> (\<forall>sid. flights s sid \<le> 1) \<and> (\<forall>sid row n. sd_fire s = Checked sid row n \<longrightarrow> flights s sid = 0)"

lemma sched_step_inv [preserves]:
  assumes "sched_inv s"
  shows "sched_inv (sched_step s e)"
proof -
  have "flights (sched_step s e) sid \<le> 1" for sid
  proof (cases "\<exists>row n. sd_fire s = Checked sid row n")
    case True
    then have "flights s sid = 0" using assms unfolding sched_inv_def by blast
    with flights_step [of s e sid] show ?thesis by (simp split: if_splits)
  next
    case False
    have "flights s sid \<le> 1" using assms unfolding sched_inv_def by blast
    with flights_step [of s e sid] False show ?thesis by simp
  qed
  moreover have "flights (sched_step s e) sid = 0" if c: "sd_fire (sched_step s e) = Checked sid row n" for sid row n
    using checked_step [OF c]
  proof
    assume a: "sd_fire s = Checked sid row n \<and> (\<forall>run. e \<noteq> EvInsert run)"
    then have z: "flights s sid = 0" using assms by (simp add: sched_inv_def)
    have "flights (sched_step s e) sid \<le> flights s sid" using a by (intro flights_other) blast
    with z show ?thesis by simp
  next
    assume "current_inflight s sid = None \<and> sd_runs (sched_step s e) = sd_runs s"
    then show ?thesis by (metis flights_0 flights_same_runs)
  qed
  ultimately show ?thesis by (simp add: sched_inv_def)
qed

interpretation sched_machine: event_machine sched_step sched_inv
  by unfold_locales (rule sched_step_inv)

text \<open>A run in flight that no watcher and no fire holds.\<close>

definition stranded :: "scheduler \<Rightarrow> string \<Rightarrow> string \<Rightarrow> bool" where
  "stranded s run sid \<longleftrightarrow>
     (\<exists>r. map_of (sd_runs s) run = Some r \<and> sr_schedule_id r = sid \<and> sr_ended_at r = None)
     \<and> run \<notin> fst ` set (sd_watchers s)
     \<and> (case sd_fire s of Inserted i run' row n \<Rightarrow> run' \<noteq> run | Started i run' session n \<Rightarrow> run' \<noteq> run
          | Checked i row n \<Rightarrow> i \<noteq> sid | _ \<Rightarrow> True)"

definition runs_of :: "scheduler \<Rightarrow> string \<Rightarrow> string list" where
  "runs_of s sid = map fst (filter (\<lambda>(run, r). sr_schedule_id r = sid) (sd_runs s))"

definition same_flight :: "scheduler \<Rightarrow> scheduler \<Rightarrow> string \<Rightarrow> string \<Rightarrow> bool" where
  "same_flight s s' run sid \<longleftrightarrow> map_of (sd_runs s') run = map_of (sd_runs s) run \<and> runs_of s' sid = runs_of s sid"

lemma same_flight_runs: "sd_runs s' = sd_runs s \<Longrightarrow> same_flight s s' run sid"
  by (simp add: same_flight_def runs_of_def)

lemma same_flight_update:
  assumes "run' \<noteq> run" and "\<And>r. sr_schedule_id (f r) = sr_schedule_id r"
    and "sd_runs s' = sql_update run' f (sd_runs s)"
  shows "same_flight s s' run sid"
proof -
  have "map fst (filter (\<lambda>(run, r). sr_schedule_id r = sid) (sql_update run' f t))
      = map fst (filter (\<lambda>(run, r). sr_schedule_id r = sid) t)" for t
  proof (induction t)
    case (Cons x t)
    then show ?case by (cases x; cases "fst x = run'") (auto simp: sql_update_def assms(2))
  qed (simp add: sql_update_def)
  with assms(1,3) show ?thesis by (simp add: same_flight_def runs_of_def map_of_sql_update)
qed

lemma same_flight_ops:
  assumes "run' \<noteq> run"
  shows "same_flight s (update_session run' x s) run sid" "same_flight s (update_terminal run' a t s) run sid"
    "same_flight s (mark_run_failed run' a s) run sid" "same_flight s (resolve_run run' i a t s) run sid"
  by (rule same_flight_update [OF assms, where f = "\<lambda>r. r\<lparr>sr_session_id := Some x\<rparr>"];
      simp add: update_session_def)
    (rule same_flight_update [OF assms]; simp add: update_terminal_def mark_run_failed_def resolve_run_def Let_def; simp)+

lemma map_of_filter_keep: "map_of t k = Some r \<Longrightarrow> P (k, r) \<Longrightarrow> map_of (filter P t) k = Some r"
  by (induction t) (auto split: if_splits)

lemma same_flight_step:
  assumes "stranded s run sid" and "e \<noteq> EvDelete sid"
  shows "same_flight s (sched_step s e) run sid"
proof -
  from assms(1) obtain r where r: "map_of (sd_runs s) run = Some r" "sr_schedule_id r = sid" "sr_ended_at r = None"
    and w: "run \<notin> fst ` set (sd_watchers s)" by (auto simp: stranded_def)
  show ?thesis
  proof (cases e)
    case (EvDelete i)
    then have "map_of (filter (\<lambda>(j, r). sr_schedule_id r \<noteq> i) (sd_runs s)) run = Some r"
      using assms(2) r by (intro map_of_filter_keep) auto
    moreover have "filter (\<lambda>(j, r). sr_schedule_id r = sid) (filter (\<lambda>(j, r). sr_schedule_id r \<noteq> i) (sd_runs s))
        = filter (\<lambda>(j, r). sr_schedule_id r = sid) (sd_runs s)"
      using assms(2) EvDelete by (auto simp: filter_filter intro!: filter_cong)
    ultimately show ?thesis using r EvDelete
      by (auto simp: same_flight_def runs_of_def delete_schedule_def schedules_delete_def Let_def split: option.split)
  next
    case (EvInsert run')
    from assms(1) r(1) show ?thesis unfolding EvInsert
      by (auto simp: same_flight_def runs_of_def fire_insert_def runs_insert_def stranded_def map_add_def
          split: fire_phase.splits)
  next
    case (EvStart sv now)
    show ?thesis unfolding EvStart
    proof (cases rule: fire_start_cases [of sv now s])
      case (failed i run' row n)
      then have "run' \<noteq> run" using assms(1) by (auto simp: stranded_def)
      from same_flight_ops(3) [OF this, of s now sid] show "same_flight s (sched_step s (EvStart sv now)) run sid"
        by (simp add: failed same_flight_def runs_of_def)
    qed (simp_all add: same_flight_def runs_of_def)
  next
    case (EvRecord b)
    show ?thesis
    proof (cases "\<exists>i run' x n. sd_fire s = Started i run' x n \<and> b")
      case True
      then obtain i run' x n where f: "sd_fire s = Started i run' x n" b by blast
      then have "run' \<noteq> run" using assms(1) by (auto simp: stranded_def)
      from same_flight_ops(1) [OF this, of s x sid] f show ?thesis unfolding EvRecord
        by (simp add: fire_record_def same_flight_def runs_of_def)
    next
      case False
      then show ?thesis unfolding EvRecord
        by (auto simp: fire_record_def same_flight_def runs_of_def split: fire_phase.split)
    qed
  next
    case (EvWatch run' ev now)
    show ?thesis
    proof (cases "run' = run")
      case True
      then have "find (\<lambda>w. fst w = run') (sd_watchers s) = None"
        using w unfolding find_None_iff by (metis image_eqI)
      then show ?thesis unfolding EvWatch by (simp add: watcher_sees_def same_flight_def)
    next
      case False
      from same_flight_ops(4) [OF False] show ?thesis unfolding EvWatch
        by (auto simp: watcher_sees_def same_flight_def runs_of_def split: option.split prod.split)
    qed
  qed (simp_all add: same_flight_runs)
qed

lemma stranded_step:
  assumes "stranded s run sid" and "e \<noteq> EvDelete sid"
  shows "stranded (sched_step s e) run sid"
proof -
  let ?s = "sched_step s e"
  from assms(1) obtain r where r: "map_of (sd_runs s) run = Some r" "sr_schedule_id r = sid" "sr_ended_at r = None"
    and w: "run \<notin> fst ` set (sd_watchers s)" by (auto simp: stranded_def)
  have r': "map_of (sd_runs ?s) run = Some r"
    using same_flight_step [OF assms] r by (simp add: same_flight_def)
  have busy: "current_inflight s sid \<noteq> None"
    using map_of_SomeD [OF r(1)] r by (auto simp: current_inflight_None in_flight_run_def intro!: bexI [of _ "(run, r)"])
  have "run \<notin> fst ` set (sd_watchers ?s)"
  proof (cases e)
    case (EvStart sv now)
    with w show ?thesis
      by (cases rule: fire_start_cases [of sv now s]) (simp_all add: mark_run_failed_def update_terminal_def Let_def)
  next
    case (EvRecord b)
    with w assms(1) show ?thesis
      by (auto simp: fire_record_def stranded_def update_last_run_def update_session_def split: fire_phase.splits)
  next
    case (EvWatch run' ev now)
    with w show ?thesis
      by (auto simp: watcher_sees_def resolve_run_def update_terminal_def Let_def split: option.split prod.split)
  qed (use w in \<open>auto simp: create_schedule_def schedules_insert_def pause_schedule_def schedules_pause_def
      delete_schedule_def schedules_delete_def evict_wheel_def run_expiration_sweep_def pause_expired_def rebuild_wheel_def
      fire_pop_def fire_read_def fire_rearm_def fire_check_def fire_insert_def runs_insert_def restart_scheduler_def
      Let_def split: option.split fire_phase.split sum.split\<close>)
  moreover have "case sd_fire ?s of Inserted i run' row n \<Rightarrow> run' \<noteq> run | Started i run' session n \<Rightarrow> run' \<noteq> run
      | Checked i row n \<Rightarrow> i \<noteq> sid | _ \<Rightarrow> True"
  proof (cases e)
    case (EvStart sv now)
    with assms(1) show ?thesis
      by (cases rule: fire_start_cases [of sv now s]) (auto simp: stranded_def)
  next
    case (EvInsert run')
    with assms(1) r(1) show ?thesis
      by (auto simp: fire_insert_def runs_insert_def stranded_def split: fire_phase.splits)
  next
    case (EvCheck now)
    with assms(1) busy show ?thesis
      by (auto simp: fire_check_def stranded_def split: fire_phase.splits option.splits)
  qed (use assms(1) in \<open>auto simp: stranded_def fire_pop_def fire_read_def fire_rearm_def fire_record_def Let_def
      split: fire_phase.splits option.splits\<close>)
  ultimately show ?thesis using r r' by (simp add: stranded_def)
qed

text \<open>Building the wheel from distinct keys loses nothing.\<close>

lemma mset_fold_wheel_insert:
  assumes "distinct (map f ys)" and "\<forall>y\<in>set ys. f y \<notin> fst ` set w"
  shows "mset (fold (\<lambda>y. wheel_insert (f y) (g y)) ys w) = mset (map (\<lambda>y. (f y, g y)) ys) + mset w"
  using assms
proof (induction ys arbitrary: w)
  case (Cons y ys)
  have "fst ` set (wheel_insert (f y) (g y) w) \<subseteq> insert (f y) (fst ` set w)"
    using set_wheel_insert [of "f y" "g y" w] by auto
  moreover have "f z \<notin> insert (f y) (fst ` set w)" if "z \<in> set ys" for z
  proof -
    have "f y \<notin> f ` set ys" using Cons.prems(1) by simp
    then have "f z \<noteq> f y" using that by (metis image_eqI)
    moreover have "f z \<notin> fst ` set w" using Cons.prems(2) that by simp
    ultimately show ?thesis by blast
  qed
  ultimately have "\<forall>z\<in>set ys. f z \<notin> fst ` set (wheel_insert (f y) (g y) w)" by blast
  with Cons.IH Cons.prems(1) have "mset (fold (\<lambda>y. wheel_insert (f y) (g y)) ys (wheel_insert (f y) (g y) w))
      = mset (map (\<lambda>y. (f y, g y)) ys) + mset (wheel_insert (f y) (g y) w)" by simp
  moreover have "f y \<notin> fst ` set w" using Cons.prems(2) by simp
  ultimately show ?case by (simp add: mset_wheel_insert_free)
qed simp

lemma rebuild_keys_distinct:
  assumes "length rows \<le> NANOS_PER_MS"
  shows "distinct (map (\<lambda>(n, i, r). rebuild_key inst now n r) (List.enumerate 0 rows))"
proof -
  have "(rebuild_key inst now n r - inst) mod NANOS_PER_MS = n" if "n < NANOS_PER_MS" for n r
  proof -
    have "rebuild_key inst now n r - inst = n + nat (sat_i64 (next_fire_ms now r - now)) * NANOS_PER_MS"
      by (simp add: rebuild_key_def)
    with that show ?thesis by simp
  qed
  then have "map (\<lambda>y. (rebuild_key inst now (fst y) (snd (snd y)) - inst) mod NANOS_PER_MS) (List.enumerate 0 rows)
      = map fst (List.enumerate 0 rows)"
    using assms by (intro map_cong [OF refl]) (auto simp: in_set_enumerate_eq)
  then have "map (\<lambda>k. (k - inst) mod NANOS_PER_MS) (map (\<lambda>(n, i, r). rebuild_key inst now n r) (List.enumerate 0 rows))
      = map fst (List.enumerate 0 rows)"
    by (simp only: map_map comp_def case_prod_beta)
  then have "distinct (map (\<lambda>k. (k - inst) mod NANOS_PER_MS) (map (\<lambda>(n, i, r). rebuild_key inst now n r) (List.enumerate 0 rows)))"
    by simp
  then show ?thesis unfolding distinct_map by (metis (no_types, lifting) distinct_map)
qed

lemma mset_rebuilt_wheel:
  assumes "length (list_active s now) \<le> NANOS_PER_MS"
  shows "mset (sd_wheel (snd (rebuild_wheel inst now s)))
    = mset (map (\<lambda>(n, i, r). (rebuild_key inst now n r, i)) (List.enumerate 0 (list_active s now)))"
proof -
  let ?ys = "List.enumerate 0 (list_active s now)"
  have "fold (\<lambda>(n, i, r). wheel_insert (rebuild_key inst now n r) i) ?ys []
      = fold (\<lambda>y. wheel_insert (rebuild_key inst now (fst y) (snd (snd y))) (fst (snd y))) ?ys []"
    by (intro arg_cong [where f = "\<lambda>h. fold h ?ys []"] ext) (simp add: case_prod_beta)
  moreover have "distinct (map (\<lambda>y. rebuild_key inst now (fst y) (snd (snd y))) ?ys)"
    using rebuild_keys_distinct [OF assms, of inst now] by (simp only: case_prod_unfold)
  ultimately show ?thesis
    using mset_fold_wheel_insert [of "\<lambda>y. rebuild_key inst now (fst y) (snd (snd y))" ?ys "[]" "\<lambda>y. fst (snd y)"]
    by (simp add: rebuild_wheel_def Let_def) (simp add: case_prod_unfold)
qed

lemma ids_rebuilt_wheel:
  assumes "length (list_active s now) \<le> NANOS_PER_MS"
  shows "mset (map snd (sd_wheel (snd (rebuild_wheel inst now s)))) = mset (map fst (list_active s now))"
proof -
  have "mset (map snd (sd_wheel (snd (rebuild_wheel inst now s))))
      = image_mset snd (mset (map (\<lambda>(n, i, r). (rebuild_key inst now n r, i)) (List.enumerate 0 (list_active s now))))"
    by (simp only: mset_map mset_rebuilt_wheel [OF assms])
  also have "\<dots> = mset (map (\<lambda>y. fst (snd y)) (List.enumerate 0 (list_active s now)))"
    by (simp only: mset_map [symmetric] map_map comp_def case_prod_beta snd_conv)
  also have "map (\<lambda>y. fst (snd y)) (List.enumerate 0 (list_active s now)) = map fst (map snd (List.enumerate 0 (list_active s now)))"
    by (simp only: map_map comp_def)
  finally show ?thesis by simp
qed

lemma set_list_active [simp]: "set (list_active s now) = {(i, r) \<in> set (sd_rows s). \<not> sc_paused r \<and> now < sc_expires_at r}"
  by (auto simp: list_active_def)

lemma length_list_active: "length (list_active s now) \<le> length (sd_rows s)"
  by (simp add: list_active_def)

text \<open>The wheel is a map: its keys ascend.\<close>

definition wheel_ok :: "scheduler \<Rightarrow> bool" where
  "wheel_ok s \<longleftrightarrow> sorted_wrt (<) (map fst (sd_wheel s))"

lemma sorted_wheel_insert:
  "sorted_wrt (<) (map fst w) \<Longrightarrow> sorted_wrt (<) (map fst (wheel_insert k v w))"
proof (induction k v w rule: wheel_insert.induct)
  case (2 k v j w rest)
  then show ?case using set_wheel_insert [of k v rest] by fastforce
qed simp

lemma sorted_filter_wheel: "sorted_wrt (<) (map fst w) \<Longrightarrow> sorted_wrt (<) (map fst (filter P w))"
  by (induction w) auto

lemma sorted_fold_wheel:
  "sorted_wrt (<) (map fst w) \<Longrightarrow> sorted_wrt (<) (map fst (fold (\<lambda>(n, i, r). wheel_insert (f n r) i) ys w))"
  by (induction ys arbitrary: w) (auto intro: sorted_wheel_insert)

lemma wheel_ok_step: "wheel_ok s \<Longrightarrow> wheel_ok (sched_step s e)"
proof (cases e)
  case (EvStart sv now)
  then show "wheel_ok s \<Longrightarrow> wheel_ok (sched_step s e)"
    by (cases rule: fire_start_cases [of sv now s]) (simp_all add: wheel_ok_def)
next
  case (EvSweep inst now)
  have "sd_wheel (snd (pause_expired now s)) = sd_wheel s" by simp
  then show "wheel_ok s \<Longrightarrow> wheel_ok (sched_step s e)" unfolding EvSweep
    by (cases "pause_expired now s")
      (auto simp: wheel_ok_def run_expiration_sweep_def rebuild_wheel_def Let_def intro: sorted_fold_wheel)
qed (auto simp: wheel_ok_def create_schedule_def schedules_insert_def pause_schedule_def delete_schedule_def
      evict_wheel_def run_expiration_sweep_def rebuild_wheel_def fire_pop_def fire_read_def fire_rearm_def fire_check_def
      fire_insert_def runs_insert_def fire_record_def watcher_sees_def restart_scheduler_def Let_def
      intro: sorted_wheel_insert sorted_filter_wheel sorted_fold_wheel
      split: option.split fire_phase.split sum.split)

text \<open>A schedule that may still run is on the wheel or in the hands of the fire loop.\<close>

definition armed :: "scheduler \<Rightarrow> string \<Rightarrow> bool" where
  "armed s i \<longleftrightarrow> i \<in> snd ` set (sd_wheel s) \<or> sd_fire s = Popped i
     \<or> (\<exists>row. sd_fire s = Arming i row \<and> \<not> sc_paused row)"

definition all_armed :: "int \<Rightarrow> scheduler \<Rightarrow> bool" where
  "all_armed deadline s \<longleftrightarrow> wheel_ok s
     \<and> (\<forall>i r. schedules_get s i = Some r \<and> \<not> sc_paused r \<and> deadline < sc_expires_at r \<longrightarrow> armed s i)"

text \<open>
  A step with which the wheel stays complete: the clock is not past the deadline, a new schedule does
  not meet a taken instant, the fire loop's read answers, and there are at most a million schedules.
\<close>

fun calm_step :: "int \<Rightarrow> scheduler \<Rightarrow> sched_event \<Rightarrow> bool" where
  "calm_step deadline s (EvCreate inst now fresh req) \<longleftrightarrow>
     inst + nat (cs_interval_seconds req) * NANOS \<notin> fst ` set (sd_wheel s)"
| "calm_step deadline s (EvSweep inst now) \<longleftrightarrow> now \<le> deadline \<and> length (sd_rows s) \<le> NANOS_PER_MS"
| "calm_step deadline s (EvRestart inst now) \<longleftrightarrow> now \<le> deadline \<and> length (sd_rows s) \<le> NANOS_PER_MS"
| "calm_step deadline s (EvRead answers) \<longleftrightarrow> answers"
| "calm_step deadline s _ \<longleftrightarrow> True"

fun calm :: "int \<Rightarrow> scheduler \<Rightarrow> sched_event list \<Rightarrow> bool" where
  "calm deadline s [] \<longleftrightarrow> True"
| "calm deadline s (e # es) \<longleftrightarrow> calm_step deadline s e \<and> calm deadline (sched_step s e) es"

lemma rebuilt_arms:
  assumes "length (sd_rows s) \<le> NANOS_PER_MS" and "schedules_get s i = Some r" "\<not> sc_paused r" "now < sc_expires_at r"
  shows "i \<in> snd ` set (sd_wheel (snd (rebuild_wheel inst now s)))"
proof -
  have "length (list_active s now) \<le> NANOS_PER_MS" using assms(1) length_list_active [of s now] by linarith
  then have "set (map snd (sd_wheel (snd (rebuild_wheel inst now s)))) = set (map fst (list_active s now))"
    using ids_rebuilt_wheel [of s now inst] by (metis set_mset_mset)
  moreover have "i \<in> fst ` set (list_active s now)"
    using assms(2-4) by (force simp: schedules_get_def dest: map_of_SomeD)
  ultimately show ?thesis by simp
qed

lemma get_pause_expired:
  "schedules_get (snd (pause_expired now s)) i
    = map_option (\<lambda>r. if \<not> sc_paused r \<and> sc_expires_at r \<le> now then r\<lparr>sc_paused := True\<rparr> else r) (schedules_get s i)"
proof -
  have "map_of (map (\<lambda>(i, r). if P r then (i, f r) else (i, r)) t) i = map_option (\<lambda>r. if P r then f r else r) (map_of t i)"
    for P f and t :: "schedule table"
  proof (induction t)
    case (Cons x t)
    then show ?case by (cases x; cases "P (snd x)") auto
  qed simp
  then show ?thesis by (simp add: pause_expired_def schedules_get_def Let_def)
qed

lemma pause_expired_none: "fst (pause_expired now s) = 0 \<Longrightarrow> snd (pause_expired now s) = s"
proof -
  assume "fst (pause_expired now s) = 0"
  then have "\<forall>x\<in>set (sd_rows s). \<not> (\<not> sc_paused (snd x) \<and> sc_expires_at (snd x) \<le> now)"
    by (auto simp: pause_expired_def Let_def filter_empty_conv)
  then have "map (\<lambda>(i, r). if \<not> sc_paused r \<and> sc_expires_at r \<le> now then (i, r\<lparr>sc_paused := True\<rparr>) else (i, r)) (sd_rows s)
      = sd_rows s"
    by (intro map_idI) auto
  then show ?thesis by (simp add: pause_expired_def Let_def)
qed

lemma all_armed_same:
  assumes "all_armed T s" "wheel_ok s'" "snd ` set (sd_wheel s) \<subseteq> snd ` set (sd_wheel s')"
    and "\<And>i. sd_fire s = Popped i \<Longrightarrow> sd_fire s' = Popped i"
    and "\<And>i row. sd_fire s = Arming i row \<Longrightarrow> sd_fire s' = Arming i row"
    and "\<And>i r'. schedules_get s' i = Some r' \<Longrightarrow> \<not> sc_paused r' \<Longrightarrow>
      \<exists>r. schedules_get s i = Some r \<and> \<not> sc_paused r \<and> sc_expires_at r = sc_expires_at r'"
  shows "all_armed T s'"
  unfolding all_armed_def
proof (intro conjI assms(2) allI impI)
  fix i r'
  assume "schedules_get s' i = Some r' \<and> \<not> sc_paused r' \<and> T < sc_expires_at r'"
  then obtain r where "schedules_get s i = Some r" "\<not> sc_paused r" "T < sc_expires_at r" using assms(6) by fastforce
  then have "armed s i" using assms(1) by (auto simp: all_armed_def)
  then show "armed s' i" using assms(3-5) by (auto simp: armed_def)
qed

lemma get_pause: "schedules_get (schedules_pause j s) i
    = (if i = j then map_option (\<lambda>r. r\<lparr>sc_paused := True\<rparr>) (schedules_get s j) else schedules_get s i)"
  by (simp add: schedules_get_def schedules_pause_def map_of_sql_update)

lemma get_last_run: "schedules_get (update_last_run j t s) i
    = (if i = j then map_option (\<lambda>r. r\<lparr>sc_last_run_at := Some t\<rparr>) (schedules_get s j) else schedules_get s i)"
  by (simp add: schedules_get_def update_last_run_def map_of_sql_update)

lemma get_delete: "schedules_get (schedules_delete j s) i = (if i = j then None else schedules_get s i)"
proof -
  have "map_of (filter (\<lambda>(k, r). k \<noteq> j) t) i = (if i = j then None else map_of t i)" for t :: "schedule table"
    by (induction t) auto
  then show ?thesis by (simp add: schedules_get_def schedules_delete_def)
qed

lemma get_same_rows: "sd_rows s' = sd_rows s \<Longrightarrow> schedules_get s' = schedules_get s"
  by (simp add: schedules_get_def fun_eq_iff)

lemma armed_evict:
  "sd_wheel t = sd_wheel s \<Longrightarrow> sd_fire t = sd_fire s \<Longrightarrow> armed s i \<Longrightarrow> i \<noteq> j \<Longrightarrow> armed (evict_wheel j t) i"
  by (force simp: armed_def evict_wheel_def)

lemma all_armed_step:
  assumes "calm_step T s e" and "all_armed T s"
  shows "all_armed T (sched_step s e)"
proof -
  have ok: "wheel_ok (sched_step s e)" using assms(2) by (intro wheel_ok_step) (simp add: all_armed_def)
  show ?thesis
  proof (cases e)
    case (EvCreate inst now fresh req)
    show ?thesis
    proof (cases "sched_step s e = s")
      case False
      then obtain row where row: "validated_schedule s now req = Inr row" "map_of (sd_rows s) fresh = None"
        and s': "sched_step s e = s\<lparr>sd_rows := sd_rows s @ [(fresh, row)],
          sd_wheel := wheel_insert (inst + nat (sc_interval_seconds row) * NANOS) fresh (sd_wheel s)\<rparr>"
        by (auto simp: EvCreate create_schedule_def schedules_insert_def schedules_get_def map_add_def
            split: sum.splits if_splits option.splits)
      have "sc_interval_seconds row = cs_interval_seconds req"
        using row(1) by (auto simp: validated_schedule_def and_then_Inr_iff Let_def split: if_splits option.splits)
      then have set: "set (sd_wheel (sched_step s e)) =
          insert (inst + nat (sc_interval_seconds row) * NANOS, fresh) (set (sd_wheel s))"
        using assms(1) by (simp add: s') (simp add: EvCreate set_wheel_insert_free)
      show ?thesis unfolding all_armed_def
      proof (intro conjI ok allI impI)
        fix i r assume r: "schedules_get (sched_step s e) i = Some r \<and> \<not> sc_paused r \<and> T < sc_expires_at r"
        show "armed (sched_step s e) i"
        proof (cases "i = fresh")
          case True
          then show ?thesis by (force simp: armed_def set)
        next
          case False
          with r have "schedules_get s i = Some r"
            by (auto simp: s' schedules_get_def map_add_def split: option.splits)
          with r assms(2) have "armed s i" by (simp add: all_armed_def)
          then show ?thesis by (auto simp: armed_def set) (simp_all add: s')
        qed
      qed
    qed (use assms(2) in simp)
  next
    case (EvPause j)
    show ?thesis unfolding all_armed_def
    proof (intro conjI ok allI impI)
      fix i r assume r: "schedules_get (sched_step s e) i = Some r \<and> \<not> sc_paused r \<and> T < sc_expires_at r"
      have get: "schedules_get (evict_wheel j (schedules_pause j s)) = schedules_get (schedules_pause j s)"
        by (rule get_same_rows) simp
      show "armed (sched_step s e) i"
      proof (cases "schedules_get s j")
        case None
        with r assms(2) show ?thesis by (simp add: EvPause pause_schedule_def all_armed_def)
      next
        case (Some row)
        with r have "i \<noteq> j" "schedules_get s i = Some r"
          by (auto simp: EvPause pause_schedule_def get get_pause Let_def split: if_splits)
        with r assms(2) armed_evict [of "schedules_pause j s" s i j] Some show ?thesis
          by (simp add: EvPause pause_schedule_def Let_def all_armed_def)
      qed
    qed
  next
    case (EvDelete j)
    show ?thesis unfolding all_armed_def
    proof (intro conjI ok allI impI)
      fix i r assume r: "schedules_get (sched_step s e) i = Some r \<and> \<not> sc_paused r \<and> T < sc_expires_at r"
      have get: "schedules_get (evict_wheel j (schedules_delete j s)\<lparr>sd_inflight := x\<rparr>) = schedules_get (schedules_delete j s)" for x
        by (rule get_same_rows) simp
      show "armed (sched_step s e) i"
      proof (cases "schedules_get s j")
        case None
        with r assms(2) show ?thesis by (simp add: EvDelete delete_schedule_def all_armed_def)
      next
        case (Some row)
        with r have "i \<noteq> j" "schedules_get s i = Some r"
          by (auto simp: EvDelete delete_schedule_def get get_delete Let_def split: if_splits)
        with r assms(2) have "armed (evict_wheel j (schedules_delete j s)) i"
          by (intro armed_evict [of _ s]) (simp_all add: all_armed_def)
        then show ?thesis using Some by (simp add: EvDelete delete_schedule_def Let_def armed_def)
      qed
    qed
  next
    case (EvSweep inst now)
    then have now: "now \<le> T" "length (sd_rows s) \<le> NANOS_PER_MS" using assms(1) by auto
    let ?s = "snd (pause_expired now s)"
    show ?thesis
    proof (cases "fst (pause_expired now s) = 0")
      case True
      then have "sched_step s e = s"
        by (simp add: EvSweep run_expiration_sweep_def case_prod_beta pause_expired_none)
      with assms(2) show ?thesis by simp
    next
      case False
      then have s': "sched_step s e = snd (rebuild_wheel inst now ?s)"
        by (simp add: EvSweep run_expiration_sweep_def case_prod_beta)
      have len: "length (sd_rows ?s) \<le> NANOS_PER_MS" using now(2) by (simp add: pause_expired_def Let_def)
      show ?thesis unfolding all_armed_def
      proof (intro conjI ok allI impI)
        fix i r assume r: "schedules_get (sched_step s e) i = Some r \<and> \<not> sc_paused r \<and> T < sc_expires_at r"
        then have "schedules_get ?s i = Some r" by (simp add: s' get_same_rows [OF rows_frame(6)])
        with r now(1) show "armed (sched_step s e) i"
          using rebuilt_arms [OF len, of i r now inst] by (simp add: armed_def s')
      qed
    qed
  next
    case (EvRestart inst now)
    then have now: "now \<le> T" "length (sd_rows s) \<le> NANOS_PER_MS" using assms(1) by auto
    let ?s = "s\<lparr>sd_inflight := [], sd_fire := Idle, sd_watchers := []\<rparr>"
    have s': "sched_step s e = snd (rebuild_wheel inst now ?s)" by (simp add: EvRestart restart_scheduler_def)
    show ?thesis unfolding all_armed_def
    proof (intro conjI ok allI impI)
      fix i r assume r: "schedules_get (sched_step s e) i = Some r \<and> \<not> sc_paused r \<and> T < sc_expires_at r"
      then have "schedules_get ?s i = Some r" by (simp add: s' get_same_rows [OF rows_frame(6)])
      with r now show "armed (sched_step s e) i"
        using rebuilt_arms [of ?s i r now inst] by (simp add: armed_def s')
    qed
  next
    case (EvPop inst due)
    show ?thesis unfolding all_armed_def
    proof (intro conjI ok allI impI)
      fix i r assume r: "schedules_get (sched_step s e) i = Some r \<and> \<not> sc_paused r \<and> T < sc_expires_at r"
      have get: "schedules_get (fire_pop inst due s) = schedules_get s"
        by (rule get_same_rows) (simp add: fire_pop_def split: fire_phase.split option.split)
      with r assms(2) have a: "armed s i" by (simp add: all_armed_def EvPop)
      show "armed (sched_step s e) i"
      proof (cases "\<exists>j. sd_fire s = Idle \<and> map_of (sd_wheel s) due = Some j \<and> due \<le> inst")
        case True
        then obtain j where j: "sd_fire s = Idle" "map_of (sd_wheel s) due = Some j" "due \<le> inst" by blast
        from a j(1) obtain k where k: "(k, i) \<in> set (sd_wheel s)" by (auto simp: armed_def)
        have "distinct (map fst (sd_wheel s))"
          using assms(2) by (simp add: all_armed_def wheel_ok_def strict_sorted_iff)
        with k j(2) have "k = due \<Longrightarrow> i = j" by (metis map_of_eq_Some_iff option.inject)
        with k j show ?thesis by (force simp: armed_def EvPop fire_pop_def)
      next
        case False
        then have "fire_pop inst due s = s" by (auto simp: fire_pop_def split: fire_phase.split option.split)
        with a show ?thesis by (simp add: EvPop)
      qed
    qed
  next
    case (EvRead answers)
    then have answers using assms(1) by simp
    show ?thesis unfolding all_armed_def
    proof (intro conjI ok allI impI)
      fix i r assume r: "schedules_get (sched_step s e) i = Some r \<and> \<not> sc_paused r \<and> T < sc_expires_at r"
      have get: "schedules_get (fire_read answers s) = schedules_get s"
        by (rule get_same_rows) (simp add: fire_read_def split: fire_phase.split)
      with r assms(2) have "armed s i" by (simp add: all_armed_def EvRead)
      with r get \<open>answers\<close> show "armed (sched_step s e) i"
        by (auto simp: armed_def EvRead fire_read_def split: fire_phase.split)
    qed
  next
    case (EvRearm inst)
    show ?thesis unfolding all_armed_def
    proof (intro conjI ok allI impI)
      fix i r assume r: "schedules_get (sched_step s e) i = Some r \<and> \<not> sc_paused r \<and> T < sc_expires_at r"
      have get: "schedules_get (fire_rearm inst s) = schedules_get s"
        by (rule get_same_rows) (simp add: fire_rearm_def Let_def split: fire_phase.split)
      with r assms(2) have a: "armed s i" by (simp add: all_armed_def EvRearm)
      have "set (wheel_insert (free_key (map fst (sd_wheel s)) k) j (sd_wheel s))
          = insert (free_key (map fst (sd_wheel s)) k, j) (set (sd_wheel s))" for k j
        using free_key_free [of "map fst (sd_wheel s)" k] by (intro set_wheel_insert_free) simp
      with a show "armed (sched_step s e) i"
        by (auto simp: armed_def EvRearm fire_rearm_def Let_def split: fire_phase.split)
    qed
  next
    case (EvStart sv now)
    have "sd_rows (fire_start sv now s) = sd_rows s" "sd_wheel (fire_start sv now s) = sd_wheel s"
      "\<And>i. sd_fire s = Popped i \<Longrightarrow> fire_start sv now s = s"
      "\<And>i row. sd_fire s = Arming i row \<Longrightarrow> fire_start sv now s = s"
      by (cases rule: fire_start_cases [of sv now s]; simp)+
    then show ?thesis using ok unfolding EvStart
      by (intro all_armed_same [OF assms(2)]) (simp_all add: get_same_rows [of "fire_start sv now s" s])
  next
    case (EvRecord b)
    have wheel: "sd_wheel (fire_record b s) = sd_wheel s"
      "\<And>i. sd_fire s = Popped i \<Longrightarrow> fire_record b s = s" "\<And>i row. sd_fire s = Arming i row \<Longrightarrow> fire_record b s = s"
      by (simp_all add: fire_record_def split: fire_phase.split)
    have rows: "sd_rows (fire_record b s) = sd_rows s \<or> (\<exists>j n. sd_rows (fire_record b s) = sd_rows (update_last_run j n s))"
      by (auto simp: fire_record_def update_last_run_def split: fire_phase.split)
    have "\<exists>r. schedules_get s i = Some r \<and> \<not> sc_paused r \<and> sc_expires_at r = sc_expires_at r'"
      if "schedules_get (fire_record b s) i = Some r'" "\<not> sc_paused r'" for i r'
      using rows
    proof
      assume "sd_rows (fire_record b s) = sd_rows s"
      from get_same_rows [OF this] that show ?thesis by simp
    next
      assume "\<exists>j n. sd_rows (fire_record b s) = sd_rows (update_last_run j n s)"
      then obtain j n where "schedules_get (fire_record b s) = schedules_get (update_last_run j n s)"
        using get_same_rows by blast
      with that show ?thesis by (auto simp: get_last_run split: if_splits)
    qed
    then show ?thesis using ok wheel unfolding EvRecord by (intro all_armed_same [OF assms(2)]) simp_all
  next
    case (EvWatch run ev now)
    have "sd_rows (watcher_sees run ev now s) = sd_rows s" "sd_wheel (watcher_sees run ev now s) = sd_wheel s"
      by (simp_all add: watcher_sees_def split: option.split prod.split)
    then show ?thesis using ok unfolding EvWatch
      by (intro all_armed_same [OF assms(2)]) (simp_all add: get_same_rows [of "watcher_sees run ev now s" s])
  next
    case (EvCheck now)
    have "sd_rows (fire_check now s) = sd_rows s" "sd_wheel (fire_check now s) = sd_wheel s"
      "\<And>i. sd_fire s = Popped i \<Longrightarrow> fire_check now s = s" "\<And>i row. sd_fire s = Arming i row \<Longrightarrow> fire_check now s = s"
      by (simp_all add: fire_check_def split: fire_phase.split)
    then show ?thesis using ok unfolding EvCheck
      by (intro all_armed_same [OF assms(2)]) (simp_all add: get_same_rows [of "fire_check now s" s])
  next
    case (EvInsert run)
    have "sd_rows (fire_insert run s) = sd_rows s" "sd_wheel (fire_insert run s) = sd_wheel s"
      "\<And>i. sd_fire s = Popped i \<Longrightarrow> fire_insert run s = s" "\<And>i row. sd_fire s = Arming i row \<Longrightarrow> fire_insert run s = s"
      by (simp_all add: fire_insert_def runs_insert_def split: fire_phase.split)
    then show ?thesis using ok unfolding EvInsert
      by (intro all_armed_same [OF assms(2)]) (simp_all add: get_same_rows [of "fire_insert run s" s])
  qed
qed

lemma all_armed_run: "calm T s es \<Longrightarrow> all_armed T s \<Longrightarrow> all_armed T (sched_run es s)"
proof (induction es arbitrary: s)
  case (Cons e es)
  then show ?case using all_armed_step [of T s e] by (simp add: sched_run_def)
qed (simp add: sched_run_def)

lemma stranded_run:
  assumes "stranded s run sid" and "EvDelete sid \<notin> set es"
  shows "stranded (sched_run es s) run sid \<and> runs_of (sched_run es s) sid = runs_of s sid"
  using assms
proof (induction es arbitrary: s)
  case (Cons e es)
  have "runs_of (sched_step s e) sid = runs_of s sid"
    using same_flight_step [OF Cons.prems(1), of e] Cons.prems(2) by (auto simp: same_flight_def)
  moreover have "stranded (sched_step s e) run sid"
    using stranded_step [OF Cons.prems(1), of e] Cons.prems(2) by auto
  ultimately show ?case using Cons.IH [of "sched_step s e"] Cons.prems(2) by (simp add: sched_run_def)
qed (simp add: sched_run_def)

section \<open>Properties\<close>



text \<open>a schedule is created only within the bounds of its interval, with a prompt, an agent the schema knows,
  in a workarea that is not archived, and with an end in the future; it is armed one interval from now.
  A refused request changes nothing.\<close>

theorem created_schedule_within_bounds:
  "case create_schedule inst now fresh req s of
     (Inl e, s') \<Rightarrow> s' = s
   | (Inr row, s') \<Rightarrow>
       30 \<le> sc_interval_seconds row \<and> sc_interval_seconds row \<le> 604800 \<and> now < sc_expires_at row
       \<and> trim (sc_prompt row) \<noteq> [] \<and> sc_agent_kind row \<in> {''claude'', ''codex'', ''gemini'', ''maestro''}
       \<and> (\<exists>w. workareas_get (sd_db s) (sc_workarea_id row) = Some w \<and> wa_archived_at w = None)
       \<and> schedules_get s' fresh = Some row \<and> schedules_get s fresh = None
       \<and> (\<forall>j. j \<noteq> fresh \<longrightarrow> schedules_get s' j = schedules_get s j)
       \<and> (inst + nat (sc_interval_seconds row) * 1000000000, fresh) \<in> set (sd_wheel s')"
proof (cases "create_schedule inst now fresh req s")
  case (Pair r s')
  show ?thesis
  proof (cases r)
    case (Inl e)
    with Pair have "s' = s"
      by (auto simp: create_schedule_def schedules_insert_def schedules_get_def map_add_def
          split: sum.splits if_splits option.splits)
    with Pair Inl show ?thesis by simp
  next
    case (Inr row)
    with Pair have v: "validated_schedule s now req = Inr row" and new: "map_of (sd_rows s) fresh = None"
      and s': "s' = s\<lparr>sd_rows := sd_rows s @ [(fresh, row)],
        sd_wheel := wheel_insert (inst + nat (sc_interval_seconds row) * NANOS) fresh (sd_wheel s)\<rparr>"
      by (auto simp: create_schedule_def schedules_insert_def schedules_get_def map_add_def
          split: sum.splits if_splits option.splits)
    from v have "30 \<le> sc_interval_seconds row" "sc_interval_seconds row \<le> 604800" "now < sc_expires_at row"
      "trim (sc_prompt row) \<noteq> []" "sc_agent_kind row \<in> {''claude'', ''codex'', ''gemini'', ''maestro''}"
      "\<exists>w. workareas_get (sd_db s) (sc_workarea_id row) = Some w \<and> wa_archived_at w = None"
      by (auto simp: validated_schedule_def and_then_Inr_iff validated_agent_kind_def Let_def
          INTERVAL_MIN_SECONDS_def INTERVAL_MAX_SECONDS_def split: if_splits option.splits)
    with Pair Inr new show ?thesis
      by (simp add: s' schedules_get_def map_add_def NANOS_def [symmetric] split: option.split)
  qed
qed

text \<open>a run that is in flight when the Core restarts blocks its schedule for good: nothing ends it any more, so
  however long the fire loop goes on, no further run of the schedule is started unless it is deleted.\<close>

theorem restart_strands_schedule:
  assumes "map_of (sd_runs s) run = Some r" and "sr_schedule_id r = sid" and "sr_ended_at r = None"
    and "EvDelete sid \<notin> set es"
  shows "runs_of (sched_run es (restart_scheduler inst now s)) sid = runs_of s sid
    \<and> (\<exists>r'. map_of (sd_runs (sched_run es (restart_scheduler inst now s))) run = Some r' \<and> sr_ended_at r' = None)"
proof -
  have "sd_watchers (restart_scheduler inst now s) = []"
    by (simp add: restart_scheduler_def rebuild_wheel_def Let_def)
  then have "stranded (restart_scheduler inst now s) run sid"
    using assms(1-3) by (simp add: stranded_def)
  from stranded_run [OF this assms(4)] show ?thesis by (auto simp: stranded_def runs_of_def)
qed

text \<open>the prompt of a schedule reaches no agent: every session the scheduler starts is a Claude session in the
  root of the workarea, without a text, a mode, a session to resume or a chat.\<close>

theorem sessions_start_without_prompt:
  assumes "sd_requests s = []" and "q \<in> set (sd_requests (sched_run es s))"
  shows "\<exists>wa root. q = \<lparr>rq_workarea_id = wa, rq_agent_kind = ClaudeAgent, rq_echo_text = None, rq_cwd = root,
      rq_permission_mode = None, rq_resume_session_id = None, rq_chat_id = None\<rparr>"
proof -
  define bare where "bare = (\<lambda>q. \<exists>wa root. q = \<lparr>rq_workarea_id = wa, rq_agent_kind = ClaudeAgent,
      rq_echo_text = None, rq_cwd = root, rq_permission_mode = None, rq_resume_session_id = None, rq_chat_id = None\<rparr>)"
  have step: "\<forall>q\<in>set (sd_requests (sched_step t e)). bare q" if "\<forall>q\<in>set (sd_requests t). bare q" for t e
  proof (cases e)
    case (EvStart sv now)
    then show ?thesis using that
      by (cases rule: fire_start_cases [of sv now t])
        (auto simp: mark_run_failed_def update_terminal_def Let_def bare_def fire_request_def)
  qed (use that in \<open>auto simp: create_schedule_def schedules_insert_def pause_schedule_def schedules_pause_def
      delete_schedule_def schedules_delete_def evict_wheel_def run_expiration_sweep_def pause_expired_def rebuild_wheel_def
      fire_pop_def fire_read_def fire_rearm_def fire_check_def fire_insert_def runs_insert_def fire_record_def
      update_last_run_def update_session_def update_terminal_def watcher_sees_def resolve_run_def restart_scheduler_def Let_def
      split: option.splits fire_phase.splits sum.splits prod.splits if_splits\<close>)
  have "\<forall>q\<in>set (sd_requests (sched_run es t)). bare q" if "\<forall>q\<in>set (sd_requests t). bare q" for t
    using that
  proof (induction es arbitrary: t)
    case (Cons e es)
    then show ?case using step [of t e] by (simp add: sched_run_def)
  qed (simp add: sched_run_def)
  from this [of s] assms show ?thesis by (simp add: bare_def)
qed

text \<open>a schedule for codex, gemini or the Maestro is accepted but never runs: where its fire comes to start
  the session nothing is started, and with the workarea's row there the run is marked failed.\<close>

theorem other_agents_never_run:
  assumes "sd_fire s = Inserted i run row n" and "sc_agent_kind row \<noteq> ''claude''"
    and "workareas_get (sd_db s) (sc_workarea_id row) \<noteq> None"
  shows "sd_requests (fire_start sv now s) = sd_requests s
    \<and> fire_start sv now s = (mark_run_failed run now s)\<lparr>sd_fire := Idle\<rparr>"
proof (cases rule: fire_start_cases [of sv now s])
  case (failed i' run' row' n')
  with assms(1) have "run' = run" by simp
  with failed show ?thesis by (simp add: mark_run_failed_def update_terminal_def Let_def)
qed (use assms in auto)

text \<open>a sweep that pauses anything while the fire loop holds a schedule arms that schedule twice: the rebuilt
  wheel has it already when the loop puts it back, and both entries go on re-arming themselves.\<close>

theorem sweep_during_fire_arms_twice:
  assumes "sd_fire s = Arming i row" and "\<not> sc_paused row" and "schedules_get s i = Some row"
    and "now < sc_expires_at row" and "0 < fst (run_expiration_sweep inst now s)" and "length (sd_rows s) \<le> NANOS_PER_MS"
  shows "\<exists>k k'. k \<noteq> k' \<and> {(k, i), (k', i)} \<subseteq> set (sd_wheel (fire_rearm inst' (snd (run_expiration_sweep inst now s))))"
proof -
  let ?p = "snd (pause_expired now s)"
  let ?s = "snd (run_expiration_sweep inst now s)"
  have s': "?s = snd (rebuild_wheel inst now ?p)"
    using assms(5) by (simp add: run_expiration_sweep_def case_prod_beta)
  have len: "length (sd_rows ?p) \<le> NANOS_PER_MS" using assms(6) by (simp add: pause_expired_def Let_def)
  have "schedules_get ?p i = Some row" using assms(3,4) by (simp add: get_pause_expired)
  from rebuilt_arms [OF len this assms(2,4), of inst] obtain k where k: "(k, i) \<in> set (sd_wheel ?s)"
    by (auto simp: s')
  have fire: "sd_fire ?s = Arming i row" by (simp add: assms(1))
  let ?k = "free_key (map fst (sd_wheel ?s)) (inst' + nat (sc_interval_seconds row) * NANOS)"
  have free: "?k \<notin> fst ` set (sd_wheel ?s)"
    using free_key_free [of "map fst (sd_wheel ?s)"] by simp
  have wheel: "set (sd_wheel (fire_rearm inst' ?s)) = insert (?k, i) (set (sd_wheel ?s))"
    using set_wheel_insert_free [OF free] fire assms(2) by (simp add: fire_rearm_def Let_def)
  have "?k \<noteq> k" using free k by force
  with wheel k show ?thesis by blast
qed

text \<open>a time of the rows and its wire form determine each other, also before the epoch.\<close>

theorem timestamp_roundtrip:
  "tm_seconds (unix_ms_to_timestamp ms) * 1000 + tm_nanos (unix_ms_to_timestamp ms) div 1000000 = ms
   \<and> 0 \<le> tm_nanos (unix_ms_to_timestamp ms) \<and> tm_nanos (unix_ms_to_timestamp ms) < 1000000000"
  by (simp add: unix_ms_to_timestamp_def)

section \<open>Examples\<close>

definition sample_schedule :: "string \<Rightarrow> int \<Rightarrow> schedule" where
  "sample_schedule kind expires =
     \<lparr>sc_workarea_id = ''w'', sc_kind = ''loop'', sc_interval_seconds = 60, sc_expires_at = expires, sc_last_run_at = None,
      sc_paused = False, sc_prompt = ''run the tests'', sc_agent_kind = kind, sc_created_at = 0\<rparr>"

definition sample_scheduler :: scheduler where
  "sample_scheduler =
     \<lparr>sd_rows = [(''a'', sample_schedule ''claude'' 1000000)], sd_runs = [],
      sd_db = \<lparr>db_sessions = [], db_workareas =
        [(''w'', \<lparr>wa_workspace_id = ''s'', wa_worktree_root = ''/w'', wa_status = ''active'', wa_permission_mode = None,
           wa_bypass = None, wa_archived_at = None, wa_composer_name = ''bach'', wa_branch_name = ''b'',
           wa_settings_json = ''{}''\<rparr>)],
        db_workspaces = [], db_repositories = [], db_workarea_repos = [], db_workspace_repos = []\<rparr>,
      sd_wheel = [(60000000000, ''a'')], sd_inflight = [], sd_fire = Idle, sd_watchers = [], sd_requests = []\<rparr>"

definition sample_fire :: "sched_event list" where
  "sample_fire = [EvPop 60000000000 60000000000, EvRead True, EvRearm 60000000000, EvCheck 60000, EvInsert ''r1'',
     EvStart (Some (\<lambda>q. Inr ''sess'')) 60001, EvRecord True]"

text \<open>The nanoseconds are too large for evaluation in unary: these facts are simplified instead.\<close>

lemmas sched_eval = sched_run_def sample_scheduler_def sample_schedule_def fire_pop_def fire_read_def fire_rearm_def
  fire_check_def fire_insert_def fire_start_def fire_record_def start_session_of_def start_session_admits_def
  schedules_get_def workareas_get_def runs_insert_def current_inflight_def in_flight_run_def fire_agent_kind_def
  fire_request_def update_session_def update_last_run_def sql_update_def free_key.simps NANOS_def sort_key_def


lemma sample_scheduler_armed: "all_armed 70000 sample_scheduler"
  by (simp add: all_armed_def wheel_ok_def armed_def sample_scheduler_def schedules_get_def)


definition sample_in_flight :: scheduler where
  "sample_in_flight = sched_run sample_fire sample_scheduler"

definition sample_run :: schedule_run where
  "sample_run = \<lparr>sr_schedule_id = ''a'', sr_session_id = Some ''sess'', sr_started_at = 60000,
     sr_ended_at = None, sr_terminal_state = None\<rparr>"

lemma sample_in_flight_run: "map_of (sd_runs sample_in_flight) ''r1'' = Some sample_run"
  by (simp add: sample_in_flight_def sample_run_def sample_fire_def sched_eval)

theorem restart_strands_schedule_witness:
  "runs_of (sched_run [EvPop 180000000000 180000000000, EvRead True, EvRearm 180000000000, EvCheck 180000, EvInsert ''r2'']
     (restart_scheduler 120000000000 120000 sample_in_flight)) ''a'' = [''r1'']"
proof -
  have "sr_schedule_id sample_run = ''a''" "sr_ended_at sample_run = None" by (simp_all add: sample_run_def)
  from restart_strands_schedule [OF sample_in_flight_run this, of "[EvPop 180000000000 180000000000, EvRead True,
      EvRearm 180000000000, EvCheck 180000, EvInsert ''r2'']" 120000000000 120000]
  have "runs_of (sched_run [EvPop 180000000000 180000000000, EvRead True, EvRearm 180000000000, EvCheck 180000, EvInsert ''r2'']
     (restart_scheduler 120000000000 120000 sample_in_flight)) ''a'' = runs_of sample_in_flight ''a''" by simp
  moreover have "runs_of sample_in_flight ''a'' = [''r1'']"
    by (simp add: sample_in_flight_def sample_fire_def runs_of_def sched_eval)
  ultimately show ?thesis by simp
qed

theorem sessions_start_without_prompt_witness:
  "\<exists>q wa root. sd_requests sample_in_flight = [q] \<and> q = \<lparr>rq_workarea_id = wa, rq_agent_kind = ClaudeAgent, rq_echo_text = None,
     rq_cwd = root, rq_permission_mode = None, rq_resume_session_id = None, rq_chat_id = None\<rparr>"
proof -
  have "length (sd_requests sample_in_flight) = 1"
    by (simp add: sample_in_flight_def sample_fire_def sched_eval)
  then obtain q where q: "sd_requests sample_in_flight = [q]" by (auto simp: length_Suc_conv)
  have "sd_requests sample_scheduler = []" by (simp add: sample_scheduler_def)
  from sessions_start_without_prompt [OF this, of q sample_fire] q show ?thesis by (simp add: sample_in_flight_def)
qed

definition sample_inserted :: "string \<Rightarrow> scheduler" where
  "sample_inserted kind = sample_scheduler\<lparr>sd_rows := [(''a'', sample_schedule kind 1000000)],
     sd_runs := [(''r1'', sample_run)], sd_fire := Inserted ''a'' ''r1'' (sample_schedule kind 1000000) 60000\<rparr>"

theorem other_agents_never_run_witness:
  "sd_requests (fire_start (Some (\<lambda>q. Inr ''sess'')) 60001 (sample_inserted ''codex'')) = []"
proof -
  have "sd_fire (sample_inserted ''codex'') = Inserted ''a'' ''r1'' (sample_schedule ''codex'' 1000000) 60000"
    "sc_agent_kind (sample_schedule ''codex'' 1000000) \<noteq> ''claude''"
    "workareas_get (sd_db (sample_inserted ''codex'')) (sc_workarea_id (sample_schedule ''codex'' 1000000)) \<noteq> None"
    "sd_requests (sample_inserted ''codex'') = []"
    by (simp_all add: sample_inserted_def sample_schedule_def sample_scheduler_def workareas_get_def)
  with other_agents_never_run show ?thesis by metis
qed

definition sample_arming :: scheduler where
  "sample_arming = sample_scheduler\<lparr>sd_rows := [(''a'', sample_schedule ''claude'' 1000000), (''b'', sample_schedule ''claude'' 50)],
     sd_wheel := [], sd_fire := Arming ''a'' (sample_schedule ''claude'' 1000000)\<rparr>"

theorem sweep_during_fire_arms_twice_witness:
  "\<exists>k k'. k \<noteq> k' \<and> {(k, ''a''), (k', ''a'')} \<subseteq>
     set (sd_wheel (fire_rearm 60000000000 (snd (run_expiration_sweep 60000000000 60000 sample_arming))))"
proof -
  have "sd_fire sample_arming = Arming ''a'' (sample_schedule ''claude'' 1000000)"
    "\<not> sc_paused (sample_schedule ''claude'' 1000000)"
    "schedules_get sample_arming ''a'' = Some (sample_schedule ''claude'' 1000000)"
    "60000 < sc_expires_at (sample_schedule ''claude'' 1000000)"
    "length (sd_rows sample_arming) \<le> NANOS_PER_MS"
    by (simp_all add: sample_arming_def sample_schedule_def schedules_get_def NANOS_PER_MS_def)
  moreover have "0 < fst (run_expiration_sweep 60000000000 60000 sample_arming)"
    by (simp add: run_expiration_sweep_def pause_expired_def sample_arming_def sched_eval)
  ultimately show ?thesis by (intro sweep_during_fire_arms_twice)
qed

end
