(* ===== verification/HostRing.thy ===== *)
theory HostRing
  imports Prelude
begin

text \<open>
  The output buffer of the agent host (\<open>crates/agent-host/src/ring.rs\<close>) and the recording of a
  chunk with its 32 KiB tail (\<open>record_chunk\<close> of \<open>main.rs\<close>). Sequence numbers are \<open>u64\<close> counters
  of chunks and stay far below their range; they are natural numbers here.
\<close>

type_synonym bytes = "8 word list"

record chunk =
  c_seq :: nat
  c_data :: bytes

record ring_buffer =
  rb_chunks :: "chunk list"
  rb_next_seq :: nat
  rb_total_bytes :: nat
  rb_capacity :: nat

definition RING_BUFFER_BYTES :: nat where
  "RING_BUFFER_BYTES = 1024 * 1024"

definition with_capacity :: "nat \<Rightarrow> ring_buffer" where
  "with_capacity capacity = \<lparr>rb_chunks = [], rb_next_seq = 1, rb_total_bytes = 0, rb_capacity = capacity\<rparr>"

text \<open>The loop of \<open>evict\<close>, over the total and the queue.\<close>

fun evict_loop :: "nat \<Rightarrow> nat \<Rightarrow> chunk list \<Rightarrow> nat \<times> chunk list" where
  "evict_loop capacity tot [] = (tot, [])"
| "evict_loop capacity tot (c # cs) =
     (if capacity < tot then evict_loop capacity (tot - length (c_data c)) cs else (tot, c # cs))"

definition evict :: "ring_buffer \<Rightarrow> ring_buffer" where
  "evict r = (let (tot, cs) = evict_loop (rb_capacity r) (rb_total_bytes r) (rb_chunks r)
              in r\<lparr>rb_total_bytes := tot, rb_chunks := cs\<rparr>)"

definition push :: "bytes \<Rightarrow> ring_buffer \<Rightarrow> nat \<times> ring_buffer" where
  "push data r =
     (let seq = rb_next_seq r;
          r = r\<lparr>rb_next_seq := seq + 1, rb_total_bytes := rb_total_bytes r + length data,
                rb_chunks := rb_chunks r @ [\<lparr>c_seq = seq, c_data = data\<rparr>]\<rparr>
      in (seq, evict r))"

fun prune_loop :: "nat \<Rightarrow> nat \<Rightarrow> chunk list \<Rightarrow> nat \<times> chunk list" where
  "prune_loop ack tot [] = (tot, [])"
| "prune_loop ack tot (c # cs) =
     (if c_seq c \<le> ack then prune_loop ack (tot - length (c_data c)) cs else (tot, c # cs))"

definition prune_through :: "nat \<Rightarrow> ring_buffer \<Rightarrow> ring_buffer" where
  "prune_through ack r = (let (tot, cs) = prune_loop ack (rb_total_bytes r) (rb_chunks r)
                          in r\<lparr>rb_total_bytes := tot, rb_chunks := cs\<rparr>)"

definition replay_past :: "nat \<Rightarrow> ring_buffer \<Rightarrow> chunk list" where
  "replay_past seq r = filter (\<lambda>c. seq < c_seq c) (rb_chunks r)"

definition last_seq :: "ring_buffer \<Rightarrow> nat" where
  "last_seq r = (if rb_chunks r = [] then 0 else c_seq (last (rb_chunks r)))"

section \<open>Invariant\<close>

definition sizes :: "chunk list \<Rightarrow> nat" where
  "sizes cs = sum_list (map (\<lambda>c. length (c_data c)) cs)"

lemma sizes_simps [simp]:
  "sizes [] = 0" "sizes (c # cs) = length (c_data c) + sizes cs" "sizes (xs @ ys) = sizes xs + sizes ys"
  by (simp_all add: sizes_def)

definition floor_seq :: "ring_buffer \<Rightarrow> nat" where
  "floor_seq r = rb_next_seq r - length (rb_chunks r)"

definition ring_inv :: "ring_buffer \<Rightarrow> bool" where
  "ring_inv r \<longleftrightarrow>
     rb_total_bytes r = sizes (rb_chunks r) \<and> rb_total_bytes r \<le> rb_capacity r
     \<and> length (rb_chunks r) < rb_next_seq r
     \<and> map c_seq (rb_chunks r) = [floor_seq r ..< rb_next_seq r]"

lemma evict_loop_suffix:
  "tot = sizes cs \<Longrightarrow> evict_loop cap tot cs = (t, cs') \<Longrightarrow>
     t = sizes cs' \<and> t \<le> cap \<and>
     (\<exists>dropped. cs = dropped @ cs' \<and> (dropped \<noteq> [] \<longrightarrow> cap < sizes (last dropped # cs')))"
proof (induction cap tot cs rule: evict_loop.induct)
  case (1 cap tot)
  then show ?case by simp
next
  case (2 cap tot c cs)
  show ?case
  proof (cases "cap < tot")
    case True
    with 2 have "t = sizes cs' \<and> t \<le> cap \<and>
       (\<exists>dropped. cs = dropped @ cs' \<and> (dropped \<noteq> [] \<longrightarrow> cap < sizes (last dropped # cs')))" by simp
    moreover then obtain dropped where d: "cs = dropped @ cs'"
      "dropped \<noteq> [] \<longrightarrow> cap < sizes (last dropped # cs')" by blast
    then have "cap < sizes (last (c # dropped) # cs')" using True 2(2) by (cases "dropped = []") auto
    ultimately show ?thesis using d by (metis append_Cons)
  next
    case False
    with 2 show ?thesis by auto
  qed
qed

lemma prune_loop_suffix:
  "tot = sizes cs \<Longrightarrow> prune_loop ack tot cs = (t, cs') \<Longrightarrow>
     t = sizes cs' \<and> (\<exists>dropped. cs = dropped @ cs' \<and> (\<forall>c\<in>set dropped. c_seq c \<le> ack))"
proof (induction ack tot cs rule: prune_loop.induct)
  case (2 ack tot c cs)
  show ?case
  proof (cases "c_seq c \<le> ack")
    case True
    with 2 have t: "t = sizes cs'" and "\<exists>dropped. cs = dropped @ cs' \<and> (\<forall>c\<in>set dropped. c_seq c \<le> ack)"
      by simp_all
    then obtain dropped where "cs = dropped @ cs'" "\<forall>c\<in>set dropped. c_seq c \<le> ack" by blast
    with True have "c # cs = (c # dropped) @ cs'" "\<forall>d\<in>set (c # dropped). c_seq d \<le> ack" by auto
    with t show ?thesis by blast
  next
    case False
    with 2 show ?thesis by auto
  qed
qed auto

lemma map_seq_suffix:
  assumes "map c_seq (dropped @ cs) = [lo ..< hi]" and "lo \<le> hi"
  shows "map c_seq cs = [hi - length cs ..< hi]" and "length cs \<le> hi - lo"
proof -
  have len: "length dropped + length cs = hi - lo"
    using arg_cong [OF assms(1), of length] by simp
  then show "length cs \<le> hi - lo" by simp
  have "map c_seq cs = drop (length dropped) [lo ..< hi]"
    using arg_cong [OF assms(1), of "drop (length dropped)"] by simp
  moreover have "lo + length dropped = hi - length cs" using len assms(2) by simp
  ultimately show "map c_seq cs = [hi - length cs ..< hi]" by (simp add: drop_upt)
qed

text \<open>Both operations keep a suffix of the queue, with its total.\<close>

lemma ring_inv_suffix:
  assumes "rb_chunks r = dropped @ cs" and "map c_seq (rb_chunks r) = [floor_seq r ..< rb_next_seq r]"
    and "length (rb_chunks r) < rb_next_seq r" and "sizes cs \<le> rb_capacity r"
  shows "ring_inv (r\<lparr>rb_total_bytes := sizes cs, rb_chunks := cs\<rparr>)"
proof -
  have "floor_seq r \<le> rb_next_seq r" by (simp add: floor_seq_def)
  with map_seq_suffix [of dropped cs "floor_seq r" "rb_next_seq r"] assms show ?thesis
    by (simp add: ring_inv_def floor_seq_def)
qed

lemma push_facts:
  assumes "ring_inv r" and "push data r = (seq, r')"
  shows "ring_inv r'" and "seq = rb_next_seq r" and "rb_next_seq r' = Suc (rb_next_seq r)"
    and "rb_capacity r' = rb_capacity r"
    and "\<exists>dropped. rb_chunks r @ [\<lparr>c_seq = rb_next_seq r, c_data = data\<rparr>] = dropped @ rb_chunks r'
       \<and> (dropped \<noteq> [] \<longrightarrow> rb_capacity r < sizes (last dropped # rb_chunks r'))"
proof -
  let ?c = "\<lparr>c_seq = rb_next_seq r, c_data = data\<rparr>"
  let ?r = "r\<lparr>rb_next_seq := rb_next_seq r + 1, rb_total_bytes := rb_total_bytes r + length data,
                rb_chunks := rb_chunks r @ [?c]\<rparr>"
  obtain t cs where e: "evict_loop (rb_capacity r) (rb_total_bytes r + length data) (rb_chunks r @ [?c]) = (t, cs)"
    by fastforce
  have "rb_total_bytes r + length data = sizes (rb_chunks r @ [?c])"
    using assms(1) by (simp add: ring_inv_def)
  from evict_loop_suffix [OF this e] obtain dropped where
    d: "t = sizes cs" "t \<le> rb_capacity r" "rb_chunks r @ [?c] = dropped @ cs"
    "dropped \<noteq> [] \<longrightarrow> rb_capacity r < sizes (last dropped # cs)" by blast
  have r': "r' = ?r\<lparr>rb_total_bytes := sizes cs, rb_chunks := cs\<rparr>" and s: "seq = rb_next_seq r"
    using assms(2) e d(1) by (auto simp: push_def evict_def Let_def)
  have "map c_seq (rb_chunks ?r) = [floor_seq ?r ..< rb_next_seq ?r]"
    using assms(1) by (simp add: ring_inv_def floor_seq_def)
  moreover have "length (rb_chunks ?r) < rb_next_seq ?r"
    using assms(1) by (simp add: ring_inv_def)
  ultimately show "ring_inv r'"
    unfolding r' using d by (intro ring_inv_suffix [of _ dropped]) auto
  show "seq = rb_next_seq r" by (rule s)
  show "rb_next_seq r' = Suc (rb_next_seq r)" "rb_capacity r' = rb_capacity r" by (simp_all add: r')
  show "\<exists>dropped. rb_chunks r @ [?c] = dropped @ rb_chunks r'
       \<and> (dropped \<noteq> [] \<longrightarrow> rb_capacity r < sizes (last dropped # rb_chunks r'))"
    using d r' by auto
qed

lemma prune_facts:
  assumes "ring_inv r"
  shows "ring_inv (prune_through ack r)" and "rb_next_seq (prune_through ack r) = rb_next_seq r"
    and "rb_capacity (prune_through ack r) = rb_capacity r"
    and "\<exists>dropped. rb_chunks r = dropped @ rb_chunks (prune_through ack r) \<and> (\<forall>c\<in>set dropped. c_seq c \<le> ack)"
proof -
  obtain t cs where e: "prune_loop ack (rb_total_bytes r) (rb_chunks r) = (t, cs)" by fastforce
  from prune_loop_suffix [OF _ e] assms obtain dropped where
    d: "t = sizes cs" "rb_chunks r = dropped @ cs" "\<forall>c\<in>set dropped. c_seq c \<le> ack"
    by (auto simp: ring_inv_def)
  have r': "prune_through ack r = r\<lparr>rb_total_bytes := sizes cs, rb_chunks := cs\<rparr>"
    using e d(1) by (simp add: prune_through_def)
  show "ring_inv (prune_through ack r)"
    unfolding r' using assms d by (intro ring_inv_suffix [of _ dropped]) (auto simp: ring_inv_def)
  show "rb_next_seq (prune_through ack r) = rb_next_seq r"
    "rb_capacity (prune_through ack r) = rb_capacity r" by (simp_all add: r')
  show "\<exists>dropped. rb_chunks r = dropped @ rb_chunks (prune_through ack r) \<and> (\<forall>c\<in>set dropped. c_seq c \<le> ack)"
    using d r' by auto
qed

lemma push_chunks:
  assumes "ring_inv r"
  shows "floor_seq r \<le> floor_seq (snd (push d r))"
    and "rb_next_seq (snd (push d r)) = Suc (rb_next_seq r)"
    and "set (rb_chunks (snd (push d r))) \<subseteq> insert \<lparr>c_seq = rb_next_seq r, c_data = d\<rparr> (set (rb_chunks r))"
proof -
  obtain seq r' where p: "push d r = (seq, r')" by fastforce
  note f = push_facts [OF assms p]
  from f(5) obtain dropped where
    d: "rb_chunks r @ [\<lparr>c_seq = rb_next_seq r, c_data = d\<rparr>] = dropped @ rb_chunks r'" by blast
  have "Suc (length (rb_chunks r)) = length dropped + length (rb_chunks r')"
    using arg_cong [OF d, of length] by simp
  then show "floor_seq r \<le> floor_seq (snd (push d r))" using p f(3) by (simp add: floor_seq_def)
  show "rb_next_seq (snd (push d r)) = Suc (rb_next_seq r)" using p f(3) by simp
  have "set (rb_chunks r') \<subseteq> set (rb_chunks r @ [\<lparr>c_seq = rb_next_seq r, c_data = d\<rparr>])"
    unfolding d by simp
  then show "set (rb_chunks (snd (push d r))) \<subseteq> insert \<lparr>c_seq = rb_next_seq r, c_data = d\<rparr> (set (rb_chunks r))"
    using p by auto
qed

lemma prune_chunks:
  assumes "ring_inv r"
  shows "floor_seq r \<le> floor_seq (prune_through a r)"
    and "set (rb_chunks (prune_through a r)) \<subseteq> set (rb_chunks r)"
proof -
  from prune_facts(4) [OF assms, of a] obtain dropped where
    d: "rb_chunks r = dropped @ rb_chunks (prune_through a r)" by blast
  have "length (rb_chunks (prune_through a r)) \<le> length (rb_chunks r)"
    using arg_cong [OF d, of length] by simp
  then show "floor_seq r \<le> floor_seq (prune_through a r)"
    using prune_facts(2) [OF assms, of a] by (simp add: floor_seq_def)
  have "set (rb_chunks r) = set dropped \<union> set (rb_chunks (prune_through a r))"
    using arg_cong [OF d, of set] by simp
  then show "set (rb_chunks (prune_through a r)) \<subseteq> set (rb_chunks r)" by blast
qed

lemma stored_seq_iff:
  "ring_inv r \<Longrightarrow> s \<in> c_seq ` set (rb_chunks r) \<longleftrightarrow> floor_seq r \<le> s \<and> s < rb_next_seq r"
  unfolding ring_inv_def by (metis atLeastLessThan_iff set_map set_upt)

lemma replay_past_iff:
  assumes "ring_inv r"
  shows "s \<in> c_seq ` set (replay_past p r) \<longleftrightarrow> p < s \<and> floor_seq r \<le> s \<and> s < rb_next_seq r"
  using stored_seq_iff [OF assms, of s] by (auto simp: replay_past_def)

lemma last_seq_eq: "ring_inv r \<Longrightarrow> last_seq r = (if rb_chunks r = [] then 0 else rb_next_seq r - 1)"
proof -
  assume inv: "ring_inv r"
  show ?thesis
  proof (cases "rb_chunks r = []")
    case False
    then have "c_seq (last (rb_chunks r)) = last (map c_seq (rb_chunks r))" by (simp add: last_map)
    also have "\<dots> = rb_next_seq r - 1"
      using inv False by (auto simp: ring_inv_def floor_seq_def last_upt)
    finally show ?thesis using False by (simp add: last_seq_def)
  qed (simp add: last_seq_def)
qed

lemma ring_inv_with_capacity [simp]: "ring_inv (with_capacity n)"
  by (simp add: ring_inv_def with_capacity_def floor_seq_def)

text \<open>The ring as a machine of its two mutations.\<close>

datatype ring_event = Push bytes | Prune nat

fun ring_step :: "ring_buffer \<Rightarrow> ring_event \<Rightarrow> ring_buffer" where
  "ring_step r (Push data) = snd (push data r)"
| "ring_step r (Prune ack) = prune_through ack r"

lemma push_snd:
  assumes "ring_inv r"
  shows "ring_inv (snd (push d r)) \<and> rb_capacity (snd (push d r)) = rb_capacity r"
  using push_facts(1,4) [OF assms] by (cases "push d r") auto

interpretation ring: event_machine ring_step "\<lambda>r. ring_inv r \<and> rb_capacity r = cap" for cap
proof
  fix r e
  assume "ring_inv r \<and> rb_capacity r = cap"
  then show "ring_inv (ring_step r e) \<and> rb_capacity (ring_step r e) = cap"
    using push_snd prune_facts(1,3) by (cases e) auto
qed

section \<open>The tail\<close>

definition TAIL_CAP :: nat where "TAIL_CAP = 32 * 1024"

definition extend_tail :: "bytes \<Rightarrow> bytes \<Rightarrow> bytes" where
  "extend_tail data tail =
     (let tail = tail @ data
      in if TAIL_CAP < length tail then drop (length tail - TAIL_CAP) tail else tail)"

lemma extend_tail_take_last: "extend_tail data tail = take_last TAIL_CAP (tail @ data)"
  by (simp add: extend_tail_def take_last_def Let_def)

record host_output =
  ho_ring :: ring_buffer
  ho_tail :: bytes

definition record_chunk :: "bytes \<Rightarrow> host_output \<Rightarrow> host_output" where
  "record_chunk data st = st\<lparr>ho_ring := snd (push data (ho_ring st)), ho_tail := extend_tail data (ho_tail st)\<rparr>"

section \<open>Properties\<close>

text \<open>the accounting of the output ring. After any pushes and prunes of a fresh buffer, the byte
  total is the sum of the stored chunks and never above the capacity, the stored sequence numbers
  are consecutive and end just below the next one, and a replay past any number returns exactly
  the stored chunks above it, each once and in order.\<close>

theorem ring_accounting:
  "let r = fold (\<lambda>e r. ring_step r e) es (with_capacity cap) in
     rb_total_bytes r = sizes (rb_chunks r) \<and> rb_total_bytes r \<le> cap
     \<and> map c_seq (rb_chunks r) = [floor_seq r ..< rb_next_seq r]
     \<and> map c_seq (replay_past seq r) = [max (Suc seq) (floor_seq r) ..< rb_next_seq r]"
proof -
  let ?r = "fold (\<lambda>e r. ring_step r e) es (with_capacity cap)"
  have inv: "ring_inv ?r \<and> rb_capacity ?r = cap"
    by (rule ring.run_inv) (simp add: with_capacity_def [of cap, THEN arg_cong, of rb_capacity])
  have "map c_seq (replay_past seq ?r) = filter (\<lambda>s. seq < s) (map c_seq (rb_chunks ?r))"
    by (simp add: replay_past_def filter_map o_def)
  also have "\<dots> = [max (Suc seq) (floor_seq ?r) ..< rb_next_seq ?r]"
  proof -
    have "filter (\<lambda>s. l < s) [a ..< b] = [max (Suc l) a ..< b]" for l a b
      by (induction b) (auto simp: max_def)
    then show ?thesis using inv by (simp add: ring_inv_def)
  qed
  finally show ?thesis using inv by (simp add: ring_inv_def Let_def)
qed

text \<open>The chunks of a whole history, numbered as the host numbers them.\<close>

definition history :: "bytes list \<Rightarrow> chunk list" where
  "history ds = map2 (\<lambda>s d. \<lparr>c_seq = s, c_data = d\<rparr>) [1 ..< Suc (length ds)] ds"

lemma history_snoc: "history (ds @ [d]) = history ds @ [\<lparr>c_seq = Suc (length ds), c_data = d\<rparr>]"
proof -
  have "[1 ..< Suc (length (ds @ [d]))] = [1 ..< Suc (length ds)] @ [Suc (length ds)]" by simp
  then show ?thesis by (simp add: history_def del: upt_Suc)
qed

definition record_all :: "bytes list \<Rightarrow> nat \<Rightarrow> host_output" where
  "record_all ds cap = fold record_chunk ds \<lparr>ho_ring = with_capacity cap, ho_tail = []\<rparr>"

text \<open>what survives of the agent's output. After recording any chunks, the ring holds the longest
  run of newest chunks whose bytes fit the capacity, under their original numbers, and the tail
  holds the last 32 KiB of the whole output.\<close>

theorem ring_keeps_longest_suffix:
  "let st = record_all ds cap in
     (\<exists>dropped. history ds = dropped @ rb_chunks (ho_ring st)
        \<and> sizes (rb_chunks (ho_ring st)) \<le> cap
        \<and> (dropped \<noteq> [] \<longrightarrow> cap < sizes (last dropped # rb_chunks (ho_ring st))))
     \<and> ho_tail st = take_last (32 * 1024) (concat ds)"
proof -
  let ?st = "\<lambda>ds. record_all ds cap"
  have "ring_inv (ho_ring (?st ds)) \<and> rb_capacity (ho_ring (?st ds)) = cap
      \<and> rb_next_seq (ho_ring (?st ds)) = Suc (length ds)
      \<and> (\<exists>dropped. history ds = dropped @ rb_chunks (ho_ring (?st ds))
           \<and> (dropped \<noteq> [] \<longrightarrow> cap < sizes (last dropped # rb_chunks (ho_ring (?st ds)))))
      \<and> ho_tail (?st ds) = take_last TAIL_CAP (concat ds)"
  proof (induction ds rule: rev_induct)
    case Nil
    have "rb_capacity (with_capacity cap) = cap" "rb_next_seq (with_capacity cap) = 1"
      "rb_chunks (with_capacity cap) = []" by (simp_all add: with_capacity_def)
    then show ?case by (simp add: record_all_def history_def take_last_def)
  next
    case (snoc d ds)
    let ?r = "ho_ring (?st ds)"
    obtain seq r' where p: "push d ?r = (seq, r')" by fastforce
    have st': "?st (ds @ [d]) = \<lparr>ho_ring = r', ho_tail = extend_tail d (ho_tail (?st ds))\<rparr>"
      using p by (simp add: record_all_def record_chunk_def)
    from snoc obtain dropped where d1: "history ds = dropped @ rb_chunks ?r"
      "dropped \<noteq> [] \<longrightarrow> cap < sizes (last dropped # rb_chunks ?r)" by blast
    from snoc push_facts [OF _ p] obtain dropped' where
      d2: "rb_chunks ?r @ [\<lparr>c_seq = Suc (length ds), c_data = d\<rparr>] = dropped' @ rb_chunks r'"
      "dropped' \<noteq> [] \<longrightarrow> cap < sizes (last dropped' # rb_chunks r')" by auto
    have "history (ds @ [d]) = (dropped @ dropped') @ rb_chunks r'"
      using d1(1) d2(1) by (simp add: history_snoc)
    moreover have "dropped @ dropped' \<noteq> [] \<longrightarrow> cap < sizes (last (dropped @ dropped') # rb_chunks r')"
    proof (cases "dropped' = []")
      case True
      then have "rb_chunks r' = rb_chunks ?r @ [\<lparr>c_seq = Suc (length ds), c_data = d\<rparr>]" using d2 by simp
      with True d1(2) show ?thesis by auto
    next
      case False
      with d2(2) show ?thesis by simp
    qed
    ultimately have "\<exists>dropped. history (ds @ [d]) = dropped @ rb_chunks r'
        \<and> (dropped \<noteq> [] \<longrightarrow> cap < sizes (last dropped # rb_chunks r'))" by blast
    moreover have "extend_tail d (ho_tail (?st ds)) = take_last TAIL_CAP (concat (ds @ [d]))"
      using snoc by (simp add: extend_tail_take_last take_last_append)
    ultimately show ?case using snoc push_facts [OF _ p] by (simp add: st')
  qed
  then show ?thesis by (auto simp: Let_def ring_inv_def TAIL_CAP_def)
qed

theorem ring_keeps_longest_suffix_witness:
  "\<exists>dropped. history [[1], [2, 3]] = dropped @ rb_chunks (ho_ring (record_all [[1], [2, 3]] 2)) \<and> dropped \<noteq> []"
proof -
  obtain dropped where d: "history [[1], [2, 3]] = dropped @ rb_chunks (ho_ring (record_all [[1], [2, 3]] 2))"
    and c: "sizes (rb_chunks (ho_ring (record_all [[1], [2, 3]] 2))) \<le> 2"
    using ring_keeps_longest_suffix [of "[[1], [2, 3]]" 2] by (auto simp: Let_def)
  have "dropped \<noteq> []"
  proof
    assume "dropped = []"
    with c d have "sizes (history [[1], [2, 3]]) \<le> 2" by simp
    then show False by (simp add: history_def sizes_def)
  qed
  with d show ?thesis by blast
qed

end
