(* ===== verification/HostConnection.thy ===== *)
theory HostConnection
  imports HostRing
begin

text \<open>
  One Core connection of the agent host (\<open>run_connection\<close> of \<open>crates/agent-host/src/main.rs\<close>)
  beside the tasks that feed it: the reader thread that reads the agent's output into a channel,
  the task that records the channel's chunks into the ring, and the waiter that sets the exit
  flag. A step is what runs between two awaits; the connection's own steps are the function
  \<open>conn_turn\<close> of its phase, the other tasks' steps are events that may come in between.

  The frame codec and the socket are not modelled: a frame written is appended to \<open>h_sent\<close>, and
  a failed write ends the connection at any point (\<open>Disconnected\<close>).
\<close>

datatype agent_kind = Claude | Codex | OtherKind string

datatype host_frame =
    Hello string bytes nat
  | Ready agent_kind string "string option" nat
  | StdinBytes bytes
  | StdoutBytes nat bytes
  | StderrBytes nat bytes
  | Resize nat nat
  | Ping
  | Pong
  | Ack nat
  | AgentExited "int option" "int option"
  | CookieMismatch
  | AlreadyConnected

text \<open>
  The phases of a connection task. \<open>Sending wm chunks exited n\<close> is the loop body after its
  snapshot; \<open>n\<close>, the number of chunks recorded at that point, is a ghost, like the argument of
  \<open>ExitSent\<close>. \<open>Unparked\<close> is the end of the loop body, before \<open>notified()\<close> creates the future
  that \<open>notify_waiters\<close> wakes.
\<close>

datatype conn_phase =
    NoConn
  | Claimed
  | Marked nat
  | ReadySent nat
  | Replaying nat "chunk list"
  | LoopTop nat
  | Sending nat "chunk list" "(int option \<times> int option) option" nat
  | Unparked nat
  | Parked nat
  | ExitSent nat

record host =
  h_ring :: ring_buffer
  h_inflight :: "bytes list"
  h_exited :: "(int option \<times> int option) option"
  h_phase :: conn_phase
  h_core :: nat
  h_sent :: "host_frame list"
  h_stdin :: "bytes list"
  h_resize :: "(nat \<times> nat) list"
  h_rec :: "bytes list"
  h_exit_rec :: nat

definition new_host :: host where
  "new_host =
     \<lparr>h_ring = with_capacity RING_BUFFER_BYTES, h_inflight = [], h_exited = None, h_phase = NoConn,
      h_core = 0, h_sent = [], h_stdin = [], h_resize = [], h_rec = [], h_exit_rec = 0\<rparr>"

definition send :: "host_frame \<Rightarrow> host \<Rightarrow> host" where
  "send f h = h\<lparr>h_sent := h_sent h @ [f]\<rparr>"

text \<open>\<open>notify_waiters\<close>: only a parked task is woken, nothing is remembered.\<close>

definition notify_waiters :: "host \<Rightarrow> host" where
  "notify_waiters h = (case h_phase h of Parked wm \<Rightarrow> h\<lparr>h_phase := LoopTop wm\<rparr> | _ \<Rightarrow> h)"

text \<open>The first frame: the cookie, then the single-connection slot.\<close>

definition accept_hello :: "bytes \<Rightarrow> host_frame \<Rightarrow> host \<Rightarrow> host_frame list \<times> host" where
  "accept_hello expected_cookie f h =
     (case f of
        Hello core_version peer_cookie core_last_seq \<Rightarrow>
          (if expected_cookie \<noteq> peer_cookie then ([CookieMismatch], h)
           else if h_phase h \<noteq> NoConn then ([AlreadyConnected], h)
           else ([], h\<lparr>h_phase := Claimed, h_core := core_last_seq, h_sent := []\<rparr>))
      | _ \<Rightarrow> ([], h))"

text \<open>The connection task, one await at a time.\<close>

definition conn_turn :: "agent_kind \<Rightarrow> string \<Rightarrow> host \<Rightarrow> host" where
  "conn_turn kind version h =
     (case h_phase h of
        NoConn \<Rightarrow> h
      | Claimed \<Rightarrow> h\<lparr>h_phase := Marked (last_seq (h_ring h))\<rparr>
      | Marked hw \<Rightarrow> (send (Ready kind version None hw) h)\<lparr>h_phase := ReadySent hw\<rparr>
      | ReadySent hw \<Rightarrow> h\<lparr>h_phase := Replaying hw (replay_past (h_core h) (h_ring h))\<rparr>
      | Replaying hw [] \<Rightarrow> h\<lparr>h_phase := LoopTop hw\<rparr>
      | Replaying hw (c # cs) \<Rightarrow> (send (StdoutBytes (c_seq c) (c_data c)) h)\<lparr>h_phase := Replaying hw cs\<rparr>
      | LoopTop wm \<Rightarrow>
          h\<lparr>h_phase := Sending wm (replay_past wm (h_ring h)) (h_exited h) (length (h_rec h))\<rparr>
      | Sending wm (c # cs) exited n \<Rightarrow>
          (send (StdoutBytes (c_seq c) (c_data c)) h)\<lparr>h_phase := Sending (max (c_seq c) wm) cs exited n\<rparr>
      | Sending wm [] (Some (code, sig)) n \<Rightarrow> (send (AgentExited code sig) h)\<lparr>h_phase := ExitSent n\<rparr>
      | Sending wm [] None n \<Rightarrow> h\<lparr>h_phase := Unparked wm\<rparr>
      | Unparked wm \<Rightarrow> h\<lparr>h_phase := Parked wm\<rparr>
      | Parked wm \<Rightarrow> h
      | ExitSent n \<Rightarrow> h)"

text \<open>The reader task of the connection: it runs beside the writer loop.\<close>

fun reader_live :: "conn_phase \<Rightarrow> bool" where
  "reader_live NoConn = False"
| "reader_live Claimed = False"
| "reader_live (Marked _) = False"
| "reader_live (ReadySent _) = False"
| "reader_live (Replaying _ _) = False"
| "reader_live _ = True"

fun handle_core_frame :: "host_frame \<Rightarrow> host \<Rightarrow> host" where
  "handle_core_frame (StdinBytes data) h = h\<lparr>h_stdin := h_stdin h @ [data]\<rparr>"
| "handle_core_frame (Resize rows cols) h = h\<lparr>h_resize := h_resize h @ [(rows, cols)]\<rparr>"
| "handle_core_frame Ping h = send Pong h"
| "handle_core_frame (Ack seq) h = h\<lparr>h_ring := prune_through seq (h_ring h)\<rparr>"
| "handle_core_frame _ h = h"

datatype host_event =
    AgentWrites bytes           \<comment> \<open>the reader thread reads a chunk into the channel\<close>
  | RecordNext                  \<comment> \<open>the recording task takes the next chunk\<close>
  | ChildExited "int option" "int option"
  | Connect host_frame
  | Turn
  | FromCore host_frame
  | Disconnected

text \<open>The exit flag is set after the reader thread has ended, so no chunk is read after it.\<close>

definition host_step :: "bytes \<Rightarrow> host \<Rightarrow> host_event \<Rightarrow> host" where
  "host_step cookie h e =
     (case e of
        AgentWrites data \<Rightarrow>
          (if h_exited h = None then h\<lparr>h_inflight := h_inflight h @ [data]\<rparr> else h)
      | RecordNext \<Rightarrow>
          (case h_inflight h of
             [] \<Rightarrow> h
           | data # rest \<Rightarrow>
               notify_waiters (h\<lparr>h_ring := snd (push data (h_ring h)), h_inflight := rest,
                                 h_rec := h_rec h @ [data]\<rparr>))
      | ChildExited code sig \<Rightarrow>
          (if h_exited h = None
           then notify_waiters (h\<lparr>h_exited := Some (code, sig), h_exit_rec := length (h_rec h)\<rparr>) else h)
      | Connect f \<Rightarrow> snd (accept_hello cookie f h)
      | Turn \<Rightarrow> conn_turn Claude ''0.1'' h
      | FromCore f \<Rightarrow> (if reader_live (h_phase h) then handle_core_frame f h else h)
      | Disconnected \<Rightarrow> h\<lparr>h_phase := NoConn\<rparr>)"

section \<open>Invariant\<close>

definition recorded :: "host \<Rightarrow> nat \<Rightarrow> bytes \<Rightarrow> bool" where
  "recorded h s d \<longleftrightarrow> 1 \<le> s \<and> s \<le> length (h_rec h) \<and> d = h_rec h ! (s - 1)"

definition true_chunks :: "host \<Rightarrow> chunk list \<Rightarrow> bool" where
  "true_chunks h cs \<longleftrightarrow> (\<forall>c\<in>set cs. recorded h (c_seq c) (c_data c))"

text \<open>
  Every chunk above the Core's watermark and up to \<open>n\<close> has left the ring by eviction or by an
  acknowledgement, has been sent on this connection, or is among those about to be.
\<close>

definition covered :: "host \<Rightarrow> nat \<Rightarrow> chunk list \<Rightarrow> bool" where
  "covered h n rest \<longleftrightarrow>
     (\<forall>s. h_core h < s \<longrightarrow> s \<le> n \<longrightarrow>
        s < floor_seq (h_ring h) \<or> (\<exists>d. StdoutBytes s d \<in> set (h_sent h)) \<or> s \<in> c_seq ` set rest)"

definition phase_ok :: "host \<Rightarrow> bool" where
  "phase_ok h =
     (case h_phase h of
        NoConn \<Rightarrow> True
      | Claimed \<Rightarrow> True
      | Marked hw \<Rightarrow> hw \<le> length (h_rec h)
      | ReadySent hw \<Rightarrow> hw \<le> length (h_rec h)
      | Replaying hw rest \<Rightarrow> hw \<le> length (h_rec h) \<and> true_chunks h rest \<and> covered h hw rest
      | LoopTop wm \<Rightarrow> wm \<le> length (h_rec h) \<and> covered h wm []
      | Sending wm rest exited n \<Rightarrow>
          wm \<le> n \<and> n \<le> length (h_rec h) \<and> true_chunks h rest \<and> (\<forall>c\<in>set rest. c_seq c \<le> n)
          \<and> covered h n rest \<and> (exited \<noteq> None \<longrightarrow> h_exited h \<noteq> None \<and> h_exit_rec h \<le> n)
      | Unparked wm \<Rightarrow> wm \<le> length (h_rec h) \<and> covered h wm []
      | Parked wm \<Rightarrow> wm \<le> length (h_rec h) \<and> covered h wm []
      | ExitSent n \<Rightarrow> n \<le> length (h_rec h) \<and> covered h n [] \<and> h_exited h \<noteq> None \<and> h_exit_rec h \<le> n)"

definition host_inv :: "host \<Rightarrow> bool" where
  "host_inv h \<longleftrightarrow>
     ring_inv (h_ring h) \<and> rb_next_seq (h_ring h) = Suc (length (h_rec h))
     \<and> true_chunks h (rb_chunks (h_ring h))
     \<and> (\<forall>s d. StdoutBytes s d \<in> set (h_sent h) \<longrightarrow> recorded h s d)
     \<and> (h_exited h \<noteq> None \<longrightarrow> h_exit_rec h \<le> length (h_rec h))
     \<and> phase_ok h"

text \<open>What the other tasks may do to the state of a connection without disturbing it.\<close>

definition grows :: "host \<Rightarrow> host \<Rightarrow> bool" where
  "grows h h' \<longleftrightarrow>
     (\<exists>ds. h_rec h' = h_rec h @ ds) \<and> h_core h' = h_core h
     \<and> set (h_sent h) \<subseteq> set (h_sent h') \<and> floor_seq (h_ring h) \<le> floor_seq (h_ring h')
     \<and> (h_exited h \<noteq> None \<longrightarrow> h_exited h' \<noteq> None \<and> h_exit_rec h' = h_exit_rec h)"

lemma recorded_mono: "grows h h' \<Longrightarrow> recorded h s d \<Longrightarrow> recorded h' s d"
  by (auto simp: grows_def recorded_def nth_append)

lemma true_chunks_mono: "grows h h' \<Longrightarrow> true_chunks h cs \<Longrightarrow> true_chunks h' cs"
  using recorded_mono by (auto simp: true_chunks_def)

lemma covered_mono: "grows h h' \<Longrightarrow> covered h n cs \<Longrightarrow> covered h' n cs"
  unfolding covered_def
proof (intro allI impI)
  fix s
  assume g: "grows h h'" and c: "\<forall>s>h_core h. s \<le> n \<longrightarrow> s < floor_seq (h_ring h)
      \<or> (\<exists>d. StdoutBytes s d \<in> set (h_sent h)) \<or> s \<in> c_seq ` set cs" and "h_core h' < s" "s \<le> n"
  then have "s < floor_seq (h_ring h) \<or> (\<exists>d. StdoutBytes s d \<in> set (h_sent h)) \<or> s \<in> c_seq ` set cs"
    by (simp add: grows_def)
  with g show "s < floor_seq (h_ring h') \<or> (\<exists>d. StdoutBytes s d \<in> set (h_sent h')) \<or> s \<in> c_seq ` set cs"
    unfolding grows_def by (elim disjE conjE) (simp, blast, blast)
qed

lemma length_rec_mono: "grows h h' \<Longrightarrow> n \<le> length (h_rec h) \<Longrightarrow> n \<le> length (h_rec h')"
  by (auto simp: grows_def)

lemma exited_mono:
  "grows h h' \<Longrightarrow> h_exited h \<noteq> None \<Longrightarrow> h_exited h' \<noteq> None \<and> h_exit_rec h' = h_exit_rec h"
  by (auto simp: grows_def)

lemma phase_ok_mono:
  assumes "grows h h'" and "h_phase h' = h_phase h" and "phase_ok h"
  shows "phase_ok h'"
  using assms(3) true_chunks_mono [OF assms(1)] covered_mono [OF assms(1)] length_rec_mono [OF assms(1)]
    exited_mono [OF assms(1)]
  unfolding phase_ok_def assms(2) by (cases "h_phase h") auto

lemma phase_ok_notify: "phase_ok h \<Longrightarrow> phase_ok (notify_waiters h)"
  by (cases "h_phase h") (auto simp: notify_waiters_def phase_ok_def covered_def)

lemma notify_other [simp]:
  "h_ring (notify_waiters h) = h_ring h" "h_rec (notify_waiters h) = h_rec h"
  "h_sent (notify_waiters h) = h_sent h" "h_exited (notify_waiters h) = h_exited h"
  "h_exit_rec (notify_waiters h) = h_exit_rec h" "h_core (notify_waiters h) = h_core h"
  by (simp_all add: notify_waiters_def split: conn_phase.split)

lemma host_inv_notify: "host_inv h \<Longrightarrow> host_inv (notify_waiters h)"
  using phase_ok_notify by (auto simp: host_inv_def true_chunks_def recorded_def)

lemma host_inv_grows:
  assumes "host_inv h" and "grows h h'" and "h_phase h' = h_phase h"
    and "ring_inv (h_ring h')" and "rb_next_seq (h_ring h') = Suc (length (h_rec h'))"
    and "true_chunks h' (rb_chunks (h_ring h'))"
    and "\<And>s d. StdoutBytes s d \<in> set (h_sent h') \<Longrightarrow> StdoutBytes s d \<in> set (h_sent h)"
    and "h_exited h' \<noteq> None \<Longrightarrow> h_exit_rec h' \<le> length (h_rec h')"
  shows "host_inv h'"
  using assms recorded_mono [OF assms(2)] phase_ok_mono [OF assms(2,3)] by (auto simp: host_inv_def)

lemma host_inv_record:
  assumes "host_inv h"
  shows "host_inv (h\<lparr>h_ring := snd (push d (h_ring h)), h_inflight := fl, h_rec := h_rec h @ [d]\<rparr>)"
    (is "host_inv ?h")
proof -
  have r: "ring_inv (h_ring h)" "rb_next_seq (h_ring h) = Suc (length (h_rec h))"
    and t: "true_chunks h (rb_chunks (h_ring h))" using assms by (auto simp: host_inv_def)
  have g: "grows h ?h" using push_chunks(1) [OF r(1)] by (auto simp: grows_def)
  have "recorded ?h (Suc (length (h_rec h))) d" by (simp add: recorded_def nth_append)
  moreover have "true_chunks ?h (rb_chunks (h_ring h))" by (rule true_chunks_mono [OF g t])
  ultimately have "true_chunks ?h (rb_chunks (h_ring ?h))"
    using push_chunks(3) [OF r(1), of d] r(2) by (auto simp: true_chunks_def)
  then show ?thesis
    using push_snd [OF r(1), of d] push_chunks(2) [OF r(1), of d] r(2) assms
    by (intro host_inv_grows [OF assms g]) (auto simp: host_inv_def)
qed

lemma host_inv_ack:
  assumes "host_inv h"
  shows "host_inv (h\<lparr>h_ring := prune_through a (h_ring h)\<rparr>)" (is "host_inv ?h")
proof -
  have r: "ring_inv (h_ring h)" "rb_next_seq (h_ring h) = Suc (length (h_rec h))"
    and t: "true_chunks h (rb_chunks (h_ring h))" using assms by (auto simp: host_inv_def)
  have g: "grows h ?h" using prune_chunks(1) [OF r(1)] by (auto simp: grows_def)
  have "true_chunks ?h (rb_chunks (h_ring ?h))"
    using prune_chunks(2) [OF r(1), of a] t by (auto simp: true_chunks_def recorded_def)
  then show ?thesis
    using prune_facts(1,2) [OF r(1), of a] r(2) assms
    by (intro host_inv_grows [OF assms g]) (auto simp: host_inv_def)
qed

lemma host_inv_same:
  assumes "host_inv h" and "h_ring h' = h_ring h" and "h_rec h' = h_rec h" and "h_core h' = h_core h"
    and "h_phase h' = h_phase h" and "h_exited h' = h_exited h" and "h_exit_rec h' = h_exit_rec h"
    and "set (h_sent h) \<subseteq> set (h_sent h')"
    and "\<And>s d. StdoutBytes s d \<in> set (h_sent h') \<Longrightarrow> StdoutBytes s d \<in> set (h_sent h)"
  shows "host_inv h'"
proof -
  have g: "grows h h'" using assms by (simp add: grows_def)
  have "true_chunks h' (rb_chunks (h_ring h'))"
    using assms by (auto simp: host_inv_def true_chunks_def recorded_def)
  with assms show ?thesis by (intro host_inv_grows [OF assms(1) g]) (auto simp: host_inv_def)
qed

lemma host_inv_frame: "host_inv h \<Longrightarrow> host_inv (handle_core_frame f h)"
  by (cases f) (auto simp: host_inv_ack send_def elim!: host_inv_same)

text \<open>A turn that moves the phase and sends frames whose data are recorded.\<close>

lemma host_inv_turn:
  assumes "host_inv h" and "set (h_sent h) \<subseteq> set sent"
    and "\<And>s d. StdoutBytes s d \<in> set sent \<Longrightarrow> StdoutBytes s d \<in> set (h_sent h) \<or> recorded h s d"
    and "phase_ok (h\<lparr>h_sent := sent, h_phase := ph\<rparr>)"
  shows "host_inv (h\<lparr>h_sent := sent, h_phase := ph\<rparr>)"
  using assms by (fastforce simp: host_inv_def true_chunks_def recorded_def)

lemma phase_eq_turn: "h\<lparr>h_phase := ph\<rparr> = h\<lparr>h_sent := h_sent h, h_phase := ph\<rparr>"
  by simp

lemma covered_send:
  "covered h n (c # cs) \<Longrightarrow> covered (h\<lparr>h_sent := h_sent h @ [StdoutBytes (c_seq c) d], h_phase := ph\<rparr>) n cs"
  by (auto simp: covered_def)

lemma covered_replay:
  assumes "host_inv h" and "covered h p [] \<or> p = h_core h" and "n \<le> length (h_rec h)"
  shows "covered (h\<lparr>h_phase := ph\<rparr>) n (replay_past p (h_ring h))"
  unfolding covered_def
proof (intro allI impI)
  fix s assume s: "h_core (h\<lparr>h_phase := ph\<rparr>) < s" "s \<le> n"
  have r: "ring_inv (h_ring h)" "rb_next_seq (h_ring h) = Suc (length (h_rec h))"
    using assms(1) by (auto simp: host_inv_def)
  show "s < floor_seq (h_ring (h\<lparr>h_phase := ph\<rparr>)) \<or> (\<exists>d. StdoutBytes s d \<in> set (h_sent (h\<lparr>h_phase := ph\<rparr>)))
      \<or> s \<in> c_seq ` set (replay_past p (h_ring h))"
    using assms(2,3) s replay_past_iff [OF r(1), of s p] r(2) by (cases "s \<le> p") (auto simp: covered_def)
qed

lemma true_chunks_replay: "host_inv h \<Longrightarrow> true_chunks h (replay_past p (h_ring h))"
  by (auto simp: host_inv_def true_chunks_def replay_past_def)

lemma replay_bound:
  assumes "host_inv h" and "c \<in> set (replay_past p (h_ring h))" shows "c_seq c \<le> length (h_rec h)"
  using true_chunks_replay [OF assms(1)] assms(2) by (auto simp: true_chunks_def recorded_def)

lemma host_inv_conn_turn:
  assumes "host_inv h"
  shows "host_inv (conn_turn kind v h)"
proof -
  have p: "phase_ok h" using assms by (simp add: host_inv_def)
  note intro_turn = host_inv_turn [OF assms]
  show ?thesis
  proof (cases "h_phase h")
    case Claimed
    have "last_seq (h_ring h) \<le> length (h_rec h)"
      using assms last_seq_eq by (auto simp: host_inv_def)
    then have "host_inv (h\<lparr>h_sent := h_sent h, h_phase := Marked (last_seq (h_ring h))\<rparr>)"
      by (intro intro_turn) (auto simp: phase_ok_def)
    with Claimed show ?thesis by (simp add: conn_turn_def)
  next
    case (Marked hw)
    with p have "host_inv (h\<lparr>h_sent := h_sent h @ [Ready kind v None hw], h_phase := ReadySent hw\<rparr>)"
      by (intro intro_turn) (auto simp: phase_ok_def)
    with Marked show ?thesis by (simp add: conn_turn_def send_def)
  next
    case (ReadySent hw)
    with p have hw: "hw \<le> length (h_rec h)" by (simp add: phase_ok_def)
    have "host_inv (h\<lparr>h_sent := h_sent h, h_phase := Replaying hw (replay_past (h_core h) (h_ring h))\<rparr>)"
      using hw true_chunks_replay [OF assms, of "h_core h"] covered_replay [OF assms _ hw, of "h_core h"]
      by (intro intro_turn) (auto simp: phase_ok_def true_chunks_def recorded_def)
    with ReadySent show ?thesis by (simp add: conn_turn_def)
  next
    case (Replaying hw rest)
    show ?thesis
    proof (cases rest)
      case Nil
      with p Replaying have "host_inv (h\<lparr>h_sent := h_sent h, h_phase := LoopTop hw\<rparr>)"
        by (intro intro_turn) (auto simp: phase_ok_def covered_def)
      with Replaying Nil show ?thesis by (simp add: conn_turn_def)
    next
      case (Cons c cs)
      with p Replaying have "host_inv (h\<lparr>h_sent := h_sent h @ [StdoutBytes (c_seq c) (c_data c)], h_phase := Replaying hw cs\<rparr>)"
        by (intro intro_turn) (auto simp: phase_ok_def true_chunks_def recorded_def intro: covered_send)
      with Replaying Cons show ?thesis by (simp add: conn_turn_def send_def)
    qed
  next
    case (LoopTop wm)
    with p have wm: "wm \<le> length (h_rec h)" "covered h wm []" by (simp_all add: phase_ok_def)
    have "h_exited h \<noteq> None \<longrightarrow> h_exit_rec h \<le> length (h_rec h)" using assms by (simp add: host_inv_def)
    then have "host_inv (h\<lparr>h_sent := h_sent h,
        h_phase := Sending wm (replay_past wm (h_ring h)) (h_exited h) (length (h_rec h))\<rparr>)"
      using wm true_chunks_replay [OF assms, of wm] covered_replay [OF assms, of wm "length (h_rec h)"]
        replay_bound [OF assms, of _ wm]
      by (intro intro_turn) (auto simp: phase_ok_def true_chunks_def recorded_def)
    with LoopTop show ?thesis by (simp add: conn_turn_def)
  next
    case (Sending wm rest exited n)
    show ?thesis
    proof (cases rest)
      case (Cons c cs)
      with p Sending have "host_inv (h\<lparr>h_sent := h_sent h @ [StdoutBytes (c_seq c) (c_data c)],
          h_phase := Sending (max (c_seq c) wm) cs exited n\<rparr>)"
        by (intro intro_turn) (auto simp: phase_ok_def true_chunks_def recorded_def intro: covered_send)
      with Sending Cons show ?thesis by (simp add: conn_turn_def send_def)
    next
      case Nil
      show ?thesis
      proof (cases exited)
        case None
        with p Sending Nil have "host_inv (h\<lparr>h_sent := h_sent h, h_phase := Unparked wm\<rparr>)"
          by (intro intro_turn) (auto simp: phase_ok_def covered_def)
        with Sending Nil None show ?thesis by (simp add: conn_turn_def)
      next
        case (Some ex)
        obtain code sig where ex: "ex = (code, sig)" by fastforce
        from p Sending Nil Some have "host_inv (h\<lparr>h_sent := h_sent h @ [AgentExited code sig], h_phase := ExitSent n\<rparr>)"
          by (intro intro_turn) (auto simp: phase_ok_def covered_def)
        with Sending Nil Some ex show ?thesis by (simp add: conn_turn_def send_def)
      qed
    qed
  next
    case (Unparked wm)
    with p have "host_inv (h\<lparr>h_sent := h_sent h, h_phase := Parked wm\<rparr>)"
      by (intro intro_turn) (auto simp: phase_ok_def covered_def)
    with Unparked show ?thesis by (simp add: conn_turn_def)
  qed (use assms in \<open>simp_all add: conn_turn_def\<close>)
qed

lemma host_inv_step:
  assumes "host_inv h"
  shows "host_inv (host_step cookie h e)"
proof (cases e)
  case (AgentWrites d)
  then show ?thesis using assms by (auto simp: host_step_def elim!: host_inv_same)
next
  case RecordNext
  then show ?thesis
    using assms host_inv_notify [OF host_inv_record [OF assms]] by (simp add: host_step_def split: list.split)
next
  case (ChildExited code sig)
  let ?h = "h\<lparr>h_exited := Some (code, sig), h_exit_rec := length (h_rec h)\<rparr>"
  have "host_inv ?h" if "h_exited h = None"
  proof -
    have g: "grows h ?h" using that by (simp add: grows_def)
    have "true_chunks ?h (rb_chunks (h_ring h))"
      using assms by (intro true_chunks_mono [OF g]) (simp add: host_inv_def)
    with assms show ?thesis by (intro host_inv_grows [OF assms g]) (simp_all add: host_inv_def)
  qed
  with ChildExited show ?thesis using assms by (simp add: host_step_def host_inv_notify)
next
  case (Connect f)
  have "host_inv (h\<lparr>h_phase := Claimed, h_core := n, h_sent := []\<rparr>)" for n
    using assms by (simp add: host_inv_def true_chunks_def recorded_def phase_ok_def)
  with Connect assms show ?thesis by (cases f) (simp_all add: host_step_def accept_hello_def)
next
  case Turn
  then show ?thesis using assms by (simp add: host_step_def host_inv_conn_turn)
next
  case (FromCore f)
  then show ?thesis using assms by (simp add: host_step_def host_inv_frame)
next
  case Disconnected
  have "host_inv (h\<lparr>h_phase := NoConn\<rparr>)"
    using assms by (simp add: host_inv_def true_chunks_def recorded_def phase_ok_def)
  with Disconnected show ?thesis by (simp add: host_step_def)
qed

interpretation host_machine: event_machine "host_step cookie" host_inv for cookie
  by unfold_locales (rule host_inv_step)

definition run_host :: "bytes \<Rightarrow> host_event list \<Rightarrow> host" where
  "run_host cookie es = fold (\<lambda>e h. host_step cookie h e) es new_host"

lemma host_inv_new: "host_inv new_host"
proof -
  have "rb_next_seq (with_capacity n) = 1" "rb_chunks (with_capacity n) = []" for n
    by (simp_all add: with_capacity_def)
  then show ?thesis by (simp add: host_inv_def new_host_def true_chunks_def phase_ok_def)
qed

lemma host_inv_run: "host_inv (run_host cookie es)"
  unfolding run_host_def by (rule host_machine.run_inv) (rule host_inv_new)

section \<open>Properties\<close>

text \<open>C5: a Core that hears the agent ended has its recorded output. For every interleaving of the
  agent, the recording task, the waiter, the Core's acknowledgements, reconnections and the
  connection's own steps: a data frame always carries the chunk recorded under its number; and
  once the exit frame is out, every chunk recorded before the exit flag was set and above the
  watermark of the Core's hello was sent on this connection, unless it had left the ring.\<close>

theorem recorded_output_delivered:
  assumes "h_phase (run_host cookie es) = ExitSent n"
  shows "let h = run_host cookie es in
    (\<forall>s d. StdoutBytes s d \<in> set (h_sent h) \<longrightarrow> 1 \<le> s \<and> s \<le> length (h_rec h) \<and> d = h_rec h ! (s - 1))
    \<and> (\<forall>s. h_core h < s \<and> s \<le> h_exit_rec h \<longrightarrow>
         s < floor_seq (h_ring h) \<or> StdoutBytes s (h_rec h ! (s - 1)) \<in> set (h_sent h))"
proof -
  let ?h = "run_host cookie es"
  have inv: "host_inv ?h" by (rule host_inv_run)
  then have frames: "StdoutBytes s d \<in> set (h_sent ?h) \<Longrightarrow> recorded ?h s d" for s d
    by (simp add: host_inv_def)
  have "covered ?h n []" and n: "h_exit_rec ?h \<le> n"
    using inv assms by (auto simp: host_inv_def phase_ok_def)
  then have c: "h_core ?h < s \<Longrightarrow> s \<le> h_exit_rec ?h \<Longrightarrow>
      s < floor_seq (h_ring ?h) \<or> (\<exists>d. StdoutBytes s d \<in> set (h_sent ?h))" for s
    by (auto simp: covered_def)
  show ?thesis
    using frames c by (fastforce simp: Let_def recorded_def)
qed

lemmas host_eval = run_host_def host_step_def accept_hello_def conn_turn_def notify_waiters_def send_def
  new_host_def with_capacity_def RING_BUFFER_BYTES_def push_def evict_def replay_past_def last_seq_def Let_def

definition hello :: host_event where "hello = Connect (Hello ''core'' [7] 0)"

lemma run_recorded_then_exit:
  "run_host [7] [AgentWrites [1], RecordNext, hello, Turn, Turn, Turn, Turn, Turn, ChildExited (Some 0) None,
      Turn, Turn]
   = \<lparr>h_ring = \<lparr>rb_chunks = [\<lparr>c_seq = 1, c_data = [1]\<rparr>], rb_next_seq = 2, rb_total_bytes = 1,
        rb_capacity = RING_BUFFER_BYTES\<rparr>,
      h_inflight = [], h_exited = Some (Some 0, None), h_phase = ExitSent 1, h_core = 0,
      h_sent = [Ready Claude ''0.1'' None 1, StdoutBytes 1 [1], AgentExited (Some 0) None],
      h_stdin = [], h_resize = [], h_rec = [[1]], h_exit_rec = 1\<rparr>"
  by (simp add: host_eval hello_def)

theorem recorded_output_delivered_witness:
  "StdoutBytes 1 [1] \<in> set (h_sent (run_host [7] [AgentWrites [1], RecordNext, hello, Turn, Turn, Turn, Turn, Turn,
     ChildExited (Some 0) None, Turn, Turn]))"
  using recorded_output_delivered [of "[7]" "[AgentWrites [1], RecordNext, hello, Turn, Turn, Turn, Turn, Turn,
     ChildExited (Some 0) None, Turn, Turn]" 1]
  by (simp add: run_recorded_then_exit Let_def floor_seq_def)

text \<open>a chunk can be delivered twice. The high-water mark the writer loop starts from is read
  under its own lock, before the replay is: a chunk recorded between the two is in the replay and
  above the mark, and one connection sends it in both.\<close>

theorem chunk_recorded_during_handshake_sent_twice:
  "h_sent (run_host [7] [hello, Turn, AgentWrites [1], RecordNext, Turn, Turn, Turn, Turn, Turn, Turn])
     = [Ready Claude ''0.1'' None 0, StdoutBytes 1 [1], StdoutBytes 1 [1]]"
  by (simp add: host_eval hello_def)

text \<open>output can be lost at the exit. The exit flag is set once the reader thread has ended, with
  the chunks it read possibly still in the channel: the connection then reports the exit before the
  last chunk is recorded, and its writer is done, so no further step of it sends that chunk. And a
  notification that arrives between the loop body and \<open>notified()\<close> is not remembered: the writer
  parks with a recorded chunk unsent and the exit unreported, and stays parked however often the
  connection's task is polled.\<close>

theorem exit_can_lose_output:
  "(let h = run_host [7] [hello, Turn, Turn, Turn, Turn, AgentWrites [1], ChildExited (Some 0) None,
             Turn, Turn, RecordNext, Turn, Turn] in
     h_sent h = [Ready Claude ''0.1'' None 0, AgentExited (Some 0) None] \<and> h_rec h = [[1]]
     \<and> conn_turn Claude ''0.1'' h = h)
   \<and> (let h = run_host [7] [hello, Turn, Turn, Turn, Turn, Turn, Turn, AgentWrites [1], RecordNext,
             ChildExited (Some 0) None, Turn] in
     h_sent h = [Ready Claude ''0.1'' None 0] \<and> h_rec h = [[1]] \<and> h_exited h = Some (Some 0, None)
     \<and> conn_turn Claude ''0.1'' h = h)"
  by (simp add: host_eval hello_def)

text \<open>The high-water mark the host reports is not the highest number it assigned. Once the Core
  has acknowledged everything that was recorded, the ring is empty and the next hello is answered
  with the mark 0, however many chunks were sent.\<close>

lemma mark_after_full_acknowledgement:
  assumes "ring_inv r" and "rb_next_seq r \<le> Suc ack"
  shows "last_seq (prune_through ack r) = 0 \<and> rb_next_seq (prune_through ack r) = rb_next_seq r"
proof -
  let ?r = "prune_through ack r"
  have inv: "ring_inv ?r" "rb_next_seq ?r = rb_next_seq r" using prune_facts(1,2) [OF assms(1)] by auto
  have "rb_chunks ?r = []"
  proof (rule ccontr)
    assume "rb_chunks ?r \<noteq> []"
    then obtain c cs where c: "rb_chunks ?r = c # cs" by (cases "rb_chunks ?r") auto
    obtain t where e: "prune_loop ack (rb_total_bytes r) (rb_chunks r) = (t, c # cs)"
      using c by (cases "prune_loop ack (rb_total_bytes r) (rb_chunks r)") (simp add: prune_through_def)
    have "prune_loop a b xs = (t, c # cs) \<Longrightarrow> a < c_seq c" for a b xs
      by (induction a b xs rule: prune_loop.induct) (auto split: if_splits)
    with e have "ack < c_seq c" by blast
    moreover have "c_seq c < rb_next_seq ?r"
      using stored_seq_iff [OF inv(1), of "c_seq c"] c by auto
    ultimately show False using assms(2) inv(2) by simp
  qed
  then show ?thesis using inv by (simp add: last_seq_def)
qed

end
