(* ===== verification/Managed.thy ===== *)
theory Managed
  imports Permission Json
begin

text \<open>
  \<open>managed.json\<close>, the organisation's policy file (\<open>crates/core/src/security/managed.rs\<close>):
  its effective form, the predicates the consumers ask, and the loader that validates each
  field, reverts a bad one to its default and records a violation. Reading the file and
  deserialising its text are arguments: the outcome of the read, and the parser from the
  file's text to its raw fields.
\<close>

definition MANAGED_SCHEMA_VERSION :: nat where
  "MANAGED_SCHEMA_VERSION = 1"

record managed_policy =
  mp_version :: nat
  mp_max_permission_mode :: "permission_mode option"
  mp_allow_yolo :: bool
  mp_allow_bypass_destructive_guard :: bool
  mp_preamble_template_path :: "string option"
  mp_max_reasoning_level :: "string option"
  mp_disable_remote :: bool
  mp_allowed_pairing_devices :: "string list option"
  mp_max_paired_devices_per_user :: "nat option"
  mp_relay_url :: "string option"
  mp_audit_forward_endpoint :: "string option"
  mp_deny_filesystem_paths :: "string list"
  mp_default_permission_mode :: "permission_mode option"
  mp_enterprise_data_privacy :: "bool option"
  mp_default_model :: "string option"
  mp_claude_executable_path :: "string option"
  mp_codex_executable_path :: "string option"
  mp_gemini_executable_path :: "string option"

definition default_policy :: managed_policy where
  "default_policy =
     \<lparr>mp_version = MANAGED_SCHEMA_VERSION, mp_max_permission_mode = None,
      mp_allow_yolo = True, mp_allow_bypass_destructive_guard = True,
      mp_preamble_template_path = None, mp_max_reasoning_level = None,
      mp_disable_remote = False, mp_allowed_pairing_devices = None,
      mp_max_paired_devices_per_user = None, mp_relay_url = None,
      mp_audit_forward_endpoint = None, mp_deny_filesystem_paths = [],
      mp_default_permission_mode = None, mp_enterprise_data_privacy = None,
      mp_default_model = None, mp_claude_executable_path = None,
      mp_codex_executable_path = None, mp_gemini_executable_path = None\<rparr>"

definition remote_disabled :: "managed_policy \<Rightarrow> bool" where
  "remote_disabled p = mp_disable_remote p"

definition is_pairing_allowed :: "managed_policy \<Rightarrow> string \<Rightarrow> bool" where
  "is_pairing_allowed p fingerprint =
     (case mp_allowed_pairing_devices p of
        None \<Rightarrow> True
      | Some whitelist \<Rightarrow> list_ex (\<lambda>f. f = fingerprint) whitelist)"

definition max_paired_devices :: "managed_policy \<Rightarrow> nat option" where
  "max_paired_devices p = mp_max_paired_devices_per_user p"

section \<open>The raw file\<close>

record managed_file =
  mf_version :: "nat option"
  mf_max_permission_mode :: "string option"
  mf_allow_yolo :: "bool option"
  mf_allow_bypass_destructive_guard :: "bool option"
  mf_preamble_template_path :: "string option"
  mf_max_reasoning_level :: "string option"
  mf_disable_remote :: "json option"
  mf_allowed_pairing_devices :: "json option"
  mf_max_paired_devices_per_user :: "json option"
  mf_relay_url :: "json option"
  mf_audit_forward_endpoint :: "json option"
  mf_deny_filesystem_paths :: "json option"
  mf_default_permission_mode :: "string option"
  mf_enterprise_data_privacy :: "json option"
  mf_default_model :: "json option"
  mf_claude_executable_path :: "json option"
  mf_codex_executable_path :: "json option"
  mf_gemini_executable_path :: "json option"

fun json_type_name :: "json \<Rightarrow> string" where
  "json_type_name JNull = ''null''"
| "json_type_name (JBool _) = ''boolean''"
| "json_type_name (JInt _) = ''number''"
| "json_type_name (JFloat _) = ''number''"
| "json_type_name (JString _) = ''string''"
| "json_type_name (JArray _) = ''array''"
| "json_type_name (JObject _) = ''object''"

text \<open>
  The validators return the value and the violations they push, in order; \<open>number_text\<close> in
  a message is the printed number, an argument of the loader.
\<close>

fun validate_bool :: "string \<Rightarrow> json option \<Rightarrow> bool \<Rightarrow> bool \<times> string list" where
  "validate_bool field None d = (d, [])"
| "validate_bool field (Some JNull) d = (d, [])"
| "validate_bool field (Some (JBool b)) d = (b, [])"
| "validate_bool field (Some other) d =
     (d, [field @ '' must be a boolean, got '' @ json_type_name other @ ''; reverted to default''])"

fun validate_opt_bool :: "string \<Rightarrow> json option \<Rightarrow> bool option \<times> string list" where
  "validate_opt_bool field None = (None, [])"
| "validate_opt_bool field (Some JNull) = (None, [])"
| "validate_opt_bool field (Some (JBool b)) = (Some b, [])"
| "validate_opt_bool field (Some other) =
     (None, [field @ '' must be a boolean, got '' @ json_type_name other @ ''; reverted to default''])"

definition not_a_u32 :: "string \<Rightarrow> string \<Rightarrow> string" where
  "not_a_u32 field n = field @ '' must be a non-negative integer '' @ [CHR 0xE2, CHR 0x89, CHR 0xA4]
     @ '' 4294967295, got '' @ n @ ''; reverted to default''"

fun validate_u32 :: "(json \<Rightarrow> string) \<Rightarrow> string \<Rightarrow> json option \<Rightarrow> nat option \<times> string list" where
  "validate_u32 num field None = (None, [])"
| "validate_u32 num field (Some JNull) = (None, [])"
| "validate_u32 num field (Some (JInt n)) =
     (case as_u64 n of
        Some v \<Rightarrow> if v \<le> u32_max then (Some v, []) else (None, [not_a_u32 field (num (JInt n))])
      | None \<Rightarrow> (None, [not_a_u32 field (num (JInt n))]))"
| "validate_u32 num field (Some (JFloat x)) = (None, [not_a_u32 field (num (JFloat x))])"
| "validate_u32 num field (Some other) =
     (None, [field @ '' must be a non-negative integer, got '' @ json_type_name other
        @ ''; reverted to default''])"

fun validate_opt_string :: "string \<Rightarrow> json option \<Rightarrow> string option \<times> string list" where
  "validate_opt_string field None = (None, [])"
| "validate_opt_string field (Some JNull) = (None, [])"
| "validate_opt_string field (Some (JString s)) = (Some s, [])"
| "validate_opt_string field (Some other) =
     (None, [field @ '' must be a string, got '' @ json_type_name other @ ''; reverted to default''])"

text \<open>The loop over the array: the first element that is not a string reverts the field.\<close>

fun string_items :: "string \<Rightarrow> json list \<Rightarrow> string list \<Rightarrow> string list option \<times> string list" where
  "string_items field [] out = (Some out, [])"
| "string_items field (JString s # items) out = string_items field items (out @ [s])"
| "string_items field (other # items) out =
     (None, [field @ '' must be an array of strings; element '' @ json_type_name other
        @ '' is not a string; reverted to default''])"

fun validate_string_array_or_null :: "string \<Rightarrow> json option \<Rightarrow> string list option \<times> string list" where
  "validate_string_array_or_null field None = (None, [])"
| "validate_string_array_or_null field (Some JNull) = (None, [])"
| "validate_string_array_or_null field (Some (JArray items)) = string_items field items []"
| "validate_string_array_or_null field (Some other) =
     (None, [field @ '' must be null or an array of strings, got '' @ json_type_name other
        @ ''; reverted to default''])"

definition validate_mode :: "string \<Rightarrow> string option \<Rightarrow> permission_mode option \<times> string list" where
  "validate_mode field v =
     (case v of
        None \<Rightarrow> (None, [])
      | Some s \<Rightarrow>
          (case parse_permission_mode s of
             Inr m \<Rightarrow> (Some m, [])
           | Inl _ \<Rightarrow> (None, [field @ '' '' @ [CHR 0x27] @ s @ [CHR 0x27]
                @ '' is not strict|normal|auto|yolo; reverted to default''])))"

section \<open>The loader\<close>

text \<open>The outcome of reading the file.\<close>

datatype read_outcome = Absent | Unreadable string | Contents string

record managed_load =
  ml_policy :: managed_policy
  ml_violations :: "string list"

definition validate_file :: "(json \<Rightarrow> string) \<Rightarrow> nat \<Rightarrow> managed_file \<Rightarrow> managed_load" where
  "validate_file num version f =
     (let (max_mode, v1) = validate_mode ''max_permission_mode'' (mf_max_permission_mode f);
          (disable_remote, v2) = validate_bool ''disable_remote'' (mf_disable_remote f) False;
          (pairing, v3) = validate_string_array_or_null ''allowedPairingDevices''
             (mf_allowed_pairing_devices f);
          (max_paired, v4) = validate_u32 num ''maxPairedDevicesPerUser''
             (mf_max_paired_devices_per_user f);
          (relay, v5) = validate_opt_string ''relayUrl'' (mf_relay_url f);
          (fwd, v6) = validate_opt_string ''auditForwardEndpoint'' (mf_audit_forward_endpoint f);
          (deny, v7) = validate_string_array_or_null ''denyFilesystemPaths''
             (mf_deny_filesystem_paths f);
          (dmode, v8) = validate_mode ''defaultPermissionMode'' (mf_default_permission_mode f);
          (privacy, v9) = validate_opt_bool ''enterpriseDataPrivacy'' (mf_enterprise_data_privacy f);
          (model, v10) = validate_opt_string ''defaultModel'' (mf_default_model f);
          (claude, v11) = validate_opt_string ''claudeExecutablePath'' (mf_claude_executable_path f);
          (codex, v12) = validate_opt_string ''codexExecutablePath'' (mf_codex_executable_path f);
          (gemini, v13) = validate_opt_string ''geminiExecutablePath'' (mf_gemini_executable_path f)
      in \<lparr>ml_policy =
            \<lparr>mp_version = version, mp_max_permission_mode = max_mode,
             mp_allow_yolo = (case mf_allow_yolo f of Some b \<Rightarrow> b | None \<Rightarrow> True),
             mp_allow_bypass_destructive_guard =
               (case mf_allow_bypass_destructive_guard f of Some b \<Rightarrow> b | None \<Rightarrow> True),
             mp_preamble_template_path = mf_preamble_template_path f,
             mp_max_reasoning_level = mf_max_reasoning_level f,
             mp_disable_remote = disable_remote, mp_allowed_pairing_devices = pairing,
             mp_max_paired_devices_per_user = max_paired, mp_relay_url = relay,
             mp_audit_forward_endpoint = fwd,
             mp_deny_filesystem_paths = (case deny of Some xs \<Rightarrow> xs | None \<Rightarrow> []),
             mp_default_permission_mode = dmode, mp_enterprise_data_privacy = privacy,
             mp_default_model = model, mp_claude_executable_path = claude,
             mp_codex_executable_path = codex, mp_gemini_executable_path = gemini\<rparr>,
          ml_violations = v1 @ v2 @ v3 @ v4 @ v5 @ v6 @ v7 @ v8 @ v9 @ v10 @ v11 @ v12 @ v13\<rparr>)"

definition parse_managed_policy_load_at ::
  "(json \<Rightarrow> string) \<Rightarrow> (string \<Rightarrow> string + managed_file) \<Rightarrow> read_outcome \<Rightarrow> managed_load result" where
  "parse_managed_policy_load_at num from_str rd =
     (case rd of
        Absent \<Rightarrow> Inr \<lparr>ml_policy = default_policy, ml_violations = []\<rparr>
      | Unreadable e \<Rightarrow>
          Inr \<lparr>ml_policy = default_policy, ml_violations = [''managed.json read failed: '' @ e]\<rparr>
      | Contents raw \<Rightarrow>
          (case from_str raw of
             Inl e \<Rightarrow> Inr \<lparr>ml_policy = default_policy,
                ml_violations = [''managed.json is not valid JSON: '' @ e]\<rparr>
           | Inr f \<Rightarrow>
               (let version = (case mf_version f of Some v \<Rightarrow> v | None \<Rightarrow> 0)
                in if MANAGED_SCHEMA_VERSION < version
                   then Inl (Internal (''managed.json: unsupported version '' @ show_nat version
                      @ '' (this Core only understands v'' @ show_nat MANAGED_SCHEMA_VERSION @ '')''))
                   else Inr (validate_file num
                          (if version = 0 then MANAGED_SCHEMA_VERSION else version) f))))"

definition load_managed_policy ::
  "(json \<Rightarrow> string) \<Rightarrow> (string \<Rightarrow> string + managed_file) \<Rightarrow> read_outcome \<Rightarrow> managed_policy result" where
  "load_managed_policy num from_str rd =
     and_then (parse_managed_policy_load_at num from_str rd) (\<lambda>l. Inr (ml_policy l))"

section \<open>Properties of the loader\<close>

lemma string_items_Some: "string_items field items out = (Some xs, v) \<Longrightarrow> v = [] \<and> items = map JString (drop (length out) xs) \<and> take (length out) xs = out"
proof (induction field items out rule: string_items.induct)
  case (2 field s items out)
  then have "v = []" and i: "items = map JString (drop (Suc (length out)) xs)"
    and t: "take (Suc (length out)) xs = out @ [s]"
    by auto
  then have len: "length out < length xs"
    by (metis Suc_le_eq length_append_singleton length_take min.cobounded1)
  then have "drop (length out) xs = s # drop (Suc (length out)) xs"
    using t by (metis Cons_nth_drop_Suc append_eq_conv_conj nth_append_length nth_take lessI)
  moreover have "take (length out) xs = out"
    using t by (metis append_eq_conv_conj length_append_singleton less_or_eq_imp_le lessI min.absorb1 take_take)
  ultimately show ?case using \<open>v = []\<close> i by simp
qed auto

lemma validate_string_array_Some:
  "validate_string_array_or_null field v = (Some xs, w) \<Longrightarrow> v = Some (JArray (map JString xs)) \<and> w = []"
  by (induction field v rule: validate_string_array_or_null.induct) (auto dest: string_items_Some)

lemma validate_mode_None_iff:
  "fst (validate_mode field v) = None \<longleftrightarrow> v = None \<or> snd (validate_mode field v) \<noteq> []"
  by (auto simp: validate_mode_def split: option.splits sum.splits)

lemma validate_file_allow_yolo:
  "mp_allow_yolo (ml_policy (validate_file num v f)) = (case mf_allow_yolo f of Some b \<Rightarrow> b | None \<Rightarrow> True)"
  by (simp add: validate_file_def Let_def split: prod.split)

lemma validate_file_max_mode:
  "mp_max_permission_mode (ml_policy (validate_file num v f))
     = fst (validate_mode ''max_permission_mode'' (mf_max_permission_mode f))"
  by (simp add: validate_file_def Let_def split: prod.split)

lemma validate_file_version: "mp_version (ml_policy (validate_file num v f)) = v"
  by (simp add: validate_file_def Let_def split: prod.split)

text \<open>What a raw field says: \<open>null\<close> and an absent key say nothing.\<close>

definition said :: "json option \<Rightarrow> json option" where
  "said v = (if v = Some JNull then None else v)"

lemma validate_bool_said:
  "snd (validate_bool field v d) = [] \<Longrightarrow> fst (validate_bool field v d) = (case said v of Some (JBool b) \<Rightarrow> b | _ \<Rightarrow> d)
     \<and> (said v = None \<or> (\<exists>b. said v = Some (JBool b)))"
  by (induction field v d rule: validate_bool.induct) (auto simp: said_def)

lemma validate_opt_bool_said:
  "snd (validate_opt_bool field v) = [] \<Longrightarrow> said v = map_option JBool (fst (validate_opt_bool field v))"
  by (induction field v rule: validate_opt_bool.induct) (auto simp: said_def)

lemma validate_opt_string_said:
  "snd (validate_opt_string field v) = [] \<Longrightarrow> said v = map_option JString (fst (validate_opt_string field v))"
  by (induction field v rule: validate_opt_string.induct) (auto simp: said_def)

lemma not_a_u32_not_Nil [simp]: "not_a_u32 field n \<noteq> []"
  by (simp add: not_a_u32_def)

lemma validate_u32_said:
  "snd (validate_u32 num field v) = [] \<Longrightarrow> said v = map_option (\<lambda>n. JInt (int n)) (fst (validate_u32 num field v))
     \<and> (\<forall>n. fst (validate_u32 num field v) = Some n \<longrightarrow> n < 2 ^ 32)"
  by (induction num field v rule: validate_u32.induct)
    (auto simp: said_def as_u64_def u32_max_def split: option.splits if_splits)

lemma string_items_said:
  "snd (string_items field items out) = [] \<Longrightarrow> \<exists>xs. string_items field items out = (Some (out @ xs), []) \<and> items = map JString xs"
  by (induction field items out rule: string_items.induct) auto

lemma validate_string_array_said:
  "snd (validate_string_array_or_null field v) = [] \<Longrightarrow>
     said v = map_option (\<lambda>xs. JArray (map JString xs)) (fst (validate_string_array_or_null field v))"
  by (induction field v rule: validate_string_array_or_null.induct) (auto simp: said_def dest!: string_items_said)

lemma validate_mode_said:
  "snd (validate_mode field v) = [] \<Longrightarrow> v = map_option as_str_mode (fst (validate_mode field v))"
  by (auto simp: validate_mode_def parse_Inr_iff split: option.splits sum.splits)

lemma validate_file_violations:
  "ml_violations (validate_file num v f) = [] \<Longrightarrow>
     snd (validate_mode ''max_permission_mode'' (mf_max_permission_mode f)) = []
     \<and> snd (validate_bool ''disable_remote'' (mf_disable_remote f) False) = []
     \<and> snd (validate_string_array_or_null ''allowedPairingDevices'' (mf_allowed_pairing_devices f)) = []
     \<and> snd (validate_u32 num ''maxPairedDevicesPerUser'' (mf_max_paired_devices_per_user f)) = []
     \<and> snd (validate_string_array_or_null ''denyFilesystemPaths'' (mf_deny_filesystem_paths f)) = []
     \<and> snd (validate_mode ''defaultPermissionMode'' (mf_default_permission_mode f)) = []
     \<and> snd (validate_opt_bool ''enterpriseDataPrivacy'' (mf_enterprise_data_privacy f)) = []"
  by (simp only: validate_file_def Let_def case_prod_beta managed_load.simps append_is_Nil_conv)

lemma validate_file_fields:
  "mp_disable_remote (ml_policy (validate_file num v f)) = fst (validate_bool ''disable_remote'' (mf_disable_remote f) False)"
  "mp_allowed_pairing_devices (ml_policy (validate_file num v f))
     = fst (validate_string_array_or_null ''allowedPairingDevices'' (mf_allowed_pairing_devices f))"
  "mp_max_paired_devices_per_user (ml_policy (validate_file num v f))
     = fst (validate_u32 num ''maxPairedDevicesPerUser'' (mf_max_paired_devices_per_user f))"
  "mp_deny_filesystem_paths (ml_policy (validate_file num v f))
     = (case fst (validate_string_array_or_null ''denyFilesystemPaths'' (mf_deny_filesystem_paths f)) of Some xs \<Rightarrow> xs | None \<Rightarrow> [])"
  "mp_default_permission_mode (ml_policy (validate_file num v f))
     = fst (validate_mode ''defaultPermissionMode'' (mf_default_permission_mode f))"
  "mp_enterprise_data_privacy (ml_policy (validate_file num v f))
     = fst (validate_opt_bool ''enterpriseDataPrivacy'' (mf_enterprise_data_privacy f))"
  by (simp_all only: validate_file_def Let_def case_prod_beta managed_load.simps managed_policy.simps)

text \<open>the organisation's policy is never weakened silently. Where loading \<open>managed.json\<close> reports
  no violation, either there is no file and the policy is the default one, or every restriction of the
  loaded policy is the one the file states: the two modes, the yolo switch, the remote switch, the
  pairing whitelist and device cap, the denied paths and the privacy flag. A field of the wrong type,
  an unreadable file or malformed JSON always reports a violation.\<close>

theorem managed_load_reverts_nothing_silently:
  assumes "parse_managed_policy_load_at num from_str rd = Inr l" and "ml_violations l = []"
  shows "(rd = Absent \<and> ml_policy l = default_policy)
    \<or> (\<exists>raw f. rd = Contents raw \<and> from_str raw = Inr f
        \<and> mf_max_permission_mode f = map_option as_str_mode (mp_max_permission_mode (ml_policy l))
        \<and> mf_default_permission_mode f = map_option as_str_mode (mp_default_permission_mode (ml_policy l))
        \<and> mp_allow_yolo (ml_policy l) = (mf_allow_yolo f \<noteq> Some False)
        \<and> mp_disable_remote (ml_policy l) = (mf_disable_remote f = Some (JBool True))
        \<and> said (mf_allowed_pairing_devices f)
            = map_option (\<lambda>xs. JArray (map JString xs)) (mp_allowed_pairing_devices (ml_policy l))
        \<and> said (mf_max_paired_devices_per_user f)
            = map_option (\<lambda>n. JInt (int n)) (mp_max_paired_devices_per_user (ml_policy l))
        \<and> (said (mf_deny_filesystem_paths f) = None \<and> mp_deny_filesystem_paths (ml_policy l) = []
           \<or> said (mf_deny_filesystem_paths f) = Some (JArray (map JString (mp_deny_filesystem_paths (ml_policy l)))))
        \<and> said (mf_enterprise_data_privacy f) = map_option JBool (mp_enterprise_data_privacy (ml_policy l)))"
proof (cases rd)
  case (Contents raw)
  with assms obtain f v where f: "from_str raw = Inr f" and l: "l = validate_file num v f"
    by (auto simp: parse_managed_policy_load_at_def Let_def split: sum.splits if_splits)
  note none = validate_file_violations [OF assms(2) [unfolded l]]
  have y: "(case mf_allow_yolo f of Some b \<Rightarrow> b | None \<Rightarrow> True) = (mf_allow_yolo f \<noteq> Some False)"
    by (simp split: option.splits)
  have r: "fst (validate_bool ''disable_remote'' (mf_disable_remote f) False) = (mf_disable_remote f = Some (JBool True))"
    using validate_bool_said [of "''disable_remote''" "mf_disable_remote f" False] none
    by (auto simp: said_def split: if_splits)
  have d: "said (mf_deny_filesystem_paths f) = map_option (\<lambda>xs. JArray (map JString xs))
      (fst (validate_string_array_or_null ''denyFilesystemPaths'' (mf_deny_filesystem_paths f)))"
    using validate_string_array_said none by blast
  show ?thesis
    unfolding Contents l validate_file_fields validate_file_allow_yolo validate_file_max_mode y r d
    using f none validate_mode_said validate_string_array_said validate_u32_said validate_opt_bool_said
    by (intro disjI2 exI [of _ raw] exI [of _ f]) (auto split: option.splits)
qed (use assms in \<open>auto simp: parse_managed_policy_load_at_def\<close>)

definition sample_managed_file :: managed_file where
  "sample_managed_file =
     \<lparr>mf_version = Some 1, mf_max_permission_mode = Some ''auto'', mf_allow_yolo = Some False,
      mf_allow_bypass_destructive_guard = None, mf_preamble_template_path = None,
      mf_max_reasoning_level = None, mf_disable_remote = Some (JBool True),
      mf_allowed_pairing_devices = Some (JArray [JString ''ab'', JString ''cd'']),
      mf_max_paired_devices_per_user = Some (JInt 2), mf_relay_url = None,
      mf_audit_forward_endpoint = None, mf_deny_filesystem_paths = None,
      mf_default_permission_mode = None, mf_enterprise_data_privacy = Some JNull,
      mf_default_model = None, mf_claude_executable_path = None,
      mf_codex_executable_path = None, mf_gemini_executable_path = None\<rparr>"

theorem managed_load_reverts_nothing_silently_witness:
  "\<exists>l. parse_managed_policy_load_at (\<lambda>_. ''n'') (\<lambda>_. Inr sample_managed_file) (Contents ''f'') = Inr l
     \<and> ml_violations l = [] \<and> said (mf_allowed_pairing_devices sample_managed_file)
            = map_option (\<lambda>xs. JArray (map JString xs)) (mp_allowed_pairing_devices (ml_policy l))"
proof -
  let ?l = "validate_file (\<lambda>_. ''n'') 1 sample_managed_file"
  have p: "parse_managed_policy_load_at (\<lambda>_. ''n'') (\<lambda>_. Inr sample_managed_file) (Contents ''f'') = Inr ?l"
    by (simp add: parse_managed_policy_load_at_def sample_managed_file_def MANAGED_SCHEMA_VERSION_def)
  have v: "ml_violations ?l = []"
    by (simp add: validate_file_def sample_managed_file_def validate_mode_def parse_permission_mode_def
        as_u64_def u64_max_def u32_max_def)
  show ?thesis using managed_load_reverts_nothing_silently [OF p v] p v by auto
qed

end
