(* ===== verification/EffectiveMode.thy ===== *)
theory EffectiveMode
  imports Managed Tables
begin

text \<open>
  The inheritance chain of the permission mode: \<open>resolve_effective_mode\<close>,
  \<open>enforce_managed_cap\<close> and \<open>enforce_managed_bypass\<close> of \<open>security/permission.rs\<close>, the copy of
  the chain a new session uses and the bypass lookup of \<open>agent_supervisor/actor.rs\<close>, and the
  three operations that write a level of the chain.

  The outcome of \<open>load_managed_policy\<close> is an argument (\<open>Managed\<close> models the loader), and so is
  the JSON parser applied to the workspace settings.
\<close>

section \<open>Resolution\<close>

record mode_row =
  mr_session_mode :: "string option"
  mr_session_bypass :: int
  mr_workarea_mode :: "string option"
  mr_workarea_bypass :: "int option"
  mr_workspace_mode :: "string option"
  mr_workspace_bypass :: "int option"
  mr_settings_json :: string

text \<open>The joined row of the query: absent as soon as one of the three rows is.\<close>

definition mode_row_of :: "database \<Rightarrow> string \<Rightarrow> mode_row option" where
  "mode_row_of db sid =
     (case map_of (db_sessions db) sid of
        None \<Rightarrow> None
      | Some s \<Rightarrow>
          (case map_of (db_workareas db) (s_workarea_id s) of
             None \<Rightarrow> None
           | Some wa \<Rightarrow>
               (case map_of (db_workspaces db) (wa_workspace_id wa) of
                  None \<Rightarrow> None
                | Some ws \<Rightarrow>
                    Some \<lparr>mr_session_mode = s_permission_mode s, mr_session_bypass = s_bypass s,
                          mr_workarea_mode = wa_permission_mode wa, mr_workarea_bypass = wa_bypass wa,
                          mr_workspace_mode = ws_permission_mode ws, mr_workspace_bypass = ws_bypass ws,
                          mr_settings_json = ws_settings_json ws\<rparr>)))"

definition workspace_default_from_settings ::
  "(string \<Rightarrow> json option) \<Rightarrow> string \<Rightarrow> permission_mode option result" where
  "workspace_default_from_settings from_str settings_json =
     (case from_str settings_json of
        None \<Rightarrow> Inr None
      | Some parsed \<Rightarrow>
          (case Option.bind (Option.bind (as_object parsed) (\<lambda>m. map_of m ''default_permission_mode'')) as_str of
             None \<Rightarrow> Inr None
           | Some s \<Rightarrow> and_then (parse_permission_mode s) (\<lambda>m. Inr (Some m))))"

text \<open>The levels below the session, as both resolvers walk them.\<close>

definition chain_below_session ::
  "(string \<Rightarrow> json option) \<Rightarrow> string option \<Rightarrow> string option \<Rightarrow> string \<Rightarrow> (permission_mode \<times> mode_source) result" where
  "chain_below_session from_str workarea_mode workspace_mode settings_json =
     (case workarea_mode of
        Some m \<Rightarrow> and_then (parse_permission_mode m) (\<lambda>m. Inr (m, SrcWorkarea))
      | None \<Rightarrow>
          (case workspace_mode of
             Some m \<Rightarrow> and_then (parse_permission_mode m) (\<lambda>m. Inr (m, SrcWorkspace))
           | None \<Rightarrow>
               and_then (workspace_default_from_settings from_str settings_json)
                 (\<lambda>d. Inr (case d of Some m \<Rightarrow> (m, SrcWorkspace) | None \<Rightarrow> (Normal, SrcDefault)))))"

definition bypass_below_session :: "int option \<Rightarrow> int option \<Rightarrow> bool" where
  "bypass_below_session workarea_bypass workspace_bypass =
     (case workarea_bypass of
        Some b \<Rightarrow> b \<noteq> 0
      | None \<Rightarrow> (case workspace_bypass of Some b \<Rightarrow> b \<noteq> 0 | None \<Rightarrow> False))"

text \<open>The managed cap, the last step of both resolvers.\<close>

definition apply_managed :: "managed_policy \<Rightarrow> permission_mode \<Rightarrow> mode_source \<Rightarrow> bool \<Rightarrow> effective_mode" where
  "apply_managed managed mode source bypass =
     (let (mode, source) =
            (case mp_max_permission_mode managed of
               Some cap \<Rightarrow> if rank cap < rank mode then (cap, SrcManaged) else (mode, source)
             | None \<Rightarrow> (mode, source));
          (mode, source) =
            (if \<not> mp_allow_yolo managed \<and> mode = Yolo then (Auto, SrcManaged) else (mode, source));
          bypass = (if \<not> mp_allow_bypass_destructive_guard managed \<and> bypass then False else bypass)
      in \<lparr>em_mode = mode, em_bypass_destructive_guard = bypass, em_source = source\<rparr>)"

definition session_not_found :: "string \<Rightarrow> error" where
  "session_not_found sid = NotFound (''session '' @ sid @ '' not found'')"

definition resolve_effective_mode ::
  "(string \<Rightarrow> json option) \<Rightarrow> managed_policy result \<Rightarrow> database \<Rightarrow> string \<Rightarrow> effective_mode result" where
  "resolve_effective_mode from_str loaded db sid =
     and_then (ok_or (session_not_found sid) (mode_row_of db sid)) (\<lambda>row.
     and_then
       (case mr_session_mode row of
          Some m \<Rightarrow> and_then (parse_permission_mode m) (\<lambda>m. Inr (m, SrcSession))
        | None \<Rightarrow> chain_below_session from_str (mr_workarea_mode row) (mr_workspace_mode row) (mr_settings_json row))
       (\<lambda>(mode, source).
          let bypass = (if mr_session_bypass row \<noteq> 0 then True
                        else bypass_below_session (mr_workarea_bypass row) (mr_workspace_bypass row))
          in Inr (apply_managed (unwrap_or default_policy loaded) mode source bypass)))"

definition resolve_for_new_session ::
  "(string \<Rightarrow> json option) \<Rightarrow> managed_policy result \<Rightarrow> database \<Rightarrow> string \<Rightarrow> effective_mode result" where
  "resolve_for_new_session from_str loaded db wid =
     (case map_of (db_workareas db) wid of
        None \<Rightarrow> Inl (workarea_not_found wid)
      | Some wa \<Rightarrow>
          (case map_of (db_workspaces db) (wa_workspace_id wa) of
             None \<Rightarrow> Inl (workarea_not_found wid)
           | Some ws \<Rightarrow>
               and_then (chain_below_session from_str (wa_permission_mode wa) (ws_permission_mode ws) (ws_settings_json ws))
                 (\<lambda>(mode, source). Inr (apply_managed (unwrap_or default_policy loaded) mode source
                    (bypass_below_session (wa_bypass wa) (ws_bypass ws))))))"

text \<open>The lookup the supervisor feeds its approval gate with.\<close>

definition bypass_for_session :: "database \<Rightarrow> string \<Rightarrow> bool" where
  "bypass_for_session db sid =
     (case mode_row_of db sid of
        None \<Rightarrow> False
      | Some r \<Rightarrow>
          if mr_session_bypass r \<noteq> 0 then True
          else if (case mr_workarea_bypass r of Some v \<Rightarrow> v \<noteq> 0 | None \<Rightarrow> False) then True
          else if (case mr_workspace_bypass r of Some v \<Rightarrow> v \<noteq> 0 | None \<Rightarrow> False) then True
          else False)"

section \<open>The gates on the RPCs\<close>

definition POLICY_YOLO_BLOCKED :: string where "POLICY_YOLO_BLOCKED = ''policy.yolo_blocked''"
definition POLICY_BYPASS_BLOCKED :: string where "POLICY_BYPASS_BLOCKED = ''policy.bypass_blocked''"
definition POLICY_LOCKED_GENERIC :: string where "POLICY_LOCKED_GENERIC = ''policy.locked''"

definition enforce_managed_cap :: "permission_mode \<Rightarrow> managed_policy \<Rightarrow> permission_mode result" where
  "enforce_managed_cap requested managed =
     (if \<not> mp_allow_yolo managed \<and> requested = Yolo
      then Inl (PolicyLocked (POLICY_YOLO_BLOCKED @ '': managed.json forbids yolo''))
      else case mp_max_permission_mode managed of
             Some cap \<Rightarrow>
               if rank cap < rank requested
               then (let subcode = (if requested = Yolo then POLICY_YOLO_BLOCKED else POLICY_LOCKED_GENERIC)
                     in Inl (PolicyLocked (subcode @ '': managed.json caps permission_mode to ''
                          @ as_str_mode cap @ '' (requested '' @ as_str_mode requested @ '')'')))
               else Inr requested
           | None \<Rightarrow> Inr requested)"

definition enforce_managed_bypass :: "bool \<Rightarrow> managed_policy \<Rightarrow> unit result" where
  "enforce_managed_bypass enable managed =
     (if enable \<and> \<not> mp_allow_bypass_destructive_guard managed
      then Inl (PolicyLocked (POLICY_BYPASS_BLOCKED @ '': managed.json forbids bypass_destructive_guard''))
      else Inr ())"

definition ack_required_mode :: "permission_mode \<Rightarrow> error" where
  "ack_required_mode m = Policy (''policy.acknowledgement_required: setting permission_mode=''
     @ as_str_mode m @ '' requires acknowledgement='' @ debug_str ACK_YOLO)"

definition ack_required_bypass :: error where
  "ack_required_bypass = Policy (''policy.acknowledgement_required: setting bypass_destructive_guard=true''
     @ '' requires acknowledgement='' @ debug_str ACK_BYPASS_DESTRUCTIVE_GUARD)"

text \<open>
  The checks a requested mode passes, in the order of both handlers: it parses, yolo carries
  its acknowledgement, the managed file loads, the cap admits it.
\<close>

definition admit_mode :: "managed_policy result \<Rightarrow> string \<Rightarrow> string \<Rightarrow> permission_mode result" where
  "admit_mode loaded mode acknowledgement =
     and_then (parse_permission_mode mode) (\<lambda>parsed.
       if parsed = Yolo \<and> \<not> ack_for_yolo acknowledgement then Inl (ack_required_mode parsed)
       else and_then loaded (\<lambda>managed.
         and_then (enforce_managed_cap parsed managed) (\<lambda>_. Inr parsed)))"

text \<open>
  The handlers return the outcome and the new database; the session's handler refreshes the
  supervisor's cached mode as well, when the session is live.
\<close>

record session_store =
  ss_db :: database
  ss_cached_mode :: "string \<rightharpoonup> permission_mode"

definition update_session_permission_mode ::
  "managed_policy result \<Rightarrow> string \<Rightarrow> string \<Rightarrow> string \<Rightarrow> session_store \<Rightarrow> unit result \<times> session_store" where
  "update_session_permission_mode loaded sid mode acknowledgement st =
     (case and_then (admit_mode loaded mode acknowledgement) (\<lambda>parsed.
             and_then (ok_or (session_not_found sid) (sessions_get (ss_db st) sid)) (\<lambda>_. Inr parsed)) of
        Inl e \<Rightarrow> (Inl e, st)
      | Inr parsed \<Rightarrow>
          (Inr (), st\<lparr>ss_db := sessions_set_permission_mode sid (as_str_mode parsed) (ss_db st),
                      ss_cached_mode := (case ss_cached_mode st sid of
                          Some _ \<Rightarrow> (ss_cached_mode st)(sid \<mapsto> parsed)
                        | None \<Rightarrow> ss_cached_mode st)\<rparr>))"

definition vanished :: "string \<Rightarrow> error" where
  "vanished wid = Internal (''workarea '' @ wid @ '' vanished mid-update'')"

definition update_workarea_permission_mode ::
  "managed_policy result \<Rightarrow> string \<Rightarrow> string option \<Rightarrow> string \<Rightarrow> database \<Rightarrow> workarea_row result \<times> database" where
  "update_workarea_permission_mode loaded wid mode acknowledgement db =
     (case and_then (ok_or (workarea_not_found wid) (workareas_get db wid)) (\<lambda>_.
             case mode of
               Some s \<Rightarrow> and_then (admit_mode loaded s acknowledgement) (\<lambda>parsed. Inr (Some (as_str_mode parsed)))
             | None \<Rightarrow> Inr None) of
        Inl e \<Rightarrow> (Inl e, db)
      | Inr mode_str \<Rightarrow>
          (let db' = workareas_set_permission_mode wid mode_str db
           in (ok_or (vanished wid) (workareas_get db' wid), db')))"

definition set_workarea_bypass_destructive_guard ::
  "managed_policy result \<Rightarrow> string \<Rightarrow> bool \<Rightarrow> string \<Rightarrow> database \<Rightarrow> workarea_row result \<times> database" where
  "set_workarea_bypass_destructive_guard loaded wid enable acknowledgement db =
     (case and_then (ok_or (workarea_not_found wid) (workareas_get db wid)) (\<lambda>_.
             if enable \<and> \<not> ack_for_bypass_destructive_guard acknowledgement then Inl ack_required_bypass
             else and_then loaded (\<lambda>managed. enforce_managed_bypass enable managed)) of
        Inl e \<Rightarrow> (Inl e, db)
      | Inr _ \<Rightarrow>
          (let db' = workareas_set_bypass wid (Some enable) db
           in (ok_or (vanished wid) (workareas_get db' wid), db')))"

section \<open>Lemmas\<close>

lemma enforce_managed_cap_Inr_iff:
  "enforce_managed_cap m p = Inr m' \<longleftrightarrow>
     m' = m \<and> (m = Yolo \<longrightarrow> mp_allow_yolo p) \<and> (\<forall>cap. mp_max_permission_mode p = Some cap \<longrightarrow> m \<le> cap)"
  by (auto simp: enforce_managed_cap_def Let_def less_eq_permission_mode_def split: option.splits if_splits)

lemma apply_managed_bypass:
  "em_bypass_destructive_guard (apply_managed p m s b) \<longleftrightarrow> b \<and> mp_allow_bypass_destructive_guard p"
  by (auto simp: apply_managed_def Let_def split: prod.splits)

lemma apply_managed_le: "em_mode (apply_managed p m s b) \<le> m"
  by (cases m)
    (auto simp: apply_managed_def Let_def less_eq_permission_mode_def split: option.splits)

lemma apply_managed_capped:
  "(\<forall>cap. mp_max_permission_mode p = Some cap \<longrightarrow> em_mode (apply_managed p m s b) \<le> cap)
     \<and> (em_mode (apply_managed p m s b) = Yolo \<longrightarrow> mp_allow_yolo p)"
  by (cases "mp_max_permission_mode p"; cases m)
    (auto simp: apply_managed_def Let_def less_eq_permission_mode_def split: if_splits)

lemma apply_managed_admitted:
  "enforce_managed_cap m p = Inr m \<Longrightarrow> em_mode (apply_managed p m s b) = m \<and> em_source (apply_managed p m s b) = s"
  unfolding enforce_managed_cap_Inr_iff
  by (auto simp: apply_managed_def Let_def less_eq_permission_mode_def split: option.splits)

lemma apply_managed_source:
  "em_source (apply_managed p m s b) \<noteq> s \<Longrightarrow>
     em_source (apply_managed p m s b) = SrcManaged \<and> em_mode (apply_managed p m s b) < m"
  by (cases m) (auto simp: apply_managed_def Let_def less_permission_mode_def split: option.splits if_splits)

lemma resolve_Inr_cases:
  assumes "resolve_effective_mode from_str loaded db sid = Inr em"
  obtains row mode source where "mode_row_of db sid = Some row"
    and "em = apply_managed (unwrap_or default_policy loaded) mode source
           (mr_session_bypass row \<noteq> 0 \<or> bypass_below_session (mr_workarea_bypass row) (mr_workspace_bypass row))"
proof -
  have "(if b then True else c) = (b \<or> c)" for b c by simp
  with assms obtain row ms where r: "mode_row_of db sid = Some row"
    and e: "em = apply_managed (unwrap_or default_policy loaded) (fst ms) (snd ms)
        (mr_session_bypass row \<noteq> 0 \<or> bypass_below_session (mr_workarea_bypass row) (mr_workspace_bypass row))"
    by (auto simp only: resolve_effective_mode_def and_then_Inr_iff ok_or_Inr_iff Let_def sum.inject
        case_prod_beta)
  show thesis using that [OF r e] .
qed

lemma admit_mode_Inr_iff:
  "admit_mode loaded mode ack = Inr m \<longleftrightarrow>
     mode = as_str_mode m \<and> (m = Yolo \<longrightarrow> ack = ACK_YOLO) \<and>
     (\<exists>p. loaded = Inr p \<and> enforce_managed_cap m p = Inr m)"
  by (auto simp: admit_mode_def and_then_Inr_iff parse_Inr_iff ack_for_yolo_def enforce_managed_cap_Inr_iff
      split: if_splits)

lemma mode_row_after_set_mode:
  "mode_row_of (sessions_set_permission_mode sid m db) sid
     = map_option (\<lambda>r. r\<lparr>mr_session_mode := Some m\<rparr>) (mode_row_of db sid)"
  by (auto simp: mode_row_of_def sessions_set_permission_mode_def map_of_sql_update split: option.splits)

section \<open>Properties\<close>

text \<open>
  A small database for the examples: one workarea of a workspace that asks for yolo and
  bypasses the guard, with one session that sets neither.
\<close>

definition sample_db :: database where
  "sample_db =
     \<lparr>db_sessions = [(''s1'', \<lparr>s_workarea_id = ''w1'', s_status = ''running'', s_permission_mode = None,
         s_bypass = 0, s_ended_at = None, s_last_acked_seq = 0\<rparr>)],
      db_workareas = [(''w1'', \<lparr>wa_workspace_id = ''p1'', wa_worktree_root = ''/w'', wa_status = ''running'',
         wa_permission_mode = None, wa_bypass = None, wa_archived_at = None,
        wa_composer_name = ''bach'', wa_branch_name = ''concerto/bach'', wa_settings_json = ''{}''\<rparr>)],
      db_workspaces = [(''p1'', \<lparr>ws_permission_mode = Some ''yolo'', ws_bypass = Some 1, ws_settings_json = ''{}'',
        ws_slug = ''p'', ws_archived_at = None\<rparr>)],
      db_repositories = [], db_workarea_repos = [],
      db_workspace_repos = []\<rparr>"

text \<open>C1: the managed policy binds every resolved session. Whatever the session, workarea,
  workspace and settings levels ask for, a resolved mode is at most the policy's cap, is yolo
  only where the policy allows yolo, and carries the guard bypass only where the policy allows it.\<close>

theorem resolved_mode_within_policy:
  assumes "resolve_effective_mode from_str (Inr p) db sid = Inr em"
  shows "(\<forall>cap. mp_max_permission_mode p = Some cap \<longrightarrow> em_mode em \<le> cap)
    \<and> (em_mode em = Yolo \<longrightarrow> mp_allow_yolo p)
    \<and> (em_bypass_destructive_guard em \<longrightarrow> mp_allow_bypass_destructive_guard p)"
  using assms by (elim resolve_Inr_cases) (use apply_managed_capped apply_managed_bypass in auto)

theorem resolved_mode_within_policy_witness:
  "resolve_effective_mode (\<lambda>_. None) (Inr (default_policy\<lparr>mp_max_permission_mode := Some Auto\<rparr>)) sample_db ''s1''
     = Inr \<lparr>em_mode = Auto, em_bypass_destructive_guard = True, em_source = SrcManaged\<rparr>
   \<and> Auto \<le> Auto"
proof -
  have r: "resolve_effective_mode (\<lambda>_. None) (Inr (default_policy\<lparr>mp_max_permission_mode := Some Auto\<rparr>)) sample_db ''s1''
     = Inr \<lparr>em_mode = Auto, em_bypass_destructive_guard = True, em_source = SrcManaged\<rparr>"
    by (simp add: resolve_effective_mode_def mode_row_of_def sample_db_def chain_below_session_def
      parse_permission_mode_def apply_managed_def bypass_below_session_def default_policy_def)
  show ?thesis using r resolved_mode_within_policy [OF r] by simp
qed

text \<open>the gate on the session RPC and the resolver agree. When the RPC accepts a mode for a
  session, the chain resolves that session to exactly the accepted mode, sourced at the session:
  the managed cap does not lower what the gate let through, and the live cache holds it too.\<close>

theorem accepted_mode_is_resolved:
  assumes "update_session_permission_mode (Inr p) sid mode ack st = (Inr (), st')"
    and "mode_row_of (ss_db st) sid = Some row"
  shows "\<exists>m em. mode = as_str_mode m
    \<and> resolve_effective_mode from_str (Inr p) (ss_db st') sid = Inr em
    \<and> em_mode em = m \<and> em_source em = SrcSession
    \<and> (ss_cached_mode st sid \<noteq> None \<longrightarrow> ss_cached_mode st' sid = Some m)"
proof -
  from assms(1) obtain m where a: "admit_mode (Inr p) mode ack = Inr m"
    and db: "ss_db st' = sessions_set_permission_mode sid (as_str_mode m) (ss_db st)"
    and c: "ss_cached_mode st sid \<noteq> None \<longrightarrow> ss_cached_mode st' sid = Some m"
    by (auto simp: update_session_permission_mode_def and_then_Inr_iff split: sum.splits option.splits)
  from a have m: "mode = as_str_mode m" "enforce_managed_cap m p = Inr m"
    by (auto simp: admit_mode_Inr_iff)
  show ?thesis
    using c m(1) apply_managed_admitted [OF m(2)]
    by (auto simp: resolve_effective_mode_def db mode_row_after_set_mode assms(2) Let_def)
qed

theorem accepted_mode_is_resolved_witness:
  "\<exists>m em. ''auto'' = as_str_mode m
    \<and> resolve_effective_mode (\<lambda>_. None) (Inr default_policy)
         (sessions_set_permission_mode ''s1'' ''auto'' sample_db) ''s1'' = Inr em
    \<and> em_mode em = m \<and> em_source em = SrcSession"
  using accepted_mode_is_resolved
    [of default_policy "''s1''" "''auto''" "''''" "\<lparr>ss_db = sample_db, ss_cached_mode = Map.empty\<rparr>"
      "\<lparr>ss_db = sessions_set_permission_mode ''s1'' ''auto'' sample_db, ss_cached_mode = Map.empty\<rparr>"
      _ "\<lambda>_. None"]
  by (simp add: update_session_permission_mode_def admit_mode_def parse_permission_mode_def
      enforce_managed_cap_def default_policy_def sessions_get_def mode_row_of_def sample_db_def)

text \<open>C10: yolo is reached only through its acknowledgement and the policy. Where the session or
  the workarea RPC accepts yolo, the caller sent exactly the acknowledgement text and the loaded
  policy allows yolo with no lower cap; a call that returns an error leaves the stored rows and
  the cache as they were.\<close>

theorem yolo_needs_acknowledgement:
  "(case update_session_permission_mode loaded sid mode ack st of (r, st') \<Rightarrow>
      if is_ok r then mode = ''yolo'' \<longrightarrow> ack = ''I understand''
          \<and> (\<exists>p. loaded = Inr p \<and> mp_allow_yolo p \<and> mp_max_permission_mode p \<in> {None, Some Yolo})
      else st' = st)
   \<and> (case update_workarea_permission_mode loaded wid (Some mode) ack db of (r, db') \<Rightarrow>
      if is_ok r then mode = ''yolo'' \<longrightarrow> ack = ''I understand''
          \<and> (\<exists>p. loaded = Inr p \<and> mp_allow_yolo p \<and> mp_max_permission_mode p \<in> {None, Some Yolo})
      else db' = db)"
proof -
  let ?yolo = "ack = ''I understand''
          \<and> (\<exists>p. loaded = Inr p \<and> mp_allow_yolo p \<and> mp_max_permission_mode p \<in> {None, Some Yolo})"
  have adm: ?yolo if "admit_mode loaded ''yolo'' ack = Inr m" for m
  proof -
    from that have "m = Yolo" by (cases m) (auto simp: admit_mode_Inr_iff)
    with that show ?thesis
      by (auto simp: admit_mode_Inr_iff ACK_YOLO_def enforce_managed_cap_Inr_iff)
        (metis Yolo_top antisym not_None_eq)
  qed
  have "case update_session_permission_mode loaded sid mode ack st of (r, st') \<Rightarrow>
      if is_ok r then mode = ''yolo'' \<longrightarrow> ?yolo else st' = st"
    using adm by (auto simp: update_session_permission_mode_def and_then_Inr_iff split: sum.splits)
  moreover have "case update_workarea_permission_mode loaded wid (Some mode) ack db of (r, db') \<Rightarrow>
      if is_ok r then mode = ''yolo'' \<longrightarrow> ?yolo else db' = db"
    using adm by (auto simp: update_workarea_permission_mode_def and_then_Inr_iff ok_or_Inr_iff Let_def
        workareas_get_set_mode split: sum.splits)
  ultimately show ?thesis by blast
qed

theorem yolo_needs_acknowledgement_witness:
  "fst (update_session_permission_mode (Inr default_policy) ''s1'' ''yolo'' ''I understand''
       \<lparr>ss_db = sample_db, ss_cached_mode = Map.empty\<rparr>) = Inr ()
   \<and> \<not> is_ok (fst (update_session_permission_mode (Inr default_policy) ''s1'' ''yolo'' ''ok''
       \<lparr>ss_db = sample_db, ss_cached_mode = Map.empty\<rparr>))"
proof
  show "fst (update_session_permission_mode (Inr default_policy) ''s1'' ''yolo'' ''I understand''
       \<lparr>ss_db = sample_db, ss_cached_mode = Map.empty\<rparr>) = Inr ()"
    by (simp add: update_session_permission_mode_def admit_mode_def parse_permission_mode_def ack_for_yolo_def
        ACK_YOLO_def enforce_managed_cap_def default_policy_def sessions_get_def sample_db_def)
  show "\<not> is_ok (fst (update_session_permission_mode (Inr default_policy) ''s1'' ''yolo'' ''ok''
       \<lparr>ss_db = sample_db, ss_cached_mode = Map.empty\<rparr>))"
    using yolo_needs_acknowledgement [where loaded = "Inr default_policy" and sid = "''s1''" and mode = "''yolo''"
        and ack = "''ok''" and st = "\<lparr>ss_db = sample_db, ss_cached_mode = Map.empty\<rparr>"]
    by (auto simp: case_prod_beta split: if_splits)
qed

text \<open>the chain a new session is started with is the chain of a stored session whose own level
  is unset. For a session row with no mode and no bypass of its own, the resolver and the
  supervisor's copy of it, run on the session's workarea, return the same outcome: mode, source,
  bypass, or the same parse error of a corrupt level.\<close>

theorem new_session_chain_agrees:
  assumes "map_of (db_sessions db) sid = Some s" and "s_permission_mode s = None" and "s_bypass s = 0"
    and "mode_row_of db sid \<noteq> None"
  shows "resolve_effective_mode from_str loaded db sid
       = resolve_for_new_session from_str loaded db (s_workarea_id s)"
  using assms
  by (auto simp: resolve_effective_mode_def resolve_for_new_session_def mode_row_of_def Let_def
      split: option.splits)

theorem new_session_chain_agrees_witness:
  "resolve_effective_mode (\<lambda>_. None) (Inr default_policy) sample_db ''s1''
     = resolve_for_new_session (\<lambda>_. None) (Inr default_policy) sample_db ''w1''"
  using new_session_chain_agrees [of sample_db "''s1''"
      "\<lparr>s_workarea_id = ''w1'', s_status = ''running'', s_permission_mode = None,
         s_bypass = 0, s_ended_at = None, s_last_acked_seq = 0\<rparr>" "\<lambda>_. None" "Inr default_policy"]
  by (simp add: sample_db_def mode_row_of_def)

text \<open>where the bypass flag the approval gate is built with differs from the resolved one. The
  supervisor's lookup is never stricter than the chain, and it is laxer in exactly two cases: the
  managed policy forbids the bypass, or the workarea switched it off explicitly while its workspace
  has it on.\<close>

theorem gate_bypass_versus_chain:
  assumes "resolve_effective_mode from_str (Inr p) db sid = Inr em"
    and "mode_row_of db sid = Some row"
  shows "bypass_for_session db sid \<longleftrightarrow>
     em_bypass_destructive_guard em
     \<or> (\<not> mp_allow_bypass_destructive_guard p
          \<and> (mr_session_bypass row \<noteq> 0 \<or> bypass_below_session (mr_workarea_bypass row) (mr_workspace_bypass row)))
     \<or> (mr_session_bypass row = 0 \<and> mr_workarea_bypass row = Some 0
          \<and> (\<exists>b. mr_workspace_bypass row = Some b \<and> b \<noteq> 0))"
  using assms(1)
proof (rule resolve_Inr_cases)
  fix row' mode source
  assume "mode_row_of db sid = Some row'"
    and "em = apply_managed (unwrap_or default_policy (Inr p)) mode source
           (mr_session_bypass row' \<noteq> 0 \<or> bypass_below_session (mr_workarea_bypass row') (mr_workspace_bypass row'))"
  with assms(2) show ?thesis
    by (auto simp: bypass_for_session_def bypass_below_session_def apply_managed_bypass split: option.splits)
qed

theorem gate_bypass_versus_chain_witness:
  "bypass_for_session sample_db ''s1''
   \<and> resolve_effective_mode (\<lambda>_. None) (Inr (default_policy\<lparr>mp_allow_bypass_destructive_guard := False\<rparr>))
       sample_db ''s1'' = Inr \<lparr>em_mode = Yolo, em_bypass_destructive_guard = False, em_source = SrcWorkspace\<rparr>"
proof -
  have r: "resolve_effective_mode (\<lambda>_. None) (Inr (default_policy\<lparr>mp_allow_bypass_destructive_guard := False\<rparr>))
       sample_db ''s1'' = Inr \<lparr>em_mode = Yolo, em_bypass_destructive_guard = False, em_source = SrcWorkspace\<rparr>"
    by (simp add: resolve_effective_mode_def mode_row_of_def sample_db_def chain_below_session_def
      parse_permission_mode_def apply_managed_def bypass_below_session_def default_policy_def)
  show ?thesis
    using r gate_bypass_versus_chain [OF r]
    by (simp add: mode_row_of_def sample_db_def bypass_below_session_def default_policy_def)
qed

end
