(* ===== verification/SessionLife.thy ===== *)
theory SessionLife
  imports Scheduler HostConnection EffectiveMode
begin

text \<open>
  The life of a session in the agent supervisor (\<open>agent_supervisor/actor.rs\<close>, \<open>adopt.rs\<close>,
  \<open>cold_resume.rs\<close>, \<open>spawn.rs\<close>, \<open>persist/src/sessions.rs\<close>): a start or a cold resume up to the spawn of
  the agent host and, as a second step, its handshake; the read pump of a session with its two
  acknowledgement tickers; stop and delete; and the sweep at start-up, which adopts the hosts that
  outlived the Core and judges the sessions whose host did not. The steps interleave; a restart of
  the Core loses what is in memory, the rows and the host processes stay.

  What the operating system answers is an argument (\<open>dial\<close>, \<open>handshake\<close>, \<open>final_info\<close>), as are fresh
  ids, cookies and clocks; directories can be created. The trust record written for Claude and the log
  file of a session are left out, and what the parser makes of the output is modelled in \<open>Approval\<close>.
\<close>

section \<open>Rows\<close>

text \<open>The columns of \<open>sessions\<close> that \<open>session_row\<close> has not, under the same keys.\<close>

record host_columns =
  hc_chat_id :: string
  hc_agent_kind :: string
  hc_host_pid :: "int option"
  hc_host_socket :: "string option"
  hc_pty_cookie :: "bytes option"
  hc_external_session_id :: "string option"
  hc_started_at :: int

record chat_row =
  ct_session_id :: "string option"
  ct_kind :: string
  ct_created_at :: int

datatype parser_pack = EchoPack | ClaudeCodePack | MaestroStreamJsonPack

record session_entry =
  en_no :: nat
  en_workarea_id :: string
  en_chat_id :: string
  en_cookie :: bytes
  en_permission_mode :: permission_mode
  en_socket_path :: string
  en_replay :: "agent_event list"
  en_child :: "int option"
  en_finished :: bool
  en_parser :: parser_pack

record read_pump =
  rp_session :: string
  rp_reading :: bool
  rp_watermark :: nat
  rp_bytes_since_ack :: nat
  rp_last_sent :: nat
  rp_last_persisted :: nat
  rp_resolver :: permission_resolver
  rp_from :: nat
  rp_seen :: "nat list"

text \<open>A host that was spawned and whose handshake is not done.\<close>

record launch =
  la_session :: string
  la_workarea_id :: string
  la_chat_id :: string
  la_cookie :: bytes
  la_permission_mode :: string
  la_socket_path :: string
  la_kind :: session_agent
  la_pid :: int

text \<open>
  Entries and pumps share the number \<open>en_no\<close>, the key of \<open>sp_pumps\<close>: in the code they share the
  channels and the flag \<open>finished\<close>. \<open>rp_from\<close>, the watermark a pump
  started with, \<open>rp_seen\<close>, the numbers of the output frames it has read, \<open>sp_sent\<close>,
  the events broadcast, and \<open>sp_acks\<close>, the \<open>Ack\<close> frames written, are histories.
\<close>

record supervision =
  sp_db :: database
  sp_columns :: "host_columns table"
  sp_chats :: "chat_row table"
  sp_entries :: "session_entry table"
  sp_pumps :: "(nat \<times> read_pump) list"
  sp_hosts :: "(int \<times> string) list"
  sp_sent :: "agent_event list"
  sp_acks :: "(nat \<times> nat) list"
  sp_count :: nat

definition sessions_update_status :: "string \<Rightarrow> string \<Rightarrow> database \<Rightarrow> database" where
  "sessions_update_status sid status db =
     db\<lparr>db_sessions := sql_update sid (\<lambda>r. r\<lparr>s_status := status\<rparr>) (db_sessions db)\<rparr>"

definition update_db :: "(database \<Rightarrow> database) \<Rightarrow> supervision \<Rightarrow> supervision" where
  "update_db f s = s\<lparr>sp_db := f (sp_db s)\<rparr>"

definition update_host :: "string \<Rightarrow> int \<Rightarrow> string \<Rightarrow> string \<Rightarrow> supervision \<Rightarrow> supervision" where
  "update_host sid pid sock status s =
     (update_db (sessions_update_status sid status) s)
       \<lparr>sp_columns := sql_update sid (\<lambda>r. r\<lparr>hc_host_pid := Some pid, hc_host_socket := Some sock\<rparr>) (sp_columns s)\<rparr>"

text \<open>One transaction: the chat unless an existing one is bound, and the session.\<close>

definition insert_session :: "bool \<Rightarrow> string \<Rightarrow> session_row \<Rightarrow> host_columns \<Rightarrow> supervision \<Rightarrow> unit result \<times> supervision" where
  "insert_session bind_existing_chat sid row cols s =
     (let chats = (if bind_existing_chat then sp_chats s
                   else sp_chats s @ [(hc_chat_id cols, \<lparr>ct_session_id = Some sid, ct_kind = ''session'', ct_created_at = hc_started_at cols\<rparr>)])
      in if \<not> bind_existing_chat \<and> hc_chat_id cols \<in> fst ` set (sp_chats s)
         then (Inl (Sqlx ''UNIQUE constraint failed: chats.id''), s)
         else if sid \<in> fst ` set (db_sessions (sp_db s))
         then (Inl (Sqlx ''UNIQUE constraint failed: sessions.id''), s)
         else if hc_chat_id cols \<notin> fst ` set chats
         then (Inl (Sqlx ''FOREIGN KEY constraint failed''), s)
         else (Inr (), (update_db (\<lambda>db. db\<lparr>db_sessions := db_sessions db @ [(sid, row)]\<rparr>) s)
                 \<lparr>sp_columns := sp_columns s @ [(sid, cols)], sp_chats := chats\<rparr>))"

text \<open>The delete of a session with the chats that name it.\<close>

definition sessions_delete :: "string \<Rightarrow> supervision \<Rightarrow> supervision" where
  "sessions_delete sid s =
     (update_db (\<lambda>db. db\<lparr>db_sessions := filter (\<lambda>(j, r). j \<noteq> sid) (db_sessions db)\<rparr>) s)
       \<lparr>sp_columns := filter (\<lambda>(j, c). j \<noteq> sid) (sp_columns s),
        sp_chats := filter (\<lambda>(j, c). ct_session_id c \<noteq> Some sid) (sp_chats s)\<rparr>"

section \<open>What is started\<close>

fun as_db_kind :: "session_agent \<Rightarrow> string" where
  "as_db_kind EchoAgent = ''claude''"
| "as_db_kind ClaudeAgent = ''claude''"
| "as_db_kind CodexAgent = ''codex''"
| "as_db_kind GeminiAgent = ''gemini''"
| "as_db_kind MaestroAgent = ''maestro''"

definition from_db_kind :: "string \<Rightarrow> session_agent option" where
  "from_db_kind s = (if s = ''claude'' then Some ClaudeAgent else if s = ''codex'' then Some CodexAgent
     else if s = ''gemini'' then Some GeminiAgent else if s = ''maestro'' then Some MaestroAgent else None)"

definition shell_escape_single_quoted :: "string \<Rightarrow> string" where
  "shell_escape_single_quoted s =
     [CHR 0x27] @ concat (map (\<lambda>c. if c = CHR 0x27 then [CHR 0x27, CHR 0x5C, CHR 0x27, CHR 0x27] else [c]) s) @ [CHR 0x27]"

text \<open>What the supervisor is built with; \<open>sv_maestro\<close> is the launch of the Maestro's provider for a directory.\<close>

record supervisor_env =
  sv_data_dir :: string
  sv_tmp_dir :: string
  sv_from_str :: "string \<Rightarrow> json option"
  sv_managed :: "managed_policy result"
  sv_maestro :: "string \<Rightarrow> (string \<times> string list) result"
  sv_debug :: "host_frame \<Rightarrow> string"

definition resolve_agent_bin :: "supervisor_env \<Rightarrow> start_request \<Rightarrow> (string \<times> string list) result" where
  "resolve_agent_bin env req =
     (case rq_agent_kind req of
        EchoAgent \<Rightarrow> Inr (''/bin/sh'', [''-c'', ''echo '' @ shell_escape_single_quoted ((case rq_echo_text req of None \<Rightarrow> ''hello'' | Some t \<Rightarrow> t)) @ ''; sleep 1''])
      | ClaudeAgent \<Rightarrow> Inr (''claude'', [''--dangerously-skip-permissions''])
      | MaestroAgent \<Rightarrow> sv_maestro env (rq_cwd req)
      | _ \<Rightarrow> Inl (Validation ''agent.not_implemented: codex/gemini deferred to Phase 3''))"

fun parser_of :: "session_agent \<Rightarrow> parser_pack" where
  "parser_of ClaudeAgent = ClaudeCodePack"
| "parser_of MaestroAgent = MaestroStreamJsonPack"
| "parser_of _ = EchoPack"

definition socket_path :: "supervisor_env \<Rightarrow> string \<Rightarrow> string" where
  "socket_path env sid =
     (let canonical = sv_data_dir env @ ''/runtime/agents/'' @ sid @ ''.sock''
      in if length canonical < 100 then canonical
         else sv_tmp_dir env @ ''/ccs-'' @ drop (length sid - 8) sid @ ''.sock'')"

definition start_mode :: "supervisor_env \<Rightarrow> database \<Rightarrow> start_request \<Rightarrow> permission_mode result" where
  "start_mode env db req =
     (case rq_permission_mode req of
        Some m \<Rightarrow>
          and_then (parse_permission_mode m) (\<lambda>parsed.
          and_then (sv_managed env) (\<lambda>managed.
          and_then (enforce_managed_cap parsed managed) (\<lambda>_. Inr parsed)))
      | None \<Rightarrow> and_then (resolve_for_new_session (sv_from_str env) (sv_managed env) db (rq_workarea_id req)) (\<lambda>e. Inr (em_mode e)))"

text \<open>The spawn of the host, and what comes of the connection to it.\<close>

datatype dial = SpawnFailed error | Spawned int

datatype handshake =
    NoSocket error
  | NotConnectable string
  | HelloUnsent string
  | ReadyUnread string
  | Answered host_frame

definition handshake_error :: "supervisor_env \<Rightarrow> handshake \<Rightarrow> error option" where
  "handshake_error env h =
     (case h of
        NoSocket e \<Rightarrow> Some e
      | NotConnectable e \<Rightarrow> Some (Io e)
      | HelloUnsent e \<Rightarrow> Some (Internal (''write Hello: '' @ e))
      | ReadyUnread e \<Rightarrow> Some (Internal (''read Ready: '' @ e))
      | Answered (Ready _ _ _ _) \<Rightarrow> None
      | Answered CookieMismatch \<Rightarrow> Some (Internal ''agent-host rejected cookie (mismatch)'')
      | Answered AlreadyConnected \<Rightarrow> Some (Internal ''agent-host reports another Core is connected'')
      | Answered other \<Rightarrow> Some (Internal (''unexpected handshake frame '' @ sv_debug env other)))"

section \<open>Starting\<close>

definition table_put :: "string \<Rightarrow> 'r \<Rightarrow> 'r table \<Rightarrow> 'r table" where
  "table_put k r t = (k, r) # filter (\<lambda>(j, x). j \<noteq> k) t"

definition table_drop :: "string \<Rightarrow> 'r table \<Rightarrow> 'r table" where
  "table_drop k t = filter (\<lambda>(j, x). j \<noteq> k) t"

definition push_event :: "nat \<Rightarrow> agent_event \<Rightarrow> supervision \<Rightarrow> supervision" where
  "push_event no ev s =
     s\<lparr>sp_entries := map (\<lambda>(j, e). (j, if en_no e = no then e\<lparr>en_replay := push_replay (en_replay e) ev\<rparr> else e)) (sp_entries s),
       sp_sent := sp_sent s @ [ev]\<rparr>"

definition kill_host :: "int \<Rightarrow> supervision \<Rightarrow> supervision" where
  "kill_host pid s = s\<lparr>sp_hosts := filter (\<lambda>(p, sock). p \<noteq> pid) (sp_hosts s)\<rparr>"

definition mark_failed :: "string \<Rightarrow> supervision \<Rightarrow> supervision" where
  "mark_failed sid = update_db (sessions_update_status sid ''crashed'')"

text \<open>The entry of a session and its read pump.\<close>

definition attach ::
  "string \<Rightarrow> string \<Rightarrow> string \<Rightarrow> bytes \<Rightarrow> permission_mode \<Rightarrow> string \<Rightarrow> int option \<Rightarrow> parser_pack \<Rightarrow> nat \<Rightarrow> supervision \<Rightarrow> supervision" where
  "attach sid wa chat cookie mode sock child pack watermark s =
     s\<lparr>sp_entries := table_put sid \<lparr>en_no = sp_count s, en_workarea_id = wa, en_chat_id = chat, en_cookie = cookie,
           en_permission_mode = mode, en_socket_path = sock, en_replay = [], en_child = child, en_finished = False,
           en_parser = pack\<rparr> (sp_entries s),
       sp_pumps := sp_pumps s @ [(sp_count s, \<lparr>rp_session = sid, rp_reading = True, rp_watermark = watermark,
           rp_bytes_since_ack = 0, rp_last_sent = 0, rp_last_persisted = 0,
           rp_resolver = new_resolver mode (bypass_for_session (sp_db s) sid), rp_from = watermark, rp_seen = []\<rparr>)],
       sp_count := Suc (sp_count s)\<rparr>"

definition start_begin ::
  "supervisor_env \<Rightarrow> string \<Rightarrow> string \<Rightarrow> bytes \<Rightarrow> int \<Rightarrow> start_request \<Rightarrow> dial \<Rightarrow> supervision \<Rightarrow> launch result \<times> supervision" where
  "start_begin env sid fresh_chat cookie now_ms req d s =
     (case start_session_admits (sp_db s) req of
        Inl e \<Rightarrow> (Inl e, s)
      | Inr _ \<Rightarrow>
          (case start_mode env (sp_db s) req of
             Inl e \<Rightarrow> (Inl e, s)
           | Inr mode \<Rightarrow>
               (let sock = socket_path env sid;
                    chat = (case rq_chat_id req of None \<Rightarrow> fresh_chat | Some c \<Rightarrow> c)
                in case insert_session (rq_chat_id req \<noteq> None) sid
                        \<lparr>s_workarea_id = rq_workarea_id req, s_status = ''starting'', s_permission_mode = Some (as_str_mode mode),
                         s_bypass = 0, s_ended_at = None, s_last_acked_seq = 0\<rparr>
                        \<lparr>hc_chat_id = chat, hc_agent_kind = as_db_kind (rq_agent_kind req), hc_host_pid = None,
                         hc_host_socket = Some sock, hc_pty_cookie = Some cookie, hc_external_session_id = None,
                         hc_started_at = now_ms\<rparr> s of
                     (Inl e, s1) \<Rightarrow> (Inl e, s1)
                   | (Inr _, s1) \<Rightarrow>
                       (case resolve_agent_bin env req of
                          Inl e \<Rightarrow> (Inl e, s1)
                        | Inr bin \<Rightarrow>
                            (case d of
                               SpawnFailed e \<Rightarrow> (Inl (Internal (''spawn agent-host: '' @ error_display e)), s1)
                             | Spawned pid \<Rightarrow>
                                 (Inr \<lparr>la_session = sid, la_workarea_id = rq_workarea_id req, la_chat_id = chat, la_cookie = cookie,
                                       la_permission_mode = as_str_mode mode, la_socket_path = sock,
                                       la_kind = rq_agent_kind req, la_pid = pid\<rparr>,
                                  s1\<lparr>sp_hosts := sp_hosts s1 @ [(pid, sock)]\<rparr>))))))"

text \<open>The handshake, the same for a start and a cold resume.\<close>

definition launch_done :: "supervisor_env \<Rightarrow> launch \<Rightarrow> handshake \<Rightarrow> supervision \<Rightarrow> string result \<times> supervision" where
  "launch_done env la h s =
     (case handshake_error env h of
        Some e \<Rightarrow> (Inl e, mark_failed (la_session la) (kill_host (la_pid la) s))
      | None \<Rightarrow>
          (let s1 = update_host (la_session la) (la_pid la) (la_socket_path la) ''running'' s
           in case parse_permission_mode (la_permission_mode la) of
                Inl e \<Rightarrow> (Inl e, s1)
              | Inr mode \<Rightarrow>
                  (Inr (la_session la),
                   push_event (sp_count s1) (EvStarted (la_session la))
                     (attach (la_session la) (la_workarea_id la) (la_chat_id la) (la_cookie la) mode (la_socket_path la)
                        (Some (la_pid la)) (parser_of (la_kind la)) 0 s1))))"

definition start_session ::
  "supervisor_env \<Rightarrow> string \<Rightarrow> string \<Rightarrow> bytes \<Rightarrow> int \<Rightarrow> start_request \<Rightarrow> dial \<Rightarrow> handshake \<Rightarrow> supervision \<Rightarrow> string result \<times> supervision" where
  "start_session env sid fresh_chat cookie now_ms req d h s =
     (case start_begin env sid fresh_chat cookie now_ms req d s of
        (Inl e, s1) \<Rightarrow> (Inl e, s1)
      | (Inr la, s1) \<Rightarrow> launch_done env la h s1)"

section \<open>Cold resume\<close>

definition session_columns :: "supervision \<Rightarrow> string \<Rightarrow> (session_row \<times> host_columns) option" where
  "session_columns s sid =
     (case (map_of (db_sessions (sp_db s)) sid, map_of (sp_columns s) sid) of
        (Some r, Some c) \<Rightarrow> Some (r, c)
      | _ \<Rightarrow> None)"

definition row_mode :: "session_row \<Rightarrow> string" where
  "row_mode r = (case s_permission_mode r of Some m \<Rightarrow> m | None \<Rightarrow> [])"

definition cold_resume_existing ::
  "supervisor_env \<Rightarrow> string \<Rightarrow> string \<Rightarrow> string \<Rightarrow> bytes \<Rightarrow> dial \<Rightarrow> supervision \<Rightarrow> launch result \<times> supervision" where
  "cold_resume_existing env sid cwd token cookie d s =
     (case session_columns s sid of
        None \<Rightarrow> (Inl (session_not_found sid), s)
      | Some (row, cols) \<Rightarrow>
          (let sock = socket_path env sid;
               s1 = (update_db (\<lambda>db. db\<lparr>db_sessions := sql_update sid
                       (\<lambda>r. r\<lparr>s_status := ''starting'', s_last_acked_seq := 0, s_ended_at := None\<rparr>) (db_sessions db)\<rparr>) s)
                    \<lparr>sp_entries := table_drop sid (sp_entries s),
                     sp_columns := sql_update sid (\<lambda>c. c\<lparr>hc_host_socket := Some sock, hc_pty_cookie := Some cookie\<rparr>) (sp_columns s)\<rparr>
           in case from_db_kind (hc_agent_kind cols) of
                None \<Rightarrow> (Inl (Validation (''agent.unsupported: cannot cold-resume agent_kind '' @ [CHR 0x22] @ hc_agent_kind cols @ [CHR 0x22])), s1)
              | Some kind \<Rightarrow>
                  (case resolve_agent_bin env \<lparr>rq_workarea_id = s_workarea_id row, rq_agent_kind = kind, rq_echo_text = None,
                          rq_cwd = cwd, rq_permission_mode = None, rq_resume_session_id = Some token, rq_chat_id = None\<rparr> of
                     Inl e \<Rightarrow> (Inl e, s1)
                   | Inr bin \<Rightarrow>
                       (case d of
                          SpawnFailed e \<Rightarrow> (Inl (Internal (''spawn agent-host: '' @ error_display e)), s1)
                        | Spawned pid \<Rightarrow>
                            (Inr \<lparr>la_session = sid, la_workarea_id = s_workarea_id row, la_chat_id = hc_chat_id cols,
                                  la_cookie = cookie, la_permission_mode = row_mode row, la_socket_path = sock,
                                  la_kind = kind, la_pid = pid\<rparr>,
                             s1\<lparr>sp_hosts := sp_hosts s1 @ [(pid, sock)]\<rparr>)))))"

definition cold_resume_begin ::
  "supervisor_env \<Rightarrow> string \<Rightarrow> bytes \<Rightarrow> dial \<Rightarrow> supervision \<Rightarrow> launch result \<times> supervision" where
  "cold_resume_begin env sid cookie d s =
     (case session_columns s sid of
        None \<Rightarrow> (Inl (session_not_found sid), s)
      | Some (row, cols) \<Rightarrow>
          (case hc_external_session_id cols of
             None \<Rightarrow> (Inl (NotFound (''session.no_external_id: session '' @ sid
                       @ '' has no external_session_id; cannot cold-resume (parser never extracted a Claude/Codex token)'')), s)
           | Some token \<Rightarrow>
               (case workareas_get (sp_db s) (s_workarea_id row) of
                  None \<Rightarrow> (Inl (NotFound (''workarea '' @ s_workarea_id row @ '' not found (cold-resume target)'')), s)
                | Some w \<Rightarrow>
                    if wa_archived_at w \<noteq> None
                    then (Inl (Validation (''workarea.archived: workarea '' @ s_workarea_id row @ '' is archived; cannot cold-resume'')), s)
                    else cold_resume_existing env sid (wa_worktree_root w) token cookie d s)))"

definition cold_resume_session ::
  "supervisor_env \<Rightarrow> string \<Rightarrow> bytes \<Rightarrow> dial \<Rightarrow> handshake \<Rightarrow> supervision \<Rightarrow> string result \<times> supervision" where
  "cold_resume_session env sid cookie d h s =
     (case cold_resume_begin env sid cookie d s of
        (Inl e, s1) \<Rightarrow> (Inl e, s1)
      | (Inr la, s1) \<Rightarrow> launch_done env la h s1)"

text \<open>\<open>settings_json.auto_resume_agents\<close> of the session's workspace.\<close>

definition read_auto_resume_for_session :: "supervisor_env \<Rightarrow> supervision \<Rightarrow> string \<Rightarrow> bool" where
  "read_auto_resume_for_session env s sid =
     (case map_of (db_sessions (sp_db s)) sid of
        None \<Rightarrow> False
      | Some r \<Rightarrow>
          (case map_of (db_workareas (sp_db s)) (s_workarea_id r) of
             None \<Rightarrow> False
           | Some wa \<Rightarrow>
               (case map_of (db_workspaces (sp_db s)) (wa_workspace_id wa) of
                  None \<Rightarrow> False
                | Some ws \<Rightarrow>
                    (case sv_from_str env (ws_settings_json ws) of
                       None \<Rightarrow> False
                     | Some v \<Rightarrow> Option.bind (json_get v ''auto_resume_agents'') as_bool = Some True))))"

definition maybe_auto_resume ::
  "supervisor_env \<Rightarrow> string \<Rightarrow> bytes \<Rightarrow> dial \<Rightarrow> handshake \<Rightarrow> supervision \<Rightarrow> bool \<times> supervision" where
  "maybe_auto_resume env sid cookie d h s =
     (if \<not> read_auto_resume_for_session env s sid then (False, s)
      else (case session_columns s sid of
              None \<Rightarrow> (False, s)
            | Some (row, cols) \<Rightarrow>
                if hc_external_session_id cols = None then (False, s)
                else (case cold_resume_session env sid cookie d h s of
                        (Inr _, s1) \<Rightarrow> (True, s1)
                      | (Inl e, s1) \<Rightarrow> (False, s1))))"

section \<open>The read pump\<close>

definition pump_update :: "nat \<Rightarrow> (read_pump \<Rightarrow> read_pump) \<Rightarrow> supervision \<Rightarrow> supervision" where
  "pump_update no f s = s\<lparr>sp_pumps := map (\<lambda>(n, p). (n, if n = no then f p else p)) (sp_pumps s)\<rparr>"

definition update_watermark :: "nat \<Rightarrow> nat \<Rightarrow> nat" where
  "update_watermark seq watermark = (if watermark < seq then seq else watermark)"

definition write_ack :: "nat \<Rightarrow> nat \<Rightarrow> supervision \<Rightarrow> supervision" where
  "write_ack no seq s = s\<lparr>sp_acks := sp_acks s @ [(no, seq)]\<rparr>"

text \<open>An output frame: the watermark, and an \<open>Ack\<close> after every hundred bytes.\<close>

definition pump_stdout :: "nat \<Rightarrow> nat \<Rightarrow> bytes \<Rightarrow> read_pump \<Rightarrow> supervision \<Rightarrow> supervision" where
  "pump_stdout no seq data p s =
     (let wm = update_watermark seq (rp_watermark p); bytes = rp_bytes_since_ack p + length data;
          s1 = pump_update no (\<lambda>p. p\<lparr>rp_watermark := wm, rp_seen := rp_seen p @ [seq],
                 rp_bytes_since_ack := (if 100 \<le> bytes then 0 else bytes)\<rparr>) s
      in if 100 \<le> bytes then write_ack no wm s1 else s1)"

text \<open>The exit frame: the entry stays for its replay buffer, and its child is reaped.\<close>

definition finish_entry :: "nat \<Rightarrow> supervision \<Rightarrow> supervision" where
  "finish_entry no s =
     s\<lparr>sp_entries := map (\<lambda>(j, e). (j, if en_no e = no then e\<lparr>en_finished := True\<rparr> else e)) (sp_entries s)\<rparr>"

definition reap_child :: "string \<Rightarrow> supervision \<Rightarrow> supervision" where
  "reap_child sid s =
     (case map_of (sp_entries s) sid of
        None \<Rightarrow> s
      | Some e \<Rightarrow>
          (case en_child e of
             None \<Rightarrow> s
           | Some pid \<Rightarrow> (kill_host pid s)\<lparr>sp_entries := sql_update sid (\<lambda>e. e\<lparr>en_child := None\<rparr>) (sp_entries s)\<rparr>))"

definition pump_exited :: "nat \<Rightarrow> int \<Rightarrow> int option \<Rightarrow> int option \<Rightarrow> read_pump \<Rightarrow> supervision \<Rightarrow> supervision" where
  "pump_exited no now_ms code sig p s =
     pump_update no (\<lambda>p. p\<lparr>rp_reading := False\<rparr>)
       (reap_child (rp_session p)
          (update_db (sessions_mark_ended (rp_session p) now_ms)
             (finish_entry no (push_event no (EvExited (rp_session p) code sig) s))))"

definition pump_frame :: "(bytes \<Rightarrow> string) \<Rightarrow> nat \<Rightarrow> int \<Rightarrow> host_frame \<Rightarrow> supervision \<Rightarrow> supervision" where
  "pump_frame lossy no now_ms f s =
     (case map_of (sp_pumps s) no of
        None \<Rightarrow> s
      | Some p \<Rightarrow>
          if \<not> rp_reading p then s
          else (case f of
                  StdoutBytes seq data \<Rightarrow> pump_stdout no seq data p s
                | StderrBytes seq data \<Rightarrow>
                    push_event no (EvMessage (rp_session p) ''assistant'' (lossy data))
                      (pump_update no (\<lambda>p. p\<lparr>rp_watermark := update_watermark seq (rp_watermark p), rp_seen := rp_seen p @ [seq]\<rparr>) s)
                | AgentExited code sig \<Rightarrow> pump_exited no now_ms code sig p s
                | _ \<Rightarrow> s))"

text \<open>The connection ends or breaks; then, after the tickers are joined, the last watermark is stored.\<close>

definition pump_eof :: "nat \<Rightarrow> supervision \<Rightarrow> supervision" where
  "pump_eof no = pump_update no (\<lambda>p. p\<lparr>rp_reading := False\<rparr>)"

definition pump_flush :: "nat \<Rightarrow> supervision \<Rightarrow> supervision" where
  "pump_flush no s =
     (case map_of (sp_pumps s) no of
        None \<Rightarrow> s
      | Some p \<Rightarrow>
          if rp_reading p then s
          else (let s1 = s\<lparr>sp_pumps := filter (\<lambda>(n, p). n \<noteq> no) (sp_pumps s)\<rparr>
                in if 0 < rp_watermark p
                   then update_db (sessions_update_last_acked (rp_session p) (int (rp_watermark p))) s1 else s1))"

definition ack_send_tick :: "nat \<Rightarrow> supervision \<Rightarrow> supervision" where
  "ack_send_tick no s =
     (case map_of (sp_pumps s) no of
        None \<Rightarrow> s
      | Some p \<Rightarrow>
          if rp_reading p \<and> rp_last_sent p < rp_watermark p
          then write_ack no (rp_watermark p) (pump_update no (\<lambda>p. p\<lparr>rp_last_sent := rp_watermark p\<rparr>) s) else s)"

definition ack_persist_tick :: "nat \<Rightarrow> supervision \<Rightarrow> supervision" where
  "ack_persist_tick no s =
     (case map_of (sp_pumps s) no of
        None \<Rightarrow> s
      | Some p \<Rightarrow>
          if rp_reading p \<and> rp_last_persisted p < rp_watermark p
          then update_db (sessions_update_last_acked (rp_session p) (int (rp_watermark p)))
                 (pump_update no (\<lambda>p. p\<lparr>rp_last_persisted := rp_watermark p\<rparr>) s) else s)"

section \<open>Input, stop and delete\<close>

definition session_not_running :: "string \<Rightarrow> error" where
  "session_not_running sid = NotFound (''session '' @ sid @ '' not running'')"

definition send_input :: "(nat \<Rightarrow> host_frame \<Rightarrow> string + unit) \<Rightarrow> string \<Rightarrow> bytes \<Rightarrow> supervision \<Rightarrow> unit result" where
  "send_input write sid data s =
     (case map_of (sp_entries s) sid of
        None \<Rightarrow> Inl (session_not_running sid)
      | Some e \<Rightarrow> (case write (en_no e) (StdinBytes data) of Inl m \<Rightarrow> Inl (Internal (''write StdinBytes: '' @ m)) | Inr u \<Rightarrow> Inr u))"

definition resize_session :: "(nat \<Rightarrow> host_frame \<Rightarrow> string + unit) \<Rightarrow> string \<Rightarrow> nat \<Rightarrow> nat \<Rightarrow> supervision \<Rightarrow> unit result" where
  "resize_session write sid rows cols s =
     (case map_of (sp_entries s) sid of
        None \<Rightarrow> Inl (session_not_running sid)
      | Some e \<Rightarrow> (case write (en_no e) (Resize rows cols) of Inl m \<Rightarrow> Inl (Internal (''write Resize: '' @ m)) | Inr u \<Rightarrow> Inr u))"

definition tear_down :: "string \<Rightarrow> session_entry \<Rightarrow> supervision \<Rightarrow> supervision" where
  "tear_down sid e s =
     (let s1 = s\<lparr>sp_entries := table_drop sid (sp_entries s)\<rparr>
      in case en_child e of None \<Rightarrow> s1 | Some pid \<Rightarrow> kill_host pid s1)"

definition stop_session :: "string \<Rightarrow> int \<Rightarrow> supervision \<Rightarrow> unit result \<times> supervision" where
  "stop_session sid now_ms s =
     (case map_of (sp_entries s) sid of
        None \<Rightarrow> (Inl (session_not_running sid), s)
      | Some e \<Rightarrow>
          (Inr (), push_event (en_no e) (EvExited sid None None)
                     (update_db (sessions_mark_ended sid now_ms) (tear_down sid e s))))"

definition delete_session :: "string \<Rightarrow> supervision \<Rightarrow> unit result \<times> supervision" where
  "delete_session sid s =
     (let s1 = (case map_of (sp_entries s) sid of
                  None \<Rightarrow> s
                | Some e \<Rightarrow> push_event (en_no e) (EvExited sid None None) (tear_down sid e s))
      in (Inr (), sessions_delete sid s1))"

section \<open>The sweep at start-up\<close>

definition mark_crashed :: "string \<Rightarrow> int \<Rightarrow> supervision \<Rightarrow> supervision" where
  "mark_crashed sid now_ms = update_db (\<lambda>db. sessions_mark_ended sid now_ms (sessions_update_status sid ''crashed'' db))"

definition find_session_by_socket :: "supervision \<Rightarrow> string \<Rightarrow> (string \<times> session_row \<times> host_columns) option" where
  "find_session_by_socket s sock =
     Option.bind (find (\<lambda>(sid, r). s_ended_at r = None \<and> Option.bind (map_of (sp_columns s) sid) hc_host_socket = Some sock) (db_sessions (sp_db s)))
       (\<lambda>(sid, r). map_option (\<lambda>c. (sid, r, c)) (map_of (sp_columns s) sid))"

fun adopted_parser :: "string \<Rightarrow> parser_pack" where
  "adopted_parser kind = (if kind = ''claude'' then ClaudeCodePack else if kind = ''maestro'' then MaestroStreamJsonPack else EchoPack)"

definition adopt_resume_session ::
  "string \<Rightarrow> session_row \<Rightarrow> host_columns \<Rightarrow> bytes \<Rightarrow> nat \<Rightarrow> supervision \<Rightarrow> unit result \<times> supervision" where
  "adopt_resume_session sid row cols cookie last_acked_seq s =
     (case parse_permission_mode (row_mode row) of
        Inl e \<Rightarrow> (Inl e, s)
      | Inr mode \<Rightarrow>
          (Inr (), attach sid (s_workarea_id row) (hc_chat_id cols) cookie mode
                     (case hc_host_socket cols of Some p \<Rightarrow> p | None \<Rightarrow> []) None (adopted_parser (hc_agent_kind cols)) last_acked_seq s))"

definition adoption_hello :: "string \<Rightarrow> session_row \<Rightarrow> bytes \<Rightarrow> host_frame" where
  "adoption_hello version row cookie = Hello version cookie (nat (max 0 (s_last_acked_seq row)))"

text \<open>\<open>greet\<close>: what becomes of the \<open>Hello\<close> sent to a socket. The first component tells an adoption.\<close>

definition try_adopt_one ::
  "string \<Rightarrow> (string \<Rightarrow> host_frame \<Rightarrow> handshake) \<Rightarrow> int \<Rightarrow> string \<Rightarrow> supervision \<Rightarrow> bool \<times> supervision" where
  "try_adopt_one version greet now_ms sock s =
     (case find_session_by_socket s sock of
        None \<Rightarrow> (False, s)
      | Some (sid, row, cols) \<Rightarrow>
          (case hc_pty_cookie cols of
             None \<Rightarrow> (False, mark_crashed sid now_ms s)
           | Some cookie \<Rightarrow>
               if length cookie \<noteq> 32 then (False, mark_crashed sid now_ms s)
               else (case greet sock (adoption_hello version row cookie) of
                       Answered AlreadyConnected \<Rightarrow> (False, s)
                     | Answered (Ready _ _ _ _) \<Rightarrow>
                         (case adopt_resume_session sid row cols cookie (nat (max 0 (s_last_acked_seq row)))
                                 (update_db (sessions_update_status sid ''running'') s) of
                            (Inl e, s1) \<Rightarrow> (False, mark_crashed sid now_ms s1)
                          | (Inr _, s1) \<Rightarrow> (True, s1))
                     | _ \<Rightarrow> (False, mark_crashed sid now_ms s))))"

fun adopt_each ::
  "string \<Rightarrow> (string \<Rightarrow> host_frame \<Rightarrow> handshake) \<Rightarrow> int \<Rightarrow> string list \<Rightarrow> supervision \<Rightarrow> nat \<times> supervision" where
  "adopt_each version greet now_ms [] s = (0, s)"
| "adopt_each version greet now_ms (sock # socks) s =
     (let (ok, s1) = try_adopt_one version greet now_ms sock s; (n, s2) = adopt_each version greet now_ms socks s1
      in ((if ok then Suc n else n), s2))"

definition find_cold_candidates :: "supervision \<Rightarrow> string list" where
  "find_cold_candidates s =
     map fst (filter (\<lambda>(sid, r). s_ended_at r = None \<and> s_status r \<in> {''starting'', ''running'', ''awaiting''}
       \<and> sid \<notin> fst ` set (sp_entries s)) (db_sessions (sp_db s)))"

record final_info =
  fi_exit_code :: "int option"
  fi_signal :: "int option"
  fi_exited_at_unix_ms :: int

definition judged_status :: "final_info option \<Rightarrow> string" where
  "judged_status f =
     (case f of
        None \<Rightarrow> ''crashed''
      | Some fi \<Rightarrow> if fi_exit_code fi = Some 0 \<and> fi_signal fi = None then ''finished'' else ''crashed'')"

text \<open>\<open>attempt\<close>: cookie, spawn and handshake of a resume, should there be one.\<close>

definition cold_path_one ::
  "supervisor_env \<Rightarrow> int \<Rightarrow> (string \<Rightarrow> final_info option) \<Rightarrow> (string \<Rightarrow> bytes \<times> dial \<times> handshake) \<Rightarrow> string
     \<Rightarrow> supervision \<Rightarrow> bool \<times> supervision" where
  "cold_path_one env now_ms final attempt sid s =
     (let status = judged_status (final sid);
          ended = (case final sid of Some fi \<Rightarrow> fi_exited_at_unix_ms fi | None \<Rightarrow> now_ms);
          s1 = update_db (\<lambda>db. (sessions_update_status sid status db)
                 \<lparr>db_sessions := sql_update sid (\<lambda>r. r\<lparr>s_ended_at := (case s_ended_at r of None \<Rightarrow> Some ended | Some t \<Rightarrow> Some t)\<rparr>)
                    (db_sessions (sessions_update_status sid status db))\<rparr>) s;
          (cookie, d, h) = attempt sid
      in if status = ''crashed'' then maybe_auto_resume env sid cookie d h s1 else (False, s1))"

fun cold_each ::
  "supervisor_env \<Rightarrow> int \<Rightarrow> (string \<Rightarrow> final_info option) \<Rightarrow> (string \<Rightarrow> bytes \<times> dial \<times> handshake) \<Rightarrow> string list
     \<Rightarrow> supervision \<Rightarrow> nat \<times> supervision" where
  "cold_each env now_ms final attempt [] s = (0, s)"
| "cold_each env now_ms final attempt (sid # sids) s =
     (let (ok, s1) = cold_path_one env now_ms final attempt sid s; (n, s2) = cold_each env now_ms final attempt sids s1
      in ((if ok then Suc n else n), s2))"

text \<open>\<open>listing\<close>: the sockets in the runtime directory, nothing when it cannot be read.\<close>

definition adopt_orphans ::
  "supervisor_env \<Rightarrow> string \<Rightarrow> (string \<Rightarrow> host_frame \<Rightarrow> handshake) \<Rightarrow> int \<Rightarrow> string list option \<Rightarrow> (string \<Rightarrow> final_info option)
     \<Rightarrow> (string \<Rightarrow> bytes \<times> dial \<times> handshake) \<Rightarrow> supervision \<Rightarrow> nat \<times> supervision" where
  "adopt_orphans env version greet now_ms listing final attempt s =
     (case listing of
        None \<Rightarrow> (0, s)
      | Some socks \<Rightarrow>
          (let (adopted, s1) = adopt_each version greet now_ms socks s;
               (resumed, s2) = cold_each env now_ms final attempt (find_cold_candidates s1) s1
           in (adopted, s2)))"

definition restart_core :: "supervision \<Rightarrow> supervision" where
  "restart_core s = s\<lparr>sp_entries := [], sp_pumps := []\<rparr>"

section \<open>What the operations do to a session\<close>

definition row_at :: "supervision \<Rightarrow> string \<Rightarrow> session_row option" where
  "row_at s sid = map_of (db_sessions (sp_db s)) sid"

definition entry_at :: "supervision \<Rightarrow> string \<Rightarrow> session_entry option" where
  "entry_at s sid = map_of (sp_entries s) sid"

definition pump_at :: "supervision \<Rightarrow> nat \<Rightarrow> read_pump option" where
  "pump_at s n = map_of (sp_pumps s) n"

lemma map_of_mapped: "map_of (map (\<lambda>(j, e). (j, f j e)) t) k = map_option (f k) (map_of t k)"
  by (induction t) auto

lemma map_of_table_drop [simp]: "map_of (table_drop k t) j = (if j = k then None else map_of t j)"
  by (induction t) (auto simp: table_drop_def)

lemma map_of_table_put [simp]: "map_of (table_put k r t) j = (if j = k then Some r else map_of t j)"
  using map_of_table_drop [of k t j] by (simp add: table_put_def table_drop_def)

lemma map_of_key_filter: "map_of (filter (\<lambda>(j, x). j \<noteq> k) t) j = (if j = k then None else map_of t j)"
  by (induction t) auto

lemma row_at_simps [simp]:
  "row_at (update_db (sessions_update_status i st) s) j = (if j = i then map_option (\<lambda>r. r\<lparr>s_status := st\<rparr>) (row_at s i) else row_at s j)"
  "row_at (update_db (sessions_mark_ended i t) s) j
     = (if j = i then map_option (\<lambda>r. r\<lparr>s_ended_at := Some t, s_status := ''finished''\<rparr>) (row_at s i) else row_at s j)"
  "row_at (update_db (sessions_update_last_acked i q) s) j
     = (if j = i then map_option (\<lambda>r. r\<lparr>s_last_acked_seq := q\<rparr>) (row_at s i) else row_at s j)"
  "row_at (update_host i pid sock st s) j = (if j = i then map_option (\<lambda>r. r\<lparr>s_status := st\<rparr>) (row_at s i) else row_at s j)"
  "row_at (mark_failed i s) j = (if j = i then map_option (\<lambda>r. r\<lparr>s_status := ''crashed''\<rparr>) (row_at s i) else row_at s j)"
  "row_at (mark_crashed i t s) j
     = (if j = i then map_option (\<lambda>r. r\<lparr>s_ended_at := Some t, s_status := ''finished''\<rparr>) (row_at s i) else row_at s j)"
  "row_at (push_event n ev s) j = row_at s j" "row_at (kill_host pid s) j = row_at s j"
  "row_at (attach sid wa chat cookie mode sock child pack wm s) j = row_at s j"
  "row_at (pump_update n f s) j = row_at s j" "row_at (write_ack n a s) j = row_at s j"
  "row_at (finish_entry n s) j = row_at s j" "row_at (reap_child i s) j = row_at s j"
  "row_at (tear_down i e s) j = row_at s j" "row_at (pump_eof n s) j = row_at s j"
  "row_at (sessions_delete i s) j = (if j = i then None else row_at s j)"
  by (auto simp: row_at_def update_db_def sessions_update_status_def sessions_mark_ended_def sessions_update_last_acked_def
      update_host_def mark_failed_def mark_crashed_def push_event_def kill_host_def attach_def pump_update_def write_ack_def
      finish_entry_def reap_child_def tear_down_def Let_def pump_eof_def sessions_delete_def map_of_sql_update map_of_key_filter
      option.map_comp comp_def split: option.split)

lemma entry_at_simps [simp]:
  "entry_at (update_db f s) j = entry_at s j" "entry_at (update_host i pid sock st s) j = entry_at s j"
  "entry_at (mark_failed i s) j = entry_at s j" "entry_at (mark_crashed i t s) j = entry_at s j"
  "entry_at (kill_host pid s) j = entry_at s j" "entry_at (pump_update n g s) j = entry_at s j"
  "entry_at (write_ack n q s) j = entry_at s j" "entry_at (pump_eof n s) j = entry_at s j"
  "entry_at (sessions_delete i s) j = entry_at s j"
  "entry_at (push_event n ev s) j = map_option (\<lambda>e. if en_no e = n then e\<lparr>en_replay := push_replay (en_replay e) ev\<rparr> else e) (entry_at s j)"
  "entry_at (finish_entry n s) j = map_option (\<lambda>e. if en_no e = n then e\<lparr>en_finished := True\<rparr> else e) (entry_at s j)"
  "entry_at (tear_down i e s) j = (if j = i then None else entry_at s j)"
  by (auto simp: entry_at_def update_db_def update_host_def mark_failed_def mark_crashed_def kill_host_def pump_update_def
      write_ack_def pump_eof_def sessions_delete_def push_event_def finish_entry_def tear_down_def Let_def map_of_mapped split: option.split)

lemma entry_at_attach [simp]:
  "entry_at (attach sid wa chat cookie mode sock child pack wm s) j =
     (if j = sid then Some \<lparr>en_no = sp_count s, en_workarea_id = wa, en_chat_id = chat, en_cookie = cookie,
           en_permission_mode = mode, en_socket_path = sock, en_replay = [], en_child = child, en_finished = False,
           en_parser = pack\<rparr> else entry_at s j)"
  by (simp add: entry_at_def attach_def)

lemma entry_at_reap [simp]:
  "entry_at (reap_child i s) j = (if j = i then map_option (\<lambda>e. e\<lparr>en_child := None\<rparr>) (entry_at s i) else entry_at s j)"
proof (cases "map_of (sp_entries s) i")
  case (Some e)
  then show ?thesis
    by (cases "en_child e") (auto simp: entry_at_def reap_child_def kill_host_def map_of_sql_update)
qed (simp add: entry_at_def reap_child_def)

lemma pump_at_simps [simp]:
  "pump_at (update_db f s) n = pump_at s n" "pump_at (update_host i pid sock st s) n = pump_at s n"
  "pump_at (mark_failed i s) n = pump_at s n" "pump_at (mark_crashed i t s) n = pump_at s n"
  "pump_at (kill_host pid s) n = pump_at s n" "pump_at (push_event m ev s) n = pump_at s n"
  "pump_at (write_ack m q s) n = pump_at s n" "pump_at (finish_entry m s) n = pump_at s n"
  "pump_at (reap_child i s) n = pump_at s n" "pump_at (tear_down i e s) n = pump_at s n"
  "pump_at (sessions_delete i s) n = pump_at s n"
  "pump_at (pump_update m g s) n = (if n = m then map_option g (pump_at s m) else pump_at s n)"
  by (auto simp: pump_at_def update_db_def update_host_def mark_failed_def mark_crashed_def kill_host_def push_event_def
      write_ack_def finish_entry_def reap_child_def tear_down_def Let_def sessions_delete_def pump_update_def map_of_mapped option.map_ident
      split: option.split)

lemma sp_count_simps [simp]:
  "sp_count (update_db f s) = sp_count s" "sp_count (update_host i pid sock st s) = sp_count s"
  "sp_count (mark_failed i s) = sp_count s" "sp_count (mark_crashed i t s) = sp_count s"
  "sp_count (kill_host pid s) = sp_count s" "sp_count (push_event m ev s) = sp_count s"
  "sp_count (write_ack m q s) = sp_count s" "sp_count (finish_entry m s) = sp_count s"
  "sp_count (reap_child i s) = sp_count s" "sp_count (tear_down i e s) = sp_count s"
  "sp_count (sessions_delete i s) = sp_count s" "sp_count (pump_update m g s) = sp_count s"
  "sp_count (attach sid wa chat cookie mode sock child pack wm s) = Suc (sp_count s)"
  by (auto simp: update_db_def update_host_def mark_failed_def mark_crashed_def kill_host_def push_event_def
      write_ack_def finish_entry_def reap_child_def tear_down_def Let_def sessions_delete_def pump_update_def attach_def
      split: option.split)

lemma pump_at_attach [simp]:
  "pump_at (attach sid wa chat cookie mode sock child pack wm s) n =
     (case pump_at s n of Some p \<Rightarrow> Some p
      | None \<Rightarrow> if n = sp_count s
                then Some \<lparr>rp_session = sid, rp_reading = True, rp_watermark = wm, rp_bytes_since_ack = 0, rp_last_sent = 0,
                       rp_last_persisted = 0, rp_resolver = new_resolver mode (bypass_for_session (sp_db s) sid), rp_from = wm, rp_seen = []\<rparr>
                else None)"
  by (auto simp: pump_at_def attach_def map_add_def split: option.split)

text \<open>The number of a session's entry and whether it is finished.\<close>

definition seat :: "supervision \<Rightarrow> string \<Rightarrow> (nat \<times> bool) option" where
  "seat s sid = map_option (\<lambda>e. (en_no e, en_finished e)) (entry_at s sid)"

lemma seat_simps [simp]:
  "seat (update_db f s) j = seat s j" "seat (update_host i pid sock st s) j = seat s j"
  "seat (mark_failed i s) j = seat s j" "seat (mark_crashed i t s) j = seat s j"
  "seat (kill_host pid s) j = seat s j" "seat (pump_update n g s) j = seat s j"
  "seat (write_ack n a s) j = seat s j" "seat (sessions_delete i s) j = seat s j"
  "seat (push_event n ev s) j = seat s j" "seat (reap_child i s) j = seat s j"
  "seat (finish_entry n s) j = map_option (\<lambda>(m, f). (m, f \<or> m = n)) (seat s j)"
  "seat (tear_down i e s) j = (if j = i then None else seat s j)"
  "seat (attach sid wa chat cookie mode sock child pack wm s) j = (if j = sid then Some (sp_count s, False) else seat s j)"
  by (auto simp: seat_def option.map_comp comp_def intro!: option.map_cong0 split: if_splits)

section \<open>The steps\<close>

text \<open>
  A session is unattended when nothing of the supervisor works on it: no entry that is not finished,
  no pump and no launch. The relation has the steps of a Core that is asked to resume only unattended
  sessions and to delete none that is just being launched; what happens otherwise is stated below.
\<close>

definition unattended :: "string \<Rightarrow> supervision \<times> launch list \<Rightarrow> bool" where
  "unattended sid = (\<lambda>(s, ls). (\<forall>n f. seat s sid = Some (n, f) \<longrightarrow> f)
     \<and> (\<forall>n p. pump_at s n = Some p \<longrightarrow> rp_session p \<noteq> sid) \<and> sid \<notin> la_session ` set ls)"

inductive session_step :: "supervisor_env \<Rightarrow> (bytes \<Rightarrow> string) \<Rightarrow> supervision \<times> launch list \<Rightarrow> supervision \<times> launch list \<Rightarrow> bool"
  for env lossy where
  starts: "start_begin env sid chat cookie now req d s = (res, s') \<Longrightarrow> unattended sid (s, ls) \<Longrightarrow> seat s sid = None \<Longrightarrow>
     session_step env lossy (s, ls) (s', case res of Inr la \<Rightarrow> la # ls | Inl e \<Rightarrow> ls)"
| resumes: "cold_resume_begin env sid cookie d s = (res, s') \<Longrightarrow> unattended sid (s, ls) \<Longrightarrow>
     session_step env lossy (s, ls) (s', case res of Inr la \<Rightarrow> la # ls | Inl e \<Rightarrow> ls)"
| shakes: "session_step env lossy (s, ls @ la # ls') (snd (launch_done env la h s), ls @ ls')"
| reads: "session_step env lossy (s, ls) (pump_frame lossy n now f s, ls)"
| breaks: "session_step env lossy (s, ls) (pump_eof n s, ls)"
| flushes: "session_step env lossy (s, ls) (pump_flush n s, ls)"
| sends: "session_step env lossy (s, ls) (ack_send_tick n s, ls)"
| persists: "session_step env lossy (s, ls) (ack_persist_tick n s, ls)"
| stops: "session_step env lossy (s, ls) (snd (stop_session sid now s), ls)"
| deletes: "sid \<notin> la_session ` set ls \<Longrightarrow> session_step env lossy (s, ls) (snd (delete_session sid s), ls)"
| boots: "adopt_orphans env version greet now (Some socks) final attempt (restart_core s) = (k, s') \<Longrightarrow> distinct socks \<Longrightarrow>
     session_step env lossy (s, ls) (s', [])"

text \<open>
  The states of a Core: its first start over some database whose rows have known modes, then steps.
  A start at which the runtime directory cannot be listed is not among them.
\<close>

definition row_ids :: "supervision \<Rightarrow> string list" where
  "row_ids s = map fst (db_sessions (sp_db s))"

definition runs :: "session_row \<Rightarrow> bool" where
  "runs r \<longleftrightarrow> s_ended_at r = None \<and> s_status r = ''running''"

definition entries_ok :: "supervision \<Rightarrow> bool" where
  "entries_ok s \<longleftrightarrow>
     (\<forall>sid n f. seat s sid = Some (n, f) \<longrightarrow> n < sp_count s \<and> (\<exists>r. row_at s sid = Some r \<and> (if f then s_ended_at r \<noteq> None else runs r)))
   \<and> (\<forall>sid r. row_at s sid = Some r \<longrightarrow> runs r \<longrightarrow> seat s sid \<noteq> None)
   \<and> (\<forall>sid sid' n f f'. seat s sid = Some (n, f) \<longrightarrow> seat s sid' = Some (n, f') \<longrightarrow> sid = sid')"

definition pumps_ok :: "supervision \<Rightarrow> bool" where
  "pumps_ok s \<longleftrightarrow>
     (\<forall>n p. pump_at s n = Some p \<longrightarrow> n < sp_count s
        \<and> (\<forall>m f. seat s (rp_session p) = Some (m, f) \<longrightarrow> m = n)
        \<and> (\<forall>r. row_at s (rp_session p) = Some r \<longrightarrow> s_last_acked_seq r \<le> int (rp_watermark p))
        \<and> rp_watermark p = fold max (rp_seen p) (rp_from p)
        \<and> (\<forall>a. (n, a) \<in> set (sp_acks s) \<longrightarrow> a \<le> rp_watermark p))
   \<and> (\<forall>sid n f p. seat s sid = Some (n, f) \<longrightarrow> pump_at s n = Some p \<longrightarrow> rp_session p = sid)
   \<and> (\<forall>n m p q. pump_at s n = Some p \<longrightarrow> pump_at s m = Some q \<longrightarrow> rp_session p = rp_session q \<longrightarrow> n = m)
   \<and> (\<forall>n a. (n, a) \<in> set (sp_acks s) \<longrightarrow> n < sp_count s)"

definition launches_ok :: "supervision \<times> launch list \<Rightarrow> bool" where
  "launches_ok = (\<lambda>(s, ls). distinct (map la_session ls) \<and>
     (\<forall>la\<in>set ls. seat s (la_session la) = None \<and> (\<forall>n p. pump_at s n = Some p \<longrightarrow> rp_session p \<noteq> la_session la)
        \<and> (\<exists>m. parse_permission_mode (la_permission_mode la) = Inr m)
        \<and> (\<exists>r. row_at s (la_session la) = Some r \<and> s_ended_at r = None \<and> s_status r = ''starting'' \<and> s_last_acked_seq r \<le> 0)))"

definition modes_ok :: "supervision \<Rightarrow> bool" where
  "modes_ok s \<longleftrightarrow> (\<forall>sid r. row_at s sid = Some r \<longrightarrow> (\<exists>m. parse_permission_mode (row_mode r) = Inr m))"

inductive supervised :: "supervisor_env \<Rightarrow> (bytes \<Rightarrow> string) \<Rightarrow> supervision \<times> launch list \<Rightarrow> bool"
  for env lossy where
  powers_on: "sp_entries s = [] \<Longrightarrow> sp_pumps s = [] \<Longrightarrow> sp_acks s = [] \<Longrightarrow> distinct (row_ids s) \<Longrightarrow> modes_ok s \<Longrightarrow>
     adopt_orphans env version greet now (Some socks) final attempt s = (k, s') \<Longrightarrow> distinct socks \<Longrightarrow>
     supervised env lossy (s', [])"
| goes_on: "supervised env lossy st \<Longrightarrow> session_step env lossy st st' \<Longrightarrow> supervised env lossy st'"

definition life_inv :: "supervision \<times> launch list \<Rightarrow> bool" where
  "life_inv st \<longleftrightarrow> entries_ok (fst st) \<and> pumps_ok (fst st) \<and> launches_ok st \<and> modes_ok (fst st)"

lemma row_mode_simps [simp]:
  "row_mode (r\<lparr>s_status := st\<rparr>) = row_mode r" "row_mode (r\<lparr>s_ended_at := t\<rparr>) = row_mode r"
  "row_mode (r\<lparr>s_last_acked_seq := q\<rparr>) = row_mode r" "row_mode (r\<lparr>s_ended_at := t, s_status := st\<rparr>) = row_mode r"
  by (simp_all add: row_mode_def)

lemma runs_simps [simp]:
  "runs (r\<lparr>s_last_acked_seq := q\<rparr>) = runs r" "\<not> runs (r\<lparr>s_ended_at := Some t, s_status := ''finished''\<rparr>)"
  "\<not> runs (r\<lparr>s_status := ''crashed''\<rparr>)" "runs (r\<lparr>s_status := ''running''\<rparr>) \<longleftrightarrow> s_ended_at r = None"
  by (simp_all add: runs_def)

lemma update_watermark_max: "update_watermark seq wm = max seq wm"
  by (simp add: update_watermark_def max_def)

lemma fold_max_append: "fold max (xs @ [x]) a = max x (fold max xs a)"
  by simp

lemma sp_acks_simps [simp]:
  "sp_acks (update_db f s) = sp_acks s" "sp_acks (update_host i pid sock st s) = sp_acks s"
  "sp_acks (mark_failed i s) = sp_acks s" "sp_acks (mark_crashed i t s) = sp_acks s"
  "sp_acks (kill_host pid s) = sp_acks s" "sp_acks (push_event m ev s) = sp_acks s"
  "sp_acks (write_ack m a s) = sp_acks s @ [(m, a)]" "sp_acks (finish_entry m s) = sp_acks s"
  "sp_acks (reap_child i s) = sp_acks s" "sp_acks (tear_down i e s) = sp_acks s"
  "sp_acks (sessions_delete i s) = sp_acks s" "sp_acks (pump_update m g s) = sp_acks s"
  "sp_acks (attach sid wa chat cookie mode sock child pack wm s) = sp_acks s"
  by (auto simp: update_db_def update_host_def mark_failed_def mark_crashed_def kill_host_def push_event_def
      write_ack_def finish_entry_def reap_child_def tear_down_def Let_def sessions_delete_def pump_update_def attach_def
      split: option.split)

lemma sp_count_write [simp]: "sp_count (write_ack n a s) = sp_count s"
  by (simp add: write_ack_def)

lemma life_invD: "life_inv (s, ls) \<Longrightarrow> entries_ok s \<and> pumps_ok s \<and> launches_ok (s, ls) \<and> modes_ok s"
  by (simp add: life_inv_def)

lemma entries_okD:
  assumes "entries_ok s"
  shows "seat s sid = Some (n, f) \<Longrightarrow> n < sp_count s" "seat s sid = Some (n, f) \<Longrightarrow> \<exists>r. row_at s sid = Some r \<and> (if f then s_ended_at r \<noteq> None else runs r)"
    "row_at s sid = Some r \<Longrightarrow> runs r \<Longrightarrow> seat s sid \<noteq> None"
    "seat s sid = Some (n, f) \<Longrightarrow> seat s sid' = Some (n, f') \<Longrightarrow> sid = sid'"
  using assms unfolding entries_ok_def by blast+

lemma pumps_okD:
  assumes "pumps_ok s" and "pump_at s n = Some p"
  shows "n < sp_count s" "seat s (rp_session p) = Some (m, f) \<Longrightarrow> m = n"
    "row_at s (rp_session p) = Some r \<Longrightarrow> s_last_acked_seq r \<le> int (rp_watermark p)"
    "rp_watermark p = fold max (rp_seen p) (rp_from p)" "(n, a) \<in> set (sp_acks s) \<Longrightarrow> a \<le> rp_watermark p"
    "seat s sid = Some (n, f) \<Longrightarrow> rp_session p = sid" "pump_at s m = Some q \<Longrightarrow> rp_session p = rp_session q \<Longrightarrow> n = m"
  using assms unfolding pumps_ok_def by blast+

text \<open>A step that changes the row and the entry of one session only.\<close>

lemma life_inv_local:
  assumes inv: "life_inv (s, ls)" and count: "sp_count s' = sp_count s"
    and others: "\<And>j. j \<noteq> sid \<Longrightarrow> row_at s' j = row_at s j" "\<And>j. j \<noteq> sid \<Longrightarrow> seat s' j = seat s j"
    and seat: "\<And>n f. seat s' sid = Some (n, f) \<Longrightarrow> (\<exists>f'. seat s sid = Some (n, f')) \<and> (\<exists>r. row_at s' sid = Some r \<and> (if f then s_ended_at r \<noteq> None else runs r))"
    and row: "\<And>r. row_at s' sid = Some r \<Longrightarrow> (runs r \<longrightarrow> seat s' sid \<noteq> None) \<and> (\<exists>r0. row_at s sid = Some r0 \<and> row_mode r = row_mode r0)
        \<and> (\<forall>n p. pump_at s' n = Some p \<longrightarrow> rp_session p = sid \<longrightarrow> s_last_acked_seq r \<le> int (rp_watermark p))"
    and launch: "sid \<notin> la_session ` set ls \<or> row_at s' sid = row_at s sid \<and> seat s' sid = seat s sid"
    and pumps: "\<And>n p'. pump_at s' n = Some p' \<Longrightarrow> \<exists>p. pump_at s n = Some p \<and> rp_session p' = rp_session p
        \<and> rp_watermark p \<le> rp_watermark p' \<and> rp_watermark p' = fold max (rp_seen p') (rp_from p')
        \<and> (\<forall>a. (n, a) \<in> set (sp_acks s') \<longrightarrow> (n, a) \<in> set (sp_acks s) \<or> a \<le> rp_watermark p')"
    and acks: "\<And>n a. (n, a) \<in> set (sp_acks s') \<Longrightarrow> n < sp_count s"
  shows "life_inv (s', ls)"
proof -
  note D = life_invD [OF inv]
  then have eok: "entries_ok s" and pok: "pumps_ok s" and lok: "launches_ok (s, ls)" and mok: "modes_ok s" by blast+
  have seat_old: "\<exists>f'. seat s j = Some (n, f')" if "seat s' j = Some (n, f)" for j n f
    using that others(2) [of j] seat by (cases "j = sid") auto
  have "entries_ok s'"
    unfolding entries_ok_def
  proof (intro conjI allI impI)
    fix j n f assume j: "seat s' j = Some (n, f)"
    show "n < sp_count s'" using seat_old [OF j] entries_okD(1) [OF eok] count by auto
    show "\<exists>r. row_at s' j = Some r \<and> (if f then s_ended_at r \<noteq> None else runs r)"
      using j seat others entries_okD(2) [OF eok] by (cases "j = sid") auto
  next
    fix j r assume "row_at s' j = Some r" "runs r"
    then show "seat s' j \<noteq> None" using row others entries_okD(3) [OF eok] by (cases "j = sid") auto
  next
    fix j j' n f f' assume "seat s' j = Some (n, f)" "seat s' j' = Some (n, f')"
    then show "j = j'" using seat_old entries_okD(4) [OF eok] by blast
  qed
  moreover have "modes_ok s'"
    unfolding modes_ok_def
  proof (intro allI impI)
    fix j r assume r: "row_at s' j = Some r"
    obtain r0 where "row_at s j = Some r0" "row_mode r = row_mode r0" using r row others(1) by (cases "j = sid") auto
    then show "\<exists>m. parse_permission_mode (row_mode r) = Inr m" using mok by (auto simp: modes_ok_def)
  qed
  moreover have "pumps_ok s'"
    unfolding pumps_ok_def
  proof (intro conjI allI impI)
    fix n p' assume p': "pump_at s' n = Some p'"
    obtain p where p: "pump_at s n = Some p" "rp_session p' = rp_session p" "rp_watermark p \<le> rp_watermark p'"
        "rp_watermark p' = fold max (rp_seen p') (rp_from p')"
        "\<forall>a. (n, a) \<in> set (sp_acks s') \<longrightarrow> (n, a) \<in> set (sp_acks s) \<or> a \<le> rp_watermark p'"
      using pumps [OF p'] by blast
    note ok = pumps_okD [OF pok p(1)]
    show "n < sp_count s'" using ok(1) count by simp
    show "m = n" if "seat s' (rp_session p') = Some (m, f)" for m f using ok(2) seat_old [OF that] p(2) by auto
    show "s_last_acked_seq r \<le> int (rp_watermark p')" if r: "row_at s' (rp_session p') = Some r" for r
    proof (cases "rp_session p' = sid")
      case True
      then show ?thesis using row r p' by blast
    next
      case False
      then have "s_last_acked_seq r \<le> int (rp_watermark p)" using ok(3) r others(1) p(2) by simp
      then show ?thesis using p(3) by linarith
    qed
    show "rp_watermark p' = fold max (rp_seen p') (rp_from p')" by (rule p(4))
    show "a \<le> rp_watermark p'" if "(n, a) \<in> set (sp_acks s')" for a
    proof -
      have "(n, a) \<in> set (sp_acks s) \<or> a \<le> rp_watermark p'" using p(5) that by blast
      then show ?thesis using ok(5) [of a] le_trans [OF _ p(3)] by blast
    qed
  next
    fix j n f p' assume e: "seat s' j = Some (n, f)" and p': "pump_at s' n = Some p'"
    obtain p where p: "pump_at s n = Some p" "rp_session p' = rp_session p" using pumps [OF p'] by blast
    show "rp_session p' = j" using seat_old [OF e] pumps_okD(6) [OF pok p(1)] p(2) by auto
  next
    fix n m p' q' assume p': "pump_at s' n = Some p'" and q': "pump_at s' m = Some q'" and eq: "rp_session p' = rp_session q'"
    obtain p q where "pump_at s n = Some p" "rp_session p' = rp_session p" "pump_at s m = Some q" "rp_session q' = rp_session q"
      using pumps [OF p'] pumps [OF q'] by blast
    then show "n = m" using pumps_okD(7) [OF pok] eq by metis
  next
    fix n a assume "(n, a) \<in> set (sp_acks s')"
    then show "n < sp_count s'" using acks count by simp
  qed
  moreover have "launches_ok (s', ls)"
    unfolding launches_ok_def prod.case
  proof (intro conjI ballI)
    show "distinct (map la_session ls)" using lok by (simp add: launches_ok_def)
    fix la assume la: "la \<in> set ls"
    have old: "seat s (la_session la) = None" "\<forall>n p. pump_at s n = Some p \<longrightarrow> rp_session p \<noteq> la_session la"
      "\<exists>m. parse_permission_mode (la_permission_mode la) = Inr m"
      "\<exists>r. row_at s (la_session la) = Some r \<and> s_ended_at r = None \<and> s_status r = ''starting'' \<and> s_last_acked_seq r \<le> 0"
      using lok la by (auto simp: launches_ok_def)
    have same: "row_at s' (la_session la) = row_at s (la_session la)" "seat s' (la_session la) = seat s (la_session la)"
      using launch others la by (cases "la_session la = sid"; force)+
    show "seat s' (la_session la) = None" using old(1) same by simp
    show "\<forall>n p. pump_at s' n = Some p \<longrightarrow> rp_session p \<noteq> la_session la" using old(2) pumps by metis
    show "\<exists>m. parse_permission_mode (la_permission_mode la) = Inr m" by (rule old(3))
    show "\<exists>r. row_at s' (la_session la) = Some r \<and> s_ended_at r = None \<and> s_status r = ''starting'' \<and> s_last_acked_seq r \<le> 0"
      using old(4) same by simp
  qed
  ultimately show ?thesis by (simp add: life_inv_def)
qed

text \<open>A step that changes the pumps only.\<close>

lemma life_inv_pumps:
  assumes inv: "life_inv (s, ls)" and count: "sp_count s' = sp_count s"
    and same: "\<And>j. row_at s' j = row_at s j" "\<And>j. seat s' j = seat s j"
    and pumps: "\<And>n p'. pump_at s' n = Some p' \<Longrightarrow> \<exists>p. pump_at s n = Some p \<and> rp_session p' = rp_session p
        \<and> rp_watermark p \<le> rp_watermark p' \<and> rp_watermark p' = fold max (rp_seen p') (rp_from p')
        \<and> (\<forall>a. (n, a) \<in> set (sp_acks s') \<longrightarrow> (n, a) \<in> set (sp_acks s) \<or> a \<le> rp_watermark p')"
    and acks: "\<And>n a. (n, a) \<in> set (sp_acks s') \<Longrightarrow> n < sp_count s"
  shows "life_inv (s', ls)"
proof (rule life_inv_local [OF inv count, where sid = "[]"])
  have eok: "entries_ok s" and pok: "pumps_ok s" using life_invD [OF inv] by blast+
  show "(\<exists>f'. seat s [] = Some (n, f')) \<and> (\<exists>r. row_at s' [] = Some r \<and> (if f then s_ended_at r \<noteq> None else runs r))"
    if "seat s' [] = Some (n, f)" for n f using that entries_okD(2) [OF eok] by (auto simp: same)
  show "(runs r \<longrightarrow> seat s' [] \<noteq> None) \<and> (\<exists>r0. row_at s [] = Some r0 \<and> row_mode r = row_mode r0)
      \<and> (\<forall>n p. pump_at s' n = Some p \<longrightarrow> rp_session p = [] \<longrightarrow> s_last_acked_seq r \<le> int (rp_watermark p))"
    if r: "row_at s' [] = Some r" for r
  proof (intro conjI allI impI)
    show "seat s' [] \<noteq> None" if "runs r" using r that entries_okD(3) [OF eok] by (simp add: same)
    show "\<exists>r0. row_at s [] = Some r0 \<and> row_mode r = row_mode r0" using r by (simp add: same)
    fix n p' assume p': "pump_at s' n = Some p'" and sid: "rp_session p' = []"
    obtain p where p: "pump_at s n = Some p" "rp_session p' = rp_session p" "rp_watermark p \<le> rp_watermark p'"
      using pumps [OF p'] by blast
    have "s_last_acked_seq r \<le> int (rp_watermark p)" using pumps_okD(3) [OF pok p(1)] r sid p(2) by (simp add: same)
    then show "s_last_acked_seq r \<le> int (rp_watermark p')" using p(3) by linarith
  qed
qed (use same pumps acks in auto)

lemma life_acks: "life_inv (s, ls) \<Longrightarrow> (n, a) \<in> set (sp_acks s) \<Longrightarrow> n < sp_count s"
  by (auto simp: life_inv_def pumps_ok_def)

lemma life_pump: "life_inv (s, ls) \<Longrightarrow> pump_at s n = Some p \<Longrightarrow> n < sp_count s"
  by (simp add: life_inv_def pumps_ok_def)

lemma life_watermark: "life_inv (s, ls) \<Longrightarrow> pump_at s n = Some p \<Longrightarrow> rp_watermark p = fold max (rp_seen p) (rp_from p)"
  by (simp add: life_inv_def pumps_ok_def)

lemma life_stdout: "life_inv (s, ls) \<Longrightarrow> pump_at s n = Some p \<Longrightarrow> life_inv (pump_stdout n seq data p s, ls)"
  by (rule life_inv_pumps [of s])
    (auto simp: pump_stdout_def Let_def update_watermark_max life_watermark dest: life_acks life_pump split: if_splits)

lemma life_send: "life_inv (s, ls) \<Longrightarrow> life_inv (ack_send_tick n s, ls)"
proof (cases "pump_at s n")
  case (Some p)
  assume inv: "life_inv (s, ls)"
  show ?thesis
  proof (cases "rp_reading p \<and> rp_last_sent p < rp_watermark p")
    case True
    then have eq: "ack_send_tick n s = write_ack n (rp_watermark p) (pump_update n (\<lambda>p. p\<lparr>rp_last_sent := rp_watermark p\<rparr>) s)"
      using Some by (simp add: ack_send_tick_def pump_at_def)
    show ?thesis unfolding eq using inv Some
      by (intro life_inv_pumps [OF inv]) (auto simp: life_watermark dest: life_acks life_pump split: if_splits)
  next
    case False
    then have "ack_send_tick n s = s" using Some by (auto simp: ack_send_tick_def pump_at_def)
    then show ?thesis using inv by simp
  qed
qed (simp add: ack_send_tick_def pump_at_def)

lemma life_breaks: "life_inv (s, ls) \<Longrightarrow> life_inv (pump_eof n s, ls)"
  unfolding pump_eof_def by (rule life_inv_pumps [of s]) (auto simp: life_watermark dest: life_acks life_pump split: if_splits)

lemma life_stderr:
  "life_inv (s, ls) \<Longrightarrow> pump_at s n = Some p \<Longrightarrow>
     life_inv (push_event n ev (pump_update n (\<lambda>p. p\<lparr>rp_watermark := update_watermark seq (rp_watermark p), rp_seen := rp_seen p @ [seq]\<rparr>) s), ls)"
  by (rule life_inv_pumps [of s]) (auto simp: update_watermark_max life_watermark dest: life_acks life_pump split: if_splits)

text \<open>The pump of a session that a launch works on does not exist; its entry has the pump's number.\<close>

lemma pump_facts:
  assumes inv: "life_inv (s, ls)" and p: "pump_at s n = Some p"
  shows "rp_session p \<notin> la_session ` set ls" "seat s j = Some (n, f) \<Longrightarrow> j = rp_session p" "seat s (rp_session p) = Some (m, f) \<Longrightarrow> m = n"
proof -
  have pok: "pumps_ok s" and lok: "launches_ok (s, ls)" using life_invD [OF inv] by blast+
  show "rp_session p \<notin> la_session ` set ls" using lok p unfolding launches_ok_def by fastforce
  show "j = rp_session p" if "seat s j = Some (n, f)" using pumps_okD(6) [OF pok p that] by simp
  show "m = n" if "seat s (rp_session p) = Some (m, f)" by (rule pumps_okD(2) [OF pok p that])
qed

lemma life_exited:
  assumes inv: "life_inv (s, ls)" and p: "pump_at s n = Some p"
  shows "life_inv (pump_exited n now code sig p s, ls)"
proof (rule life_inv_local [OF inv, where sid = "rp_session p"])
  have eok: "entries_ok s" and pok: "pumps_ok s" using life_invD [OF inv] by blast+
  note fact = pump_facts [OF inv p]
  show "seat (pump_exited n now code sig p s) j = seat s j" if "j \<noteq> rp_session p" for j
    using fact(2) [of j] that by (cases "seat s j") (auto simp: pump_exited_def)
  show "(\<exists>f'. seat s (rp_session p) = Some (k, f'))
      \<and> (\<exists>r. row_at (pump_exited n now code sig p s) (rp_session p) = Some r \<and> (if f then s_ended_at r \<noteq> None else runs r))"
    if k: "seat (pump_exited n now code sig p s) (rp_session p) = Some (k, f)" for k f
  proof -
    obtain g where old: "seat s (rp_session p) = Some (k, g)" and f: "f \<longleftrightarrow> g \<or> k = n" using k by (auto simp: pump_exited_def)
    have "k = n" using fact(3) [OF old] .
    moreover obtain r where "row_at s (rp_session p) = Some r" using entries_okD(2) [OF eok old] by blast
    ultimately show ?thesis using old f by (simp add: pump_exited_def)
  qed
  show "(runs r \<longrightarrow> seat (pump_exited n now code sig p s) (rp_session p) \<noteq> None) \<and> (\<exists>r0. row_at s (rp_session p) = Some r0 \<and> row_mode r = row_mode r0)
      \<and> (\<forall>m q. pump_at (pump_exited n now code sig p s) m = Some q \<longrightarrow> rp_session q = rp_session p \<longrightarrow> s_last_acked_seq r \<le> int (rp_watermark q))"
    if "row_at (pump_exited n now code sig p s) (rp_session p) = Some r" for r
    using that p pumps_okD(3) [OF pok] by (fastforce simp: pump_exited_def split: if_splits)
  show "\<exists>q. pump_at s m = Some q \<and> rp_session q' = rp_session q \<and> rp_watermark q \<le> rp_watermark q' \<and> rp_watermark q' = fold max (rp_seen q') (rp_from q')
      \<and> (\<forall>a. (m, a) \<in> set (sp_acks (pump_exited n now code sig p s)) \<longrightarrow> (m, a) \<in> set (sp_acks s) \<or> a \<le> rp_watermark q')"
    if "pump_at (pump_exited n now code sig p s) m = Some q'" for m q'
    using that p life_watermark [OF inv] by (auto simp: pump_exited_def split: if_splits)
  show "rp_session p \<notin> la_session ` set ls \<or> row_at (pump_exited n now code sig p s) (rp_session p) = row_at s (rp_session p)
      \<and> seat (pump_exited n now code sig p s) (rp_session p) = seat s (rp_session p)" using fact(1) by blast
qed (auto simp: pump_exited_def dest: life_acks [OF inv])

lemma life_reads: "life_inv (s, ls) \<Longrightarrow> life_inv (pump_frame lossy n now f s, ls)"
proof (cases "pump_at s n")
  case (Some p)
  assume inv: "life_inv (s, ls)"
  show ?thesis
    using inv life_stdout [OF inv Some] life_stderr [OF inv Some] life_exited [OF inv Some] Some
    by (cases f) (auto simp: pump_frame_def pump_at_def)
qed (simp add: pump_frame_def pump_at_def)

lemma life_persists: "life_inv (s, ls) \<Longrightarrow> life_inv (ack_persist_tick n s, ls)"
proof (cases "pump_at s n")
  case (Some p)
  assume inv: "life_inv (s, ls)"
  have eok: "entries_ok s" and pok: "pumps_ok s" using life_invD [OF inv] by blast+
  show ?thesis
  proof (cases "rp_reading p \<and> rp_last_persisted p < rp_watermark p")
    case True
    then have eq: "ack_persist_tick n s = update_db (sessions_update_last_acked (rp_session p) (int (rp_watermark p)))
        (pump_update n (\<lambda>p. p\<lparr>rp_last_persisted := rp_watermark p\<rparr>) s)"
      using Some by (simp add: ack_persist_tick_def pump_at_def)
    show ?thesis unfolding eq
    proof (rule life_inv_local [OF inv, where sid = "rp_session p"])
      fix r
      let ?s' = "update_db (sessions_update_last_acked (rp_session p) (int (rp_watermark p)))
        (pump_update n (\<lambda>p. p\<lparr>rp_last_persisted := rp_watermark p\<rparr>) s)"
      assume r: "row_at ?s' (rp_session p) = Some r"
      have only: "m = n" if "pump_at s m = Some q" "rp_session q = rp_session p" for m q
        using pumps_okD(7) [OF pok that(1) Some that(2)] .
      obtain r0 where r0: "row_at s (rp_session p) = Some r0" "r = r0\<lparr>s_last_acked_seq := int (rp_watermark p)\<rparr>" using r by auto
      have "seat s (rp_session p) \<noteq> None" if "runs r" using entries_okD(3) [OF eok r0(1)] that r0(2) by simp
      moreover have "s_last_acked_seq r \<le> int (rp_watermark q)" if "pump_at ?s' m = Some q" "rp_session q = rp_session p" for m q
      proof -
        have "\<exists>q0. pump_at s m = Some q0 \<and> rp_session q0 = rp_session q \<and> rp_watermark q0 = rp_watermark q"
        proof (cases "m = n")
          case True
          then show ?thesis using that(1) Some by auto
        next
          case False
          then show ?thesis using that(1) by simp
        qed
        then obtain q0 where q0: "pump_at s m = Some q0" "rp_session q0 = rp_session q" "rp_watermark q0 = rp_watermark q" by blast
        have "m = n" using only q0(1,2) that(2) by simp
        then show ?thesis using q0 Some r0(2) by simp
      qed
      ultimately show "(runs r \<longrightarrow> seat ?s' (rp_session p) \<noteq> None) \<and> (\<exists>r0. row_at s (rp_session p) = Some r0 \<and> row_mode r = row_mode r0)
        \<and> (\<forall>m q. pump_at ?s' m = Some q \<longrightarrow> rp_session q = rp_session p \<longrightarrow> s_last_acked_seq r \<le> int (rp_watermark q))"
        using r0 by auto
    next
      fix k f
      let ?s' = "update_db (sessions_update_last_acked (rp_session p) (int (rp_watermark p)))
        (pump_update n (\<lambda>p. p\<lparr>rp_last_persisted := rp_watermark p\<rparr>) s)"
      assume "seat ?s' (rp_session p) = Some (k, f)"
      then have old: "seat s (rp_session p) = Some (k, f)" by simp
      show "(\<exists>f'. seat s (rp_session p) = Some (k, f')) \<and> (\<exists>r. row_at ?s' (rp_session p) = Some r \<and> (if f then s_ended_at r \<noteq> None else runs r))"
        using entries_okD(2) [OF eok old] old by auto
    qed (use Some pump_facts(1) [OF inv Some] in \<open>auto simp: life_watermark [OF inv] dest: life_acks [OF inv] split: if_splits\<close>)
  next
    case False
    then have "ack_persist_tick n s = s" using Some by (auto simp: ack_persist_tick_def pump_at_def)
    then show ?thesis using inv by simp
  qed
qed (simp add: ack_persist_tick_def pump_at_def)

lemma life_flushes: "life_inv (s, ls) \<Longrightarrow> life_inv (pump_flush n s, ls)"
proof (cases "\<exists>p. pump_at s n = Some p \<and> \<not> rp_reading p")
  case True
  then obtain p where p: "pump_at s n = Some p" "\<not> rp_reading p" by blast
  assume inv: "life_inv (s, ls)"
  have eok: "entries_ok s" and pok: "pumps_ok s" using life_invD [OF inv] by blast+
  let ?s1 = "s\<lparr>sp_pumps := filter (\<lambda>(m, p). m \<noteq> n) (sp_pumps s)\<rparr>"
  have pumps1: "pump_at ?s1 m = (if m = n then None else pump_at s m)" for m
    by (simp add: pump_at_def map_of_key_filter)
  have same1: "row_at ?s1 j = row_at s j" "seat ?s1 j = seat s j" "sp_count ?s1 = sp_count s" "sp_acks ?s1 = sp_acks s" for j
    by (simp_all add: row_at_def seat_def entry_at_def)
  have inv1: "life_inv (?s1, ls)"
    by (rule life_inv_pumps [OF inv]) (auto simp: same1 pumps1 life_watermark [OF inv] dest: life_acks [OF inv] split: if_splits)
  have none: "rp_session q \<noteq> rp_session p" if "pump_at ?s1 m = Some q" for m q
    using that p(1) pumps_okD(7) [OF pok] by (auto simp: pumps1 split: if_splits)
  have inv2: "life_inv (update_db (sessions_update_last_acked (rp_session p) (int (rp_watermark p))) ?s1, ls)"
  proof (rule life_inv_local [OF inv1, where sid = "rp_session p"])
    let ?s' = "update_db (sessions_update_last_acked (rp_session p) (int (rp_watermark p))) ?s1"
    show "(runs r \<longrightarrow> seat ?s' (rp_session p) \<noteq> None) \<and> (\<exists>r0. row_at ?s1 (rp_session p) = Some r0 \<and> row_mode r = row_mode r0)
        \<and> (\<forall>m q. pump_at ?s' m = Some q \<longrightarrow> rp_session q = rp_session p \<longrightarrow> s_last_acked_seq r \<le> int (rp_watermark q))"
      if r: "row_at ?s' (rp_session p) = Some r" for r
    proof -
      obtain r0 where r0: "row_at s (rp_session p) = Some r0" "r = r0\<lparr>s_last_acked_seq := int (rp_watermark p)\<rparr>"
        using r by (auto simp: same1)
      have "seat s (rp_session p) \<noteq> None" if "runs r" using entries_okD(3) [OF eok r0(1)] that r0(2) by simp
      then show ?thesis using r0 none by (auto simp: same1)
    qed
    show "(\<exists>f'. seat ?s1 (rp_session p) = Some (k, f')) \<and> (\<exists>r. row_at ?s' (rp_session p) = Some r \<and> (if f then s_ended_at r \<noteq> None else runs r))"
      if "seat ?s' (rp_session p) = Some (k, f)" for k f
    proof -
      have old: "seat s (rp_session p) = Some (k, f)" using that by (simp add: same1)
      show ?thesis using entries_okD(2) [OF eok old] old by (auto simp: same1)
    qed
  qed (use pump_facts(1) [OF inv p(1)] in \<open>auto simp: life_watermark [OF inv1] same1 dest: life_acks [OF inv]\<close>)
  show ?thesis using inv1 inv2 p by (simp add: pump_flush_def pump_at_def Let_def)
next
  case False
  assume "life_inv (s, ls)"
  moreover have "pump_flush n s = s" using False by (auto simp: pump_flush_def pump_at_def split: option.split)
  ultimately show ?thesis by simp
qed

lemma seat_entry: "entry_at s sid = Some e \<Longrightarrow> seat s sid = Some (en_no e, en_finished e)"
  by (simp add: seat_def)

lemma seat_launch: "life_inv (s, ls) \<Longrightarrow> seat s sid = Some x \<Longrightarrow> sid \<notin> la_session ` set ls"
  using life_invD [of s ls] by (auto simp: launches_ok_def)

lemma life_stops: "life_inv (s, ls) \<Longrightarrow> life_inv (snd (stop_session sid now s), ls)"
proof (cases "entry_at s sid")
  case (Some e)
  assume inv: "life_inv (s, ls)"
  have eok: "entries_ok s" and pok: "pumps_ok s" using life_invD [OF inv] by blast+
  let ?s' = "push_event (en_no e) (EvExited sid None None) (update_db (sessions_mark_ended sid now) (tear_down sid e s))"
  have eq: "snd (stop_session sid now s) = ?s'" using Some by (simp add: stop_session_def entry_at_def)
  show ?thesis unfolding eq
  proof (rule life_inv_local [OF inv, where sid = sid])
    show "(runs r \<longrightarrow> seat ?s' sid \<noteq> None) \<and> (\<exists>r0. row_at s sid = Some r0 \<and> row_mode r = row_mode r0)
        \<and> (\<forall>m q. pump_at ?s' m = Some q \<longrightarrow> rp_session q = sid \<longrightarrow> s_last_acked_seq r \<le> int (rp_watermark q))"
      if "row_at ?s' sid = Some r" for r
      using that pumps_okD(3) [OF pok] by fastforce
    show "sid \<notin> la_session ` set ls \<or> row_at ?s' sid = row_at s sid \<and> seat ?s' sid = seat s sid"
      using seat_launch [OF inv seat_entry [OF Some]] by blast
  qed (auto simp: life_watermark [OF inv] dest: life_acks [OF inv])
qed (simp add: stop_session_def entry_at_def)

lemma life_deletes:
  assumes inv: "life_inv (s, ls)" and "sid \<notin> la_session ` set ls"
  shows "life_inv (snd (delete_session sid s), ls)"
proof -
  obtain s1 where s1: "snd (delete_session sid s) = sessions_delete sid s1"
    and same: "\<And>j. row_at s1 j = row_at s j" "\<And>j. seat s1 j = (if j = sid then None else seat s j)"
      "\<And>n. pump_at s1 n = pump_at s n" "sp_count s1 = sp_count s" "sp_acks s1 = sp_acks s"
  proof (cases "entry_at s sid")
    case None
    then have "snd (delete_session sid s) = sessions_delete sid s" by (simp add: delete_session_def entry_at_def)
    then show ?thesis using None by (intro that) (auto simp: seat_def)
  next
    case (Some e)
    then have "snd (delete_session sid s) = sessions_delete sid (push_event (en_no e) (EvExited sid None None) (tear_down sid e s))"
      by (simp add: delete_session_def entry_at_def)
    then show ?thesis by (rule that) simp_all
  qed
  show ?thesis unfolding s1
    by (rule life_inv_local [OF inv, where sid = sid])
      (use assms(2) in \<open>auto simp: same life_watermark [OF inv] dest: life_acks [OF inv]\<close>)
qed

text \<open>
  The invariant with the running rows in \<open>X\<close> allowed to have no entry: the sweep at start-up works
  its way from all of them to none.
\<close>

definition settled_but :: "string set \<Rightarrow> supervision \<times> launch list \<Rightarrow> bool" where
  "settled_but X = (\<lambda>(s, ls).
     (\<forall>sid n f. seat s sid = Some (n, f) \<longrightarrow> n < sp_count s \<and> (\<exists>r. row_at s sid = Some r \<and> (if f then s_ended_at r \<noteq> None else runs r)))
   \<and> (\<forall>sid r. row_at s sid = Some r \<longrightarrow> runs r \<longrightarrow> sid \<notin> X \<longrightarrow> seat s sid \<noteq> None)
   \<and> (\<forall>sid sid' n f f'. seat s sid = Some (n, f) \<longrightarrow> seat s sid' = Some (n, f') \<longrightarrow> sid = sid')
   \<and> pumps_ok s \<and> launches_ok (s, ls) \<and> modes_ok s)"

lemma life_inv_settled: "life_inv st \<longleftrightarrow> settled_but {} st"
  by (cases st) (simp add: life_inv_def settled_but_def entries_ok_def)

lemma settled_butI:
  assumes "\<And>sid n f. seat s sid = Some (n, f) \<Longrightarrow> n < sp_count s \<and> (\<exists>r. row_at s sid = Some r \<and> (if f then s_ended_at r \<noteq> None else runs r))"
    and "\<And>sid r. row_at s sid = Some r \<Longrightarrow> runs r \<Longrightarrow> sid \<notin> X \<Longrightarrow> seat s sid \<noteq> None"
    and "\<And>sid sid' n f f'. seat s sid = Some (n, f) \<Longrightarrow> seat s sid' = Some (n, f') \<Longrightarrow> sid = sid'"
    and "pumps_ok s" "launches_ok (s, ls)" "modes_ok s"
  shows "settled_but X (s, ls)"
  unfolding settled_but_def prod.case using assms by blast

lemma settled_butD:
  assumes "settled_but X (s, ls)"
  shows "seat s sid = Some (n, f) \<Longrightarrow> n < sp_count s" "seat s sid = Some (n, f) \<Longrightarrow> \<exists>r. row_at s sid = Some r \<and> (if f then s_ended_at r \<noteq> None else runs r)"
    "row_at s sid = Some r \<Longrightarrow> runs r \<Longrightarrow> sid \<notin> X \<Longrightarrow> seat s sid \<noteq> None"
    "seat s sid = Some (n, f) \<Longrightarrow> seat s sid' = Some (n, f') \<Longrightarrow> sid = sid'"
    "pumps_ok s" "launches_ok (s, ls)" "modes_ok s"
  using assms unfolding settled_but_def prod.case by blast+

lemma launches_okD:
  assumes "launches_ok (s, ls)" and "la \<in> set ls"
  shows "seat s (la_session la) = None" "pump_at s n = Some p \<Longrightarrow> rp_session p \<noteq> la_session la"
    "\<exists>m. parse_permission_mode (la_permission_mode la) = Inr m"
    "\<exists>r. row_at s (la_session la) = Some r \<and> s_ended_at r = None \<and> s_status r = ''starting'' \<and> s_last_acked_seq r \<le> 0"
  using assms unfolding launches_ok_def prod.case by blast+

lemma unattendedD:
  assumes "unattended sid (s, ls)"
  shows "seat s sid = Some (n, f) \<Longrightarrow> f" "pump_at s n = Some p \<Longrightarrow> rp_session p \<noteq> sid" "sid \<notin> la_session ` set ls"
  using assms unfolding unattended_def prod.case by blast+

lemma launches_others:
  assumes lok: "launches_ok (s, ls)" and sid: "sid \<notin> la_session ` set ls"
    and others: "\<And>j. j \<noteq> sid \<Longrightarrow> row_at s' j = row_at s j" "\<And>j. j \<noteq> sid \<Longrightarrow> seat s' j = seat s j"
    and pumps: "\<And>n p. pump_at s' n = Some p \<Longrightarrow> rp_session p = sid \<or> pump_at s n = Some p"
  shows "launches_ok (s', ls)"
  unfolding launches_ok_def prod.case
proof (intro conjI ballI)
  show "distinct (map la_session ls)" using lok by (simp add: launches_ok_def)
  fix la assume la: "la \<in> set ls"
  have other: "la_session la \<noteq> sid" using la sid by auto
  show "seat s' (la_session la) = None" using others(2) [OF other] launches_okD(1) [OF lok la] by simp
  show "\<exists>m. parse_permission_mode (la_permission_mode la) = Inr m" by (rule launches_okD(3) [OF lok la])
  show "\<exists>r. row_at s' (la_session la) = Some r \<and> s_ended_at r = None \<and> s_status r = ''starting'' \<and> s_last_acked_seq r \<le> 0"
    using others(1) [OF other] launches_okD(4) [OF lok la] by simp
  show "\<forall>n p. pump_at s' n = Some p \<longrightarrow> rp_session p \<noteq> la_session la"
    using pumps launches_okD(2) [OF lok la] other by metis
qed

text \<open>A step that leaves an unattended session without an entry and not running.\<close>

lemma settled_idle:
  assumes inv: "settled_but X (s, ls)" and una: "unattended sid (s, ls)"
    and others: "\<And>j. j \<noteq> sid \<Longrightarrow> row_at s' j = row_at s j" "\<And>j. j \<noteq> sid \<Longrightarrow> seat s' j = seat s j"
    and gone: "seat s' sid = None"
    and same: "\<And>n. pump_at s' n = pump_at s n" "sp_acks s' = sp_acks s" "sp_count s' = sp_count s"
    and row: "\<And>r. row_at s' sid = Some r \<Longrightarrow> \<not> runs r \<and> (\<exists>m. parse_permission_mode (row_mode r) = Inr m)"
  shows "settled_but (X - {sid}) (s', ls)"
proof -
  note D = settled_butD [OF inv]
  have old: "j \<noteq> sid \<and> seat s j = Some (n, f)" if "seat s' j = Some (n, f)" for j n f
    using that gone others(2) by (cases "j = sid") auto
  show ?thesis
  proof (rule settled_butI)
    fix j n f assume "seat s' j = Some (n, f)"
    then have j: "j \<noteq> sid" "seat s j = Some (n, f)" using old by blast+
    show "n < sp_count s' \<and> (\<exists>r. row_at s' j = Some r \<and> (if f then s_ended_at r \<noteq> None else runs r))"
      using D(1,2) [OF j(2)] others(1) [OF j(1)] same(3) by simp
  next
    fix j r assume "row_at s' j = Some r" "runs r" "j \<notin> X - {sid}"
    then show "seat s' j \<noteq> None" using row others D(3) [of j r] by (cases "j = sid") auto
  next
    fix j k n f f' assume "seat s' j = Some (n, f)" "seat s' k = Some (n, f')"
    then show "j = k" using old D(4) by blast
  next
    show "pumps_ok s'"
      unfolding pumps_ok_def same
    proof (intro conjI allI impI)
      fix n p assume p: "pump_at s n = Some p"
      note ok = pumps_okD [OF D(5) p]
      have other: "rp_session p \<noteq> sid" using unattendedD(2) [OF una p] .
      show "n < sp_count s" by (rule ok(1))
      show "m = n" if "seat s' (rp_session p) = Some (m, f)" for m f using ok(2) old [OF that] by blast
      show "s_last_acked_seq r \<le> int (rp_watermark p)" if "row_at s' (rp_session p) = Some r" for r
        using ok(3) that others(1) [OF other] by simp
      show "rp_watermark p = fold max (rp_seen p) (rp_from p)" by (rule ok(4))
      show "a \<le> rp_watermark p" if "(n, a) \<in> set (sp_acks s)" for a using ok(5) that .
    next
      fix j n f p assume "seat s' j = Some (n, f)" "pump_at s n = Some p"
      then show "rp_session p = j" using old pumps_okD(6) [OF D(5)] by blast
    next
      fix n m p q assume "pump_at s n = Some p" "pump_at s m = Some q" "rp_session p = rp_session q"
      then show "n = m" using pumps_okD(7) [OF D(5)] by blast
    next
      fix n a assume "(n, a) \<in> set (sp_acks s)"
      then show "n < sp_count s" using D(5) unfolding pumps_ok_def by blast
    qed
  next
    show "launches_ok (s', ls)"
      by (rule launches_others [OF D(6) unattendedD(3) [OF una] others]) (simp_all add: same)
  next
    show "modes_ok s'"
      unfolding modes_ok_def
    proof (intro allI impI)
      fix j r assume "row_at s' j = Some r"
      then show "\<exists>m. parse_permission_mode (row_mode r) = Inr m"
        using row others(1) D(7) by (cases "j = sid") (auto simp: modes_ok_def)
    qed
  qed
qed

text \<open>A step that seats an unattended session, with a new pump.\<close>

lemma settled_attach:
  assumes inv: "settled_but X (s, ls)" and una: "unattended sid (s, ls)"
    and r0: "row_at s sid = Some r0" "s_ended_at r0 = None" "s_last_acked_seq r0 \<le> int wm"
    and rows: "\<And>j. row_at s' j = (if j = sid then Some (r0\<lparr>s_status := ''running''\<rparr>) else row_at s j)"
    and seats: "\<And>j. seat s' j = (if j = sid then Some (sp_count s, False) else seat s j)"
    and pumps: "\<And>n. pump_at s' n = (if n = sp_count s then Some q else pump_at s n)"
      "rp_session q = sid" "rp_watermark q = wm" "rp_from q = wm" "rp_seen q = []"
    and same: "sp_acks s' = sp_acks s" "sp_count s' = Suc (sp_count s)"
  shows "settled_but (X - {sid}) (s', ls)"
proof -
  note D = settled_butD [OF inv]
  note una = unattendedD [OF una]
  have acks: "n < sp_count s" if "(n, a) \<in> set (sp_acks s)" for n a using that D(5) unfolding pumps_ok_def by blast
  show ?thesis
  proof (rule settled_butI)
    fix j n f assume "seat s' j = Some (n, f)"
    then show "n < sp_count s' \<and> (\<exists>r. row_at s' j = Some r \<and> (if f then s_ended_at r \<noteq> None else runs r))"
      using D(1) [of j n f] D(2) [of j n f] r0(2) by (cases "j = sid") (auto simp: seats rows same intro: less_SucI)
  next
    fix j r assume "row_at s' j = Some r" "runs r" "j \<notin> X - {sid}"
    then show "seat s' j \<noteq> None" using D(3) [of j r] by (cases "j = sid") (auto simp: seats rows)
  next
    fix j k n f f' assume jk: "seat s' j = Some (n, f)" "seat s' k = Some (n, f')"
    show "j = k"
    proof (cases "j = sid \<or> k = sid")
      case True
      then show ?thesis using jk D(1) [of j n f] D(1) [of k n f'] by (auto simp: seats split: if_splits)
    next
      case False
      then show ?thesis using jk D(4) [of j n f k f'] by (simp add: seats)
    qed
  next
    show "pumps_ok s'"
      unfolding pumps_ok_def same
    proof (intro conjI allI impI)
      fix n p assume p: "pump_at s' n = Some p"
      consider "n = sp_count s" "p = q" | "n \<noteq> sp_count s" "pump_at s n = Some p" using p pumps(1) by (auto split: if_splits)
      note cases = this
      show "n < Suc (sp_count s)" using cases pumps_okD(1) [OF D(5)] by (cases rule: cases) (auto intro: less_SucI)
      show "m = n" if "seat s' (rp_session p) = Some (m, f)" for m f
        using that pumps_okD(2) [OF D(5)] una(2) by (cases rule: cases) (auto simp: seats pumps split: if_splits)
      show "s_last_acked_seq r \<le> int (rp_watermark p)" if "row_at s' (rp_session p) = Some r" for r
        using that pumps_okD(3) [OF D(5)] una(2) r0(3) by (cases rule: cases) (auto simp: rows pumps split: if_splits)
      show "rp_watermark p = fold max (rp_seen p) (rp_from p)"
        using pumps_okD(4) [OF D(5)] by (cases rule: cases) (auto simp: pumps)
      show "a \<le> rp_watermark p" if "(n, a) \<in> set (sp_acks s)" for a
        using that pumps_okD(5) [OF D(5)] acks [OF that] by (cases rule: cases) auto
    next
      fix j n f p assume j: "seat s' j = Some (n, f)" and p: "pump_at s' n = Some p"
      show "rp_session p = j"
      proof (cases "j = sid")
        case True
        then have "p = q" using j p by (simp add: seats pumps(1))
        then show ?thesis using True pumps(2) by simp
      next
        case False
        then have old: "seat s j = Some (n, f)" using j by (simp add: seats)
        then have "pump_at s n = Some p" using p D(1) [OF old] by (simp add: pumps(1))
        then show ?thesis using pumps_okD(6) [OF D(5)] old by blast
      qed
    next
      fix n m p p' assume p: "pump_at s' n = Some p" "pump_at s' m = Some p'" "rp_session p = rp_session p'"
      have new: "k = sp_count s" if "pump_at s' k = Some x" "rp_session x = sid" for k x
        using that una(2) by (auto simp: pumps(1) split: if_splits)
      show "n = m"
      proof (cases "rp_session p = sid")
        case True
        then show ?thesis using new [OF p(1)] new [OF p(2)] p(3) by simp
      next
        case False
        then have "pump_at s n = Some p" "pump_at s m = Some p'" using p pumps(2) by (auto simp: pumps(1) split: if_splits)
        then show ?thesis using pumps_okD(7) [OF D(5)] p(3) by blast
      qed
    next
      fix n a assume "(n, a) \<in> set (sp_acks s)"
      then show "n < Suc (sp_count s)" using acks less_SucI by blast
    qed
  next
    show "launches_ok (s', ls)"
      by (rule launches_others [OF D(6) una(3)]) (auto simp: seats rows pumps split: if_splits)
  next
    show "modes_ok s'"
      using D(7) r0(1) by (auto simp: modes_ok_def rows)
  qed
qed

lemma settled_mono: "settled_but X st \<Longrightarrow> X \<subseteq> Y \<Longrightarrow> settled_but Y st"
  unfolding settled_but_def by (cases st) (simp, blast)

lemma settled_drop:
  assumes inv: "settled_but X (s, ls @ la # ls')"
  shows "settled_but X (s, ls @ ls')" "unattended (la_session la) (s, ls @ ls')"
proof -
  note D = settled_butD [OF inv]
  have la: "la \<in> set (ls @ la # ls')" by simp
  have dist: "distinct (map la_session (ls @ la # ls'))" using D(6) by (simp only: launches_ok_def prod.case)
  have "launches_ok (s, ls @ ls')" using D(6) by (auto simp: launches_ok_def)
  then show "settled_but X (s, ls @ ls')" using D by (intro settled_butI) blast+
  have "la_session la \<notin> la_session ` set (ls @ ls')" using dist by auto
  then show "unattended (la_session la) (s, ls @ ls')"
    using launches_okD(1,2) [OF D(6) la] by (simp add: unattended_def)
qed

lemma settled_launch:
  assumes inv: "settled_but X (s, ls)" and una: "unattended (la_session la) (s, ls)" and "seat s (la_session la) = None"
    and "parse_permission_mode (la_permission_mode la) = Inr m"
    and "row_at s (la_session la) = Some r" "s_ended_at r = None" "s_status r = ''starting''" "s_last_acked_seq r \<le> 0"
  shows "settled_but X (s, la # ls)"
proof -
  note D = settled_butD [OF inv]
  have "distinct (map la_session ls)" using D(6) by (simp add: launches_ok_def)
  then have "launches_ok (s, la # ls)"
    using assms(3-) launches_okD [OF D(6)] unattendedD(2,3) [OF una] by (simp add: launches_ok_def)
  then show ?thesis using D by (intro settled_butI) blast+
qed

lemma life_shakes: "settled_but X (s, ls @ la # ls') \<Longrightarrow> settled_but X (snd (launch_done env la h s), ls @ ls')"
proof -
  assume inv: "settled_but X (s, ls @ la # ls')"
  let ?sid = "la_session la"
  note drop = settled_drop [OF inv]
  have la: "la \<in> set (ls @ la # ls')" by simp
  note L = launches_okD [OF settled_butD(6) [OF inv] la]
  obtain r where r: "row_at s ?sid = Some r" "s_ended_at r = None" "s_status r = ''starting''" "s_last_acked_seq r \<le> 0"
    using L(4) by blast
  obtain m where m: "parse_permission_mode (la_permission_mode la) = Inr m" using L(3) by blast
  have mode: "\<exists>m. parse_permission_mode (row_mode r) = Inr m" using settled_butD(7) [OF inv] r(1) by (auto simp: modes_ok_def)
  have "settled_but (X - {?sid}) (snd (launch_done env la h s), ls @ ls')"
  proof (cases "handshake_error env h")
    case (Some e)
    then have eq: "snd (launch_done env la h s) = mark_failed ?sid (kill_host (la_pid la) s)" by (simp add: launch_done_def)
    show ?thesis unfolding eq
      by (rule settled_idle [OF drop]) (use L(1) r mode in auto)
  next
    case None
    let ?s1 = "update_host ?sid (la_pid la) (la_socket_path la) ''running'' s"
    have eq: "snd (launch_done env la h s) = push_event (sp_count ?s1) (EvStarted ?sid)
        (attach ?sid (la_workarea_id la) (la_chat_id la) (la_cookie la) m (la_socket_path la)
           (Some (la_pid la)) (parser_of (la_kind la)) 0 ?s1)"
      using None m by (simp add: launch_done_def Let_def)
    have fresh: "pump_at s (sp_count s) = None"
      using pumps_okD(1) [OF settled_butD(5) [OF inv], of "sp_count s"] by (cases "pump_at s (sp_count s)") auto
    show ?thesis unfolding eq
      by (rule settled_attach [OF drop r(1,2), where wm = 0 and
            q = "\<lparr>rp_session = ?sid, rp_reading = True, rp_watermark = 0, rp_bytes_since_ack = 0, rp_last_sent = 0,
                   rp_last_persisted = 0, rp_resolver = new_resolver m (bypass_for_session (sp_db ?s1) ?sid), rp_from = 0, rp_seen = []\<rparr>"])
        (use r fresh in \<open>auto split: option.split\<close>)
  qed
  then show ?thesis by (rule settled_mono) blast
qed

lemma hosts_simps [simp]:
  "row_at (s\<lparr>sp_hosts := x\<rparr>) j = row_at s j" "seat (s\<lparr>sp_hosts := x\<rparr>) j = seat s j" "pump_at (s\<lparr>sp_hosts := x\<rparr>) n = pump_at s n"
  by (simp_all add: row_at_def seat_def entry_at_def pump_at_def)

text \<open>The first half of a start and of a resume, whatever its outcome.\<close>

definition begun :: "string \<Rightarrow> launch result \<Rightarrow> supervision \<Rightarrow> supervision \<Rightarrow> bool" where
  "begun sid res s s' \<longleftrightarrow>
     (\<forall>j. j \<noteq> sid \<longrightarrow> row_at s' j = row_at s j \<and> seat s' j = seat s j) \<and> seat s' sid = None
   \<and> (\<forall>n. pump_at s' n = pump_at s n) \<and> sp_acks s' = sp_acks s \<and> sp_count s' = sp_count s
   \<and> (\<exists>r. row_at s' sid = Some r \<and> s_status r = ''starting'' \<and> s_ended_at r = None \<and> s_last_acked_seq r = 0
        \<and> (\<exists>m. parse_permission_mode (row_mode r) = Inr m)
        \<and> (\<forall>la. res = Inr la \<longrightarrow> la_session la = sid \<and> la_permission_mode la = row_mode r))"

lemma settled_begun:
  assumes inv: "settled_but X (s, ls)" and una: "unattended sid (s, ls)" and b: "begun sid res s s'"
  shows "settled_but X (s', case res of Inr la \<Rightarrow> la # ls | Inl e \<Rightarrow> ls)"
proof -
  obtain r m where r: "row_at s' sid = Some r" "s_status r = ''starting''" "s_ended_at r = None" "s_last_acked_seq r = 0"
      "parse_permission_mode (row_mode r) = Inr m" "\<And>la. res = Inr la \<Longrightarrow> la_session la = sid \<and> la_permission_mode la = row_mode r"
    and same: "\<And>j. j \<noteq> sid \<Longrightarrow> row_at s' j = row_at s j" "\<And>j. j \<noteq> sid \<Longrightarrow> seat s' j = seat s j" "seat s' sid = None"
      "\<And>n. pump_at s' n = pump_at s n" "sp_acks s' = sp_acks s" "sp_count s' = sp_count s"
    using b unfolding begun_def by blast
  have "settled_but (X - {sid}) (s', ls)"
    by (rule settled_idle [OF inv una same]) (use r in \<open>auto simp: runs_def\<close>)
  then have inv': "settled_but X (s', ls)" by (rule settled_mono) blast
  show ?thesis
  proof (cases res)
    case (Inr la)
    have "unattended sid (s', ls)" using una same by (simp add: unattended_def)
    then show ?thesis using settled_launch [OF inv', of la] r(1-5) r(6) [OF Inr] same(3) Inr by simp
  qed (use inv' in simp)
qed

lemma insert_session_cases:
  assumes "insert_session bind sid row cols s = (res, s')"
  obtains e where "res = Inl e" "s' = s"
  | "res = Inr ()" "row_at s sid = None" "\<And>j. row_at s' j = (if j = sid then Some row else row_at s j)"
      "\<And>j. seat s' j = seat s j" "\<And>n. pump_at s' n = pump_at s n" "sp_acks s' = sp_acks s" "sp_count s' = sp_count s"
proof (cases res)
  case (Inl e)
  then show ?thesis using assms by (intro that(1)) (auto simp: insert_session_def Let_def split: if_splits)
next
  case (Inr u)
  then have fresh: "sid \<notin> fst ` set (db_sessions (sp_db s))"
    and s': "\<exists>chats. s' = (update_db (\<lambda>db. db\<lparr>db_sessions := db_sessions db @ [(sid, row)]\<rparr>) s)
                 \<lparr>sp_columns := sp_columns s @ [(sid, cols)], sp_chats := chats\<rparr>"
    using assms by (auto simp: insert_session_def Let_def split: if_splits)
  have none: "row_at s sid = None" using fresh by (simp add: row_at_def map_of_eq_None_iff)
  obtain chats where s': "s' = (update_db (\<lambda>db. db\<lparr>db_sessions := db_sessions db @ [(sid, row)]\<rparr>) s)
                 \<lparr>sp_columns := sp_columns s @ [(sid, cols)], sp_chats := chats\<rparr>" using s' by blast
  show ?thesis
    using none Inr
    by (intro that(2)) (auto simp: s' row_at_def update_db_def seat_def entry_at_def pump_at_def map_add_def split: option.split)
qed

lemma start_begun:
  assumes st: "start_begin env sid chat cookie now req d s = (res, s')" and seat: "seat s sid = None"
  shows "s' = s \<and> (\<exists>e. res = Inl e) \<or> begun sid res s s'"
proof (cases "\<exists>u mode. start_session_admits (sp_db s) req = Inr u \<and> start_mode env (sp_db s) req = Inr mode")
  case False
  then show ?thesis using st by (auto simp: start_begin_def split: sum.splits)
next
  case True
  then obtain u mode where ok: "start_session_admits (sp_db s) req = Inr u" "start_mode env (sp_db s) req = Inr mode" by blast
  define row where "row = \<lparr>s_workarea_id = rq_workarea_id req, s_status = ''starting'', s_permission_mode = Some (as_str_mode mode),
                         s_bypass = 0, s_ended_at = None, s_last_acked_seq = 0\<rparr>"
  define cols where "cols = \<lparr>hc_chat_id = (case rq_chat_id req of None \<Rightarrow> chat | Some c \<Rightarrow> c), hc_agent_kind = as_db_kind (rq_agent_kind req), hc_host_pid = None,
                         hc_host_socket = Some (socket_path env sid), hc_pty_cookie = Some cookie, hc_external_session_id = None,
                         hc_started_at = now\<rparr>"
  obtain res1 s1 where ins: "insert_session (rq_chat_id req \<noteq> None) sid row cols s = (res1, s1)" by (cases "insert_session (rq_chat_id req \<noteq> None) sid row cols s")
  from ins show ?thesis
  proof (cases rule: insert_session_cases)
    case (1 e)
    then show ?thesis using st ok ins by (auto simp: start_begin_def Let_def row_def cols_def split: sum.splits)
  next
    case 2
    have "\<exists>hosts. s' = s1\<lparr>sp_hosts := hosts\<rparr>"
      and la: "la_session la = sid \<and> la_permission_mode la = as_str_mode mode" if "res = Inr la" for la
      using st ok ins 2(1) that
      by (auto simp: start_begin_def Let_def row_def cols_def split: sum.splits dial.splits)
    then have s': "\<exists>hosts. s' = s1\<lparr>sp_hosts := hosts\<rparr>"
      using st ok ins 2(1) by (cases res) (auto simp: start_begin_def Let_def row_def cols_def split: sum.splits dial.splits intro: exI [of _ "sp_hosts s1"])
    have "row_mode row = as_str_mode mode" by (simp add: row_mode_def row_def)
    then have "begun sid res s s'"
      using s' 2 seat la unfolding begun_def by (auto simp: row_def)
    then show ?thesis by blast
  qed
qed

lemma resume_begun:
  assumes st: "cold_resume_begin env sid cookie d s = (res, s')" and "modes_ok s"
  shows "s' = s \<and> (\<exists>e. res = Inl e) \<or> begun sid res s s'"
proof (cases "\<exists>row cols token w. session_columns s sid = Some (row, cols) \<and> hc_external_session_id cols = Some token
    \<and> workareas_get (sp_db s) (s_workarea_id row) = Some w \<and> wa_archived_at w = None")
  case False
  then show ?thesis using st by (auto simp: cold_resume_begin_def split: option.splits if_splits)
next
  case True
  then obtain row cols token w where ok: "session_columns s sid = Some (row, cols)" "hc_external_session_id cols = Some token"
    "workareas_get (sp_db s) (s_workarea_id row) = Some w" "wa_archived_at w = None" by blast
  then have row: "row_at s sid = Some row" by (auto simp: session_columns_def row_at_def split: option.splits)
  then obtain m where m: "parse_permission_mode (row_mode row) = Inr m" using assms(2) by (auto simp: modes_ok_def)
  define s1 where "s1 = (update_db (\<lambda>db. db\<lparr>db_sessions := sql_update sid
                       (\<lambda>r. r\<lparr>s_status := ''starting'', s_last_acked_seq := 0, s_ended_at := None\<rparr>) (db_sessions db)\<rparr>) s)
                    \<lparr>sp_entries := table_drop sid (sp_entries s),
                     sp_columns := sql_update sid (\<lambda>c. c\<lparr>hc_host_socket := Some (socket_path env sid), hc_pty_cookie := Some cookie\<rparr>) (sp_columns s)\<rparr>"
  have ex: "cold_resume_existing env sid (wa_worktree_root w) token cookie d s = (res, s')"
    using st ok by (simp add: cold_resume_begin_def)
  have la: "la_session la = sid \<and> la_permission_mode la = row_mode row" if "res = Inr la" for la
    using ex ok(1) that by (auto simp: cold_resume_existing_def Let_def split: option.splits sum.splits dial.splits)
  have s': "\<exists>hosts. s' = s1\<lparr>sp_hosts := hosts\<rparr>"
    using ex ok(1) by (auto simp: cold_resume_existing_def Let_def s1_def update_db_def split: option.splits sum.splits dial.splits intro: exI [of _ "sp_hosts s"])
  have rows: "row_at s1 j = (if j = sid then Some (row\<lparr>s_status := ''starting'', s_last_acked_seq := 0, s_ended_at := None\<rparr>) else row_at s j)" for j
    using row by (auto simp: s1_def row_at_def update_db_def map_of_sql_update)
  have seats: "seat s1 j = (if j = sid then None else seat s j)" for j
    by (simp add: s1_def seat_def entry_at_def update_db_def)
  have pumps: "pump_at s1 n = pump_at s n" for n by (simp add: s1_def pump_at_def update_db_def)
  have same: "sp_acks s1 = sp_acks s" "sp_count s1 = sp_count s" by (simp_all add: s1_def)
  have mode: "row_mode (row\<lparr>s_status := ''starting'', s_last_acked_seq := 0, s_ended_at := None\<rparr>) = row_mode row"
    by (simp add: row_mode_def)
  have "begun sid res s s'"
    using s' la m unfolding begun_def by (auto simp: rows seats pumps mode same)
  then show ?thesis by blast
qed

section \<open>The start-up keeps the invariant\<close>

lemma row_ids_simps [simp]:
  "row_ids (update_db (sessions_update_status i st) s) = row_ids s" "row_ids (update_db (sessions_mark_ended i t) s) = row_ids s"
  "row_ids (update_db (sessions_update_last_acked i q) s) = row_ids s" "row_ids (update_host i pid sock st s) = row_ids s"
  "row_ids (mark_failed i s) = row_ids s" "row_ids (mark_crashed i t s) = row_ids s"
  "row_ids (push_event n ev s) = row_ids s" "row_ids (kill_host pid s) = row_ids s"
  "row_ids (attach sid wa chat cookie mode sock child pack wm s) = row_ids s"
  "row_ids (pump_update n f s) = row_ids s" "row_ids (write_ack n a s) = row_ids s"
  "row_ids (finish_entry n s) = row_ids s" "row_ids (reap_child i s) = row_ids s"
  "row_ids (tear_down i e s) = row_ids s" "row_ids (pump_eof n s) = row_ids s"
  "row_ids (sessions_delete i s) = filter (\<lambda>j. j \<noteq> i) (row_ids s)"
  by (auto simp: row_ids_def update_db_def sessions_update_status_def sessions_mark_ended_def sessions_update_last_acked_def
      update_host_def mark_failed_def mark_crashed_def push_event_def kill_host_def attach_def pump_update_def write_ack_def
      finish_entry_def reap_child_def tear_down_def Let_def pump_eof_def sessions_delete_def filter_map comp_def case_prod_unfold
      split: option.split)

lemma row_at_in: "distinct (row_ids s) \<Longrightarrow> (sid, r) \<in> set (db_sessions (sp_db s)) \<Longrightarrow> row_at s sid = Some r"
  by (simp add: row_ids_def row_at_def)

lemma launch_done_ids [simp]: "row_ids (snd (launch_done env la h s)) = row_ids s"
  by (auto simp: launch_done_def Let_def split: option.split sum.split)

lemma cold_resume_begin_ids: "row_ids (snd (cold_resume_begin env sid cookie d s)) = row_ids s"
  by (auto simp: cold_resume_begin_def cold_resume_existing_def Let_def update_db_def row_ids_def
      split: option.split sum.split dial.split)

lemma start_begin_ids: "distinct (row_ids s) \<Longrightarrow> distinct (row_ids (snd (start_begin env sid chat cookie now req d s)))"
  by (auto simp: start_begin_def insert_session_def Let_def update_db_def row_ids_def split: option.split sum.split dial.split)

text \<open>What one session's part of the sweep may change.\<close>

definition confined :: "string \<Rightarrow> supervision \<Rightarrow> supervision \<Rightarrow> bool" where
  "confined sid s s' \<longleftrightarrow>
     (\<forall>j. j \<noteq> sid \<longrightarrow> row_at s' j = row_at s j \<and> seat s' j = seat s j)
   \<and> (\<forall>n p. pump_at s' n = Some p \<longrightarrow> rp_session p = sid \<or> pump_at s n = Some p) \<and> row_ids s' = row_ids s"

lemma confined_refl [simp]: "confined sid s s"
  by (simp add: confined_def)

lemma confined_trans: "confined sid s s' \<Longrightarrow> confined sid s' s'' \<Longrightarrow> confined sid s s''"
  unfolding confined_def by (metis (full_types))

lemma confined_unattended:
  "confined sid s s' \<Longrightarrow> j \<noteq> sid \<Longrightarrow> unattended j (s, []) \<and> seat s j = None \<Longrightarrow> unattended j (s', []) \<and> seat s' j = None"
proof -
  assume con: "confined sid s s'" and j: "j \<noteq> sid" "unattended j (s, []) \<and> seat s j = None"
  have "rp_session p \<noteq> j" if "pump_at s' n = Some p" for n p
    using con that j unattendedD(2) [of j s "[]" n p] unfolding confined_def by auto
  moreover have "seat s' j = None" using con j unfolding confined_def by simp
  ultimately show ?thesis unfolding unattended_def by simp
qed

lemma confined_launch: "confined (la_session la) s (snd (launch_done env la h s))"
  by (auto simp: confined_def launch_done_def Let_def split: option.splits sum.split if_splits)

lemma begun_confined: "begun sid res s s' \<Longrightarrow> row_ids s' = row_ids s \<Longrightarrow> confined sid s s'"
  by (auto simp: begun_def confined_def)

lemma sweep_resume:
  assumes inv: "settled_but X (s, [])" and una: "unattended sid (s, [])"
    and st: "cold_resume_session env sid cookie d h s = (res, s')"
  shows "settled_but X (s', [])" "confined sid s s'"
proof -
  obtain r1 s1 where beg: "cold_resume_begin env sid cookie d s = (r1, s1)" by (cases "cold_resume_begin env sid cookie d s")
  have ids: "row_ids s1 = row_ids s" using cold_resume_begin_ids [of env sid cookie d s] beg by simp
  have "settled_but X (s', []) \<and> confined sid s s'"
    using resume_begun [OF beg settled_butD(7) [OF inv]]
  proof
    assume "s1 = s \<and> (\<exists>e. r1 = Inl e)"
    then show ?thesis using st beg inv by (auto simp: cold_resume_session_def)
  next
    assume b: "begun sid r1 s s1"
    have con: "confined sid s s1" by (rule begun_confined [OF b ids])
    have inv1: "settled_but X (s1, case r1 of Inr la \<Rightarrow> [la] | Inl e \<Rightarrow> [])" using settled_begun [OF inv una b] .
    show ?thesis
    proof (cases r1)
      case (Inl e)
      then show ?thesis using st beg inv1 con by (simp add: cold_resume_session_def)
    next
      case (Inr la)
      then have s': "s' = snd (launch_done env la h s1)" using st beg by (simp add: cold_resume_session_def)
      have "la_session la = sid" using b Inr by (auto simp: begun_def)
      then have "confined sid s1 s'" using confined_launch [of la s1 env h] s' by simp
      moreover have "settled_but X (s', [])" using life_shakes [of X s1 "[]" la "[]"] inv1 Inr s' by simp
      ultimately show ?thesis using confined_trans [OF con] by blast
    qed
  qed
  then show "settled_but X (s', [])" "confined sid s s'" by blast+
qed

lemma sweep_judges:
  assumes inv: "settled_but X (s, [])" and una: "unattended sid (s, [])" "seat s sid = None"
    and st: "cold_path_one env now final attempt sid s = (ok, s')"
  shows "settled_but (X - {sid}) (s', [])" "confined sid s s'"
proof -
  define ended where "ended = (case final sid of Some fi \<Rightarrow> fi_exited_at_unix_ms fi | None \<Rightarrow> now)"
  define s1 where "s1 = update_db (\<lambda>db. (sessions_update_status sid (judged_status (final sid)) db)
                 \<lparr>db_sessions := sql_update sid (\<lambda>r. r\<lparr>s_ended_at := (case s_ended_at r of None \<Rightarrow> Some ended | Some t \<Rightarrow> Some t)\<rparr>)
                    (db_sessions (sessions_update_status sid (judged_status (final sid)) db))\<rparr>) s"
  have rows: "row_at s1 j = (if j = sid then map_option (\<lambda>r. r\<lparr>s_status := judged_status (final sid),
        s_ended_at := (case s_ended_at r of None \<Rightarrow> Some ended | Some t \<Rightarrow> Some t)\<rparr>) (row_at s sid) else row_at s j)" for j
    by (auto simp: s1_def row_at_def update_db_def sessions_update_status_def map_of_sql_update option.map_comp comp_def)
  have others: "seat s1 j = seat s j" "pump_at s1 n = pump_at s n" "sp_acks s1 = sp_acks s" "sp_count s1 = sp_count s" for j n
    by (simp_all add: s1_def)
  have ids: "row_ids s1 = row_ids s" by (simp add: s1_def row_ids_def update_db_def sessions_update_status_def)
  have con: "confined sid s s1" by (simp add: confined_def rows others ids)
  have inv1: "settled_but (X - {sid}) (s1, [])"
  proof (rule settled_idle [OF inv una(1)])
    fix r assume "row_at s1 sid = Some r"
    then obtain r0 where r0: "row_at s sid = Some r0" "r = r0\<lparr>s_status := judged_status (final sid),
        s_ended_at := (case s_ended_at r0 of None \<Rightarrow> Some ended | Some t \<Rightarrow> Some t)\<rparr>" by (auto simp: rows)
    have "\<exists>m. parse_permission_mode (row_mode r0) = Inr m" using settled_butD(7) [OF inv] r0(1) by (auto simp: modes_ok_def)
    moreover have "row_mode r = row_mode r0" by (simp add: r0(2) row_mode_def)
    ultimately show "\<not> runs r \<and> (\<exists>m. parse_permission_mode (row_mode r) = Inr m)"
      by (simp add: r0(2) runs_def split: option.split)
  qed (simp_all add: rows others una(2))
  have una1: "unattended sid (s1, [])" using una by (simp add: unattended_def others)
  obtain cookie d h where att: "attempt sid = (cookie, d, h)" by (cases "attempt sid")
  have cases: "(ok, s') = (if judged_status (final sid) = ''crashed'' then maybe_auto_resume env sid cookie d h s1 else (False, s1))"
    using st [symmetric] by (simp only: cold_path_one_def s1_def ended_def Let_def att prod.case)
  have "s' = s1 \<or> (\<exists>res. cold_resume_session env sid cookie d h s1 = (res, s'))"
    using cases by (auto simp: maybe_auto_resume_def split: if_splits option.splits prod.splits sum.splits)
  then have "settled_but (X - {sid}) (s', []) \<and> confined sid s s'"
  proof
    assume "\<exists>res. cold_resume_session env sid cookie d h s1 = (res, s')"
    then obtain res where "cold_resume_session env sid cookie d h s1 = (res, s')" ..
    from sweep_resume [OF inv1 una1 this] show ?thesis using confined_trans [OF con] by blast
  qed (use inv1 con in simp)
  then show "settled_but (X - {sid}) (s', [])" "confined sid s s'" by blast+
qed

lemma sweep_judges_all:
  assumes "settled_but (set sids) (s, [])" "distinct sids" "\<And>sid. sid \<in> set sids \<Longrightarrow> unattended sid (s, []) \<and> seat s sid = None"
    and "cold_each env now final attempt sids s = (k, s')"
  shows "settled_but {} (s', []) \<and> row_ids s' = row_ids s"
  using assms
proof (induction sids arbitrary: s k)
  case Nil
  then show ?case by simp
next
  case (Cons sid sids)
  obtain ok s1 where one: "cold_path_one env now final attempt sid s = (ok, s1)" by (cases "cold_path_one env now final attempt sid s")
  obtain k' s2 where rest: "cold_each env now final attempt sids s1 = (k', s2)" by (cases "cold_each env now final attempt sids s1")
  have una: "unattended sid (s, [])" "seat s sid = None" using Cons.prems(3) by auto
  note J = sweep_judges [OF Cons.prems(1) una one]
  have s': "s' = s2" using Cons.prems(4) one rest by simp
  have "settled_but (set sids) (s1, [])" using settled_mono [OF J(1)] by simp
  moreover have "unattended j (s1, []) \<and> seat s1 j = None" if "j \<in> set sids" for j
  proof (rule confined_unattended [OF J(2)])
    show "j \<noteq> sid" using that Cons.prems(2) by auto
    show "unattended j (s, []) \<and> seat s j = None" using Cons.prems(3) that by simp
  qed
  ultimately have "settled_but {} (s', []) \<and> row_ids s' = row_ids s1"
    using Cons.IH Cons.prems(2) rest s' by simp
  then show ?case using J(2) by (simp add: confined_def)
qed

text \<open>While adopting: whoever has an entry or a pump has its socket among those already tried.\<close>

definition adopting :: "string set \<Rightarrow> supervision \<Rightarrow> bool" where
  "adopting tried s \<longleftrightarrow>
     settled_but UNIV (s, []) \<and> distinct (row_ids s)
   \<and> (\<forall>n p. pump_at s n = Some p \<longrightarrow> seat s (rp_session p) \<noteq> None)
   \<and> (\<forall>sid. seat s sid \<noteq> None \<longrightarrow> (\<exists>k\<in>tried. Option.bind (map_of (sp_columns s) sid) hc_host_socket = Some k))"

lemma adoptingD:
  assumes "adopting tried s"
  shows "settled_but UNIV (s, [])" "distinct (row_ids s)" "pump_at s n = Some p \<Longrightarrow> seat s (rp_session p) \<noteq> None"
    "Option.bind (map_of (sp_columns s) sid) hc_host_socket = Some k \<Longrightarrow> k \<notin> tried \<Longrightarrow> seat s sid = None"
proof -
  show "settled_but UNIV (s, [])" "distinct (row_ids s)" using assms by (simp_all add: adopting_def)
  show "seat s (rp_session p) \<noteq> None" if "pump_at s n = Some p" using assms that unfolding adopting_def by blast
  show "seat s sid = None" if "Option.bind (map_of (sp_columns s) sid) hc_host_socket = Some k" "k \<notin> tried"
  proof (rule ccontr)
    assume "seat s sid \<noteq> None"
    then have "\<exists>k\<in>tried. Option.bind (map_of (sp_columns s) sid) hc_host_socket = Some k" using assms unfolding adopting_def by blast
    then show False using that by simp
  qed
qed

lemma adopting_unattended: "adopting tried s \<Longrightarrow> seat s sid = None \<Longrightarrow> unattended sid (s, [])"
  using adoptingD(3) [of tried s] unfolding unattended_def prod.case by (metis empty_set image_is_empty not_None_eq emptyE option.distinct(1))

lemma find_session_by_socket_facts:
  assumes "find_session_by_socket s sock = Some (sid, r, c)" and "distinct (row_ids s)"
  shows "row_at s sid = Some r" "s_ended_at r = None" "Option.bind (map_of (sp_columns s) sid) hc_host_socket = Some sock"
proof -
  obtain x where x: "find (\<lambda>(sid, r). s_ended_at r = None \<and> Option.bind (map_of (sp_columns s) sid) hc_host_socket = Some sock) (db_sessions (sp_db s)) = Some x"
    "map_option (\<lambda>c. (fst x, snd x, c)) (map_of (sp_columns s) (fst x)) = Some (sid, r, c)"
    using assms(1) by (auto simp: find_session_by_socket_def case_prod_unfold split: bind_splits)
  then have x': "x \<in> set (db_sessions (sp_db s))" "s_ended_at (snd x) = None" "Option.bind (map_of (sp_columns s) (fst x)) hc_host_socket = Some sock"
    by (auto simp: find_Some_iff case_prod_unfold)
  have "x = (sid, r)" using x(2) by (cases x) auto
  then show "row_at s sid = Some r" "s_ended_at r = None" "Option.bind (map_of (sp_columns s) sid) hc_host_socket = Some sock"
    using x' row_at_in [OF assms(2)] by auto
qed

lemma columns_simps [simp]:
  "sp_columns (update_db f s) = sp_columns s" "sp_columns (mark_crashed i t s) = sp_columns s"
  "sp_columns (attach sid wa chat cookie mode sock child pack wm s) = sp_columns s"
  by (simp_all add: update_db_def mark_crashed_def attach_def)

lemma adopting_idle:
  assumes ad: "adopting tried s" and una: "unattended sid (s, [])" "seat s sid = None"
    and same: "\<And>j. j \<noteq> sid \<Longrightarrow> row_at s' j = row_at s j" "\<And>j. seat s' j = seat s j" "\<And>n. pump_at s' n = pump_at s n"
      "sp_acks s' = sp_acks s" "sp_count s' = sp_count s" "row_ids s' = row_ids s" "sp_columns s' = sp_columns s"
    and row: "\<And>r. row_at s' sid = Some r \<Longrightarrow> \<not> runs r \<and> (\<exists>m. parse_permission_mode (row_mode r) = Inr m)"
  shows "adopting tried s'"
proof -
  have inv: "settled_but UNIV (s, [])" using ad by (simp add: adopting_def)
  have "settled_but (UNIV - {sid}) (s', [])"
    by (rule settled_idle [OF inv una(1)]) (use same row una(2) in auto)
  then have "settled_but UNIV (s', [])" by (rule settled_mono) blast
  then show ?thesis using ad by (simp add: adopting_def same)
qed

lemma adopting_mono: "adopting tried s \<Longrightarrow> tried \<subseteq> tried' \<Longrightarrow> adopting tried' s"
  unfolding adopting_def by blast

lemma adopting_crashed:
  assumes ad: "adopting tried s" and una: "unattended sid (s, [])" "seat s sid = None"
  shows "adopting tried (mark_crashed sid now s)"
proof (rule adopting_idle [OF ad una])
  fix r assume "row_at (mark_crashed sid now s) sid = Some r"
  then show "\<not> runs r \<and> (\<exists>m. parse_permission_mode (row_mode r) = Inr m)"
    using ad by (auto simp: adopting_def settled_but_def modes_ok_def)
qed auto

lemma adopting_attach:
  assumes ad: "adopting tried s" and una: "unattended sid (s, [])"
    and r0: "row_at s sid = Some r0" "s_ended_at r0 = None" "s_last_acked_seq r0 \<le> int wm"
    and sock: "Option.bind (map_of (sp_columns s) sid) hc_host_socket = Some k"
  shows "adopting (insert k tried) (attach sid wa chat cookie mode sock child pack wm (update_db (sessions_update_status sid ''running'') s))"
    (is "adopting _ ?s'")
proof -
  have inv: "settled_but UNIV (s, [])" using ad by (simp add: adopting_def)
  have fresh: "pump_at s (sp_count s) = None"
    using pumps_okD(1) [OF settled_butD(5) [OF inv], of "sp_count s"] by (cases "pump_at s (sp_count s)") auto
  have "settled_but (UNIV - {sid}) (?s', [])"
    by (rule settled_attach [OF inv una r0, where
          q = "\<lparr>rp_session = sid, rp_reading = True, rp_watermark = wm, rp_bytes_since_ack = 0, rp_last_sent = 0,
                 rp_last_persisted = 0, rp_resolver = new_resolver mode
                   (bypass_for_session (sp_db (update_db (sessions_update_status sid ''running'') s)) sid), rp_from = wm, rp_seen = []\<rparr>"])
      (use r0 fresh in \<open>auto split: option.split\<close>)
  then have inv': "settled_but UNIV (?s', [])" by (rule settled_mono) blast
  have pumps: "seat ?s' (rp_session p) \<noteq> None" if "pump_at ?s' n = Some p" for n p
    using that ad by (auto simp: adopting_def split: option.splits if_splits)
  have seats: "\<exists>k'\<in>insert k tried. Option.bind (map_of (sp_columns ?s') j) hc_host_socket = Some k'" if "seat ?s' j \<noteq> None" for j
    using that ad sock by (cases "j = sid") (auto simp: adopting_def)
  show ?thesis unfolding adopting_def
    using inv' pumps seats ad by (auto simp: adopting_def)
qed

lemma adopts_one:
  assumes ad: "adopting tried s" and new: "sock \<notin> tried" and st: "try_adopt_one version greet now sock s = (ok, s')"
  shows "adopting (insert sock tried) s'"
proof (cases "find_session_by_socket s sock")
  case None
  then show ?thesis using st adopting_mono [OF ad] by (auto simp: try_adopt_one_def)
next
  case (Some x)
  obtain sid r c where x: "x = (sid, r, c)" by (cases x)
  have dist: "distinct (row_ids s)" using ad by (simp add: adopting_def)
  note F = find_session_by_socket_facts [OF Some [unfolded x] dist]
  have none: "seat s sid = None" by (rule adoptingD(4) [OF ad F(3) new])
  then have una: "unattended sid (s, [])" by (rule adopting_unattended [OF ad])
  have crash: "adopting (insert sock tried) (mark_crashed sid now s)"
    using adopting_mono [OF adopting_crashed [OF ad una none]] by blast
  have same: "adopting (insert sock tried) s" using adopting_mono [OF ad] by blast
  obtain m where m: "parse_permission_mode (row_mode r) = Inr m"
    using settled_butD(7) [OF adoptingD(1) [OF ad]] F(1) unfolding modes_ok_def by blast
  have att: "adopting (insert sock tried)
      (snd (adopt_resume_session sid r c cookie (nat (max 0 (s_last_acked_seq r))) (update_db (sessions_update_status sid ''running'') s)))" for cookie
    using adopting_attach [OF ad una F(1,2) _ F(3)] m by (simp add: adopt_resume_session_def)
  show ?thesis
  proof (cases "hc_pty_cookie c")
    case None
    then show ?thesis using st crash Some x by (simp add: try_adopt_one_def)
  next
    case cookie: (Some k)
    show ?thesis
      using st crash same att [of k] m
      by (auto simp: try_adopt_one_def Some x cookie adopt_resume_session_def
          split: if_splits handshake.splits host_frame.splits)
  qed
qed

lemma adopts_each:
  "adopting tried s \<Longrightarrow> distinct socks \<Longrightarrow> tried \<inter> set socks = {} \<Longrightarrow> adopt_each version greet now socks s = (k, s')
     \<Longrightarrow> adopting (tried \<union> set socks) s'"
proof (induction socks arbitrary: tried s k s')
  case (Cons sock socks)
  obtain ok s1 where one: "try_adopt_one version greet now sock s = (ok, s1)" by (cases "try_adopt_one version greet now sock s")
  obtain k' s2 where rest: "adopt_each version greet now socks s1 = (k', s2)" by (cases "adopt_each version greet now socks s1")
  have ad: "adopting (insert sock tried) s1" using adopts_one [OF Cons.prems(1) _ one] Cons.prems(3) by simp
  have "insert sock tried \<inter> set socks = {}" using Cons.prems(2,3) by auto
  then have "adopting (insert sock tried \<union> set socks) s2" using Cons.IH [OF ad _ _ rest] Cons.prems(2) by simp
  then show ?case using Cons.prems(4) one rest by simp
qed simp

lemma adopting_swept:
  assumes ad: "adopting tried s" and st: "cold_each env now final attempt (find_cold_candidates s) s = (k, s')"
  shows "settled_but {} (s', []) \<and> distinct (row_ids s')"
proof -
  have inv: "settled_but UNIV (s, [])" and dist: "distinct (row_ids s)" using ad by (simp_all add: adopting_def)
  have free: "seat s sid = None" if "sid \<in> set (find_cold_candidates s)" for sid
    using that by (force simp: find_cold_candidates_def seat_def entry_at_def map_of_eq_None_iff)
  have cand: "sid \<in> set (find_cold_candidates s)" if "row_at s sid = Some r" "runs r" "seat s sid = None" for sid r
  proof -
    have "(sid, r) \<in> set (db_sessions (sp_db s))" using that(1) by (simp add: row_at_def map_of_SomeD)
    moreover have "sid \<notin> fst ` set (sp_entries s)" using that(3) by (simp add: seat_def entry_at_def map_of_eq_None_iff)
    ultimately show ?thesis using that(2) by (force simp: find_cold_candidates_def runs_def)
  qed
  have "settled_but (set (find_cold_candidates s)) (s, [])"
    using settled_butD [OF inv] cand by (intro settled_butI) blast+
  moreover have "distinct (find_cold_candidates s)"
    using dist distinct_map_filter by (auto simp: find_cold_candidates_def row_ids_def)
  moreover have "unattended sid (s, []) \<and> seat s sid = None" if "sid \<in> set (find_cold_candidates s)" for sid
    using free [OF that] adopting_unattended [OF ad] by blast
  ultimately show ?thesis using sweep_judges_all [OF _ _ _ st] dist by simp
qed

lemma boots_settled:
  assumes "distinct (row_ids s)" "modes_ok s" "\<And>n a. (n, a) \<in> set (sp_acks s) \<Longrightarrow> n < sp_count s" "distinct socks"
    and st: "adopt_orphans env version greet now (Some socks) final attempt (restart_core s) = (k, s')"
  shows "life_inv (s', []) \<and> distinct (row_ids s')"
proof -
  have same: "row_at (restart_core s) j = row_at s j" "seat (restart_core s) j = None" "pump_at (restart_core s) n = None"
    "row_ids (restart_core s) = row_ids s" "sp_acks (restart_core s) = sp_acks s" "sp_count (restart_core s) = sp_count s" for j n
    by (simp_all add: restart_core_def row_at_def seat_def entry_at_def pump_at_def row_ids_def)
  have "settled_but UNIV (restart_core s, [])"
    using assms(1-3) by (auto simp: settled_but_def pumps_ok_def launches_ok_def modes_ok_def same)
  then have ad: "adopting {} (restart_core s)" using assms(1) by (simp add: adopting_def same)
  obtain j s1 where each: "adopt_each version greet now socks (restart_core s) = (j, s1)"
    by (cases "adopt_each version greet now socks (restart_core s)")
  obtain l s2 where cold: "cold_each env now final attempt (find_cold_candidates s1) s1 = (l, s2)"
    by (cases "cold_each env now final attempt (find_cold_candidates s1) s1")
  have "s' = s2" using st each cold by (simp add: adopt_orphans_def)
  then show ?thesis using adopting_swept [OF adopts_each [OF ad assms(4) _ each] cold] by (simp add: life_inv_settled)
qed

lemma pumps_ids [simp]: "row_ids (s\<lparr>sp_pumps := x\<rparr>) = row_ids s"
  by (simp add: row_ids_def)

lemma reading_ids [simp]:
  "row_ids (pump_frame lossy n now f s) = row_ids s" "row_ids (pump_flush n s) = row_ids s"
  "row_ids (ack_send_tick n s) = row_ids s" "row_ids (ack_persist_tick n s) = row_ids s"
  "row_ids (snd (stop_session sid now s)) = row_ids s"
  by (auto simp: pump_frame_def pump_stdout_def pump_exited_def pump_flush_def ack_send_tick_def ack_persist_tick_def stop_session_def
      Let_def split: option.split host_frame.split)

lemma delete_ids: "distinct (row_ids s) \<Longrightarrow> distinct (row_ids (snd (delete_session sid s)))"
  by (simp add: delete_session_def Let_def split: option.split)

lemma session_step_keeps:
  assumes "session_step env lossy st st'" "life_inv st" "distinct (row_ids (fst st))"
  shows "life_inv st' \<and> distinct (row_ids (fst st'))"
  using assms
proof (cases rule: session_step.cases)
  case (starts sid chat cookie now req d s res s' ls)
  have ids: "distinct (row_ids s')" using start_begin_ids [of s env sid chat cookie now req d] starts assms(3) by simp
  have "life_inv (s', case res of Inr la \<Rightarrow> la # ls | Inl e \<Rightarrow> ls)"
    using start_begun [OF starts(3,5)] settled_begun [OF _ starts(4)] assms(2) starts(1) by (auto simp: life_inv_settled)
  then show ?thesis using starts ids by simp
next
  case (resumes sid cookie d s res s' ls)
  have ids: "distinct (row_ids s')" using cold_resume_begin_ids [of env sid cookie d s] resumes assms(3) by simp
  have inv: "life_inv (s, ls)" using assms(2) resumes(1) by simp
  have "life_inv (s', case res of Inr la \<Rightarrow> la # ls | Inl e \<Rightarrow> ls)"
    using resume_begun [OF resumes(3)] life_invD [OF inv] settled_begun [OF _ resumes(4)] inv by (auto simp: life_inv_settled)
  then show ?thesis using resumes ids by simp
next
  case (shakes s ls la ls' h)
  then show ?thesis using assms(2,3) life_shakes [of "{}" s ls la ls'] by (simp add: life_inv_settled)
next
  case (deletes sid ls s)
  then show ?thesis using assms(2,3) life_deletes delete_ids by simp
next
  case (boots version greet now socks final attempt s k s' ls)
  have inv: "life_inv (s, ls)" using assms(2) boots(1) by simp
  show ?thesis using boots_settled [OF _ _ _ boots(4,3)] life_invD [OF inv] life_acks [OF inv] assms(3) boots(1,2) by simp
qed (use assms(2,3) life_reads life_breaks life_flushes life_send life_persists life_stops in auto)

lemma supervised_keeps: "supervised env lossy st \<Longrightarrow> life_inv st \<and> distinct (row_ids (fst st))"
proof (induction rule: supervised.induct)
  case (powers_on s version greet now socks final attempt k s')
  have "restart_core s = s" using powers_on(1,2) by (simp add: restart_core_def)
  then show ?case using boots_settled [of s socks env version greet now final attempt k s'] powers_on by simp
next
  case (goes_on st st')
  then show ?case using session_step_keeps by blast
qed

section \<open>Properties\<close>

definition sample_supervisor :: supervisor_env where
  "sample_supervisor =
     \<lparr>sv_data_dir = ''/d'', sv_tmp_dir = ''/t'', sv_from_str = (\<lambda>_. None), sv_managed = Inr default_policy,
      sv_maestro = (\<lambda>_. Inl (Internal [])), sv_debug = (\<lambda>_. [])\<rparr>"

definition sample_core :: supervision where
  "sample_core =
     \<lparr>sp_db = sample_db\<lparr>db_sessions := []\<rparr>, sp_columns = [], sp_chats = [], sp_entries = [], sp_pumps = [],
      sp_hosts = [], sp_sent = [], sp_acks = [], sp_count = 0\<rparr>"

definition sample_start :: start_request where
  "sample_start = \<lparr>rq_workarea_id = ''w1'', rq_agent_kind = ClaudeAgent, rq_echo_text = None, rq_cwd = ''/w'',
     rq_permission_mode = Some ''auto'', rq_resume_session_id = None, rq_chat_id = None\<rparr>"

definition sample_running :: supervision where
  "sample_running = snd (start_session sample_supervisor ''s2'' ''c2'' (replicate 32 7) 1 sample_start (Spawned 42)
     (Answered (Ready Claude ''0'' None 0)) sample_core)"

definition sample_read :: supervision where
  "sample_read = pump_frame (\<lambda>_. []) 0 2 (StdoutBytes 1 [104, 105]) sample_running"

lemma running_iff_entry:
  assumes "supervised env lossy (s, ls)"
  shows "(\<exists>e. entry_at s sid = Some e \<and> \<not> en_finished e)
     \<longleftrightarrow> (\<exists>r. row_at s sid = Some r \<and> s_ended_at r = None \<and> s_status r = ''running'')"
proof -
  have eok: "entries_ok s" using supervised_keeps [OF assms] by (simp add: life_inv_def)
  have left: "(\<exists>e. entry_at s sid = Some e \<and> \<not> en_finished e) \<longleftrightarrow> (\<exists>n. seat s sid = Some (n, False))"
    by (auto simp: seat_def)
  have "(\<exists>n. seat s sid = Some (n, False)) \<longleftrightarrow> (\<exists>r. row_at s sid = Some r \<and> runs r)"
  proof
    assume "\<exists>n. seat s sid = Some (n, False)"
    then show "\<exists>r. row_at s sid = Some r \<and> runs r" using entries_okD(2) [OF eok] by (metis (full_types))
  next
    assume "\<exists>r. row_at s sid = Some r \<and> runs r"
    then obtain r where r: "row_at s sid = Some r" "runs r" by blast
    then obtain n f where nf: "seat s sid = Some (n, f)" using entries_okD(3) [OF eok] by fastforce
    then have "\<not> f" using entries_okD(2) [OF eok nf] r by (auto simp: runs_def)
    then show "\<exists>n. seat s sid = Some (n, False)" using nf by simp
  qed
  then show ?thesis by (simp add: left runs_def)
qed


lemma sample_boots: "supervised sample_supervisor (\<lambda>_. []) (sample_core, [])"
  by (rule powers_on [of sample_core _ "[]" "\<lambda>_ _. NotConnectable []" 0 "[]" "\<lambda>_. None" "\<lambda>_. ([], Spawned 0, NotConnectable [])" 0])
    (simp_all add: sample_core_def adopt_orphans_def find_cold_candidates_def row_ids_def modes_ok_def row_at_def)

lemma sample_mode: "start_mode sample_supervisor db sample_start = Inr Auto"
  by (simp add: start_mode_def sample_supervisor_def sample_start_def enforce_managed_cap_def default_policy_def parse_permission_mode_def)

lemma parse_auto [simp]: "parse_permission_mode ''auto'' = Inr Auto"
  by (simp add: parse_permission_mode_def)

lemma sample_fields [simp]:
  "rq_workarea_id sample_start = ''w1''" "rq_agent_kind sample_start = ClaudeAgent" "rq_chat_id sample_start = None"
  "sv_data_dir sample_supervisor = ''/d''" "db_sessions (sp_db sample_core) = []" "sp_chats sample_core = []"
  "sp_entries sample_core = []" "sp_pumps sample_core = []" "sp_columns sample_core = []" "sp_count sample_core = 0"
  "sp_acks sample_core = []" "sp_sent sample_core = []"
  by (simp_all add: sample_start_def sample_supervisor_def sample_core_def)

lemma sample_admits: "start_session_admits (sp_db sample_core) sample_start = Inr ()"
  by (simp add: start_session_admits_def sample_core_def sample_db_def workareas_get_def)

lemma sample_runs: "supervised sample_supervisor (\<lambda>_. []) (sample_running, [])"
proof -
  obtain res s1 where beg: "start_begin sample_supervisor ''s2'' ''c2'' (replicate 32 7) 1 sample_start (Spawned 42) sample_core = (res, s1)"
    by (cases "start_begin sample_supervisor ''s2'' ''c2'' (replicate 32 7) 1 sample_start (Spawned 42) sample_core")
  have "\<exists>la. res = Inr la"
    using beg by (auto simp: start_begin_def sample_mode sample_admits Let_def insert_session_def resolve_agent_bin_def)
  then obtain la where la: "res = Inr la" ..
  have una: "unattended ''s2'' (sample_core, [])" "seat sample_core ''s2'' = None"
    by (simp_all add: unattended_def sample_core_def seat_def entry_at_def pump_at_def)
  have "supervised sample_supervisor (\<lambda>_. []) (s1, [la])"
    using goes_on [OF sample_boots session_step.starts [OF beg una]] la by simp
  then have "supervised sample_supervisor (\<lambda>_. []) (snd (launch_done sample_supervisor la (Answered (Ready Claude ''0'' None 0)) s1), [])"
    using goes_on [OF _ session_step.shakes [of sample_supervisor "\<lambda>_. []" s1 "[]" la "[]"]] by simp
  moreover have "sample_running = snd (launch_done sample_supervisor la (Answered (Ready Claude ''0'' None 0)) s1)"
    using beg la by (simp add: sample_running_def start_session_def)
  ultimately show ?thesis by (simp only:)
qed

lemma sample_reads: "supervised sample_supervisor (\<lambda>_. []) (sample_read, [])"
  unfolding sample_read_def by (rule goes_on [OF sample_runs session_step.reads])


lemma prune_keeps_unread: "c \<in> set (rb_chunks r) \<Longrightarrow> a < c_seq c \<Longrightarrow> c \<in> set (rb_chunks (prune_through a r))"
proof -
  have "c \<in> set cs \<Longrightarrow> a < c_seq c \<Longrightarrow> c \<in> set (snd (prune_loop a tot cs))" for tot cs
    by (induction a tot cs rule: prune_loop.induct) auto
  then show "c \<in> set (rb_chunks r) \<Longrightarrow> a < c_seq c \<Longrightarrow> c \<in> set (rb_chunks (prune_through a r))"
    by (simp add: prune_through_def case_prod_unfold Let_def)
qed

lemma prune_all_keeps_unread:
  "c \<in> set (rb_chunks r) \<Longrightarrow> (\<And>a. a \<in> set as \<Longrightarrow> a < c_seq c) \<Longrightarrow> c \<in> set (rb_chunks (fold prune_through as r))"
  by (induction as arbitrary: r) (auto intro: prune_keeps_unread)


lemmas sample_run_defs = sample_running_def start_session_def start_begin_def sample_mode sample_admits Let_def
  insert_session_def resolve_agent_bin_def launch_done_def handshake_error_def update_host_def update_db_def sessions_update_status_def
  sql_update_def attach_def push_event_def table_put_def socket_path_def push_replay_def

lemma sample_read_facts:
  "pump_at sample_read 0 = Some \<lparr>rp_session = ''s2'', rp_reading = True, rp_watermark = 1, rp_bytes_since_ack = 2, rp_last_sent = 0,
     rp_last_persisted = 0, rp_resolver = rp_resolver (the (pump_at sample_running 0)), rp_from = 0, rp_seen = [1]\<rparr>"
  "row_at sample_read ''s2'' = Some \<lparr>s_workarea_id = ''w1'', s_status = ''running'', s_permission_mode = Some ''auto'',
     s_bypass = 0, s_ended_at = None, s_last_acked_seq = 0\<rparr>"
  by (simp_all add: pump_at_def row_at_def sample_read_def pump_frame_def pump_stdout_def pump_update_def update_watermark_def sample_run_defs)


text \<open>A host found dead on its socket makes its session \<open>finished\<close>, not \<open>crashed\<close>: the status
  written first is overwritten by the end mark, and the sweep, which resumes crashed sessions, never
  looks at it.\<close>

theorem dead_host_recorded_finished:
  assumes "find_session_by_socket s sock = Some (sid, row, cols)" and "distinct (row_ids s)"
    and "hc_pty_cookie cols = Some cookie" and "length cookie = 32"
    and "greet sock (adoption_hello version row cookie) \<in> {NoSocket e, NotConnectable m, HelloUnsent m, ReadyUnread m, Answered CookieMismatch}"
  shows "\<exists>s'. try_adopt_one version greet now sock s = (False, s')
     \<and> row_at s' sid = Some (row\<lparr>s_ended_at := Some now, s_status := ''finished''\<rparr>) \<and> sid \<notin> set (find_cold_candidates s')"
proof -
  note F = find_session_by_socket_facts [OF assms(1,2)]
  have eq: "try_adopt_one version greet now sock s = (False, mark_crashed sid now s)"
    using assms by (auto simp: try_adopt_one_def)
  have row: "row_at (mark_crashed sid now s) sid = Some (row\<lparr>s_ended_at := Some now, s_status := ''finished''\<rparr>)"
    using F(1) by simp
  have dist: "distinct (row_ids (mark_crashed sid now s))" using assms(2) by simp
  have "sid \<notin> set (find_cold_candidates (mark_crashed sid now s))"
  proof
    assume "sid \<in> set (find_cold_candidates (mark_crashed sid now s))"
    then obtain r where "(sid, r) \<in> set (db_sessions (sp_db (mark_crashed sid now s)))" "s_ended_at r = None"
      by (auto simp: find_cold_candidates_def)
    then show False using row_at_in [OF dist] row by fastforce
  qed
  then show ?thesis using eq row by blast
qed

theorem dead_host_recorded_finished_witness:
  "\<exists>s'. try_adopt_one ''0'' (\<lambda>_ _. NotConnectable []) 9 ''/d/runtime/agents/s2.sock'' (restart_core sample_running) = (False, s')
     \<and> row_at s' ''s2'' = Some (\<lparr>s_workarea_id = ''w1'', s_status = ''running'', s_permission_mode = Some ''auto'',
         s_bypass = 0, s_ended_at = None, s_last_acked_seq = 0\<rparr>\<lparr>s_ended_at := Some 9, s_status := ''finished''\<rparr>)
     \<and> ''s2'' \<notin> set (find_cold_candidates s')"
  by (rule dead_host_recorded_finished [where cookie = "replicate 32 7" and e = "Internal []" and m = "[]" and
        cols = "\<lparr>hc_chat_id = ''c2'', hc_agent_kind = ''claude'', hc_host_pid = Some 42,
          hc_host_socket = Some ''/d/runtime/agents/s2.sock'', hc_pty_cookie = Some (replicate 32 7), hc_external_session_id = None, hc_started_at = 1\<rparr>"])
    (simp_all add: find_session_by_socket_def restart_core_def row_ids_def sample_run_defs)

text \<open>A connection that ends without an exit frame ends the pump and nothing else: the row still
  says that the session runs, its entry still takes input, and no event is sent.\<close>

theorem silent_death_keeps_running:
  assumes "supervised env lossy (s, ls)" and "pump_at s n = Some p" and "rp_reading p"
    and "entry_at s (rp_session p) = Some e" and "row_at s (rp_session p) = Some row"
  defines "s' \<equiv> pump_flush n (pump_eof n s)"
  shows "pump_at s' n = None \<and> entry_at s' (rp_session p) = Some e \<and> sp_sent s' = sp_sent s
     \<and> (\<exists>q. row_at s' (rp_session p) = Some (row\<lparr>s_last_acked_seq := q\<rparr>))"
proof -
  have p1: "map_of (sp_pumps (pump_eof n s)) n = Some (p\<lparr>rp_reading := False\<rparr>)"
    using assms(2) pump_at_simps(12) [of n "\<lambda>p. p\<lparr>rp_reading := False\<rparr>" s n] by (simp add: pump_eof_def pump_at_def)
  let ?s1 = "(pump_eof n s)\<lparr>sp_pumps := filter (\<lambda>(m, p). m \<noteq> n) (sp_pumps (pump_eof n s))\<rparr>"
  have flush: "s' = (if 0 < rp_watermark p then update_db (sessions_update_last_acked (rp_session p) (int (rp_watermark p))) ?s1 else ?s1)"
    using p1 by (simp add: s'_def pump_flush_def Let_def)
  have s1: "row_at ?s1 j = row_at s j" "entry_at ?s1 j = entry_at s j" "pump_at ?s1 n = None" "sp_sent ?s1 = sp_sent s" for j
    by (simp_all add: row_at_def entry_at_def pump_at_def pump_eof_def pump_update_def map_of_key_filter)
  have "\<exists>q. row = row\<lparr>s_last_acked_seq := q\<rparr>" by (rule exI [of _ "s_last_acked_seq row"]) simp
  moreover have "sp_sent (update_db f x) = sp_sent x" for f x by (simp add: update_db_def)
  ultimately show ?thesis using assms(4,5) by (auto simp: flush s1)
qed

theorem silent_death_keeps_running_witness:
  "\<exists>e s'. s' = pump_flush 0 (pump_eof 0 sample_read) \<and> pump_at s' 0 = None \<and> entry_at s' ''s2'' = Some e \<and> sp_sent s' = sp_sent sample_read
     \<and> (\<exists>q. row_at s' ''s2'' = Some (\<lparr>s_workarea_id = ''w1'', s_status = ''running'', s_permission_mode = Some ''auto'',
     s_bypass = 0, s_ended_at = None, s_last_acked_seq = 0\<rparr>\<lparr>s_last_acked_seq := q\<rparr>))"
proof -
  obtain e where e: "entry_at sample_read ''s2'' = Some e"
    using running_iff_entry [OF sample_reads, of "''s2''"] sample_read_facts(2) by auto
  show ?thesis
    using silent_death_keeps_running [OF sample_reads sample_read_facts(1), of e] e sample_read_facts(2) by simp
qed

text \<open>A start whose host cannot be spawned answers the error and leaves its row behind, \<open>starting\<close>
  and not ended, with no entry that a stop would find.\<close>

theorem failed_spawn_leaves_starting:
  assumes "start_session_admits (sp_db s) req = Inr u" and "start_mode env (sp_db s) req = Inr mode"
    and "rq_agent_kind req = ClaudeAgent" and "rq_chat_id req = None" and "chat \<notin> fst ` set (sp_chats s)"
    and "row_at s sid = None" and "entry_at s sid = None"
  shows "\<exists>s'. start_session env sid chat cookie now req (SpawnFailed e) h s = (Inl (Internal (''spawn agent-host: '' @ error_display e)), s')
     \<and> (\<exists>r. row_at s' sid = Some r \<and> s_status r = ''starting'' \<and> s_ended_at r = None)
     \<and> stop_session sid later s' = (Inl (session_not_running sid), s')"
proof -
  have fresh: "sid \<notin> fst ` set (db_sessions (sp_db s))" using assms(6) by (simp add: row_at_def map_of_eq_None_iff)
  obtain s1 where beg: "start_begin env sid chat cookie now req (SpawnFailed e) s = (Inl (Internal (''spawn agent-host: '' @ error_display e)), s1)"
    and s1: "sp_db s1 = (sp_db s)\<lparr>db_sessions := db_sessions (sp_db s) @ [(sid,
        \<lparr>s_workarea_id = rq_workarea_id req, s_status = ''starting'', s_permission_mode = Some (as_str_mode mode),
                         s_bypass = 0, s_ended_at = None, s_last_acked_seq = 0\<rparr>)]\<rparr>" "sp_entries s1 = sp_entries s"
    using assms fresh
    by (auto simp: start_begin_def Let_def insert_session_def update_db_def resolve_agent_bin_def)
  have "row_at s1 sid = Some \<lparr>s_workarea_id = rq_workarea_id req, s_status = ''starting'', s_permission_mode = Some (as_str_mode mode),
                         s_bypass = 0, s_ended_at = None, s_last_acked_seq = 0\<rparr>"
    using assms(6) by (simp add: row_at_def s1(1) map_add_def)
  moreover have "stop_session sid later s1 = (Inl (session_not_running sid), s1)"
    using assms(7) by (simp add: stop_session_def entry_at_def s1(2))
  moreover have "start_session env sid chat cookie now req (SpawnFailed e) h s = (Inl (Internal (''spawn agent-host: '' @ error_display e)), s1)"
    by (simp add: start_session_def beg)
  ultimately show ?thesis by simp
qed

theorem failed_spawn_leaves_starting_witness:
  "\<exists>s'. start_session sample_supervisor ''s2'' ''c2'' [] 1 sample_start (SpawnFailed (Io ''x'')) (NotConnectable []) sample_core
       = (Inl (Internal (''spawn agent-host: '' @ error_display (Io ''x''))), s')
     \<and> (\<exists>r. row_at s' ''s2'' = Some r \<and> s_status r = ''starting'' \<and> s_ended_at r = None)
     \<and> stop_session ''s2'' 5 s' = (Inl (session_not_running ''s2''), s')"
  by (rule failed_spawn_leaves_starting [OF sample_admits sample_mode]) (simp_all add: row_at_def entry_at_def)

text \<open>A resume does not ask whether the session runs: when it does, the entry is replaced while the
  old pump and the old host stay, now out of reach of a stop.\<close>

theorem resume_of_running_session_leaves_two_hosts:
  assumes "supervised env lossy (s, ls)" and "entry_at s sid = Some e" and "pump_at s (en_no e) = Some p"
    and "(old, sock) \<in> set (sp_hosts s)" and "old \<noteq> pid"
    and "cold_resume_session env sid cookie (Spawned pid) h s = (Inr sid, s')"
  shows "pump_at s' (en_no e) = Some p
     \<and> (\<exists>e' p'. entry_at s' sid = Some e' \<and> en_no e' \<noteq> en_no e \<and> en_child e' = Some pid \<and> pump_at s' (en_no e') = Some p' \<and> rp_session p' = sid)
     \<and> (old, sock) \<in> set (sp_hosts (snd (stop_session sid now s')))"
proof -
  have inv: "life_inv (s, ls)" using supervised_keeps [OF assms(1)] by simp
  then have pok: "pumps_ok s" and mok: "modes_ok s" by (simp_all add: life_inv_def)
  obtain r1 s1 where beg: "cold_resume_begin env sid cookie (Spawned pid) s = (r1, s1)"
    by (cases "cold_resume_begin env sid cookie (Spawned pid) s")
  then obtain la where la: "r1 = Inr la" using assms(6) by (cases r1) (auto simp: cold_resume_session_def)
  have b: "begun sid r1 s s1" using resume_begun [OF beg mok] la by auto
  have hosts: "(old, sock) \<in> set (sp_hosts s1)" and pid: "la_pid la = pid"
    using beg la assms(4)
    by (auto simp: cold_resume_begin_def cold_resume_existing_def Let_def update_db_def split: option.splits if_splits sum.splits)
  have sid: "la_session la = sid" using b la by (auto simp: begun_def)
  have pumps: "pump_at s1 n = pump_at s n" "sp_count s1 = sp_count s" for n using b by (auto simp: begun_def)
  have started: "launch_done env la h s1 = (Inr sid, s')" using assms(6) beg la by (simp add: cold_resume_session_def)
  then obtain m where m: "handshake_error env h = None" "parse_permission_mode (la_permission_mode la) = Inr m"
    by (auto simp: launch_done_def Let_def split: option.splits sum.splits)
  have s': "s' = push_event (sp_count s1) (EvStarted sid) (attach sid (la_workarea_id la) (la_chat_id la) (la_cookie la) m
      (la_socket_path la) (Some pid) (parser_of (la_kind la)) 0 (update_host sid pid (la_socket_path la) ''running'' s1))"
    using started m sid pid by (simp add: launch_done_def Let_def)
  have fresh: "pump_at s (sp_count s) = None" "en_no e < sp_count s"
    using pumps_okD(1) [OF pok, of "sp_count s"] pumps_okD(1) [OF pok assms(3)] by (cases "pump_at s (sp_count s)"; auto)+
  have kept: "sp_hosts s' = sp_hosts s1" by (simp add: s' push_event_def attach_def update_host_def update_db_def)
  obtain e' where e': "entry_at s' sid = Some e'" "en_no e' = sp_count s" "en_child e' = Some pid"
    by (simp add: s' pumps)
  have stopped: "sp_hosts (snd (stop_session sid now s')) = filter (\<lambda>(q, k). q \<noteq> pid) (sp_hosts s')"
    using e' by (simp add: stop_session_def entry_at_def push_event_def update_db_def tear_down_def kill_host_def)
  have "pump_at s' (en_no e) = Some p" using assms(3) by (simp add: s' pumps)
  moreover have "\<exists>p'. pump_at s' (sp_count s) = Some p' \<and> rp_session p' = sid" by (simp add: s' pumps fresh)
  moreover have "(old, sock) \<in> set (sp_hosts (snd (stop_session sid now s')))" using hosts assms(5) by (simp add: stopped kept)
  ultimately show ?thesis using e' fresh(2) by auto
qed

definition sample_outlived_row :: session_row where
  "sample_outlived_row = \<lparr>s_workarea_id = ''w1'', s_status = ''running'', s_permission_mode = Some ''auto'', s_bypass = 0,
     s_ended_at = None, s_last_acked_seq = 3\<rparr>"

definition sample_columns :: host_columns where
  "sample_columns = \<lparr>hc_chat_id = ''c3'', hc_agent_kind = ''claude'', hc_host_pid = Some 41, hc_host_socket = Some ''/d/s3.sock'',
     hc_pty_cookie = Some (replicate 32 9), hc_external_session_id = Some ''x'', hc_started_at = 1\<rparr>"

definition sample_outlived :: supervision where
  "sample_outlived = sample_core\<lparr>sp_db := sample_db\<lparr>db_sessions := [(''s3'', sample_outlived_row)]\<rparr>,
     sp_columns := [(''s3'', sample_columns)], sp_hosts := [(41, ''/d/s3.sock'')]\<rparr>"

definition sample_adopted :: supervision where
  "sample_adopted = snd (adopt_orphans sample_supervisor ''0'' (\<lambda>_ _. Answered (Ready Claude ''0'' None 5)) 9 (Some [''/d/s3.sock''])
     (\<lambda>_. None) (\<lambda>_. ([], Spawned 0, NotConnectable [])) sample_outlived)"

lemma sample_adopts: "supervised sample_supervisor (\<lambda>_. []) (sample_adopted, [])"
proof (rule powers_on)
  show "adopt_orphans sample_supervisor ''0'' (\<lambda>_ _. Answered (Ready Claude ''0'' None 5)) 9 (Some [''/d/s3.sock''])
     (\<lambda>_. None) (\<lambda>_. ([], Spawned 0, NotConnectable [])) sample_outlived
       = (fst (adopt_orphans sample_supervisor ''0'' (\<lambda>_ _. Answered (Ready Claude ''0'' None 5)) 9 (Some [''/d/s3.sock''])
     (\<lambda>_. None) (\<lambda>_. ([], Spawned 0, NotConnectable [])) sample_outlived), sample_adopted)"
    by (simp add: sample_adopted_def)
qed (simp_all add: sample_outlived_def row_ids_def modes_ok_def row_at_def sample_outlived_row_def row_mode_def)

lemma sample_adopted_eq:
  "sample_adopted = attach ''s3'' ''w1'' ''c3'' (replicate 32 9) Auto ''/d/s3.sock'' None ClaudeCodePack 3
     (update_db (sessions_update_status ''s3'' ''running'') sample_outlived)"
  by (simp add: sample_adopted_def adopt_orphans_def try_adopt_one_def find_session_by_socket_def sample_outlived_def sample_outlived_row_def
      sample_columns_def adopt_resume_session_def row_mode_def find_cold_candidates_def update_db_def attach_def table_put_def
      sessions_update_status_def sql_update_def)

theorem resume_of_running_session_leaves_two_hosts_witness:
  "\<exists>e p s'. entry_at sample_adopted ''s3'' = Some e
     \<and> cold_resume_session sample_supervisor ''s3'' [] (Spawned 42) (Answered (Ready Claude ''0'' None 0)) sample_adopted = (Inr ''s3'', s')
     \<and> pump_at s' (en_no e) = Some p
     \<and> (\<exists>e' p'. entry_at s' ''s3'' = Some e' \<and> en_no e' \<noteq> en_no e \<and> en_child e' = Some 42 \<and> pump_at s' (en_no e') = Some p' \<and> rp_session p' = ''s3'')
     \<and> (41, ''/d/s3.sock'') \<in> set (sp_hosts (snd (stop_session ''s3'' 5 s')))"
proof -
  obtain e where e: "entry_at sample_adopted ''s3'' = Some e" "en_no e = 0" by (simp add: sample_adopted_eq update_db_def sample_outlived_def)
  have "pump_at (update_db f sample_outlived) 0 = None" for f by (simp add: sample_outlived_def pump_at_def update_db_def)
  then obtain p where p: "pump_at sample_adopted (en_no e) = Some p"
    using e(2) by (simp add: sample_adopted_eq sample_outlived_def)
  have host: "(41, ''/d/s3.sock'') \<in> set (sp_hosts sample_adopted)"
    by (simp add: sample_adopted_eq attach_def update_db_def sample_outlived_def)
  have "\<exists>s'. cold_resume_session sample_supervisor ''s3'' [] (Spawned 42) (Answered (Ready Claude ''0'' None 0)) sample_adopted = (Inr ''s3'', s')"
    by (simp add: cold_resume_session_def cold_resume_begin_def session_columns_def sample_adopted_eq attach_def update_db_def
        sessions_update_status_def sql_update_def sample_outlived_def sample_outlived_row_def sample_columns_def workareas_get_def sample_db_def
        cold_resume_existing_def Let_def from_db_kind_def resolve_agent_bin_def launch_done_def handshake_error_def row_mode_def)
  then obtain s' where res: "cold_resume_session sample_supervisor ''s3'' [] (Spawned 42) (Answered (Ready Claude ''0'' None 0)) sample_adopted = (Inr ''s3'', s')" ..
  have "(41::int) \<noteq> 42" by simp
  from resume_of_running_session_leaves_two_hosts [OF sample_adopts e(1) p host this res, of 5]
  show ?thesis using e(1) res by blast
qed

text \<open>A stop of a session that has already exited is accepted: it moves the end time and sends a
  second exit event.\<close>

theorem exited_session_stops_again:
  assumes "entry_at s sid = Some e" and "en_finished e" and "row_at s sid = Some r"
  shows "fst (stop_session sid now s) = Inr ()
     \<and> row_at (snd (stop_session sid now s)) sid = Some (r\<lparr>s_ended_at := Some now, s_status := ''finished''\<rparr>)
     \<and> sp_sent (snd (stop_session sid now s)) = sp_sent s @ [EvExited sid None None]
     \<and> fst (stop_session sid later (snd (stop_session sid now s))) = Inl (session_not_running sid)"
proof -
  let ?s' = "push_event (en_no e) (EvExited sid None None) (update_db (sessions_mark_ended sid now) (tear_down sid e s))"
  have stop: "stop_session sid now s = (Inr (), ?s')" using assms(1) by (simp add: stop_session_def entry_at_def)
  have "entry_at ?s' sid = None" by simp
  then have again: "fst (stop_session sid later ?s') = Inl (session_not_running sid)" by (simp add: stop_session_def entry_at_def)
  have "sp_sent ?s' = sp_sent s @ [EvExited sid None None]"
    by (simp add: push_event_def update_db_def tear_down_def kill_host_def Let_def split: option.split)
  then show ?thesis using stop again assms(3) by simp
qed

theorem exited_session_stops_again_witness:
  "\<exists>s. s = pump_frame (\<lambda>_. []) 0 7 (AgentExited (Some 0) None) sample_read \<and> fst (stop_session ''s2'' 9 s) = Inr ()
     \<and> sp_sent (snd (stop_session ''s2'' 9 s)) = sp_sent s @ [EvExited ''s2'' None None]"
proof -
  let ?s = "pump_frame (\<lambda>_. []) 0 7 (AgentExited (Some 0) None) sample_read"
  have "\<exists>e. entry_at ?s ''s2'' = Some e \<and> en_finished e" "\<exists>r. row_at ?s ''s2'' = Some r"
    by (simp_all add: entry_at_def row_at_def pump_frame_def pump_exited_def pump_update_def reap_child_def finish_entry_def kill_host_def
        sessions_mark_ended_def sample_read_def pump_stdout_def update_watermark_def sample_run_defs)
  then obtain e r where e: "entry_at ?s ''s2'' = Some e" "en_finished e" and r: "row_at ?s ''s2'' = Some r" by blast
  show ?thesis using exited_session_stops_again [OF e r, of 9] by blast
qed

text \<open>Where the directory of the sockets cannot be read the sweep does nothing at all: every session
  that ran keeps its running row without an entry.\<close>

theorem unreadable_directory_leaves_ghosts:
  "adopt_orphans env version greet now None final attempt (restart_core s) = (0, restart_core s)
     \<and> row_at (restart_core s) sid = row_at s sid \<and> entry_at (restart_core s) sid = None
     \<and> stop_session sid later (restart_core s) = (Inl (session_not_running sid), restart_core s)"
  by (simp add: adopt_orphans_def restart_core_def row_at_def entry_at_def stop_session_def)

end
