(* ===== verification/Checks.thy ===== *)
theory Checks
  imports Json "HOL-Library.Monad_Syntax"
begin

text \<open>
  The aggregator of review threads, check runs and deployments (\<open>vcs/src/checks.rs\<close>): its three
  caches, the events it broadcasts for the subject of a workarea and repository, and the
  operations that drop an entry before they fetch again.

  A fetch of the provider is an argument, its outcome. \<open>check_runs\<close> awaits between the look into the
  cache and the store, so the two halves are operations of their own.
\<close>

section \<open>Data\<close>

record vcs_check_run =
  vr_name :: string
  vr_status :: string
  vr_conclusion :: string
  vr_details_url :: string

record review_thread =
  rt_id :: string
  rt_resolved :: bool
  rt_path :: "string option"
  rt_comments :: "string list"

record deployment =
  dp_id :: string
  dp_environment :: string
  dp_state :: string
  dp_ref :: string

text \<open>
  The opaque frame: a discriminator, the two identifiers and the entity. The code serialises the
  value; a frame here is the value, its members in the order the code writes them.
\<close>

definition KIND_THREAD_UPDATED :: string where "KIND_THREAD_UPDATED = ''thread_updated''"
definition KIND_CHECK_RUN_UPDATED :: string where "KIND_CHECK_RUN_UPDATED = ''check_run_updated''"
definition KIND_DEPLOYMENT_UPDATED :: string where "KIND_DEPLOYMENT_UPDATED = ''deployment_updated''"

definition build_frame :: "string \<Rightarrow> string \<Rightarrow> string \<Rightarrow> json \<Rightarrow> json" where
  "build_frame kind wa repo entity =
     JObject [(''kind'', JString kind), (''workarea_id'', JString wa), (''repository_id'', JString repo), (''entity'', entity)]"

definition thread_frame :: "string \<Rightarrow> string \<Rightarrow> review_thread \<Rightarrow> json" where
  "thread_frame wa repo t = build_frame KIND_THREAD_UPDATED wa repo
     (JObject [(''id'', JString (rt_id t)), (''resolved'', JBool (rt_resolved t)),
            (''path'', (case rt_path t of Some p \<Rightarrow> JString p | None \<Rightarrow> JNull)),
            (''comments'', JArray (map JString (rt_comments t)))])"

definition check_run_json :: "vcs_check_run \<Rightarrow> json" where
  "check_run_json r =
     JObject [(''name'', JString (vr_name r)), (''status'', JString (vr_status r)),
           (''conclusion'', JString (vr_conclusion r)), (''details_url'', JString (vr_details_url r))]"

definition check_run_frame :: "string \<Rightarrow> string \<Rightarrow> string \<Rightarrow> vcs_check_run list \<Rightarrow> json" where
  "check_run_frame wa repo sha runs = build_frame KIND_CHECK_RUN_UPDATED wa repo
     (JObject [(''sha'', JString sha), (''runs'', JArray (map check_run_json runs))])"

definition deployment_json :: "deployment \<Rightarrow> json" where
  "deployment_json d =
     JObject [(''id'', JString (dp_id d)), (''environment'', JString (dp_environment d)),
           (''state'', JString (dp_state d)), (''ref'', JString (dp_ref d))]"

definition deployment_frame :: "string \<Rightarrow> string \<Rightarrow> string \<Rightarrow> deployment list \<Rightarrow> json" where
  "deployment_frame wa repo ref ds = build_frame KIND_DEPLOYMENT_UPDATED wa repo
     (JObject [(''ref'', JString ref), (''deployments'', JArray (map deployment_json ds))])"

record vcs_event =
  ve_workarea :: string
  ve_repository :: string
  ve_frame :: json

definition CHECK_CACHE_TTL_SECS :: int where "CHECK_CACHE_TTL_SECS = 30"

record cached_checks =
  cc_fetched_at :: int
  cc_runs :: "vcs_check_run list"

record aggregator =
  ag_threads :: "string \<rightharpoonup> review_thread list"
  ag_checks :: "string \<times> string \<rightharpoonup> cached_checks"
  ag_deployments :: "string \<times> string \<rightharpoonup> deployment list"
  ag_events :: "vcs_event list"

definition new_aggregator :: aggregator where
  "new_aggregator = \<lparr>ag_threads = Map.empty, ag_checks = Map.empty, ag_deployments = Map.empty, ag_events = []\<rparr>"

record pr_id =
  pr_repo_full_name :: string
  pr_number :: int

definition pr_key :: "pr_id \<Rightarrow> string" where
  "pr_key pr = pr_repo_full_name pr @ ''#'' @ show_int (pr_number pr)"

definition emit_vcs :: "string \<Rightarrow> string \<Rightarrow> json \<Rightarrow> aggregator \<Rightarrow> aggregator" where
  "emit_vcs wa repo f ag = ag\<lparr>ag_events := ag_events ag @ [\<lparr>ve_workarea = wa, ve_repository = repo, ve_frame = f\<rparr>]\<rparr>"

section \<open>Review threads\<close>

definition thread_changed :: "review_thread list option \<Rightarrow> review_thread \<Rightarrow> bool" where
  "thread_changed prev thread =
     (case prev of
        Some prev_threads \<Rightarrow>
          (case List.find (\<lambda>t. rt_id t = rt_id thread) prev_threads of Some t \<Rightarrow> t \<noteq> thread | None \<Rightarrow> True)
      | None \<Rightarrow> True)"

definition list_review_threads ::
  "string \<Rightarrow> string \<Rightarrow> pr_id \<Rightarrow> review_thread list result \<Rightarrow> aggregator \<Rightarrow> review_thread list result \<times> aggregator" where
  "list_review_threads wa repo pr fetched ag =
     (case fetched of
        Inl e \<Rightarrow> (Inl e, ag)
      | Inr threads \<Rightarrow>
          (let prev = ag_threads ag (pr_key pr);
               ag = fold (\<lambda>t ag. if thread_changed prev t then emit_vcs wa repo (thread_frame wa repo t) ag else ag) threads ag
           in (Inr threads, ag\<lparr>ag_threads := (ag_threads ag)(pr_key pr \<mapsto> threads)\<rparr>)))"

text \<open>\<open>iter_mut().find\<close>: the first thread with the id is changed in place.\<close>

fun resolve_in :: "string \<Rightarrow> review_thread list \<Rightarrow> review_thread option \<times> review_thread list" where
  "resolve_in tid [] = (None, [])"
| "resolve_in tid (t # ts) =
     (if rt_id t = tid then (Some (t\<lparr>rt_resolved := True\<rparr>), t\<lparr>rt_resolved := True\<rparr> # ts)
      else (case resolve_in tid ts of (found, ts') \<Rightarrow> (found, t # ts')))"

definition resolve_thread ::
  "string \<Rightarrow> string \<Rightarrow> pr_id \<Rightarrow> string \<Rightarrow> unit result \<Rightarrow> aggregator \<Rightarrow> unit result \<times> aggregator" where
  "resolve_thread wa repo pr tid mutated ag =
     (case mutated of
        Inl e \<Rightarrow> (Inl e, ag)
      | Inr _ \<Rightarrow>
          (let (updated, ag) =
                 (case ag_threads ag (pr_key pr) of
                    None \<Rightarrow> (None, ag)
                  | Some ts \<Rightarrow>
                      (case resolve_in tid ts of
                         (found, ts') \<Rightarrow> (found, ag\<lparr>ag_threads := (ag_threads ag)(pr_key pr \<mapsto> ts')\<rparr>)));
               t = (case updated of
                      Some t \<Rightarrow> t
                    | None \<Rightarrow> \<lparr>rt_id = tid, rt_resolved = True, rt_path = None, rt_comments = []\<rparr>)
           in (Inr (), emit_vcs wa repo (thread_frame wa repo t) ag)))"

definition invalidate_threads ::
  "string \<Rightarrow> string \<Rightarrow> pr_id \<Rightarrow> review_thread list result \<Rightarrow> aggregator \<Rightarrow> review_thread list result \<times> aggregator" where
  "invalidate_threads wa repo pr fetched ag =
     list_review_threads wa repo pr fetched (ag\<lparr>ag_threads := (ag_threads ag)(pr_key pr := None)\<rparr>)"

section \<open>Check runs and deployments\<close>

definition serve_checks :: "string \<Rightarrow> string \<Rightarrow> bool \<Rightarrow> int \<Rightarrow> aggregator \<Rightarrow> vcs_check_run list option" where
  "serve_checks full sha force now ag =
     (if force then None
      else case ag_checks ag (full, sha) of
             Some c \<Rightarrow> if now - cc_fetched_at c < CHECK_CACHE_TTL_SECS then Some (cc_runs c) else None
           | None \<Rightarrow> None)"

definition store_checks ::
  "string \<Rightarrow> string \<Rightarrow> string \<Rightarrow> string \<Rightarrow> int \<Rightarrow> vcs_check_run list \<Rightarrow> aggregator \<Rightarrow> aggregator" where
  "store_checks wa repo full sha now runs ag =
     (let changed = (case ag_checks ag (full, sha) of Some c \<Rightarrow> cc_runs c \<noteq> runs | None \<Rightarrow> True);
          ag = ag\<lparr>ag_checks := (ag_checks ag)((full, sha) \<mapsto> \<lparr>cc_fetched_at = now, cc_runs = runs\<rparr>)\<rparr>
      in if changed then emit_vcs wa repo (check_run_frame wa repo sha runs) ag else ag)"

definition check_runs ::
  "string \<Rightarrow> string \<Rightarrow> string \<Rightarrow> string \<Rightarrow> bool \<Rightarrow> int \<Rightarrow> vcs_check_run list result \<Rightarrow> aggregator \<Rightarrow>
     vcs_check_run list result \<times> aggregator" where
  "check_runs wa repo full sha force now fetched ag =
     (case serve_checks full sha force now ag of
        Some runs \<Rightarrow> (Inr runs, ag)
      | None \<Rightarrow>
          (case fetched of
             Inl e \<Rightarrow> (Inl e, ag)
           | Inr runs \<Rightarrow> (Inr runs, store_checks wa repo full sha now runs ag)))"

definition list_deployments ::
  "string \<Rightarrow> string \<Rightarrow> string \<Rightarrow> string \<Rightarrow> deployment list result \<Rightarrow> aggregator \<Rightarrow> deployment list result \<times> aggregator" where
  "list_deployments wa repo full ref fetched ag =
     (case fetched of
        Inl e \<Rightarrow> (Inl e, ag)
      | Inr ds \<Rightarrow>
          (let changed = (case ag_deployments ag (full, ref) of Some d \<Rightarrow> d \<noteq> ds | None \<Rightarrow> True);
               ag = ag\<lparr>ag_deployments := (ag_deployments ag)((full, ref) \<mapsto> ds)\<rparr>
           in (Inr ds, if changed then emit_vcs wa repo (deployment_frame wa repo ref ds) ag else ag)))"

definition invalidate_check_runs ::
  "string \<Rightarrow> string \<Rightarrow> string \<Rightarrow> string \<Rightarrow> int \<Rightarrow> vcs_check_run list result \<Rightarrow> aggregator \<Rightarrow>
     vcs_check_run list result \<times> aggregator" where
  "invalidate_check_runs wa repo full sha now fetched ag =
     check_runs wa repo full sha True now fetched (ag\<lparr>ag_checks := (ag_checks ag)((full, sha) := None)\<rparr>)"

definition invalidate_deployments ::
  "string \<Rightarrow> string \<Rightarrow> string \<Rightarrow> string \<Rightarrow> deployment list result \<Rightarrow> aggregator \<Rightarrow> deployment list result \<times> aggregator" where
  "invalidate_deployments wa repo full ref fetched ag =
     list_deployments wa repo full ref fetched (ag\<lparr>ag_deployments := (ag_deployments ag)((full, ref) := None)\<rparr>)"

text \<open>The pull to refresh: every entry dropped first, then three fetches, the first error ends it.\<close>

definition refresh_workarea_pr ::
  "string \<Rightarrow> string \<Rightarrow> pr_id \<Rightarrow> string \<Rightarrow> int \<Rightarrow> review_thread list result \<Rightarrow> vcs_check_run list result \<Rightarrow>
     deployment list result \<Rightarrow> aggregator \<Rightarrow> unit result \<times> aggregator" where
  "refresh_workarea_pr wa repo pr head_sha now threads runs ds ag =
     (let full = pr_repo_full_name pr;
          ag = ag\<lparr>ag_threads := (ag_threads ag)(pr_key pr := None),
                  ag_checks := (ag_checks ag)((full, head_sha) := None),
                  ag_deployments := (ag_deployments ag)((full, head_sha) := None)\<rparr>
      in case list_review_threads wa repo pr threads ag of
           (Inl e, ag) \<Rightarrow> (Inl e, ag)
         | (Inr _, ag) \<Rightarrow>
             (case check_runs wa repo full head_sha True now runs ag of
                (Inl e, ag) \<Rightarrow> (Inl e, ag)
              | (Inr _, ag) \<Rightarrow>
                  (case list_deployments wa repo full head_sha ds ag of
                     (Inl e, ag) \<Rightarrow> (Inl e, ag)
                   | (Inr _, ag) \<Rightarrow> (Inr (), ag))))"

section \<open>What a client knows\<close>

text \<open>A client of one subject reads the thread frames and keeps, of every id, the last one.\<close>

definition read_thread :: "json \<Rightarrow> review_thread option" where
  "read_thread v =
     (if json_get v ''kind'' = Some (JString KIND_THREAD_UPDATED)
      then do {
        e \<leftarrow> json_get v ''entity'';
        i \<leftarrow> Option.bind (json_get e ''id'') as_str;
        r \<leftarrow> Option.bind (json_get e ''resolved'') as_bool;
        p \<leftarrow> json_get e ''path'';
        cs \<leftarrow> Option.bind (Option.bind (json_get e ''comments'') as_array) (\<lambda>a. those (map as_str a));
        Some \<lparr>rt_id = i, rt_resolved = r, rt_path = as_str p, rt_comments = cs\<rparr>
      }
      else None)"

lemma those_as_str [simp]: "those (map (as_str \<circ> JString) cs) = Some cs"
  by (induction cs) auto

lemma read_thread_frame [simp]: "read_thread (thread_frame wa repo t) = Some t"
  by (simp add: read_thread_def thread_frame_def build_frame_def split: option.split)

lemma read_other_frames [simp]:
  "read_thread (check_run_frame wa repo sha runs) = None"
  "read_thread (deployment_frame wa repo ref ds) = None"
  by (simp_all add: read_thread_def check_run_frame_def deployment_frame_def build_frame_def
        KIND_THREAD_UPDATED_def KIND_CHECK_RUN_UPDATED_def KIND_DEPLOYMENT_UPDATED_def)

definition apply_frame :: "json \<Rightarrow> (string \<rightharpoonup> review_thread) \<Rightarrow> (string \<rightharpoonup> review_thread)" where
  "apply_frame v known = (case read_thread v of Some t \<Rightarrow> known(rt_id t \<mapsto> t) | None \<Rightarrow> known)"

definition view :: "string \<Rightarrow> string \<Rightarrow> aggregator \<Rightarrow> (string \<rightharpoonup> review_thread)" where
  "view wa repo ag = fold (\<lambda>e known. apply_frame (ve_frame e) known)
     (filter (\<lambda>e. ve_workarea e = wa \<and> ve_repository e = repo) (ag_events ag)) Map.empty"

text \<open>The client is in sync on a pull request: of every cached thread it has the cached version.\<close>

definition in_sync :: "string \<Rightarrow> string \<Rightarrow> pr_id \<Rightarrow> aggregator \<Rightarrow> bool" where
  "in_sync wa repo pr ag \<longleftrightarrow>
     (case ag_threads ag (pr_key pr) of
        None \<Rightarrow> True
      | Some ts \<Rightarrow> distinct (map rt_id ts) \<and> list_all (\<lambda>t. view wa repo ag (rt_id t) = Some t) ts)"

lemma view_emit [simp]: "view wa repo (emit_vcs wa repo f ag) = apply_frame f (view wa repo ag)"
  by (simp add: view_def emit_vcs_def)

lemma apply_thread_frame [simp]:
  "apply_frame (thread_frame wa repo t) known = known(rt_id t \<mapsto> t)"
  "apply_frame (check_run_frame wa repo sha runs) known = known"
  "apply_frame (deployment_frame wa repo ref ds) known = known"
  by (simp_all add: apply_frame_def)

lemma emit_vcs_simps [simp]:
  "ag_threads (emit_vcs wa repo f ag) = ag_threads ag" "ag_checks (emit_vcs wa repo f ag) = ag_checks ag"
  "ag_deployments (emit_vcs wa repo f ag) = ag_deployments ag"
  by (simp_all add: emit_vcs_def)

lemma view_update [simp]:
  "view wa repo (ag\<lparr>ag_threads := x\<rparr>) = view wa repo ag" "view wa repo (ag\<lparr>ag_checks := y\<rparr>) = view wa repo ag"
  "view wa repo (ag\<lparr>ag_deployments := z\<rparr>) = view wa repo ag"
  by (simp_all add: view_def)

lemma same_id: "distinct (map rt_id ts) \<Longrightarrow> t \<in> set ts \<Longrightarrow> s \<in> set ts \<Longrightarrow> rt_id s = rt_id t \<Longrightarrow> s = t"
  by (auto simp: distinct_map dest: inj_onD)

lemma find_by_id:
  assumes "distinct (map rt_id ts)" and "t \<in> set ts"
  shows "List.find (\<lambda>s. rt_id s = rt_id t \<and> P s) ts = (if P t then Some t else None)"
proof (cases "List.find (\<lambda>s. rt_id s = rt_id t \<and> P s) ts")
  case None
  with assms show ?thesis by (auto simp: find_None_iff)
next
  case (Some s)
  then have "s \<in> set ts" "rt_id s = rt_id t" "P s" by (auto simp: find_Some_iff)
  with Some same_id [OF assms] show ?thesis by auto
qed

lemma view_after_list:
  assumes "distinct (map rt_id ts)"
  shows "view wa repo (fold (\<lambda>t ag. if P t then emit_vcs wa repo (thread_frame wa repo t) ag else ag) ts ag) i
    = (case List.find (\<lambda>t. rt_id t = i \<and> P t) ts of Some t \<Rightarrow> Some t | None \<Rightarrow> view wa repo ag i)"
  using assms
proof (induction ts arbitrary: ag)
  case (Cons t ts)
  have none: "List.find (\<lambda>s. rt_id s = rt_id t \<and> P s) ts = None"
    using Cons.prems by (simp add: find_None_iff) (metis imageI)
  show ?case
    using Cons none by (auto split: option.split)
qed simp

lemma threads_after_list [simp]:
  "ag_threads (fold (\<lambda>t ag. if P t then emit_vcs wa repo (thread_frame wa repo t) ag else ag) ts ag) = ag_threads ag"
  by (induction ts arbitrary: ag) auto

definition ids_distinct :: "review_thread list result \<Rightarrow> bool" where
  "ids_distinct fetched = (case fetched of Inr ts \<Rightarrow> distinct (map rt_id ts) | Inl e \<Rightarrow> True)"

lemma list_in_sync [preserves]:
  assumes "in_sync wa repo pr ag" and "ids_distinct fetched"
  shows "in_sync wa repo pr (snd (list_review_threads wa repo pr fetched ag))"
proof (cases fetched)
  case (Inl e)
  with assms show ?thesis by (simp add: list_review_threads_def)
next
  case (Inr ts)
  with assms have d: "distinct (map rt_id ts)" by (simp add: ids_distinct_def)
  let ?prev = "ag_threads ag (pr_key pr)"
  have "view wa repo (fold (\<lambda>t ag. if thread_changed ?prev t then emit_vcs wa repo (thread_frame wa repo t) ag else ag) ts ag)
          (rt_id t) = Some t" if t: "t \<in> set ts" for t
  proof (cases "thread_changed ?prev t")
    case True
    then show ?thesis by (simp add: view_after_list [OF d] find_by_id [OF d t])
  next
    case False
    then obtain ps where ps: "?prev = Some ps" "List.find (\<lambda>s. rt_id s = rt_id t) ps = Some t"
      by (auto simp: thread_changed_def split: option.splits)
    then have "t \<in> set ps" by (auto simp: find_Some_iff)
    with assms(1) ps(1) have "view wa repo ag (rt_id t) = Some t" by (simp add: in_sync_def list_all_iff)
    with False show ?thesis by (simp add: view_after_list [OF d] find_by_id [OF d t])
  qed
  with Inr d show ?thesis by (simp add: list_review_threads_def in_sync_def Let_def list_all_iff)
qed

lemma resolve_in_None: "fst (resolve_in tid ts) = None \<Longrightarrow> snd (resolve_in tid ts) = ts \<and> tid \<notin> rt_id ` set ts"
  by (induction ts) (auto split: prod.splits if_splits)

lemma resolve_in_Some:
  "fst (resolve_in tid ts) = Some t \<Longrightarrow> distinct (map rt_id ts) \<Longrightarrow>
     rt_id t = tid \<and> map rt_id (snd (resolve_in tid ts)) = map rt_id ts \<and>
     set (snd (resolve_in tid ts)) \<subseteq> insert t {s \<in> set ts. rt_id s \<noteq> tid}"
proof (induction ts)
  case (Cons a ts)
  show ?case
  proof (cases "rt_id a = tid")
    case True
    with Cons.prems have "rt_id s \<noteq> tid" if "s \<in> set ts" for s
      using that by (auto simp: image_iff)
    with True Cons.prems show ?thesis by auto
  next
    case False
    obtain found ts' where r: "resolve_in tid ts = (found, ts')" by (cases "resolve_in tid ts")
    with Cons False show ?thesis by auto
  qed
qed simp

lemma resolve_in_sync [preserves]:
  assumes "in_sync wa repo pr ag"
  shows "in_sync wa repo pr (snd (resolve_thread wa repo pr tid res ag))"
proof (cases res)
  case (Inl e)
  with assms show ?thesis by (simp add: resolve_thread_def)
next
  case (Inr u)
  show ?thesis
  proof (cases "ag_threads ag (pr_key pr)")
    case None
    with Inr show ?thesis by (simp add: resolve_thread_def in_sync_def)
  next
    case (Some ts)
    obtain found ts' where r: "resolve_in tid ts = (found, ts')" by (cases "resolve_in tid ts")
    from assms Some have d: "distinct (map rt_id ts)" and v: "\<forall>t\<in>set ts. view wa repo ag (rt_id t) = Some t"
      by (simp_all add: in_sync_def list_all_iff)
    show ?thesis
    proof (cases found)
      case None
      with r have "ts' = ts" "tid \<notin> rt_id ` set ts" using resolve_in_None [of tid ts] by auto
      with Inr Some r None d v show ?thesis
        by (auto simp: resolve_thread_def in_sync_def list_all_iff)
    next
      case (Some t)
      with r d have "rt_id t = tid" "map rt_id ts' = map rt_id ts"
          "set ts' \<subseteq> insert t {s \<in> set ts. rt_id s \<noteq> tid}"
        using resolve_in_Some [of tid ts t] by auto
      with Inr \<open>ag_threads ag (pr_key pr) = Some ts\<close> r Some d v show ?thesis
        by (auto simp: resolve_thread_def in_sync_def list_all_iff)
    qed
  qed
qed

lemma other_calls_in_sync [preserves]:
  "in_sync wa repo pr (snd (check_runs wa repo full sha force now runs ag)) = in_sync wa repo pr ag"
  "in_sync wa repo pr (snd (list_deployments wa repo full ref ds ag)) = in_sync wa repo pr ag"
  by (auto simp: in_sync_def check_runs_def store_checks_def list_deployments_def Let_def
      split: option.splits sum.splits)

lemma in_sync_dropped [simp]:
  "in_sync wa repo pr (ag\<lparr>ag_threads := (ag_threads ag)(pr_key pr := None)\<rparr>)"
  "in_sync wa repo pr (ag\<lparr>ag_threads := (ag_threads ag)(pr_key pr := None), ag_checks := y, ag_deployments := z\<rparr>)"
  "in_sync wa repo pr (ag\<lparr>ag_checks := y\<rparr>) = in_sync wa repo pr ag"
  "in_sync wa repo pr (ag\<lparr>ag_deployments := z\<rparr>) = in_sync wa repo pr ag"
  by (simp_all add: in_sync_def split: option.split)

text \<open>The calls one workarea makes for its pull request, with what the provider answers.\<close>

datatype agg_op =
    ListThreads "review_thread list result"
  | ResolveThread string "unit result"
  | InvalidateThreads "review_thread list result"
  | ReadChecks string string bool int "vcs_check_run list result"
  | InvalidateChecks string string int "vcs_check_run list result"
  | ReadDeployments string string "deployment list result"
  | InvalidateDeployments string string "deployment list result"
  | RefreshPr string int "review_thread list result" "vcs_check_run list result" "deployment list result"

fun agg_step :: "string \<Rightarrow> string \<Rightarrow> pr_id \<Rightarrow> agg_op \<Rightarrow> aggregator \<Rightarrow> aggregator" where
  "agg_step wa repo pr (ListThreads ts) ag = snd (list_review_threads wa repo pr ts ag)"
| "agg_step wa repo pr (ResolveThread tid r) ag = snd (resolve_thread wa repo pr tid r ag)"
| "agg_step wa repo pr (InvalidateThreads ts) ag = snd (invalidate_threads wa repo pr ts ag)"
| "agg_step wa repo pr (ReadChecks full sha force now runs) ag = snd (check_runs wa repo full sha force now runs ag)"
| "agg_step wa repo pr (InvalidateChecks full sha now runs) ag = snd (invalidate_check_runs wa repo full sha now runs ag)"
| "agg_step wa repo pr (ReadDeployments full ref ds) ag = snd (list_deployments wa repo full ref ds ag)"
| "agg_step wa repo pr (InvalidateDeployments full ref ds) ag = snd (invalidate_deployments wa repo full ref ds ag)"
| "agg_step wa repo pr (RefreshPr sha now ts runs ds) ag = snd (refresh_workarea_pr wa repo pr sha now ts runs ds ag)"

text \<open>A provider gives the threads of a pull request distinct ids.\<close>

fun op_ids_distinct :: "agg_op \<Rightarrow> bool" where
  "op_ids_distinct (ListThreads ts) = ids_distinct ts"
| "op_ids_distinct (InvalidateThreads ts) = ids_distinct ts"
| "op_ids_distinct (RefreshPr sha now ts runs ds) = ids_distinct ts"
| "op_ids_distinct _ = True"

lemma refresh_in_sync [preserves]:
  assumes "ids_distinct ts"
  shows "in_sync wa repo pr (snd (refresh_workarea_pr wa repo pr sha now ts runs ds ag))"
proof -
  define ag0 where "ag0 = ag\<lparr>ag_threads := (ag_threads ag)(pr_key pr := None),
    ag_checks := (ag_checks ag)((pr_repo_full_name pr, sha) := None),
    ag_deployments := (ag_deployments ag)((pr_repo_full_name pr, sha) := None)\<rparr>"
  obtain r1 ag1 where l: "list_review_threads wa repo pr ts ag0 = (r1, ag1)" by fastforce
  obtain r2 ag2 where c: "check_runs wa repo (pr_repo_full_name pr) sha True now runs ag1 = (r2, ag2)" by fastforce
  obtain r3 ag3 where d: "list_deployments wa repo (pr_repo_full_name pr) sha ds ag2 = (r3, ag3)" by fastforce
  have "in_sync wa repo pr ag0" by (simp add: ag0_def)
  then have "in_sync wa repo pr ag1" using list_in_sync [OF _ assms, of wa repo pr ag0] l by simp
  moreover from this have "in_sync wa repo pr ag2" using other_calls_in_sync(1) c by (metis snd_conv)
  moreover from this have "in_sync wa repo pr ag3" using other_calls_in_sync(2) d by (metis snd_conv)
  ultimately show ?thesis
    using l c d by (auto simp: refresh_workarea_pr_def ag0_def [symmetric] Let_def split: sum.splits)
qed

lemma agg_step_in_sync:
  "op_ids_distinct op \<Longrightarrow> in_sync wa repo pr ag \<Longrightarrow> in_sync wa repo pr (agg_step wa repo pr op ag)"
  by (cases op)
    (simp_all add: preserves invalidate_threads_def invalidate_check_runs_def invalidate_deployments_def)

interpretation threads: guarded_machine "\<lambda>ag op. agg_step wa repo pr op ag" "in_sync wa repo pr" op_ids_distinct for wa repo pr
  by unfold_locales (simp add: agg_step_in_sync)

text \<open>A client that reads the frames of its workarea's subject holds, after any sequence of
  the aggregator's calls for its pull request (failed fetches, resolutions, dropped entries and
  forced refreshes among them), the cached version of every cached review thread: a frame is held
  back only where the client already has the thread as it is.\<close>

theorem cached_threads_are_announced:
  fixes wa repo :: string and pr :: pr_id and ops :: "agg_op list"
  defines "ag \<equiv> fold (\<lambda>op ag. agg_step wa repo pr op ag) ops new_aggregator"
  assumes "list_all op_ids_distinct ops" and "ag_threads ag (pr_key pr) = Some ts" and "t \<in> set ts"
  shows "view wa repo ag (rt_id t) = Some t"
proof -
  have "in_sync wa repo pr new_aggregator" by (simp add: in_sync_def new_aggregator_def)
  with assms(2) have "in_sync wa repo pr ag"
    unfolding ag_def by (rule threads.guarded_run_inv)
  with assms(3,4) show ?thesis by (simp add: in_sync_def list_all_iff)
qed

theorem cached_threads_are_announced_witness:
  "\<exists>pr t u ops. list_all op_ids_distinct ops \<and>
     ag_threads (fold (\<lambda>op ag. agg_step ''w'' ''r'' pr op ag) ops new_aggregator) (pr_key pr) = Some [t] \<and>
     view ''w'' ''r'' (fold (\<lambda>op ag. agg_step ''w'' ''r'' pr op ag) ops new_aggregator) (rt_id u) = Some t \<and> t \<noteq> u"
proof -
  define pr where "pr = \<lparr>pr_repo_full_name = ''o/r'', pr_number = 7\<rparr>"
  define u where "u = \<lparr>rt_id = ''t1'', rt_resolved = False, rt_path = Some ''a.rs'', rt_comments = [''nit'']\<rparr>"
  define ops where "ops = [ListThreads (Inr [u]), ResolveThread ''t1'' (Inr ()), ListThreads (Inl (Vcs ''down''))]"
  have ok: "list_all op_ids_distinct ops" by (simp add: ops_def ids_distinct_def)
  have c: "ag_threads (fold (\<lambda>op ag. agg_step ''w'' ''r'' pr op ag) ops new_aggregator) (pr_key pr)
      = Some [u\<lparr>rt_resolved := True\<rparr>]"
    by (simp add: ops_def list_review_threads_def resolve_thread_def new_aggregator_def thread_changed_def u_def)
  have "view ''w'' ''r'' (fold (\<lambda>op ag. agg_step ''w'' ''r'' pr op ag) ops new_aggregator)
      (rt_id (u\<lparr>rt_resolved := True\<rparr>)) = Some (u\<lparr>rt_resolved := True\<rparr>)"
    by (rule cached_threads_are_announced [OF ok c]) simp
  with ok c show ?thesis by (intro exI [of _ pr] exI [of _ "u\<lparr>rt_resolved := True\<rparr>"] exI [of _ u] exI [of _ ops])
      (simp add: u_def)
qed

section \<open>Frames of check runs\<close>

text \<open>A sequence of reads of one commit's runs, each with its clock and the provider's answer.\<close>

fun read_checks ::
  "string \<Rightarrow> string \<Rightarrow> string \<Rightarrow> string \<Rightarrow> (bool \<times> int \<times> vcs_check_run list result) list \<Rightarrow> aggregator \<Rightarrow>
     vcs_check_run list result list \<times> aggregator" where
  "read_checks wa repo full sha [] ag = ([], ag)"
| "read_checks wa repo full sha ((force, now, fetched) # reads) ag =
     (let (r, ag) = check_runs wa repo full sha force now fetched ag;
          (rs, ag) = read_checks wa repo full sha reads ag
      in (r # rs, ag))"

fun answers :: "'a result list \<Rightarrow> 'a list" where
  "answers [] = []"
| "answers (Inr a # rs) = a # answers rs"
| "answers (Inl e # rs) = answers rs"

definition check_event :: "string \<Rightarrow> string \<Rightarrow> string \<Rightarrow> vcs_check_run list \<Rightarrow> vcs_event" where
  "check_event wa repo sha runs =
     \<lparr>ve_workarea = wa, ve_repository = repo, ve_frame = check_run_frame wa repo sha runs\<rparr>"

fun changes :: "'a option \<Rightarrow> 'a list \<Rightarrow> 'a list" where
  "changes prev [] = []"
| "changes prev (x # xs) = (if prev = Some x then changes prev xs else x # changes (Some x) xs)"

lemma changes_Some: "p # changes (Some p) xs = remdups_adj (p # xs)"
proof (induction xs arbitrary: p)
  case (Cons x xs)
  then show ?case using Cons [of p] Cons [of x] by auto
qed simp

lemma changes_None: "changes None xs = remdups_adj xs"
  by (cases xs) (simp_all add: changes_Some)

abbreviation stored :: "string \<Rightarrow> string \<Rightarrow> aggregator \<Rightarrow> vcs_check_run list option" where
  "stored full sha ag \<equiv> map_option cc_runs (ag_checks ag (full, sha))"

lemma check_runs_step:
  assumes "check_runs wa repo full sha force now fetched ag = (r, ag1)"
  shows "(\<exists>e. r = Inl e \<and> ag1 = ag) \<or>
    (\<exists>runs. r = Inr runs \<and> stored full sha ag1 = Some runs \<and>
       ag_events ag1 = ag_events ag @ (if stored full sha ag = Some runs then [] else [check_event wa repo sha runs]))"
proof (cases "serve_checks full sha force now ag")
  case (Some runs)
  then have "stored full sha ag = Some runs"
    by (auto simp: serve_checks_def split: if_splits option.splits)
  with Some assms show ?thesis by (auto simp: check_runs_def)
next
  case None
  have "stored full sha (store_checks wa repo full sha now runs ag) = Some runs \<and>
      ag_events (store_checks wa repo full sha now runs ag)
        = ag_events ag @ (if stored full sha ag = Some runs then [] else [check_event wa repo sha runs])" for runs
    by (cases "ag_checks ag (full, sha)") (simp_all add: store_checks_def Let_def emit_vcs_def check_event_def)
  with None assms show ?thesis by (cases fetched) (auto simp: check_runs_def)
qed

lemma read_checks_events:
  "read_checks wa repo full sha reads ag = (rs, ag') \<Longrightarrow>
     ag_events ag' = ag_events ag @ map (check_event wa repo sha) (changes (stored full sha ag) (answers rs))"
proof (induction reads arbitrary: ag rs)
  case (Cons x reads)
  obtain force now fetched where x: "x = (force, now, fetched)" by (cases x)
  obtain r ag1 where r: "check_runs wa repo full sha force now fetched ag = (r, ag1)" by fastforce
  obtain rs1 where rs1: "read_checks wa repo full sha reads ag1 = (rs1, ag')" "rs = r # rs1"
    using Cons.prems x r by (auto split: prod.splits)
  from Cons.IH [OF rs1(1)] rs1(2) check_runs_step [OF r] show ?case by auto
qed simp

text \<open>Whatever a sequence of reads of a commit's check runs finds (answers from the cache,
  fetches after the time to live, forced fetches, errors of the provider), the frames on the
  workarea's subject are the answers the readers got, in order, with each repetition of the answer
  before left out: no change goes unannounced and none is announced twice.\<close>

theorem check_frames_are_the_changes:
  "ag_events (snd (read_checks wa repo full sha reads new_aggregator)) =
     map (check_event wa repo sha) (remdups_adj (answers (fst (read_checks wa repo full sha reads new_aggregator))))"
  using read_checks_events [of wa repo full sha reads new_aggregator]
  by (simp add: prod_eq_iff new_aggregator_def changes_None)

end
