(* ===== verification/WebhookWire.thy ===== *)
theory WebhookWire
  imports Prelude
begin

text \<open>
  A webhook on its way from the provider to the Core: the HTTP request the relay reads
  (\<open>relay/src/webhook.rs\<close>), the frame it writes on the \<open>0x04\<close> channel, the envelope the Core reads
  off that channel (\<open>transport/src/webhook.rs\<close>), the one byte it answers with, and the HTTP status
  the relay makes of it.

  Bytes are characters. The peer's stream is the list of what its reads return: bytes, or a failed
  read (\<open>None\<close>); the end of the list is the end of the stream. Whether a text is an endpoint id
  of the transport library is the argument \<open>valid_id\<close>.
\<close>

abbreviation byte :: "char \<Rightarrow> nat" where "byte \<equiv> of_char"

abbreviation CR :: char where "CR \<equiv> CHR 0x0D"
abbreviation LF :: char where "LF \<equiv> CHR 0x0A"

section \<open>UTF-8\<close>

text \<open>
  \<open>String::from_utf8\<close>: what may follow a leading byte, as the bounds of the second byte and the
  number of continuation bytes after it.
\<close>

definition utf8_lead :: "nat \<Rightarrow> (nat \<times> nat \<times> nat) option" where
  "utf8_lead n =
     (if 0xC2 \<le> n \<and> n \<le> 0xDF then Some (0x80, 0xBF, 0)
      else if n = 0xE0 then Some (0xA0, 0xBF, 1)
      else if n = 0xED then Some (0x80, 0x9F, 1)
      else if 0xE1 \<le> n \<and> n \<le> 0xEF then Some (0x80, 0xBF, 1)
      else if n = 0xF0 then Some (0x90, 0xBF, 2)
      else if 0xF1 \<le> n \<and> n \<le> 0xF3 then Some (0x80, 0xBF, 2)
      else if n = 0xF4 then Some (0x80, 0x8F, 2)
      else None)"

definition is_continuation :: "char \<Rightarrow> bool" where
  "is_continuation c \<longleftrightarrow> 0x80 \<le> byte c \<and> byte c \<le> 0xBF"

text \<open>The rest after the first scalar value.\<close>

fun utf8_step :: "string \<Rightarrow> string option" where
  "utf8_step [] = None"
| "utf8_step (c # s) =
     (if byte c < 0x80 then Some s
      else case utf8_lead (byte c) of
             None \<Rightarrow> None
           | Some (lo, hi, k) \<Rightarrow>
               (case s of
                  [] \<Rightarrow> None
                | d # r \<Rightarrow>
                    if lo \<le> byte d \<and> byte d \<le> hi \<and> k \<le> length r \<and> list_all is_continuation (take k r)
                    then Some (drop k r) else None))"

lemma utf8_step_shorter: "utf8_step s = Some r \<Longrightarrow> length r < length s"
  by (cases s) (auto split: if_splits option.splits list.splits)

function valid_utf8 :: "string \<Rightarrow> bool" where
  "valid_utf8 s = (s = [] \<or> (case utf8_step s of None \<Rightarrow> False | Some r \<Rightarrow> valid_utf8 r))"
  by pat_completeness auto
termination by (relation "measure length") (auto dest: utf8_step_shorter)

declare valid_utf8.simps [simp del]

lemma valid_utf8_Nil [simp]: "valid_utf8 []"
  by (simp add: valid_utf8.simps)

section \<open>The relay reads a request\<close>

datatype http_status = HttpOk | BadRequest | PayloadTooLarge | InternalError | ServiceUnavailable

fun status_line :: "http_status \<Rightarrow> string" where
  "status_line HttpOk = ''200 OK''"
| "status_line BadRequest = ''400 Bad Request''"
| "status_line PayloadTooLarge = ''413 Payload Too Large''"
| "status_line InternalError = ''500 Internal Server Error''"
| "status_line ServiceUnavailable = ''503 Service Unavailable''"

record webhook_request =
  wq_endpoint_id :: string
  wq_delivery_id :: string
  wq_signature_256 :: string
  wq_event_type :: string
  wq_body :: string

definition MAX_HEADER :: nat where "MAX_HEADER = 64 * 1024"
definition MAX_WEBHOOK_BODY_SIZE :: nat where "MAX_WEBHOOK_BODY_SIZE = 25 * 1024 * 1024"
definition MAX_MESSAGE_SIZE :: nat where "MAX_MESSAGE_SIZE = 64 * 1024 * 1024"
definition MAX_ENDPOINT_ID_LEN :: nat where "MAX_ENDPOINT_ID_LEN = 128"
definition WEBHOOK_PATH_PREFIX :: string where "WEBHOOK_PATH_PREFIX = ''/webhook/github/''"

fun find_subslice :: "string \<Rightarrow> string \<Rightarrow> nat option" where
  "find_subslice [] needle = None"
| "find_subslice (c # s) needle =
     (if needle \<noteq> [] \<and> starts_with_str (c # s) needle then Some 0
      else map_option Suc (find_subslice s needle))"

definition header_terminator :: string where "header_terminator = [CR, LF, CR, LF]"

type_synonym stream = "string option list"

text \<open>The loop over the header block: the position of its end, all that was read, the unread rest.\<close>

fun read_head :: "string \<Rightarrow> stream \<Rightarrow> http_status + (nat \<times> string \<times> stream)" where
  "read_head buf [] =
     (case find_subslice buf header_terminator of Some pos \<Rightarrow> Inr (pos, buf, []) | None \<Rightarrow> Inl BadRequest)"
| "read_head buf (chunk # chunks) =
     (case find_subslice buf header_terminator of
        Some pos \<Rightarrow> Inr (pos, buf, chunk # chunks)
      | None \<Rightarrow>
          if length buf > MAX_HEADER then Inl BadRequest
          else (case chunk of
                  None \<Rightarrow> Inl BadRequest
                | Some [] \<Rightarrow> Inl BadRequest
                | Some bytes \<Rightarrow> read_head (buf @ bytes) chunks))"

text \<open>The loop over the body: it ends early where the stream does.\<close>

fun read_body :: "nat \<Rightarrow> string \<Rightarrow> stream \<Rightarrow> http_status + string" where
  "read_body content_length body [] = Inr body"
| "read_body content_length body (chunk # chunks) =
     (if length body < content_length
      then (case chunk of
              None \<Rightarrow> Inl BadRequest
            | Some [] \<Rightarrow> Inr body
            | Some bytes \<Rightarrow>
                if length (body @ bytes) > MAX_WEBHOOK_BODY_SIZE then Inl PayloadTooLarge
                else read_body content_length (body @ bytes) chunks)
      else Inr body)"

fun split_crlf :: "string \<Rightarrow> string list" where
  "split_crlf [] = [[]]"
| "split_crlf [c] = [[c]]"
| "split_crlf (c # d # s) =
     (if c = CR \<and> d = LF then [] # split_crlf s
      else (case split_crlf (d # s) of l # ls \<Rightarrow> (c # l) # ls | [] \<Rightarrow> [[c]]))"

text \<open>\<open>split_whitespace\<close>: the maximal runs without a space.\<close>

function split_whitespace :: "string \<Rightarrow> string list" where
  "split_whitespace s =
     (case dropWhile is_space s of
        [] \<Rightarrow> []
      | c # r \<Rightarrow> (c # takeWhile (\<lambda>d. \<not> is_space d) r) # split_whitespace (dropWhile (\<lambda>d. \<not> is_space d) r))"
  by pat_completeness auto
termination
proof (relation "measure length")
  fix s c r
  assume "dropWhile is_space s = c # r"
  then have "Suc (length r) \<le> length s" using length_dropWhile_le [of is_space s] by simp
  then show "(dropWhile (\<lambda>d. \<not> is_space d) r, s) \<in> measure length"
    using length_dropWhile_le [of "\<lambda>d. \<not> is_space d" r] by simp
qed simp

declare split_whitespace.simps [simp del]

fun split_once :: "char \<Rightarrow> string \<Rightarrow> (string \<times> string) option" where
  "split_once c [] = None"
| "split_once c (d # s) =
     (if d = c then Some ([], s) else map_option (\<lambda>(a, b). (d # a, b)) (split_once c s))"

definition parse_usize :: "string \<Rightarrow> nat option" where
  "parse_usize s =
     (case (case s of c # r \<Rightarrow> if c = CHR ''+'' then parse_nat r else parse_nat s | [] \<Rightarrow> None) of
        Some n \<Rightarrow> if n \<le> u64_max then Some n else None
      | None \<Rightarrow> None)"

definition parse_endpoint_id :: "(string \<Rightarrow> bool) \<Rightarrow> string \<Rightarrow> http_status + string" where
  "parse_endpoint_id valid_id path =
     (case strip_prefix path WEBHOOK_PATH_PREFIX of
        None \<Rightarrow> Inl BadRequest
      | Some rest \<Rightarrow>
          (let id_seg = takeWhile (\<lambda>c. c \<notin> set ''/?#'') rest
           in if id_seg = [] \<or> length id_seg > MAX_ENDPOINT_ID_LEN then Inl BadRequest
              else if valid_id id_seg then Inr id_seg
              else Inl BadRequest))"

record webhook_headers =
  wh_delivery_id :: string
  wh_signature_256 :: string
  wh_event_type :: string
  wh_content_length :: nat

fun read_headers :: "string list \<Rightarrow> webhook_headers \<Rightarrow> http_status + webhook_headers" where
  "read_headers [] h = Inr h"
| "read_headers (line # lines) h =
     (case split_once (CHR '':'') line of
        None \<Rightarrow> read_headers lines h
      | Some (name, raw) \<Rightarrow>
          (let value = trim raw; name = to_ascii_lowercase (trim name)
           in if name = ''x-github-delivery'' then read_headers lines (h\<lparr>wh_delivery_id := value\<rparr>)
              else if name = ''x-hub-signature-256'' then read_headers lines (h\<lparr>wh_signature_256 := value\<rparr>)
              else if name = ''x-github-event'' then read_headers lines (h\<lparr>wh_event_type := value\<rparr>)
              else if name = ''content-length'' then
                (case parse_usize value of
                   None \<Rightarrow> Inl BadRequest
                 | Some n \<Rightarrow> read_headers lines (h\<lparr>wh_content_length := n\<rparr>))
              else read_headers lines h))"

text \<open>The request line and the headers of a complete header block.\<close>

definition parse_head :: "(string \<Rightarrow> bool) \<Rightarrow> string \<Rightarrow> http_status + (string \<times> webhook_headers)" where
  "parse_head valid_id head =
     (if \<not> valid_utf8 head then Inl BadRequest
      else case split_crlf head of
             [] \<Rightarrow> Inl BadRequest
           | request_line # lines \<Rightarrow>
               (case split_whitespace request_line of
                  meth # path # _ \<Rightarrow>
                    if meth \<noteq> ''POST'' then Inl BadRequest
                    else (case parse_endpoint_id valid_id path of
                            Inl e \<Rightarrow> Inl e
                          | Inr endpoint \<Rightarrow>
                              (case read_headers lines \<lparr>wh_delivery_id = [], wh_signature_256 = [], wh_event_type = [],
                                  wh_content_length = 0\<rparr> of
                                 Inl e \<Rightarrow> Inl e
                               | Inr h \<Rightarrow> Inr (endpoint, h)))
                | _ \<Rightarrow> Inl BadRequest))"

definition read_http_request :: "(string \<Rightarrow> bool) \<Rightarrow> stream \<Rightarrow> http_status + webhook_request" where
  "read_http_request valid_id chunks =
     (case read_head [] chunks of
        Inl e \<Rightarrow> Inl e
      | Inr (header_end, buf, chunks) \<Rightarrow>
          (case parse_head valid_id (take header_end buf) of
             Inl e \<Rightarrow> Inl e
           | Inr (endpoint, h) \<Rightarrow>
               if wh_content_length h > MAX_WEBHOOK_BODY_SIZE then Inl PayloadTooLarge
               else (let body = drop (header_end + 4) buf
                     in if length body > MAX_WEBHOOK_BODY_SIZE then Inl PayloadTooLarge
                        else (case read_body (wh_content_length h) body chunks of
                                Inl e \<Rightarrow> Inl e
                              | Inr body \<Rightarrow>
                                  Inr \<lparr>wq_endpoint_id = endpoint, wq_delivery_id = wh_delivery_id h,
                                       wq_signature_256 = wh_signature_256 h, wq_event_type = wh_event_type h,
                                       wq_body = take (wh_content_length h) body\<rparr>))))"

section \<open>The frame\<close>

text \<open>\<open>to_be_bytes\<close> and \<open>from_be_bytes\<close> of a \<open>u32\<close>.\<close>

definition to_be_bytes :: "32 word \<Rightarrow> string" where
  "to_be_bytes w = map (\<lambda>k. char_of (unat (drop_bit k w))) [24, 16, 8, 0]"

definition from_be_bytes :: "string \<Rightarrow> nat" where
  "from_be_bytes bs = foldl (\<lambda>n c. 256 * n + byte c) 0 bs"

definition push_field :: "string \<Rightarrow> string \<Rightarrow> string" where
  "push_field buf bytes = buf @ to_be_bytes (word_of_nat (length bytes)) @ bytes"

definition WEBHOOK_CHANNEL_TAG :: char where "WEBHOOK_CHANNEL_TAG = CHR 0x04"

text \<open>What the relay writes: the tag of the channel, then the five fields.\<close>

definition relay_frame :: "webhook_request \<Rightarrow> string" where
  "relay_frame req =
     push_field (push_field (push_field (push_field (push_field [WEBHOOK_CHANNEL_TAG]
       (wq_delivery_id req)) (wq_signature_256 req)) (wq_event_type req)) (wq_endpoint_id req)) (wq_body req)"

text \<open>The messages of the transport's errors are reduced to what they are about.\<close>

datatype wire_error =
    ReadLength string
  | ExceedsCeiling string nat nat
  | ReadBytes string
  | NotUtf8 string
  | ReadAck
  | UnknownAck nat
  | BodyTooLarge nat
  | FieldTooLong

record webhook_envelope =
  we_delivery_id :: string
  we_signature_256 :: string
  we_event_type :: string
  we_endpoint_id :: string
  we_body :: string

text \<open>\<open>read_exact\<close> takes \<open>n\<close> bytes of what the peer sent before it finished, or fails.\<close>

definition read_exact :: "nat \<Rightarrow> string \<Rightarrow> (string \<times> string) option" where
  "read_exact n s = (if n \<le> length s then Some (take n s, drop n s) else None)"

definition read_field :: "nat \<Rightarrow> string \<Rightarrow> string \<Rightarrow> wire_error + (string \<times> string)" where
  "read_field limit what s =
     (case read_exact 4 s of
        None \<Rightarrow> Inl (ReadLength what)
      | Some (len_buf, s) \<Rightarrow>
          (let len = from_be_bytes len_buf
           in if len > limit then Inl (ExceedsCeiling what len limit)
              else (case read_exact len s of
                      None \<Rightarrow> Inl (ReadBytes what)
                    | Some (buf, s) \<Rightarrow> Inr (buf, s))))"

definition read_str_field :: "nat \<Rightarrow> string \<Rightarrow> string \<Rightarrow> wire_error + (string \<times> string)" where
  "read_str_field limit what s =
     (case read_field limit what s of
        Inl e \<Rightarrow> Inl e
      | Inr (bytes, s) \<Rightarrow> if valid_utf8 bytes then Inr (bytes, s) else Inl (NotUtf8 what))"

definition read_envelope :: "string \<Rightarrow> wire_error + (webhook_envelope \<times> string)" where
  "read_envelope s =
     (case read_str_field MAX_MESSAGE_SIZE ''delivery_id'' s of
        Inl e \<Rightarrow> Inl e
      | Inr (delivery_id, s) \<Rightarrow>
     (case read_str_field MAX_MESSAGE_SIZE ''signature_256'' s of
        Inl e \<Rightarrow> Inl e
      | Inr (signature_256, s) \<Rightarrow>
     (case read_str_field MAX_MESSAGE_SIZE ''event_type'' s of
        Inl e \<Rightarrow> Inl e
      | Inr (event_type, s) \<Rightarrow>
     (case read_str_field MAX_MESSAGE_SIZE ''endpoint_id'' s of
        Inl e \<Rightarrow> Inl e
      | Inr (endpoint_id, s) \<Rightarrow>
     (case read_field MAX_WEBHOOK_BODY_SIZE ''body'' s of
        Inl e \<Rightarrow> Inl e
      | Inr (body, s) \<Rightarrow>
          Inr (\<lparr>we_delivery_id = delivery_id, we_signature_256 = signature_256, we_event_type = event_type,
                we_endpoint_id = endpoint_id, we_body = body\<rparr>, s))))))"

section \<open>The answer\<close>

datatype webhook_ack = AckAccepted | AckReject | AckError

fun as_byte :: "webhook_ack \<Rightarrow> char" where
  "as_byte AckAccepted = CHR 0x00"
| "as_byte AckReject = CHR 0x01"
| "as_byte AckError = CHR 0x02"

definition read_ack :: "string \<Rightarrow> wire_error + webhook_ack" where
  "read_ack s =
     (case s of
        [] \<Rightarrow> Inl ReadAck
      | b # _ \<Rightarrow>
          if b = CHR 0x00 then Inr AckAccepted
          else if b = CHR 0x01 then Inr AckReject
          else if b = CHR 0x02 then Inr AckError
          else Inl (UnknownAck (byte b)))"

text \<open>
  The Core's end of the channel, after the tag: the sink is absent or a step on the Core's state;
  the frame's error, the state and the bytes written back.
\<close>

definition serve_webhook ::
  "(webhook_envelope \<Rightarrow> 's \<Rightarrow> webhook_ack \<times> 's) option \<Rightarrow> string \<Rightarrow> 's \<Rightarrow> (wire_error + unit) \<times> string \<times> 's" where
  "serve_webhook sink duplex st =
     (case read_envelope duplex of
        Inl err \<Rightarrow> (Inl err, [as_byte AckError], st)
      | Inr (envelope, _) \<Rightarrow>
          (case sink of
             Some ingest \<Rightarrow> (case ingest envelope st of (ack, st) \<Rightarrow> (Inr (), [as_byte ack], st))
           | None \<Rightarrow> (Inr (), [as_byte AckError], st)))"

text \<open>
  The relay's end: the dial, and the exchange on the open channel, can each fail or time out
  (\<open>None\<close>); the bytes the Core answers become a status.
\<close>

definition forward_to_core :: "unit option \<Rightarrow> string option \<Rightarrow> http_status" where
  "forward_to_core dial answer =
     (case dial of
        None \<Rightarrow> ServiceUnavailable
      | Some _ \<Rightarrow>
          (case map_option read_ack answer of
             Some (Inr AckAccepted) \<Rightarrow> HttpOk
           | Some (Inr AckReject) \<Rightarrow> BadRequest
           | Some (Inr AckError) \<Rightarrow> InternalError
           | _ \<Rightarrow> ServiceUnavailable))"

text \<open>One request from the provider's POST to the status it gets, with the Core reachable.\<close>

definition deliver ::
  "(string \<Rightarrow> bool) \<Rightarrow> (webhook_envelope \<Rightarrow> 's \<Rightarrow> webhook_ack \<times> 's) option \<Rightarrow> stream \<Rightarrow> 's \<Rightarrow> http_status \<times> 's" where
  "deliver valid_id sink post st =
     (case read_http_request valid_id post of
        Inl status \<Rightarrow> (status, st)
      | Inr req \<Rightarrow>
          (case serve_webhook sink (tl (relay_frame req)) st of
             (_, answer, st) \<Rightarrow> (forward_to_core (Some ()) (Some answer), st)))"

section \<open>Fields survive the frame\<close>

lemma length_to_be_bytes [simp]: "length (to_be_bytes w) = 4"
  by (simp add: to_be_bytes_def)

lemma from_to_be_bytes: "from_be_bytes (to_be_bytes w) = unat w"
proof -
  let ?n = "unat w"
  have lt: "?n < 4294967296" using unsigned_less [of w] by simp
  have "byte (char_of (unat (drop_bit k w)) :: char) = ?n div 2 ^ k mod 256" for k
    by (simp add: of_char_of unat_drop_bit_eq drop_bit_eq_div [where 'a = nat] flip: drop_bit_eq_div [where 'a = "32 word"])
  then have "from_be_bytes (to_be_bytes w) =
      256 * (256 * (256 * (?n div 16777216 mod 256) + ?n div 65536 mod 256) + ?n div 256 mod 256) + ?n mod 256"
    by (simp add: from_be_bytes_def to_be_bytes_def)
  also have "\<dots> = ?n"
  proof -
    have d: "?n div 65536 = ?n div 256 div 256" "?n div 16777216 = ?n div 256 div 256 div 256"
      by (simp_all flip: div_mult2_eq)
    have "?n div 16777216 < 256" using lt by (simp add: less_mult_imp_div_less)
    then have "?n div 16777216 mod 256 = ?n div 256 div 256 div 256" by (simp only: d mod_less)
    then show ?thesis by (simp only: d(1) mult_div_mod_eq)
  qed
  finally show ?thesis .
qed

lemma read_field_push:
  assumes "length bytes \<le> limit" and "length bytes < 2 ^ 32"
  shows "read_field limit what (to_be_bytes (word_of_nat (length bytes)) @ bytes @ rest) = Inr (bytes, rest)"
  using assms by (simp add: read_field_def read_exact_def from_to_be_bytes unat_of_nat Let_def)

definition envelope_of :: "webhook_request \<Rightarrow> webhook_envelope" where
  "envelope_of req =
     \<lparr>we_delivery_id = wq_delivery_id req, we_signature_256 = wq_signature_256 req,
      we_event_type = wq_event_type req, we_endpoint_id = wq_endpoint_id req, we_body = wq_body req\<rparr>"

text \<open>A text of at most \<open>n\<close> bytes.\<close>

definition text_upto :: "nat \<Rightarrow> string \<Rightarrow> bool" where
  "text_upto n s \<longleftrightarrow> valid_utf8 s \<and> length s \<le> n"

lemma read_str_field_push:
  assumes "text_upto limit bytes" and "limit < 2 ^ 32"
  shows "read_str_field limit what (to_be_bytes (word_of_nat (length bytes)) @ bytes @ rest) = Inr (bytes, rest)"
  using assms by (simp add: read_str_field_def read_field_push text_upto_def)

lemma read_relay_frame:
  assumes "list_all (text_upto MAX_MESSAGE_SIZE)
      [wq_delivery_id req, wq_signature_256 req, wq_event_type req, wq_endpoint_id req]"
    and "length (wq_body req) \<le> MAX_WEBHOOK_BODY_SIZE"
  shows "read_envelope (tl (relay_frame req)) = Inr (envelope_of req, [])"
proof -
  have small: "MAX_MESSAGE_SIZE < 2 ^ 32" "length (wq_body req) < 2 ^ 32"
    using assms(2) by (simp_all add: MAX_MESSAGE_SIZE_def MAX_WEBHOOK_BODY_SIZE_def)
  have t: "tl (relay_frame req) =
      to_be_bytes (word_of_nat (length (wq_delivery_id req))) @ wq_delivery_id req @
      to_be_bytes (word_of_nat (length (wq_signature_256 req))) @ wq_signature_256 req @
      to_be_bytes (word_of_nat (length (wq_event_type req))) @ wq_event_type req @
      to_be_bytes (word_of_nat (length (wq_endpoint_id req))) @ wq_endpoint_id req @
      to_be_bytes (word_of_nat (length (wq_body req))) @ wq_body req @ []"
    by (simp add: relay_frame_def push_field_def)
  show ?thesis
    unfolding t read_envelope_def using assms small
    by (simp add: read_str_field_push read_field_push envelope_of_def del: append_Nil2)
qed

section \<open>The pieces of a text are texts\<close>

abbreviation is_ascii :: "char \<Rightarrow> bool" where "is_ascii c \<equiv> byte c < 0x80"

lemma utf8_lead_ge: "utf8_lead n = Some (lo, hi, k) \<Longrightarrow> 0x80 \<le> lo"
  by (auto simp: utf8_lead_def split: if_splits)

lemma utf8_step_append:
  assumes "utf8_step (x # a @ c # b) = Some r" and "is_ascii c"
  shows "\<exists>a'. r = a' @ c # b \<and> utf8_step (x # a) = Some a'"
proof (cases "is_ascii x")
  case True
  with assms show ?thesis by auto
next
  case False
  with assms obtain lo hi k where l: "utf8_lead (byte x) = Some (lo, hi, k)"
    by (auto split: option.splits)
  have "0x80 \<le> lo" using l by (rule utf8_lead_ge)
  with False assms l obtain d a1 where a: "a = d # a1"
    by (cases a) (auto split: if_splits)
  with False assms l have k: "lo \<le> byte d" "byte d \<le> hi" "k \<le> length (a1 @ c # b)"
      "list_all is_continuation (take k (a1 @ c # b))" "r = drop k (a1 @ c # b)"
    by (auto split: if_splits)
  have "k \<le> length a1"
  proof (rule ccontr)
    assume "\<not> k \<le> length a1"
    then have "c \<in> set (take k (a1 @ c # b))" by (cases "k - length a1") auto
    with k(4) have "is_continuation c" by (simp add: list_all_iff)
    with assms(2) show False by (simp add: is_continuation_def)
  qed
  with k False l a show ?thesis by auto
qed

lemma valid_utf8_cut: "valid_utf8 (a @ c # b) \<Longrightarrow> is_ascii c \<Longrightarrow> valid_utf8 a \<and> valid_utf8 b"
proof (induction "length a" arbitrary: a rule: less_induct)
  case less
  show ?case
  proof (cases a)
    case Nil
    with less.prems show ?thesis by (subst (asm) valid_utf8.simps) simp
  next
    case (Cons x a1)
    with less.prems(1) obtain r where r: "utf8_step (x # a1 @ c # b) = Some r" "valid_utf8 r"
      by (subst (asm) valid_utf8.simps) (auto split: option.splits)
    from utf8_step_append [OF r(1) less.prems(2)] obtain a' where
      a': "r = a' @ c # b" "utf8_step a = Some a'" using Cons by auto
    from utf8_step_shorter [OF a'(2)] r(2) a'(1) less have "valid_utf8 a' \<and> valid_utf8 b" by blast
    with a'(2) show ?thesis by (subst valid_utf8.simps) simp
  qed
qed

text \<open>A piece between ASCII characters, or the ends.\<close>

definition piece :: "string \<Rightarrow> string \<Rightarrow> bool" where
  "piece m s \<longleftrightarrow> (\<exists>p q. s = p @ m @ q \<and> (p \<noteq> [] \<longrightarrow> is_ascii (last p)) \<and> (q \<noteq> [] \<longrightarrow> is_ascii (hd q)))"

lemma text_upto_piece:
  assumes "piece m s" and "text_upto n s"
  shows "text_upto n m"
proof -
  obtain p q where s: "s = p @ m @ q" and p: "p \<noteq> [] \<longrightarrow> is_ascii (last p)" and q: "q \<noteq> [] \<longrightarrow> is_ascii (hd q)"
    using assms(1) by (auto simp: piece_def)
  have "valid_utf8 (m @ q)"
  proof (cases p rule: rev_cases)
    case Nil
    with s assms(2) show ?thesis by (simp add: text_upto_def)
  next
    case (snoc p1 c)
    with s p assms(2) valid_utf8_cut [of p1 c "m @ q"] show ?thesis by (simp add: text_upto_def)
  qed
  with q have "valid_utf8 m" by (cases q) (auto dest: valid_utf8_cut)
  with s assms(2) show ?thesis by (simp add: text_upto_def)
qed

lemma piece_trans:
  assumes "piece a b" and "piece b c"
  shows "piece a c"
proof -
  obtain p q where 1: "b = p @ a @ q" "p \<noteq> [] \<longrightarrow> is_ascii (last p)" "q \<noteq> [] \<longrightarrow> is_ascii (hd q)"
    using assms(1) by (auto simp: piece_def)
  obtain p' q' where 2: "c = p' @ b @ q'" "p' \<noteq> [] \<longrightarrow> is_ascii (last p')" "q' \<noteq> [] \<longrightarrow> is_ascii (hd q')"
    using assms(2) by (auto simp: piece_def)
  have "c = (p' @ p) @ a @ (q @ q')" using 1(1) 2(1) by simp
  moreover have "p' @ p \<noteq> [] \<longrightarrow> is_ascii (last (p' @ p))" using 1(2) 2(2) by (cases p) auto
  moreover have "q @ q' \<noteq> [] \<longrightarrow> is_ascii (hd (q @ q'))" using 1(3) 2(3) by (cases q) auto
  ultimately show ?thesis unfolding piece_def by blast
qed

lemma pieceI: "s = p @ m @ q \<Longrightarrow> (p \<noteq> [] \<Longrightarrow> is_ascii (last p)) \<Longrightarrow> (q \<noteq> [] \<Longrightarrow> is_ascii (hd q)) \<Longrightarrow> piece m s"
  unfolding piece_def by blast

lemma space_ascii: "is_space c \<Longrightarrow> is_ascii c"
  by (auto simp: is_space_def)

lemma piece_dropWhile: "(\<And>c. P c \<Longrightarrow> is_ascii c) \<Longrightarrow> piece (dropWhile P s) s"
  by (rule pieceI [of _ "takeWhile P s" _ "[]"])
    (auto dest: set_takeWhileD [OF last_in_set])

lemma piece_dropWhile_back: "(\<And>c. P c \<Longrightarrow> is_ascii c) \<Longrightarrow> piece (rev (dropWhile P (rev s))) s"
proof (rule pieceI [of _ "[]" _ "rev (takeWhile P (rev s))"])
  show "s = [] @ rev (dropWhile P (rev s)) @ rev (takeWhile P (rev s))"
    by (simp flip: rev_append)
qed (auto simp: hd_rev dest: set_takeWhileD [OF last_in_set])

lemma piece_trim: "piece (trim s) s"
  unfolding trim_def
  by (rule piece_trans [OF piece_dropWhile_back piece_dropWhile]) (rule space_ascii, assumption)+

lemma piece_takeWhile: "(\<And>c. \<not> P c \<Longrightarrow> is_ascii c) \<Longrightarrow> piece (takeWhile P s) s"
  by (rule pieceI [of _ "[]" _ "dropWhile P s"]) (simp_all add: hd_dropWhile)

lemma split_crlf_not_Nil [simp]: "split_crlf s \<noteq> []"
  by (induction s rule: split_crlf.induct) (auto split: list.splits)

lemma split_crlf_pieces:
  "split_crlf s = l # ls \<Longrightarrow>
     (\<exists>q. s = l @ q \<and> (q \<noteq> [] \<longrightarrow> hd q = CR)) \<and>
     (\<forall>m\<in>set ls. \<exists>p q. s = p @ m @ q \<and> p \<noteq> [] \<and> last p = LF \<and> (q \<noteq> [] \<longrightarrow> hd q = CR))"
proof (induction s arbitrary: l ls rule: split_crlf.induct)
  case (3 c d s)
  show ?case
  proof (cases "c = CR \<and> d = LF")
    case True
    obtain l1 ls1 where s: "split_crlf s = l1 # ls1" by (cases "split_crlf s") auto
    with True "3.prems" have l: "l = []" "ls = l1 # ls1" by auto
    have "\<exists>p q. c # d # s = p @ m @ q \<and> p \<noteq> [] \<and> last p = LF \<and> (q \<noteq> [] \<longrightarrow> hd q = CR)"
      if "m \<in> set ls" for m
    proof (cases "m = l1")
      case m: True
      from "3.IH"(1) [OF True s] obtain q where "s = l1 @ q" "q \<noteq> [] \<longrightarrow> hd q = CR" by blast
      with m True show ?thesis by (intro exI [of _ "[c, d]"] exI [of _ q]) simp
    next
      case False
      with that l have "m \<in> set ls1" by simp
      with "3.IH"(1) [OF True s] obtain p q where
        "s = p @ m @ q" "p \<noteq> []" "last p = LF" "q \<noteq> [] \<longrightarrow> hd q = CR" by blast
      then show ?thesis by (intro exI [of _ "c # d # p"] exI [of _ q]) simp
    qed
    with True l show ?thesis by auto
  next
    case False
    obtain l1 ls1 where s: "split_crlf (d # s) = l1 # ls1" by (cases "split_crlf (d # s)") auto
    with False "3.prems" have l: "l = c # l1" "ls = ls1" by auto
    note IH = "3.IH"(2) [OF False s]
    have "\<exists>p q. c # d # s = p @ m @ q \<and> p \<noteq> [] \<and> last p = LF \<and> (q \<noteq> [] \<longrightarrow> hd q = CR)"
      if "m \<in> set ls" for m
    proof -
      from that l IH obtain p q where
        "d # s = p @ m @ q" "p \<noteq> []" "last p = LF" "q \<noteq> [] \<longrightarrow> hd q = CR" by blast
      then show ?thesis by (intro exI [of _ "c # p"] exI [of _ q]) simp
    qed
    with l IH show ?thesis by auto
  qed
qed auto

lemma piece_split_crlf: "l \<in> set (split_crlf s) \<Longrightarrow> piece l s"
proof -
  assume l: "l \<in> set (split_crlf s)"
  obtain m ms where s: "split_crlf s = m # ms" by (cases "split_crlf s") auto
  note P = split_crlf_pieces [OF s]
  show ?thesis
  proof (cases "l = m")
    case True
    with P show ?thesis by (auto intro: pieceI [of _ "[]"])
  next
    case False
    with l s have "l \<in> set ms" by simp
    with P obtain p q where "s = p @ l @ q" "last p = LF" "q \<noteq> [] \<longrightarrow> hd q = CR" by blast
    then show ?thesis by (auto intro: pieceI)
  qed
qed

lemma split_whitespace_space: "is_space h \<Longrightarrow> split_whitespace (h # s) = split_whitespace s"
  by (subst (1 2) split_whitespace.simps) simp

lemma piece_split_whitespace: "t \<in> set (split_whitespace s) \<Longrightarrow> piece t s"
proof (induction "length s" arbitrary: s rule: less_induct)
  case less
  let ?w = "\<lambda>d. \<not> is_space d"
  have "dropWhile is_space s \<noteq> []"
  proof
    assume "dropWhile is_space s = []"
    with less.prems show False by (subst (asm) split_whitespace.simps) simp
  qed
  then obtain c r where d: "dropWhile is_space s = c # r" by (cases "dropWhile is_space s") auto
  have nc: "?w c" using d hd_dropWhile [of is_space s] by simp
  have cr: "piece (c # r) s"
    using piece_dropWhile [of is_space s] space_ascii d by simp
  have w: "takeWhile ?w (c # r) = c # takeWhile ?w r" using nc by simp
  from less.prems d consider "t = takeWhile ?w (c # r)" | "t \<in> set (split_whitespace (dropWhile ?w r))"
    by (subst (asm) split_whitespace.simps) (auto simp: nc)
  then show ?case
  proof cases
    case 1
    then show ?thesis
      using piece_trans [OF piece_takeWhile cr, of ?w] space_ascii by simp
  next
    case 2
    show ?thesis
    proof (cases "dropWhile ?w r")
      case Nil
      with 2 show ?thesis by (simp add: split_whitespace.simps)
    next
      case (Cons h x)
      then have h: "is_space h" using hd_dropWhile [of ?w r] by simp
      have "r = takeWhile ?w r @ h # x" using Cons by (metis takeWhile_dropWhile_id)
      then have "piece x (c # r)"
        using h by (intro pieceI [of _ "c # takeWhile ?w r @ [h]" _ "[]"]) (auto simp: space_ascii)
      then have x: "piece x s" using cr by (rule piece_trans)
      have "length x < length s"
        using Cons d length_dropWhile_le [of is_space s] length_dropWhile_le [of ?w r] by simp
      moreover have "t \<in> set (split_whitespace x)" using 2 Cons h by (simp add: split_whitespace_space)
      ultimately have "piece t x" by (rule less.hyps)
      then show ?thesis using x by (rule piece_trans)
    qed
  qed
qed

lemma split_once_Some: "split_once c s = Some (a, b) \<Longrightarrow> s = a @ c # b"
  by (induction s arbitrary: a) (auto split: if_splits)

lemma piece_split_once: "split_once c s = Some (a, b) \<Longrightarrow> is_ascii c \<Longrightarrow> piece b s"
  by (auto dest!: split_once_Some intro: pieceI [of _ "a @ [c]" _ "[]"])

section \<open>Every request the relay accepts reaches the Core as it is\<close>

lemma read_headers_text:
  "read_headers lines h = Inr h' \<Longrightarrow> list_all (text_upto n) lines \<Longrightarrow>
     list_all (text_upto n) [wh_delivery_id h, wh_signature_256 h, wh_event_type h] \<Longrightarrow>
     list_all (text_upto n) [wh_delivery_id h', wh_signature_256 h', wh_event_type h']"
proof (induction lines arbitrary: h)
  case (Cons line lines)
  show ?case
  proof (cases "split_once (CHR '':'') line")
    case None
    with Cons show ?thesis by simp
  next
    case (Some x)
    obtain name raw where x: "x = (name, raw)" by (cases x)
    have "piece (trim raw) line"
      using Some x piece_trans [OF piece_trim piece_split_once] by simp
    then have v: "text_upto n (trim raw)" using Cons.prems(2) text_upto_piece by auto
    define key where "key = to_ascii_lowercase (trim name)"
    from Cons.prems(1) Some x have "\<exists>h1 \<in> {h, h\<lparr>wh_delivery_id := trim raw\<rparr>, h\<lparr>wh_signature_256 := trim raw\<rparr>,
        h\<lparr>wh_event_type := trim raw\<rparr>} \<union> range (\<lambda>n. h\<lparr>wh_content_length := n\<rparr>). read_headers lines h1 = Inr h'"
      unfolding read_headers.simps option.case prod.case Let_def key_def [symmetric]
      by (auto split: if_split_asm option.split_asm)
    then obtain h1 where h1: "read_headers lines h1 = Inr h'"
      "h1 \<in> {h, h\<lparr>wh_delivery_id := trim raw\<rparr>, h\<lparr>wh_signature_256 := trim raw\<rparr>,
        h\<lparr>wh_event_type := trim raw\<rparr>} \<union> range (\<lambda>n. h\<lparr>wh_content_length := n\<rparr>)" by blast
    from h1(2) Cons.prems(3) v
    have "list_all (text_upto n) [wh_delivery_id h1, wh_signature_256 h1, wh_event_type h1]" by auto
    with Cons.IH [OF h1(1)] Cons.prems(2) show ?thesis by simp
  qed
qed simp

lemma text_upto_Nil [simp]: "text_upto n []"
  by (simp add: text_upto_def)

lemma parse_head_text:
  assumes "parse_head valid_id head = Inr (endpoint, h)" and "length head \<le> n"
  shows "list_all (text_upto n) [wh_delivery_id h, wh_signature_256 h, wh_event_type h, endpoint]"
proof -
  have u: "text_upto n head" using assms by (auto simp: parse_head_def text_upto_def split: if_splits)
  obtain line lines where l: "split_crlf head = line # lines" by (cases "split_crlf head") auto
  from assms l obtain meth path ts where t: "split_whitespace line = meth # path # ts"
    by (auto simp: parse_head_def split: if_splits list.splits)
  from assms l t have e: "parse_endpoint_id valid_id path = Inr endpoint"
    and h: "read_headers lines \<lparr>wh_delivery_id = [], wh_signature_256 = [], wh_event_type = [],
        wh_content_length = 0\<rparr> = Inr h"
    by (auto simp: parse_head_def split: if_splits sum.splits)
  have ls: "text_upto n m" if "m \<in> set (line # lines)" for m
    using that l text_upto_piece [OF piece_split_crlf u] by auto
  then have "list_all (text_upto n) [wh_delivery_id h, wh_signature_256 h, wh_event_type h]"
    by (intro read_headers_text [OF h]) (auto simp: list_all_iff)
  moreover have "text_upto n endpoint"
  proof -
    from e obtain rest where r: "path = WEBHOOK_PATH_PREFIX @ rest"
      "endpoint = takeWhile (\<lambda>c. c \<notin> set ''/?#'') rest"
      by (auto simp: parse_endpoint_id_def Let_def strip_prefix_Some_iff split: option.splits if_splits)
    have "piece rest path"
      using r(1) by (intro pieceI [of _ WEBHOOK_PATH_PREFIX _ "[]"]) (auto simp: WEBHOOK_PATH_PREFIX_def)
    moreover have "piece endpoint rest" unfolding r(2) by (rule piece_takeWhile) auto
    moreover have "piece path line" by (rule piece_split_whitespace) (simp add: t)
    ultimately have "piece endpoint line" by (blast intro: piece_trans)
    then show ?thesis using ls text_upto_piece by auto
  qed
  ultimately show ?thesis by simp
qed

text \<open>The relay's reads fill a buffer of 8192 bytes.\<close>

definition reads_bounded :: "stream \<Rightarrow> bool" where
  "reads_bounded = list_all (\<lambda>c. case c of Some bytes \<Rightarrow> length bytes \<le> 8192 | None \<Rightarrow> True)"

lemma read_head_bound:
  "read_head buf chunks = Inr (pos, buf', rest) \<Longrightarrow> reads_bounded chunks \<Longrightarrow>
     length buf \<le> MAX_HEADER + 8192 \<Longrightarrow> length buf' \<le> MAX_HEADER + 8192"
  by (induction buf chunks rule: read_head.induct)
    (auto simp: reads_bounded_def split: option.splits if_splits list.splits)

lemma read_body_ok:
  "read_http_request valid_id post = Inr req \<Longrightarrow> length (wq_body req) \<le> MAX_WEBHOOK_BODY_SIZE"
  by (auto simp: read_http_request_def Let_def min_le_iff_disj split: sum.splits if_splits)

lemma accepted_request_text:
  assumes "read_http_request valid_id post = Inr req" and "reads_bounded post"
  shows "list_all (text_upto MAX_MESSAGE_SIZE)
    [wq_delivery_id req, wq_signature_256 req, wq_event_type req, wq_endpoint_id req]"
proof -
  from assms(1) obtain pos buf rest endpoint h where
    r: "read_head [] post = Inr (pos, buf, rest)" "parse_head valid_id (take pos buf) = Inr (endpoint, h)"
      "wq_endpoint_id req = endpoint" "wq_delivery_id req = wh_delivery_id h"
      "wq_signature_256 req = wh_signature_256 h" "wq_event_type req = wh_event_type h"
    by (auto simp: read_http_request_def Let_def split: sum.splits if_splits)
  have "length buf \<le> MAX_HEADER + 8192" using read_head_bound [OF r(1) assms(2)] by simp
  then have "length (take pos buf) \<le> MAX_MESSAGE_SIZE"
    by (simp add: MAX_HEADER_def MAX_MESSAGE_SIZE_def)
  from parse_head_text [OF r(2) this] r(3-) show ?thesis by simp
qed

fun ack_status :: "webhook_ack \<Rightarrow> http_status" where
  "ack_status AckAccepted = HttpOk"
| "ack_status AckReject = BadRequest"
| "ack_status AckError = InternalError"

lemma read_ack_as_byte [simp]: "read_ack [as_byte a] = Inr a"
  by (cases a) (simp_all add: read_ack_def)

lemma forward_ack [simp]: "forward_to_core (Some ()) (Some [as_byte a]) = ack_status a"
  by (cases a) (simp_all add: forward_to_core_def read_ack_def)

lemma deliver_calls_sink:
  assumes "read_http_request valid_id post = Inr req" and "reads_bounded post"
  shows "deliver valid_id (Some ingest) post st =
    (case ingest (envelope_of req) st of (ack, st') \<Rightarrow> (ack_status ack, st'))"
  using assms read_relay_frame [OF accepted_request_text [OF assms] read_body_ok [OF assms(1)]]
  by (simp add: deliver_def serve_webhook_def split: prod.split)

text \<open>C27: A request the relay accepts reaches the Core's sink with the fields the relay parsed, and
  the provider's status is the one of the sink's answer: the relay's own copy of the frame's layout,
  the Core's reader with its ceilings and its UTF-8 checks, and the byte that comes back compose to
  a direct call of the sink.\<close>

theorem delivery_is_a_call_of_the_sink:
  assumes "read_http_request valid_id post = Inr req" and "reads_bounded post"
  shows "deliver valid_id (Some ingest) post st =
    (case ingest (envelope_of req) st of (ack, st') \<Rightarrow> (ack_status ack, st'))"
  using assms by (rule deliver_calls_sink)

text \<open>A POST of a provider, in two reads, the header block cut in the middle.\<close>

definition sample_reads :: "string list" where
  "sample_reads =
     [''POST /webhook/github/ab HTTP/1.1'' @ [CR, LF] @ ''X-GitHub-Delivery: d1'' @ [CR, LF] @
        ''X-Hub-Signature-256: sha256=6b'' @ [CR, LF] @ ''Content-Len'',
      ''gth: 2'' @ [CR, LF] @ ''X-GitHub-Event: check_run'' @ [CR, LF, CR, LF] @ ''{}'']"

definition sample_request :: webhook_request where
  "sample_request = \<lparr>wq_endpoint_id = ''ab'', wq_delivery_id = ''d1'', wq_signature_256 = ''sha256=6b'',
     wq_event_type = ''check_run'', wq_body = ''{}''\<rparr>"

definition sample_headers :: webhook_headers where
  "sample_headers =
     \<lparr>wh_delivery_id = ''d1'', wh_signature_256 = ''sha256=6b'', wh_event_type = ''check_run'', wh_content_length = 2\<rparr>"

lemma valid_utf8_ascii: "list_all is_ascii s \<Longrightarrow> valid_utf8 s"
  by (induction s) (simp, subst valid_utf8.simps, simp)

lemma split_whitespace_simps:
  "split_whitespace [] = []"
  "split_whitespace (c # s) =
     (if is_space c then split_whitespace s
      else (c # takeWhile (\<lambda>d. \<not> is_space d) s) # split_whitespace (dropWhile (\<lambda>d. \<not> is_space d) s))"
  by (simp_all add: split_whitespace_space) (subst split_whitespace.simps, simp)+

lemma sample_end: "find_subslice (concat sample_reads) header_terminator = Some 133"
  by code_simp

lemma sample_first_read: "find_subslice (hd sample_reads) header_terminator = None"
  by code_simp

lemma sample_head: "parse_head (\<lambda>_. True) (take 133 (concat sample_reads)) = Inr (''ab'', sample_headers)"
proof -
  have v: "valid_utf8 (take 133 (concat sample_reads))" by (rule valid_utf8_ascii) code_simp
  have l: "split_crlf (take 133 (concat sample_reads)) =
      [''POST /webhook/github/ab HTTP/1.1'', ''X-GitHub-Delivery: d1'', ''X-Hub-Signature-256: sha256=6b'',
       ''Content-Length: 2'', ''X-GitHub-Event: check_run'']"
    by code_simp
  have w: "split_whitespace ''POST /webhook/github/ab HTTP/1.1'' = [''POST'', ''/webhook/github/ab'', ''HTTP/1.1'']"
    by (simp add: split_whitespace_simps is_space_def)
  have names: "to_ascii_lowercase (trim ''X-GitHub-Delivery'') = ''x-github-delivery''"
      "to_ascii_lowercase (trim ''X-Hub-Signature-256'') = ''x-hub-signature-256''"
      "to_ascii_lowercase (trim ''Content-Length'') = ''content-length''"
      "to_ascii_lowercase (trim ''X-GitHub-Event'') = ''x-github-event''"
    by code_simp+
  have vals: "trim '' d1'' = ''d1''" "trim '' sha256=6b'' = ''sha256=6b''" "trim '' 2'' = ''2''"
      "trim '' check_run'' = ''check_run''"
    by code_simp+
  have two: "parse_usize ''2'' = Some 2"
    by (simp add: parse_usize_def parse_nat_def is_digit_def digit_val_def u64_max_def)
  show ?thesis
    by (simp add: parse_head_def v l w parse_endpoint_id_def strip_prefix_def WEBHOOK_PATH_PREFIX_def
        starts_with_str_def MAX_ENDPOINT_ID_LEN_def names vals two sample_headers_def)
qed

lemma sample_accepted: "read_http_request (\<lambda>_. True) (map Some sample_reads) = Inr sample_request"
proof -
  have r: "read_head [] (map Some sample_reads) = Inr (133, concat sample_reads, [])"
    using sample_end sample_first_read
    by (simp add: sample_reads_def MAX_HEADER_def)
  have b: "drop (133 + 4) (concat sample_reads) = ''{}''" by code_simp
  show ?thesis
    by (simp only: read_http_request_def r sum.case prod.case sample_head Let_def b)
      (simp add: sample_headers_def sample_request_def MAX_WEBHOOK_BODY_SIZE_def)
qed

theorem delivery_is_a_call_of_the_sink_witness:
  "deliver (\<lambda>_. True) (Some (\<lambda>e n. (AckReject, n + length (we_body e)))) (map Some sample_reads) 5 = (BadRequest, 7)"
proof -
  have "reads_bounded (map Some sample_reads)" by code_simp
  from delivery_is_a_call_of_the_sink [OF sample_accepted this, of "\<lambda>e n. (AckReject, n + length (we_body e))" 5]
  show ?thesis by (simp add: envelope_of_def sample_request_def)
qed

section \<open>How the bytes arrive does not matter\<close>

lemma starts_with_take: "starts_with_str (take m s) p \<longleftrightarrow> starts_with_str s p \<and> length p \<le> m"
proof (cases "length p \<le> m")
  case True
  then show ?thesis by (simp add: starts_with_str_def min_absorb1)
next
  case False
  have "take (length p) (take m s) \<noteq> p"
  proof
    assume "take (length p) (take m s) = p"
    then have "length p \<le> m" by (metis length_take min.bounded_iff order_refl take_take)
    with False show False by simp
  qed
  with False show ?thesis by (simp add: starts_with_str_def)
qed

lemma find_subslice_take:
  "find_subslice (take m s) needle =
     (case find_subslice s needle of
        Some k \<Rightarrow> if k + length needle \<le> m then Some k else None
      | None \<Rightarrow> None)"
proof (induction s arbitrary: m)
  case (Cons c s)
  show ?case
  proof (cases m)
    case 0
    then show ?thesis by (auto split: option.split)
  next
    case (Suc m')
    have w: "starts_with_str (c # take m' s) needle \<longleftrightarrow>
        starts_with_str (c # s) needle \<and> length needle \<le> m"
      using starts_with_take [of m "c # s" needle] Suc by simp
    show ?thesis
      using Suc Cons.IH [of m'] w by (auto split: option.splits)
  qed
qed simp

lemma read_head_chunks:
  "buf @ concat cs = whole \<Longrightarrow> [] \<notin> set cs \<Longrightarrow> find_subslice whole header_terminator = Some pos \<Longrightarrow>
     pos + 4 \<le> MAX_HEADER \<Longrightarrow>
     \<exists>buf' rest. read_head buf (map Some cs) = Inr (pos, buf', map Some rest) \<and>
       buf' @ concat rest = whole \<and> pos + 4 \<le> length buf' \<and> [] \<notin> set rest"
proof (induction cs arbitrary: buf)
  case Nil
  then show ?case
    using find_subslice_take [of "length buf" whole header_terminator]
    by (auto simp: header_terminator_def split: if_splits)
next
  case (Cons c cs)
  have t: "find_subslice buf header_terminator = (if pos + 4 \<le> length buf then Some pos else None)"
    using find_subslice_take [of "length buf" whole header_terminator] Cons.prems
    by (auto simp: header_terminator_def)
  show ?case
  proof (cases "pos + 4 \<le> length buf")
    case True
    with t Cons.prems show ?thesis by (intro exI [of _ buf] exI [of _ "c # cs"]) simp
  next
    case False
    have "c \<noteq> []" using Cons.prems(2) by auto
    then obtain x xs where c: "c = x # xs" by (cases c) auto
    have "\<exists>buf' rest. read_head (buf @ c) (map Some cs) = Inr (pos, buf', map Some rest) \<and>
        buf' @ concat rest = whole \<and> pos + 4 \<le> length buf' \<and> [] \<notin> set rest"
      using Cons.prems by (intro Cons.IH) auto
    with False t c Cons.prems(4) show ?thesis by simp
  qed
qed

lemma read_body_chunks:
  "body @ concat cs = whole \<Longrightarrow> [] \<notin> set cs \<Longrightarrow> length whole \<le> MAX_WEBHOOK_BODY_SIZE \<Longrightarrow>
     length whole \<le> n \<Longrightarrow> read_body n body (map Some cs) = Inr whole"
proof (induction cs arbitrary: body)
  case (Cons c cs)
  have "c \<noteq> []" using Cons.prems(2) by auto
  then obtain x xs where c: "c = x # xs" by (cases c) auto
  have "length body < length whole" and "length (body @ c) \<le> length whole"
    using Cons.prems(1) c by auto
  then show ?case using Cons.IH [of "body @ c"] Cons.prems c by simp
qed simp

text \<open>The relay reads a request the same however its bytes are cut into reads: a header block
  within the limit and a body of at most the announced and allowed length give the request of the
  whole bytes. A body that ends before the announced length is forwarded as if it were complete.\<close>

theorem request_independent_of_reads:
  assumes "[] \<notin> set cs" and "find_subslice (concat cs) header_terminator = Some pos" and "pos + 4 \<le> MAX_HEADER"
    and "parse_head valid_id (take pos (concat cs)) = Inr (endpoint, h)"
    and "length (concat cs) - (pos + 4) \<le> wh_content_length h"
    and "wh_content_length h \<le> MAX_WEBHOOK_BODY_SIZE"
  shows "read_http_request valid_id (map Some cs) =
    Inr \<lparr>wq_endpoint_id = endpoint, wq_delivery_id = wh_delivery_id h, wq_signature_256 = wh_signature_256 h,
         wq_event_type = wh_event_type h, wq_body = drop (pos + 4) (concat cs)\<rparr>"
proof -
  from read_head_chunks [of "[]" cs, OF _ assms(1-3)] obtain buf rest where
    r: "read_head [] (map Some cs) = Inr (pos, buf, map Some rest)" "buf @ concat rest = concat cs"
      "pos + 4 \<le> length buf" "[] \<notin> set rest" by auto
  let ?body = "drop (pos + 4) (concat cs)"
  have b: "drop (pos + 4) buf @ concat rest = ?body" and hd: "take pos buf = take pos (concat cs)"
    using r(2,3) by (metis drop_append diff_is_0_eq drop0) (metis r(2) r(3) add_leD1 diff_is_0_eq take_append take_0 append_Nil2)
  have len: "length ?body \<le> wh_content_length h" using assms(5) by simp
  have "length (drop (pos + 4) buf) \<le> length ?body" using b by (metis length_append le_add1)
  with assms(6) len have small: "\<not> MAX_WEBHOOK_BODY_SIZE < length (drop (pos + 4) buf)" by linarith
  have "read_body (wh_content_length h) (drop (pos + 4) buf) (map Some rest) = Inr ?body"
    using b r(4) len assms(6) by (intro read_body_chunks) auto
  with r(1) hd assms(4,6) small len show ?thesis by (simp add: read_http_request_def Let_def)
qed

theorem request_independent_of_reads_witness:
  "read_http_request (\<lambda>_. True) (map Some (map (\<lambda>c. [c]) (concat sample_reads))) =
     read_http_request (\<lambda>_. True) (map Some sample_reads)"
proof -
  let ?cs = "map (\<lambda>c. [c]) (concat sample_reads)"
  have c: "concat ?cs = concat sample_reads" by (induction "concat sample_reads") auto
  have l: "length (concat sample_reads) = 139" by code_simp
  have d: "drop (133 + 4) (concat sample_reads) = ''{}''" by code_simp
  have "read_http_request (\<lambda>_. True) (map Some ?cs) = Inr sample_request"
    using request_independent_of_reads [of ?cs 133 "\<lambda>_. True" "''ab''" sample_headers]
    unfolding c sample_end sample_head l d
    by (auto simp: sample_headers_def MAX_HEADER_def MAX_WEBHOOK_BODY_SIZE_def sample_request_def)
  then show ?thesis by (simp add: sample_accepted)
qed

end
