(* ===== verification/Webhook.thy ===== *)
theory Webhook
  imports Checks WebhookWire
begin

text \<open>
  What the Core does with a webhook (\<open>vcs/src/webhook.rs\<close>, \<open>ingest_webhook\<close> of \<open>vcs/src/actor.rs\<close>, the
  table \<open>persist/src/webhook_deliveries.rs\<close>, the sink of \<open>core/src/vcs/mod.rs\<close>): find the repository
  the body names, drop a delivery whose id was seen before, verify the signature, parse the event,
  and invalidate the entries of the aggregator that the event makes stale.

  The HMAC, the JSON parser, the keychain and the provider are arguments; so is the outcome of each
  access to the database, which can fail. \<open>SELECT DISTINCT\<close> gives each row once, in an order the
  code does not ask for.
\<close>

section \<open>The signature\<close>

definition to_digit16 :: "char \<Rightarrow> nat option" where
  "to_digit16 c =
     (let n = of_char c
      in if 48 \<le> n \<and> n \<le> 57 then Some (n - 48)
         else if 97 \<le> n \<and> n \<le> 102 then Some (n - 87)
         else if 65 \<le> n \<and> n \<le> 70 then Some (n - 55)
         else None)"

fun decode_hex :: "string \<Rightarrow> string option" where
  "decode_hex [] = Some []"
| "decode_hex [c] = None"
| "decode_hex (c # d # s) =
     (case (to_digit16 c, to_digit16 d) of
        (Some hi, Some lo) \<Rightarrow> map_option (\<lambda>out. char_of (hi * 16 + lo) # out) (decode_hex s)
      | _ \<Rightarrow> None)"

definition verify_signature :: "(string \<Rightarrow> string \<Rightarrow> string) \<Rightarrow> string \<Rightarrow> string \<Rightarrow> string \<Rightarrow> bool" where
  "verify_signature hmac secret body signature_256 =
     (case strip_prefix signature_256 ''sha256='' of
        None \<Rightarrow> False
      | Some hex \<Rightarrow>
          (case decode_hex hex of
             None \<Rightarrow> False
           | Some expected \<Rightarrow> hmac secret body = expected))"

section \<open>The event\<close>

datatype parsed_event =
    PullRequestEvent int
  | CheckRunEvent string
  | DeploymentEvent string
  | Unhandled

definition get_str :: "json \<Rightarrow> string \<Rightarrow> string \<Rightarrow> string option" where
  "get_str v outer inner = Option.bind (json_get v outer) (\<lambda>c. Option.bind (json_get c inner) as_str)"

definition parse_event :: "(string \<Rightarrow> json option) \<Rightarrow> string \<Rightarrow> string \<Rightarrow> parsed_event" where
  "parse_event from_slice event_type body =
     (case from_slice body of
        None \<Rightarrow> Unhandled
      | Some v \<Rightarrow>
          if event_type \<in> {''pull_request'', ''pull_request_review'', ''pull_request_review_thread'',
              ''pull_request_review_comment''} then
            (case Option.bind (json_get v ''pull_request'') (\<lambda>pr. Option.bind (json_get pr ''number'') as_i64) of
               Some number \<Rightarrow> PullRequestEvent number
             | None \<Rightarrow>
                 (case Option.bind (json_get v ''number'') as_i64 of
                    Some number \<Rightarrow> PullRequestEvent number | None \<Rightarrow> Unhandled))
          else if event_type = ''check_run'' then
            (case get_str v ''check_run'' ''head_sha'' of Some sha \<Rightarrow> CheckRunEvent sha | None \<Rightarrow> Unhandled)
          else if event_type = ''check_suite'' then
            (case get_str v ''check_suite'' ''head_sha'' of Some sha \<Rightarrow> CheckRunEvent sha | None \<Rightarrow> Unhandled)
          else if event_type = ''status'' then
            (case Option.bind (json_get v ''sha'') as_str of Some sha \<Rightarrow> CheckRunEvent sha | None \<Rightarrow> Unhandled)
          else if event_type = ''deployment'' \<or> event_type = ''deployment_status'' then
            (case get_str v ''deployment'' ''ref'' of Some ref \<Rightarrow> DeploymentEvent ref | None \<Rightarrow> Unhandled)
          else Unhandled)"

section \<open>The tables\<close>

record delivery_row =
  dl_repo_id :: string
  dl_received_at :: int

type_synonym deliveries = "string \<rightharpoonup> delivery_row"

definition WEBHOOK_DELIVERY_TTL_MS :: int where "WEBHOOK_DELIVERY_TTL_MS = 60 * 60 * 1000"

text \<open>\<open>INSERT OR IGNORE\<close>: whether the row is new.\<close>

definition insert_delivery_if_absent :: "string \<Rightarrow> string \<Rightarrow> int \<Rightarrow> deliveries \<Rightarrow> bool \<times> deliveries" where
  "insert_delivery_if_absent delivery_id repo_id received_at rows =
     (case rows delivery_id of
        Some _ \<Rightarrow> (False, rows)
      | None \<Rightarrow> (True, rows(delivery_id \<mapsto> \<lparr>dl_repo_id = repo_id, dl_received_at = received_at\<rparr>)))"

definition prune_expired :: "int \<Rightarrow> deliveries \<Rightarrow> deliveries" where
  "prune_expired now_ms rows =
     (let cutoff = sat_i64 (now_ms - WEBHOOK_DELIVERY_TTL_MS)
      in (\<lambda>i. case rows i of Some r \<Rightarrow> if dl_received_at r < cutoff then None else Some r | None \<Rightarrow> None))"

record vcs_repository =
  rp_id :: string
  rp_url :: string

record pull_request_row =
  pl_workarea_id :: string
  pl_repository_id :: string
  pl_pr_number :: int
  pl_head_sha :: string
  pl_head_ref :: string

definition strip_suffix :: "string \<Rightarrow> string \<Rightarrow> string option" where
  "strip_suffix s p = (if ends_with_str s p then Some (take (length s - length p) s) else None)"

definition slashes :: "string \<Rightarrow> nat" where
  "slashes s = length (filter (\<lambda>c. c = CHR ''/'') s)"

text \<open>The first two segments of what \<open>split(['/', '#', '?'])\<close> gives, joined by a slash.\<close>

definition first_two_segments :: "string \<Rightarrow> string" where
  "first_two_segments rest =
     (let sep = (\<lambda>c. c \<in> set ''/#?'')
      in takeWhile (\<lambda>c. \<not> sep c) rest @
         (case dropWhile (\<lambda>c. \<not> sep c) rest of
            [] \<Rightarrow> []
          | _ # later \<Rightarrow> CHR ''/'' # takeWhile (\<lambda>c. \<not> sep c) later))"

definition https_full_name :: "string \<Rightarrow> string \<Rightarrow> string option" where
  "https_full_name stripped prefix =
     (case strip_prefix stripped prefix of
        None \<Rightarrow> None
      | Some rest \<Rightarrow>
          (let head = first_two_segments rest
           in if slashes head = 1 \<and> head \<noteq> [] then Some head else None))"

definition repo_full_name_from_url :: "string \<Rightarrow> string option" where
  "repo_full_name_from_url url =
     (let trimmed = trim url;
          stripped = (case strip_suffix trimmed ''.git'' of Some s \<Rightarrow> s | None \<Rightarrow> trimmed);
          https = (case https_full_name stripped ''https://github.com/'' of
                     Some n \<Rightarrow> Some n | None \<Rightarrow> https_full_name stripped ''http://github.com/'')
      in case strip_prefix stripped ''git@github.com:'' of
           Some after_colon \<Rightarrow> if slashes after_colon = 1 then Some after_colon else https
         | None \<Rightarrow> https)"

definition resolve_repo_id_by_full_name :: "vcs_repository list \<Rightarrow> string \<Rightarrow> string option" where
  "resolve_repo_id_by_full_name rows full_name =
     map_option rp_id (List.find (\<lambda>r. map_option to_ascii_lowercase (repo_full_name_from_url (rp_url r))
       = Some (to_ascii_lowercase full_name)) rows)"

definition resolve_repo_full_name :: "vcs_repository list \<Rightarrow> string \<Rightarrow> string result" where
  "resolve_repo_full_name rows i =
     (case List.find (\<lambda>r. rp_id r = i) rows of
        None \<Rightarrow> Inl (NotFound (''repository '' @ i @ '' not found''))
      | Some row \<Rightarrow>
          ok_or (Validation (''repository '' @ i @ '' url `'' @ rp_url row @ ''` is not a parseable github.com URL''))
            (repo_full_name_from_url (rp_url row)))"

definition workareas_for_sha :: "pull_request_row list \<Rightarrow> string \<Rightarrow> string \<Rightarrow> (string \<times> int) list" where
  "workareas_for_sha rows repo sha =
     remdups (map (\<lambda>r. (pl_workarea_id r, pl_pr_number r))
       (filter (\<lambda>r. pl_repository_id r = repo \<and> pl_head_sha r = sha) rows))"

definition workareas_for_pr :: "pull_request_row list \<Rightarrow> string \<Rightarrow> int \<Rightarrow> string list" where
  "workareas_for_pr rows repo number =
     remdups (map pl_workarea_id (filter (\<lambda>r. pl_repository_id r = repo \<and> pl_pr_number r = number) rows))"

definition workareas_for_ref :: "pull_request_row list \<Rightarrow> string \<Rightarrow> string \<Rightarrow> (string \<times> int) list" where
  "workareas_for_ref rows repo ref =
     remdups (map (\<lambda>r. (pl_workarea_id r, pl_pr_number r))
       (filter (\<lambda>r. pl_repository_id r = repo \<and> pl_head_ref r = ref) rows))"

section \<open>The handler\<close>

text \<open>A provider, as the answers it gives during one webhook.\<close>

record vcs_provider =
  vp_threads :: "pr_id \<Rightarrow> review_thread list result"
  vp_check_runs :: "string \<Rightarrow> string \<Rightarrow> vcs_check_run list result"
  vp_deployments :: "string \<Rightarrow> string \<Rightarrow> deployment list result"

text \<open>What one webhook meets outside the model: clocks, database accesses, keychain, parser, HMAC.\<close>

record surroundings =
  sr_now_ms :: int
  sr_now_secs :: int
  sr_find_repo :: "unit result"
  sr_insert :: "unit result"
  sr_load_repo :: "unit result"
  sr_list_workareas :: "unit result"
  sr_from_slice :: "string \<Rightarrow> json option"
  sr_hmac :: "string \<Rightarrow> string \<Rightarrow> string"
  sr_secret_source :: "(string \<Rightarrow> string option result) option"
  sr_provider_source :: "(string \<Rightarrow> vcs_provider option result) option"

record vcs_state =
  vs_repositories :: "vcs_repository list"
  vs_pull_requests :: "pull_request_row list"
  vs_deliveries :: deliveries
  vs_checks :: aggregator

datatype ingest_outcome = IngestAccepted | IngestReject | IngestError

record webhook_payload =
  py_delivery_id :: string
  py_signature_256 :: string
  py_event_type :: string
  py_body :: string

text \<open>A loop of calls that can fail: the first error ends it, what was done before stays.\<close>

fun try_each :: "('a \<Rightarrow> 's \<Rightarrow> 'b result \<times> 's) \<Rightarrow> 'a list \<Rightarrow> 's \<Rightarrow> unit result \<times> 's" where
  "try_each f [] st = (Inr (), st)"
| "try_each f (x # xs) st =
     (case f x st of
        (Inl e, st) \<Rightarrow> (Inl e, st)
      | (Inr _, st) \<Rightarrow> try_each f xs st)"

definition invalidate_with ::
  "surroundings \<Rightarrow> vcs_provider \<Rightarrow> string \<Rightarrow> string \<Rightarrow> pull_request_row list \<Rightarrow> parsed_event \<Rightarrow> aggregator \<Rightarrow>
     unit result \<times> aggregator" where
  "invalidate_with sr p repo repo_full rows parsed ag =
     (case parsed of
        CheckRunEvent sha \<Rightarrow>
          (case sr_list_workareas sr of
             Inl e \<Rightarrow> (Inl e, ag)
           | Inr _ \<Rightarrow> try_each (\<lambda>(wa, _). invalidate_check_runs wa repo repo_full sha (sr_now_secs sr)
               (vp_check_runs p repo_full sha)) (workareas_for_sha rows repo sha) ag)
      | PullRequestEvent number \<Rightarrow>
          (case sr_list_workareas sr of
             Inl e \<Rightarrow> (Inl e, ag)
           | Inr _ \<Rightarrow> try_each (\<lambda>wa. let pr = \<lparr>pr_repo_full_name = repo_full, pr_number = number\<rparr>
               in invalidate_threads wa repo pr (vp_threads p pr)) (workareas_for_pr rows repo number) ag)
      | DeploymentEvent ref \<Rightarrow>
          (case sr_list_workareas sr of
             Inl e \<Rightarrow> (Inl e, ag)
           | Inr _ \<Rightarrow> try_each (\<lambda>(wa, _). invalidate_deployments wa repo repo_full ref
               (vp_deployments p repo_full ref)) (workareas_for_ref rows repo ref) ag)
      | Unhandled \<Rightarrow> (Inr (), ag))"

definition invalidate_for_event ::
  "surroundings \<Rightarrow> string \<Rightarrow> parsed_event \<Rightarrow> vcs_state \<Rightarrow> unit result \<times> vcs_state" where
  "invalidate_for_event sr repo parsed st =
     (case sr_provider_source sr of
        None \<Rightarrow> (Inr (), st)
      | Some provider_for \<Rightarrow>
          (case and_then (sr_load_repo sr) (\<lambda>_. resolve_repo_full_name (vs_repositories st) repo) of
             Inl e \<Rightarrow> (Inl e, st)
           | Inr repo_full \<Rightarrow>
               (case provider_for repo_full of
                  Inl e \<Rightarrow> (Inl e, st)
                | Inr None \<Rightarrow> (Inr (), st)
                | Inr (Some p) \<Rightarrow>
                    (case invalidate_with sr p repo repo_full (vs_pull_requests st) parsed (vs_checks st) of
                       (r, ag) \<Rightarrow> (r, st\<lparr>vs_checks := ag\<rparr>)))))"

definition ingest_webhook ::
  "surroundings \<Rightarrow> string \<Rightarrow> webhook_payload \<Rightarrow> vcs_state \<Rightarrow> ingest_outcome \<times> vcs_state" where
  "ingest_webhook sr repo payload st =
     (case sr_insert sr of
        Inl e \<Rightarrow> (IngestError, st)
      | Inr _ \<Rightarrow>
          (case insert_delivery_if_absent (py_delivery_id payload) repo (sr_now_ms sr) (vs_deliveries st) of
             (newly_inserted, rows) \<Rightarrow>
               (let st = st\<lparr>vs_deliveries := rows\<rparr>
                in if \<not> newly_inserted then (IngestAccepted, st)
                   else case sr_secret_source sr of
                          None \<Rightarrow> (IngestReject, st)
                        | Some webhook_secret \<Rightarrow>
                            (case webhook_secret repo of
                               Inl e \<Rightarrow> (IngestError, st)
                             | Inr None \<Rightarrow> (IngestReject, st)
                             | Inr (Some secret) \<Rightarrow>
                                 if \<not> verify_signature (sr_hmac sr) secret (py_body payload) (py_signature_256 payload)
                                 then (IngestReject, st)
                                 else (IngestAccepted, snd (invalidate_for_event sr repo
                                   (parse_event (sr_from_slice sr) (py_event_type payload) (py_body payload)) st))))))"

text \<open>The Core's sink: the route by the name in the body, then the handler.\<close>

definition process :: "surroundings \<Rightarrow> webhook_envelope \<Rightarrow> vcs_state \<Rightarrow> ingest_outcome \<times> vcs_state" where
  "process sr envelope st =
     (case Option.bind (sr_from_slice sr (we_body envelope)) (\<lambda>v. get_str v ''repository'' ''full_name'') of
        None \<Rightarrow> (IngestReject, st)
      | Some full_name \<Rightarrow>
          (case and_then (sr_find_repo sr)
                  (\<lambda>_. Inr (resolve_repo_id_by_full_name (vs_repositories st) full_name)) of
             Inl e \<Rightarrow> (IngestError, st)
           | Inr None \<Rightarrow> (IngestReject, st)
           | Inr (Some repo) \<Rightarrow>
               ingest_webhook sr repo
                 \<lparr>py_delivery_id = we_delivery_id envelope, py_signature_256 = we_signature_256 envelope,
                  py_event_type = we_event_type envelope, py_body = we_body envelope\<rparr> st))"

fun ack_of :: "ingest_outcome \<Rightarrow> webhook_ack" where
  "ack_of IngestAccepted = AckAccepted"
| "ack_of IngestReject = AckReject"
| "ack_of IngestError = AckError"

definition ingest :: "surroundings \<Rightarrow> webhook_envelope \<Rightarrow> vcs_state \<Rightarrow> webhook_ack \<times> vcs_state" where
  "ingest sr envelope st = (case process sr envelope st of (outcome, st) \<Rightarrow> (ack_of outcome, st))"

section \<open>The signature is the tag in hexadecimal\<close>

definition hex_digit :: "nat \<Rightarrow> char" where
  "hex_digit n = (if n < 10 then char_of (48 + n) else char_of (87 + n))"

fun hex_encode :: "string \<Rightarrow> string" where
  "hex_encode [] = []"
| "hex_encode (c # s) = hex_digit (of_char c div 16) # hex_digit (of_char c mod 16) # hex_encode s"

lemma of_char_less: "of_char c < (256 :: nat)"
  using of_char_mod_256 [of c, where 'a = nat] by (metis mod_less_divisor zero_less_numeral)

lemma char_eq_iff: "c = char_of n \<longleftrightarrow> of_char c = n mod (256 :: nat)"
  by (metis char_of_char of_char_of)

lemma to_digit16_Some: "to_digit16 c = Some n \<longleftrightarrow> n < 16 \<and> ascii_lower c = hex_digit n"
proof -
  have "of_char c < (256 :: nat)" by (rule of_char_less)
  then show ?thesis
    by (auto simp: to_digit16_def ascii_lower_def hex_digit_def char_eq_iff of_char_of Let_def)
qed

lemma decode_hex_Some: "decode_hex h = Some bs \<longleftrightarrow> to_ascii_lowercase h = hex_encode bs"
proof (induction h arbitrary: bs rule: induct_list012)
  case 1
  show ?case by (cases bs) (auto simp: to_ascii_lowercase_def)
next
  case (2 c)
  show ?case by (cases bs) (auto simp: to_ascii_lowercase_def)
next
  case (3 c d s)
  show ?case
  proof (cases bs)
    case Nil
    then show ?thesis by (auto simp: to_ascii_lowercase_def split: option.splits)
  next
    case (Cons b bs')
    have b: "of_char b < (256 :: nat)" by (rule of_char_less)
    have b16: "byte b div 16 < 16" using b by (simp add: less_mult_imp_div_less)
    have h: "to_digit16 x = Some n \<longleftrightarrow> ascii_lower x = hex_digit n" if "n < 16" for x n
      using that by (simp add: to_digit16_Some)
    have "decode_hex (c # d # s) = Some bs \<longleftrightarrow>
        to_digit16 c = Some (of_char b div 16) \<and> to_digit16 d = Some (of_char b mod 16) \<and> decode_hex s = Some bs'"
    proof (cases "(to_digit16 c, to_digit16 d)")
      case (Pair u v)
      have "char_of (hi * 16 + lo) = b \<longleftrightarrow> hi = of_char b div 16 \<and> lo = of_char b mod 16"
        if "hi < 16" "lo < 16" for hi lo :: nat
      proof -
        have "hi * 16 + lo < 256" using that by simp
        then have "char_of (hi * 16 + lo) = b \<longleftrightarrow> hi * 16 + lo = of_char b"
          using char_eq_iff [of b "hi * 16 + lo"] by auto
        also have "\<dots> \<longleftrightarrow> hi = of_char b div 16 \<and> lo = of_char b mod 16"
        proof -
          have "(hi * 16 + lo) div 16 = hi" "(hi * 16 + lo) mod 16 = lo" using that by simp_all
          then show ?thesis by (metis div_mult_mod_eq)
        qed
        finally show ?thesis .
      qed
      moreover have "n < 16" if "to_digit16 x = Some n" for x n using that to_digit16_Some by blast
      ultimately show ?thesis
        using Cons by (auto split: option.splits)
    qed
    with Cons b16 "3.IH"(1) show ?thesis
      by (simp add: h to_ascii_lowercase_def del: decode_hex.simps)
  qed
qed

text \<open>A signature header is accepted exactly where it is \<open>sha256=\<close> followed by the HMAC of the
  raw body under the repository's secret in hexadecimal, in either case of the letters.\<close>

theorem signature_is_the_tag:
  "verify_signature hmac secret body signature_256 \<longleftrightarrow>
     (\<exists>h. signature_256 = ''sha256='' @ h \<and> to_ascii_lowercase h = hex_encode (hmac secret body))"
proof (cases "strip_prefix signature_256 ''sha256=''")
  case None
  then have "\<nexists>h. signature_256 = ''sha256='' @ h" by (metis option.distinct(1) strip_prefix_append)
  with None show ?thesis by (simp add: verify_signature_def)
next
  case (Some h)
  then have "signature_256 = ''sha256='' @ h" by (simp add: strip_prefix_Some_iff)
  with Some show ?thesis
    by (auto simp: verify_signature_def decode_hex_Some [symmetric] split: option.split)
qed

section \<open>What a webhook can change\<close>

definition seen :: "vcs_state \<Rightarrow> string set" where
  "seen st = dom (vs_deliveries st)"

definition authentic :: "surroundings \<Rightarrow> string \<Rightarrow> string \<Rightarrow> string \<Rightarrow> bool" where
  "authentic sr repo body signature_256 \<longleftrightarrow>
     (case sr_secret_source sr of
        None \<Rightarrow> False
      | Some webhook_secret \<Rightarrow>
          (case webhook_secret repo of
             Inr (Some secret) \<Rightarrow> verify_signature (sr_hmac sr) secret body signature_256
           | _ \<Rightarrow> False))"

lemma invalidate_for_event_deliveries [simp]:
  "vs_deliveries (snd (invalidate_for_event sr repo parsed st)) = vs_deliveries st"
  by (auto simp: invalidate_for_event_def split: option.split sum.split prod.split)

definition recorded_delivery :: "surroundings \<Rightarrow> string \<Rightarrow> webhook_payload \<Rightarrow> vcs_state \<Rightarrow> vcs_state" where
  "recorded_delivery sr repo payload st = st\<lparr>vs_deliveries :=
     (vs_deliveries st)(py_delivery_id payload \<mapsto> \<lparr>dl_repo_id = repo, dl_received_at = sr_now_ms sr\<rparr>)\<rparr>"

definition refusal :: "surroundings \<Rightarrow> string \<Rightarrow> ingest_outcome" where
  "refusal sr repo =
     (case Option.bind (sr_secret_source sr) (\<lambda>f. Some (f repo)) of
        Some (Inl _) \<Rightarrow> IngestError | _ \<Rightarrow> IngestReject)"

text \<open>The four ways through the handler.\<close>

lemma ingest_broken: "\<not> is_ok (sr_insert sr) \<Longrightarrow> ingest_webhook sr repo payload st = (IngestError, st)"
  by (cases "sr_insert sr") (simp_all add: ingest_webhook_def)

lemma ingest_known:
  "py_delivery_id payload \<in> seen st \<Longrightarrow> is_ok (sr_insert sr) \<Longrightarrow>
     ingest_webhook sr repo payload st = (IngestAccepted, st)"
  by (cases "sr_insert sr") (auto simp: ingest_webhook_def insert_delivery_if_absent_def seen_def)

lemma ingest_refused:
  assumes "py_delivery_id payload \<notin> seen st" and "is_ok (sr_insert sr)"
    and "\<not> authentic sr repo (py_body payload) (py_signature_256 payload)"
  shows "ingest_webhook sr repo payload st = (refusal sr repo, recorded_delivery sr repo payload st)"
proof (cases "sr_secret_source sr")
  case None
  with assms(1,2) show ?thesis
    by (cases "sr_insert sr")
      (auto simp: ingest_webhook_def insert_delivery_if_absent_def seen_def refusal_def recorded_delivery_def split: option.split)
next
  case (Some f)
  show ?thesis
  proof (cases "f repo")
    case (Inl e)
    with Some assms(1,2) show ?thesis
      by (cases "sr_insert sr")
        (auto simp: ingest_webhook_def insert_delivery_if_absent_def seen_def refusal_def recorded_delivery_def split: option.split)
  next
    case (Inr secret)
    with Some assms show ?thesis
      by (cases "sr_insert sr"; cases secret)
        (auto simp: ingest_webhook_def insert_delivery_if_absent_def seen_def refusal_def recorded_delivery_def authentic_def
          split: option.split)
  qed
qed

lemma ingest_authentic:
  assumes "py_delivery_id payload \<notin> seen st" and "is_ok (sr_insert sr)"
    and "authentic sr repo (py_body payload) (py_signature_256 payload)"
  shows "ingest_webhook sr repo payload st = (IngestAccepted, snd (invalidate_for_event sr repo
    (parse_event (sr_from_slice sr) (py_event_type payload) (py_body payload)) (recorded_delivery sr repo payload st)))"
proof -
  from assms(3) obtain f secret where "sr_secret_source sr = Some f" "f repo = Inr (Some secret)"
    "verify_signature (sr_hmac sr) secret (py_body payload) (py_signature_256 payload)"
    by (auto simp: authentic_def split: option.splits sum.splits)
  with assms(1,2) show ?thesis
    by (cases "sr_insert sr")
      (auto simp: ingest_webhook_def insert_delivery_if_absent_def seen_def recorded_delivery_def split: option.split)
qed

lemma recorded_simps [simp]:
  "vs_checks (recorded_delivery sr repo payload st) = vs_checks st"
  "seen (recorded_delivery sr repo payload st) = insert (py_delivery_id payload) (seen st)"
  by (auto simp: recorded_delivery_def seen_def)

lemma invalidate_seen [simp]: "seen (snd (invalidate_for_event sr repo parsed st)) = seen st"
  by (simp add: seen_def)

lemma ingest_seen:
  "seen (snd (ingest_webhook sr repo payload st)) =
     (if is_ok (sr_insert sr) then insert (py_delivery_id payload) (seen st) else seen st)"
  by (cases "is_ok (sr_insert sr)"; cases "py_delivery_id payload \<in> seen st";
      cases "authentic sr repo (py_body payload) (py_signature_256 payload)")
    (simp_all add: ingest_broken ingest_known ingest_refused ingest_authentic insert_absorb)

lemma ingest_changes:
  assumes "vs_checks (snd (ingest_webhook sr repo payload st)) \<noteq> vs_checks st"
  shows "fst (ingest_webhook sr repo payload st) = IngestAccepted \<and> py_delivery_id payload \<notin> seen st \<and>
    is_ok (sr_insert sr) \<and> authentic sr repo (py_body payload) (py_signature_256 payload)"
  using assms
  by (cases "is_ok (sr_insert sr)"; cases "py_delivery_id payload \<in> seen st";
      cases "authentic sr repo (py_body payload) (py_signature_256 payload)")
    (simp_all add: ingest_broken ingest_known ingest_refused ingest_authentic)

text \<open>The repository a body names, if the Core knows it.\<close>

definition routed :: "surroundings \<Rightarrow> string \<Rightarrow> vcs_state \<Rightarrow> string option" where
  "routed sr body st =
     Option.bind (Option.bind (sr_from_slice sr body) (\<lambda>v. get_str v ''repository'' ''full_name''))
       (\<lambda>full_name. if is_ok (sr_find_repo sr) then resolve_repo_id_by_full_name (vs_repositories st) full_name else None)"

lemma process_routed:
  "routed sr (we_body e) st = Some repo \<Longrightarrow> process sr e st = ingest_webhook sr repo
     \<lparr>py_delivery_id = we_delivery_id e, py_signature_256 = we_signature_256 e,
      py_event_type = we_event_type e, py_body = we_body e\<rparr> st"
  by (cases "sr_find_repo sr") (auto simp: process_def routed_def split: option.splits Option.bind_splits)

lemma process_unrouted: "routed sr (we_body e) st = None \<Longrightarrow> snd (process sr e st) = st"
  by (cases "sr_find_repo sr") (auto simp: process_def routed_def split: option.splits Option.bind_splits)

lemma process_changes:
  assumes "vs_checks (snd (process sr e st)) \<noteq> vs_checks st"
  shows "\<exists>repo. routed sr (we_body e) st = Some repo \<and> fst (process sr e st) = IngestAccepted \<and>
    we_delivery_id e \<notin> seen st \<and> we_delivery_id e \<in> seen (snd (process sr e st)) \<and>
    authentic sr repo (we_body e) (we_signature_256 e)"
proof (cases "routed sr (we_body e) st")
  case None
  with assms process_unrouted show ?thesis by fastforce
next
  case (Some repo)
  with assms show ?thesis by (auto simp: process_routed ingest_seen dest!: ingest_changes)
qed

lemma process_seen: "seen st \<subseteq> seen (snd (process sr e st))"
  by (cases "routed sr (we_body e) st") (auto simp: process_unrouted process_routed ingest_seen)

text \<open>Surroundings with a fixed tag, a parser that knows one body, and a provider with one check run.\<close>

definition sample_value :: json where
  "sample_value = JObject [(''repository'', JObject [(''full_name'', JString ''O/R'')]),
     (''check_run'', JObject [(''head_sha'', JString ''c1'')])]"

definition sample_runs :: "vcs_check_run list" where
  "sample_runs = [\<lparr>vr_name = ''ci'', vr_status = ''completed'', vr_conclusion = ''success'', vr_details_url = []\<rparr>]"

definition sample_surroundings :: surroundings where
  "sample_surroundings =
     \<lparr>sr_now_ms = 5, sr_now_secs = 0, sr_find_repo = Inr (), sr_insert = Inr (), sr_load_repo = Inr (),
      sr_list_workareas = Inr (), sr_from_slice = (\<lambda>_. Some sample_value), sr_hmac = (\<lambda>_ _. ''k''),
      sr_secret_source = Some (\<lambda>_. Inr (Some ''s'')),
      sr_provider_source = Some (\<lambda>_. Inr (Some \<lparr>vp_threads = (\<lambda>_. Inr []), vp_check_runs = (\<lambda>_ _. Inr sample_runs),
        vp_deployments = (\<lambda>_ _. Inr [])\<rparr>))\<rparr>"

definition sample_state :: vcs_state where
  "sample_state =
     \<lparr>vs_repositories = [\<lparr>rp_id = ''r1'', rp_url = ''git@github.com:o/r.git''\<rparr>],
      vs_pull_requests = [\<lparr>pl_workarea_id = ''w'', pl_repository_id = ''r1'', pl_pr_number = 7,
        pl_head_sha = ''c1'', pl_head_ref = ''main''\<rparr>],
      vs_deliveries = Map.empty, vs_checks = new_aggregator\<rparr>"

lemma sample_full_name: "repo_full_name_from_url ''git@github.com:o/r.git'' = Some ''o/r''"
  by code_simp

lemma sample_lower: "to_ascii_lowercase ''O/R'' = ''o/r''" "to_ascii_lowercase ''o/r'' = ''o/r''"
  by code_simp+

lemma sample_routed: "vs_repositories st = vs_repositories sample_state \<Longrightarrow> sr_from_slice sr = (\<lambda>_. Some sample_value) \<Longrightarrow>
    is_ok (sr_find_repo sr) \<Longrightarrow> routed sr body st = Some ''r1''"
  by (simp add: routed_def sample_value_def get_str_def resolve_repo_id_by_full_name_def sample_state_def
      sample_full_name sample_lower)

lemma sample_decode: "decode_hex ''6b'' = Some ''k''"
  by code_simp

lemma sample_authentic: "authentic sample_surroundings repo body ''sha256=6b''"
  by (simp add: authentic_def sample_surroundings_def verify_signature_def strip_prefix_def starts_with_str_def sample_decode del: decode_hex.simps)

definition sample_done :: vcs_state where
  "sample_done = (recorded_delivery sample_surroundings ''r1''
     \<lparr>py_delivery_id = ''d1'', py_signature_256 = ''sha256=6b'', py_event_type = ''check_run'', py_body = ''{}''\<rparr>
     sample_state)\<lparr>vs_checks := store_checks ''w'' ''r1'' ''o/r'' ''c1'' 0 sample_runs new_aggregator\<rparr>"

lemma sample_process:
  "process sample_surroundings (envelope_of sample_request) sample_state = (IngestAccepted, sample_done)"
proof -
  have r: "routed sample_surroundings body sample_state = Some ''r1''" for body
    by (rule sample_routed) (simp_all add: sample_surroundings_def)
  have u: "seen sample_state = {}" "is_ok (sr_insert sample_surroundings)"
    by (simp_all add: seen_def sample_state_def sample_surroundings_def)
  have p: "parse_event (sr_from_slice sample_surroundings) ''check_run'' ''{}'' = CheckRunEvent ''c1''"
    by (simp add: parse_event_def sample_surroundings_def sample_value_def get_str_def)
  have i: "snd (invalidate_for_event sample_surroundings ''r1'' (CheckRunEvent ''c1'')
      (st\<lparr>vs_deliveries := d\<rparr>)) = st\<lparr>vs_deliveries := d, vs_checks := store_checks ''w'' ''r1'' ''o/r'' ''c1'' 0 sample_runs new_aggregator\<rparr>"
    if "st = sample_state" for st d
    unfolding that
    by (simp add: invalidate_for_event_def sample_surroundings_def sample_state_def resolve_repo_full_name_def
        sample_full_name invalidate_with_def workareas_for_sha_def invalidate_check_runs_def check_runs_def
        serve_checks_def new_aggregator_def fun_upd_idem)
  show ?thesis
    by (simp add: process_routed [OF r] envelope_of_def sample_request_def ingest_authentic u sample_authentic p
        recorded_delivery_def i sample_done_def)
qed

lemma sample_done_checks: "vs_checks sample_done \<noteq> vs_checks sample_state"
  by (simp add: sample_done_def sample_state_def store_checks_def new_aggregator_def emit_vcs_def)

text \<open>C13: A POST to the relay changes the Core's caches only where the relay accepts it, the body names a
  tracked repository, the delivery's id was not seen before, and the header is the signature of
  exactly the forwarded body under that repository's secret; the provider is then told 200, and the
  id is on record.\<close>

theorem post_changes_caches_only_if_signed:
  assumes "reads_bounded post"
    and "deliver valid_id (Some (ingest sr)) post st = (status, st')"
    and "vs_checks st' \<noteq> vs_checks st"
  shows "\<exists>req repo. read_http_request valid_id post = Inr req \<and> routed sr (wq_body req) st = Some repo \<and>
    wq_delivery_id req \<notin> seen st \<and> authentic sr repo (wq_body req) (wq_signature_256 req) \<and>
    status = HttpOk \<and> wq_delivery_id req \<in> seen st'"
proof (cases "read_http_request valid_id post")
  case (Inl e)
  with assms show ?thesis by (auto simp: deliver_def)
next
  case (Inr req)
  obtain out st2 where p: "process sr (envelope_of req) st = (out, st2)" by fastforce
  with deliver_calls_sink [OF Inr assms(1), of "ingest sr" st] assms(2)
  have st: "status = ack_status (ack_of out)" "st' = st2" by (simp_all add: ingest_def)
  with process_changes [of sr "envelope_of req" st] assms(3) p Inr show ?thesis
    by (auto simp: envelope_of_def)
qed

theorem post_changes_caches_only_if_signed_witness:
  "\<exists>req repo. read_http_request (\<lambda>_. True) (map Some sample_reads) = Inr req \<and>
    routed sample_surroundings (wq_body req) sample_state = Some repo \<and>
    wq_delivery_id req \<notin> seen sample_state \<and>
    authentic sample_surroundings repo (wq_body req) (wq_signature_256 req) \<and>
    HttpOk = HttpOk \<and> wq_delivery_id req \<in> seen sample_done"
proof (rule post_changes_caches_only_if_signed)
  show "reads_bounded (map Some sample_reads)" by code_simp
  then show "deliver (\<lambda>_. True) (Some (ingest sample_surroundings)) (map Some sample_reads) sample_state
      = (HttpOk, sample_done)"
    by (simp add: deliver_calls_sink [OF sample_accepted] ingest_def sample_process)
qed (rule sample_done_checks)

text \<open>The ids of those webhooks in a sequence whose processing changed a cache.\<close>

fun effective :: "(surroundings \<times> webhook_envelope) list \<Rightarrow> vcs_state \<Rightarrow> string list" where
  "effective [] st = []"
| "effective ((sr, e) # ws) st =
     (let st' = snd (process sr e st)
      in if vs_checks st' \<noteq> vs_checks st then we_delivery_id e # effective ws st' else effective ws st')"

lemma effective_unseen: "i \<in> set (effective ws st) \<Longrightarrow> i \<notin> seen st"
proof (induction ws st rule: effective.induct)
  case (2 sr e ws st)
  show ?case
  proof (cases "i = we_delivery_id e \<and> vs_checks (snd (process sr e st)) \<noteq> vs_checks st")
    case True
    with process_changes [of sr e st] show ?thesis by auto
  next
    case False
    with "2.prems" have "i \<in> set (effective ws (snd (process sr e st)))"
      by (auto simp: Let_def split: if_splits)
    with "2.IH" [OF refl] process_seen [of st sr e] show ?thesis
      by blast
  qed
qed simp


text \<open>A delivery that is turned away after its id is on record (the keychain failed, or the
  signature did not match because the body arrived truncated or the id was used by someone else
  first) is never processed: the answer to every later delivery with that id, authentic or not, is
  that it was accepted, and nothing changes.\<close>

theorem refused_delivery_is_lost:
  assumes "process sr e st = (outcome, st1)" and "outcome \<noteq> IngestAccepted" and "st1 \<noteq> st"
    and "we_delivery_id e' = we_delivery_id e" and "routed sr' (we_body e') st1 = Some repo"
    and "is_ok (sr_insert sr')"
  shows "vs_checks st1 = vs_checks st \<and> process sr' e' st1 = (IngestAccepted, st1)"
proof -
  have c: "vs_checks st1 = vs_checks st"
    using process_changes [of sr e st] assms(1,2) by auto
  have "routed sr (we_body e) st \<noteq> None"
    using assms(1,3) process_unrouted [of sr e st] by auto
  then obtain r where r: "routed sr (we_body e) st = Some r" by auto
  have "is_ok (sr_insert sr)"
    using assms(1,3) r by (auto simp: process_routed ingest_broken intro: ccontr)
  then have "we_delivery_id e \<in> seen st1"
    using assms(1) r process_routed [OF r] ingest_seen [of sr r _ st] by (metis insertI1 select_convs(1) snd_conv webhook_payload.select_convs(1))
  with c assms(4-6) show ?thesis by (simp add: process_routed ingest_known)
qed

theorem refused_delivery_is_lost_witness:
  "\<exists>st1. process (sample_surroundings\<lparr>sr_secret_source := Some (\<lambda>_. Inl (Internal ''keychain''))\<rparr>)
       (envelope_of sample_request) sample_state = (IngestError, st1) \<and>
     process sample_surroundings (envelope_of sample_request) st1 = (IngestAccepted, st1)"
proof -
  let ?sr = "sample_surroundings\<lparr>sr_secret_source := Some (\<lambda>_. Inl (Internal ''keychain''))\<rparr>"
  let ?e = "envelope_of sample_request"
  let ?st1 = "recorded_delivery ?sr ''r1''
     \<lparr>py_delivery_id = ''d1'', py_signature_256 = ''sha256=6b'', py_event_type = ''check_run'', py_body = ''{}''\<rparr>
     sample_state"
  have r: "routed ?sr (we_body ?e) sample_state = Some ''r1''"
    by (rule sample_routed) (simp_all add: sample_surroundings_def)
  have p: "process ?sr ?e sample_state = (IngestError, ?st1)"
    unfolding process_routed [OF r]
    by (subst ingest_refused)
      (simp_all add: seen_def sample_state_def sample_surroundings_def authentic_def refusal_def
        envelope_of_def sample_request_def)
  have "routed sample_surroundings (we_body ?e) ?st1 = Some ''r1''"
    by (rule sample_routed) (simp_all add: recorded_delivery_def sample_surroundings_def)
  moreover have "?st1 \<noteq> sample_state"
    by (simp add: recorded_delivery_def sample_state_def)
  moreover have "is_ok (sr_insert sample_surroundings)" by (simp add: sample_surroundings_def)
  ultimately have "vs_checks ?st1 = vs_checks sample_state \<and>
      process sample_surroundings ?e ?st1 = (IngestAccepted, ?st1)"
    by (intro refused_delivery_is_lost [OF p]) simp_all
  with p show ?thesis by blast
qed

section \<open>What an authentic event does\<close>

text \<open>A provider source that has no provider to give.\<close>

definition no_provider :: "surroundings \<Rightarrow> bool" where
  "no_provider sr \<longleftrightarrow> (case sr_provider_source sr of Some f \<Rightarrow> (\<forall>name. f name = Inr None) | None \<Rightarrow> True)"

text \<open>Without a provider (none is wired, or no token is stored) an authentic webhook is accepted and
  every cache stays as it is: the entry the event makes stale is not dropped.\<close>

theorem webhook_without_provider_drops_nothing:
  assumes "no_provider sr"
  shows "vs_checks (snd (process sr e st)) = vs_checks st"
proof -
  have "vs_checks (snd (invalidate_for_event sr repo parsed st)) = vs_checks st" for repo parsed st
    using assms by (auto simp: invalidate_for_event_def no_provider_def split: option.split sum.split)
  then show ?thesis
  proof (cases "routed sr (we_body e) st")
    case None
    then show ?thesis by (simp add: process_unrouted)
  next
    case (Some repo)
    let ?p = "\<lparr>py_delivery_id = we_delivery_id e, py_signature_256 = we_signature_256 e,
      py_event_type = we_event_type e, py_body = we_body e\<rparr>"
    from \<open>\<And>st repo parsed. vs_checks (snd (invalidate_for_event sr repo parsed st)) = vs_checks st\<close> show ?thesis
      unfolding process_routed [OF Some]
      by (cases "is_ok (sr_insert sr)"; cases "py_delivery_id ?p \<in> seen st";
          cases "authentic sr repo (py_body ?p) (py_signature_256 ?p)")
        (simp_all only: ingest_broken ingest_known ingest_refused ingest_authentic snd_conv recorded_simps simp_thms)
  qed
qed

lemma check_runs_forced:
  "check_runs wa repo full sha True now (Inr runs) (ag\<lparr>ag_checks := (ag_checks ag)((full, sha) := None)\<rparr>) =
     (Inr runs, emit_vcs wa repo (check_run_frame wa repo sha runs)
       (ag\<lparr>ag_checks := (ag_checks ag)((full, sha) \<mapsto> \<lparr>cc_fetched_at = now, cc_runs = runs\<rparr>)\<rparr>))"
  by (simp add: check_runs_def serve_checks_def store_checks_def)

lemma try_each_checks:
  "try_each (\<lambda>(wa, _). invalidate_check_runs wa repo full sha now (Inr runs)) ws ag =
     (Inr (), if ws = [] then ag
       else ag\<lparr>ag_checks := (ag_checks ag)((full, sha) \<mapsto> \<lparr>cc_fetched_at = now, cc_runs = runs\<rparr>),
               ag_events := ag_events ag @ map (\<lambda>(wa, _). check_event wa repo sha runs) ws\<rparr>)"
  by (induction ws arbitrary: ag)
    (auto simp: invalidate_check_runs_def check_runs_forced emit_vcs_def check_event_def)

text \<open>A check-run event the provider can answer leaves its answer in the cache, stamped with the time
  of the webhook, and sends one frame with it to every workarea that has a pull request at that
  commit, in particular to workareas whose own last frame was the same.\<close>

theorem check_event_tells_every_workarea:
  assumes "sr_list_workareas sr = Inr ()" and "vp_check_runs p full sha = Inr runs"
    and "workareas_for_sha rows repo sha \<noteq> []"
  shows "let ag' = snd (invalidate_with sr p repo full rows (CheckRunEvent sha) ag) in
    ag_checks ag' = (ag_checks ag)((full, sha) \<mapsto> \<lparr>cc_fetched_at = sr_now_secs sr, cc_runs = runs\<rparr>) \<and>
    ag_events ag' = ag_events ag @ map (\<lambda>(wa, _). check_event wa repo sha runs) (workareas_for_sha rows repo sha)"
  using assms by (simp add: invalidate_with_def try_each_checks)

end
