(* ===== verification/PullRequests.thy ===== *)
theory PullRequests
  imports Tables Webhook "HOL-Library.Multiset"
begin

text \<open>
  The pull requests of a workarea: the table (\<open>persist/src/pull_requests.rs\<close>), the operations of the
  handle that fill it (\<open>create_pr\<close>, \<open>get_pr\<close> of \<open>vcs/src/actor.rs\<close>), and the merge plan read from it
  (\<open>list_pr_set\<close>, \<open>set_merge_order\<close>, \<open>get_workarea_merge_plan\<close> of \<open>workspace_manager/workarea.rs\<close>).

  The command line client of the provider is an argument: the outcomes of its calls. The order of
  rows that agree on \<open>(merge_order, pr_number)\<close> is left open by the query; here it is that of the table.
\<close>

section \<open>The table\<close>

record pull_request =
  pq_workarea_id :: string
  pq_repository_id :: string
  pq_provider :: string
  pq_pr_number :: int
  pq_base_ref :: string
  pq_head_ref :: string
  pq_state :: string
  pq_title :: string
  pq_body :: string
  pq_url :: string
  pq_head_sha :: string
  pq_merge_order :: int
  pq_external_id :: string
  pq_repository_full_name :: string
  pq_created_at :: int
  pq_updated_at :: int

type_synonym pr_table = "pull_request table"

definition pr_of :: "string \<Rightarrow> string \<Rightarrow> pull_request \<Rightarrow> bool" where
  "pr_of wa repo r \<longleftrightarrow> pq_workarea_id r = wa \<and> pq_repository_id r = repo"

definition id_by_workarea_repo :: "pr_table \<Rightarrow> string \<Rightarrow> string \<Rightarrow> string option" where
  "id_by_workarea_repo t wa repo = map_option fst (List.find (\<lambda>(i, r). pr_of wa repo r) t)"

definition refresh_pr :: "pull_request \<Rightarrow> pull_request \<Rightarrow> pull_request" where
  "refresh_pr excluded r = excluded\<lparr>pq_merge_order := pq_merge_order r, pq_created_at := pq_created_at r\<rparr>"

definition pr_upsert :: "string \<Rightarrow> pull_request \<Rightarrow> pr_table \<Rightarrow> string result \<times> pr_table" where
  "pr_upsert i row t =
     (case id_by_workarea_repo t (pq_workarea_id row) (pq_repository_id row) of
        Some j \<Rightarrow> (Inr j, sql_update j (refresh_pr row) t)
      | None \<Rightarrow>
          if i \<in> fst ` set t then (Inl (Sqlx ''UNIQUE constraint failed: pull_requests.id''), t)
          else (Inr i, t @ [(i, row)]))"

definition pr_get :: "pr_table \<Rightarrow> string \<Rightarrow> pull_request option" where
  "pr_get t i = map_of t i"

definition list_by_workarea :: "pr_table \<Rightarrow> string \<Rightarrow> pull_request list" where
  "list_by_workarea t wa =
     sort_key pq_merge_order (sort_key pq_pr_number (filter (\<lambda>r. pq_workarea_id r = wa) (map snd t)))"

definition next_merge_order :: "pr_table \<Rightarrow> string \<Rightarrow> int" where
  "next_merge_order t wa =
     (case map pq_merge_order (filter (\<lambda>r. pq_workarea_id r = wa) (map snd t)) of
        [] \<Rightarrow> - 1 + 1
      | o1 # os \<Rightarrow> foldl max o1 os + 1)"

definition pr_set_merge_order :: "string \<Rightarrow> int \<Rightarrow> pr_table \<Rightarrow> unit result \<times> pr_table" where
  "pr_set_merge_order i order t =
     (if i \<in> fst ` set t then (Inr (), sql_update i (\<lambda>r. r\<lparr>pq_merge_order := order\<rparr>) t)
      else (Inl (NotFound (''pull_request '' @ i @ '' not found'')), t))"

definition set_pr_state :: "string \<Rightarrow> int \<Rightarrow> string \<Rightarrow> int \<Rightarrow> pr_table \<Rightarrow> pr_table" where
  "set_pr_state repo n state now t =
     map (\<lambda>(i, r). if pq_repository_id r = repo \<and> pq_pr_number r = n
       then (i, r\<lparr>pq_state := state, pq_updated_at := now\<rparr>) else (i, r)) t"

section \<open>Filling it\<close>

record pr_detail =
  pd_number :: int
  pd_title :: string
  pd_body :: string
  pd_state :: string
  pd_url :: string
  pd_head_ref_name :: string
  pd_base_ref_name :: string
  pd_head_ref_oid :: string

definition upsert_from_detail ::
  "vcs_repository list \<Rightarrow> string \<Rightarrow> int \<Rightarrow> string \<Rightarrow> string \<Rightarrow> pr_detail \<Rightarrow> pr_table \<Rightarrow> pull_request result \<times> pr_table" where
  "upsert_from_detail repos new_id now wa repo d t =
     (let row = \<lparr>pq_workarea_id = wa, pq_repository_id = repo, pq_provider = ''github'',
            pq_pr_number = pd_number d, pq_base_ref = pd_base_ref_name d, pq_head_ref = pd_head_ref_name d,
            pq_state = to_ascii_lowercase (pd_state d), pq_title = pd_title d, pq_body = pd_body d,
            pq_url = pd_url d, pq_head_sha = pd_head_ref_oid d, pq_merge_order = next_merge_order t wa,
            pq_external_id = [], pq_repository_full_name = unwrap_or [] (resolve_repo_full_name repos repo),
            pq_created_at = now, pq_updated_at = now\<rparr>
      in case pr_upsert new_id row t of
           (Inl e, t') \<Rightarrow> (Inl e, t')
         | (Inr i, t') \<Rightarrow>
             (ok_or (Internal (''pull_request '' @ i @ '' missing after upsert'')) (pr_get t' i), t'))"

text \<open>\<open>gh pr create\<close> answers with a number, \<open>gh pr view\<close> with the details of a request.\<close>

record gh_cli =
  gh_ready :: "unit result"
  gh_create_pr :: "string \<Rightarrow> string \<Rightarrow> string \<Rightarrow> string \<Rightarrow> string \<Rightarrow> int result"
  gh_view_pr :: "string \<Rightarrow> int \<Rightarrow> pr_detail result"

definition get_pr ::
  "gh_cli \<Rightarrow> vcs_repository list \<Rightarrow> string \<Rightarrow> int \<Rightarrow> string \<Rightarrow> string \<Rightarrow> int \<Rightarrow> pr_table \<Rightarrow> pull_request result \<times> pr_table" where
  "get_pr gh repos new_id now wa repo n t =
     (case and_then (gh_ready gh) (\<lambda>_. and_then (resolve_repo_full_name repos repo) (\<lambda>full. gh_view_pr gh full n)) of
        Inl e \<Rightarrow> (Inl e, t)
      | Inr d \<Rightarrow> upsert_from_detail repos new_id now wa repo d t)"

definition create_pr ::
  "gh_cli \<Rightarrow> vcs_repository list \<Rightarrow> (string \<Rightarrow> string) \<Rightarrow> string \<Rightarrow> int \<Rightarrow> string \<Rightarrow> string \<Rightarrow>
     string \<Rightarrow> string \<Rightarrow> string \<Rightarrow> string \<Rightarrow> pr_table \<Rightarrow> pull_request result \<times> pr_table" where
  "create_pr gh repos default_branch new_id now wa repo base_ref head_ref title body t =
     (case and_then (gh_ready gh) (\<lambda>_. and_then (resolve_repo_full_name repos repo) (\<lambda>full.
          and_then (gh_create_pr gh full head_ref (if base_ref = [] then default_branch repo else base_ref) title body)
            (\<lambda>n. gh_view_pr gh full n))) of
        Inl e \<Rightarrow> (Inl e, t)
      | Inr d \<Rightarrow> upsert_from_detail repos new_id now wa repo d t)"

section \<open>The plan\<close>

definition list_pr_set :: "database \<Rightarrow> pr_table \<Rightarrow> string \<Rightarrow> pull_request list result" where
  "list_pr_set db t wa =
     (case workareas_get db wa of
        None \<Rightarrow> Inl (workarea_not_found wa)
      | Some _ \<Rightarrow> Inr (list_by_workarea t wa))"

definition set_merge_order :: "database \<Rightarrow> string \<Rightarrow> string \<Rightarrow> int \<Rightarrow> pr_table \<Rightarrow> pull_request list result \<times> pr_table" where
  "set_merge_order db wa repo order t =
     (case workareas_get db wa of
        None \<Rightarrow> (Inl (workarea_not_found wa), t)
      | Some _ \<Rightarrow>
          (case id_by_workarea_repo t wa repo of
             None \<Rightarrow> (Inl (NotFound (''workarea '' @ wa @ '' has no PR for repository '' @ repo)), t)
           | Some i \<Rightarrow>
               (case pr_set_merge_order i order t of
                  (Inl e, t') \<Rightarrow> (Inl e, t')
                | (Inr (), t') \<Rightarrow> (Inr (list_by_workarea t' wa), t'))))"

record merge_step =
  ms_step :: nat
  ms_total :: nat
  ms_repository_id :: string
  ms_repository_full_name :: string
  ms_pr_number :: int
  ms_head_sha :: string
  ms_merge_order :: int
  ms_state :: string

definition merge_step_of :: "nat \<Rightarrow> nat \<times> pull_request \<Rightarrow> merge_step" where
  "merge_step_of n = (\<lambda>(i, pr).
     \<lparr>ms_step = i + 1, ms_total = n, ms_repository_id = pq_repository_id pr,
       ms_repository_full_name = pq_repository_full_name pr, ms_pr_number = pq_pr_number pr,
       ms_head_sha = pq_head_sha pr, ms_merge_order = pq_merge_order pr, ms_state = pq_state pr\<rparr>)"

definition get_workarea_merge_plan :: "database \<Rightarrow> pr_table \<Rightarrow> string \<Rightarrow> merge_step list result" where
  "get_workarea_merge_plan db t wa =
     and_then (list_pr_set db t wa)
       (\<lambda>rows. Inr (map (merge_step_of (length rows)) (List.enumerate 0 rows)))"

section \<open>Lemmas\<close>

text \<open>The keys of the table: one identifier, and one row for a workarea and a repository.\<close>

definition set_key :: "pull_request \<Rightarrow> string \<times> string" where
  "set_key r = (pq_workarea_id r, pq_repository_id r)"

definition set_keyed :: "pr_table \<Rightarrow> bool" where
  "set_keyed t \<longleftrightarrow> distinct (map fst t) \<and> distinct (map (set_key \<circ> snd) t)"

lemma id_by_workarea_repo_None:
  "id_by_workarea_repo t wa repo = None \<longleftrightarrow> (wa, repo) \<notin> (set_key \<circ> snd) ` set t"
proof -
  have "id_by_workarea_repo t wa repo = None \<longleftrightarrow> (\<forall>x\<in>set t. \<not> pr_of wa repo (snd x))"
    by (auto simp: id_by_workarea_repo_def find_None_iff)
  then show ?thesis by (auto simp: pr_of_def set_key_def image_iff)
qed

lemma id_by_workarea_repo_SomeD:
  assumes "id_by_workarea_repo t wa repo = Some i"
  obtains r where "(i, r) \<in> set t" "set_key r = (wa, repo)"
proof -
  from assms obtain r where "List.find (\<lambda>(i, r). pr_of wa repo r) t = Some (i, r)"
    by (auto simp: id_by_workarea_repo_def)
  then have "(i, r) \<in> set t" "pr_of wa repo r"
    unfolding find_Some_iff by (metis nth_mem, auto)
  then show ?thesis by (auto simp: pr_of_def set_key_def intro: that)
qed

lemma set_keys_sql_update:
  assumes "\<And>r. (k, r) \<in> set t \<Longrightarrow> set_key (f r) = set_key r"
  shows "map (set_key \<circ> snd) (sql_update k f t) = map (set_key \<circ> snd) t"
  using assms by (induction t) (auto simp: sql_update_def)

lemma pr_upsert_keyed [preserves]:
  assumes "set_keyed t"
  shows "set_keyed (snd (pr_upsert i row t))"
proof (cases "id_by_workarea_repo t (pq_workarea_id row) (pq_repository_id row)")
  case None
  then have "set_key row \<notin> (set_key \<circ> snd) ` set t"
    by (simp add: id_by_workarea_repo_None set_key_def [of row])
  with None assms show ?thesis
    by (auto simp: pr_upsert_def set_keyed_def)
next
  case (Some j)
  then obtain r where r: "(j, r) \<in> set t" "set_key r = set_key row"
    by (rule id_by_workarea_repo_SomeD) (simp add: set_key_def)
  have "map (set_key \<circ> snd) (sql_update j (refresh_pr row) t) = map (set_key \<circ> snd) t"
  proof (rule set_keys_sql_update)
    fix r' assume "(j, r') \<in> set t"
    with r(1) assms have "r' = r" by (auto simp: set_keyed_def dest: eq_key_imp_eq_value)
    with r(2) show "set_key (refresh_pr row r') = set_key r'" by (simp add: refresh_pr_def set_key_def)
  qed
  with Some assms show ?thesis by (simp add: pr_upsert_def set_keyed_def)
qed

lemma pr_set_merge_order_keyed [preserves]: "set_keyed t \<Longrightarrow> set_keyed (snd (pr_set_merge_order i order t))"
  by (simp add: pr_set_merge_order_def set_keyed_def set_keys_sql_update set_key_def)

lemma set_pr_state_keyed [preserves]: "set_keyed t \<Longrightarrow> set_keyed (set_pr_state repo n state now t)"
proof -
  have "map fst (set_pr_state repo n state now t) = map fst t"
    "map (set_key \<circ> snd) (set_pr_state repo n state now t) = map (set_key \<circ> snd) t"
    by (induction t) (auto simp: set_pr_state_def set_key_def)
  then show "set_keyed t \<Longrightarrow> set_keyed (set_pr_state repo n state now t)" by (simp add: set_keyed_def)
qed

lemma mset_list_by_workarea:
  "mset (list_by_workarea t wa) = mset (filter (\<lambda>r. pq_workarea_id r = wa) (map snd t))"
  by (simp add: list_by_workarea_def)

lemma set_list_by_workarea [simp]: "set (list_by_workarea t wa) = {r \<in> snd ` set t. pq_workarea_id r = wa}"
  by (auto simp: list_by_workarea_def)

text \<open>A stable sort by one key keeps the order another sort gave the rows that agree on it.\<close>

definition merge_before :: "pull_request \<Rightarrow> pull_request \<Rightarrow> bool" where
  "merge_before a b \<longleftrightarrow> pq_merge_order a < pq_merge_order b
     \<or> pq_merge_order a = pq_merge_order b \<and> pq_pr_number a \<le> pq_pr_number b"

lemma list_by_workarea_sorted: "sorted_wrt merge_before (list_by_workarea t wa)"
  using sort_key_two [of pq_merge_order pq_pr_number]
  by (simp add: list_by_workarea_def merge_before_def [abs_def])

lemma list_by_workarea_snoc:
  assumes "pq_workarea_id row = wa" and "\<forall>r \<in> snd ` set t. pq_workarea_id r = wa \<longrightarrow> pq_merge_order r < pq_merge_order row"
  shows "list_by_workarea (t @ [(i, row)]) wa = list_by_workarea t wa @ [row]"
proof -
  define rs where "rs = filter (\<lambda>r. pq_workarea_id r = wa) (map snd t)"
  have lt: "\<forall>r\<in>set rs. pq_merge_order r < pq_merge_order row" using assms by (auto simp: rs_def)
  have "sort_key pq_merge_order (sort_key pq_pr_number (rs @ [row]))
    = sort_key pq_merge_order (sort_key pq_pr_number rs) @ [row]"
  proof (rule properties_for_sort_key)
    fix k assume "k \<in> set (sort_key pq_merge_order (sort_key pq_pr_number rs) @ [row])"
    then have k: "k = row \<or> k \<in> set rs" by auto
    have "filter (\<lambda>r. pq_merge_order k = pq_merge_order r) (sort_key pq_merge_order (sort_key pq_pr_number rs))
      = filter (\<lambda>r. pq_merge_order k = pq_merge_order r) (sort_key pq_pr_number rs)"
      using sort_key_stable [of pq_merge_order "pq_merge_order k" "sort_key pq_pr_number rs"]
      by (simp add: eq_commute)
    moreover have "filter (\<lambda>r. pq_merge_order row = pq_merge_order r) rs = []"
      using lt by (auto simp: filter_empty_conv)
    moreover have "pq_merge_order k = pq_merge_order row \<longleftrightarrow> k = row" using k lt by auto
    ultimately show "filter (\<lambda>r. pq_merge_order k = pq_merge_order r)
        (sort_key pq_merge_order (sort_key pq_pr_number rs) @ [row])
      = filter (\<lambda>r. pq_merge_order k = pq_merge_order r) (sort_key pq_pr_number (rs @ [row]))"
      by (auto simp: filter_sort)
  qed (use lt in \<open>auto simp: sorted_append\<close>)
  then show ?thesis using assms(1) by (simp add: list_by_workarea_def rs_def)
qed

lemma init_le_foldl_max: "x \<le> foldl max (x :: int) xs"
  by (induction xs arbitrary: x) (auto intro: order_trans [OF max.cobounded1])

lemma le_foldl_max: "y \<in> set xs \<Longrightarrow> y \<le> foldl max (x :: int) xs"
  by (induction xs arbitrary: x) (auto intro: order_trans [OF max.cobounded2 init_le_foldl_max])

lemma next_merge_order_greater:
  assumes "r \<in> snd ` set t" and "pq_workarea_id r = wa"
  shows "pq_merge_order r < next_merge_order t wa"
proof -
  let ?os = "map pq_merge_order (filter (\<lambda>r. pq_workarea_id r = wa) (map snd t))"
  have "pq_merge_order r \<in> set ?os" using assms by auto
  then show ?thesis
    using init_le_foldl_max le_foldl_max by (cases ?os) (fastforce simp: next_merge_order_def)+
qed

lemma map_enumerate_snd:
  assumes "\<And>p. f (h p) = g (snd p)"
  shows "map f (map h (List.enumerate n rows)) = map g rows"
proof -
  have "f \<circ> h = g \<circ> snd" using assms by auto
  then have "map f (map h (List.enumerate n rows)) = map g (map snd (List.enumerate n rows))"
    by (simp only: map_map)
  then show ?thesis by simp
qed

lemma plan_steps:
  assumes "get_workarea_merge_plan db t wa = Inr steps"
  shows "steps = map (merge_step_of (length (list_by_workarea t wa))) (List.enumerate 0 (list_by_workarea t wa))"
  using assms by (auto simp: get_workarea_merge_plan_def list_pr_set_def and_then_Inr_iff split: option.splits)

section \<open>Properties\<close>

text \<open>the merge plan of a workarea is its set of pull requests: every row of the workarea is one step and
  no other row is, the steps ascend in merge order, ties by number, and they count from 1 to their total.\<close>

theorem merge_plan_is_the_set_in_order:
  assumes "get_workarea_merge_plan db t wa = Inr steps"
  shows "mset (map (\<lambda>s. (ms_repository_id s, ms_pr_number s, ms_merge_order s)) steps)
      = mset (map (\<lambda>r. (pq_repository_id r, pq_pr_number r, pq_merge_order r))
          (filter (\<lambda>r. pq_workarea_id r = wa) (map snd t)))
    \<and> sorted_wrt (\<lambda>a b. ms_merge_order a < ms_merge_order b
          \<or> ms_merge_order a = ms_merge_order b \<and> ms_pr_number a \<le> ms_pr_number b) steps
    \<and> map ms_step steps = [1..<length steps + 1] \<and> (\<forall>s\<in>set steps. ms_total s = length steps)"
proof -
  define rows where "rows = list_by_workarea t wa"
  have steps: "steps = map (merge_step_of (length rows)) (List.enumerate 0 rows)"
    unfolding rows_def using assms by (rule plan_steps)
  have keys: "map (\<lambda>s. (ms_repository_id s, ms_pr_number s, ms_merge_order s)) steps
      = map (\<lambda>r. (pq_repository_id r, pq_pr_number r, pq_merge_order r)) rows"
    unfolding steps by (rule map_enumerate_snd) (simp add: merge_step_of_def case_prod_beta)
  have ranks: "map (\<lambda>s. (ms_merge_order s, ms_pr_number s)) steps = map (\<lambda>r. (pq_merge_order r, pq_pr_number r)) rows"
    unfolding steps by (rule map_enumerate_snd) (simp add: merge_step_of_def case_prod_beta)
  have "sorted_wrt (\<lambda>a b. fst a < fst b \<or> fst a = fst b \<and> snd a \<le> snd b)
      (map (\<lambda>r. (pq_merge_order r, pq_pr_number r)) rows)"
    using list_by_workarea_sorted [of t wa] by (simp add: sorted_wrt_map merge_before_def [abs_def] rows_def)
  then have "sorted_wrt (\<lambda>a b. ms_merge_order a < ms_merge_order b
      \<or> ms_merge_order a = ms_merge_order b \<and> ms_pr_number a \<le> ms_pr_number b) steps"
    unfolding ranks [symmetric] by (simp add: sorted_wrt_map)
  moreover have "ms_step \<circ> merge_step_of (length rows) = Suc \<circ> fst" by (auto simp: merge_step_of_def)
  then have "map ms_step steps = map Suc (map fst (List.enumerate 0 rows))"
    unfolding steps by (simp only: map_map)
  then have "map ms_step steps = [1..<length steps + 1]" by (simp add: map_Suc_upt steps)
  moreover have "\<forall>s\<in>set steps. ms_total s = length steps" by (auto simp: steps merge_step_of_def)
  moreover have "mset (map (\<lambda>s. (ms_repository_id s, ms_pr_number s, ms_merge_order s)) steps)
      = mset (map (\<lambda>r. (pq_repository_id r, pq_pr_number r, pq_merge_order r))
          (filter (\<lambda>r. pq_workarea_id r = wa) (map snd t)))"
    unfolding keys mset_map by (simp add: rows_def mset_list_by_workarea)
  ultimately show ?thesis by blast
qed

definition sample_pr :: "string \<Rightarrow> int \<Rightarrow> int \<Rightarrow> pull_request" where
  "sample_pr repo n order =
     \<lparr>pq_workarea_id = ''w'', pq_repository_id = repo, pq_provider = ''github'', pq_pr_number = n,
       pq_base_ref = ''main'', pq_head_ref = ''feat'', pq_state = ''open'', pq_title = [], pq_body = [],
       pq_url = [], pq_head_sha = ''abc'', pq_merge_order = order, pq_external_id = [],
       pq_repository_full_name = ''o/'' @ repo, pq_created_at = 0, pq_updated_at = 0\<rparr>"

definition sample_pr_table :: pr_table where
  "sample_pr_table = [(''p1'', sample_pr ''r1'' 7 1), (''p2'', sample_pr ''r2'' 3 0), (''p3'', sample_pr ''r3'' 2 1)]"

definition sample_pr_db :: database where
  "sample_pr_db = \<lparr>db_sessions = [], db_workareas =
     [(''w'', \<lparr>wa_workspace_id = ''s'', wa_worktree_root = ''/w'', wa_status = ''active'', wa_permission_mode = None,
        wa_bypass = None, wa_archived_at = None, wa_composer_name = ''bach'', wa_branch_name = ''feat'',
        wa_settings_json = ''{}''\<rparr>)],
     db_workspaces = [], db_repositories = [], db_workarea_repos = [], db_workspace_repos = []\<rparr>"

lemma sample_plan:
  "get_workarea_merge_plan sample_pr_db sample_pr_table ''w'' = Inr
     [merge_step_of 3 (0, sample_pr ''r2'' 3 0), merge_step_of 3 (1, sample_pr ''r3'' 2 1), merge_step_of 3 (2, sample_pr ''r1'' 7 1)]"
  by code_simp

theorem merge_plan_is_the_set_in_order_witness:
  "map ms_step [merge_step_of 3 (0, sample_pr ''r2'' 3 0), merge_step_of 3 (1, sample_pr ''r3'' 2 1),
     merge_step_of 3 (2, sample_pr ''r1'' 7 1)] = [1, 2, 3]"
  using merge_plan_is_the_set_in_order [OF sample_plan] by (simp add: upt_rec)

text \<open>a newly recorded pull request becomes the last step of its workarea's merge plan, and recording one
  again keeps its identifier, its creation time and its place, whatever the user made of the order;
  either way the rows keep one identifier each, and a workarea has one row for a repository.\<close>

theorem recorded_pr_keeps_the_plan:
  assumes "set_keyed t" and "upsert_from_detail repos new_id now wa repo d t = (Inr pr, t')"
  shows "set_keyed t' \<and> pr_of wa repo pr \<and> pq_pr_number pr = pd_number d
    \<and> (case id_by_workarea_repo t wa repo of
         None \<Rightarrow> list_by_workarea t' wa = list_by_workarea t wa @ [pr]
       | Some i \<Rightarrow> pr_get t' i = Some pr \<and> map fst t' = map fst t
           \<and> (\<forall>old. pr_get t i = Some old \<longrightarrow> pq_merge_order pr = pq_merge_order old \<and> pq_created_at pr = pq_created_at old)
           \<and> (\<forall>j. j \<noteq> i \<longrightarrow> pr_get t' j = pr_get t j))"
proof -
  define row where "row = \<lparr>pq_workarea_id = wa, pq_repository_id = repo, pq_provider = ''github'',
            pq_pr_number = pd_number d, pq_base_ref = pd_base_ref_name d, pq_head_ref = pd_head_ref_name d,
            pq_state = to_ascii_lowercase (pd_state d), pq_title = pd_title d, pq_body = pd_body d,
            pq_url = pd_url d, pq_head_sha = pd_head_ref_oid d, pq_merge_order = next_merge_order t wa,
            pq_external_id = [], pq_repository_full_name = unwrap_or [] (resolve_repo_full_name repos repo),
            pq_created_at = now, pq_updated_at = now\<rparr>"
  have row: "pq_workarea_id row = wa" "pq_repository_id row = repo" "pq_pr_number row = pd_number d"
    "pq_merge_order row = next_merge_order t wa" by (simp_all add: row_def)
  from assms(2) obtain i where up: "pr_upsert new_id row t = (Inr i, t')" and pr: "pr_get t' i = Some pr"
    by (auto simp: upsert_from_detail_def row_def [symmetric] ok_or_Inr_iff split: prod.splits sum.splits)
  from assms(1) have keyed: "set_keyed t'" using pr_upsert_keyed [of t new_id row] up by simp
  show ?thesis
  proof (cases "id_by_workarea_repo t wa repo")
    case None
    with up row have "i = new_id" "new_id \<notin> fst ` set t" "t' = t @ [(new_id, row)]"
      by (auto simp: pr_upsert_def split: if_splits)
    with pr have "pr = row" "t' = t @ [(new_id, row)]"
      by (force simp: pr_get_def map_add_Some_iff dest: map_of_SomeD)+
    moreover have "list_by_workarea (t @ [(new_id, row)]) wa = list_by_workarea t wa @ [row]"
      using row next_merge_order_greater by (intro list_by_workarea_snoc) fastforce+
    ultimately show ?thesis using None keyed row by (auto simp: pr_of_def)
  next
    case (Some j)
    with up row have t': "i = j" "t' = sql_update j (refresh_pr row) t" by (auto simp: pr_upsert_def)
    with pr obtain old where "pr_get t j = Some old" "pr = refresh_pr row old"
      by (auto simp: pr_get_def map_of_sql_update)
    with Some keyed row pr t' show ?thesis
      by (auto simp: pr_of_def pr_get_def refresh_pr_def map_of_sql_update)
  qed
qed

definition sample_detail :: "int \<Rightarrow> pr_detail" where
  "sample_detail n = \<lparr>pd_number = n, pd_title = ''t'', pd_body = [], pd_state = ''OPEN'', pd_url = [],
     pd_head_ref_name = ''feat'', pd_base_ref_name = ''main'', pd_head_ref_oid = ''def''\<rparr>"

lemma sample_keyed: "set_keyed sample_pr_table"
  by (simp add: set_keyed_def sample_pr_table_def set_key_def sample_pr_def)

lemma sample_recorded:
  "upsert_from_detail [] ''p4'' 5 ''w'' ''r4'' (sample_detail 9) sample_pr_table
   = (let r = (sample_pr ''r4'' 9 2)\<lparr>pq_title := ''t'', pq_head_sha := ''def'', pq_repository_full_name := [],
          pq_created_at := 5, pq_updated_at := 5\<rparr> in (Inr r, sample_pr_table @ [(''p4'', r)]))"
  by code_simp

theorem recorded_pr_keeps_the_plan_witness:
  "let r = (sample_pr ''r4'' 9 2)\<lparr>pq_title := ''t'', pq_head_sha := ''def'', pq_repository_full_name := [],
        pq_created_at := 5, pq_updated_at := 5\<rparr>
   in list_by_workarea (sample_pr_table @ [(''p4'', r)]) ''w'' = list_by_workarea sample_pr_table ''w'' @ [r]"
proof -
  have "id_by_workarea_repo sample_pr_table ''w'' ''r4'' = None" by code_simp
  then show ?thesis
    using recorded_pr_keeps_the_plan [OF sample_keyed sample_recorded [unfolded Let_def]] by (simp add: Let_def)
qed


end
