(* ===== verification/WaitChecks.thy ===== *)
theory WaitChecks
  imports Prelude
begin

text \<open>
  The wait for check runs (\<open>scheduler/wait_checks.rs\<close>) with the backoff it imports
  (\<open>vcs/src/rate_limit.rs\<close>): a coordinated merge polls the checks of a commit until the required
  ones have ended or a timeout elapses.

  Times are milliseconds. What the world does to one wait is the record \<open>wait_env\<close>: the outcome and
  the duration of each poll, and for each sleep whether a webhook ended it, and when. A wait may be
  woken without end before its deadline, so the loop is a partial function: \<open>None\<close> is a wait that
  never returns.
\<close>

section \<open>Check runs\<close>

record check_run =
  cr_name :: string
  cr_status :: string
  cr_conclusion :: string

definition is_terminal :: "check_run \<Rightarrow> bool" where
  "is_terminal r \<longleftrightarrow> cr_status r \<in> {''completed'', ''success'', ''failure'', ''error''}"

definition run_passed :: "check_run \<Rightarrow> bool" where
  "run_passed r =
     (if \<not> is_terminal r then False
      else if cr_status r = ''success'' then True
      else if cr_status r = ''failure'' \<or> cr_status r = ''error'' then False
      else cr_conclusion r \<in> {''success'', ''neutral'', ''skipped'', ''stale''})"

datatype required_checks = AllTerminal | Named "string list"

fun select :: "required_checks \<Rightarrow> check_run list \<Rightarrow> check_run list" where
  "select AllTerminal runs = runs"
| "select (Named names) runs = filter (\<lambda>r. list_ex (\<lambda>n. n = cr_name r) names) runs"

fun resolved :: "required_checks \<Rightarrow> check_run list \<Rightarrow> bool" where
  "resolved AllTerminal runs = (select AllTerminal runs \<noteq> [] \<and> list_all is_terminal (select AllTerminal runs))"
| "resolved (Named names) runs =
     list_all (\<lambda>n. case List.find (\<lambda>r. cr_name r = n) (select (Named names) runs) of
        Some r \<Rightarrow> is_terminal r | None \<Rightarrow> False) names"

definition required_passed :: "required_checks \<Rightarrow> check_run list \<Rightarrow> bool" where
  "required_passed req runs \<longleftrightarrow> resolved req runs \<and> list_all run_passed (select req runs)"

section \<open>The loop\<close>

definition CHECK_RUN_BACKOFF_SECS :: "nat list" where
  "CHECK_RUN_BACKOFF_SECS = [1, 2, 4, 8, 16, 30]"

definition check_run_backoff_secs :: "nat \<Rightarrow> nat" where
  "check_run_backoff_secs attempt = CHECK_RUN_BACKOFF_SECS ! min attempt (length CHECK_RUN_BACKOFF_SECS - 1)"

record checks_outcome =
  co_passed :: bool
  co_timed_out :: bool
  co_runs :: "check_run list"

definition resolved_outcome :: "required_checks \<Rightarrow> check_run list \<Rightarrow> checks_outcome" where
  "resolved_outcome req runs = \<lparr>co_passed = required_passed req runs, co_timed_out = False, co_runs = runs\<rparr>"

definition timeout_outcome :: "required_checks \<Rightarrow> check_run list \<Rightarrow> checks_outcome" where
  "timeout_outcome req runs = \<lparr>co_passed = required_passed req runs, co_timed_out = True, co_runs = runs\<rparr>"

record wait_env =
  we_poll :: "nat \<Rightarrow> check_run list result"
  we_poll_ms :: "nat \<Rightarrow> nat"
  we_wake :: "nat \<Rightarrow> nat option"

text \<open>One sleep: until the backoff step or the deadline, or until the webhook; a wake repeats the step.\<close>

definition sleep_from :: "wait_env \<Rightarrow> nat \<Rightarrow> nat \<Rightarrow> nat \<Rightarrow> nat \<Rightarrow> nat \<times> nat" where
  "sleep_from env deadline i now attempt =
     (let until = min (now + 1000 * check_run_backoff_secs attempt) deadline
      in case we_wake env i of
           None \<Rightarrow> (until, attempt + 1)
         | Some d \<Rightarrow> (min (now + d) until, attempt))"

text \<open>The last poll, at the deadline: its outcome counts only if it succeeds.\<close>

definition last_poll :: "required_checks \<Rightarrow> check_run list result \<Rightarrow> check_run list \<Rightarrow> checks_outcome" where
  "last_poll req polled last_runs =
     (case polled of
        Inr runs \<Rightarrow> if resolved req runs then resolved_outcome req runs else timeout_outcome req runs
      | Inl e \<Rightarrow> timeout_outcome req last_runs)"

partial_function (option) wait_from ::
  "wait_env \<Rightarrow> required_checks \<Rightarrow> nat \<Rightarrow> nat \<Rightarrow> nat \<Rightarrow> nat \<Rightarrow> (checks_outcome result) option" where
  "wait_from env req deadline i now attempt =
     (case we_poll env i of
        Inl e \<Rightarrow> Some (Inl e)
      | Inr runs \<Rightarrow>
          if resolved req runs then Some (Inr (resolved_outcome req runs))
          else if deadline \<le> now + we_poll_ms env i then Some (Inr (timeout_outcome req runs))
          else (case sleep_from env deadline i (now + we_poll_ms env i) attempt of
                  (now', attempt') \<Rightarrow>
                    if deadline \<le> now' then Some (Inr (last_poll req (we_poll env (i + 1)) runs))
                    else wait_from env req deadline (i + 1) now' attempt'))"

definition run_wait_loop :: "wait_env \<Rightarrow> required_checks \<Rightarrow> nat \<Rightarrow> (checks_outcome result) option" where
  "run_wait_loop env req timeout = wait_from env req timeout 0 0 0"

section \<open>Lemmas\<close>

lemma backoff_pos: "1 \<le> check_run_backoff_secs attempt"
proof -
  have "check_run_backoff_secs attempt \<in> set CHECK_RUN_BACKOFF_SECS"
    unfolding check_run_backoff_secs_def by (rule nth_mem) (simp add: CHECK_RUN_BACKOFF_SECS_def)
  then show ?thesis by (auto simp: CHECK_RUN_BACKOFF_SECS_def)
qed

definition sound_outcome :: "wait_env \<Rightarrow> required_checks \<Rightarrow> checks_outcome result \<Rightarrow> bool" where
  "sound_outcome env req r =
     (case r of
        Inl e \<Rightarrow> \<exists>j. we_poll env j = Inl e
      | Inr out \<Rightarrow> (\<exists>j. we_poll env j = Inr (co_runs out)) \<and> (co_timed_out out \<longleftrightarrow> \<not> resolved req (co_runs out))
          \<and> co_passed out = required_passed req (co_runs out))"

lemma wait_sound:
  assumes "wait_from env req deadline i now attempt = Some r"
  shows "sound_outcome env req r"
  using assms
proof (rule wait_from.raw_induct [rotated])
  fix f env req deadline i now attempt r
  assume IH: "\<And>env req deadline i now attempt r.
      f env req deadline i now attempt = Some r \<Longrightarrow> sound_outcome env req r"
    and body: "(case we_poll env i of
        Inl e \<Rightarrow> Some (Inl e)
      | Inr runs \<Rightarrow>
          if resolved req runs then Some (Inr (resolved_outcome req runs))
          else if deadline \<le> now + we_poll_ms env i then Some (Inr (timeout_outcome req runs))
          else (case sleep_from env deadline i (now + we_poll_ms env i) attempt of
                  (now', attempt') \<Rightarrow>
                    if deadline \<le> now' then Some (Inr (last_poll req (we_poll env (i + 1)) runs))
                    else f env req deadline (i + 1) now' attempt')) = Some r"
  have last: "sound_outcome env req (Inr (last_poll req (we_poll env j) runs))"
    if "we_poll env k = Inr runs" "\<not> resolved req runs" for j k runs
    using that by (cases "we_poll env j")
      (auto simp: sound_outcome_def last_poll_def resolved_outcome_def timeout_outcome_def)
  from body IH last [of i] show "sound_outcome env req r"
    by (auto simp: sound_outcome_def [of env req "Inl _"] resolved_outcome_def timeout_outcome_def
        split: sum.splits if_splits prod.splits)
      (auto simp: sound_outcome_def)
qed

lemma sleep_advances:
  assumes "sleep_from env deadline i t attempt = (now', attempt')" and "t < deadline" and "now \<le> t"
    and "we_wake env i = None \<or> now < t"
  shows "now < now'"
  using assms backoff_pos [of attempt]
  by (auto simp: sleep_from_def Let_def min_def split: option.splits if_splits)

lemma wait_returns:
  assumes "\<And>j. we_wake env j = None \<or> 0 < we_poll_ms env j"
  shows "\<exists>r. wait_from env req deadline i now attempt = Some r"
proof (induction "deadline - now" arbitrary: i now attempt rule: less_induct)
  case less
  obtain now' attempt' where s: "sleep_from env deadline i (now + we_poll_ms env i) attempt = (now', attempt')"
    by fastforce
  have "\<exists>r. wait_from env req deadline (i + 1) now' attempt' = Some r"
    if "now + we_poll_ms env i < deadline" "\<not> deadline \<le> now'"
  proof (rule less.hyps)
    have "we_wake env i = None \<or> now < now + we_poll_ms env i" using assms [of i] by auto
    from sleep_advances [OF s that(1) _ this] that(2) show "deadline - now' < deadline - now" by auto
  qed
  then show ?case
    by (subst wait_from.simps) (auto simp: s not_le split: sum.split)
qed

section \<open>Properties\<close>


definition green :: "string \<Rightarrow> check_run" where
  "green n = \<lparr>cr_name = n, cr_status = ''completed'', cr_conclusion = ''success''\<rparr>"

definition green_env :: wait_env where
  "green_env = \<lparr>we_poll = \<lambda>_. Inr [green ''ci''], we_poll_ms = \<lambda>_. 5, we_wake = \<lambda>_. None\<rparr>"




end
