(* ===== verification/MergeSet.thy ===== *)
theory MergeSet
  imports PullRequests WaitChecks EffectiveMode PathPolicy
begin

text \<open>
  The coordinated merge and revert of a workarea's pull requests (\<open>merge_workarea_pr_set\<close>,
  \<open>revert_workarea_pr_set\<close> and the write-back to the issue tracker, \<open>workspace_manager/workarea.rs\<close>;
  \<open>vcs/src/write_back.rs\<close>; the options the handler builds, \<open>handlers/workareas.rs\<close>).

  Provider, trackers and the polls of a wait are arguments; they may answer by what has happened so
  far, which the state keeps as a log: requests with their answers, the frames sent to the client
  and the events broadcast. The wait for checks is that of \<open>WaitChecks\<close>, with \<open>None\<close> where it does not end.
\<close>

section \<open>Data\<close>

datatype merge_method = Merge | Squash | Rebase

fun merge_method_as_str :: "merge_method \<Rightarrow> string" where
  "merge_method_as_str Merge = ''merge''"
| "merge_method_as_str Squash = ''squash''"
| "merge_method_as_str Rebase = ''rebase''"

definition parse_merge_method :: "string \<Rightarrow> merge_method result" where
  "parse_merge_method s =
     (if s = [] \<or> s = ''merge'' then Inr Merge
      else if s = ''squash'' then Inr Squash
      else if s = ''rebase'' then Inr Rebase
      else Inl (Validation (''merge method must be merge|squash|rebase (got `'' @ s @ ''`)'')))"

record merge_opts =
  mo_method :: merge_method
  mo_timeout_secs :: nat
  mo_allow_failing_checks :: bool

definition DEFAULT_MERGE_CHECK_TIMEOUT :: nat where "DEFAULT_MERGE_CHECK_TIMEOUT = 600"

definition default_merge_opts :: merge_opts where
  "default_merge_opts = \<lparr>mo_method = Merge, mo_timeout_secs = DEFAULT_MERGE_CHECK_TIMEOUT, mo_allow_failing_checks = False\<rparr>"

text \<open>The options of a request.\<close>

definition opts_of_request :: "string \<Rightarrow> nat \<Rightarrow> bool \<Rightarrow> merge_opts result" where
  "opts_of_request m timeout_secs allow_failing =
     and_then (parse_merge_method m) (\<lambda>m. Inr \<lparr>mo_method = m,
       mo_timeout_secs = (if timeout_secs = 0 then DEFAULT_MERGE_CHECK_TIMEOUT else timeout_secs),
       mo_allow_failing_checks = allow_failing\<rparr>)"

datatype failure_kind = ChecksFailed | ChecksTimeout | MergeConflict | MergeRejected

datatype merge_progress =
    StepStarted nat nat string int
  | StepCompleted nat nat string
  | StepFailed nat nat string failure_kind
  | SetMerged nat
  | SetPaused nat nat string

record merge_report =
  rep_merged_steps :: nat
  rep_total :: nat
  rep_paused_at_step :: "nat option"

record provider_merge_report =
  pm_merged :: bool
  pm_merge_commit_sha :: "string option"
  pm_message :: string

record provider_revert_report =
  pv_reverted :: bool
  pv_revert_pr_url :: "string option"
  pv_message :: string

datatype revert_outcome = Reverted | Skipped | FailedRevert

record revert_step =
  rs_repository_full_name :: string
  rs_pr_number :: int
  rs_outcome :: revert_outcome
  rs_detail :: string

datatype issue_provider = Linear | Jira

fun issue_provider_as_str :: "issue_provider \<Rightarrow> string" where
  "issue_provider_as_str Linear = ''linear''"
| "issue_provider_as_str Jira = ''jira''"

record issue_ref =
  ir_provider :: issue_provider
  ir_external_id :: string
  ir_project_url :: string

datatype pr_set_event =
    PrSetMergeStepCompleted string nat nat string int string
  | PrSetMergeFailedStep string nat nat string
  | PrSetMerged string nat
  | PrReverted string string int
  | PrSetIssueWriteBack string string string string string

section \<open>The world around a merge\<close>

datatype merge_log =
    MergeCall string int merge_method "provider_merge_report result"
  | RevertCall string int "provider_revert_report result"
  | ChecksWait string string "(checks_outcome result) option"
  | TransitionCall issue_ref "unit result"
  | Frame merge_progress
  | Broadcast pr_set_event

record pr_world =
  pw_db :: database
  pw_prs :: pr_table
  pw_log :: "merge_log list"

record merge_env =
  me_vcs_wired :: bool
  me_scheduler_wired :: bool
  me_checks_source :: bool
  me_pat :: "merge_log list \<Rightarrow> string option result"
  me_github_provider :: "string \<Rightarrow> unit result"
  me_merge :: "merge_log list \<Rightarrow> string \<Rightarrow> int \<Rightarrow> merge_method \<Rightarrow> provider_merge_report result"
  me_revert :: "merge_log list \<Rightarrow> string \<Rightarrow> int \<Rightarrow> provider_revert_report result"
  me_wait :: "merge_log list \<Rightarrow> string \<Rightarrow> string \<Rightarrow> wait_env"
  me_transition :: "merge_log list \<Rightarrow> issue_ref \<Rightarrow> unit result"
  me_row_written :: "merge_log list \<Rightarrow> bool"
  me_now :: "merge_log list \<Rightarrow> int"
  me_managed :: "json option"
  me_from_str :: "string \<Rightarrow> json option"
  me_url_path :: "string \<Rightarrow> string result"

definition keychain_provider :: "merge_env \<Rightarrow> merge_log list \<Rightarrow> unit result" where
  "keychain_provider env l =
     (case me_pat env l of
        Inl e \<Rightarrow> Inl (Internal (''loading GitHub PAT: '' @ error_display e))
      | Inr None \<Rightarrow> Inl (VcsNotAuthenticated
          ''no GitHub PAT configured (SecretKind::GithubPat); connect GitHub in Settings'')
      | Inr (Some pat) \<Rightarrow> me_github_provider env pat)"

definition handle_merge_pr ::
  "merge_env \<Rightarrow> merge_log list \<Rightarrow> string \<Rightarrow> int \<Rightarrow> merge_method \<Rightarrow> provider_merge_report result" where
  "handle_merge_pr env l full n m = and_then (keychain_provider env l) (\<lambda>_. me_merge env l full n m)"

definition handle_revert_pr ::
  "merge_env \<Rightarrow> merge_log list \<Rightarrow> string \<Rightarrow> int \<Rightarrow> bool \<Rightarrow> provider_revert_report result" where
  "handle_revert_pr env l full n hard_reset = and_then (keychain_provider env l) (\<lambda>_. me_revert env l full n)"

definition add_log :: "merge_log \<Rightarrow> pr_world \<Rightarrow> pr_world" where
  "add_log e w = w\<lparr>pw_log := pw_log w @ [e]\<rparr>"

text \<open>The update of a cached row is best effort.\<close>

definition mark_pr :: "merge_env \<Rightarrow> string \<Rightarrow> int \<Rightarrow> string \<Rightarrow> pr_world \<Rightarrow> pr_world" where
  "mark_pr env repo n state w =
     (if me_row_written env (pw_log w)
      then w\<lparr>pw_prs := set_pr_state repo n state (me_now env (pw_log w)) (pw_prs w)\<rparr> else w)"

definition no_vcs_source :: error where
  "no_vcs_source = Internal (''scheduler.no_vcs_source: wait_for_check_runs called before a CheckRunsSource was wired ''
     @ ''(boot calls SchedulerHandle::set_check_runs_source after the VCS handle is built)'')"

definition wait_for_check_runs ::
  "merge_env \<Rightarrow> string \<Rightarrow> string \<Rightarrow> nat \<Rightarrow> pr_world \<Rightarrow> (checks_outcome result) option \<times> pr_world" where
  "wait_for_check_runs env repo sha secs w =
     (let out = (if me_checks_source env
                 then run_wait_loop (me_wait env (pw_log w) repo sha) AllTerminal (1000 * secs)
                 else Some (Inl no_vcs_source))
      in (out, add_log (ChecksWait repo sha out) w))"

section \<open>The merge loop\<close>

definition is_merge_conflict :: "error \<Rightarrow> bool" where
  "is_merge_conflict e =
     (let m = to_ascii_lowercase (error_display e)
      in contains_str m ''not mergeable'' \<or> contains_str m ''merge conflict''
        \<or> contains_str m ''405'' \<or> contains_str m ''conflict'')"

definition read_allow_merge_with_failing_checks :: "json option \<Rightarrow> bool" where
  "read_allow_merge_with_failing_checks managed =
     (case managed of
        None \<Rightarrow> False
      | Some v \<Rightarrow>
          (case (case json_get v ''allowMergeWithFailingChecks'' of
                   Some b \<Rightarrow> Some b | None \<Rightarrow> json_get v ''allow_merge_with_failing_checks'') of
             Some b \<Rightarrow> (case as_bool b of Some x \<Rightarrow> x | None \<Rightarrow> False)
           | None \<Rightarrow> False))"

definition enforce_merge_anyway_allowed :: "merge_env \<Rightarrow> unit result" where
  "enforce_merge_anyway_allowed env =
     (if read_allow_merge_with_failing_checks (me_managed env) then Inr ()
      else Inl (PolicyLocked (POLICY_LOCKED_GENERIC
        @ '': managed.json forbids merge-with-failing-checks (allowMergeWithFailingChecks)'')))"

definition pause_merge ::
  "string \<Rightarrow> merge_step \<Rightarrow> nat \<Rightarrow> nat \<Rightarrow> string \<Rightarrow> failure_kind \<Rightarrow> pr_world \<Rightarrow> merge_report \<times> pr_world" where
  "pause_merge wa member n merged_steps reason kind w =
     (\<lparr>rep_merged_steps = merged_steps, rep_total = n, rep_paused_at_step = Some (ms_step member)\<rparr>,
      add_log (Broadcast (PrSetMergeFailedStep wa (ms_step member) n reason))
       (add_log (Frame (SetPaused (ms_step member) n reason))
         (add_log (Frame (StepFailed (ms_step member) n reason kind)) w)))"

text \<open>The commit whose checks are awaited: that of the merge, or the head if the provider named none.\<close>

definition post_merge_sha :: "provider_merge_report \<Rightarrow> merge_step \<Rightarrow> string" where
  "post_merge_sha r member =
     (case pm_merge_commit_sha r of
        Some s \<Rightarrow> if s = [] then ms_head_sha member else s
      | None \<Rightarrow> ms_head_sha member)"

datatype member_outcome = Passed | Paused merge_report | Aborted error | StillWaiting

definition complete_step :: "merge_env \<Rightarrow> string \<Rightarrow> merge_step \<Rightarrow> nat \<Rightarrow> string \<Rightarrow> pr_world \<Rightarrow> pr_world" where
  "complete_step env wa member n sha w =
     add_log (Broadcast (PrSetMergeStepCompleted wa (ms_step member) n (ms_repository_full_name member) (ms_pr_number member) sha))
      (add_log (Frame (StepCompleted (ms_step member) n sha))
        (mark_pr env (ms_repository_id member) (ms_pr_number member) ''merged'' w))"

text \<open>What a member's merge or its checks make the loop do.\<close>

definition settle_checks ::
  "merge_env \<Rightarrow> string \<Rightarrow> merge_opts \<Rightarrow> nat \<Rightarrow> nat \<Rightarrow> merge_step \<Rightarrow> string \<Rightarrow> pr_world \<Rightarrow> member_outcome \<times> pr_world" where
  "settle_checks env wa opts n merged_steps member sha w =
     (case wait_for_check_runs env (ms_repository_id member) sha (mo_timeout_secs opts) w of
        (None, w') \<Rightarrow> (StillWaiting, w')
      | (Some (Inl e), w') \<Rightarrow> (Aborted e, w')
      | (Some (Inr out), w') \<Rightarrow>
          if \<not> co_passed out \<and> \<not> mo_allow_failing_checks opts
          then (case (if co_timed_out out then (''checks timed out after '' @ show_nat (mo_timeout_secs opts) @ ''s'', ChecksTimeout)
                      else (''required checks failed'', ChecksFailed)) of
                  (reason, kind) \<Rightarrow> map_prod Paused id (pause_merge wa member n merged_steps reason kind w'))
          else (Passed, complete_step env wa member n sha w'))"

definition merge_member ::
  "merge_env \<Rightarrow> string \<Rightarrow> merge_opts \<Rightarrow> nat \<Rightarrow> nat \<Rightarrow> merge_step \<Rightarrow> pr_world \<Rightarrow> member_outcome \<times> pr_world" where
  "merge_member env wa opts n merged_steps member w =
     (let w1 = add_log (Frame (StepStarted (ms_step member) n (ms_repository_full_name member) (ms_pr_number member))) w;
          res = handle_merge_pr env (pw_log w1) (ms_repository_full_name member) (ms_pr_number member) (mo_method opts);
          w2 = add_log (MergeCall (ms_repository_full_name member) (ms_pr_number member) (mo_method opts) res) w1
      in case res of
           Inl e \<Rightarrow> map_prod Paused id (pause_merge wa member n merged_steps (error_display e)
               (if is_merge_conflict e then MergeConflict else MergeRejected) w2)
         | Inr r \<Rightarrow>
             if pm_merged r then settle_checks env wa opts n merged_steps member (post_merge_sha r member) w2
             else map_prod Paused id (pause_merge wa member n merged_steps
               (if pm_message r = [] then ''merge rejected by provider'' else pm_message r) MergeRejected w2))"

fun merge_members ::
  "merge_env \<Rightarrow> string \<Rightarrow> merge_opts \<Rightarrow> nat \<Rightarrow> nat \<Rightarrow> merge_step list \<Rightarrow> pr_world \<Rightarrow> member_outcome \<times> nat \<times> pr_world" where
  "merge_members env wa opts n merged_steps [] w = (Passed, merged_steps, w)"
| "merge_members env wa opts n merged_steps (member # rest) w =
     (case merge_member env wa opts n merged_steps member w of
        (Passed, w') \<Rightarrow> merge_members env wa opts n (merged_steps + 1) rest w'
      | (out, w') \<Rightarrow> (out, merged_steps, w'))"

section \<open>The write-back to the tracker\<close>

definition issue_write_back_opt_in :: "merge_env \<Rightarrow> database \<Rightarrow> string \<Rightarrow> bool result" where
  "issue_write_back_opt_in env db wa =
     (case workareas_get db wa of
        None \<Rightarrow> Inl (workarea_not_found wa)
      | Some r \<Rightarrow>
          (case get_settings_json db (wa_workspace_id r) of
             None \<Rightarrow> Inr False
           | Some raw \<Rightarrow>
               (let v = (case me_from_str env raw of Some v \<Rightarrow> v | None \<Rightarrow> JNull)
                in Inr (case Option.bind (json_get v ''issue_write_back'') as_bool of Some b \<Rightarrow> b | None \<Rightarrow> False))))"

text \<open>The segment after a marker in the path of a URL (\<open>vcs/src/linear.rs\<close>, \<open>jira.rs\<close>).\<close>

definition trim_slashes :: "string \<Rightarrow> string" where
  "trim_slashes s = (let f = dropWhile (\<lambda>c. c = CHR ''/'') in rev (f (rev (f s))))"

definition segment_after :: "string \<Rightarrow> string list \<Rightarrow> string option" where
  "segment_after marker segs =
     (case dropWhile (\<lambda>s. s \<noteq> marker) segs of
        _ # i # _ \<Rightarrow> if i = [] then None else Some i
      | _ \<Rightarrow> None)"

definition parse_tracker_id :: "(string \<Rightarrow> string result) \<Rightarrow> string \<Rightarrow> string \<Rightarrow> string \<Rightarrow> string \<Rightarrow> string \<Rightarrow> string result" where
  "parse_tracker_id url_path tracker what marker hint s =
     (let trimmed = trim s
      in if trimmed = [] then Inl (Validation (tracker @ '': empty issue '' @ what))
         else if \<not> contains_str trimmed ''://'' then Inr trimmed
         else (case url_path trimmed of
                 Inl e \<Rightarrow> Inl (Validation (tracker @ '': invalid URL `'' @ trimmed @ ''`: '' @ error_display e))
               | Inr path \<Rightarrow>
                   ok_or (Validation (tracker @ '': URL `'' @ trimmed @ ''` has no '' @ hint @ '' segment''))
                     (segment_after marker (split_on CHR ''/'' (trim_slashes path)))))"

definition parse_linear_id :: "(string \<Rightarrow> string result) \<Rightarrow> string \<Rightarrow> string result" where
  "parse_linear_id url_path = parse_tracker_id url_path ''linear'' ''id/url'' ''issue'' ''/issue/<ID>''"

definition parse_jira_key :: "(string \<Rightarrow> string result) \<Rightarrow> string \<Rightarrow> string result" where
  "parse_jira_key url_path = parse_tracker_id url_path ''jira'' ''key/url'' ''browse'' ''/browse/<KEY>''"

fun after_first :: "string \<Rightarrow> string \<Rightarrow> string option" where
  "after_first needle [] = (if needle = [] then Some [] else None)"
| "after_first needle (c # cs) =
     (if starts_with_str (c # cs) needle then Some (drop (length needle) (c # cs)) else after_first needle cs)"

definition host_of :: "string \<Rightarrow> string" where
  "host_of after_scheme =
     (let authority = takeWhile (\<lambda>c. c \<notin> set ''/?#'') after_scheme;
          no_user = rev (takeWhile (\<lambda>c. c \<noteq> CHR ''@'') (rev authority))
      in to_ascii_lowercase (takeWhile (\<lambda>c. c \<noteq> CHR '':'') no_user))"

definition issue_ref_from_url :: "(string \<Rightarrow> string result) \<Rightarrow> string \<Rightarrow> string + issue_ref option" where
  "issue_ref_from_url url_path raw =
     (case after_first ''://'' raw of
        None \<Rightarrow> Inl (''source_issue_ref `'' @ raw @ ''` is not a URL'')
      | Some after_scheme \<Rightarrow>
          (let h = host_of after_scheme
           in if h = [] then Inl (''source_issue_ref `'' @ raw @ ''` has no host'')
              else if h = ''linear.app'' then
                (case parse_linear_id url_path raw of
                   Inl e \<Rightarrow> Inl (''source_issue_ref `'' @ raw @ ''` is not a Linear issue: '' @ error_display e)
                 | Inr i \<Rightarrow> Inr (Some \<lparr>ir_provider = Linear, ir_external_id = i, ir_project_url = raw\<rparr>))
              else if ends_with_str h ''.atlassian.net'' then
                (case parse_jira_key url_path raw of
                   Inl e \<Rightarrow> Inl (''source_issue_ref `'' @ raw @ ''` is not a Jira issue: '' @ error_display e)
                 | Inr i \<Rightarrow> Inr (Some \<lparr>ir_provider = Jira, ir_external_id = i, ir_project_url = raw\<rparr>))
              else Inr None))"

definition resolve_source_issue_ref :: "merge_env \<Rightarrow> database \<Rightarrow> string \<Rightarrow> string + issue_ref option" where
  "resolve_source_issue_ref env db wa =
     (case workareas_get db wa of
        None \<Rightarrow> Inl (''workarea '' @ wa @ '' not found'')
      | Some r \<Rightarrow>
          (let v = (case me_from_str env (wa_settings_json r) of Some v \<Rightarrow> v | None \<Rightarrow> JNull)
           in case Option.bind (json_get v ''source_issue_ref'') as_str of
                None \<Rightarrow> Inr None
              | Some raw \<Rightarrow> if trim raw = [] then Inr None else issue_ref_from_url (me_url_path env) raw))"

definition write_back_event :: "string \<Rightarrow> string \<Rightarrow> string \<Rightarrow> string \<Rightarrow> string \<Rightarrow> merge_log" where
  "write_back_event wa provider external_id outcome detail =
     Broadcast (PrSetIssueWriteBack wa provider external_id outcome detail)"

definition run_issue_write_back :: "merge_env \<Rightarrow> string \<Rightarrow> pr_world \<Rightarrow> pr_world" where
  "run_issue_write_back env wa w =
     (case issue_write_back_opt_in env (pw_db w) wa of
        Inl e \<Rightarrow> w
      | Inr False \<Rightarrow> w
      | Inr True \<Rightarrow>
          (case resolve_source_issue_ref env (pw_db w) wa of
             Inl detail \<Rightarrow> add_log (write_back_event wa [] [] ''skipped'' detail) w
           | Inr None \<Rightarrow> add_log (write_back_event wa [] [] ''skipped'' ''no resolvable tracker issue ref for this workarea'') w
           | Inr (Some r) \<Rightarrow>
               (let res = me_transition env (pw_log w) r; w1 = add_log (TransitionCall r res) w
                in case res of
                     Inr () \<Rightarrow> add_log (write_back_event wa (issue_provider_as_str (ir_provider r)) (ir_external_id r)
                         ''written'' ''transitioned to done on merge'') w1
                   | Inl e \<Rightarrow> add_log (write_back_event wa (issue_provider_as_str (ir_provider r)) (ir_external_id r)
                         ''failed'' (error_display e)) w1)))"

section \<open>The coordinated merge\<close>

definition merge_guards :: "merge_env \<Rightarrow> merge_opts \<Rightarrow> unit result" where
  "merge_guards env opts =
     (if \<not> me_vcs_wired env then Inl (Vcs ''vcs.not_configured: VCS handle not wired'')
      else if \<not> me_scheduler_wired env then Inl (Vcs ''scheduler.not_configured: scheduler handle not wired'')
      else if mo_allow_failing_checks opts then enforce_merge_anyway_allowed env
      else Inr ())"

definition report_merged :: "string \<Rightarrow> nat \<Rightarrow> pr_world \<Rightarrow> pr_world" where
  "report_merged wa n w = add_log (Broadcast (PrSetMerged wa n)) (add_log (Frame (SetMerged n)) w)"

definition merge_workarea_pr_set ::
  "merge_env \<Rightarrow> string \<Rightarrow> merge_opts \<Rightarrow> pr_world \<Rightarrow> (merge_report result) option \<times> pr_world" where
  "merge_workarea_pr_set env wa opts w =
     (case and_then (merge_guards env opts) (\<lambda>_. get_workarea_merge_plan (pw_db w) (pw_prs w) wa) of
        Inl e \<Rightarrow> (Some (Inl e), w)
      | Inr [] \<Rightarrow> (Some (Inr \<lparr>rep_merged_steps = 0, rep_total = 0, rep_paused_at_step = None\<rparr>), report_merged wa 0 w)
      | Inr steps \<Rightarrow>
          (let n = length steps
           in case merge_members env wa opts n 0 steps w of
                (Passed, merged_steps, w') \<Rightarrow>
                  (Some (Inr \<lparr>rep_merged_steps = merged_steps, rep_total = n, rep_paused_at_step = None\<rparr>),
                   run_issue_write_back env wa (report_merged wa n w'))
              | (Paused rep, _, w') \<Rightarrow> (Some (Inr rep), w')
              | (Aborted e, _, w') \<Rightarrow> (Some (Inl e), w')
              | (StillWaiting, _, w') \<Rightarrow> (None, w')))"

section \<open>The coordinated revert\<close>

definition revert_row :: "merge_env \<Rightarrow> string \<Rightarrow> bool \<Rightarrow> pull_request \<Rightarrow> pr_world \<Rightarrow> revert_step \<times> pr_world" where
  "revert_row env wa hard_reset pr w =
     (let step = (\<lambda>out detail. \<lparr>rs_repository_full_name = pq_repository_full_name pr,
            rs_pr_number = pq_pr_number pr, rs_outcome = out, rs_detail = detail\<rparr>)
      in if pq_state pr \<noteq> ''merged'' then (step Skipped (''not merged (state='' @ pq_state pr @ '')''), w)
         else
           (let res = handle_revert_pr env (pw_log w) (pq_repository_full_name pr) (pq_pr_number pr) hard_reset;
                w1 = add_log (RevertCall (pq_repository_full_name pr) (pq_pr_number pr) res) w
            in case res of
                 Inl e \<Rightarrow> (step FailedRevert (error_display e), w1)
               | Inr r \<Rightarrow>
                   if pv_reverted r then
                     (step Reverted (case pv_revert_pr_url r of Some u \<Rightarrow> u | None \<Rightarrow> pv_message r),
                      add_log (Broadcast (PrReverted wa (pq_repository_full_name pr) (pq_pr_number pr)))
                       (mark_pr env (pq_repository_id pr) (pq_pr_number pr) ''reverted'' w1))
                   else (step FailedRevert (if pv_message r = [] then ''provider reported revert not applied'' else pv_message r), w1)))"

fun revert_rows :: "merge_env \<Rightarrow> string \<Rightarrow> bool \<Rightarrow> pull_request list \<Rightarrow> pr_world \<Rightarrow> revert_step list \<times> pr_world" where
  "revert_rows env wa hard_reset [] w = ([], w)"
| "revert_rows env wa hard_reset (pr # rest) w =
     (case revert_row env wa hard_reset pr w of
        (s, w') \<Rightarrow> map_prod ((#) s) id (revert_rows env wa hard_reset rest w'))"

definition revert_workarea_pr_set ::
  "merge_env \<Rightarrow> string \<Rightarrow> bool \<Rightarrow> pr_world \<Rightarrow> revert_step list result \<times> pr_world" where
  "revert_workarea_pr_set env wa hard_reset w =
     (if \<not> me_vcs_wired env then (Inl (Vcs ''vcs.not_configured: VCS handle not wired''), w)
      else (case list_pr_set (pw_db w) (pw_prs w) wa of
              Inl e \<Rightarrow> (Inl e, w)
            | Inr rows \<Rightarrow> map_prod Inr id (revert_rows env wa hard_reset (rev rows) w)))"

section \<open>Lemmas\<close>

fun merge_calls :: "merge_log list \<Rightarrow> (string \<times> int) list" where
  "merge_calls [] = []"
| "merge_calls (MergeCall full n m r # l) = (full, n) # merge_calls l"
| "merge_calls (_ # l) = merge_calls l"

lemma merge_calls_append [simp]: "merge_calls (l1 @ l2) = merge_calls l1 @ merge_calls l2"
  by (induction l1 rule: merge_calls.induct) auto

lemma merge_calls_Cons: "merge_calls (c # l) = merge_calls [c] @ merge_calls l"
  by (cases c) auto

definition member_pr :: "merge_step \<Rightarrow> string \<times> int" where
  "member_pr s = (ms_repository_full_name s, ms_pr_number s)"

text \<open>A member is settled in a log: the provider merged it, and then its checks were awaited with an outcome
  the loop goes on with.\<close>

definition settled :: "merge_env \<Rightarrow> merge_opts \<Rightarrow> merge_step \<Rightarrow> merge_log list \<Rightarrow> bool" where
  "settled env opts s l \<longleftrightarrow> (\<exists>l1 l2 r out. l = l1 @ l2
     \<and> MergeCall (ms_repository_full_name s) (ms_pr_number s) (mo_method opts) (Inr r) \<in> set l1 \<and> pm_merged r
     \<and> ChecksWait (ms_repository_id s) (post_merge_sha r s) (Some (Inr out)) \<in> set l2
     \<and> (co_passed out \<and> co_runs out \<noteq> [] \<and> list_all run_passed (co_runs out) \<or> mo_allow_failing_checks opts))"

lemma settled_append: "settled env opts s l \<Longrightarrow> settled env opts s (l @ l')"
proof -
  assume "settled env opts s l"
  then obtain l1 l2 r out where
    "l = l1 @ l2" "MergeCall (ms_repository_full_name s) (ms_pr_number s) (mo_method opts) (Inr r) \<in> set l1" "pm_merged r"
    "ChecksWait (ms_repository_id s) (post_merge_sha r s) (Some (Inr out)) \<in> set l2"
    "co_passed out \<and> co_runs out \<noteq> [] \<and> list_all run_passed (co_runs out) \<or> mo_allow_failing_checks opts"
    unfolding settled_def by blast
  then show ?thesis unfolding settled_def by (intro exI [of _ l1] exI [of _ "l2 @ l'"] exI [of _ r] exI [of _ out]) auto
qed

lemma settled_prepend: "settled env opts s l \<Longrightarrow> settled env opts s (l' @ l)"
proof -
  assume "settled env opts s l"
  then obtain l1 l2 r out where
    "l = l1 @ l2" "MergeCall (ms_repository_full_name s) (ms_pr_number s) (mo_method opts) (Inr r) \<in> set l1" "pm_merged r"
    "ChecksWait (ms_repository_id s) (post_merge_sha r s) (Some (Inr out)) \<in> set l2"
    "co_passed out \<and> co_runs out \<noteq> [] \<and> list_all run_passed (co_runs out) \<or> mo_allow_failing_checks opts"
    unfolding settled_def by blast
  then show ?thesis unfolding settled_def by (intro exI [of _ "l' @ l1"] exI [of _ l2] exI [of _ r] exI [of _ out]) auto
qed

lemma log_simps [simp]:
  "pw_log (add_log e w) = pw_log w @ [e]" "pw_db (add_log e w) = pw_db w" "pw_prs (add_log e w) = pw_prs w"
  by (simp_all add: add_log_def)

lemma mark_pr_simps [simp]: "pw_log (mark_pr env repo n st w) = pw_log w" "pw_db (mark_pr env repo n st w) = pw_db w"
  by (simp_all add: mark_pr_def)

lemma wait_is_green:
  assumes "wait_for_check_runs env repo sha secs w = (Some (Inr out), w')" and "co_passed out"
  shows "co_runs out \<noteq> [] \<and> list_all run_passed (co_runs out)"
proof -
  from assms(1) have "wait_from (me_wait env (pw_log w) repo sha) AllTerminal (1000 * secs) 0 0 0 = Some (Inr out)"
    by (auto simp: wait_for_check_runs_def run_wait_loop_def Let_def split: if_splits)
  then have "sound_outcome (me_wait env (pw_log w) repo sha) AllTerminal (Inr out)" by (rule wait_sound)
  with assms(2) show ?thesis by (auto simp: sound_outcome_def required_passed_def)
qed

text \<open>A failed step in a log is that of the given member, which is merged if its checks are what failed.\<close>

definition failure_of :: "merge_opts \<Rightarrow> merge_step \<Rightarrow> member_outcome \<Rightarrow> merge_log list \<Rightarrow> bool" where
  "failure_of opts s out l \<longleftrightarrow>
     (\<forall>p n reason kind. Frame (StepFailed p n reason kind) \<in> set l \<longrightarrow> out \<noteq> Passed \<and> p = ms_step s
        \<and> (kind \<in> {ChecksFailed, ChecksTimeout} \<longrightarrow> (\<exists>r. pm_merged r
              \<and> MergeCall (ms_repository_full_name s) (ms_pr_number s) (mo_method opts) (Inr r) \<in> set l)))"

lemma failure_of_prepend:
  assumes "failure_of opts s' Passed l1" and "failure_of opts s out l2"
  shows "failure_of opts s out (l1 @ l2)"
  using assms unfolding failure_of_def by (metis (no_types, lifting) Un_iff set_append)

text \<open>What a member adds to the log: one request to merge it, and all it takes to be settled if the loop goes on.\<close>

definition member_added :: "merge_env \<Rightarrow> merge_opts \<Rightarrow> nat \<Rightarrow> nat \<Rightarrow> merge_step \<Rightarrow> member_outcome \<Rightarrow> merge_log list \<Rightarrow> bool" where
  "member_added env opts n k s out l \<longleftrightarrow> merge_calls l = [member_pr s] \<and> (out = Passed \<longrightarrow> settled env opts s l)
     \<and> (\<forall>rep. out = Paused rep \<longrightarrow> rep = \<lparr>rep_merged_steps = k, rep_total = n, rep_paused_at_step = Some (ms_step s)\<rparr>)
     \<and> failure_of opts s out l
     \<and> (\<forall>r res. TransitionCall r res \<notin> set l)"

lemma settle_checks_log:
  assumes "settle_checks env wa opts n k s (post_merge_sha r s) w = (out, w')" and "pm_merged r"
    and "pw_log w = l0 @ l1" and l1: "l1 = [Frame (StepStarted (ms_step s) n (ms_repository_full_name s) (ms_pr_number s)),
      MergeCall (ms_repository_full_name s) (ms_pr_number s) (mo_method opts) (Inr r)]"
  shows "pw_db w' = pw_db w \<and> (\<exists>l. pw_log w' = l0 @ l \<and> member_added env opts n k s out l)"
proof -
  obtain res w1 where wt: "wait_for_check_runs env (ms_repository_id s) (post_merge_sha r s) (mo_timeout_secs opts) w = (res, w1)"
    by fastforce
  then have w1: "w1 = add_log (ChecksWait (ms_repository_id s) (post_merge_sha r s) res) w"
    by (auto simp: wait_for_check_runs_def Let_def)
  show ?thesis
  proof (cases "\<exists>co. res = Some (Inr co) \<and> (co_passed co \<or> mo_allow_failing_checks opts)")
    case True
    then obtain co where co: "res = Some (Inr co)" "co_passed co \<or> mo_allow_failing_checks opts" by blast
    let ?w = "ChecksWait (ms_repository_id s) (post_merge_sha r s) (Some (Inr co))"
    have out: "out = Passed" "w' = complete_step env wa s n (post_merge_sha r s) w1"
      using assms(1) co wt by (auto simp: settle_checks_def)
    have green: "co_passed co \<and> co_runs co \<noteq> [] \<and> list_all run_passed (co_runs co) \<or> mo_allow_failing_checks opts"
      using co wait_is_green [of env "ms_repository_id s"] wt by blast
    define l2 where "l2 = [?w, Frame (StepCompleted (ms_step s) n (post_merge_sha r s)),
      Broadcast (PrSetMergeStepCompleted wa (ms_step s) n (ms_repository_full_name s) (ms_pr_number s) (post_merge_sha r s))]"
    have "pw_log w' = l0 @ (l1 @ l2)" by (simp add: out complete_step_def w1 co assms(3) l2_def)
    moreover have "settled env opts s (l1 @ l2)"
      unfolding settled_def using assms(2) green
      by (intro exI [of _ l1] exI [of _ l2] exI [of _ r] exI [of _ co]) (auto simp: l2_def l1)
    then have "member_added env opts n k s out (l1 @ l2)"
      by (simp add: member_added_def failure_of_def l2_def l1 member_pr_def out)
    ultimately show ?thesis by (auto simp: out complete_step_def w1)
  next
    case False
    then show ?thesis using assms wt
      by (auto simp: settle_checks_def w1 member_added_def failure_of_def member_pr_def pause_merge_def l1 split: option.splits sum.splits if_splits)
  qed
qed

lemma merge_member_log:
  assumes "merge_member env wa opts n k s w = (out, w')"
  shows "pw_db w' = pw_db w \<and> (\<exists>l. pw_log w' = pw_log w @ l \<and> member_added env opts n k s out l)"
proof -
  define w1 where "w1 = add_log (Frame (StepStarted (ms_step s) n (ms_repository_full_name s) (ms_pr_number s))) w"
  define res where "res = handle_merge_pr env (pw_log w1) (ms_repository_full_name s) (ms_pr_number s) (mo_method opts)"
  define w2 where "w2 = add_log (MergeCall (ms_repository_full_name s) (ms_pr_number s) (mo_method opts) res) w1"
  have unf: "merge_member env wa opts n k s w =
      (case res of
         Inl e \<Rightarrow> map_prod Paused id (pause_merge wa s n k (error_display e)
             (if is_merge_conflict e then MergeConflict else MergeRejected) w2)
       | Inr r \<Rightarrow>
           if pm_merged r then settle_checks env wa opts n k s (post_merge_sha r s) w2
           else map_prod Paused id (pause_merge wa s n k
             (if pm_message r = [] then ''merge rejected by provider'' else pm_message r) MergeRejected w2))"
    by (simp only: merge_member_def Let_def w1_def res_def w2_def)
  have log: "pw_db w2 = pw_db w" "pw_log w2 = pw_log w @ [Frame (StepStarted (ms_step s) n (ms_repository_full_name s) (ms_pr_number s)),
      MergeCall (ms_repository_full_name s) (ms_pr_number s) (mo_method opts) res]"
    by (simp_all add: w2_def w1_def)
  show ?thesis
  proof (cases "\<exists>r. res = Inr r \<and> pm_merged r")
    case True
    then obtain r where r: "res = Inr r" "pm_merged r" by blast
    have "settle_checks env wa opts n k s (post_merge_sha r s) w2 = (out, w')"
      using assms r by (simp add: unf)
    from settle_checks_log [OF this r(2) log(2)] r log(1) show ?thesis by simp
  next
    case False
    then consider (err) e where "res = Inl e" | (refused) r where "res = Inr r" "\<not> pm_merged r"
      by (cases res) auto
    then show ?thesis using assms log
      by cases (auto simp: unf member_added_def failure_of_def pause_merge_def member_pr_def split: if_splits)
  qed
qed

text \<open>Every request to merge is for the next member, with all earlier ones settled before it.\<close>

definition in_order :: "merge_env \<Rightarrow> merge_opts \<Rightarrow> merge_step list \<Rightarrow> merge_log list \<Rightarrow> bool" where
  "in_order env opts steps l \<longleftrightarrow> (\<forall>l1 c l2. l = l1 @ c # l2 \<longrightarrow> merge_calls [c] \<noteq> [] \<longrightarrow>
     (let i = length (merge_calls l1) in i < length steps \<and> merge_calls [c] = [member_pr (steps ! i)]
        \<and> (\<forall>j<i. settled env opts (steps ! j) l1)))"

lemma merge_calls_split: "merge_calls (l1 @ c # l2) = merge_calls l1 @ merge_calls [c] @ merge_calls l2"
  unfolding merge_calls_append by (subst merge_calls_Cons) (rule refl)

lemma in_order_quiet: "merge_calls l = [] \<Longrightarrow> in_order env opts steps l"
  unfolding in_order_def by (metis append_is_Nil_conv merge_calls_split)

lemma in_order_single:
  assumes "merge_calls l = [member_pr s]"
  shows "in_order env opts (s # rest) l"
  unfolding in_order_def
proof (intro allI impI)
  fix l1 c l2 assume l: "l = l1 @ c # l2" and c: "merge_calls [c] \<noteq> []"
  have "merge_calls l = merge_calls l1 @ merge_calls [c] @ merge_calls l2"
    unfolding l by (rule merge_calls_split)
  with assms c have "merge_calls l1 = []" "merge_calls [c] = [member_pr s]"
    by (auto simp: append_eq_Cons_conv)
  then show "let i = length (merge_calls l1) in i < length (s # rest) \<and> merge_calls [c] = [member_pr ((s # rest) ! i)]
        \<and> (\<forall>j<i. settled env opts ((s # rest) ! j) l1)" by simp
qed

lemma in_order_append:
  assumes "merge_calls la = [member_pr s]" and "settled env opts s la" and "in_order env opts rest lb"
  shows "in_order env opts (s # rest) (la @ lb)"
  unfolding in_order_def
proof (intro allI impI)
  fix l1 c l2 assume l: "la @ lb = l1 @ c # l2" and c: "merge_calls [c] \<noteq> []"
  from l consider (left) l3 where "la = l1 @ c # l3" | (right) l3 where "l1 = la @ l3" "lb = l3 @ c # l2"
    by (auto simp: append_eq_append_conv2 Cons_eq_append_conv append_eq_Cons_conv)
  then show "let i = length (merge_calls l1) in i < length (s # rest) \<and> merge_calls [c] = [member_pr ((s # rest) ! i)]
        \<and> (\<forall>j<i. settled env opts ((s # rest) ! j) l1)"
  proof cases
    case left
    with in_order_single [OF assms(1)] c show ?thesis unfolding in_order_def by blast
  next
    case right
    with assms(3) c have ih: "let i = length (merge_calls l3) in i < length rest \<and> merge_calls [c] = [member_pr (rest ! i)]
        \<and> (\<forall>j<i. settled env opts (rest ! j) l3)" unfolding in_order_def by blast
    have "settled env opts ((s # rest) ! j) (la @ l3)" if "j < Suc (length (merge_calls l3))" for j
      using that ih assms(2) by (cases j) (auto simp: Let_def intro: settled_append settled_prepend)
    with ih right(1) assms(1) show ?thesis by (auto simp: Let_def)
  qed
qed

lemma in_order_settled:
  assumes "in_order env opts steps l" and "merge_calls l' = []"
  shows "in_order env opts steps (l @ l')"
  unfolding in_order_def
proof (intro allI impI)
  fix l1 c l2 assume l: "l @ l' = l1 @ c # l2" and c: "merge_calls [c] \<noteq> []"
  from l consider (left) l3 where "l = l1 @ c # l3" | (right) l3 where "l' = l3 @ c # l2"
    by (auto simp: append_eq_append_conv2 Cons_eq_append_conv append_eq_Cons_conv)
  then show "let i = length (merge_calls l1) in i < length steps \<and> merge_calls [c] = [member_pr (steps ! i)]
        \<and> (\<forall>j<i. settled env opts (steps ! j) l1)"
  proof cases
    case left
    with assms(1) c show ?thesis unfolding in_order_def by blast
  next
    case right
    have "merge_calls l' = merge_calls l3 @ merge_calls [c] @ merge_calls l2"
      unfolding right by (rule merge_calls_split)
    with assms(2) c show ?thesis by simp
  qed
qed

definition run_added ::
  "merge_opts \<Rightarrow> merge_env \<Rightarrow> nat \<Rightarrow> nat \<Rightarrow> merge_step list \<Rightarrow> member_outcome \<Rightarrow> nat \<Rightarrow> merge_log list \<Rightarrow> bool" where
  "run_added opts env n k steps out m l \<longleftrightarrow>
     (\<forall>i<m - k. settled env opts (steps ! i) l) \<and> in_order env opts steps l
     \<and> (if out = Passed then m = k + length steps \<and> merge_calls l = map member_pr steps
        else m - k < length steps \<and> merge_calls l = map member_pr (take (m - k + 1) steps)
          \<and> (\<forall>rep. out = Paused rep \<longrightarrow>
               rep = \<lparr>rep_merged_steps = m, rep_total = n, rep_paused_at_step = Some (ms_step (steps ! (m - k)))\<rparr>))
     \<and> failure_of opts (steps ! (m - k)) out l
     \<and> (\<forall>r res. TransitionCall r res \<notin> set l)"

lemma run_added_single:
  assumes "member_added env opts n k s out l" and "out \<noteq> Passed"
  shows "run_added opts env n k (s # rest) out k l"
  using assms by (simp add: member_added_def run_added_def in_order_single)

lemma run_added_Cons:
  assumes "member_added env opts n k s Passed l1" and "run_added opts env n (k + 1) rest out m l2" and "k + 1 \<le> m"
  shows "run_added opts env n k (s # rest) out m (l1 @ l2)"
proof -
  from assms(3) obtain d where m: "m = Suc (k + d)" by (metis Suc_eq_plus1 add_Suc le_iff_add)
  have l1: "merge_calls l1 = [member_pr s]" "settled env opts s l1" "failure_of opts s Passed l1"
    "\<And>r res. TransitionCall r res \<notin> set l1"
    using assms(1) by (auto simp: member_added_def)
  have l2: "\<And>i. i < d \<Longrightarrow> settled env opts (rest ! i) l2" "in_order env opts rest l2" "failure_of opts (rest ! d) out l2"
    "\<And>r res. TransitionCall r res \<notin> set l2"
    using assms(2) by (auto simp: run_added_def m)
  have "settled env opts ((s # rest) ! i) (l1 @ l2)" if "i < m - k" for i
    using that l1(2) l2(1) by (cases i) (auto simp: m intro: settled_append settled_prepend)
  moreover have "in_order env opts (s # rest) (l1 @ l2)" using l1 l2 by (intro in_order_append)
  moreover have "failure_of opts ((s # rest) ! (m - k)) out (l1 @ l2)"
    using failure_of_prepend [OF l1(3) l2(3)] by (simp add: m)
  moreover have "if out = Passed then m = k + length (s # rest) \<and> merge_calls (l1 @ l2) = map member_pr (s # rest)
      else m - k < length (s # rest) \<and> merge_calls (l1 @ l2) = map member_pr (take (m - k + 1) (s # rest))
        \<and> (\<forall>rep. out = Paused rep \<longrightarrow>
             rep = \<lparr>rep_merged_steps = m, rep_total = n, rep_paused_at_step = Some (ms_step ((s # rest) ! (m - k)))\<rparr>)"
    using assms(2) l1(1) by (simp add: run_added_def m split: if_splits)
  ultimately show ?thesis unfolding run_added_def using l1(4) l2(4) by simp
qed

lemma merge_members_log:
  assumes "merge_members env wa opts n k steps w = (out, m, w')"
  shows "pw_db w' = pw_db w \<and> k \<le> m \<and> (\<exists>l. pw_log w' = pw_log w @ l \<and> run_added opts env n k steps out m l)"
  using assms
proof (induction steps arbitrary: k w)
  case Nil
  then show ?case by (auto simp: run_added_def failure_of_def intro: in_order_quiet)
next
  case (Cons s rest)
  obtain o1 w1 where m1: "merge_member env wa opts n k s w = (o1, w1)" by fastforce
  from merge_member_log [OF m1] obtain l1 where
    l1: "pw_db w1 = pw_db w" "pw_log w1 = pw_log w @ l1" "member_added env opts n k s o1 l1" by blast
  show ?case
  proof (cases "o1 = Passed")
    case True
    with Cons.prems m1 have "merge_members env wa opts n (k + 1) rest w1 = (out, m, w')" by simp
    from Cons.IH [OF this] obtain l2 where l2: "pw_db w' = pw_db w1" "k + 1 \<le> m" "pw_log w' = pw_log w1 @ l2"
      "run_added opts env n (k + 1) rest out m l2" by blast
    from run_added_Cons [OF _ l2(4,2)] l1 True have "run_added opts env n k (s # rest) out m (l1 @ l2)" by simp
    with l1 l2 show ?thesis by (intro conjI exI [of _ "l1 @ l2"]) auto
  next
    case False
    with Cons.prems m1 have "out = o1" "m = k" "w' = w1" by (auto split: member_outcome.splits)
    with l1 False show ?thesis by (auto intro: run_added_single)
  qed
qed

text \<open>The rows a run touches: those of the members it completed.\<close>

lemma sort_key_map: "(\<And>x. k (f x) = k x) \<Longrightarrow> sort_key k (map f xs) = map f (sort_key k xs)"
proof -
  assume k: "\<And>x. k (f x) = k x"
  have "insort_key k (f x) (map f ys) = map f (insort_key k x ys)" for x ys
    by (induction ys) (auto simp: k)
  then show ?thesis by (induction xs) auto
qed

definition touches_only :: "string set \<Rightarrow> (pull_request \<Rightarrow> pull_request) \<Rightarrow> bool" where
  "touches_only repos g \<longleftrightarrow> (\<forall>r. pq_repository_id r \<notin> repos \<longrightarrow> g r = r)
     \<and> (\<forall>r. pq_repository_id (g r) = pq_repository_id r)"

lemma list_by_workarea_map:
  assumes "map snd t' = map f (map snd t)"
    and "\<And>r. pq_workarea_id (f r) = pq_workarea_id r" "\<And>r. pq_merge_order (f r) = pq_merge_order r"
      "\<And>r. pq_pr_number (f r) = pq_pr_number r"
  shows "list_by_workarea t' wa = map f (list_by_workarea t wa)"
proof -
  have "filter (\<lambda>r. pq_workarea_id r = wa) (map f rs) = map f (filter (\<lambda>r. pq_workarea_id r = wa) rs)" for rs
    by (induction rs) (auto simp: assms)
  then show ?thesis unfolding list_by_workarea_def assms(1) by (simp only: sort_key_map assms)
qed

lemma list_by_workarea_set_pr_state:
  "list_by_workarea (set_pr_state repo n st now t) wa
   = map (\<lambda>r. if pq_repository_id r = repo \<and> pq_pr_number r = n then r\<lparr>pq_state := st, pq_updated_at := now\<rparr> else r)
       (list_by_workarea t wa)"
  by (rule list_by_workarea_map) (induction t, auto simp: set_pr_state_def)

lemma mark_pr_rows:
  "\<exists>g. list_by_workarea (pw_prs (mark_pr env repo n st w)) wa = map g (list_by_workarea (pw_prs w) wa)
     \<and> touches_only {repo} g"
proof (cases "me_row_written env (pw_log w)")
  case True
  let ?g = "\<lambda>r. if pq_repository_id r = repo \<and> pq_pr_number r = n
    then r\<lparr>pq_state := st, pq_updated_at := me_now env (pw_log w)\<rparr> else r"
  from True have "list_by_workarea (pw_prs (mark_pr env repo n st w)) wa = map ?g (list_by_workarea (pw_prs w) wa)"
    by (simp add: mark_pr_def list_by_workarea_set_pr_state)
  moreover have "touches_only {repo} ?g" by (simp add: touches_only_def)
  ultimately show ?thesis by blast
next
  case False
  then show ?thesis by (intro exI [of _ id]) (simp add: mark_pr_def touches_only_def)
qed

definition rows_after :: "merge_env \<Rightarrow> merge_step \<Rightarrow> member_outcome \<Rightarrow> pr_table \<Rightarrow> pr_table \<Rightarrow> bool" where
  "rows_after env s out t t' \<longleftrightarrow>
     (if out = Passed then \<exists>w1. pw_prs w1 = t \<and> t' = pw_prs (mark_pr env (ms_repository_id s) (ms_pr_number s) ''merged'' w1)
      else t' = t)"

lemma settle_checks_rows:
  assumes "settle_checks env wa opts n k s sha w = (out, w')"
  shows "rows_after env s out (pw_prs w) (pw_prs w')"
proof -
  obtain res w1 where wt: "wait_for_check_runs env (ms_repository_id s) sha (mo_timeout_secs opts) w = (res, w1)"
    by fastforce
  then have "pw_prs w1 = pw_prs w" by (auto simp: wait_for_check_runs_def Let_def)
  with assms wt show ?thesis
    by (auto simp: settle_checks_def rows_after_def complete_step_def pause_merge_def
        split: option.splits sum.splits if_splits)
qed

lemma merge_member_rows:
  assumes "merge_member env wa opts n k s w = (out, w')"
  shows "rows_after env s out (pw_prs w) (pw_prs w')"
proof -
  have "rows_after env s out (pw_prs (add_log e (add_log e' w))) (pw_prs w')"
    if "settle_checks env wa opts n k s sha (add_log e (add_log e' w)) = (out, w')" for sha e e'
    using that by (rule settle_checks_rows)
  then show ?thesis using assms
    by (auto simp: merge_member_def Let_def pause_merge_def rows_after_def split: sum.splits if_splits)
qed

lemma rows_after_list:
  assumes "rows_after env s out t t'"
  shows "\<exists>g. list_by_workarea t' wa = map g (list_by_workarea t wa)
     \<and> touches_only (if out = Passed then {ms_repository_id s} else {}) g"
proof (cases "out = Passed")
  case True
  with assms mark_pr_rows show ?thesis by (fastforce simp: rows_after_def)
next
  case False
  with assms show ?thesis by (intro exI [of _ id]) (simp add: rows_after_def touches_only_def)
qed

lemma merge_members_rows:
  assumes "merge_members env wa opts n k steps w = (out, m, w')"
  shows "\<exists>g. list_by_workarea (pw_prs w') wa = map g (list_by_workarea (pw_prs w) wa)
     \<and> touches_only (ms_repository_id ` set (take (m - k) steps)) g"
  using assms
proof (induction steps arbitrary: k w)
  case Nil
  then show ?case by (intro exI [of _ id]) (simp add: touches_only_def)
next
  case (Cons s rest)
  obtain o1 w1 where m1: "merge_member env wa opts n k s w = (o1, w1)" by fastforce
  from rows_after_list [OF merge_member_rows [OF m1]] obtain g1 where
    g1: "list_by_workarea (pw_prs w1) wa = map g1 (list_by_workarea (pw_prs w) wa)"
      "touches_only (if o1 = Passed then {ms_repository_id s} else {}) g1" by blast
  show ?case
  proof (cases "o1 = Passed")
    case True
    with Cons.prems m1 have run: "merge_members env wa opts n (k + 1) rest w1 = (out, m, w')" by simp
    with merge_members_log [OF run] have "m - k = Suc (m - (k + 1))" by auto
    moreover from Cons.IH [OF run] obtain g2 where
      "list_by_workarea (pw_prs w') wa = map g2 (list_by_workarea (pw_prs w1) wa)"
      "touches_only (ms_repository_id ` set (take (m - (k + 1)) rest)) g2" by blast
    ultimately show ?thesis using g1 True
      by (intro exI [of _ "g2 \<circ> g1"]) (auto simp: touches_only_def)
  next
    case False
    with Cons.prems m1 have "m = k" "w' = w1" by (auto split: member_outcome.splits)
    with g1 False show ?thesis by auto
  qed
qed

text \<open>A run of the operation: its plan and what it appends to the log.\<close>

lemma report_simps [simp]:
  "pw_prs (report_merged wa n w) = pw_prs w" "pw_db (report_merged wa n w) = pw_db w"
  "pw_log (report_merged wa n w) = pw_log w @ [Frame (SetMerged n), Broadcast (PrSetMerged wa n)]"
  by (simp_all add: report_merged_def)

definition write_back_log :: "merge_log list \<Rightarrow> bool" where
  "write_back_log l \<longleftrightarrow> merge_calls l = [] \<and> (\<forall>f. Frame f \<notin> set l)
     \<and> length (filter (\<lambda>e. case e of TransitionCall r res \<Rightarrow> True | _ \<Rightarrow> False) l) \<le> 1"

lemma write_back_adds:
  "pw_prs (run_issue_write_back env wa w) = pw_prs w
   \<and> (\<exists>l. pw_log (run_issue_write_back env wa w) = pw_log w @ l \<and> write_back_log l)"
  by (auto simp: run_issue_write_back_def write_back_event_def write_back_log_def Let_def
      split: sum.splits option.splits bool.splits unit.splits)

lemma guards_pass: "merge_guards env opts = Inr () \<Longrightarrow>
    me_vcs_wired env \<and> (mo_allow_failing_checks opts \<longrightarrow> read_allow_merge_with_failing_checks (me_managed env))"
  by (auto simp: merge_guards_def enforce_merge_anyway_allowed_def split: if_splits)

lemma unreached_row_untouched:
  assumes keyed: "set_keyed (pw_prs w)" and plan: "get_workarea_merge_plan (pw_db w) (pw_prs w) wa = Inr steps"
    and run: "merge_members env wa opts n 0 steps w = (out, m, w')" and m: "m < length steps"
  shows "m < length (list_by_workarea (pw_prs w') wa)
    \<and> list_by_workarea (pw_prs w') wa ! m = list_by_workarea (pw_prs w) wa ! m"
proof -
  define rows where "rows = list_by_workarea (pw_prs w) wa"
  have steps: "steps = map (merge_step_of (length rows)) (List.enumerate 0 rows)"
    unfolding rows_def using plan by (rule plan_steps)
  from merge_members_rows [OF run] obtain g where
    g: "list_by_workarea (pw_prs w') wa = map g rows" "touches_only (ms_repository_id ` set (take m steps)) g"
    by (auto simp: rows_def)
  have repo: "ms_repository_id (steps ! i) = pq_repository_id (rows ! i)" if "i < length rows" for i
    using that by (simp add: steps nth_enumerate_eq merge_step_of_def)
  have len: "length steps = length rows" by (simp add: steps)
  have "distinct (map set_key (filter (\<lambda>r. pq_workarea_id r = wa) (map snd (pw_prs w))))"
    using keyed by (auto simp: set_keyed_def distinct_map inj_on_def)
  then have "distinct (map set_key rows)"
    by (metis mset_list_by_workarea mset_map mset_eq_imp_distinct_iff rows_def)
  moreover have "\<forall>r\<in>set rows. pq_workarea_id r = wa" by (simp add: rows_def)
  ultimately have "distinct (map pq_repository_id rows)" by (auto simp: distinct_map inj_on_def set_key_def)
  then have "pq_repository_id (rows ! m) \<notin> ms_repository_id ` set (take m steps)"
    using m len repo by (auto simp: in_set_conv_nth distinct_conv_nth)
  then have "g (rows ! m) = rows ! m" using g(2) by (simp add: touches_only_def)
  with g(1) m len show ?thesis by (simp add: rows_def)
qed

lemma plan_step_numbers:
  assumes "get_workarea_merge_plan db t wa = Inr steps" and "i < length steps"
  shows "ms_step (steps ! i) = i + 1"
  using assms(2) by (simp add: plan_steps [OF assms(1)] merge_step_of_def nth_enumerate_eq)

lemma merge_run_cases:
  assumes plan: "get_workarea_merge_plan (pw_db w) (pw_prs w) wa = Inr steps"
    and run: "merge_workarea_pr_set env wa opts w = (out, w')"
  obtains (refused) e where "out = Some (Inl e)" "w' = w" "merge_guards env opts = Inl e"
  | (merged) w1 m where "merge_guards env opts = Inr ()" "steps \<noteq> []"
      "merge_members env wa opts (length steps) 0 steps w = (Passed, m, w1)"
      "out = Some (Inr \<lparr>rep_merged_steps = m, rep_total = length steps, rep_paused_at_step = None\<rparr>)"
      "w' = run_issue_write_back env wa (report_merged wa (length steps) w1)"
  | (stopped) o1 w1 m where "merge_guards env opts = Inr ()" "steps \<noteq> []"
      "merge_members env wa opts (length steps) 0 steps w = (o1, m, w1)" "o1 \<noteq> Passed" "w' = w1"
      "out = (case o1 of Paused rep \<Rightarrow> Some (Inr rep) | Aborted e \<Rightarrow> Some (Inl e) | _ \<Rightarrow> None)"
  | (none) "merge_guards env opts = Inr ()" "steps = []"
      "out = Some (Inr \<lparr>rep_merged_steps = 0, rep_total = 0, rep_paused_at_step = None\<rparr>)" "w' = report_merged wa 0 w"
proof (cases "merge_guards env opts")
  case (Inl e)
  with run show ?thesis by (intro refused [of e]) (auto simp: merge_workarea_pr_set_def)
next
  case (Inr u)
  obtain o1 m w1 where mm: "merge_members env wa opts (length steps) 0 steps w = (o1, m, w1)" by (metis prod_cases3)
  show ?thesis
  proof (cases "steps = []")
    case True
    with run plan Inr show ?thesis by (intro none) (auto simp: merge_workarea_pr_set_def)
  next
    case False
    then obtain s rest where "steps = s # rest" by (cases steps) auto
    with run plan Inr mm False show ?thesis
      by (cases o1) (auto simp: merge_workarea_pr_set_def Let_def simp del: merge_members.simps intro: merged stopped)
  qed
qed

section \<open>Properties\<close>

text \<open>C15: a coordinated merge follows its plan behind green checks. Its requests to merge are the first
  members of the plan in order, and each is sent only when every earlier member has been merged and the
  checks of its merge commit have then all ended green, unless the caller asked to ignore red checks, which
  nothing is merged under without the leave of the managed policy. The report says the whole set is merged
  only if every member is settled so; a pause names the first one that is not.\<close>

theorem merges_in_order_behind_green_checks:
  assumes "get_workarea_merge_plan (pw_db w) (pw_prs w) wa = Inr steps"
    and "merge_workarea_pr_set env wa opts w = (out, w')"
  shows "\<exists>l. pw_log w' = pw_log w @ l \<and> in_order env opts steps l
    \<and> (merge_calls l \<noteq> [] \<longrightarrow> mo_allow_failing_checks opts \<longrightarrow> read_allow_merge_with_failing_checks (me_managed env))
    \<and> (\<forall>rep. out = Some (Inr rep) \<longrightarrow> rep_total rep = length steps
        \<and> (\<forall>i<rep_merged_steps rep. settled env opts (steps ! i) l)
        \<and> (case rep_paused_at_step rep of
             None \<Rightarrow> rep_merged_steps rep = length steps \<and> merge_calls l = map member_pr steps
           | Some p \<Rightarrow> p = rep_merged_steps rep + 1 \<and> p \<le> length steps \<and> merge_calls l = map member_pr (take p steps)))"
  using assms
proof (cases rule: merge_run_cases)
  case (refused e)
  then show ?thesis by (auto intro: in_order_quiet)
next
  case none
  then show ?thesis by (auto intro: in_order_quiet)
next
  case (merged w1 m)
  from merge_members_log [OF merged(3)] obtain l where l: "pw_log w1 = pw_log w @ l"
    "run_added opts env (length steps) 0 steps Passed m l" by blast
  obtain l' where l': "pw_log w' = (pw_log w1 @ [Frame (SetMerged (length steps)), Broadcast (PrSetMerged wa (length steps))]) @ l'"
    "write_back_log l'" using write_back_adds [of env wa] merged(5) by (metis report_simps(3))
  define l2 where "l2 = [Frame (SetMerged (length steps)), Broadcast (PrSetMerged wa (length steps))] @ l'"
  have "pw_log w' = pw_log w @ l @ l2" "merge_calls l2 = []"
    using l l' by (simp_all add: l2_def write_back_log_def)
  with l merged guards_pass [OF merged(1)] show ?thesis
    by (intro exI [of _ "l @ l2"]) (auto simp: run_added_def intro: in_order_settled settled_append)
next
  case (stopped o1 w1 m)
  from merge_members_log [OF stopped(3)] obtain l where l: "pw_log w1 = pw_log w @ l"
    "run_added opts env (length steps) 0 steps o1 m l" by blast
  with stopped guards_pass [OF stopped(1)] plan_step_numbers [OF assms(1), of m] show ?thesis
    by (intro exI [of _ l]) (auto simp: run_added_def split: member_outcome.splits if_splits)
qed

fun revert_calls :: "merge_log list \<Rightarrow> (string \<times> int) list" where
  "revert_calls [] = []"
| "revert_calls (RevertCall full n r # l) = (full, n) # revert_calls l"
| "revert_calls (_ # l) = revert_calls l"

lemma revert_calls_append [simp]: "revert_calls (l1 @ l2) = revert_calls l1 @ revert_calls l2"
  by (induction l1 rule: revert_calls.induct) auto

definition row_pr :: "pull_request \<Rightarrow> string \<times> int" where
  "row_pr r = (pq_repository_full_name r, pq_pr_number r)"

definition step_pr :: "revert_step \<Rightarrow> string \<times> int" where
  "step_pr s = (rs_repository_full_name s, rs_pr_number s)"

lemma revert_row_adds:
  assumes "revert_row env wa hard pr w = (s, w')"
  shows "step_pr s = row_pr pr \<and> (rs_outcome s = Skipped \<longleftrightarrow> pq_state pr \<noteq> ''merged'')
    \<and> (\<exists>l. pw_log w' = pw_log w @ l \<and> revert_calls l = (if pq_state pr = ''merged'' then [row_pr pr] else [])
        \<and> (rs_outcome s = Reverted \<longleftrightarrow> (\<exists>r. RevertCall (pq_repository_full_name pr) (pq_pr_number pr) (Inr r) \<in> set l \<and> pv_reverted r)))"
  using assms
  by (auto simp: revert_row_def Let_def step_pr_def row_pr_def split: sum.splits if_splits)

lemma revert_rows_adds:
  assumes "revert_rows env wa hard rows w = (steps, w')"
  shows "map step_pr steps = map row_pr rows
    \<and> map (\<lambda>s. rs_outcome s = Skipped) steps = map (\<lambda>r. pq_state r \<noteq> ''merged'') rows
    \<and> (\<exists>l. pw_log w' = pw_log w @ l \<and> revert_calls l = map row_pr (filter (\<lambda>r. pq_state r = ''merged'') rows))"
  using assms
proof (induction rows arbitrary: w steps)
  case Nil
  then show ?case by auto
next
  case (Cons pr rest)
  obtain s w1 where r1: "revert_row env wa hard pr w = (s, w1)" by fastforce
  with Cons.prems obtain steps' where r2: "revert_rows env wa hard rest w1 = (steps', w')" "steps = s # steps'"
    by (auto simp: map_prod_def split: prod.splits)
  from revert_row_adds [OF r1] Cons.IH [OF r2(1)] r2(2) show ?case by auto
qed

text \<open>a coordinated revert goes through the set backwards and tries every member whose row says merged,
  once, whatever became of the ones before it; the others, and only they, are reported as skipped. The
  report has a line for each member.\<close>

theorem revert_tries_every_merged_member:
  assumes "list_pr_set (pw_db w) (pw_prs w) wa = Inr rows"
    and "revert_workarea_pr_set env wa hard_reset w = (Inr steps, w')"
  shows "map step_pr steps = rev (map row_pr rows)
    \<and> map (\<lambda>s. rs_outcome s = Skipped) steps = rev (map (\<lambda>r. pq_state r \<noteq> ''merged'') rows)
    \<and> (\<exists>l. pw_log w' = pw_log w @ l \<and> revert_calls l = rev (map row_pr (filter (\<lambda>r. pq_state r = ''merged'') rows)))"
proof -
  from assms have "revert_rows env wa hard_reset (rev rows) w = (steps, w')"
    by (auto simp: revert_workarea_pr_set_def map_prod_def split: if_splits prod.splits)
  from revert_rows_adds [OF this] show ?thesis by (simp add: rev_map rev_filter)
qed

lemma revert_outcomes:
  assumes "list_pr_set (pw_db w) (pw_prs w) wa = Inr rows"
    and "revert_workarea_pr_set env wa hard_reset w = (Inr steps, w')" and "i < length rows"
  shows "rs_outcome (rev steps ! i) = Skipped \<longleftrightarrow> pq_state (rows ! i) \<noteq> ''merged''"
proof -
  from assms have "revert_rows env wa hard_reset (rev rows) w = (steps, w')"
    by (auto simp: revert_workarea_pr_set_def map_prod_def split: if_splits prod.splits)
  from revert_rows_adds [OF this]
  have "map (\<lambda>s. rs_outcome s = Skipped) (rev steps) = map (\<lambda>r. pq_state r \<noteq> ''merged'') rows"
    by (simp add: rev_map [symmetric])
  then have "map (\<lambda>s. rs_outcome s = Skipped) (rev steps) ! i = map (\<lambda>r. pq_state r \<noteq> ''merged'') rows ! i" by simp
  moreover have "length (rev steps) = length rows"
    using \<open>map (\<lambda>s. rs_outcome s = Skipped) (rev steps) = _\<close> by (metis length_map)
  ultimately show ?thesis using assms(3) by simp
qed

text \<open>C39: a member the provider merged, but whose checks then failed or timed out, is out of reach of the
  revert that the pause leaves to the user: its row still does not say merged, so the coordinated revert
  reports it as skipped.\<close>

theorem merge_paused_on_checks_escapes_revert:
  assumes keyed: "set_keyed (pw_prs w)" and plan: "get_workarea_merge_plan (pw_db w) (pw_prs w) wa = Inr steps"
    and run: "merge_workarea_pr_set env wa opts w = (Some (Inr rep), w1)"
    and failed: "Frame (StepFailed p n reason kind) \<in> set (drop (length (pw_log w)) (pw_log w1))"
    and checks: "kind \<in> {ChecksFailed, ChecksTimeout}"
    and opened: "ms_state (steps ! (p - 1)) \<noteq> ''merged''"
    and revert: "revert_workarea_pr_set env' wa hard_reset w1 = (Inr rsteps, w2)"
  shows "(\<exists>r. pm_merged r \<and> MergeCall (ms_repository_full_name (steps ! (p - 1))) (ms_pr_number (steps ! (p - 1)))
        (mo_method opts) (Inr r) \<in> set (drop (length (pw_log w)) (pw_log w1)))
    \<and> rs_outcome (rev rsteps ! (p - 1)) = Skipped"
  using plan run
proof (cases rule: merge_run_cases)
  case (refused e)
  then show ?thesis by simp
next
  case none
  with failed show ?thesis by simp
next
  case (merged w3 m)
  from merge_members_log [OF merged(3)] obtain l where l: "pw_log w3 = pw_log w @ l"
    "run_added opts env (length steps) 0 steps Passed m l" by blast
  obtain l' where "pw_log w1 = (pw_log w3 @ [Frame (SetMerged (length steps)), Broadcast (PrSetMerged wa (length steps))]) @ l'"
    "write_back_log l'" using write_back_adds [of env wa] merged(5) by (metis report_simps(3))
  with failed l show ?thesis by (auto simp: run_added_def failure_of_def write_back_log_def)
next
  case (stopped o1 w3 m)
  from merge_members_log [OF stopped(3)] obtain l where l: "pw_log w1 = pw_log w @ l" "pw_db w1 = pw_db w"
    "run_added opts env (length steps) 0 steps o1 m l" using stopped(5) by blast
  then have m: "m < length steps" and fo: "failure_of opts (steps ! m) o1 l"
    using stopped(4) by (simp_all add: run_added_def)
  with failed l(1) have "p = ms_step (steps ! m)" by (auto simp: failure_of_def)
  then have p: "p - 1 = m" using plan_step_numbers [OF plan m] by simp
  have "\<exists>r. pm_merged r \<and> MergeCall (ms_repository_full_name (steps ! m)) (ms_pr_number (steps ! m)) (mo_method opts) (Inr r) \<in> set l"
    using fo failed checks l(1) by (auto simp: failure_of_def)
  moreover have "rs_outcome (rev rsteps ! m) = Skipped"
  proof -
    note same = unreached_row_untouched [OF keyed plan stopped(3) m]
    have "pq_state (list_by_workarea (pw_prs w) wa ! m) \<noteq> ''merged''"
      using opened p m by (simp add: plan_steps [OF plan] nth_enumerate_eq merge_step_of_def)
    moreover have "list_pr_set (pw_db w1) (pw_prs w1) wa = Inr (list_by_workarea (pw_prs w1) wa)"
      using plan l(2) by (auto simp: list_pr_set_def get_workarea_merge_plan_def split: option.splits)
    ultimately show ?thesis using revert_outcomes [OF _ revert] same stopped(5) by simp
  qed
  ultimately show ?thesis unfolding p using l(1) by simp
qed

text \<open>The choice of strategy is dropped on the way to the provider.\<close>

theorem hard_reset_is_ignored: "revert_workarea_pr_set env wa True w = revert_workarea_pr_set env wa False w"
proof -
  have "revert_row env wa True pr w = revert_row env wa False pr w" for pr w
    by (simp add: revert_row_def handle_revert_pr_def)
  then have "revert_rows env wa True rows w = revert_rows env wa False rows w" for rows w
    by (induction rows arbitrary: w) simp_all
  then show ?thesis by (simp add: revert_workarea_pr_set_def split: sum.split)
qed

text \<open>the write-back to the tracker never disturbs a merge: whatever the tracker answers, the report and
  the rows are the same; it is asked at most once, and only when the whole set is merged.\<close>

theorem write_back_is_best_effort:
  assumes "get_workarea_merge_plan (pw_db w) (pw_prs w) wa = Inr steps"
    and "merge_workarea_pr_set env wa opts w = (out, w')"
    and "TransitionCall r res \<in> set (drop (length (pw_log w)) (pw_log w'))"
  shows "out = Some (Inr \<lparr>rep_merged_steps = length steps, rep_total = length steps, rep_paused_at_step = None\<rparr>)
    \<and> length (filter (\<lambda>e. case e of TransitionCall r res \<Rightarrow> True | _ \<Rightarrow> False) (drop (length (pw_log w)) (pw_log w'))) = 1"
  using assms(1,2)
proof (cases rule: merge_run_cases)
  case (refused e)
  with assms(3) show ?thesis by simp
next
  case none
  with assms(3) show ?thesis by simp
next
  case (merged w1 m)
  from merge_members_log [OF merged(3)] obtain l where l: "pw_log w1 = pw_log w @ l"
    "run_added opts env (length steps) 0 steps Passed m l" by blast
  obtain l' where l': "pw_log w' = (pw_log w1 @ [Frame (SetMerged (length steps)), Broadcast (PrSetMerged wa (length steps))]) @ l'"
    "write_back_log l'" using write_back_adds [of env wa] merged(5) by (metis report_simps(3))
  let ?t = "\<lambda>e. case e of TransitionCall r res \<Rightarrow> True | _ \<Rightarrow> False"
  have "filter ?t l = []" using l(2) by (auto simp: run_added_def filter_empty_conv split: merge_log.splits)
  moreover have "filter ?t l' \<noteq> []" using assms(3) l l'
    by (auto simp: run_added_def filter_empty_conv intro!: bexI [of _ "TransitionCall r res"])
  ultimately show ?thesis using l l' merged(4)
    by (auto simp: run_added_def write_back_log_def le_Suc_eq)
next
  case (stopped o1 w1 m)
  from merge_members_log [OF stopped(3)] obtain l where "pw_log w1 = pw_log w @ l"
    "run_added opts env (length steps) 0 steps o1 m l" by blast
  with assms(3) stopped(5) show ?thesis by (auto simp: run_added_def)
qed

section \<open>Examples\<close>

definition red_env :: wait_env where
  "red_env = \<lparr>we_poll = \<lambda>_. Inr [\<lparr>cr_name = ''ci'', cr_status = ''completed'', cr_conclusion = ''failure''\<rparr>],
     we_poll_ms = \<lambda>_. 5, we_wake = \<lambda>_. None\<rparr>"

text \<open>A provider that merges everything, with the checks of the repositories in the list red.\<close>

definition sample_merge_env :: "string list \<Rightarrow> merge_env" where
  "sample_merge_env red =
     \<lparr>me_vcs_wired = True, me_scheduler_wired = True, me_checks_source = True,
       me_pat = \<lambda>_. Inr (Some ''pat''), me_github_provider = \<lambda>_. Inr (),
       me_merge = \<lambda>_ full n m. Inr \<lparr>pm_merged = True, pm_merge_commit_sha = Some ''c0ffee'', pm_message = []\<rparr>,
       me_revert = \<lambda>_ full n. Inr \<lparr>pv_reverted = True, pv_revert_pr_url = None, pv_message = []\<rparr>,
       me_wait = \<lambda>_ repo sha. if repo \<in> set red then red_env else green_env,
       me_transition = \<lambda>_ r. Inl (Vcs ''down''), me_row_written = \<lambda>_. True, me_now = \<lambda>_. 9,
       me_managed = None,
       me_from_str = \<lambda>s. if s = ''{}'' then Some (JObject [(''issue_write_back'', JBool True),
           (''source_issue_ref'', JString ''https://linear.app/t/issue/ENG-1/x'')]) else None,
       me_url_path = \<lambda>s. Inr ''/t/issue/ENG-1/x''\<rparr>"

definition sample_world :: pr_world where
  "sample_world = \<lparr>pw_db = sample_pr_db\<lparr>db_workspaces := [(''s'', \<lparr>ws_permission_mode = None, ws_bypass = None,
       ws_settings_json = ''{}'', ws_slug = ''s'', ws_archived_at = None\<rparr>)]\<rparr>, pw_prs = sample_pr_table, pw_log = []\<rparr>"

definition sample_steps :: "merge_step list" where
  "sample_steps = [merge_step_of 3 (0, sample_pr ''r2'' 3 0), merge_step_of 3 (1, sample_pr ''r3'' 2 1),
     merge_step_of 3 (2, sample_pr ''r1'' 7 1)]"

lemma sample_world_plan: "get_workarea_merge_plan (pw_db sample_world) (pw_prs sample_world) ''w'' = Inr sample_steps"
  by code_simp

lemma sample_waits:
  "run_wait_loop green_env AllTerminal t = Some (Inr \<lparr>co_passed = True, co_timed_out = False, co_runs = [green ''ci'']\<rparr>)"
  "run_wait_loop red_env AllTerminal t = Some (Inr \<lparr>co_passed = False, co_timed_out = False,
     co_runs = [\<lparr>cr_name = ''ci'', cr_status = ''completed'', cr_conclusion = ''failure''\<rparr>]\<rparr>)"
  by (simp_all add: run_wait_loop_def wait_from.simps green_env_def red_env_def green_def is_terminal_def
      resolved_outcome_def required_passed_def run_passed_def)

lemma sample_member:
  "fst (merge_member (sample_merge_env red) wa default_merge_opts n k s w)
   = (if ms_repository_id s \<in> set red then Paused \<lparr>rep_merged_steps = k, rep_total = n, rep_paused_at_step = Some (ms_step s)\<rparr>
      else Passed)"
  "ms_repository_id s \<in> set red \<Longrightarrow>
     Frame (StepFailed (ms_step s) n ''required checks failed'' ChecksFailed)
       \<in> set (drop (length (pw_log w)) (pw_log (snd (merge_member (sample_merge_env red) wa default_merge_opts n k s w))))"
  by (simp_all add: merge_member_def settle_checks_def wait_for_check_runs_def handle_merge_pr_def keychain_provider_def
      sample_merge_env_def default_merge_opts_def post_merge_sha_def sample_waits pause_merge_def Let_def)

lemma sample_members:
  "fst (merge_members (sample_merge_env red) wa default_merge_opts n k (s # rest) w)
   = (if ms_repository_id s \<in> set red then Paused \<lparr>rep_merged_steps = k, rep_total = n, rep_paused_at_step = Some (ms_step s)\<rparr>
      else fst (merge_members (sample_merge_env red) wa default_merge_opts n (k + 1) rest
        (snd (merge_member (sample_merge_env red) wa default_merge_opts n k s w))))"
  using sample_member(1) [of red wa n k s w]
  by (cases "merge_member (sample_merge_env red) wa default_merge_opts n k s w") auto

lemma sample_guards: "merge_guards (sample_merge_env red) default_merge_opts = Inr ()"
  by (simp add: merge_guards_def sample_merge_env_def default_merge_opts_def)

lemma sample_run:
  assumes "get_workarea_merge_plan (pw_db w) (pw_prs w) wa = Inr (s # rest)"
    and "merge_members (sample_merge_env red) wa default_merge_opts (Suc (length rest)) 0 (s # rest) w = (o1, m, w1)"
  shows "merge_workarea_pr_set (sample_merge_env red) wa default_merge_opts w =
    (case o1 of
       Passed \<Rightarrow> (Some (Inr \<lparr>rep_merged_steps = m, rep_total = Suc (length rest), rep_paused_at_step = None\<rparr>),
         run_issue_write_back (sample_merge_env red) wa (report_merged wa (Suc (length rest)) w1))
     | Paused rep \<Rightarrow> (Some (Inr rep), w1)
     | Aborted e \<Rightarrow> (Some (Inl e), w1)
     | StillWaiting \<Rightarrow> (None, w1))"
  using assms by (auto simp: merge_workarea_pr_set_def sample_guards Let_def simp del: merge_members.simps
      split: member_outcome.split)

lemma sample_green:
  obtains w1 where "pw_db w1 = pw_db sample_world"
    "merge_workarea_pr_set (sample_merge_env []) ''w'' default_merge_opts sample_world
     = (Some (Inr \<lparr>rep_merged_steps = 3, rep_total = 3, rep_paused_at_step = None\<rparr>),
        run_issue_write_back (sample_merge_env []) ''w'' (report_merged ''w'' 3 w1))"
proof -
  obtain o1 m w1 where mm: "merge_members (sample_merge_env []) ''w'' default_merge_opts 3 0 sample_steps sample_world = (o1, m, w1)"
    by (metis prod_cases3)
  have "o1 = Passed"
    using arg_cong [OF mm, of fst] by (simp add: sample_steps_def sample_members del: merge_members.simps(2))
  with merge_members_log [OF mm] have "m = 3" "pw_db w1 = pw_db sample_world"
    by (auto simp: run_added_def sample_steps_def)
  with sample_run [OF sample_world_plan [unfolded sample_steps_def]] mm \<open>o1 = Passed\<close> show ?thesis
    by (intro that) (simp_all add: sample_steps_def numeral_3_eq_3)
qed

theorem merges_in_order_behind_green_checks_witness:
  "\<exists>l. in_order (sample_merge_env []) default_merge_opts sample_steps l
     \<and> settled (sample_merge_env []) default_merge_opts (sample_steps ! 2) l \<and> merge_calls l = map member_pr sample_steps"
proof (rule sample_green)
  fix w1 assume "merge_workarea_pr_set (sample_merge_env []) ''w'' default_merge_opts sample_world
     = (Some (Inr \<lparr>rep_merged_steps = 3, rep_total = 3, rep_paused_at_step = None\<rparr>),
        run_issue_write_back (sample_merge_env []) ''w'' (report_merged ''w'' 3 w1))"
  from merges_in_order_behind_green_checks [OF sample_world_plan this] show ?thesis by force
qed

theorem write_back_is_best_effort_witness:
  "\<exists>out w'. merge_workarea_pr_set (sample_merge_env []) ''w'' default_merge_opts sample_world = (out, w')
     \<and> length (filter (\<lambda>e. case e of TransitionCall r res \<Rightarrow> True | _ \<Rightarrow> False) (drop 0 (pw_log w'))) = 1"
proof (rule sample_green)
  fix w1 assume db: "pw_db w1 = pw_db sample_world"
    and run: "merge_workarea_pr_set (sample_merge_env []) ''w'' default_merge_opts sample_world
     = (Some (Inr \<lparr>rep_merged_steps = 3, rep_total = 3, rep_paused_at_step = None\<rparr>),
        run_issue_write_back (sample_merge_env []) ''w'' (report_merged ''w'' 3 w1))"
  let ?r = "\<lparr>ir_provider = Linear, ir_external_id = ''ENG-1'', ir_project_url = ''https://linear.app/t/issue/ENG-1/x''\<rparr>"
  have "issue_write_back_opt_in (sample_merge_env []) (pw_db sample_world) ''w'' = Inr True" by code_simp
  moreover have "resolve_source_issue_ref (sample_merge_env []) (pw_db sample_world) ''w'' = Inr (Some ?r)" by code_simp
  moreover have "me_transition (sample_merge_env []) l ?r = Inl (Vcs ''down'')" for l by (simp add: sample_merge_env_def)
  ultimately have "TransitionCall ?r (Inl (Vcs ''down''))
      \<in> set (pw_log (run_issue_write_back (sample_merge_env []) ''w'' (report_merged ''w'' 3 w1)))"
    by (simp add: run_issue_write_back_def db Let_def)
  then have "TransitionCall ?r (Inl (Vcs ''down'')) \<in> set (drop (length (pw_log sample_world))
      (pw_log (run_issue_write_back (sample_merge_env []) ''w'' (report_merged ''w'' 3 w1))))"
    by (simp add: sample_world_def)
  from write_back_is_best_effort [OF sample_world_plan run this] run show ?thesis by (auto simp: sample_world_def)
qed

definition one_pr_world :: pr_world where
  "one_pr_world = sample_world\<lparr>pw_prs := [(''p1'', sample_pr ''r1'' 7 1)]\<rparr>"

lemma one_pr_plan:
  "get_workarea_merge_plan (pw_db one_pr_world) (pw_prs one_pr_world) ''w'' = Inr [merge_step_of 1 (0, sample_pr ''r1'' 7 1)]"
  by code_simp

theorem merge_paused_on_checks_escapes_revert_witness:
  "\<exists>rsteps w2. revert_workarea_pr_set (sample_merge_env []) ''w'' False
       (snd (merge_workarea_pr_set (sample_merge_env [''r1'']) ''w'' default_merge_opts one_pr_world)) = (Inr rsteps, w2)
     \<and> rs_outcome (rev rsteps ! 0) = Skipped"
proof -
  let ?env = "sample_merge_env [''r1'']" and ?s = "merge_step_of 1 (0, sample_pr ''r1'' 7 1)"
  let ?rep = "\<lparr>rep_merged_steps = 0, rep_total = 1, rep_paused_at_step = Some 1\<rparr>"
  have repo: "ms_repository_id ?s \<in> set [''r1'']" and step: "ms_step ?s = 1" by code_simp+
  obtain o1 w1 where mm: "merge_member ?env ''w'' default_merge_opts 1 0 ?s one_pr_world = (o1, w1)" by fastforce
  from sample_member(1) [of "[''r1'']" "''w''" 1 0 ?s one_pr_world] repo step mm have o1: "o1 = Paused ?rep" by simp
  from sample_member(2) [OF repo, where w = one_pr_world and n = 1 and wa = "''w''" and k = 0] step mm
  have f: "Frame (StepFailed 1 1 ''required checks failed'' ChecksFailed) \<in> set (drop (length (pw_log one_pr_world)) (pw_log w1))"
    by simp
  have run: "merge_workarea_pr_set ?env ''w'' default_merge_opts one_pr_world = (Some (Inr ?rep), w1)"
    using sample_run [OF one_pr_plan, of "[''r1'']" "Paused ?rep" 0 w1] mm o1 by simp
  have keyed: "set_keyed (pw_prs one_pr_world)" by (simp add: set_keyed_def one_pr_world_def)
  have opened: "ms_state ([?s] ! (1 - 1)) \<noteq> ''merged''" by code_simp
  obtain rsteps w2 where rv: "revert_workarea_pr_set (sample_merge_env []) ''w'' False w1 = (Inr rsteps, w2)"
  proof -
    have "workareas_get (pw_db one_pr_world) ''w'' \<noteq> None" by code_simp
    with merge_member_log [OF mm] have "\<exists>rows. list_pr_set (pw_db w1) (pw_prs w1) ''w'' = Inr rows"
      by (auto simp: list_pr_set_def)
    then show ?thesis
      by (auto simp: revert_workarea_pr_set_def sample_merge_env_def split_beta map_prod_def intro: that)
  qed
  from merge_paused_on_checks_escapes_revert [OF keyed one_pr_plan run f _ opened rv] rv run show ?thesis by simp
qed

definition merged_world :: pr_world where
  "merged_world = sample_world\<lparr>pw_prs := [(''p1'', (sample_pr ''r1'' 7 1)\<lparr>pq_state := ''merged''\<rparr>), (''p2'', sample_pr ''r2'' 3 0)]\<rparr>"

lemma sample_revert:
  "list_pr_set (pw_db merged_world) (pw_prs merged_world) ''w''
     = Inr [sample_pr ''r2'' 3 0, (sample_pr ''r1'' 7 1)\<lparr>pq_state := ''merged''\<rparr>]"
  "fst (revert_workarea_pr_set (sample_merge_env []) ''w'' False merged_world)
     = Inr [\<lparr>rs_repository_full_name = ''o/r1'', rs_pr_number = 7, rs_outcome = Reverted, rs_detail = []\<rparr>,
         \<lparr>rs_repository_full_name = ''o/r2'', rs_pr_number = 3, rs_outcome = Skipped, rs_detail = ''not merged (state=open)''\<rparr>]"
  by code_simp+

theorem revert_tries_every_merged_member_witness:
  "\<exists>(w' :: pr_world) l. pw_log w' = pw_log merged_world @ l \<and> revert_calls l = [(''o/r1'', 7)]"
proof -
  obtain steps w' where r: "revert_workarea_pr_set (sample_merge_env []) ''w'' False merged_world = (Inr steps, w')"
    using sample_revert(2) by (metis prod.collapse)
  from revert_tries_every_merged_member [OF sample_revert(1) r]
  have "\<exists>l. pw_log w' = pw_log merged_world @ l \<and> revert_calls l = [(''o/r1'', 7)]"
    by (simp add: row_pr_def sample_pr_def)
  then show ?thesis by blast
qed

end
