(* ===== verification/Subjects.thy ===== *)
theory Subjects
  imports Prelude
begin

text \<open>
  The subject catalog of the event streams (\<open>parse_subject\<close> of \<open>handlers/streams.rs\<close>). A buffer
  is kept per subject string, its bound chosen by the parsed subject, so the two namings have
  to agree.
\<close>

datatype subject =
    SessionEvents string
  | SessionIo string
  | WorkspaceEvents
  | WorkareaEvents
  | SuggestionEvents "string option"
  | TransportEvents
  | Checks string string
  | PrSetEvents "string option"
  | MaestroEvents
  | NotificationEvents

definition invalid_subject :: "string \<Rightarrow> error" where
  "invalid_subject s = Validation (''streams.unknown_subject: '' @ debug_str s)"

text \<open>\<open>splitn(2, '.')\<close>: the part before the first dot and the part after it, if there is one.\<close>

fun split_dot :: "string \<Rightarrow> string \<times> string option" where
  "split_dot [] = ([], None)"
| "split_dot (c # cs) = (if c = CHR ''.'' then ([], Some cs) else map_prod (\<lambda>p. c # p) (\<lambda>r. r) (split_dot cs))"

text \<open>A subject with an optional trailing \<open>.<workarea_id>\<close>.\<close>

definition parse_filtered :: "string \<Rightarrow> (string option \<Rightarrow> subject) \<Rightarrow> string \<Rightarrow> subject result" where
  "parse_filtered s mk rest =
     (if rest = [] then Inr (mk None)
      else case strip_prefix rest ''.'' of
             Some wid \<Rightarrow> if wid = [] then Inl (invalid_subject s) else Inr (mk (Some wid))
           | None \<Rightarrow> Inl (invalid_subject s))"

definition parse_subject :: "string \<Rightarrow> subject result" where
  "parse_subject s =
     (case strip_prefix s ''session.events.'' of
        Some sid \<Rightarrow> if sid = [] then Inl (invalid_subject s) else Inr (SessionEvents sid)
      | None \<Rightarrow>
     (case strip_prefix s ''session.io.'' of
        Some sid \<Rightarrow> if sid = [] then Inl (invalid_subject s) else Inr (SessionIo sid)
      | None \<Rightarrow>
     (case strip_prefix s ''suggestion.events'' of
        Some rest \<Rightarrow> parse_filtered s SuggestionEvents rest
      | None \<Rightarrow>
     (case strip_prefix s ''pr_set.events'' of
        Some rest \<Rightarrow> parse_filtered s PrSetEvents rest
      | None \<Rightarrow>
     (case strip_prefix s ''checks.'' of
        Some rest \<Rightarrow>
          (let (workarea_id, tl_part) = split_dot rest;
               repository_id = (case tl_part of Some r \<Rightarrow> r | None \<Rightarrow> [])
           in if workarea_id = [] \<or> repository_id = [] then Inl (invalid_subject s)
              else Inr (Checks workarea_id repository_id))
      | None \<Rightarrow>
          if s = ''workspace.events'' then Inr WorkspaceEvents
          else if s = ''workarea.events'' then Inr WorkareaEvents
          else if s = ''transport.events'' then Inr TransportEvents
          else if s = ''maestro.events'' then Inr MaestroEvents
          else if s = ''notification.events'' then Inr NotificationEvents
          else Inl (invalid_subject s))))))"

text \<open>The string a subject is written as, and the subjects that can be written.\<close>

fun show_subject :: "subject \<Rightarrow> string" where
  "show_subject (SessionEvents sid) = ''session.events.'' @ sid"
| "show_subject (SessionIo sid) = ''session.io.'' @ sid"
| "show_subject WorkspaceEvents = ''workspace.events''"
| "show_subject WorkareaEvents = ''workarea.events''"
| "show_subject (SuggestionEvents None) = ''suggestion.events''"
| "show_subject (SuggestionEvents (Some wid)) = ''suggestion.events.'' @ wid"
| "show_subject TransportEvents = ''transport.events''"
| "show_subject (Checks wid rid) = ''checks.'' @ wid @ ''.'' @ rid"
| "show_subject (PrSetEvents None) = ''pr_set.events''"
| "show_subject (PrSetEvents (Some wid)) = ''pr_set.events.'' @ wid"
| "show_subject MaestroEvents = ''maestro.events''"
| "show_subject NotificationEvents = ''notification.events''"

fun well_named :: "subject \<Rightarrow> bool" where
  "well_named (SessionEvents sid) = (sid \<noteq> [])"
| "well_named (SessionIo sid) = (sid \<noteq> [])"
| "well_named (SuggestionEvents (Some wid)) = (wid \<noteq> [])"
| "well_named (PrSetEvents (Some wid)) = (wid \<noteq> [])"
| "well_named (Checks wid rid) = (wid \<noteq> [] \<and> rid \<noteq> [] \<and> CHR ''.'' \<notin> set wid)"
| "well_named _ = True"

lemma split_dot_append [simp]: "CHR ''.'' \<notin> set w \<Longrightarrow> split_dot (w @ CHR ''.'' # r) = (w, Some r)"
  by (induction w) auto

lemma split_dot_parts: "split_dot s = (w, t) \<Longrightarrow> CHR ''.'' \<notin> set w \<and> s = w @ (case t of Some r \<Rightarrow> CHR ''.'' # r | None \<Rightarrow> [])"
proof (induction s arbitrary: w)
  case (Cons c cs)
  show ?case
  proof (cases "c = CHR ''.''")
    case True
    with Cons.prems show ?thesis by auto
  next
    case False
    obtain p q where "split_dot cs = (p, q)" by fastforce
    with Cons False show ?thesis by auto
  qed
qed simp

lemma strip_prefix_None_Cons: "c \<noteq> d \<Longrightarrow> strip_prefix (c # s) (d # p) = None"
  by (simp add: strip_prefix_def starts_with_str_def)

lemma strip_prefix_Cons [simp]: "strip_prefix (c # s) (c # p) = strip_prefix s p"
  by (simp add: strip_prefix_def starts_with_str_def)

lemma strip_prefix_Nil [simp]: "strip_prefix s [] = Some s"
  by (simp add: strip_prefix_def starts_with_str_def)

lemma strip_prefix_short [simp]: "strip_prefix [] (d # p) = None"
  by (simp add: strip_prefix_def starts_with_str_def)

section \<open>Properties\<close>

text \<open>a subject string and its parsed subject name each other. Writing a well-named subject and
  parsing it gives it back, and every string the parser accepts is the written form of the
  well-named subject it returns: no two strings share a buffer's subject, and none is accepted
  in two ways.\<close>

theorem subject_roundtrip:
  "parse_subject s = Inr x \<longleftrightarrow> well_named x \<and> s = show_subject x"
proof
  assume "well_named x \<and> s = show_subject x"
  then show "parse_subject s = Inr x"
    by (cases x rule: show_subject.cases)
      (auto simp: parse_subject_def parse_filtered_def strip_prefix_None_Cons)
next
  assume "parse_subject s = Inr x"
  then show "well_named x \<and> s = show_subject x"
    by (auto simp: parse_subject_def parse_filtered_def Let_def strip_prefix_Some_iff dest!: split_dot_parts
        split: option.splits prod.splits if_splits)
qed

end
