(* ===== verification/StreamBuffer.thy ===== *)
theory StreamBuffer
  imports Subjects
begin

text \<open>
  The per-subject buffer of the event streams and its subscribers (\<open>SubjectBuffer\<close>,
  \<open>register_subscriber\<close>, the pump, \<open>ack_offset\<close> and the guard's drop in
  \<open>crates/core/src/handlers/streams.rs\<close>). Offsets are \<open>u64\<close> counters of events and stay far
  below their range: they are natural numbers here, and \<open>saturating_add\<close> is addition.
\<close>

datatype event_body =
    BodySessionIo string
  | BodyGapDetected string nat
  | BodyOther string

record stream_event =
  se_offset :: nat
  se_body :: event_body

datatype ring_bound = CountBound nat | BytesBound nat

definition RING_EVENT_CAP :: nat where "RING_EVENT_CAP = 256"
definition RING_SESSION_IO_BYTE_CAP :: nat where "RING_SESSION_IO_BYTE_CAP = 1024 * 1024"

definition bound_for_subject :: "subject \<Rightarrow> ring_bound" where
  "bound_for_subject subj =
     (case subj of SessionIo _ \<Rightarrow> BytesBound RING_SESSION_IO_BYTE_CAP | _ \<Rightarrow> CountBound RING_EVENT_CAP)"

record ring_entry =
  re_event :: stream_event
  re_bytes :: nat

record subject_buffer =
  sb_counter :: nat
  sb_bound :: ring_bound
  sb_ring :: "ring_entry list"
  sb_floor :: nat
  sb_byte_total :: nat
  sb_acks :: "(nat \<times> nat) list"

definition new_buffer :: "ring_bound \<Rightarrow> subject_buffer" where
  "new_buffer bound =
     \<lparr>sb_counter = 0, sb_bound = bound, sb_ring = [], sb_floor = 0, sb_byte_total = 0, sb_acks = []\<rparr>"

fun session_io_bytes :: "event_body \<Rightarrow> nat" where
  "session_io_bytes (BodySessionIo data) = length data"
| "session_io_bytes _ = 0"

definition entry_bytes :: "ring_bound \<Rightarrow> event_body \<Rightarrow> nat" where
  "entry_bytes bound body = (case bound of BytesBound _ \<Rightarrow> session_io_bytes body | CountBound _ \<Rightarrow> 0)"

text \<open>The condition of the eviction loop, on the byte total and the ring's length.\<close>

fun over_bound :: "ring_bound \<Rightarrow> nat \<Rightarrow> nat \<Rightarrow> bool" where
  "over_bound (CountBound cap) tot len = (cap < len)"
| "over_bound (BytesBound cap) tot len = (cap < tot \<and> 1 < len)"

fun evict_entries :: "ring_bound \<Rightarrow> nat \<Rightarrow> ring_entry list \<Rightarrow> nat \<times> ring_entry list" where
  "evict_entries bound tot [] = (tot, [])"
| "evict_entries bound tot (e # es) =
     (if over_bound bound tot (length (e # es)) then evict_entries bound (tot - re_bytes e) es
      else (tot, e # es))"

definition refresh_floor :: "subject_buffer \<Rightarrow> subject_buffer" where
  "refresh_floor b =
     b\<lparr>sb_floor := (case sb_ring b of e # _ \<Rightarrow> se_offset (re_event e) | [] \<Rightarrow> sb_counter b)\<rparr>"

definition evict_buffer :: "subject_buffer \<Rightarrow> subject_buffer" where
  "evict_buffer b =
     (let (tot, ring) = evict_entries (sb_bound b) (sb_byte_total b) (sb_ring b)
      in refresh_floor (b\<lparr>sb_byte_total := tot, sb_ring := ring\<rparr>))"

definition publish :: "event_body \<Rightarrow> subject_buffer \<Rightarrow> stream_event \<times> subject_buffer" where
  "publish body b =
     (let off = sb_counter b;
          b = b\<lparr>sb_counter := off + 1\<rparr>;
          event = \<lparr>se_offset = off, se_body = body\<rparr>;
          b = (if sb_ring b = [] then b\<lparr>sb_floor := off\<rparr> else b);
          weight = entry_bytes (sb_bound b) body;
          b = b\<lparr>sb_byte_total := sb_byte_total b + weight,
                sb_ring := sb_ring b @ [\<lparr>re_event = event, re_bytes = weight\<rparr>]\<rparr>
      in (event, evict_buffer b))"

definition replay_after :: "nat \<Rightarrow> subject_buffer \<Rightarrow> stream_event list" where
  "replay_after since b = filter (\<lambda>e. since < se_offset e) (map re_event (sb_ring b))"

fun drop_acked :: "nat \<Rightarrow> nat \<Rightarrow> ring_entry list \<Rightarrow> nat \<times> ring_entry list" where
  "drop_acked min_ack tot [] = (tot, [])"
| "drop_acked min_ack tot (e # es) =
     (if se_offset (re_event e) \<le> min_ack then drop_acked min_ack (tot - re_bytes e) es else (tot, e # es))"

definition prune_to_min_ack :: "subject_buffer \<Rightarrow> subject_buffer" where
  "prune_to_min_ack b =
     (if sb_acks b = [] then b
      else let min_ack = Min (snd ` set (sb_acks b));
               (tot, ring) = drop_acked min_ack (sb_byte_total b) (sb_ring b)
           in refresh_floor (b\<lparr>sb_byte_total := tot, sb_ring := ring\<rparr>))"

section \<open>Subscribers\<close>

text \<open>The frames a subscriber gets before the live ones: a gap notice or a replay.\<close>

definition register_subscriber ::
  "string \<Rightarrow> nat option \<Rightarrow> nat \<Rightarrow> stream_event list \<Rightarrow> subject_buffer \<Rightarrow>
     (stream_event option \<times> stream_event list) \<times> subject_buffer" where
  "register_subscriber subject_str since_offset subscriber_id creating_replay b =
     (let initial_ack = (case since_offset of Some n \<Rightarrow> n | None \<Rightarrow> sb_floor b - 1);
          b' = b\<lparr>sb_acks := (subscriber_id, initial_ack) # filter (\<lambda>(i, a). i \<noteq> subscriber_id) (sb_acks b)\<rparr>
      in (case since_offset of
            None \<Rightarrow> ((None, creating_replay), b')
          | Some n \<Rightarrow>
              if sb_floor b = 0 \<or> sb_floor b \<le> n + 1 then ((None, replay_after n b), b')
              else ((Some \<lparr>se_offset = sb_floor b, se_body = BodyGapDetected subject_str (sb_floor b)\<rparr>, []), b')))"

definition drop_subscriber :: "nat \<Rightarrow> subject_buffer \<Rightarrow> subject_buffer" where
  "drop_subscriber subscriber_id b =
     prune_to_min_ack (b\<lparr>sb_acks := filter (\<lambda>(i, a). i \<noteq> subscriber_id) (sb_acks b)\<rparr>)"

definition ack_offset :: "nat \<Rightarrow> subject_buffer \<Rightarrow> subject_buffer" where
  "ack_offset off b =
     prune_to_min_ack (b\<lparr>sb_acks := map (\<lambda>(i, a). if a < off then (i, off) else (i, a)) (sb_acks b)\<rparr>)"

section \<open>The buffer against its history\<close>

text \<open>The stamped events of a history, and the buffer that holds a suffix of it.\<close>

definition stamped :: "event_body list \<Rightarrow> stream_event list" where
  "stamped hist = map2 (\<lambda>i b. \<lparr>se_offset = i, se_body = b\<rparr>) [0 ..< length hist] hist"

lemma length_stamped [simp]: "length (stamped hist) = length hist"
  by (simp add: stamped_def)

lemma stamped_snoc: "stamped (hist @ [b]) = stamped hist @ [\<lparr>se_offset = length hist, se_body = b\<rparr>]"
  by (simp add: stamped_def)

lemma nth_stamped [simp]: "i < length hist \<Longrightarrow> stamped hist ! i = \<lparr>se_offset = i, se_body = hist ! i\<rparr>"
  by (simp add: stamped_def)

definition weights :: "ring_entry list \<Rightarrow> nat" where
  "weights es = sum_list (map re_bytes es)"

lemma weights_simps [simp]:
  "weights [] = 0" "weights (e # es) = re_bytes e + weights es" "weights (xs @ ys) = weights xs + weights ys"
  by (simp_all add: weights_def)

definition within_bound :: "subject_buffer \<Rightarrow> bool" where
  "within_bound b \<longleftrightarrow> \<not> over_bound (sb_bound b) (sb_byte_total b) (length (sb_ring b))"

definition buffer_inv :: "event_body list \<Rightarrow> subject_buffer \<Rightarrow> bool" where
  "buffer_inv hist b \<longleftrightarrow>
     sb_counter b = length hist \<and> sb_floor b \<le> length hist
     \<and> map re_event (sb_ring b) = drop (sb_floor b) (stamped hist)
     \<and> sb_byte_total b = weights (sb_ring b)
     \<and> (\<forall>e\<in>set (sb_ring b). re_bytes e = entry_bytes (sb_bound b) (se_body (re_event e)))
     \<and> within_bound b"

lemma buffer_inv_new: "buffer_inv [] (new_buffer bound)"
  by (cases bound) (simp_all add: buffer_inv_def new_buffer_def stamped_def within_bound_def)

text \<open>Every loop of the buffer drops a prefix of the ring and its weight.\<close>

lemma evict_entries_suffix:
  "tot = weights es \<Longrightarrow> evict_entries bound tot es = (t, es') \<Longrightarrow>
     t = weights es' \<and> \<not> over_bound bound t (length es') \<and> (\<exists>k. k \<le> length es \<and> es' = drop k es)"
proof (induction bound tot es rule: evict_entries.induct)
  case (1 bound tot)
  then show ?case by (cases bound) auto
next
  case (2 bound tot e es)
  show ?case
  proof (cases "over_bound bound tot (length (e # es))")
    case True
    with 2 obtain k where
      "t = weights es' \<and> \<not> over_bound bound t (length es') \<and> k \<le> length es \<and> es' = drop k es"
      by fastforce
    then show ?thesis by (intro conjI exI [of _ "Suc k"]) auto
  next
    case False
    with 2(2,3) show ?thesis by (auto intro: exI [of _ 0])
  qed
qed

lemma drop_acked_suffix:
  "tot = weights es \<Longrightarrow> drop_acked m tot es = (t, es') \<Longrightarrow>
     t = weights es' \<and> (\<exists>k. k \<le> length es \<and> es' = drop k es)
     \<and> (es' \<noteq> [] \<longrightarrow> m < se_offset (re_event (hd es')))
     \<and> (\<forall>e\<in>set (take (length es - length es') es). se_offset (re_event e) \<le> m)"
proof (induction m tot es rule: drop_acked.induct)
  case (2 m tot e es)
  show ?case
  proof (cases "se_offset (re_event e) \<le> m")
    case True
    with 2 have ih: "t = weights es'" "\<exists>k. k \<le> length es \<and> es' = drop k es"
      "es' \<noteq> [] \<longrightarrow> m < se_offset (re_event (hd es'))"
      "\<forall>e\<in>set (take (length es - length es') es). se_offset (re_event e) \<le> m" by auto
    from ih(2) obtain k where k: "k \<le> length es" "es' = drop k es" by blast
    then have "Suc k \<le> length (e # es)" "es' = drop (Suc k) (e # es)" by simp_all
    moreover have "take (length (e # es) - length es') (e # es) = e # take (length es - length es') es"
      using k by (simp add: Suc_diff_le)
    ultimately show ?thesis using ih True by auto
  next
    case False
    with 2(2,3) show ?thesis by (auto intro: exI [of _ 0])
  qed
qed auto

lemma refresh_floor_simps [simp]:
  "sb_counter (refresh_floor b) = sb_counter b" "sb_ring (refresh_floor b) = sb_ring b"
  "sb_byte_total (refresh_floor b) = sb_byte_total b" "sb_bound (refresh_floor b) = sb_bound b"
  "sb_acks (refresh_floor b) = sb_acks b"
  by (simp_all add: refresh_floor_def)

lemma within_bound_refresh [simp]: "within_bound (refresh_floor b) = within_bound b"
  by (simp add: within_bound_def)

text \<open>A buffer whose ring is a dropped suffix, with the floor derived again.\<close>

lemma buffer_inv_refresh:
  assumes "sb_counter b = length hist"
    and "map re_event (sb_ring b) = drop f (stamped hist)" and "f \<le> length hist"
    and "sb_byte_total b = weights (sb_ring b)"
    and "\<forall>e\<in>set (sb_ring b). re_bytes e = entry_bytes (sb_bound b) (se_body (re_event e))"
    and "within_bound b"
  shows "buffer_inv hist (refresh_floor b) \<and> sb_floor (refresh_floor b) = f"
proof -
  have "sb_floor (refresh_floor b) = f"
  proof (cases "sb_ring b")
    case Nil
    with assms(2,3) have "f = length hist" by (metis drop_eq_Nil le_antisym length_stamped list.map_disc_iff)
    with Nil assms(1) show ?thesis by (simp add: refresh_floor_def)
  next
    case (Cons e es)
    then have "f < length hist" using assms(2) by (metis drop_eq_Nil length_stamped list.distinct(1) list.simps(9) not_le)
    moreover have "re_event e = hd (drop f (stamped hist))" using assms(2) Cons by (metis list.sel(1) list.simps(9))
    ultimately have "se_offset (re_event e) = f" by (simp add: hd_drop_conv_nth)
    with Cons show ?thesis by (simp add: refresh_floor_def)
  qed
  with assms show ?thesis by (simp add: buffer_inv_def)
qed

lemma buffer_inv_publish:
  assumes "buffer_inv hist b" and "publish body b = (ev, b')"
  shows "buffer_inv (hist @ [body]) b' \<and> ev = \<lparr>se_offset = length hist, se_body = body\<rparr>
    \<and> sb_bound b' = sb_bound b \<and> sb_acks b' = sb_acks b \<and> sb_floor b \<le> sb_floor b'"
proof -
  let ?e = "\<lparr>re_event = \<lparr>se_offset = length hist, se_body = body\<rparr>, re_bytes = entry_bytes (sb_bound b) body\<rparr>"
  let ?ring = "sb_ring b @ [?e]" and ?tot = "sb_byte_total b + entry_bytes (sb_bound b) body"
  from assms(1) have c: "sb_counter b = length hist" and f: "sb_floor b \<le> length hist"
    and r: "map re_event (sb_ring b) = drop (sb_floor b) (stamped hist)"
    and w: "sb_byte_total b = weights (sb_ring b)"
    and bs: "\<forall>e\<in>set (sb_ring b). re_bytes e = entry_bytes (sb_bound b) (se_body (re_event e))"
    by (auto simp: buffer_inv_def)
  obtain t ring where e: "evict_entries (sb_bound b) ?tot ?ring = (t, ring)" by fastforce
  have tot: "?tot = weights ?ring" using w by simp
  from evict_entries_suffix [OF tot e] obtain k where
    k: "t = weights ring" "\<not> over_bound (sb_bound b) t (length ring)" "k \<le> length ?ring" "ring = drop k ?ring"
    by blast
  let ?fl = "if sb_ring b = [] then length hist else sb_floor b"
  let ?b = "b\<lparr>sb_counter := Suc (length hist), sb_floor := ?fl, sb_byte_total := t, sb_ring := ring\<rparr>"
  have b': "b' = refresh_floor ?b" and ev: "ev = \<lparr>se_offset = length hist, se_body = body\<rparr>"
    using assms(2) c e by (auto simp: publish_def evict_buffer_def Let_def split: if_splits)
  have len: "length (sb_ring b) = length hist - sb_floor b" using arg_cong [OF r, of length] by simp
  have "map re_event ?ring = drop (sb_floor b) (stamped (hist @ [body]))"
    using r f by (simp add: stamped_snoc)
  then have "map re_event ring = drop (k + sb_floor b) (stamped (hist @ [body]))"
    unfolding k(4) drop_map [symmetric] by (simp only: drop_drop)
  moreover have "k + sb_floor b \<le> length (hist @ [body])" using k(3) len f by simp
  moreover have "\<forall>e\<in>set ring. re_bytes e = entry_bytes (sb_bound b) (se_body (re_event e))"
  proof -
    have "set ring \<subseteq> set ?ring" unfolding k(4) by (rule set_drop_subset)
    with bs show ?thesis by auto
  qed
  ultimately have "buffer_inv (hist @ [body]) (refresh_floor ?b) \<and> sb_floor (refresh_floor ?b) = k + sb_floor b"
    using k(1,2) by (intro buffer_inv_refresh) (simp_all add: within_bound_def)
  then show ?thesis using ev b' by simp
qed

lemma over_bound_mono: "\<not> over_bound bd t n \<Longrightarrow> t' \<le> t \<Longrightarrow> n' \<le> n \<Longrightarrow> \<not> over_bound bd t' n'"
  by (cases bd) auto

lemma weights_drop_le: "weights (drop k es) \<le> weights es"
proof -
  have "weights es = weights (take k es) + weights (drop k es)"
    by (metis append_take_drop_id weights_simps(3))
  then show ?thesis by simp
qed

lemma buffer_inv_prune:
  assumes "buffer_inv hist b"
  shows "buffer_inv hist (prune_to_min_ack b) \<and> sb_bound (prune_to_min_ack b) = sb_bound b
    \<and> sb_acks (prune_to_min_ack b) = sb_acks b
    \<and> sb_floor (prune_to_min_ack b) =
        (if sb_acks b = [] then sb_floor b
         else max (sb_floor b) (min (length hist) (Suc (Min (snd ` set (sb_acks b))))))"
proof (cases "sb_acks b = []")
  case True
  then show ?thesis using assms by (simp add: prune_to_min_ack_def)
next
  case False
  let ?m = "Min (snd ` set (sb_acks b))"
  from assms have c: "sb_counter b = length hist" and f: "sb_floor b \<le> length hist"
    and r: "map re_event (sb_ring b) = drop (sb_floor b) (stamped hist)"
    and w: "sb_byte_total b = weights (sb_ring b)"
    and bs: "\<forall>e\<in>set (sb_ring b). re_bytes e = entry_bytes (sb_bound b) (se_body (re_event e))"
    and wb: "within_bound b"
    by (auto simp: buffer_inv_def)
  obtain t ring where e: "drop_acked ?m (sb_byte_total b) (sb_ring b) = (t, ring)" by fastforce
  from drop_acked_suffix [OF w e] obtain k where
    k: "t = weights ring" "k \<le> length (sb_ring b)" "ring = drop k (sb_ring b)"
    and hd: "ring \<noteq> [] \<longrightarrow> ?m < se_offset (re_event (hd ring))"
    and dropped: "\<forall>e\<in>set (take (length (sb_ring b) - length ring) (sb_ring b)). se_offset (re_event e) \<le> ?m"
    by blast
  have len: "length (sb_ring b) = length hist - sb_floor b" using arg_cong [OF r, of length] by simp
  have off: "se_offset (re_event (sb_ring b ! i)) = sb_floor b + i" if "i < length (sb_ring b)" for i
  proof -
    have "re_event (sb_ring b ! i) = drop (sb_floor b) (stamped hist) ! i" using r that by (metis nth_map)
    with that len f show ?thesis by simp
  qed
  have kf: "k + sb_floor b = max (sb_floor b) (min (length hist) (Suc ?m))"
  proof (cases "k = length (sb_ring b)")
    case True
    have "length hist \<le> Suc ?m \<or> sb_ring b = []"
    proof (cases "sb_ring b = []")
      case False
      then have "sb_ring b ! (length (sb_ring b) - 1) \<in> set (take (length (sb_ring b) - length ring) (sb_ring b))"
        using True k(3) by simp
      with dropped off [of "length (sb_ring b) - 1"] False len f show ?thesis by fastforce
    qed simp
    with True len f show ?thesis by auto
  next
    case neq: False
    then have lt: "k < length (sb_ring b)" using k(2) by simp
    then have "ring \<noteq> []" "hd ring = sb_ring b ! k" using k(3) by (simp_all add: hd_drop_conv_nth)
    with hd off [OF lt] have up: "?m < sb_floor b + k" by simp
    have down: "k = 0 \<or> sb_floor b + k \<le> Suc ?m"
    proof (cases k)
      case (Suc j)
      then have "sb_ring b ! j \<in> set (take (length (sb_ring b) - length ring) (sb_ring b))"
        using lt k(3) by (auto simp: in_set_conv_nth intro!: exI [of _ j])
      with dropped off [of j] lt Suc show ?thesis by fastforce
    qed simp
    from up down lt len f show ?thesis by auto
  qed
  let ?b = "b\<lparr>sb_byte_total := t, sb_ring := ring\<rparr>"
  have p: "prune_to_min_ack b = refresh_floor ?b"
    using False e by (simp add: prune_to_min_ack_def Let_def)
  have "set ring \<subseteq> set (sb_ring b)" unfolding k(3) by (rule set_drop_subset)
  then have "\<forall>e\<in>set ring. re_bytes e = entry_bytes (sb_bound b) (se_body (re_event e))" using bs by auto
  moreover have "within_bound ?b"
    using wb over_bound_mono [OF _ weights_drop_le [of k "sb_ring b"], of "sb_bound b"] k w
    by (simp add: within_bound_def)
  moreover have "map re_event ring = drop (k + sb_floor b) (stamped hist)"
    using k(3) r by (simp add: drop_map [symmetric])
  ultimately have "buffer_inv hist (refresh_floor ?b) \<and> sb_floor (refresh_floor ?b) = k + sb_floor b"
    using c k(1,2) len f by (intro buffer_inv_refresh) simp_all
  then show ?thesis using p kf False by simp
qed

lemma buffer_inv_acks: "buffer_inv hist (b\<lparr>sb_acks := x\<rparr>) = buffer_inv hist b"
  by (simp add: buffer_inv_def within_bound_def)

lemma buffer_inv_register:
  "buffer_inv hist b \<Longrightarrow> buffer_inv hist (snd (register_subscriber s n i cr b))
     \<and> sb_bound (snd (register_subscriber s n i cr b)) = sb_bound b"
  by (auto simp: register_subscriber_def Let_def buffer_inv_acks split: option.split)

text \<open>The buffer as a machine, with its history as a ghost.\<close>

datatype buffer_event =
    Publish event_body
  | Register "nat option" nat
  | DropSubscriber nat
  | AckOffset nat

fun buffer_step :: "event_body list \<times> subject_buffer \<Rightarrow> buffer_event \<Rightarrow> event_body list \<times> subject_buffer" where
  "buffer_step (hist, b) (Publish body) = (hist @ [body], snd (publish body b))"
| "buffer_step (hist, b) (Register since i) = (hist, snd (register_subscriber ''s'' since i [] b))"
| "buffer_step (hist, b) (DropSubscriber i) = (hist, drop_subscriber i b)"
| "buffer_step (hist, b) (AckOffset off) = (hist, ack_offset off b)"

lemma buffer_step_inv:
  assumes inv: "buffer_inv hist b" and st: "buffer_step (hist, b) e = (hist', b')"
  shows "buffer_inv hist' b' \<and> sb_bound b' = sb_bound b"
proof (cases e)
  case (Publish body)
  then show ?thesis using buffer_inv_publish [OF inv, of body] st by (cases "publish body b") auto
next
  case (Register since i)
  then show ?thesis using buffer_inv_register [OF inv] st by auto
next
  case (DropSubscriber i)
  then show ?thesis
    using buffer_inv_prune [of hist "b\<lparr>sb_acks := filter (\<lambda>(j, a). j \<noteq> i) (sb_acks b)\<rparr>"] inv st
    by (simp add: drop_subscriber_def buffer_inv_acks)
next
  case (AckOffset off)
  then show ?thesis
    using buffer_inv_prune [of hist "b\<lparr>sb_acks := map (\<lambda>(i, a). if a < off then (i, off) else (i, a)) (sb_acks b)\<rparr>"]
      inv st
    by (simp add: ack_offset_def buffer_inv_acks)
qed

interpretation buffer: event_machine buffer_step "\<lambda>(hist, b). buffer_inv hist b \<and> sb_bound b = bound" for bound
  by unfold_locales (use buffer_step_inv in \<open>fastforce split: prod.splits\<close>)

section \<open>The pump and the live subscribers\<close>

text \<open>
  The pump stamps and stores an event under the lock, and sends it to the live subscribers after
  releasing it (\<open>hb_pending\<close>: stamped, not yet sent). A subscriber is its id, the offset from
  which it is owed every event (a ghost), and the frames it got. A receiver is taken not to lag
  behind the broadcast channel.
\<close>

record hub =
  hb_hist :: "event_body list"
  hb_buf :: subject_buffer
  hb_pending :: "stream_event option"
  hb_next_id :: nat
  hb_subs :: "(nat \<times> nat \<times> stream_event list) list"

definition new_hub :: "ring_bound \<Rightarrow> hub" where
  "new_hub bound = \<lparr>hb_hist = [], hb_buf = new_buffer bound, hb_pending = None, hb_next_id = 0, hb_subs = []\<rparr>"

datatype hub_event =
    PumpPublish event_body
  | PumpSend
  | Subscribe "nat option"
  | Leave nat
  | Acked nat

definition hub_step :: "string \<Rightarrow> hub \<Rightarrow> hub_event \<Rightarrow> hub" where
  "hub_step subj h e =
     (case e of
        PumpPublish body \<Rightarrow>
          (if hb_pending h \<noteq> None then h
           else let (ev, b) = publish body (hb_buf h)
                in h\<lparr>hb_hist := hb_hist h @ [body], hb_buf := b, hb_pending := Some ev\<rparr>)
      | PumpSend \<Rightarrow>
          (case hb_pending h of
             None \<Rightarrow> h
           | Some ev \<Rightarrow> h\<lparr>hb_pending := None,
                          hb_subs := map (\<lambda>(i, owed, frames). (i, owed, frames @ [ev])) (hb_subs h)\<rparr>)
      | Subscribe since \<Rightarrow>
          (let ((gap, replay), b) = register_subscriber subj since (hb_next_id h) [] (hb_buf h);
               owed = (case (since, gap) of (Some n, None) \<Rightarrow> n + 1 | _ \<Rightarrow> length (hb_hist h));
               prefix = (case gap of Some g \<Rightarrow> [g] | None \<Rightarrow> []) @ replay
           in h\<lparr>hb_buf := b, hb_next_id := hb_next_id h + 1,
                hb_subs := hb_subs h @ [(hb_next_id h, owed, prefix)]\<rparr>)
      | Leave i \<Rightarrow>
          h\<lparr>hb_buf := drop_subscriber i (hb_buf h), hb_subs := filter (\<lambda>(j, x). j \<noteq> i) (hb_subs h)\<rparr>
      | Acked off \<Rightarrow> h\<lparr>hb_buf := ack_offset off (hb_buf h)\<rparr>)"

lemma filter_after_stamped:
  "filter (\<lambda>e. n < se_offset e) (drop f (stamped hist)) = drop (max f (Suc n)) (stamped hist)"
proof (induction hist rule: rev_induct)
  case (snoc b hist)
  then show ?case
    by (cases "f \<le> length hist"; cases "Suc n \<le> length hist") (auto simp: stamped_snoc max_def not_le)
qed (simp add: stamped_def)

lemma replay_after_stamped:
  "buffer_inv hist b \<Longrightarrow> replay_after n b = drop (max (sb_floor b) (Suc n)) (stamped hist)"
  by (simp add: buffer_inv_def replay_after_def filter_after_stamped)

definition sent_upto :: "hub \<Rightarrow> nat" where
  "sent_upto h = (if hb_pending h = None then length (hb_hist h) else length (hb_hist h) - 1)"

definition hub_inv :: "hub \<Rightarrow> bool" where
  "hub_inv h \<longleftrightarrow>
     buffer_inv (hb_hist h) (hb_buf h)
     \<and> (\<forall>ev. hb_pending h = Some ev \<longrightarrow> hb_hist h \<noteq> [] \<and> ev = last (stamped (hb_hist h)))
     \<and> (\<forall>(i, owed, frames) \<in> set (hb_subs h). \<forall>k. owed \<le> k \<longrightarrow> k < sent_upto h \<longrightarrow>
          stamped (hb_hist h) ! k \<in> set frames)"

lemma hub_inv_new: "hub_inv (new_hub bound)"
  by (simp add: hub_inv_def new_hub_def buffer_inv_new)

lemma stamped_nth_prefix: "k < length hist \<Longrightarrow> stamped (hist @ [b]) ! k = stamped hist ! k"
  by (simp add: nth_append)

lemma hub_inv_step:
  assumes inv: "hub_inv h"
  shows "hub_inv (hub_step subj h e)"
proof -
  have b: "buffer_inv (hb_hist h) (hb_buf h)" using inv by (simp add: hub_inv_def)
  have subs: "stamped (hb_hist h) ! k \<in> set frames"
    if "(i, owed, frames) \<in> set (hb_subs h)" "owed \<le> k" "k < sent_upto h" for i owed frames k
    using inv that unfolding hub_inv_def by blast
  show ?thesis
  proof (cases e)
    case (PumpPublish body)
    show ?thesis
    proof (cases "hb_pending h")
      case None
      obtain ev b' where p: "publish body (hb_buf h) = (ev, b')" by fastforce
      from buffer_inv_publish [OF b p] have b': "buffer_inv (hb_hist h @ [body]) b'"
        and ev: "ev = \<lparr>se_offset = length (hb_hist h), se_body = body\<rparr>" by auto
      let ?h = "h\<lparr>hb_hist := hb_hist h @ [body], hb_buf := b', hb_pending := Some ev\<rparr>"
      have "sent_upto ?h = length (hb_hist h)" "sent_upto h = length (hb_hist h)"
        using None by (simp_all add: sent_upto_def)
      then have "hub_inv ?h"
        using b' ev subs unfolding hub_inv_def by (fastforce simp: stamped_snoc nth_append)
      then show ?thesis using PumpPublish None p by (simp add: hub_step_def)
    qed (use PumpPublish inv in \<open>simp add: hub_step_def\<close>)
  next
    case PumpSend
    show ?thesis
    proof (cases "hb_pending h")
      case (Some ev)
      let ?h = "h\<lparr>hb_pending := None, hb_subs := map (\<lambda>(i, owed, frames). (i, owed, frames @ [ev])) (hb_subs h)\<rparr>"
      have ne: "hb_hist h \<noteq> []" and ev: "ev = last (stamped (hb_hist h))"
        using inv Some by (auto simp: hub_inv_def)
      have "stamped (hb_hist h) \<noteq> []" using ne by (metis length_0_conv length_stamped)
      then have last: "ev = stamped (hb_hist h) ! (length (hb_hist h) - 1)" using ev by (simp add: last_conv_nth)
      have "stamped (hb_hist h) ! k \<in> set (frames @ [ev])"
        if "(i, owed, frames) \<in> set (hb_subs h)" "owed \<le> k" "k < length (hb_hist h)" for i owed frames k
      proof (cases "k = length (hb_hist h) - 1")
        case False
        with that subs [OF that(1,2)] Some show ?thesis by (simp add: sent_upto_def)
      qed (use last in simp)
      then have "hub_inv ?h" using b unfolding hub_inv_def by (fastforce simp: sent_upto_def)
      then show ?thesis using PumpSend Some by (simp add: hub_step_def)
    qed (use PumpSend inv in \<open>simp add: hub_step_def\<close>)
  next
    case (Subscribe since)
    obtain gap replay b' where r: "register_subscriber subj since (hb_next_id h) [] (hb_buf h) = ((gap, replay), b')"
      by (metis prod.collapse)
    have b': "buffer_inv (hb_hist h) b'" using buffer_inv_register [OF b, of subj since "hb_next_id h" "[]"] r by simp
    have new: "stamped (hb_hist h) ! k \<in> set ((case gap of Some g \<Rightarrow> [g] | None \<Rightarrow> []) @ replay)"
      if "(case (since, gap) of (Some n, None) \<Rightarrow> n + 1 | _ \<Rightarrow> length (hb_hist h)) \<le> k" "k < length (hb_hist h)" for k
    proof -
      from that obtain n where n: "since = Some n" "gap = None" "n + 1 \<le> k"
        by (cases since; cases gap) auto
      then have rep: "replay = drop (max (sb_floor (hb_buf h)) (Suc n)) (stamped (hb_hist h))"
        and fl: "sb_floor (hb_buf h) \<le> n + 1"
        using r replay_after_stamped [OF b, of n] by (auto simp: register_subscriber_def Let_def split: if_splits)
      from fl rep n have "replay = drop (Suc n) (stamped (hb_hist h))" by (simp add: max_def)
      moreover have "stamped (hb_hist h) ! k \<in> set (drop (Suc n) (stamped (hb_hist h)))"
        using n(3) that(2) by (auto simp: in_set_conv_nth intro!: exI [of _ "k - Suc n"])
      ultimately show ?thesis by simp
    qed
    have "sent_upto h \<le> length (hb_hist h)" by (simp add: sent_upto_def)
    then show ?thesis
      using Subscribe r b' inv subs new unfolding hub_inv_def
      by (auto simp: hub_step_def sent_upto_def split: if_splits)
  next
    case (Leave i)
    have "buffer_inv (hb_hist h) (drop_subscriber i (hb_buf h))"
      using buffer_step_inv [OF b, of "DropSubscriber i"] by simp
    with Leave inv show ?thesis by (auto simp: hub_step_def hub_inv_def sent_upto_def)
  next
    case (Acked off)
    have "buffer_inv (hb_hist h) (ack_offset off (hb_buf h))"
      using buffer_step_inv [OF b, of "AckOffset off"] by simp
    with Acked inv show ?thesis by (auto simp: hub_step_def hub_inv_def sent_upto_def)
  qed
qed

interpretation hub: event_machine "hub_step subj" hub_inv for subj
  by unfold_locales (rule hub_inv_step)

definition run_buffer :: "ring_bound \<Rightarrow> buffer_event list \<Rightarrow> event_body list \<times> subject_buffer" where
  "run_buffer bound es = fold (\<lambda>e t. buffer_step t e) es ([], new_buffer bound)"

lemma run_buffer_inv:
  "run_buffer bound es = (hist, b) \<Longrightarrow> buffer_inv hist b \<and> sb_bound b = bound"
proof -
  have "(\<lambda>(hist, b). buffer_inv hist b \<and> sb_bound b = bound) ([], new_buffer bound)"
    using buffer_inv_new [of bound] by (simp add: new_buffer_def)
  from buffer.run_inv [OF this, of es] show "run_buffer bound es = (hist, b) \<Longrightarrow> ?thesis"
    by (simp add: run_buffer_def)
qed

definition run_hub :: "string \<Rightarrow> ring_bound \<Rightarrow> hub_event list \<Rightarrow> hub" where
  "run_hub subj bound es = fold (\<lambda>e h. hub_step subj h e) es (new_hub bound)"

lemma hub_inv_run: "hub_inv (run_hub subj bound es)"
  unfolding run_hub_def by (rule hub.run_inv) (rule hub_inv_new)

section \<open>Properties\<close>

text \<open>C8: a resuming subscriber gets everything or is told. After any publications, acknowledgements
  and subscriptions, a subscriber that resumes after offset \<open>n\<close> either receives exactly the events
  of the full history above \<open>n\<close>, in order, with no gap notice; or it receives only a gap notice
  naming the lowest retained offset, which is above the one it asked for next.\<close>

theorem resume_replays_or_reports_gap:
  assumes "run_buffer bound es = (hist, b)"
    and "register_subscriber subj (Some n) i cr b = ((gap, replay), b')"
  shows "if sb_floor b \<le> n + 1
     then gap = None \<and> replay = drop (n + 1) (stamped hist)
     else gap = Some \<lparr>se_offset = sb_floor b, se_body = BodyGapDetected subj (sb_floor b)\<rparr> \<and> replay = []
        \<and> n + 1 < sb_floor b \<and> sb_floor b \<le> length hist"
proof -
  from run_buffer_inv [OF assms(1)] have inv: "buffer_inv hist b" ..
  then have "sb_floor b \<le> length hist" by (simp add: buffer_inv_def)
  with assms(2) replay_after_stamped [OF inv, of n] show ?thesis
    by (auto simp: register_subscriber_def Let_def max_def split: if_splits)
qed

lemmas buffer_eval = run_buffer_def new_buffer_def publish_def evict_buffer_def refresh_floor_def
  entry_bytes_def register_subscriber_def replay_after_def ack_offset_def drop_subscriber_def
  prune_to_min_ack_def Let_def

lemma three_events:
  "run_buffer (CountBound 2) [Publish (BodyOther ''a''), Publish (BodyOther ''b''), Publish (BodyOther ''c'')]
   = ([BodyOther ''a'', BodyOther ''b'', BodyOther ''c''],
      \<lparr>sb_counter = 3, sb_bound = CountBound 2,
       sb_ring = [\<lparr>re_event = \<lparr>se_offset = 1, se_body = BodyOther ''b''\<rparr>, re_bytes = 0\<rparr>,
                  \<lparr>re_event = \<lparr>se_offset = 2, se_body = BodyOther ''c''\<rparr>, re_bytes = 0\<rparr>],
       sb_floor = 1, sb_byte_total = 0, sb_acks = []\<rparr>)"
  by (simp add: buffer_eval)

theorem resume_replays_or_reports_gap_witness:
  "snd (fst (register_subscriber ''s'' (Some 1) 0 [] (snd (run_buffer (CountBound 2)
      [Publish (BodyOther ''a''), Publish (BodyOther ''b''), Publish (BodyOther ''c'')]))))
   = [\<lparr>se_offset = 2, se_body = BodyOther ''c''\<rparr>]"
proof -
  obtain gap replay b' where r: "register_subscriber ''s'' (Some 1) 0 [] (snd (run_buffer (CountBound 2)
      [Publish (BodyOther ''a''), Publish (BodyOther ''b''), Publish (BodyOther ''c'')])) = ((gap, replay), b')"
    by (metis prod.collapse)
  from resume_replays_or_reports_gap [OF three_events r [unfolded three_events snd_conv]] r
  show ?thesis by (simp add: stamped_def upt_rec)
qed

text \<open>C25: what a buffer keeps is bounded by its subject. After any operations, the buffer of a session's
  io subject holds at most 1 MiB of data, or one single event, and every other buffer at most 256
  events; the retained events are a suffix of the history with consecutive offsets.\<close>

theorem buffer_stays_bounded:
  assumes "run_buffer (bound_for_subject subj) es = (hist, b)"
  shows "(case subj of
       SessionIo _ \<Rightarrow> sum_list (map (\<lambda>e. session_io_bytes (se_body (re_event e))) (sb_ring b)) \<le> 1024 * 1024
          \<or> length (sb_ring b) \<le> 1
     | _ \<Rightarrow> length (sb_ring b) \<le> 256)
    \<and> (\<exists>k. map re_event (sb_ring b) = drop k (stamped hist))"
proof -
  from run_buffer_inv [OF assms] have inv: "buffer_inv hist b" and bd: "sb_bound b = bound_for_subject subj" by auto
  have "sb_byte_total b = sum_list (map (\<lambda>e. session_io_bytes (se_body (re_event e))) (sb_ring b))"
    if "bound_for_subject subj = BytesBound c" for c
  proof -
    have "map re_bytes (sb_ring b) = map (\<lambda>e. session_io_bytes (se_body (re_event e))) (sb_ring b)"
      using inv bd that by (auto simp: buffer_inv_def entry_bytes_def)
    moreover have "sb_byte_total b = sum_list (map re_bytes (sb_ring b))"
      using inv by (simp add: buffer_inv_def weights_def)
    ultimately show ?thesis by (simp only:)
  qed
  with inv bd show ?thesis
    by (cases subj)
      (auto simp: buffer_inv_def within_bound_def bound_for_subject_def RING_EVENT_CAP_def
        RING_SESSION_IO_BYTE_CAP_def)
qed

theorem buffer_stays_bounded_witness:
  "length (sb_ring (snd (run_buffer (bound_for_subject MaestroEvents) [Publish (BodyOther ''a'')]))) \<le> 256"
  using buffer_stays_bounded [of MaestroEvents "[Publish (BodyOther ''a'')]"]
  by (cases "run_buffer (bound_for_subject MaestroEvents) [Publish (BodyOther ''a'')]") simp


lemmas hub_eval = run_hub_def hub_step_def new_hub_def buffer_eval

definition racing_events :: "hub_event list" where
  "racing_events =
     [PumpPublish (BodyOther ''x''), PumpSend, PumpPublish (BodyOther ''y''), Subscribe (Some 0), PumpSend]"

lemma run_racing:
  "hb_subs (run_hub ''s'' (CountBound 256) racing_events)
     = [(0, 1, [\<lparr>se_offset = 1, se_body = BodyOther ''y''\<rparr>, \<lparr>se_offset = 1, se_body = BodyOther ''y''\<rparr>])]"
  "hb_pending (run_hub ''s'' (CountBound 256) racing_events) = None"
  "hb_hist (run_hub ''s'' (CountBound 256) racing_events) = [BodyOther ''x'', BodyOther ''y'']"
  by (simp_all add: hub_eval racing_events_def)


text \<open>a subscriber can receive an event twice. The pump stores an event under the lock and sends
  it after releasing it: a client that resumes in between has the event in its replay and gets it
  again on the live channel, with the same offset.\<close>

theorem resume_during_publish_duplicates:
  "map (\<lambda>(i, owed, frames). map se_offset frames)
     (hb_subs (run_hub ''s'' (CountBound 256)
        [PumpPublish (BodyOther ''x''), PumpSend, PumpPublish (BodyOther ''y''), Subscribe (Some 0), PumpSend]))
   = [[1, 1]]"
  using run_racing(1) by (simp add: racing_events_def)

text \<open>one acknowledgement speaks for every subscriber. With any subscriber attached, acknowledging
  an offset drops every retained event up to it, whatever the subscribers themselves had
  acknowledged; a client that had consumed less and resumes is told of a gap.\<close>

theorem ack_prunes_past_slow_subscribers:
  assumes "buffer_inv hist b" and "sb_acks b \<noteq> []" and "off < length hist" and "n < off"
    and "0 < off"
  shows "off < sb_floor (ack_offset off b)
     \<and> fst (fst (register_subscriber subj (Some n) i cr (ack_offset off b))) \<noteq> None"
proof -
  let ?b = "b\<lparr>sb_acks := map (\<lambda>(i, a). if a < off then (i, off) else (i, a)) (sb_acks b)\<rparr>"
  have "sb_acks ?b \<noteq> []" using assms(2) by simp
  moreover have "\<forall>m \<in> snd ` set (sb_acks ?b). off \<le> m" by auto
  ultimately have m: "off \<le> Min (snd ` set (sb_acks ?b))" by (subst Min_ge_iff) auto
  have "sb_floor (ack_offset off b) = max (sb_floor ?b) (min (length hist) (Suc (Min (snd ` set (sb_acks ?b)))))"
    using buffer_inv_prune [of hist ?b] assms(1) \<open>sb_acks ?b \<noteq> []\<close> unfolding ack_offset_def buffer_inv_acks
    by presburger
  with m assms(3) have "off < sb_floor (ack_offset off b)" by linarith
  with assms(4,5) show ?thesis by (auto simp: register_subscriber_def Let_def)
qed

theorem ack_prunes_past_slow_subscribers_witness:
  "fst (fst (register_subscriber ''s'' (Some 0) 9 [] (ack_offset 1 (snd (run_buffer (CountBound 256)
      [Publish (BodyOther ''a''), Publish (BodyOther ''b''), Register (Some 0) 7, Register (Some 1) 8]))))) \<noteq> None"
proof -
  let ?es = "[Publish (BodyOther ''a''), Publish (BodyOther ''b''), Register (Some 0) 7, Register (Some 1) 8]"
  obtain hist b where r: "run_buffer (CountBound 256) ?es = (hist, b)" by fastforce
  then have "hist = [BodyOther ''a'', BodyOther ''b'']" "sb_acks b = [(8, 1), (7, 0)]"
    by (auto simp: buffer_eval)
  with ack_prunes_past_slow_subscribers [OF conjunct1 [OF run_buffer_inv [OF r]], of 1 0] r
  show ?thesis by simp
qed

text \<open>a cursor from another life of the process is not a gap. Offsets restart at 0 with the
  process; a client that resumes with a cursor at or above the current counter is accepted with an
  empty replay and no gap notice, though it never saw the events of this life.\<close>

theorem future_cursor_not_reported:
  assumes "run_buffer bound es = (hist, b)" and "length hist \<le> n"
  shows "fst (register_subscriber subj (Some n) i cr b) = (None, [])"
proof -
  from run_buffer_inv [OF assms(1)] have inv: "buffer_inv hist b" ..
  then have "sb_floor b \<le> length hist" by (simp add: buffer_inv_def)
  with assms(2) replay_after_stamped [OF inv, of n] show ?thesis
    by (simp add: register_subscriber_def Let_def)
qed

theorem future_cursor_not_reported_witness:
  "fst (register_subscriber ''s'' (Some 1000) 0 [] (snd (run_buffer (CountBound 256) [Publish (BodyOther ''a'')])))
     = (None, [])"
proof -
  obtain hist b where r: "run_buffer (CountBound 256) [Publish (BodyOther ''a'')] = (hist, b)" by fastforce
  then have "length hist \<le> 1000" by (auto simp: buffer_eval)
  from future_cursor_not_reported [OF r this] r show ?thesis by simp
qed

end
