(* ===== verification/Supervisor.thy ===== *)
theory Supervisor
  imports Prelude
begin

text \<open>
  The restart policy of the root supervisor (\<open>crates/core/src/supervisor.rs\<close>): the crash ring
  buffer, \<open>decide_restart\<close>, and the loop of \<open>run_supervised\<close> with its shutdown points. Instants
  are milliseconds of the monotonic clock; \<open>duration_since\<close> saturates at zero, as subtraction of
  natural numbers does.
\<close>

definition BACKOFF_TABLE :: "nat list" where
  "BACKOFF_TABLE = [1000, 2000, 4000, 8000, 16000, 32000, 32000]"

definition RESTART_WINDOW :: nat where "RESTART_WINDOW = 60000"
definition MAX_RESTARTS_IN_WINDOW :: nat where "MAX_RESTARTS_IN_WINDOW = 10"
definition IMMEDIATE_RESTART_LIMIT :: nat where "IMMEDIATE_RESTART_LIMIT = 3"
definition RESTART_HISTORY_CAP :: nat where "RESTART_HISTORY_CAP = 16"

datatype actor_state =
    Starting
  | ActorRunning
  | Restarting nat
  | ActorFailed string

record restart_history =
  rh_entries :: "nat list"
  rh_total :: nat

definition empty_history :: restart_history where
  "empty_history = \<lparr>rh_entries = [], rh_total = 0\<rparr>"

definition record_crash :: "restart_history \<Rightarrow> nat \<Rightarrow> restart_history" where
  "record_crash h now =
     (let entries = (if length (rh_entries h) = RESTART_HISTORY_CAP then tl (rh_entries h) else rh_entries h)
      in h\<lparr>rh_entries := entries @ [now], rh_total := min u64_max (rh_total h + 1)\<rparr>)"

definition in_window :: "nat \<Rightarrow> nat list \<Rightarrow> nat" where
  "in_window now entries = length (filter (\<lambda>t. now - t \<le> RESTART_WINDOW) entries)"

definition count_in_window :: "nat \<Rightarrow> restart_history \<Rightarrow> nat" where
  "count_in_window now h = in_window now (rh_entries h)"

definition backoff_for :: "nat \<Rightarrow> nat" where
  "backoff_for count =
     (if count \<le> IMMEDIATE_RESTART_LIMIT then 0
      else let idx = count - (IMMEDIATE_RESTART_LIMIT + 1)
           in BACKOFF_TABLE ! min idx (length BACKOFF_TABLE - 1))"

text \<open>Whether to restart, the state the observers read, and the new history.\<close>

definition decide_restart :: "nat \<Rightarrow> string \<Rightarrow> restart_history \<Rightarrow> bool \<times> actor_state \<times> restart_history" where
  "decide_restart now reason h =
     (let h = record_crash h now;
          count = count_in_window now h
      in if MAX_RESTARTS_IN_WINDOW < count then (False, ActorFailed reason, h)
         else (True, Restarting (backoff_for count), h))"

interpretation history: bounded_log record_crash rh_entries RESTART_HISTORY_CAP
proof
  show "0 < RESTART_HISTORY_CAP" by (simp add: RESTART_HISTORY_CAP_def)
next
  fix h :: restart_history and x
  assume "length (rh_entries h) \<le> RESTART_HISTORY_CAP"
  then show "rh_entries (record_crash h x) = take_last RESTART_HISTORY_CAP (rh_entries h @ [x])"
    by (cases "rh_entries h") (auto simp: record_crash_def take_last_def RESTART_HISTORY_CAP_def Let_def)
qed

section \<open>The wrapper task\<close>

datatype actor_outcome = CleanExit | ReturnedErr string | Panicked string

datatype wrapper_phase = AtTop | InRun | InBackoff nat | Gone

record wrapper =
  w_phase :: wrapper_phase
  w_state :: actor_state
  w_history :: restart_history
  w_stop :: bool
  w_starts :: nat

definition new_wrapper :: wrapper where
  "new_wrapper = \<lparr>w_phase = AtTop, w_state = Starting, w_history = empty_history, w_stop = False, w_starts = 0\<rparr>"

datatype wrapper_event =
    StartActor                       \<comment> \<open>the head of the loop\<close>
  | ActorEnded nat actor_outcome     \<comment> \<open>the actor's future resolved, at an instant\<close>
  | BackoffElapsed
  | StopRequested
  | StopObserved                     \<comment> \<open>\<open>stop.cancelled()\<close> won a \<open>select\<close>\<close>

definition crashed_at :: "nat \<Rightarrow> string \<Rightarrow> wrapper \<Rightarrow> wrapper" where
  "crashed_at now reason w =
     (let (restart, state, h) = decide_restart now reason (w_history w);
          w = w\<lparr>w_state := state, w_history := h\<rparr>
      in if restart
         then (case state of
                 Restarting backoff \<Rightarrow> w\<lparr>w_phase := if 0 < backoff then InBackoff backoff else AtTop\<rparr>
               | _ \<Rightarrow> w\<lparr>w_phase := AtTop\<rparr>)
         else w\<lparr>w_phase := Gone\<rparr>)"

definition wrapper_step :: "wrapper \<Rightarrow> wrapper_event \<Rightarrow> wrapper" where
  "wrapper_step w e =
     (case (w_phase w, e) of
        (AtTop, StartActor) \<Rightarrow>
          (if w_stop w then w\<lparr>w_phase := Gone\<rparr>
           else w\<lparr>w_phase := InRun, w_state := ActorRunning, w_starts := w_starts w + 1\<rparr>)
      | (InRun, ActorEnded now CleanExit) \<Rightarrow> w\<lparr>w_phase := Gone\<rparr>
      | (InRun, ActorEnded now (ReturnedErr reason)) \<Rightarrow> crashed_at now reason w
      | (InRun, ActorEnded now (Panicked reason)) \<Rightarrow> crashed_at now reason w
      | (InBackoff b, BackoffElapsed) \<Rightarrow> w\<lparr>w_phase := AtTop\<rparr>
      | (InRun, StopObserved) \<Rightarrow> (if w_stop w then w\<lparr>w_phase := Gone\<rparr> else w)
      | (InBackoff b, StopObserved) \<Rightarrow> (if w_stop w then w\<lparr>w_phase := Gone\<rparr> else w)
      | (_, StopRequested) \<Rightarrow> w\<lparr>w_stop := True\<rparr>
      | _ \<Rightarrow> w)"

section \<open>Lemmas\<close>

lemma filter_take_last_sorted:
  assumes "sorted xs" and "\<And>a b. a \<le> b \<Longrightarrow> P a \<Longrightarrow> P b"
  shows "length (filter P (take_last n xs)) = min n (length (filter P xs))"
proof (cases "length xs \<le> n")
  case True
  then have "length (filter P xs) \<le> n" using length_filter_le order_trans by blast
  with True show ?thesis by (simp add: take_last_all)
next
  case False
  let ?ys = "take (length xs - n) xs" and ?zs = "take_last n xs"
  have xs: "xs = ?ys @ ?zs" by (simp add: take_last_def)
  have len: "length ?zs = n" using False by simp
  have f: "filter P xs = filter P ?ys @ filter P ?zs" by (subst xs) (rule filter_append)
  show ?thesis
  proof (cases "filter P ?ys = []")
    case True
    then have "filter P xs = filter P ?zs" using f by simp
    moreover have "length (filter P ?zs) \<le> n" using length_filter_le [of P ?zs] len by simp
    ultimately show ?thesis by simp
  next
    case ne: False
    then obtain y where y: "y \<in> set ?ys" "P y" by (metis filter_empty_conv)
    have "sorted (?ys @ ?zs)" using assms(1) xs by simp
    then have "\<forall>z\<in>set ?zs. y \<le> z" using y(1) unfolding sorted_append by blast
    then have "filter P ?zs = ?zs" using assms(2) y(2) by (intro filter_True) blast
    with f len show ?thesis by simp
  qed
qed

definition wrapper_inv :: "wrapper \<Rightarrow> bool" where
  "wrapper_inv w \<longleftrightarrow>
     (case w_phase w of
        AtTop \<Rightarrow> (\<forall>r. w_state w \<noteq> ActorFailed r)
      | InRun \<Rightarrow> w_state w = ActorRunning
      | InBackoff b \<Rightarrow> w_state w = Restarting b \<and> 0 < b \<and> b \<le> 32000
      | Gone \<Rightarrow> True)
     \<and> length (rh_entries (w_history w)) \<le> RESTART_HISTORY_CAP"

lemma backoff_le: "backoff_for n \<le> 32000"
proof (cases "n \<le> IMMEDIATE_RESTART_LIMIT")
  case False
  let ?i = "min (n - (IMMEDIATE_RESTART_LIMIT + 1)) (length BACKOFF_TABLE - 1)"
  have "?i < length BACKOFF_TABLE" by (simp add: BACKOFF_TABLE_def)
  then have "BACKOFF_TABLE ! ?i \<in> set BACKOFF_TABLE" by (rule nth_mem)
  moreover have "\<forall>x\<in>set BACKOFF_TABLE. x \<le> 32000" by (simp add: BACKOFF_TABLE_def)
  ultimately have "BACKOFF_TABLE ! ?i \<le> 32000" by blast
  with False show ?thesis by (simp add: backoff_for_def Let_def)
qed (simp add: backoff_for_def)

lemma wrapper_inv_crash:
  assumes "wrapper_inv w"
  shows "wrapper_inv (crashed_at now reason w)"
proof -
  have "length (rh_entries (record_crash (w_history w) now)) \<le> RESTART_HISTORY_CAP"
    using assms history.push_length by (simp add: wrapper_inv_def)
  then show ?thesis
    using backoff_le by (auto simp: crashed_at_def decide_restart_def wrapper_inv_def Let_def)
qed

lemma wrapper_inv_step:
  assumes "wrapper_inv w"
  shows "wrapper_inv (wrapper_step w e)"
proof (cases "\<exists>now out. e = ActorEnded now out")
  case True
  then obtain now out where e: "e = ActorEnded now out" by blast
  have "wrapper_inv (w\<lparr>w_phase := Gone\<rparr>)" using assms by (simp add: wrapper_inv_def)
  with e assms show ?thesis
    by (cases "w_phase w"; cases out) (simp_all add: wrapper_step_def wrapper_inv_crash)
next
  case False
  with assms show ?thesis
    by (cases "w_phase w"; cases e) (simp_all add: wrapper_step_def wrapper_inv_def)
qed

interpretation wrapper: event_machine wrapper_step wrapper_inv
  by unfold_locales (rule wrapper_inv_step)

section \<open>Properties\<close>

text \<open>C17: sixteen slots decide like an unbounded memory. For crashes recorded in order of time, the
  decision at the next crash, with the crash counted, is to give up exactly when more than ten of
  all the crashes ever seen fall in the last 60 seconds, and otherwise to restart after the backoff
  of that full count.\<close>

theorem restart_decision_matches_full_history:
  assumes "sorted (ts @ [now])"
  shows "let n = in_window now (ts @ [now]);
             (restart, state, h) = decide_restart now reason (fold (\<lambda>t h. record_crash h t) ts empty_history)
         in (restart \<longleftrightarrow> n \<le> 10) \<and> state = (if n \<le> 10 then Restarting (backoff_for n) else ActorFailed reason)"
proof -
  let ?h = "fold (\<lambda>t h. record_crash h t) ts empty_history"
  have e: "rh_entries (record_crash ?h now) = take_last 16 (ts @ [now])"
    using history.pushes_contents [of empty_history "ts @ [now]"]
    by (simp add: empty_history_def RESTART_HISTORY_CAP_def)
  have "count_in_window now (record_crash ?h now) = min 16 (in_window now (ts @ [now]))"
    unfolding count_in_window_def in_window_def e
    by (rule filter_take_last_sorted [OF assms]) simp
  then show ?thesis
    by (auto simp: decide_restart_def Let_def MAX_RESTARTS_IN_WINDOW_def)
qed

theorem restart_decision_matches_full_history_witness:
  "fst (decide_restart 100 ''boom'' (fold (\<lambda>t h. record_crash h t) [0, 10, 20, 30, 40, 50, 60, 70, 80, 90] empty_history))
     = False"
  using restart_decision_matches_full_history [of "[0, 10, 20, 30, 40, 50, 60, 70, 80, 90]" 100 "''boom''"]
  by (simp add: in_window_def RESTART_WINDOW_def Let_def split: prod.splits)

text \<open>the backoff schedule. The first three crashes within the window restart at once, the fourth
  to the tenth after 1, 2, 4, 8, 16, 32 and 32 seconds, and no count ever waits longer.\<close>

theorem backoff_schedule:
  "map backoff_for [1, 2, 3, 4, 5, 6, 7, 8, 9, 10] = [0, 0, 0, 1000, 2000, 4000, 8000, 16000, 32000, 32000] \<and> backoff_for n \<le> 32000"
proof
  show "map backoff_for [1, 2, 3, 4, 5, 6, 7, 8, 9, 10] = [0, 0, 0, 1000, 2000, 4000, 8000, 16000, 32000, 32000]"
    by (simp add: backoff_for_def BACKOFF_TABLE_def IMMEDIATE_RESTART_LIMIT_def)
  show "backoff_for n \<le> 32000" by (rule backoff_le)
qed

text \<open>what observers read is what the wrapper does. For every sequence of starts, exits, crashes,
  sleeps and stop requests: an actor shown as failed has no wrapper left and is never started again
  by anything that follows, one that is being run is shown as running, and one that waits is shown
  with the backoff it waits for, of at most 32 seconds.\<close>

theorem wrapper_state_truthful:
  "let w = fold (\<lambda>e w. wrapper_step w e) es new_wrapper in
     (w_phase w = InRun \<longrightarrow> w_state w = ActorRunning)
     \<and> (\<forall>b. w_phase w = InBackoff b \<longrightarrow> w_state w = Restarting b \<and> b \<le> 32000)
     \<and> (\<forall>r. w_state w = ActorFailed r \<longrightarrow>
          w_starts (fold (\<lambda>e w. wrapper_step w e) later w) = w_starts w
          \<and> w_state (fold (\<lambda>e w. wrapper_step w e) later w) = ActorFailed r)"
proof -
  let ?w = "fold (\<lambda>e w. wrapper_step w e) es new_wrapper"
  have inv: "wrapper_inv ?w"
    by (rule wrapper.run_inv)
      (simp add: wrapper_inv_def new_wrapper_def empty_history_def)
  have gone: "w_phase w = Gone \<Longrightarrow> w_starts (fold (\<lambda>e w. wrapper_step w e) later w) = w_starts w
      \<and> w_state (fold (\<lambda>e w. wrapper_step w e) later w) = w_state w" for w
  proof (induction later arbitrary: w)
    case (Cons e es)
    have "w_phase (wrapper_step w e) = Gone \<and> w_starts (wrapper_step w e) = w_starts w
        \<and> w_state (wrapper_step w e) = w_state w"
      using Cons.prems by (cases e) (simp_all add: wrapper_step_def)
    with Cons.IH show ?case by simp
  qed simp
  have "w_state ?w = ActorFailed r \<Longrightarrow> w_phase ?w = Gone" for r
    using inv by (cases "w_phase ?w") (simp_all add: wrapper_inv_def)
  with inv gone [of ?w] show ?thesis unfolding Let_def wrapper_inv_def by (cases "w_phase ?w") auto
qed

text \<open>Eleven crashes in a tenth of a second, each after a start.\<close>

definition crash_run :: "nat list \<Rightarrow> wrapper_event list" where
  "crash_run ts = concat (map (\<lambda>t. [StartActor, ActorEnded t (Panicked ''boom''), BackoffElapsed]) ts)"

lemmas wrapper_eval = crash_run_def wrapper_step_def crashed_at_def decide_restart_def record_crash_def
  count_in_window_def in_window_def RESTART_WINDOW_def RESTART_HISTORY_CAP_def MAX_RESTARTS_IN_WINDOW_def
  backoff_for_def IMMEDIATE_RESTART_LIMIT_def BACKOFF_TABLE_def u64_max_def Let_def

lemma five_crashes:
  "fold (\<lambda>e w. wrapper_step w e) (crash_run [0, 10, 20, 30, 40]) new_wrapper
   = \<lparr>w_phase = AtTop, w_state = Restarting 2000, w_history = \<lparr>rh_entries = [0, 10, 20, 30, 40], rh_total = 5\<rparr>,
      w_stop = False, w_starts = 5\<rparr>"
  by (simp add: wrapper_eval new_wrapper_def empty_history_def)

lemma eleven_crashes:
  "let w = fold (\<lambda>e w. wrapper_step w e) (crash_run [0, 10, 20, 30, 40] @ crash_run [50, 60, 70, 80, 90, 100]) new_wrapper
   in w_state w = ActorFailed ''boom'' \<and> w_starts w = 11"
  unfolding fold_append o_def five_crashes
  by (simp add: wrapper_eval)

theorem wrapper_state_truthful_witness:
  "let es = crash_run [0, 10, 20, 30, 40] @ crash_run [50, 60, 70, 80, 90, 100];
       w = fold (\<lambda>e w. wrapper_step w e) es new_wrapper
   in w_starts w = 11 \<and> w_starts (fold (\<lambda>e w. wrapper_step w e) [StartActor] w) = 11"
  using wrapper_state_truthful
      [of "crash_run [0, 10, 20, 30, 40] @ crash_run [50, 60, 70, 80, 90, 100]" "[StartActor]"] eleven_crashes
  by (simp only: Let_def)

end
