(* ===== verification/Settings.thy ===== *)
theory Settings
  imports Managed Tables "HOL-Library.AList"
begin

text \<open>
  The layered settings of a workspace (\<open>crates/core/src/settings\<close>): the readers of the checked-in
  files and of the rows of the database (\<open>workspace_file.rs\<close>, \<open>resolver.rs\<close>), the per-field resolver
  and what the start-up builds and audits with it (\<open>boot.rs\<close>).

  A \<open>BTreeMap\<close> is an association list, read with \<open>map_of\<close> and inserted into with \<open>AList.update\<close>; where
  the code enumerates the keys they are sorted here. The parsers of JSON and TOML, the derived
  decoder of the copy rules and of the per-machine file are arguments (\<open>parsers\<close>), and so is the
  outcome of reading a file.
\<close>

section \<open>Fields, sources, values\<close>

definition ACTION_KEYS :: "string list" where
  "ACTION_KEYS = [''code_review'', ''pr_create'', ''error_fix'', ''conflict_resolve'', ''branch_rename'',
     ''commit_message'', ''digest_summary'']"

datatype settings_source = FromManaged | FromCheckedIn | FromLocalDb | FromDefault

fun as_str_settings_source :: "settings_source \<Rightarrow> string" where
  "as_str_settings_source FromManaged = ''managed''"
| "as_str_settings_source FromCheckedIn = ''checked_in''"
| "as_str_settings_source FromLocalDb = ''local_db''"
| "as_str_settings_source FromDefault = ''default''"

record 'a resolved_setting =
  rs_value :: 'a
  rs_source :: settings_source

definition resolved_as :: "'a \<Rightarrow> settings_source \<Rightarrow> 'a resolved_setting" where
  "resolved_as v s = \<lparr>rs_value = v, rs_source = s\<rparr>"

lemma resolved_as_simps [simp]: "rs_value (resolved_as v s) = v" "rs_source (resolved_as v s) = s"
  by (simp_all add: resolved_as_def)

datatype files_to_copy_mode = CopyFile | SymlinkFile | ExcludeFile

record files_to_copy_rule =
  fr_pattern :: string
  fr_mode :: files_to_copy_mode

datatype settings_field =
    Script string
  | RunScriptMode
  | EnterpriseDataPrivacy
  | DefaultPermissionMode
  | DefaultDeliberationMode
  | DefaultReasoningLevel
  | FilesToCopyRules
  | WritablePathsOutsideWorktree
  | ActionPref string string

fun opt_out_name :: "settings_field \<Rightarrow> string" where
  "opt_out_name (Script _) = ''scripts''"
| "opt_out_name RunScriptMode = ''run_script_mode''"
| "opt_out_name EnterpriseDataPrivacy = ''enterprise_data_privacy''"
| "opt_out_name DefaultPermissionMode = ''default_permission_mode''"
| "opt_out_name DefaultDeliberationMode = ''default_deliberation_mode''"
| "opt_out_name DefaultReasoningLevel = ''default_reasoning_level''"
| "opt_out_name FilesToCopyRules = ''files_to_copy_rules''"
| "opt_out_name WritablePathsOutsideWorktree = ''writable_paths_outside_worktree''"
| "opt_out_name (ActionPref repo action) = ''action_prefs.'' @ action"

fun audit_name :: "settings_field \<Rightarrow> string" where
  "audit_name (Script k) = ''scripts.'' @ k"
| "audit_name (ActionPref repo action) = ''action_prefs.'' @ action"
| "audit_name other = opt_out_name other"

section \<open>The checked-in files\<close>

record checked_in_settings =
  ci_scripts :: "(string \<times> string) list"
  ci_run_script_mode :: "string option"
  ci_enterprise_data_privacy :: "bool option"
  ci_default_permission_mode :: "string option"
  ci_default_deliberation_mode :: "string option"
  ci_default_reasoning_level :: "string option"
  ci_files_to_copy_rules :: "files_to_copy_rule list option"
  ci_writable_paths :: "string list option"

definition empty_checked_in :: checked_in_settings where
  "empty_checked_in = \<lparr>ci_scripts = [], ci_run_script_mode = None, ci_enterprise_data_privacy = None,
     ci_default_permission_mode = None, ci_default_deliberation_mode = None, ci_default_reasoning_level = None,
     ci_files_to_copy_rules = None, ci_writable_paths = None\<rparr>"

record settings_load =
  wl_settings :: checked_in_settings
  wl_violations :: "string list"

text \<open>\<open>toml::Value\<close>; floats and dates keep their text.\<close>

datatype toml =
    TString string
  | TInteger int
  | TFloat string
  | TBoolean bool
  | TDatetime string
  | TArray "toml list"
  | TTable "(string \<times> toml) list"

fun toml_as_str :: "toml \<Rightarrow> string option" where
  "toml_as_str (TString s) = Some s"
| "toml_as_str _ = None"

fun toml_as_table :: "toml \<Rightarrow> (string \<times> toml) list option" where
  "toml_as_table (TTable t) = Some t"
| "toml_as_table _ = None"

record parsers =
  sp_json :: "string \<Rightarrow> string + json"
  sp_toml :: "string \<Rightarrow> string + toml"
  sp_rules :: "json \<Rightarrow> string + files_to_copy_rule list"
  sp_opt_out :: "string \<Rightarrow> string + (string \<times> string list) list"

text \<open>
  The scan of \<open>strip_jsonc_line_comments\<close>: its two flags, and the inner loop that drops a comment up
  to the newline, which it keeps.
\<close>

fun skip_comment :: "string \<Rightarrow> string" where
  "skip_comment [] = []"
| "skip_comment (c # cs) = (if c = CHR 0x0A then c # cs else skip_comment cs)"

lemma skip_comment_length: "length (skip_comment cs) \<le> length cs"
  by (induction cs) auto

function strip_scan :: "bool \<Rightarrow> bool \<Rightarrow> string \<Rightarrow> string" where
  "strip_scan in_string escaped [] = []"
| "strip_scan in_string escaped (c # cs) =
     (if in_string then
        c # (if escaped then strip_scan True False cs
             else if c = CHR 0x5C then strip_scan True True cs
             else if c = CHR 0x22 then strip_scan False escaped cs
             else strip_scan True escaped cs)
      else if c = CHR 0x22 then c # strip_scan True escaped cs
      else if c = CHR ''/'' \<and> (case cs of c' # _ \<Rightarrow> c' = CHR ''/'' | [] \<Rightarrow> False) then
        (case skip_comment cs of
           [] \<Rightarrow> []
         | nl # rest \<Rightarrow> CHR 0x0A # strip_scan False escaped rest)
      else c # strip_scan False escaped cs)"
  by pat_completeness auto
termination
proof (relation "measure (\<lambda>(i, e, cs). length cs)")
  fix in_string escaped c cs nl rest
  assume "skip_comment cs = nl # rest"
  with skip_comment_length [of cs] show
    "((False, escaped, rest), (in_string, escaped, c # cs)) \<in> measure (\<lambda>(i, e, cs). length cs)"
    by simp
qed auto

definition strip_jsonc_line_comments :: "string \<Rightarrow> string" where
  "strip_jsonc_line_comments input = strip_scan False False input"

text \<open>The field readers: the value and the violations they push.\<close>

definition reverted :: "string \<Rightarrow> string \<Rightarrow> string" where
  "reverted field what = field @ '' must be '' @ what @ ''; reverted to lower layer''"

definition opt_string_field :: "(string \<times> json) list \<Rightarrow> string \<Rightarrow> string option \<times> string list" where
  "opt_string_field obj field =
     (case map_of obj field of
        None \<Rightarrow> (None, [])
      | Some JNull \<Rightarrow> (None, [])
      | Some (JString s) \<Rightarrow> (Some s, [])
      | Some _ \<Rightarrow> (None, [reverted field ''a string'']))"

definition opt_bool_field :: "(string \<times> json) list \<Rightarrow> string \<Rightarrow> bool option \<times> string list" where
  "opt_bool_field obj field =
     (case map_of obj field of
        None \<Rightarrow> (None, [])
      | Some JNull \<Rightarrow> (None, [])
      | Some (JBool b) \<Rightarrow> (Some b, [])
      | Some _ \<Rightarrow> (None, [reverted field ''a boolean'']))"

fun collect_strings :: "string \<Rightarrow> json list \<Rightarrow> string list \<Rightarrow> string list option \<times> string list" where
  "collect_strings field [] out = (Some out, [])"
| "collect_strings field (item # items) out =
     (case as_str item of
        Some s \<Rightarrow> collect_strings field items (out @ [s])
      | None \<Rightarrow> (None, [reverted field ''an array of strings'']))"

definition opt_string_array_field :: "(string \<times> json) list \<Rightarrow> string \<Rightarrow> string list option \<times> string list" where
  "opt_string_array_field obj field =
     (case map_of obj field of
        None \<Rightarrow> (None, [])
      | Some JNull \<Rightarrow> (None, [])
      | Some (JArray items) \<Rightarrow> collect_strings field items []
      | Some _ \<Rightarrow> (None, [reverted field ''an array of strings'']))"

fun scripts_loop :: "(string \<times> json) list \<Rightarrow> (string \<times> string) list \<Rightarrow> (string \<times> string) list \<times> string list" where
  "scripts_loop [] scripts = (scripts, [])"
| "scripts_loop ((k, sv) # entries) scripts =
     (case as_str sv of
        Some s \<Rightarrow> scripts_loop entries (AList.update k s scripts)
      | None \<Rightarrow>
          (case scripts_loop entries scripts of
             (out, v) \<Rightarrow> (out, reverted (''scripts.'' @ k) ''a string'' # v)))"

definition scripts_field :: "(string \<times> json) list \<Rightarrow> (string \<times> string) list \<times> string list" where
  "scripts_field obj =
     (case map_of obj ''scripts'' of
        None \<Rightarrow> ([], [])
      | Some v \<Rightarrow>
          (case as_object v of
             Some entries \<Rightarrow> scripts_loop entries []
           | None \<Rightarrow> ([], [reverted ''scripts'' ''an object''])))"

definition parse_files_to_copy_rules ::
  "parsers \<Rightarrow> json \<Rightarrow> files_to_copy_rule list option \<times> string list" where
  "parse_files_to_copy_rules ps value =
     (case sp_rules ps value of
        Inr rules \<Rightarrow> (Some rules, [])
      | Inl e \<Rightarrow> (None, [''files_to_copy_rules must be a list of {pattern, mode} ('' @ e
          @ ''); reverted to lower layer'']))"

definition copy_rules_field ::
  "parsers \<Rightarrow> (string \<times> json) list \<Rightarrow> files_to_copy_rule list option \<times> string list" where
  "copy_rules_field ps obj =
     (case map_of obj ''files_to_copy_rules'' of
        None \<Rightarrow> (None, [])
      | Some v \<Rightarrow> parse_files_to_copy_rules ps v)"

definition parse_workspace_settings_object :: "parsers \<Rightarrow> (string \<times> json) list \<Rightarrow> settings_load" where
  "parse_workspace_settings_object ps obj =
     (let (scripts, v0) = scripts_field obj;
          (run_mode, v1) = opt_string_field obj ''run_script_mode'';
          (privacy, v2) = opt_bool_field obj ''enterprise_data_privacy'';
          (mode, v3) = opt_string_field obj ''default_permission_mode'';
          (deliberation, v4) = opt_string_field obj ''default_deliberation_mode'';
          (reasoning, v5) = opt_string_field obj ''default_reasoning_level'';
          (writable, v6) = opt_string_array_field obj ''writable_paths_outside_worktree'';
          (rules, v7) = copy_rules_field ps obj
      in \<lparr>wl_settings =
            \<lparr>ci_scripts = scripts, ci_run_script_mode = run_mode, ci_enterprise_data_privacy = privacy,
             ci_default_permission_mode = mode, ci_default_deliberation_mode = deliberation,
             ci_default_reasoning_level = reasoning, ci_files_to_copy_rules = rules, ci_writable_paths = writable\<rparr>,
          wl_violations = v0 @ v1 @ v2 @ v3 @ v4 @ v5 @ v6 @ v7\<rparr>)"

definition parse_workspace_settings_jsonc :: "parsers \<Rightarrow> string \<Rightarrow> settings_load" where
  "parse_workspace_settings_jsonc ps raw =
     (case sp_json ps (strip_jsonc_line_comments raw) of
        Inl e \<Rightarrow> \<lparr>wl_settings = empty_checked_in,
          wl_violations = [''workspace_settings.json is not valid jsonc: '' @ e]\<rparr>
      | Inr value \<Rightarrow>
          (case as_object value of
             None \<Rightarrow> \<lparr>wl_settings = empty_checked_in,
               wl_violations = [''workspace_settings.json top level must be an object'']\<rparr>
           | Some obj \<Rightarrow> parse_workspace_settings_object ps obj))"

definition load_workspace_settings_file :: "parsers \<Rightarrow> read_outcome \<Rightarrow> settings_load" where
  "load_workspace_settings_file ps rd =
     (case rd of
        Contents raw \<Rightarrow> parse_workspace_settings_jsonc ps raw
      | Absent \<Rightarrow> \<lparr>wl_settings = empty_checked_in, wl_violations = []\<rparr>
      | Unreadable e \<Rightarrow> \<lparr>wl_settings = empty_checked_in,
          wl_violations = [''workspace_settings.json read failed: '' @ e]\<rparr>)"

text \<open>The loop over the table of \<open>action_prefs.toml\<close>.\<close>

fun action_prefs_loop :: "(string \<times> toml) list \<Rightarrow> (string \<times> string) list \<Rightarrow> (string \<times> string) list \<times> string list" where
  "action_prefs_loop [] prefs = (prefs, [])"
| "action_prefs_loop ((k, v) # entries) prefs =
     (if \<not> list_ex (\<lambda>a. a = k) ACTION_KEYS then
        (case action_prefs_loop entries prefs of
           (out, vs) \<Rightarrow> (out, (''action_prefs.toml: unknown action key '' @ [CHR 0x27] @ k @ [CHR 0x27] @ ''; ignored'') # vs))
      else
        (case toml_as_str v of
           Some s \<Rightarrow> action_prefs_loop entries (AList.update k s prefs)
         | None \<Rightarrow>
             (case action_prefs_loop entries prefs of
                (out, vs) \<Rightarrow> (out, (''action_prefs.toml: '' @ [CHR 0x27] @ k @ [CHR 0x27]
                   @ '' must be a string; reverted to lower layer'') # vs))))"

definition parse_action_prefs_toml :: "parsers \<Rightarrow> string \<Rightarrow> (string \<times> string) list \<times> string list" where
  "parse_action_prefs_toml ps raw =
     (case sp_toml ps raw of
        Inl e \<Rightarrow> ([], [''action_prefs.toml is not valid TOML: '' @ e])
      | Inr value \<Rightarrow>
          (case toml_as_table value of
             None \<Rightarrow> ([], [''action_prefs.toml top level must be a table''])
           | Some table \<Rightarrow> action_prefs_loop table []))"

definition load_action_prefs_file :: "parsers \<Rightarrow> read_outcome \<Rightarrow> (string \<times> string) list \<times> string list" where
  "load_action_prefs_file ps rd =
     (case rd of
        Contents raw \<Rightarrow> parse_action_prefs_toml ps raw
      | Absent \<Rightarrow> ([], [])
      | Unreadable e \<Rightarrow> ([], [''action_prefs.toml read failed: '' @ e]))"

text \<open>The per-machine file: workspaces and the fields their checked-in layer is skipped for.\<close>

definition parse_opt_out :: "parsers \<Rightarrow> string \<Rightarrow> (string \<times> string list) list" where
  "parse_opt_out ps raw =
     (case sp_opt_out ps raw of
        Inl e \<Rightarrow> []
      | Inr parsed \<Rightarrow> filter (\<lambda>(k, skipped). skipped \<noteq> []) parsed)"

definition load_opt_out :: "parsers \<Rightarrow> read_outcome \<Rightarrow> (string \<times> string list) list" where
  "load_opt_out ps rd = (case rd of Contents raw \<Rightarrow> parse_opt_out ps raw | Absent \<Rightarrow> [] | Unreadable e \<Rightarrow> [])"

definition is_opted_out :: "(string \<times> string list) list \<Rightarrow> string \<Rightarrow> string \<Rightarrow> bool" where
  "is_opted_out cfg workspace_id field =
     (case map_of cfg workspace_id of
        None \<Rightarrow> False
      | Some skipped \<Rightarrow> list_ex (\<lambda>f. f = field) skipped)"

section \<open>The layer of the database\<close>

record local_settings =
  ls_scripts :: "(string \<times> string) list"
  ls_run_script_mode :: "string option"
  ls_enterprise_data_privacy :: "bool option"
  ls_default_permission_mode :: "string option"
  ls_default_deliberation_mode :: "string option"
  ls_default_reasoning_level :: "string option"
  ls_files_to_copy_rules :: "files_to_copy_rule list option"
  ls_writable_paths :: "string list option"

definition empty_local :: local_settings where
  "empty_local = \<lparr>ls_scripts = [], ls_run_script_mode = None, ls_enterprise_data_privacy = None,
     ls_default_permission_mode = None, ls_default_deliberation_mode = None, ls_default_reasoning_level = None,
     ls_files_to_copy_rules = None, ls_writable_paths = None\<rparr>"

definition string_field :: "(string \<times> json) list \<Rightarrow> string \<Rightarrow> string option" where
  "string_field obj key = Option.bind (map_of obj key) as_str"

definition only_strings :: "(string \<times> json) list \<Rightarrow> (string \<times> string) list" where
  "only_strings entries =
     fold (\<lambda>(k, v) out. case as_str v of Some s \<Rightarrow> AList.update k s out | None \<Rightarrow> out) entries []"

definition local_from_json :: "parsers \<Rightarrow> string \<Rightarrow> local_settings" where
  "local_from_json ps raw =
     (case sp_json ps raw of
        Inr (JObject obj) \<Rightarrow>
          \<lparr>ls_scripts =
             (case Option.bind (map_of obj ''scripts'') as_object of
                Some scripts \<Rightarrow> only_strings scripts
              | None \<Rightarrow> []),
           ls_run_script_mode = string_field obj ''run_script_mode'',
           ls_enterprise_data_privacy = Option.bind (map_of obj ''enterprise_data_privacy'') as_bool,
           ls_default_permission_mode = string_field obj ''default_permission_mode'',
           ls_default_deliberation_mode = string_field obj ''default_deliberation_mode'',
           ls_default_reasoning_level = string_field obj ''default_reasoning_level'',
           ls_files_to_copy_rules =
             (case map_of obj ''files_to_copy_rules'' of
                None \<Rightarrow> None
              | Some v \<Rightarrow> (case sp_rules ps v of Inr rules \<Rightarrow> Some rules | Inl e \<Rightarrow> None)),
           ls_writable_paths =
             map_option (List.map_filter as_str)
               (Option.bind (map_of obj ''writable_paths_outside_worktree'') as_array)\<rparr>
      | _ \<Rightarrow> empty_local)"

definition parse_action_prefs_json :: "parsers \<Rightarrow> string \<Rightarrow> (string \<times> string) list" where
  "parse_action_prefs_json ps raw =
     (case sp_json ps raw of
        Inr (JObject obj) \<Rightarrow> only_strings (filter (\<lambda>(k, v). list_ex (\<lambda>a. a = k) ACTION_KEYS) obj)
      | _ \<Rightarrow> [])"

section \<open>The resolver\<close>

record settings_resolver =
  sr_workspace_id :: string
  sr_managed :: managed_policy
  sr_checked_in :: checked_in_settings
  sr_local_db :: local_settings
  sr_repo_checked_in :: "(string \<times> (string \<times> string) list) list"
  sr_repo_local_db :: "(string \<times> (string \<times> string) list) list"
  sr_opted_out :: "string list"

definition new_settings_resolver ::
  "parsers \<Rightarrow> string \<Rightarrow> managed_policy \<Rightarrow> checked_in_settings \<Rightarrow> string \<Rightarrow>
   (string \<times> (string \<times> string) list) list \<Rightarrow> (string \<times> string) list \<Rightarrow> string list \<Rightarrow> settings_resolver" where
  "new_settings_resolver ps wid managed checked_in local_json repo_checked repo_local opted_out =
     \<lparr>sr_workspace_id = wid, sr_managed = managed, sr_checked_in = checked_in,
      sr_local_db = local_from_json ps local_json, sr_repo_checked_in = repo_checked,
      sr_repo_local_db = map (\<lambda>(repo, raw). (repo, parse_action_prefs_json ps raw)) repo_local,
      sr_opted_out = opted_out\<rparr>"

definition checked_in_allowed :: "settings_resolver \<Rightarrow> settings_field \<Rightarrow> bool" where
  "checked_in_allowed r field \<longleftrightarrow> \<not> list_ex (\<lambda>f. f = opt_out_name field) (sr_opted_out r)"

definition enterprise_data_privacy :: "settings_resolver \<Rightarrow> bool resolved_setting" where
  "enterprise_data_privacy r =
     (case mp_enterprise_data_privacy (sr_managed r) of
        Some b \<Rightarrow> resolved_as b FromManaged
      | None \<Rightarrow>
          (case (if checked_in_allowed r EnterpriseDataPrivacy
                 then ci_enterprise_data_privacy (sr_checked_in r) else None) of
             Some b \<Rightarrow> resolved_as b FromCheckedIn
           | None \<Rightarrow>
               (case ls_enterprise_data_privacy (sr_local_db r) of
                  Some b \<Rightarrow> resolved_as b FromLocalDb
                | None \<Rightarrow> resolved_as False FromDefault)))"

text \<open>
  \<open>files_to_copy_rules\<close>, \<open>run_script_mode\<close>, \<open>resolve_simple_string\<close> and \<open>resolve_string_list\<close> are one
  cascade in the code, written out four times.
\<close>

definition two_layers :: "settings_resolver \<Rightarrow> settings_field \<Rightarrow> 'a option \<Rightarrow> 'a option \<Rightarrow> 'a \<Rightarrow> 'a resolved_setting" where
  "two_layers r field checked_in loc d =
     (case (if checked_in_allowed r field then checked_in else None) of
        Some v \<Rightarrow> resolved_as v FromCheckedIn
      | None \<Rightarrow>
          (case loc of
             Some v \<Rightarrow> resolved_as v FromLocalDb
           | None \<Rightarrow> resolved_as d FromDefault))"

definition files_to_copy_rules :: "settings_resolver \<Rightarrow> files_to_copy_rule list resolved_setting" where
  "files_to_copy_rules r = two_layers r FilesToCopyRules
     (ci_files_to_copy_rules (sr_checked_in r)) (ls_files_to_copy_rules (sr_local_db r)) []"

definition run_script_mode :: "settings_resolver \<Rightarrow> string resolved_setting" where
  "run_script_mode r = two_layers r RunScriptMode
     (ci_run_script_mode (sr_checked_in r)) (ls_run_script_mode (sr_local_db r)) ''concurrent''"

definition resolve_simple_string ::
  "settings_resolver \<Rightarrow> settings_field \<Rightarrow> (checked_in_settings \<Rightarrow> string option) \<Rightarrow>
   (local_settings \<Rightarrow> string option) \<Rightarrow> json resolved_setting" where
  "resolve_simple_string r field from_checked_in from_local =
     two_layers r field (map_option JString (from_checked_in (sr_checked_in r)))
       (map_option JString (from_local (sr_local_db r))) JNull"

definition resolve_string_list ::
  "settings_resolver \<Rightarrow> settings_field \<Rightarrow> string list option \<Rightarrow> string list option \<Rightarrow> string list resolved_setting" where
  "resolve_string_list r field checked_in loc = two_layers r field checked_in loc []"

definition scripts :: "settings_resolver \<Rightarrow> (string \<times> string resolved_setting) list" where
  "scripts r =
     (let out = fold (\<lambda>(k, v) out. AList.update k (resolved_as v FromLocalDb) out) (ls_scripts (sr_local_db r)) []
      in if checked_in_allowed r (Script []) then
           fold (\<lambda>(k, v) out. AList.update k (resolved_as v FromCheckedIn) out) (ci_scripts (sr_checked_in r)) out
         else out)"

fun mode_of_text :: "string option \<Rightarrow> permission_mode option" where
  "mode_of_text None = None"
| "mode_of_text (Some s) = (case parse_permission_mode s of Inr m \<Rightarrow> Some m | Inl e \<Rightarrow> None)"

definition default_permission_mode :: "settings_resolver \<Rightarrow> permission_mode option resolved_setting" where
  "default_permission_mode r =
     (case mp_default_permission_mode (sr_managed r) of
        Some m \<Rightarrow> resolved_as (Some m) FromManaged
      | None \<Rightarrow>
          (case (if checked_in_allowed r DefaultPermissionMode
                 then mode_of_text (ci_default_permission_mode (sr_checked_in r)) else None) of
             Some m \<Rightarrow> resolved_as (Some m) FromCheckedIn
           | None \<Rightarrow>
               (case mode_of_text (ls_default_permission_mode (sr_local_db r)) of
                  Some m \<Rightarrow> resolved_as (Some m) FromLocalDb
                | None \<Rightarrow> resolved_as None FromDefault)))"

definition action_pref :: "settings_resolver \<Rightarrow> string \<Rightarrow> string \<Rightarrow> string option resolved_setting" where
  "action_pref r repo_id action =
     (case (if checked_in_allowed r (ActionPref repo_id action)
            then Option.bind (map_of (sr_repo_checked_in r) repo_id) (\<lambda>prefs. map_of prefs action) else None) of
        Some pref \<Rightarrow> resolved_as (Some pref) FromCheckedIn
      | None \<Rightarrow>
          (case Option.bind (map_of (sr_repo_local_db r) repo_id) (\<lambda>prefs. map_of prefs action) of
             Some pref \<Rightarrow> resolved_as (Some pref) FromLocalDb
           | None \<Rightarrow> resolved_as None FromDefault))"

text \<open>The derived serialisers of the copy rules; the keys of a JSON object are sorted.\<close>

fun copy_mode_json :: "files_to_copy_mode \<Rightarrow> json" where
  "copy_mode_json CopyFile = JString ''copy''"
| "copy_mode_json SymlinkFile = JString ''symlink''"
| "copy_mode_json ExcludeFile = JString ''exclude''"

definition copy_rule_json :: "files_to_copy_rule \<Rightarrow> json" where
  "copy_rule_json rule = JObject [(''mode'', copy_mode_json (fr_mode rule)), (''pattern'', JString (fr_pattern rule))]"

fun resolve_field :: "settings_resolver \<Rightarrow> settings_field \<Rightarrow> json resolved_setting" where
  "resolve_field r EnterpriseDataPrivacy =
     (let x = enterprise_data_privacy r in resolved_as (JBool (rs_value x)) (rs_source x))"
| "resolve_field r RunScriptMode =
     (let x = run_script_mode r in resolved_as (JString (rs_value x)) (rs_source x))"
| "resolve_field r DefaultPermissionMode =
     (let x = default_permission_mode r
      in resolved_as (case rs_value x of Some m \<Rightarrow> JString (as_str_mode m) | None \<Rightarrow> JNull) (rs_source x))"
| "resolve_field r DefaultDeliberationMode =
     resolve_simple_string r DefaultDeliberationMode ci_default_deliberation_mode ls_default_deliberation_mode"
| "resolve_field r DefaultReasoningLevel =
     resolve_simple_string r DefaultReasoningLevel ci_default_reasoning_level ls_default_reasoning_level"
| "resolve_field r FilesToCopyRules =
     (let x = files_to_copy_rules r in resolved_as (JArray (map copy_rule_json (rs_value x))) (rs_source x))"
| "resolve_field r WritablePathsOutsideWorktree =
     (let x = resolve_string_list r WritablePathsOutsideWorktree
                (ci_writable_paths (sr_checked_in r)) (ls_writable_paths (sr_local_db r))
      in resolved_as (JArray (map JString (rs_value x))) (rs_source x))"
| "resolve_field r (Script key) =
     (case map_of (scripts r) key of
        Some x \<Rightarrow> resolved_as (JString (rs_value x)) (rs_source x)
      | None \<Rightarrow> resolved_as JNull FromDefault)"
| "resolve_field r (ActionPref repo_id action) =
     (let x = action_pref r repo_id action
      in resolved_as (case rs_value x of Some s \<Rightarrow> JString s | None \<Rightarrow> JNull) (rs_source x))"

section \<open>Start-up\<close>

definition sorted_keys :: "string list \<Rightarrow> string list" where
  "sorted_keys ks = remdups_adj (sort_by_key str_key ks)"

definition boot_fields :: "settings_resolver \<Rightarrow> settings_field list" where
  "boot_fields r =
     [RunScriptMode, EnterpriseDataPrivacy, DefaultPermissionMode, DefaultDeliberationMode, DefaultReasoningLevel,
      FilesToCopyRules, WritablePathsOutsideWorktree]
     @ map Script (sorted_keys (map fst (ci_scripts (sr_checked_in r)) @ map fst (ls_scripts (sr_local_db r))))
     @ concat (map (\<lambda>repo. map (ActionPref repo)
         (filter (\<lambda>action.
              (case map_of (sr_repo_checked_in r) repo of Some f \<Rightarrow> map_of f action \<noteq> None | None \<Rightarrow> False)
            \<or> (case map_of (sr_repo_local_db r) repo of Some p \<Rightarrow> map_of p action \<noteq> None | None \<Rightarrow> False))
            ACTION_KEYS))
         (sorted_keys (map fst (sr_repo_checked_in r) @ map fst (sr_repo_local_db r))))"

text \<open>The audit event of a field: the workspace, the field's name and the source of its value.\<close>

definition audit_resolved_at_boot :: "settings_resolver \<Rightarrow> (string \<times> string \<times> string) list" where
  "audit_resolved_at_boot r =
     map (\<lambda>field. (sr_workspace_id r, audit_name field, as_str_settings_source (rs_source (resolve_field r field))))
       (boot_fields r)"

text \<open>
  The builder reads the files below the repositories' paths (\<open>read_file\<close>); \<open>listed\<close> are the ids
  \<open>list_all\<close> returned.
\<close>

definition workspace_repositories :: "database \<Rightarrow> string \<Rightarrow> (string \<times> repository_row) list" where
  "workspace_repositories db wid =
     List.map_filter (\<lambda>rid. map_option (\<lambda>row. (rid, row)) (repositories_get db rid)) (list_repos db wid)"

definition build_resolver_for_workspace ::
  "parsers \<Rightarrow> (string \<Rightarrow> read_outcome) \<Rightarrow> database \<Rightarrow> string \<Rightarrow> managed_policy \<Rightarrow>
   (string \<times> string list) list \<Rightarrow> settings_resolver" where
  "build_resolver_for_workspace ps read_file db wid managed opt_out =
     (let local_json = (case get_settings_json db wid of Some raw \<Rightarrow> raw | None \<Rightarrow> ''{}'');
          repos = workspace_repositories db wid;
          checked_in = (case repos of
              (rid, row) # _ \<Rightarrow>
                wl_settings (load_workspace_settings_file ps (read_file (r_local_path row @ ''/.concerto/workspace_settings.json'')))
            | [] \<Rightarrow> empty_checked_in);
          repo_checked = fold (\<lambda>(rid, row) out.
              (let file = fst (load_action_prefs_file ps (read_file (r_local_path row @ ''/.concerto/action_prefs.toml'')))
               in if file = [] then out else AList.update rid file out)) repos [];
          repo_local = fold (\<lambda>(rid, row) out. AList.update rid (r_action_prefs_json row) out) repos [];
          opted_out = (case map_of opt_out wid of Some fs \<Rightarrow> fs | None \<Rightarrow> [])
      in new_settings_resolver ps wid managed checked_in local_json repo_checked repo_local opted_out)"

definition resolve_and_audit_all_workspaces ::
  "parsers \<Rightarrow> (string \<Rightarrow> read_outcome) \<Rightarrow> database \<Rightarrow> string list \<Rightarrow> managed_policy result \<Rightarrow> read_outcome \<Rightarrow>
   (string \<times> string \<times> string) list" where
  "resolve_and_audit_all_workspaces ps read_file db listed managed opt_out_file =
     (let m = (case managed of Inr p \<Rightarrow> p | Inl e \<Rightarrow> default_policy);
          opt_out = load_opt_out ps opt_out_file
      in concat (map (\<lambda>wid. audit_resolved_at_boot (build_resolver_for_workspace ps read_file db wid m opt_out)) listed))"

section \<open>The layers of a field\<close>

text \<open>What each layer states of a field; the checked-in layer states nothing of a field opted out.\<close>

fun managed_states :: "managed_policy \<Rightarrow> settings_field \<Rightarrow> json option" where
  "managed_states p EnterpriseDataPrivacy = map_option JBool (mp_enterprise_data_privacy p)"
| "managed_states p DefaultPermissionMode = map_option (\<lambda>m. JString (as_str_mode m)) (mp_default_permission_mode p)"
| "managed_states p _ = None"

fun checked_in_states :: "settings_resolver \<Rightarrow> settings_field \<Rightarrow> json option" where
  "checked_in_states r (Script k) = map_option JString (map_of (ci_scripts (sr_checked_in r)) k)"
| "checked_in_states r RunScriptMode = map_option JString (ci_run_script_mode (sr_checked_in r))"
| "checked_in_states r EnterpriseDataPrivacy = map_option JBool (ci_enterprise_data_privacy (sr_checked_in r))"
| "checked_in_states r DefaultPermissionMode =
     map_option (\<lambda>m. JString (as_str_mode m)) (mode_of_text (ci_default_permission_mode (sr_checked_in r)))"
| "checked_in_states r DefaultDeliberationMode = map_option JString (ci_default_deliberation_mode (sr_checked_in r))"
| "checked_in_states r DefaultReasoningLevel = map_option JString (ci_default_reasoning_level (sr_checked_in r))"
| "checked_in_states r FilesToCopyRules =
     map_option (\<lambda>rules. JArray (map copy_rule_json rules)) (ci_files_to_copy_rules (sr_checked_in r))"
| "checked_in_states r WritablePathsOutsideWorktree =
     map_option (\<lambda>ps. JArray (map JString ps)) (ci_writable_paths (sr_checked_in r))"
| "checked_in_states r (ActionPref repo action) =
     map_option JString (Option.bind (map_of (sr_repo_checked_in r) repo) (\<lambda>prefs. map_of prefs action))"

fun local_db_states :: "settings_resolver \<Rightarrow> settings_field \<Rightarrow> json option" where
  "local_db_states r (Script k) = map_option JString (map_of (ls_scripts (sr_local_db r)) k)"
| "local_db_states r RunScriptMode = map_option JString (ls_run_script_mode (sr_local_db r))"
| "local_db_states r EnterpriseDataPrivacy = map_option JBool (ls_enterprise_data_privacy (sr_local_db r))"
| "local_db_states r DefaultPermissionMode =
     map_option (\<lambda>m. JString (as_str_mode m)) (mode_of_text (ls_default_permission_mode (sr_local_db r)))"
| "local_db_states r DefaultDeliberationMode = map_option JString (ls_default_deliberation_mode (sr_local_db r))"
| "local_db_states r DefaultReasoningLevel = map_option JString (ls_default_reasoning_level (sr_local_db r))"
| "local_db_states r FilesToCopyRules =
     map_option (\<lambda>rules. JArray (map copy_rule_json rules)) (ls_files_to_copy_rules (sr_local_db r))"
| "local_db_states r WritablePathsOutsideWorktree =
     map_option (\<lambda>ps. JArray (map JString ps)) (ls_writable_paths (sr_local_db r))"
| "local_db_states r (ActionPref repo action) =
     map_option JString (Option.bind (map_of (sr_repo_local_db r) repo) (\<lambda>prefs. map_of prefs action))"

fun default_states :: "settings_field \<Rightarrow> json" where
  "default_states RunScriptMode = JString ''concurrent''"
| "default_states EnterpriseDataPrivacy = JBool False"
| "default_states FilesToCopyRules = JArray []"
| "default_states WritablePathsOutsideWorktree = JArray []"
| "default_states _ = JNull"

fun states :: "settings_resolver \<Rightarrow> settings_source \<Rightarrow> settings_field \<Rightarrow> json option" where
  "states r FromManaged field = managed_states (sr_managed r) field"
| "states r FromCheckedIn field = (if opt_out_name field \<in> set (sr_opted_out r) then None else checked_in_states r field)"
| "states r FromLocalDb field = local_db_states r field"
| "states r FromDefault field = Some (default_states field)"

fun first_stated :: "settings_resolver \<Rightarrow> settings_source list \<Rightarrow> settings_field \<Rightarrow> json resolved_setting option" where
  "first_stated r [] field = None"
| "first_stated r (s # layers) field =
     (case states r s field of Some v \<Rightarrow> Some (resolved_as v s) | None \<Rightarrow> first_stated r layers field)"

text \<open>The keys of the script maps are distinct, as a \<open>BTreeMap\<close>'s.\<close>

definition tidy :: "settings_resolver \<Rightarrow> bool" where
  "tidy r \<longleftrightarrow> distinct (map fst (ci_scripts (sr_checked_in r))) \<and> distinct (map fst (ls_scripts (sr_local_db r)))"

lemma map_of_fold_update:
  "distinct (map fst xs) \<Longrightarrow> map_of (fold (\<lambda>(k, v) out. AList.update k (g v) out) xs out) j =
     (case map_of xs j of Some v \<Rightarrow> Some (g v) | None \<Rightarrow> map_of out j)"
proof (induction xs arbitrary: out)
  case (Cons x xs)
  then show ?case
    by (cases x) (auto simp: update_conv' split: option.splits dest: map_of_SomeD intro: rev_image_eqI)
qed simp

lemma checked_in_allowed_iff: "checked_in_allowed r field \<longleftrightarrow> opt_out_name field \<notin> set (sr_opted_out r)"
  by (auto simp: checked_in_allowed_def list_ex_iff)

lemma scripts_lookup:
  assumes "tidy r"
  shows "map_of (scripts r) k =
    (case (if checked_in_allowed r (Script []) then map_of (ci_scripts (sr_checked_in r)) k else None) of
       Some v \<Rightarrow> Some (resolved_as v FromCheckedIn)
     | None \<Rightarrow> map_option (\<lambda>v. resolved_as v FromLocalDb) (map_of (ls_scripts (sr_local_db r)) k))"
  using assms by (auto simp: scripts_def tidy_def Let_def map_of_fold_update split: option.splits)

lemma highest_layer_wins:
  assumes "tidy r"
  shows "first_stated r [FromManaged, FromCheckedIn, FromLocalDb, FromDefault] field = Some (resolve_field r field)"
  using scripts_lookup [OF assms]
  by (cases field)
    (auto simp: checked_in_allowed_iff enterprise_data_privacy_def run_script_mode_def files_to_copy_rules_def
      default_permission_mode_def action_pref_def resolve_simple_string_def resolve_string_list_def two_layers_def
      Let_def split: option.splits)

section \<open>Properties of the readers and the resolver\<close>

lemma distinct_only_strings: "distinct (map fst (only_strings entries))"
proof -
  have "distinct (map fst out) \<Longrightarrow> distinct (map fst
      (fold (\<lambda>(k, v) out. case as_str v of Some s \<Rightarrow> AList.update k s out | None \<Rightarrow> out) entries out))" for out
    by (induction entries arbitrary: out) (auto simp: distinct_update split: option.split)
  then show ?thesis by (simp add: only_strings_def)
qed

lemma distinct_scripts_loop: "distinct (map fst out) \<Longrightarrow> distinct (map fst (fst (scripts_loop entries out)))"
  by (induction entries out rule: scripts_loop.induct) (auto simp: distinct_update split: option.splits prod.splits)

lemma distinct_checked_in_scripts: "distinct (map fst (ci_scripts (wl_settings (load_workspace_settings_file ps rd))))"
  using distinct_scripts_loop [of "[]"]
  by (auto simp: load_workspace_settings_file_def parse_workspace_settings_jsonc_def empty_checked_in_def
      parse_workspace_settings_object_def scripts_field_def Let_def
      split: read_outcome.split sum.split option.split prod.split)
    (metis fst_conv)

lemma distinct_local_scripts: "distinct (map fst (ls_scripts (local_from_json ps raw)))"
  by (simp add: local_from_json_def empty_local_def distinct_only_strings split: sum.split json.split option.split)

lemma tidy_build: "tidy (build_resolver_for_workspace ps read_file db wid managed opt_out)"
  by (simp add: tidy_def build_resolver_for_workspace_def new_settings_resolver_def Let_def distinct_local_scripts
      distinct_checked_in_scripts empty_checked_in_def split: list.split)

lemmas build_simps = build_resolver_for_workspace_def new_settings_resolver_def Let_def


text \<open>What a JSON array of strings, and the object of scripts, look like to the readers.\<close>

lemma opt_string_field_said:
  "snd (opt_string_field obj k) = [] \<Longrightarrow> said (map_of obj k) = map_option JString (fst (opt_string_field obj k))"
  by (auto simp: opt_string_field_def said_def split: option.splits json.splits)

lemma opt_bool_field_said:
  "snd (opt_bool_field obj k) = [] \<Longrightarrow> said (map_of obj k) = map_option JBool (fst (opt_bool_field obj k))"
  by (auto simp: opt_bool_field_def said_def split: option.splits json.splits)

lemma as_str_Some_iff: "as_str v = Some s \<longleftrightarrow> v = JString s"
  by (cases v) auto

lemma collect_strings_said:
  "snd (collect_strings k items out) = [] \<Longrightarrow>
     \<exists>xs. collect_strings k items out = (Some (out @ xs), []) \<and> items = map JString xs"
  by (induction k items out rule: collect_strings.induct) (auto simp: as_str_Some_iff split: option.splits)

lemma opt_string_array_field_said:
  assumes "snd (opt_string_array_field obj k) = []"
  shows "said (map_of obj k) = map_option (\<lambda>xs. JArray (map JString xs)) (fst (opt_string_array_field obj k))"
proof (cases "map_of obj k")
  case (Some v)
  show ?thesis
  proof (cases v)
    case (JArray items)
    with Some assms obtain xs where "collect_strings k items [] = (Some xs, [])" "items = map JString xs"
      using collect_strings_said [of k items "[]"] by (auto simp: opt_string_array_field_def)
    with Some JArray show ?thesis by (simp add: opt_string_array_field_def said_def)
  qed (use Some assms in \<open>simp_all add: opt_string_array_field_def said_def\<close>)
qed (simp add: opt_string_array_field_def said_def)

lemma scripts_loop_said:
  "snd (scripts_loop entries out) = [] \<Longrightarrow> distinct (map fst entries) \<Longrightarrow>
     (\<forall>k. map_option JString (map_of (fst (scripts_loop entries out)) k) =
        (case map_of entries k of Some v \<Rightarrow> Some v | None \<Rightarrow> map_option JString (map_of out k)))"
proof (induction entries out rule: scripts_loop.induct)
  case (2 k sv entries scripts)
  then obtain s where "sv = JString s" by (auto simp: as_str_Some_iff split: option.splits prod.splits)
  with 2 show ?case
    by (auto simp: update_conv' split: option.splits dest: map_of_SomeD intro: rev_image_eqI)
qed simp

lemma scripts_field_said:
  assumes "snd (scripts_field obj) = []"
    and "\<And>entries. map_of obj ''scripts'' = Some (JObject entries) \<Longrightarrow> distinct (map fst entries)"
  shows "map_option JString (map_of (fst (scripts_field obj)) k) = Option.bind (map_of obj ''scripts'') (\<lambda>v. json_get v k)"
proof (cases "map_of obj ''scripts''")
  case (Some v)
  show ?thesis
  proof (cases v)
    case (JObject entries)
    with Some have e: "scripts_field obj = scripts_loop entries []" by (simp add: scripts_field_def)
    have "distinct (map fst entries)" using assms(2) Some JObject by blast
    with scripts_loop_said [of entries "[]"] assms(1)
    have "map_option JString (map_of (fst (scripts_loop entries [])) k) = map_of entries k"
      by (simp only: e) (simp split: option.splits)
    then show ?thesis by (simp only: e Some JObject Option.bind.simps json_get.simps)
  qed (use Some assms(1) in \<open>simp_all add: scripts_field_def\<close>)
qed (simp add: scripts_field_def)

lemma parse_object_violations:
  "wl_violations (parse_workspace_settings_object ps obj) =
     snd (scripts_field obj) @ snd (opt_string_field obj ''run_script_mode'')
     @ snd (opt_bool_field obj ''enterprise_data_privacy'') @ snd (opt_string_field obj ''default_permission_mode'')
     @ snd (opt_string_field obj ''default_deliberation_mode'') @ snd (opt_string_field obj ''default_reasoning_level'')
     @ snd (opt_string_array_field obj ''writable_paths_outside_worktree'') @ snd (copy_rules_field ps obj)"
  by (simp only: parse_workspace_settings_object_def Let_def case_prod_beta settings_load.simps)

lemma parse_object_fields:
  "wl_settings (parse_workspace_settings_object ps obj) =
     \<lparr>ci_scripts = fst (scripts_field obj), ci_run_script_mode = fst (opt_string_field obj ''run_script_mode''),
      ci_enterprise_data_privacy = fst (opt_bool_field obj ''enterprise_data_privacy''),
      ci_default_permission_mode = fst (opt_string_field obj ''default_permission_mode''),
      ci_default_deliberation_mode = fst (opt_string_field obj ''default_deliberation_mode''),
      ci_default_reasoning_level = fst (opt_string_field obj ''default_reasoning_level''),
      ci_files_to_copy_rules = fst (copy_rules_field ps obj),
      ci_writable_paths = fst (opt_string_array_field obj ''writable_paths_outside_worktree'')\<rparr>"
  by (simp only: parse_workspace_settings_object_def Let_def case_prod_beta settings_load.simps)

text \<open>A checked-in settings file whose load reports no violation is taken field by field as it is
  written: the scripts, the modes, the privacy switch, the paths and the copy rules of the load are
  those of the file's object, and an absent field or \<open>null\<close> is absent.\<close>

theorem checked_in_file_taken_or_reported:
  assumes "wl_violations (load_workspace_settings_file ps (Contents raw)) = []"
    and "wl_settings (load_workspace_settings_file ps (Contents raw)) = s"
    and "\<forall>obj entries. sp_json ps (strip_jsonc_line_comments raw) = Inr (JObject obj) \<and>
      map_of obj ''scripts'' = Some (JObject entries) \<longrightarrow> distinct (map fst entries)"
  shows "\<exists>obj. sp_json ps (strip_jsonc_line_comments raw) = Inr (JObject obj)
    \<and> (\<forall>k. map_option JString (map_of (ci_scripts s) k) = Option.bind (map_of obj ''scripts'') (\<lambda>v. json_get v k))
    \<and> said (map_of obj ''run_script_mode'') = map_option JString (ci_run_script_mode s)
    \<and> said (map_of obj ''enterprise_data_privacy'') = map_option JBool (ci_enterprise_data_privacy s)
    \<and> said (map_of obj ''default_permission_mode'') = map_option JString (ci_default_permission_mode s)
    \<and> said (map_of obj ''default_deliberation_mode'') = map_option JString (ci_default_deliberation_mode s)
    \<and> said (map_of obj ''default_reasoning_level'') = map_option JString (ci_default_reasoning_level s)
    \<and> said (map_of obj ''writable_paths_outside_worktree'') =
        map_option (\<lambda>xs. JArray (map JString xs)) (ci_writable_paths s)
    \<and> (case map_of obj ''files_to_copy_rules'' of
         None \<Rightarrow> ci_files_to_copy_rules s = None
       | Some v \<Rightarrow> map_option Inr (ci_files_to_copy_rules s) = Some (sp_rules ps v))"
proof -
  from assms(1,2) obtain obj where obj: "sp_json ps (strip_jsonc_line_comments raw) = Inr (JObject obj)"
    and v: "wl_violations (parse_workspace_settings_object ps obj) = []"
    and s: "s = wl_settings (parse_workspace_settings_object ps obj)"
    by (auto simp: load_workspace_settings_file_def parse_workspace_settings_jsonc_def
        elim!: as_object.elims split: sum.splits option.splits)
  have d: "\<And>entries. map_of obj ''scripts'' = Some (JObject entries) \<Longrightarrow> distinct (map fst entries)"
    using assms(3) obj by blast
  have v': "snd (scripts_field obj) = []" "snd (opt_string_field obj ''run_script_mode'') = []"
    "snd (opt_bool_field obj ''enterprise_data_privacy'') = []"
    "snd (opt_string_field obj ''default_permission_mode'') = []"
    "snd (opt_string_field obj ''default_deliberation_mode'') = []"
    "snd (opt_string_field obj ''default_reasoning_level'') = []"
    "snd (opt_string_array_field obj ''writable_paths_outside_worktree'') = []"
    "snd (copy_rules_field ps obj) = []"
    using v by (simp_all only: parse_object_violations append_is_Nil_conv)
  have rules: "case map_of obj ''files_to_copy_rules'' of
      None \<Rightarrow> fst (copy_rules_field ps obj) = None
    | Some v \<Rightarrow> map_option Inr (fst (copy_rules_field ps obj)) = Some (sp_rules ps v)"
    using v'(8) by (simp add: copy_rules_field_def parse_files_to_copy_rules_def split: option.splits sum.splits)
  show ?thesis
    unfolding s parse_object_fields checked_in_settings.simps
    using obj rules scripts_field_said [OF v'(1) d] opt_string_field_said [OF v'(2)] opt_string_field_said [OF v'(4)]
      opt_string_field_said [OF v'(5)] opt_string_field_said [OF v'(6)]
      opt_bool_field_said [OF v'(3)] opt_string_array_field_said [OF v'(7)]
    by blast
qed

definition sample_parsers :: parsers where
  "sample_parsers =
     \<lparr>sp_json = (\<lambda>raw. if raw = ''file'' then Inr (JObject [(''scripts'', JObject [(''run'', JString ''make'')]),
          (''run_script_mode'', JString ''sequential''), (''default_permission_mode'', JString ''lax'')])
        else Inl ''empty''),
      sp_toml = (\<lambda>_. Inl ''none''), sp_rules = (\<lambda>_. Inl ''none''), sp_opt_out = (\<lambda>_. Inl ''none'')\<rparr>"

lemma sample_load:
  "load_workspace_settings_file sample_parsers (Contents ''file'') =
     \<lparr>wl_settings = empty_checked_in\<lparr>ci_scripts := [(''run'', ''make'')], ci_run_script_mode := Some ''sequential'',
        ci_default_permission_mode := Some ''lax''\<rparr>, wl_violations = []\<rparr>"
  by (simp add: load_workspace_settings_file_def parse_workspace_settings_jsonc_def sample_parsers_def
      strip_jsonc_line_comments_def parse_workspace_settings_object_def scripts_field_def opt_string_field_def
      opt_bool_field_def opt_string_array_field_def copy_rules_field_def empty_checked_in_def)

theorem checked_in_file_taken_or_reported_witness:
  "\<exists>obj. sp_json sample_parsers (strip_jsonc_line_comments ''file'') = Inr (JObject obj)
    \<and> said (map_of obj ''run_script_mode'') = Some (JString ''sequential'')"
proof -
  have d: "\<forall>obj entries. sp_json sample_parsers (strip_jsonc_line_comments ''file'') = Inr (JObject obj) \<and>
      map_of obj ''scripts'' = Some (JObject entries) \<longrightarrow> distinct (map fst entries)"
    by (auto simp: sample_parsers_def split: if_splits)
  have v: "wl_violations (load_workspace_settings_file sample_parsers (Contents ''file'')) = []"
    and r: "ci_run_script_mode (wl_settings (load_workspace_settings_file sample_parsers (Contents ''file''))) =
      Some ''sequential''"
    by (simp_all add: sample_load empty_checked_in_def)
  from checked_in_file_taken_or_reported [OF v refl d, unfolded r option.map] show ?thesis
    by (elim exE conjE) (intro exI conjI)
qed

subsection \<open>Comments\<close>

text \<open>
  A jsonc text as its author sees it: stretches outside literals and comments, string literals, line
  comments. In JSON a slash occurs only in literals and comments.
\<close>

datatype piece = Plain string | Quoted string | Comment string

fun closed_literal :: "string \<Rightarrow> bool" where
  "closed_literal [] = True"
| "closed_literal [c] \<longleftrightarrow> c \<noteq> CHR 0x5C \<and> c \<noteq> CHR 0x22"
| "closed_literal (c # d # cs) \<longleftrightarrow>
     (if c = CHR 0x5C then closed_literal cs else c \<noteq> CHR 0x22 \<and> closed_literal (d # cs))"

fun well_written :: "piece \<Rightarrow> bool" where
  "well_written (Plain s) \<longleftrightarrow> CHR 0x22 \<notin> set s \<and> CHR ''/'' \<notin> set s"
| "well_written (Quoted s) \<longleftrightarrow> closed_literal s"
| "well_written (Comment s) \<longleftrightarrow> CHR 0x0A \<notin> set s"

fun written :: "piece \<Rightarrow> string" where
  "written (Plain s) = s"
| "written (Quoted s) = CHR 0x22 # s @ [CHR 0x22]"
| "written (Comment s) = ''//'' @ s @ [CHR 0x0A]"

fun without_comment :: "piece \<Rightarrow> string" where
  "without_comment (Comment s) = [CHR 0x0A]"
| "without_comment p = written p"

lemma scan_plain:
  "CHR 0x22 \<notin> set s \<Longrightarrow> CHR ''/'' \<notin> set s \<Longrightarrow> strip_scan False e (s @ rest) = s @ strip_scan False e rest"
  by (induction s) auto

lemma scan_quoted: "closed_literal s \<Longrightarrow> strip_scan True False (s @ CHR 0x22 # rest) = s @ CHR 0x22 # strip_scan False False rest"
  by (induction s rule: closed_literal.induct) (auto split: if_splits)

lemma skip_comment_append: "CHR 0x0A \<notin> set s \<Longrightarrow> skip_comment (s @ CHR 0x0A # rest) = CHR 0x0A # rest"
  by (induction s) auto

text \<open>Comment stripping removes the line comments of a jsonc text and nothing else: literals keep
  their slashes and escaped quotes, and every comment leaves its line break.\<close>

theorem comments_stripped_exactly:
  assumes "list_all well_written ps"
  shows "strip_jsonc_line_comments (concat (map written ps)) = concat (map without_comment ps)"
proof -
  have "strip_scan False False (concat (map written ps)) = concat (map without_comment ps)"
    using assms
  proof (induction ps)
    case (Cons p ps)
    then show ?case by (cases p) (auto simp: scan_plain scan_quoted skip_comment_append)
  qed simp
  then show ?thesis by (simp add: strip_jsonc_line_comments_def)
qed

theorem comments_stripped_exactly_witness:
  "strip_jsonc_line_comments (''{'' @ [CHR 0x22] @ ''a//b'' @ [CHR 0x22] @ '':1 // c'' @ [CHR 0x0A] @ ''}'') =
     ''{'' @ [CHR 0x22] @ ''a//b'' @ [CHR 0x22] @ '':1 '' @ [CHR 0x0A] @ ''}''"
  using comments_stripped_exactly [of "[Plain ''{'', Quoted ''a//b'', Plain '':1 '', Comment '' c'', Plain ''}'']"] by simp

subsection \<open>Where the layers do not do what is documented\<close>

text \<open>A checked-in default permission mode that names no mode reports no violation, and resolution goes
  on as if the field were not there.\<close>

theorem unknown_mode_reverts_silently:
  assumes "map_of obj ''default_permission_mode'' = Some (JString m)" and "parse_permission_mode m = Inl e"
    and "sr_checked_in r = wl_settings (parse_workspace_settings_object ps obj)"
  shows "snd (opt_string_field obj ''default_permission_mode'') = [] \<and> ci_default_permission_mode (sr_checked_in r) = Some m
    \<and> resolve_field r DefaultPermissionMode =
      resolve_field (r\<lparr>sr_checked_in := (sr_checked_in r)\<lparr>ci_default_permission_mode := None\<rparr>\<rparr>) DefaultPermissionMode"
proof -
  have f: "opt_string_field obj ''default_permission_mode'' = (Some m, [])"
    by (simp add: opt_string_field_def assms(1))
  then have "ci_default_permission_mode (sr_checked_in r) = Some m"
    by (simp only: assms(3) parse_object_fields checked_in_settings.simps fst_conv)
  with f assms(2) show ?thesis
    by (cases "mp_default_permission_mode (sr_managed r)") (simp_all add: default_permission_mode_def checked_in_allowed_def Let_def)
qed

theorem unknown_mode_reverts_silently_witness:
  "\<exists>r. ci_default_permission_mode (sr_checked_in r) = Some ''lax'' \<and>
     resolve_field r DefaultPermissionMode = resolved_as JNull FromDefault"
proof -
  let ?obj = "[(''default_permission_mode'', JString ''lax'')]"
  let ?r = "\<lparr>sr_workspace_id = ''w'', sr_managed = default_policy,
    sr_checked_in = wl_settings (parse_workspace_settings_object sample_parsers ?obj), sr_local_db = empty_local,
    sr_repo_checked_in = [], sr_repo_local_db = [], sr_opted_out = []\<rparr>"
  obtain e where "parse_permission_mode ''lax'' = Inl e" by (simp add: parse_permission_mode_def)
  from unknown_mode_reverts_silently [OF _ this, of ?obj ?r sample_parsers] show ?thesis
    by (intro exI [of _ ?r]) (simp add: default_permission_mode_def default_policy_def empty_local_def)
qed

text \<open>Opting out of the family \<open>action_prefs\<close> does not skip the checked-in preferences of a repository:
  only the name of the single action does.\<close>

theorem family_opt_out_is_ignored:
  assumes "sr_opted_out r = [''action_prefs'']" and "map_of (sr_repo_checked_in r) repo = Some prefs"
    and "map_of prefs action = Some p"
  shows "action_pref r repo action = resolved_as (Some p) FromCheckedIn \<and>
    rs_source (action_pref (r\<lparr>sr_opted_out := [''action_prefs.'' @ action]\<rparr>) repo action) \<noteq> FromCheckedIn"
  using assms by (simp add: action_pref_def checked_in_allowed_def split: option.split)

theorem family_opt_out_is_ignored_witness:
  "\<exists>r. sr_opted_out r = [''action_prefs''] \<and>
     action_pref r ''repo'' ''pr_create'' = resolved_as (Some ''draft'') FromCheckedIn"
proof -
  let ?r = "\<lparr>sr_workspace_id = ''w'', sr_managed = default_policy, sr_checked_in = empty_checked_in,
    sr_local_db = empty_local, sr_repo_checked_in = [(''repo'', [(''pr_create'', ''draft'')])], sr_repo_local_db = [],
    sr_opted_out = [''action_prefs'']\<rparr>"
  from family_opt_out_is_ignored [of ?r "''repo''" _ "''pr_create''" "''draft''"] show ?thesis
    by (intro exI [of _ ?r]) simp
qed

end
