(* ===== verification/WorkareaLifecycle.thy ===== *)
theory WorkareaLifecycle
  imports WorkareaFsm Composers EffectiveMode
begin

text \<open>
  Workareas from creation to archive: \<open>create_workarea\<close>, \<open>archive_workarea\<close>, \<open>restore_workarea\<close> and the
  sweep of \<open>adopt_crashed_workareas\<close> (\<open>workspace_manager/workarea.rs\<close>, \<open>archive.rs\<close>), and the cascade of a
  workspace's archive (\<open>workspace_manager/actor.rs\<close>).

  The disk is the list of the directories the code makes and probes, and of git the branch tips. Git,
  the clone, the files below a new worktree and the copy rules are arguments (\<open>worktree_host\<close>); \<open>git_contract\<close>
  and \<open>resets_branch\<close> say what git documents of \<open>worktree add -B\<close> and \<open>worktree remove\<close>. A creation is
  cut where it awaits: the choice of the name, the worktrees, the transaction.
\<close>

section \<open>Statements\<close>

datatype insert_outcome = Inserted database | UniqueViolation | InsertFailed error

definition workareas_insert :: "string \<Rightarrow> workarea_row \<Rightarrow> database \<Rightarrow> insert_outcome" where
  "workareas_insert wid row db =
     (if list_ex (\<lambda>(j, w). wa_workspace_id w = wa_workspace_id row \<and> wa_composer_name w = wa_composer_name row)
           (db_workareas db) then UniqueViolation
      else Inserted (db\<lparr>db_workareas := db_workareas db @ [(wid, row)]\<rparr>))"

definition insert_workarea_repo :: "string \<Rightarrow> string \<Rightarrow> string \<Rightarrow> database \<Rightarrow> database" where
  "insert_workarea_repo wid rid path db = db\<lparr>db_workarea_repos := db_workarea_repos db @ [(wid, rid, path)]\<rparr>"

definition workareas_set_settings_json :: "string \<Rightarrow> string \<Rightarrow> database \<Rightarrow> database" where
  "workareas_set_settings_json wid payload db =
     db\<lparr>db_workareas := sql_update wid (\<lambda>r. r\<lparr>wa_settings_json := payload\<rparr>) (db_workareas db)\<rparr>"

definition workareas_archive :: "string \<Rightarrow> int \<Rightarrow> database \<Rightarrow> database" where
  "workareas_archive wid at db =
     db\<lparr>db_workareas := sql_update wid (\<lambda>r. r\<lparr>wa_archived_at := Some at, wa_status := ''archived''\<rparr>) (db_workareas db)\<rparr>"

definition workareas_restore :: "string \<Rightarrow> database \<Rightarrow> database" where
  "workareas_restore wid db =
     db\<lparr>db_workareas := sql_update wid
          (\<lambda>r. r\<lparr>wa_archived_at := None, wa_status := ''active'', wa_permission_mode := None\<rparr>) (db_workareas db)\<rparr>"

definition workspaces_archive :: "string \<Rightarrow> int \<Rightarrow> database \<Rightarrow> database" where
  "workspaces_archive wsid at db =
     db\<lparr>db_workspaces := sql_update wsid (\<lambda>r. r\<lparr>ws_archived_at := Some at\<rparr>) (db_workspaces db)\<rparr>"

definition workspaces_restore :: "string \<Rightarrow> database \<Rightarrow> database" where
  "workspaces_restore wsid db =
     db\<lparr>db_workspaces := sql_update wsid (\<lambda>r. r\<lparr>ws_archived_at := None\<rparr>) (db_workspaces db)\<rparr>"

definition list_composer_names_in_workspace :: "database \<Rightarrow> string \<Rightarrow> string list" where
  "list_composer_names_in_workspace db wsid =
     map (\<lambda>(j, w). wa_composer_name w) (filter (\<lambda>(j, w). wa_workspace_id w = wsid) (db_workareas db))"

definition list_non_archived_minimal :: "database \<Rightarrow> string \<Rightarrow> (string \<times> string \<times> string) list" where
  "list_non_archived_minimal db wsid =
     map (\<lambda>(j, w). (j, wa_worktree_root w, wa_branch_name w))
       (filter (\<lambda>(j, w). wa_workspace_id w = wsid \<and> wa_archived_at w = None) (db_workareas db))"

definition list_all_non_archived :: "database \<Rightarrow> (string \<times> string) list" where
  "list_all_non_archived db =
     map (\<lambda>(j, w). (j, wa_worktree_root w))
       (filter (\<lambda>(j, w). wa_archived_at w = None \<and> wa_status w \<noteq> ''crashed'' \<and> j \<noteq> MAESTRO_SYSTEM_WORKAREA_ID)
         (db_workareas db))"

text \<open>The join of a workarea's worktrees with their repositories' paths.\<close>

definition worktrees_of :: "database \<Rightarrow> string \<Rightarrow> (string \<times> string) list" where
  "worktrees_of db wid =
     List.map_filter (\<lambda>(w, rid, path). if w = wid
        then map_option (\<lambda>r. (path, r_local_path r)) (repositories_get db rid) else None) (db_workarea_repos db)"

section \<open>The disk and git\<close>

record disk =
  dk_dirs :: "string list"
  dk_tip :: "string \<Rightarrow> string \<Rightarrow> string option"
  dk_head :: "string \<Rightarrow> string option"

definition below :: "string \<Rightarrow> string \<Rightarrow> bool" where
  "below root p \<longleftrightarrow> p = root \<or> starts_with_str p (root @ ''/'')"

definition path_exists :: "disk \<Rightarrow> string \<Rightarrow> bool" where
  "path_exists d p \<longleftrightarrow> list_ex (\<lambda>q. q = p) (dk_dirs d)"

definition create_dir_all :: "string \<Rightarrow> disk \<Rightarrow> disk" where
  "create_dir_all p d = (if path_exists d p then d else d\<lparr>dk_dirs := p # dk_dirs d\<rparr>)"

definition remove_dir_all :: "string \<Rightarrow> disk \<Rightarrow> disk" where
  "remove_dir_all root d = d\<lparr>dk_dirs := filter (\<lambda>p. \<not> below root p) (dk_dirs d)\<rparr>"

definition join_path :: "string \<Rightarrow> string \<Rightarrow> string" where
  "join_path a b = a @ ''/'' @ b"

record worktree_host =
  ho_is_clone :: "string \<Rightarrow> bool"
  ho_clone :: "string \<Rightarrow> error option"
  ho_rules_error :: "error option"
  ho_context :: "string \<Rightarrow> error option"
  ho_worktree_add :: "string \<Rightarrow> string \<Rightarrow> string \<Rightarrow> disk \<Rightarrow> error option \<times> disk"
  ho_worktree_remove :: "string \<Rightarrow> string \<Rightarrow> disk \<Rightarrow> error option \<times> disk"
  ho_exclude :: "string \<Rightarrow> error option"
  ho_copy :: "string \<Rightarrow> string \<Rightarrow> string list result"
  ho_insert_error :: "error option"
  ho_tx_error :: "error option"

text \<open>Two disks that agree on everything outside a directory.\<close>

definition same_outside :: "string \<Rightarrow> disk \<Rightarrow> disk \<Rightarrow> bool" where
  "same_outside root d d' \<longleftrightarrow> (\<forall>p. \<not> below root p \<longrightarrow> path_exists d' p = path_exists d p)"

text \<open>
  What git does to the directories. An addition that succeeds makes the destination, which did not
  exist, and one that fails because it exists leaves everything as it was; neither touches anything
  outside. A removal touches nothing outside its destination.
\<close>

definition git_contract :: "worktree_host \<Rightarrow> bool" where
  "git_contract h \<longleftrightarrow>
     (\<forall>repo branch dest d. same_outside dest d (snd (ho_worktree_add h repo branch dest d)))
     \<and> (\<forall>repo branch dest d. path_exists d dest \<longrightarrow>
          fst (ho_worktree_add h repo branch dest d) \<noteq> None \<and> snd (ho_worktree_add h repo branch dest d) = d)
     \<and> (\<forall>repo branch dest d. fst (ho_worktree_add h repo branch dest d) = None \<longrightarrow>
          path_exists (snd (ho_worktree_add h repo branch dest d)) dest)
     \<and> (\<forall>repo dest d. same_outside dest d (snd (ho_worktree_remove h repo dest d)))"

text \<open>\<open>-B\<close> creates the branch or resets it: to the head of the repository, as no start point is given.\<close>

definition resets_branch :: "worktree_host \<Rightarrow> bool" where
  "resets_branch h \<longleftrightarrow>
     (\<forall>repo branch dest d d'. ho_worktree_add h repo branch dest d = (None, d') \<longrightarrow>
        dk_tip d' repo branch = dk_head d repo \<and> dk_head d' = dk_head d
        \<and> (\<forall>q. q \<noteq> repo \<longrightarrow> dk_tip d' q = dk_tip d q))"

section \<open>Creation\<close>

datatype manager_event =
    WaCreated string
  | WaArchived string
  | WaRestored string
  | WaStatusChanged string string string
  | WaPartialCreate string "string list"
  | WaCopyWarning string string string
  | WsArchived string
  | WsRestored string

record manager =
  wm_db :: database
  wm_disk :: disk
  wm_events :: "manager_event list"

record create_request =
  rq_id :: string
  rq_workspace :: string
  rq_mode :: "string option"
  rq_now :: int
  rq_data_dir :: string

definition validate_permission_mode :: "string \<Rightarrow> unit result" where
  "validate_permission_mode mode =
     (if mode = ''strict'' \<or> mode = ''normal'' \<or> mode = ''auto'' \<or> mode = ''yolo'' then Inr ()
      else Inl (Validation (''permission_mode '' @ debug_str mode @ '' must be one of strict|normal|auto|yolo'')))"

fun repository_rows :: "database \<Rightarrow> string list \<Rightarrow> (string \<times> repository_row) list result" where
  "repository_rows db [] = Inr []"
| "repository_rows db (rid # rids) =
     (case repositories_get db rid of
        None \<Rightarrow> Inl (Internal (''workspace_repos points at non-existent repository '' @ rid))
      | Some row \<Rightarrow> and_then (repository_rows db rids) (\<lambda>rows. Inr ((rid, row) # rows)))"

fun ensure_clones :: "worktree_host \<Rightarrow> (string \<times> repository_row) list \<Rightarrow> unit result" where
  "ensure_clones h [] = Inr ()"
| "ensure_clones h ((rid, row) # rows) =
     (if ho_is_clone h (r_local_path row) then ensure_clones h rows
      else case ho_clone h rid of Some e \<Rightarrow> Inl e | None \<Rightarrow> ensure_clones h rows)"

text \<open>The checks before the loop: the workspace's slug and the repositories in their order.\<close>

definition admit_create ::
  "worktree_host \<Rightarrow> create_request \<Rightarrow> database \<Rightarrow> (string \<times> (string \<times> repository_row) list) result" where
  "admit_create h rq db =
     (if rq_workspace rq = [] then Inl (Validation ''workspace_id is required'')
      else and_then (case rq_mode rq of None \<Rightarrow> Inr () | Some mode \<Rightarrow> validate_permission_mode mode) (\<lambda>_.
        and_then (ok_or (NotFound (''workspace '' @ rq_workspace rq @ '' not found'')) (workspaces_get db (rq_workspace rq)))
          (\<lambda>ws.
          if ws_archived_at ws \<noteq> None then
            Inl (Validation (''workspace.archived: workspace '' @ rq_workspace rq @ '' is archived''))
          else if list_repos db (rq_workspace rq) = [] then
            Inl (Validation (''workspace.no_repos: workspace '' @ rq_workspace rq
              @ '' has no repositories attached; add at least one repo before creating a workarea''))
          else and_then (repository_rows db (list_repos db (rq_workspace rq))) (\<lambda>repos.
            and_then (ensure_clones h repos) (\<lambda>_.
              case ho_rules_error h of
                Some e \<Rightarrow> Inl e
              | None \<Rightarrow> Inr (ws_slug ws, repos))))))"

text \<open>What the loop over the repositories has gathered.\<close>

record build =
  bd_ok :: "(string \<times> repository_row) list"
  bd_built :: "(string \<times> string) list"
  bd_failed :: "string list"
  bd_first_err :: "error option"
  bd_warnings :: "(string \<times> string) list"

definition empty_build :: build where
  "empty_build = \<lparr>bd_ok = [], bd_built = [], bd_failed = [], bd_first_err = None, bd_warnings = []\<rparr>"

definition record_failure :: "string \<Rightarrow> error \<Rightarrow> build \<Rightarrow> build" where
  "record_failure rid e b = b\<lparr>bd_failed := bd_failed b @ [rid],
     bd_first_err := (case bd_first_err b of Some e0 \<Rightarrow> Some e0 | None \<Rightarrow> Some e)\<rparr>"

definition record_success :: "string \<Rightarrow> repository_row \<Rightarrow> string \<Rightarrow> string list \<Rightarrow> build \<Rightarrow> build" where
  "record_success rid row worktree warnings b = b\<lparr>bd_ok := bd_ok b @ [(rid, row)],
     bd_built := bd_built b @ [(r_local_path row, worktree)],
     bd_warnings := bd_warnings b @ map (\<lambda>w. (rid, w)) warnings\<rparr>"

definition cleanup_worktrees :: "worktree_host \<Rightarrow> (string \<times> string) list \<Rightarrow> string \<Rightarrow> disk \<Rightarrow> disk" where
  "cleanup_worktrees h built root d =
     remove_dir_all root (fold (\<lambda>(repo, worktree) d. snd (ho_worktree_remove h repo worktree d)) built d)"

definition is_path_escape :: "error \<Rightarrow> bool" where
  "is_path_escape e =
     (case e of Validation m \<Rightarrow> contains_str m ''file_to_copy.escapes_project_root'' | _ \<Rightarrow> False)"

text \<open>The body of the loop for one repository, and the loop.\<close>

definition build_one ::
  "worktree_host \<Rightarrow> string \<Rightarrow> string \<Rightarrow> string \<Rightarrow> string \<Rightarrow> repository_row \<Rightarrow> build \<Rightarrow> disk \<Rightarrow> build result \<times> disk" where
  "build_one h reference branch root rid row b d =
     (let local = r_local_path row; worktree = join_path root (r_name row)
      in case ho_worktree_add h local branch worktree d of
           (Some e, d1) \<Rightarrow> (Inr (record_failure rid e b), d1)
         | (None, d1) \<Rightarrow>
             (let removed = snd (ho_worktree_remove h local worktree d1)
              in case ho_exclude h worktree of
                   Some e \<Rightarrow> (Inr (record_failure rid e b), removed)
                 | None \<Rightarrow>
                     (case ho_copy h reference worktree of
                        Inl e \<Rightarrow>
                          (if is_path_escape e then (Inl e, cleanup_worktrees h (bd_built b) root removed)
                           else (Inr (record_failure rid e b), removed))
                      | Inr warnings \<Rightarrow> (Inr (record_success rid row worktree warnings b), d1))))"

fun build_repos ::
  "worktree_host \<Rightarrow> string \<Rightarrow> string \<Rightarrow> string \<Rightarrow> (string \<times> repository_row) list \<Rightarrow> build \<Rightarrow> disk \<Rightarrow> build result \<times> disk" where
  "build_repos h reference branch root [] b d = (Inr b, d)"
| "build_repos h reference branch root ((rid, row) # repos) b d =
     (case build_one h reference branch root rid row b d of
        (Inl e, d1) \<Rightarrow> (Inl e, d1)
      | (Inr b1, d1) \<Rightarrow> build_repos h reference branch root repos b1 d1)"

text \<open>
  A creation between its awaits: about to choose a name (with the number of attempts made), about to
  build below a chosen name, about to open the transaction, returned.
\<close>

datatype creator =
    Picking nat
  | Building nat string
  | Committing nat string build
  | Returned "workarea_row result"

definition worktree_root_of :: "create_request \<Rightarrow> string \<Rightarrow> string \<Rightarrow> string" where
  "worktree_root_of rq slug composer =
     join_path (join_path (join_path (rq_data_dir rq) ''workspaces'') slug) composer"

definition branch_of :: "string \<Rightarrow> string" where
  "branch_of composer = ''concerto/'' @ composer"

definition pick_turn :: "create_request \<Rightarrow> nat \<Rightarrow> manager \<Rightarrow> creator" where
  "pick_turn rq attempt m =
     (if MAX_COMPOSER_ATTEMPTS < attempt + 1 then
        Returned (Inl (Internal (''exhausted '' @ show_nat MAX_COMPOSER_ATTEMPTS
          @ '' composer allocation attempts for workspace '' @ rq_workspace rq)))
      else
        (case allocate_composer (list_composer_names_in_workspace (wm_db m) (rq_workspace rq)) of
           None \<Rightarrow> Returned (Inl (Internal (''composer allocation exhausted suffix space for workspace '' @ rq_workspace rq)))
         | Some composer \<Rightarrow> Building (attempt + 1) composer))"

definition build_turn ::
  "worktree_host \<Rightarrow> create_request \<Rightarrow> string \<Rightarrow> (string \<times> repository_row) list \<Rightarrow> nat \<Rightarrow> string \<Rightarrow> manager \<Rightarrow> creator \<times> manager" where
  "build_turn h rq slug repos attempt composer m =
     (let root = worktree_root_of rq slug composer;
          d = create_dir_all root (wm_disk m)
      in case ho_context h root of
           Some e \<Rightarrow> (Returned (Inl e), m\<lparr>wm_disk := d\<rparr>)
         | None \<Rightarrow>
             (case build_repos h (r_local_path (snd (hd repos))) (branch_of composer) root repos empty_build d of
                (Inl e, d1) \<Rightarrow> (Returned (Inl e), m\<lparr>wm_disk := d1\<rparr>)
              | (Inr b, d1) \<Rightarrow>
                  (if bd_ok b = [] then
                     (Returned (Inl (case bd_first_err b of
                          Some e \<Rightarrow> e
                        | None \<Rightarrow> Internal ''create_workarea: no repos materialized and no error recorded'')),
                      m\<lparr>wm_disk := cleanup_worktrees h (bd_built b) root d1\<rparr>)
                   else (Committing attempt composer b, m\<lparr>wm_disk := d1\<rparr>))))"

definition new_workarea_row :: "create_request \<Rightarrow> string \<Rightarrow> string \<Rightarrow> workarea_row" where
  "new_workarea_row rq slug composer =
     \<lparr>wa_workspace_id = rq_workspace rq, wa_worktree_root = worktree_root_of rq slug composer, wa_status = ''created'',
      wa_permission_mode = rq_mode rq, wa_bypass = None, wa_archived_at = None, wa_composer_name = composer,
      wa_branch_name = branch_of composer, wa_settings_json = ''{}''\<rparr>"

definition APPLIED_SETTINGS :: string where
  "APPLIED_SETTINGS = ''{'' @ [CHR 0x22] @ ''files_to_copy_applied'' @ [CHR 0x22] @ '':true}''"

definition commit_events :: "create_request \<Rightarrow> build \<Rightarrow> manager_event list" where
  "commit_events rq b =
     (if bd_failed b = [] then [] else [WaPartialCreate (rq_id rq) (bd_failed b)])
     @ map (\<lambda>(rid, message). WaCopyWarning (rq_id rq) rid message) (bd_warnings b)
     @ [WaCreated (rq_id rq)]"

text \<open>
  The transaction. A statement after the insert that fails leaves by \<open>?\<close>: the transaction is dropped,
  the worktrees stay.
\<close>

definition commit_turn :: "worktree_host \<Rightarrow> create_request \<Rightarrow> string \<Rightarrow> nat \<Rightarrow> string \<Rightarrow> build \<Rightarrow> manager \<Rightarrow> creator \<times> manager" where
  "commit_turn h rq slug attempt composer b m =
     (let root = worktree_root_of rq slug composer;
          status = (if bd_failed b = [] then ''active'' else ''partial'');
          row = new_workarea_row rq slug composer;
          cleaned = m\<lparr>wm_disk := cleanup_worktrees h (bd_built b) root (wm_disk m)\<rparr>
      in case (case ho_insert_error h of Some e \<Rightarrow> InsertFailed e | None \<Rightarrow> workareas_insert (rq_id rq) row (wm_db m)) of
           UniqueViolation \<Rightarrow> (Picking attempt, cleaned)
         | InsertFailed e \<Rightarrow> (Returned (Inl e), cleaned)
         | Inserted db1 \<Rightarrow>
             (case ho_tx_error h of
                Some e \<Rightarrow> (Returned (Inl e), m)
              | None \<Rightarrow>
                  (let db2 = fold (\<lambda>(rid, r) db. insert_workarea_repo (rq_id rq) rid (join_path root (r_name r)) db) (bd_ok b) db1;
                       db3 = workareas_update_status (rq_id rq) status db2;
                       db4 = workareas_set_settings_json (rq_id rq) APPLIED_SETTINGS db3
                   in (Returned (Inr (row\<lparr>wa_status := status, wa_settings_json := APPLIED_SETTINGS\<rparr>)),
                       m\<lparr>wm_db := db4, wm_events := wm_events m @ commit_events rq b\<rparr>))))"

fun create_turn ::
  "worktree_host \<Rightarrow> create_request \<Rightarrow> string \<Rightarrow> (string \<times> repository_row) list \<Rightarrow> creator \<Rightarrow> manager \<Rightarrow> creator \<times> manager" where
  "create_turn h rq slug repos (Picking attempt) m = (pick_turn rq attempt m, m)"
| "create_turn h rq slug repos (Building attempt composer) m = build_turn h rq slug repos attempt composer m"
| "create_turn h rq slug repos (Committing attempt composer b) m = commit_turn h rq slug attempt composer b m"
| "create_turn h rq slug repos (Returned r) m = (Returned r, m)"

text \<open>A creation that nothing interrupts: turns until it has returned, at most three per attempt.\<close>

fun run_creator ::
  "nat \<Rightarrow> worktree_host \<Rightarrow> create_request \<Rightarrow> string \<Rightarrow> (string \<times> repository_row) list \<Rightarrow> creator \<Rightarrow> manager \<Rightarrow> creator \<times> manager" where
  "run_creator 0 h rq slug repos c m = (c, m)"
| "run_creator (Suc n) h rq slug repos c m =
     (case c of Returned r \<Rightarrow> (Returned r, m)
      | _ \<Rightarrow> (case create_turn h rq slug repos c m of (c', m') \<Rightarrow> run_creator n h rq slug repos c' m'))"

definition create_workarea :: "worktree_host \<Rightarrow> create_request \<Rightarrow> manager \<Rightarrow> creator \<times> manager" where
  "create_workarea h rq m =
     (case admit_create h rq (wm_db m) of
        Inl e \<Rightarrow> (Returned (Inl e), m)
      | Inr (slug, repos) \<Rightarrow> run_creator (3 * MAX_COMPOSER_ATTEMPTS + 1) h rq slug repos (Picking 0) m)"

section \<open>Archive, restore, adoption\<close>

fun remove_worktrees :: "worktree_host \<Rightarrow> (string \<times> string) list \<Rightarrow> disk \<Rightarrow> error option \<times> disk" where
  "remove_worktrees h [] d = (None, d)"
| "remove_worktrees h ((path, repo) # repos) d =
     (if path_exists d path then
        (case ho_worktree_remove h repo path d of
           (Some e, d1) \<Rightarrow> (Some e, d1)
         | (None, d1) \<Rightarrow> remove_worktrees h repos d1)
      else remove_worktrees h repos d)"

definition remove_worktrees_and_root :: "worktree_host \<Rightarrow> database \<Rightarrow> string \<Rightarrow> string \<Rightarrow> disk \<Rightarrow> error option \<times> disk" where
  "remove_worktrees_and_root h db wid root d =
     (case remove_worktrees h (worktrees_of db wid) d of
        (Some e, d1) \<Rightarrow> (Some e, d1)
      | (None, d1) \<Rightarrow> (None, remove_dir_all root d1))"

fun recreate_each :: "worktree_host \<Rightarrow> string \<Rightarrow> (string \<times> string) list \<Rightarrow> disk \<Rightarrow> error option \<times> disk" where
  "recreate_each h branch [] d = (None, d)"
| "recreate_each h branch ((path, repo) # repos) d =
     (if path_exists d path then recreate_each h branch repos d
      else (case ho_worktree_add h repo branch path d of
              (Some e, d1) \<Rightarrow> (Some e, d1)
            | (None, d1) \<Rightarrow> recreate_each h branch repos d1))"

definition recreate_worktrees :: "worktree_host \<Rightarrow> database \<Rightarrow> string \<Rightarrow> string \<Rightarrow> string \<Rightarrow> disk \<Rightarrow> error option \<times> disk" where
  "recreate_worktrees h db wid root branch d = recreate_each h branch (worktrees_of db wid) (create_dir_all root d)"

text \<open>\<open>stop\<close> is what the supervisor's \<open>stop_session\<close> does to the database, as for the pause.\<close>

definition stop_sessions :: "(string \<Rightarrow> database \<Rightarrow> database) \<Rightarrow> string \<Rightarrow> manager \<Rightarrow> manager" where
  "stop_sessions stop wid m = m\<lparr>wm_db := fold stop (list_live_ids_by_workarea (wm_db m) wid) (wm_db m)\<rparr>"

definition archive_workarea ::
  "worktree_host \<Rightarrow> (string \<Rightarrow> database \<Rightarrow> database) \<Rightarrow> string \<Rightarrow> bool \<Rightarrow> int \<Rightarrow> manager \<Rightarrow> unit result \<times> manager" where
  "archive_workarea h stop wid remove_worktree now m =
     (case workareas_get (wm_db m) wid of
        None \<Rightarrow> (Inl (NotFound (''workarea '' @ wid @ '' not found'')), m)
      | Some workarea \<Rightarrow>
          (let m1 = stop_sessions stop wid m;
               (r, d) = (if remove_worktree
                 then remove_worktrees_and_root h (wm_db m1) wid (wa_worktree_root workarea) (wm_disk m1)
                 else (None, wm_disk m1))
           in case r of
                Some e \<Rightarrow> (Inl e, m1\<lparr>wm_disk := d\<rparr>)
              | None \<Rightarrow> (Inr (), m1\<lparr>wm_disk := d, wm_db := workareas_archive wid now (wm_db m1),
                  wm_events := wm_events m1 @ [WaArchived wid]\<rparr>)))"

definition restore_workarea :: "worktree_host \<Rightarrow> string \<Rightarrow> manager \<Rightarrow> workarea_row result \<times> manager" where
  "restore_workarea h wid m =
     (case workareas_get (wm_db m) wid of
        None \<Rightarrow> (Inl (NotFound (''workarea '' @ wid @ '' not found'')), m)
      | Some workarea \<Rightarrow>
          (case recreate_worktrees h (wm_db m) wid (wa_worktree_root workarea) (wa_branch_name workarea) (wm_disk m) of
             (Some e, d) \<Rightarrow> (Inl e, m\<lparr>wm_disk := d\<rparr>)
           | (None, d) \<Rightarrow>
               (let db' = workareas_restore wid (wm_db m)
                in case workareas_get db' wid of
                     None \<Rightarrow> (Inl (Internal (''workarea '' @ wid @ '' vanished mid-restore'')), m\<lparr>wm_disk := d, wm_db := db'\<rparr>)
                   | Some restored \<Rightarrow> (Inr restored, m\<lparr>wm_disk := d, wm_db := db',
                       wm_events := wm_events m @ [WaRestored wid]\<rparr>))))"

text \<open>\<open>probe\<close>: the outcome of the stat of a root, \<open>None\<close> for an error other than not found.\<close>

definition list_missing_worktree_workareas :: "(string \<Rightarrow> bool option) \<Rightarrow> database \<Rightarrow> string list" where
  "list_missing_worktree_workareas probe db =
     map fst (filter (\<lambda>(wid, root). probe root = Some False) (list_all_non_archived db))"

definition adopt_one :: "string \<Rightarrow> nat \<times> manager \<Rightarrow> nat \<times> manager" where
  "adopt_one wid acc =
     (case acc of (n, m) \<Rightarrow>
       (case transition_workarea wid AdoptCrashed \<lparr>st_db = wm_db m, st_broadcast = []\<rparr> of
          (r, st) \<Rightarrow> (if is_ok r then n + 1 else n, m\<lparr>wm_db := st_db st,
            wm_events := wm_events m @ map (\<lambda>(i, f, t). WaStatusChanged i f t) (st_broadcast st)\<rparr>)))"

definition adopt_crashed_workareas :: "(string \<Rightarrow> bool option) \<Rightarrow> manager \<Rightarrow> nat \<times> manager" where
  "adopt_crashed_workareas probe m =
     fold adopt_one (list_missing_worktree_workareas probe (wm_db m)) (0, m)"

definition archive_workspace_tx :: "string \<Rightarrow> string list \<Rightarrow> int \<Rightarrow> database \<Rightarrow> database" where
  "archive_workspace_tx wsid wids now db = workspaces_archive wsid now (fold (\<lambda>w. workareas_archive w now) wids db)"

text \<open>The cascade keeps the worktrees; the workareas are listed before their sessions are stopped.\<close>

definition archive_workspace ::
  "(string \<Rightarrow> database \<Rightarrow> database) \<Rightarrow> string \<Rightarrow> int \<Rightarrow> manager \<Rightarrow> unit result \<times> manager" where
  "archive_workspace stop wsid now m =
     (if workspaces_get (wm_db m) wsid = None then (Inl (NotFound (''workspace '' @ wsid @ '' not found'')), m)
      else
        (let wids = map fst (list_non_archived_minimal (wm_db m) wsid);
             m1 = fold (stop_sessions stop) wids m
         in (Inr (), m1\<lparr>wm_db := archive_workspace_tx wsid wids now (wm_db m1),
              wm_events := wm_events m1 @ map WaArchived wids @ [WsArchived wsid]\<rparr>)))"

definition restore_workspace :: "string \<Rightarrow> manager \<Rightarrow> workspace_row result \<times> manager" where
  "restore_workspace wsid m =
     (if workspaces_get (wm_db m) wsid = None then (Inl (NotFound (''workspace '' @ wsid @ '' not found'')), m)
      else
        (let db' = workspaces_restore wsid (wm_db m)
         in case workspaces_get db' wsid of
              None \<Rightarrow> (Inl (Internal (''workspace '' @ wsid @ '' vanished mid-restore'')), m\<lparr>wm_db := db'\<rparr>)
            | Some restored \<Rightarrow> (Inr restored, m\<lparr>wm_db := db', wm_events := wm_events m @ [WsRestored wsid]\<rparr>)))"

section \<open>Lemmas\<close>

lemma path_exists_iff: "path_exists d p \<longleftrightarrow> p \<in> set (dk_dirs d)"
  by (auto simp: path_exists_def list_ex_iff)

lemma under_self [simp]: "below p p"
  by (simp add: below_def)

lemma below_join [simp]: "below root (join_path root p)"
  using starts_with_str_append [of "root @ ''/''" p] by (simp add: below_def join_path_def)

lemma below_trans: "below a b \<Longrightarrow> below b c \<Longrightarrow> below a c"
  by (auto simp: below_def starts_with_str_iff)

lemma below_join_join:
  assumes "CHR ''/'' \<notin> set n" and "CHR ''/'' \<notin> set k" and "below (join_path root n) (join_path root k)"
  shows "n = k"
  using assms by (auto simp: below_def join_path_def starts_with_str_iff)

lemma exists_remove_dir_all [simp]: "path_exists (remove_dir_all root d) p \<longleftrightarrow> path_exists d p \<and> \<not> below root p"
  by (auto simp: path_exists_iff remove_dir_all_def)

lemma exists_create_dir_all [simp]: "path_exists (create_dir_all root d) p \<longleftrightarrow> p = root \<or> path_exists d p"
  by (auto simp: path_exists_iff create_dir_all_def)

lemma same_outside_refl [simp]: "same_outside root d d"
  by (simp add: same_outside_def)

lemma same_outside_trans: "same_outside root d d1 \<Longrightarrow> same_outside root d1 d2 \<Longrightarrow> same_outside root d d2"
  by (simp add: same_outside_def)

lemma same_outside_below: "same_outside q d d' \<Longrightarrow> below root q \<Longrightarrow> same_outside root d d'"
  using below_trans by (auto simp: same_outside_def)

lemma same_outside_create [simp]: "same_outside root d (create_dir_all root d)"
  by (auto simp: same_outside_def)

lemma same_outside_remove [simp]: "same_outside root d (remove_dir_all root d)"
  by (auto simp: same_outside_def)

lemma git_add_outside:
  "git_contract h \<Longrightarrow> ho_worktree_add h repo branch dest d = (r, d') \<Longrightarrow> same_outside dest d d'"
  unfolding git_contract_def by (metis snd_conv)

lemma git_add_makes: "git_contract h \<Longrightarrow> ho_worktree_add h repo branch dest d = (None, d') \<Longrightarrow> path_exists d' dest"
  unfolding git_contract_def by (metis fst_conv snd_conv)

lemma git_add_taken:
  "git_contract h \<Longrightarrow> path_exists d dest \<Longrightarrow> \<exists>e. ho_worktree_add h repo branch dest d = (Some e, d)"
  unfolding git_contract_def by (metis not_Some_eq prod.collapse)

lemma git_remove_outside: "git_contract h \<Longrightarrow> same_outside dest d (snd (ho_worktree_remove h repo dest d))"
  by (simp add: git_contract_def)

lemma fold_remove_outside:
  "git_contract h \<Longrightarrow> \<forall>(repo, w) \<in> set built. below root w \<Longrightarrow>
     same_outside root d (fold (\<lambda>(repo, w) d. snd (ho_worktree_remove h repo w d)) built d)"
proof (induction built arbitrary: d)
  case (Cons x built)
  obtain repo w where x: "x = (repo, w)" by fastforce
  have "same_outside root d (snd (ho_worktree_remove h repo w d))"
    using Cons.prems x by (auto intro: same_outside_below git_remove_outside)
  then show ?case
    using Cons.IH [of "snd (ho_worktree_remove h repo w d)"] Cons.prems x by (auto intro: same_outside_trans)
qed simp

lemma cleanup_outside:
  "git_contract h \<Longrightarrow> \<forall>(repo, w) \<in> set built. below root w \<Longrightarrow> same_outside root d (cleanup_worktrees h built root d)"
  unfolding cleanup_worktrees_def
  by (rule same_outside_trans [OF fold_remove_outside same_outside_remove])

lemma cleanup_gone: "below root p \<Longrightarrow> \<not> path_exists (cleanup_worktrees h built root d) p"
  by (simp add: cleanup_worktrees_def)

text \<open>What holds while the worktrees are built: what is recorded as materialized is there.\<close>

definition materialized :: "string \<Rightarrow> build \<Rightarrow> disk \<Rightarrow> bool" where
  "materialized root b d \<longleftrightarrow>
     (\<forall>(rid, row) \<in> set (bd_ok b). CHR ''/'' \<notin> set (r_name row) \<and> path_exists d (join_path root (r_name row)))
     \<and> (\<forall>(repo, w) \<in> set (bd_built b). below root w)"

lemma materialized_outside:
  assumes "materialized root b d" and "same_outside (join_path root k) d d'" and "CHR ''/'' \<notin> set k"
    and "\<not> path_exists d (join_path root k)"
  shows "materialized root b d'"
  using assms below_join_join unfolding materialized_def same_outside_def by fastforce

lemma record_failure_simps [simp]:
  "bd_ok (record_failure rid e b) = bd_ok b" "bd_failed (record_failure rid e b) = bd_failed b @ [rid]"
  by (simp_all add: record_failure_def)

lemma record_success_simps [simp]:
  "bd_ok (record_success rid row w ws b) = bd_ok b @ [(rid, row)]" "bd_failed (record_success rid row w ws b) = bd_failed b"
  by (simp_all add: record_success_def)

lemma materialized_failure [simp]: "materialized root (record_failure rid e b) d = materialized root b d"
  by (simp add: materialized_def record_failure_def)

lemma build_one_Inr:
  assumes "git_contract h" and "CHR ''/'' \<notin> set (r_name row)" and "materialized root b d"
    and "build_one h reference branch root rid row b d = (Inr b', d')"
  shows "materialized root b' d' \<and> same_outside root d d' \<and>
    ((bd_ok b' = bd_ok b @ [(rid, row)] \<and> bd_failed b' = bd_failed b)
     \<or> (bd_ok b' = bd_ok b \<and> bd_failed b' = bd_failed b @ [rid]))"
proof -
  let ?w = "join_path root (r_name row)"
  obtain r d1 where add: "ho_worktree_add h (r_local_path row) branch ?w d = (r, d1)" by fastforce
  show ?thesis
  proof (cases "path_exists d ?w")
    case True
    with git_add_taken [OF assms(1)] add obtain e where "r = Some e" "d1 = d" by (metis prod.inject)
    with add assms(3,4) show ?thesis by (auto simp: build_one_def Let_def)
  next
    case False
    let ?d2 = "snd (ho_worktree_remove h (r_local_path row) ?w d1)"
    have o1: "same_outside ?w d d1" using git_add_outside [OF assms(1) add] .
    then have o2: "same_outside ?w d ?d2" using git_remove_outside [OF assms(1)] same_outside_trans by blast
    from o1 o2 have r: "same_outside root d d1" "same_outside root d ?d2" by (auto intro: same_outside_below)
    from o1 o2 have m: "materialized root b d1" "materialized root b ?d2"
      using materialized_outside [OF assms(3) _ assms(2) False] by auto
    have s: "materialized root (record_success rid row ?w ws b) d1" if "r = None" for ws
      using m(1) assms(2) git_add_makes [OF assms(1)] add that
      by (auto simp: materialized_def record_success_def)
    show ?thesis using assms(4) add r m s
      by (auto simp: build_one_def Let_def split: option.splits sum.splits if_splits)
  qed
qed

lemma build_one_outside:
  assumes "git_contract h" and "materialized root b d" and "build_one h reference branch root rid row b d = (Inl e, d')"
  shows "same_outside root d d'"
proof -
  let ?w = "join_path root (r_name row)"
  obtain d1 where add: "ho_worktree_add h (r_local_path row) branch ?w d = (None, d1)"
    and d': "d' = cleanup_worktrees h (bd_built b) root (snd (ho_worktree_remove h (r_local_path row) ?w d1))"
    using assms(3) by (auto simp: build_one_def Let_def split: prod.splits option.splits sum.splits if_splits)
  have "same_outside ?w d (snd (ho_worktree_remove h (r_local_path row) ?w d1))"
    using git_add_outside [OF assms(1) add] git_remove_outside [OF assms(1)] same_outside_trans by blast
  then have "same_outside root d (snd (ho_worktree_remove h (r_local_path row) ?w d1))"
    by (rule same_outside_below) simp
  then show ?thesis unfolding d'
    by (rule same_outside_trans) (use assms(2) in \<open>auto intro!: cleanup_outside [OF assms(1)] simp: materialized_def\<close>)
qed

lemma build_repos_Inr:
  assumes "git_contract h" and "\<forall>(rid, row) \<in> set repos. CHR ''/'' \<notin> set (r_name row)" and "materialized root b d"
    and "build_repos h reference branch root repos b d = (Inr b', d')"
  shows "materialized root b' d' \<and> same_outside root d d' \<and>
    (\<exists>oks fs. bd_ok b' = bd_ok b @ oks \<and> bd_failed b' = bd_failed b @ fs \<and> set oks \<subseteq> set repos \<and>
       (if fs = [] then oks = repos else length oks < length repos))"
  using assms(2-4)
proof (induction repos arbitrary: b d)
  case (Cons x repos)
  obtain rid row where x: "x = (rid, row)" by fastforce
  from Cons.prems(3) x obtain b1 d1 where one: "build_one h reference branch root rid row b d = (Inr b1, d1)"
    and rest: "build_repos h reference branch root repos b1 d1 = (Inr b', d')"
    by (auto split: prod.splits sum.splits)
  have n: "CHR ''/'' \<notin> set (r_name row)" using Cons.prems(1) x by simp
  note o = build_one_Inr [OF assms(1) n Cons.prems(2) one]
  then have m1: "materialized root b1 d1" by simp
  have ns: "\<forall>(rid, row) \<in> set repos. CHR ''/'' \<notin> set (r_name row)" using Cons.prems(1) by simp
  from Cons.IH [OF ns m1 rest] obtain oks fs where
    "materialized root b' d'" "same_outside root d1 d'" "bd_ok b' = bd_ok b1 @ oks" "bd_failed b' = bd_failed b1 @ fs"
    "set oks \<subseteq> set repos" "if fs = [] then oks = repos else length oks < length repos" by blast
  moreover from this have "length oks \<le> length repos" by (auto split: if_splits)
  ultimately show ?case using o x same_outside_trans
    by (intro conjI) (auto split: if_splits intro: same_outside_trans
      intro!: exI [of _ "(if bd_failed b1 = bd_failed b then [(rid, row)] else []) @ oks"]
        exI [of _ "(if bd_failed b1 = bd_failed b then [] else [rid]) @ fs"])
qed simp

lemma build_repos_Inl:
  assumes "git_contract h" and "\<forall>(rid, row) \<in> set repos. CHR ''/'' \<notin> set (r_name row)" and "materialized root b d"
    and "build_repos h reference branch root repos b d = (Inl e, d')"
  shows "same_outside root d d'"
  using assms(2-4)
proof (induction repos arbitrary: b d)
  case (Cons x repos)
  obtain rid row where x: "x = (rid, row)" by fastforce
  show ?case
  proof (cases "build_one h reference branch root rid row b d")
    case (Pair r d1)
    show ?thesis
    proof (cases r)
      case (Inl e1)
      with Pair Cons.prems(3) x have "d' = d1" by simp
      with build_one_outside [OF assms(1) Cons.prems(2)] Pair Inl show ?thesis by blast
    next
      case (Inr b1)
      have "CHR ''/'' \<notin> set (r_name row)" using Cons.prems(1) x by simp
      from build_one_Inr [OF assms(1) this Cons.prems(2)] Pair Inr
      have o: "materialized root b1 d1" "same_outside root d d1" by blast+
      have "build_repos h reference branch root repos b1 d1 = (Inl e, d')"
        using Cons.prems(3) Pair Inr x by simp
      with Cons.IH [OF _ o(1)] Cons.prems(1) o(2) show ?thesis by (auto intro: same_outside_trans)
    qed
  qed
qed simp

lemma materialized_empty [simp]: "materialized root empty_build d"
  by (simp add: materialized_def empty_build_def)

lemma build_turn_cases:
  assumes "git_contract h" and "\<forall>(rid, row) \<in> set repos. CHR ''/'' \<notin> set (r_name row)"
    and "build_turn h rq slug repos attempt composer m = (c, m1)"
  shows "wm_db m1 = wm_db m \<and> wm_events m1 = wm_events m
    \<and> same_outside (worktree_root_of rq slug composer) (wm_disk m) (wm_disk m1)
    \<and> ((\<exists>e. c = Returned (Inl e)) \<or>
       (\<exists>b. c = Committing attempt composer b \<and> materialized (worktree_root_of rq slug composer) b (wm_disk m1)
          \<and> bd_ok b \<noteq> [] \<and> set (bd_ok b) \<subseteq> set repos
          \<and> (if bd_failed b = [] then bd_ok b = repos else length (bd_ok b) < length repos)))"
proof -
  let ?root = "worktree_root_of rq slug composer"
  let ?d = "create_dir_all ?root (wm_disk m)"
  obtain r d1 where b: "build_repos h (r_local_path (snd (hd repos))) (branch_of composer) ?root repos empty_build ?d = (r, d1)"
    by fastforce
  show ?thesis
  proof (cases r)
    case (Inl e)
    with build_repos_Inl [OF assms(1,2) materialized_empty] b have "same_outside ?root ?d d1" by blast
    with assms(3) b Inl show ?thesis
      by (auto simp: build_turn_def Let_def split: option.splits intro: same_outside_trans [OF same_outside_create])
  next
    case (Inr bd)
    with b build_repos_Inr [OF assms(1,2) materialized_empty]
    have o: "materialized ?root bd d1" "same_outside ?root ?d d1" "set (bd_ok bd) \<subseteq> set repos"
      "if bd_failed bd = [] then bd_ok bd = repos else length (bd_ok bd) < length repos"
      by (fastforce simp: empty_build_def)+
    then have "same_outside ?root (wm_disk m) d1" using same_outside_trans [OF same_outside_create] by blast
    moreover have "same_outside ?root d1 (cleanup_worktrees h (bd_built bd) ?root d1)"
      using o(1) by (intro cleanup_outside [OF assms(1)]) (simp add: materialized_def)
    ultimately show ?thesis using assms(3) b Inr o
      by (auto simp: build_turn_def Let_def split: option.splits if_splits intro: same_outside_trans)
  qed
qed

lemma fold_insert_repos:
  "db_workarea_repos (fold (\<lambda>(rid, r) db. insert_workarea_repo wid rid (join_path root (r_name r)) db) oks db) =
     db_workarea_repos db @ map (\<lambda>(rid, r). (wid, rid, join_path root (r_name r))) oks
   \<and> db_workareas (fold (\<lambda>(rid, r) db. insert_workarea_repo wid rid (join_path root (r_name r)) db) oks db) = db_workareas db"
  by (induction oks arbitrary: db) (auto simp: insert_workarea_repo_def)

lemma insert_free:
  assumes "composer \<notin> set (list_composer_names_in_workspace db (rq_workspace rq))"
  shows "workareas_insert (rq_id rq) (new_workarea_row rq slug composer) db =
    Inserted (db\<lparr>db_workareas := db_workareas db @ [(rq_id rq, new_workarea_row rq slug composer)]\<rparr>)"
  using assms by (force simp: workareas_insert_def list_ex_iff list_composer_names_in_workspace_def new_workarea_row_def)

lemma commit_turn_cases:
  assumes "wa_composer \<notin> set (list_composer_names_in_workspace (wm_db m) (rq_workspace rq))"
    and "map_of (db_workareas (wm_db m)) (rq_id rq) = None"
    and "commit_turn h rq slug attempt wa_composer b m = (c, m')"
  shows "(\<exists>e. c = Returned (Inl e) \<and> wm_db m' = wm_db m \<and> wm_events m' = wm_events m) \<or>
    (\<exists>wa. c = Returned (Inr wa) \<and> wm_disk m' = wm_disk m
       \<and> wa_worktree_root wa = worktree_root_of rq slug wa_composer
       \<and> wa_composer_name wa = wa_composer \<and> wa_permission_mode wa = rq_mode rq
       \<and> wa_status wa = (if bd_failed b = [] then ''active'' else ''partial'')
       \<and> (\<forall>j. workareas_get (wm_db m') j = (if j = rq_id rq then Some wa else workareas_get (wm_db m) j))
       \<and> db_workarea_repos (wm_db m') = db_workarea_repos (wm_db m)
           @ map (\<lambda>(rid, r). (rq_id rq, rid, join_path (worktree_root_of rq slug wa_composer) (r_name r))) (bd_ok b)
       \<and> wm_events m' = wm_events m @ commit_events rq b)"
proof -
  note insert_free [OF assms(1), of slug]
  with assms(2,3) show ?thesis
    by (auto simp: commit_turn_def Let_def workareas_get_def fold_insert_repos workareas_update_status_def
        workareas_set_settings_json_def map_of_sql_update map_add_def new_workarea_row_def split: option.splits)
qed

lemma repository_rows_Inr:
  "repository_rows db rids = Inr rows \<Longrightarrow> map fst rows = rids \<and> (\<forall>(rid, row) \<in> set rows. repositories_get db rid = Some row)"
proof (induction rids arbitrary: rows)
  case (Cons rid rids)
  then obtain row rest where "repositories_get db rid = Some row" "repository_rows db rids = Inr rest" "rows = (rid, row) # rest"
    by (auto simp: and_then_Inr_iff split: option.splits)
  with Cons.IH show ?case by simp
qed simp

lemma admit_create_Inr:
  "admit_create h rq db = Inr (slug, repos) \<Longrightarrow> repository_rows db (list_repos db (rq_workspace rq)) = Inr repos"
  by (auto simp: admit_create_def and_then_Inr_iff split: if_splits option.splits)

lemma run_returned [simp]: "run_creator n h rq slug repos (Returned r) m = (Returned r, m)"
  by (cases n) simp_all

lemma run_turn:
  "(\<And>r. c \<noteq> Returned r) \<Longrightarrow> run_creator (Suc n) h rq slug repos c m =
     (case create_turn h rq slug repos c m of (c', m') \<Rightarrow> run_creator n h rq slug repos c' m')"
  by (cases c) simp_all

lemma run_committing:
  "run_creator 299 h rq slug repos (Committing a composer b) m =
     (case commit_turn h rq slug a composer b m of (c, m') \<Rightarrow> run_creator 298 h rq slug repos c m')"
  using run_turn [of "Committing a composer b" 298] by simp

lemma create_workarea_turns:
  assumes "admit_create h rq (wm_db m) = Inr (slug, repos)" and "create_workarea h rq m = (c, m')"
  shows "(\<exists>e. c = Returned (Inl e) \<and> m' = m) \<or>
    (\<exists>composer c1 m1. allocate_composer (list_composer_names_in_workspace (wm_db m) (rq_workspace rq)) = Some composer
       \<and> build_turn h rq slug repos 1 composer m = (c1, m1)
       \<and> (c, m') = run_creator 299 h rq slug repos c1 m1)"
proof -
  have "run_creator 301 h rq slug repos (Picking 0) m = run_creator 300 h rq slug repos (pick_turn rq 0 m) m"
    using run_turn [of "Picking 0" 300] by simp
  moreover have "run_creator 300 h rq slug repos (Building a composer) m =
      (case build_turn h rq slug repos a composer m of (c1, m1) \<Rightarrow> run_creator 299 h rq slug repos c1 m1)" for a composer
    using run_turn [of "Building a composer" 299] by simp
  ultimately show ?thesis
    using assms by (cases "allocate_composer (list_composer_names_in_workspace (wm_db m) (rq_workspace rq))")
      (auto simp: create_workarea_def pick_turn_def MAX_COMPOSER_ATTEMPTS_def split: prod.splits)
qed

lemma repositories_get_mem: "repositories_get db rid = Some r \<Longrightarrow> (rid, r) \<in> set (db_repositories db)"
  by (simp add: repositories_get_def map_of_SomeD)

lemma create_workarea_cases:
  assumes "git_contract h" and "\<forall>(rid, r) \<in> set (db_repositories (wm_db m)). CHR ''/'' \<notin> set (r_name r)"
    and "map_of (db_workareas (wm_db m)) (rq_id rq) = None"
    and "create_workarea h rq m = (c, m')"
  shows "(\<exists>e. c = Returned (Inl e) \<and> wm_db m' = wm_db m \<and> wm_events m' = wm_events m) \<or>
    (\<exists>slug repos composer b m1. admit_create h rq (wm_db m) = Inr (slug, repos)
       \<and> allocate_composer (list_composer_names_in_workspace (wm_db m) (rq_workspace rq)) = Some composer
       \<and> build_turn h rq slug repos 1 composer m = (Committing 1 composer b, m1)
       \<and> commit_turn h rq slug 1 composer b m1 = (c, m') \<and> (\<exists>wa. c = Returned (Inr wa))
       \<and> map fst repos = list_repos (wm_db m) (rq_workspace rq)
       \<and> (\<forall>(rid, row) \<in> set repos. CHR ''/'' \<notin> set (r_name row)))"
proof (cases "admit_create h rq (wm_db m)")
  case (Inl e)
  with assms(4) have "c = Returned (Inl e) \<and> m' = m" by (auto simp: create_workarea_def)
  then show ?thesis by blast
next
  case (Inr p)
  obtain slug repos where p: "p = (slug, repos)" by fastforce
  note adm = Inr [unfolded p]
  note rows = repository_rows_Inr [OF admit_create_Inr [OF adm]]
  then have ns: "\<forall>(rid, row) \<in> set repos. CHR ''/'' \<notin> set (r_name row)"
    using assms(2) repositories_get_mem by fastforce
  from create_workarea_turns [OF adm assms(4)] show ?thesis
  proof (elim disjE exE conjE)
    fix composer c1 m1
    assume al: "allocate_composer (list_composer_names_in_workspace (wm_db m) (rq_workspace rq)) = Some composer"
      and bt: "build_turn h rq slug repos 1 composer m = (c1, m1)"
      and rn: "(c, m') = run_creator 299 h rq slug repos c1 m1"
    note o = build_turn_cases [OF assms(1) ns bt]
    show ?thesis
    proof (cases "\<exists>e. c1 = Returned (Inl e)")
      case True
      with o rn show ?thesis by auto
    next
      case False
      with o obtain b where c1: "c1 = Committing 1 composer b" by blast
      obtain c2 m2 where cm: "commit_turn h rq slug 1 composer b m1 = (c2, m2)" by fastforce
      have free: "composer \<notin> set (list_composer_names_in_workspace (wm_db m1) (rq_workspace rq))"
        and fresh: "map_of (db_workareas (wm_db m1)) (rq_id rq) = None"
        using al allocate_from_Some o assms(3) by (auto simp: allocate_composer_def)
      from commit_turn_cases [OF free fresh cm] obtain r where c2: "c2 = Returned r" by blast
      then have "(c, m') = (c2, m2)" using rn c1 cm by (simp add: run_committing)
      with commit_turn_cases [OF free fresh cm] o cm bt c1 al adm rows ns show ?thesis by fastforce
    qed
  qed simp
qed


section \<open>A creation always returns\<close>

text \<open>How many turns a creation still has at most, and its turns among whatever others do to the state.\<close>

fun turns_left :: "creator \<Rightarrow> nat" where
  "turns_left (Picking attempt) = 3 * (MAX_COMPOSER_ATTEMPTS - attempt) + 1"
| "turns_left (Building attempt _) = 3 * (MAX_COMPOSER_ATTEMPTS - attempt) + 3"
| "turns_left (Committing attempt _ _) = 3 * (MAX_COMPOSER_ATTEMPTS - attempt) + 2"
| "turns_left (Returned _) = 0"

fun turns_among ::
  "worktree_host \<Rightarrow> create_request \<Rightarrow> string \<Rightarrow> (string \<times> repository_row) list \<Rightarrow> creator \<Rightarrow> manager list \<Rightarrow> creator" where
  "turns_among h rq slug repos c [] = c"
| "turns_among h rq slug repos c (m # ms) = turns_among h rq slug repos (fst (create_turn h rq slug repos c m)) ms"

lemma turn_decreases:
  "(\<And>r. c \<noteq> Returned r) \<Longrightarrow> turns_left (fst (create_turn h rq slug repos c m)) < turns_left c"
  by (cases c) (auto simp: pick_turn_def build_turn_def commit_turn_def Let_def MAX_COMPOSER_ATTEMPTS_def
    split: option.splits insert_outcome.splits prod.splits sum.splits)

text \<open>A creation returns after at most 301 of its own turns, whatever other tasks do to the database
  and the disk between them.\<close>

theorem create_returns:
  assumes "301 \<le> length ms"
  shows "\<exists>r. turns_among h rq slug repos (Picking 0) ms = Returned r"
proof -
  have ret: "turns_among h rq slug repos (Returned r) ms = Returned r" for r ms
    by (induction ms) simp_all
  have "\<exists>r. turns_among h rq slug repos c ms = Returned r" if "turns_left c \<le> length ms" for c ms
    using that
  proof (induction ms arbitrary: c)
    case Nil
    then show ?case by (cases c) simp_all
  next
    case (Cons m ms)
    show ?case
    proof (cases "\<exists>r. c = Returned r")
      case False
      with turn_decreases [of c h rq slug repos m] Cons show ?thesis by fastforce
    qed (use ret in blast)
  qed
  with assms show ?thesis by (simp add: MAX_COMPOSER_ATTEMPTS_def)
qed

section \<open>What restoring keeps and loses\<close>

lemma restore_workarea_Inr:
  assumes "restore_workarea h wid m = (Inr wa, m')"
  shows "\<exists>old. workareas_get (wm_db m) wid = Some old
    \<and> wa = old\<lparr>wa_archived_at := None, wa_status := ''active'', wa_permission_mode := None\<rparr>
    \<and> recreate_worktrees h (wm_db m) wid (wa_worktree_root old) (wa_branch_name old) (wm_disk m) = (None, wm_disk m')
    \<and> wm_db m' = workareas_restore wid (wm_db m)"
  using assms
  by (auto simp: restore_workarea_def workareas_restore_def workareas_get_def map_of_sql_update Let_def
      split: option.splits prod.splits)

text \<open>Restoring a workarea clears its mode, so that it inherits the workspace's, but not its bypass of the
  destructive guard: the gate of its sessions stays bypassed. It does so from every state, though the
  machine admits a restore from archived alone.\<close>

theorem restore_keeps_bypass:
  assumes "restore_workarea h wid m = (Inr wa, m')" and "workareas_get (wm_db m) wid = Some old"
    and "wa_bypass old = Some 1" and "sessions_get (wm_db m) sid = Some s" and "s_workarea_id s = wid"
    and "workspaces_get (wm_db m) (wa_workspace_id old) \<noteq> None"
  shows "wa_permission_mode wa = None \<and> wa_status wa = ''active'' \<and> bypass_for_session (wm_db m') sid"
proof -
  from restore_workarea_Inr [OF assms(1)] assms(2) have r:
    "wa = old\<lparr>wa_archived_at := None, wa_status := ''active'', wa_permission_mode := None\<rparr>"
    "wm_db m' = workareas_restore wid (wm_db m)" by auto
  have "sessions_get (wm_db m') sid = Some s" "workareas_get (wm_db m') wid = Some wa"
    "map_of (db_workspaces (wm_db m')) (wa_workspace_id old) \<noteq> None"
    using assms(2,4,6) r
    by (simp_all add: workareas_restore_def sessions_get_def workareas_get_def map_of_sql_update workspaces_get_def)
  with r(1) assms(3,5) show ?thesis
    by (auto simp: bypass_for_session_def mode_row_of_def sessions_get_def workareas_get_def split: option.splits)
qed

lemma recreate_each_tip:
  assumes "git_contract h" and "resets_branch h" and "recreate_each h branch repos d = (None, d')"
  shows "dk_head d' = dk_head d \<and> (\<forall>repo. dk_tip d' repo branch \<in> {dk_tip d repo branch, dk_head d repo})"
  using assms(3)
proof (induction repos arbitrary: d)
  case (Cons x repos)
  obtain path repo where x: "x = (path, repo)" by fastforce
  show ?case
  proof (cases "path_exists d path")
    case False
    with Cons.prems x obtain d1 where a: "ho_worktree_add h repo branch path d = (None, d1)"
      and r: "recreate_each h branch repos d1 = (None, d')"
      by (auto split: prod.splits option.splits)
    have "dk_tip d1 repo branch = dk_head d repo \<and> dk_head d1 = dk_head d \<and> (\<forall>q. q \<noteq> repo \<longrightarrow> dk_tip d1 q = dk_tip d q)"
      using assms(2) a unfolding resets_branch_def by blast
    with Cons.IH [OF r] show ?thesis by (metis insert_iff empty_iff)
  qed (use Cons x in simp)
qed simp

text \<open>Restoring a workarea whose worktree is gone resets its branch to the head of the repository: the
  commits that only the branch held are no longer on it.\<close>

theorem restore_resets_branch:
  assumes "git_contract h" and "resets_branch h" and "restore_workarea h wid m = (Inr wa, m')"
    and "worktrees_of (wm_db m) wid = (path, repo) # rest" and "\<not> path_exists (wm_disk m) path" and "path \<noteq> wa_worktree_root wa"
  shows "dk_tip (wm_disk m') repo (wa_branch_name wa) = dk_head (wm_disk m) repo"
proof -
  from restore_workarea_Inr [OF assms(3)] obtain old where
    w: "wa = old\<lparr>wa_archived_at := None, wa_status := ''active'', wa_permission_mode := None\<rparr>"
    and rc: "recreate_worktrees h (wm_db m) wid (wa_worktree_root old) (wa_branch_name old) (wm_disk m) = (None, wm_disk m')"
    by blast
  from w have wa: "wa_worktree_root wa = wa_worktree_root old" "wa_branch_name wa = wa_branch_name old" by simp_all
  let ?d = "create_dir_all (wa_worktree_root old) (wm_disk m)"
  have "\<not> path_exists ?d path" using assms(5,6) wa by simp
  then obtain d1 where a: "ho_worktree_add h repo (wa_branch_name old) path ?d = (None, d1)"
    and r: "recreate_each h (wa_branch_name old) rest d1 = (None, wm_disk m')"
    using rc assms(4) by (auto simp: recreate_worktrees_def split: prod.splits option.splits)
  have "dk_tip d1 repo (wa_branch_name old) = dk_head ?d repo \<and> dk_head d1 = dk_head ?d"
    using assms(2) a unfolding resets_branch_def by blast
  with recreate_each_tip [OF assms(1,2) r] wa show ?thesis
    by (metis create_dir_all_def disk.select_convs(3) disk.update_convs(1) disk.surjective empty_iff insert_iff)
qed

text \<open>C38: Two creations in one workspace that choose a name before either has committed choose the same one
  and share its root. When the first has built and committed, the second finds every worktree taken, fails, and
  its clean-up removes the root: the first workarea stays active in the database with nothing on disk.\<close>

theorem concurrent_create_destroys_worktree:
  assumes "git_contract h" and "\<forall>(rid, row) \<in> set repos. CHR ''/'' \<notin> set (r_name row)" and "repos \<noteq> []"
    and "map_of (db_workareas (wm_db m)) (rq_id rqA) = None"
    and "pick_turn rqA 0 m = Building 1 composer"
    and "build_turn h rqA slug repos 1 composer m = (Committing 1 composer b, m1)" and "bd_failed b = []"
    and "commit_turn h rqA slug 1 composer b m1 = (Returned (Inr wa), m2)"
    and "rq_workspace rqB = rq_workspace rqA" and "rq_data_dir rqB = rq_data_dir rqA"
  shows "pick_turn rqB 0 m1 = Building 1 composer \<and>
    (\<exists>e m3. build_turn h rqB slug repos 1 composer m2 = (Returned (Inl e), m3)
       \<and> workareas_get (wm_db m3) (rq_id rqA) = Some wa \<and> wa_status wa = ''active''
       \<and> (\<forall>p. below (wa_worktree_root wa) p \<longrightarrow> \<not> path_exists (wm_disk m3) p))"
proof -
  let ?root = "worktree_root_of rqA slug composer"
  have root: "worktree_root_of rqB slug composer = ?root"
    by (simp add: worktree_root_of_def assms(10))
  from build_turn_cases [OF assms(1,2,6)] assms(7) have o: "wm_db m1 = wm_db m"
    "materialized ?root b (wm_disk m1)" "bd_ok b = repos" by auto
  have free: "composer \<notin> set (list_composer_names_in_workspace (wm_db m1) (rq_workspace rqA))"
    using assms(5) o(1) allocate_from_Some
    by (auto simp: pick_turn_def allocate_composer_def split: if_splits option.splits)
  from commit_turn_cases [OF free _ assms(8)] assms(4,7) o(1) have c: "wm_disk m2 = wm_disk m1"
    "wa_worktree_root wa = ?root" "wa_status wa = ''active''" "workareas_get (wm_db m2) (rq_id rqA) = Some wa"
    by auto
  have p: "pick_turn rqB 0 m1 = Building 1 composer"
    using assms(5,9) o(1) by (auto simp: pick_turn_def MAX_COMPOSER_ATTEMPTS_def split: option.splits)
  have ctx: "ho_context h ?root = None"
    using assms(6) by (auto simp: build_turn_def Let_def split: option.splits)
  have fail: "\<exists>b'. build_repos h r br ?root rs bd d = (Inr b', d) \<and> bd_ok b' = bd_ok bd \<and> bd_built b' = bd_built bd"
    if "\<forall>(rid, row) \<in> set rs. path_exists d (join_path ?root (r_name row))" for r br rs bd d
    using that
  proof (induction rs arbitrary: bd)
    case (Cons x rs)
    obtain rid row where x: "x = (rid, row)" by fastforce
    obtain e where "ho_worktree_add h (r_local_path row) br (join_path ?root (r_name row)) d = (Some e, d)"
      using git_add_taken [OF assms(1)] Cons.prems x by fastforce
    then have "build_one h r br ?root rid row bd d = (Inr (record_failure rid e bd), d)"
      by (simp add: build_one_def Let_def)
    with Cons x show ?case by (fastforce simp: record_failure_def)
  qed simp
  have "\<forall>(rid, row) \<in> set repos. path_exists (create_dir_all ?root (wm_disk m2)) (join_path ?root (r_name row))"
    using o(2,3) c(1) by (auto simp: materialized_def)
  from fail [OF this, of "r_local_path (snd (hd repos))" "branch_of composer" empty_build] obtain b' where
    b': "build_repos h (r_local_path (snd (hd repos))) (branch_of composer) ?root repos empty_build (create_dir_all ?root (wm_disk m2))
      = (Inr b', create_dir_all ?root (wm_disk m2))" "bd_ok b' = []" by (auto simp: empty_build_def)
  show ?thesis
    using p c ctx b' cleanup_gone [of ?root] by (auto simp: build_turn_def root Let_def)
qed

text \<open>A workarea is created in the mode the request names. Yolo needs no acknowledgement there, which
  every later change of a mode to yolo does.\<close>

theorem created_yolo_unacknowledged:
  assumes "git_contract h" and "\<forall>(rid, r) \<in> set (db_repositories (wm_db m)). CHR ''/'' \<notin> set (r_name r)"
    and "map_of (db_workareas (wm_db m)) (rq_id rq) = None"
    and "create_workarea h rq m = (Returned (Inr wa), m')" and "rq_mode rq = Some ''yolo''"
  shows "map_option wa_permission_mode (workareas_get (wm_db m') (rq_id rq)) = Some (Some ''yolo'') \<and>
    admit_mode loaded ''yolo'' [] = Inl (ack_required_mode Yolo)"
proof -
  from create_workarea_cases [OF assms(1-4)] obtain slug repos composer b m1 where
    al: "allocate_composer (list_composer_names_in_workspace (wm_db m) (rq_workspace rq)) = Some composer"
    and bt: "build_turn h rq slug repos 1 composer m = (Committing 1 composer b, m1)"
    and cm: "commit_turn h rq slug 1 composer b m1 = (Returned (Inr wa), m')"
    and ns: "\<forall>(rid, row) \<in> set repos. CHR ''/'' \<notin> set (r_name row)" by blast
  have "wm_db m1 = wm_db m" using build_turn_cases [OF assms(1) ns bt] by simp
  with commit_turn_cases [OF _ _ cm] al allocate_from_Some assms(3,5)
  have "workareas_get (wm_db m') (rq_id rq) = Some wa" "wa_permission_mode wa = Some ''yolo''"
    by (auto simp: allocate_composer_def)
  then show ?thesis by (simp add: admit_mode_def parse_permission_mode_def ack_for_yolo_def ACK_YOLO_def)
qed

section \<open>The cascade and the sweep\<close>

lemma workareas_get_archive:
  "workareas_get (workareas_archive wid now db) j =
     (if j = wid then map_option (\<lambda>r. r\<lparr>wa_archived_at := Some now, wa_status := ''archived''\<rparr>) (workareas_get db j)
      else workareas_get db j)"
  by (simp add: workareas_get_def workareas_archive_def map_of_sql_update)

lemma workareas_get_archive_all:
  "workareas_get (fold (\<lambda>w. workareas_archive w now) wids db) j =
     (if j \<in> set wids then map_option (\<lambda>r. r\<lparr>wa_archived_at := Some now, wa_status := ''archived''\<rparr>) (workareas_get db j)
      else workareas_get db j)"
  by (induction wids arbitrary: db) (auto simp: workareas_get_archive option.map_comp comp_def)

lemma in_list_non_archived:
  assumes "distinct (map fst (db_workareas db))"
  shows "j \<in> set (map fst (list_non_archived_minimal db wsid)) \<longleftrightarrow>
    (\<exists>w. workareas_get db j = Some w \<and> wa_workspace_id w = wsid \<and> wa_archived_at w = None)"
  using assms by (force simp: list_non_archived_minimal_def workareas_get_def map_of_eq_Some_iff)

definition stops_only_sessions :: "(string \<Rightarrow> database \<Rightarrow> database) \<Rightarrow> bool" where
  "stops_only_sessions stop \<longleftrightarrow> (\<forall>sid db. db_workareas (stop sid db) = db_workareas db \<and> db_workspaces (stop sid db) = db_workspaces db)"

lemma fold_stop:
  "stops_only_sessions stop \<Longrightarrow> db_workareas (fold stop sids db) = db_workareas db \<and> db_workspaces (fold stop sids db) = db_workspaces db"
  by (induction sids arbitrary: db) (auto simp: stops_only_sessions_def)

lemma fold_stop_sessions:
  "stops_only_sessions stop \<Longrightarrow>
     db_workareas (wm_db (fold (stop_sessions stop) wids m)) = db_workareas (wm_db m)
     \<and> db_workspaces (wm_db (fold (stop_sessions stop) wids m)) = db_workspaces (wm_db m)
     \<and> wm_disk (fold (stop_sessions stop) wids m) = wm_disk m"
  by (induction wids arbitrary: m) (auto simp: stop_sessions_def fold_stop)

text \<open>Archiving a workspace archives it and every workarea of it that was not archived yet, with one
  time stamp, and nothing else: other workareas keep their rows, archived ones their stamp, and the
  worktrees stay on disk.\<close>

theorem workspace_archive_cascades:
  assumes "stops_only_sessions stop" and "distinct (map fst (db_workareas (wm_db m)))"
    and "archive_workspace stop wsid now m = (Inr (), m')"
  shows "workareas_get (wm_db m') j =
      map_option (\<lambda>w. if wa_workspace_id w = wsid \<and> wa_archived_at w = None
        then w\<lparr>wa_archived_at := Some now, wa_status := ''archived''\<rparr> else w) (workareas_get (wm_db m) j)
    \<and> map_option ws_archived_at (workspaces_get (wm_db m') wsid) = Some (Some now) \<and> wm_disk m' = wm_disk m"
proof -
  let ?wids = "map fst (list_non_archived_minimal (wm_db m) wsid)"
  let ?m1 = "fold (stop_sessions stop) ?wids m"
  from assms(3) have m': "wm_db m' = archive_workspace_tx wsid ?wids now (wm_db ?m1)" "wm_disk m' = wm_disk ?m1"
    and ws: "workspaces_get (wm_db m) wsid \<noteq> None"
    by (auto simp: archive_workspace_def Let_def split: if_splits)
  note s = fold_stop_sessions [OF assms(1), of ?wids m]
  have w: "db_workspaces (fold (\<lambda>w. workareas_archive w now) wids db) = db_workspaces db" for wids db
    by (induction wids arbitrary: db) (auto simp: workareas_archive_def)
  have "workareas_get (wm_db ?m1) j = workareas_get (wm_db m) j" by (simp add: workareas_get_def s)
  then have "workareas_get (wm_db m') j =
      (if j \<in> set ?wids then map_option (\<lambda>r. r\<lparr>wa_archived_at := Some now, wa_status := ''archived''\<rparr>) (workareas_get (wm_db m) j)
       else workareas_get (wm_db m) j)"
    by (simp add: m'(1) archive_workspace_tx_def workspaces_archive_def workareas_get_archive_all [symmetric])
      (simp add: workareas_get_def workareas_get_archive_all [unfolded workareas_get_def])
  moreover have "map_option ws_archived_at (workspaces_get (wm_db m') wsid) = Some (Some now)"
    using ws by (auto simp: m'(1) archive_workspace_tx_def workspaces_archive_def workspaces_get_def map_of_sql_update w s)
  ultimately show ?thesis
    using in_list_non_archived [OF assms(2), of j wsid] s m'(2) by (cases "workareas_get (wm_db m) j") auto
qed

lemma adopt_one_get:
  assumes "workareas_get (wm_db m) j = Some w" and "wa_status w = as_sql s" and "adopt_one i (n, m) = (n', m')"
  shows "workareas_get (wm_db m') j = Some (if j = i then w\<lparr>wa_status := as_sql (fsm_step s AdoptCrashed)\<rparr> else w)"
proof (cases "j = i")
  case True
  with transition_workarea_cases [of "\<lparr>st_db = wm_db m, st_broadcast = []\<rparr>" j w s AdoptCrashed] assms show ?thesis
    by (auto simp: adopt_one_def fsm_step_def workareas_get_update_status split: sum.splits)
next
  case False
  have "workareas_get (st_db (snd (transition_workarea i AdoptCrashed \<lparr>st_db = wm_db m, st_broadcast = []\<rparr>))) j = Some w"
    using False assms(1)
    by (auto simp: transition_workarea_def Let_def workareas_get_update_status split: option.splits sum.splits error.splits)
  with False assms(3) show ?thesis by (auto simp: adopt_one_def split: prod.splits)
qed

lemma adopt_twice: "fsm_step (fsm_step s AdoptCrashed) AdoptCrashed = fsm_step s AdoptCrashed"
  by (cases s) (simp_all add: fsm_step_def transition_def)

lemma adopt_all_get:
  assumes "workareas_get (wm_db m) j = Some w" and "wa_status w = as_sql s"
  shows "workareas_get (wm_db (snd (fold adopt_one wids (n, m)))) j =
    Some (if j \<in> set wids then w\<lparr>wa_status := as_sql (fsm_step s AdoptCrashed)\<rparr> else w)"
  using assms
proof (induction wids arbitrary: n m w s)
  case (Cons i wids)
  obtain n1 m1 where a: "adopt_one i (n, m) = (n1, m1)" by fastforce
  note g = adopt_one_get [OF Cons.prems a]
  show ?case
  proof (cases "j = i")
    case True
    from Cons.IH [of m1 "w\<lparr>wa_status := as_sql (fsm_step s AdoptCrashed)\<rparr>" "fsm_step s AdoptCrashed" n1] g True
    show ?thesis by (simp add: a adopt_twice)
  next
    case False
    with Cons.IH [of m1 w s n1] g Cons.prems(2) show ?thesis by (simp add: a)
  qed
qed simp

text \<open>After the sweep at start-up a workarea whose root is known to be gone is crashed, unless it is
  archived, the system workarea, or in the state created; a workarea whose root is there or could not
  be probed keeps its row.\<close>

theorem sweep_marks_missing:
  assumes "distinct (map fst (db_workareas (wm_db m)))" and "workareas_get (wm_db m) j = Some w"
    and "wa_status w = as_sql s" and "(wa_archived_at w \<noteq> None) = (s = Archived)"
  shows "workareas_get (wm_db (snd (adopt_crashed_workareas probe m))) j =
    Some (if probe (wa_worktree_root w) = Some False \<and> s \<notin> {Archived, Created} \<and> j \<noteq> MAESTRO_SYSTEM_WORKAREA_ID
          then w\<lparr>wa_status := ''crashed''\<rparr> else w)"
proof -
  have "j \<in> set (list_missing_worktree_workareas probe (wm_db m)) \<longleftrightarrow>
      probe (wa_worktree_root w) = Some False \<and> wa_archived_at w = None \<and> wa_status w \<noteq> ''crashed'' \<and> j \<noteq> MAESTRO_SYSTEM_WORKAREA_ID"
  proof -
    have "(j, x) \<in> set (db_workareas (wm_db m)) \<longleftrightarrow> x = w" for x
      using assms(1,2) by (metis map_of_eq_Some_iff option.inject workareas_get_def)
    then show ?thesis
      by (auto simp: list_missing_worktree_workareas_def list_all_non_archived_def image_iff Bex_def)
  qed
  with adopt_all_get [OF assms(2,3)] assms(3,4) show ?thesis
    by (cases s) (auto simp: adopt_crashed_workareas_def fsm_step_def transition_def)
qed

text \<open>A statement of the transaction that fails after the insert leaves no row, but every worktree the
  creation has built stays on disk under its root.\<close>

theorem failed_transaction_leaves_worktrees:
  assumes "git_contract h" and "\<forall>(rid, row) \<in> set repos. CHR ''/'' \<notin> set (r_name row)"
    and "build_turn h rq slug repos 1 composer m = (Committing 1 composer b, m1)"
    and "composer \<notin> set (list_composer_names_in_workspace (wm_db m) (rq_workspace rq))"
    and "ho_insert_error h = None" and "ho_tx_error h = Some e"
  shows "\<exists>m2. commit_turn h rq slug 1 composer b m1 = (Returned (Inl e), m2) \<and> wm_db m2 = wm_db m
    \<and> bd_ok b \<noteq> [] \<and> (\<forall>(rid, row) \<in> set (bd_ok b).
         path_exists (wm_disk m2) (join_path (worktree_root_of rq slug composer) (r_name row)))"
proof -
  from build_turn_cases [OF assms(1-3)] have o: "wm_db m1 = wm_db m"
    "materialized (worktree_root_of rq slug composer) b (wm_disk m1)" "bd_ok b \<noteq> []" by auto
  have "commit_turn h rq slug 1 composer b m1 = (Returned (Inl e), m1)"
    using insert_free [OF assms(4), of slug] by (simp add: commit_turn_def Let_def assms(5,6) o(1))
  with o show ?thesis by (auto simp: materialized_def)
qed

section \<open>Examples\<close>

text \<open>A host whose git keeps the directories and tips of the contract, and a workspace with one repository.\<close>

definition sample_host :: worktree_host where
  "sample_host =
     \<lparr>ho_is_clone = (\<lambda>_. True), ho_clone = (\<lambda>_. None), ho_rules_error = None, ho_context = (\<lambda>_. None),
      ho_worktree_add = (\<lambda>repo branch dest d. if path_exists d dest then (Some (Git ''already exists''), d)
        else (None, d\<lparr>dk_dirs := dest # dk_dirs d, dk_tip := (dk_tip d)(repo := (dk_tip d repo)(branch := dk_head d repo))\<rparr>)),
      ho_worktree_remove = (\<lambda>repo dest d. (None, remove_dir_all dest d)),
      ho_exclude = (\<lambda>_. None), ho_copy = (\<lambda>_ _. Inr []), ho_insert_error = None, ho_tx_error = None\<rparr>"

lemma sample_git: "git_contract sample_host"
proof -
  have "same_outside dest d (d\<lparr>dk_dirs := dest # dk_dirs d, dk_tip := t\<rparr>)" for dest d t
    by (auto simp: same_outside_def path_exists_iff)
  moreover have "path_exists (d\<lparr>dk_dirs := dest # dk_dirs d, dk_tip := t\<rparr>) dest" for dest d t
    by (simp add: path_exists_iff)
  ultimately show ?thesis by (simp add: git_contract_def sample_host_def)
qed

lemma sample_resets: "resets_branch sample_host"
  by (auto simp: resets_branch_def sample_host_def split: if_splits)

definition sample_request :: create_request where
  "sample_request = \<lparr>rq_id = ''w'', rq_workspace = ''p'', rq_mode = Some ''yolo'', rq_now = 1, rq_data_dir = ''/d''\<rparr>"

definition sample_repo :: repository_row where
  "sample_repo = \<lparr>r_url = ''u'', r_local_path = ''/src/app'', r_name = ''app'', r_action_prefs_json = ''{}''\<rparr>"

definition sample_manager :: manager where
  "sample_manager =
     \<lparr>wm_db = \<lparr>db_sessions = [], db_workareas = [],
        db_workspaces = [(''p'', \<lparr>ws_permission_mode = None, ws_bypass = None, ws_settings_json = ''{}'', ws_slug = ''p'',
          ws_archived_at = None\<rparr>)],
        db_repositories = [(''r'', sample_repo)], db_workarea_repos = [], db_workspace_repos = [(''p'', 0, ''r'', ''[]'')]\<rparr>,
      wm_disk = \<lparr>dk_dirs = [], dk_tip = (\<lambda>_ _. None), dk_head = (\<lambda>_. Some ''c0'')\<rparr>, wm_events = []\<rparr>"

lemma sample_names: "\<forall>(rid, r) \<in> set (db_repositories (wm_db sample_manager)). CHR ''/'' \<notin> set (r_name r)"
  by (simp add: sample_manager_def sample_repo_def)

lemma sample_admit: "admit_create sample_host sample_request (wm_db sample_manager) = Inr (''p'', [(''r'', sample_repo)])"
  by (simp add: admit_create_def sample_host_def sample_request_def sample_manager_def sample_repo_def
      validate_permission_mode_def workspaces_get_def list_repos_def sort_by_key_def repositories_get_def)

lemma sample_pick: "pick_turn sample_request 0 sample_manager = Building 1 ''bach''"
  by (simp add: pick_turn_def MAX_COMPOSER_ATTEMPTS_def allocate_composer_def allocate_from_def COMPOSERS_def
      list_composer_names_in_workspace_def sample_manager_def)

definition sample_build :: build where
  "sample_build = \<lparr>bd_ok = [(''r'', sample_repo)], bd_built = [(''/src/app'', ''/d/workspaces/p/bach/app'')],
     bd_failed = [], bd_first_err = None, bd_warnings = []\<rparr>"

definition sample_built :: manager where
  "sample_built = sample_manager\<lparr>wm_disk := \<lparr>dk_dirs = [''/d/workspaces/p/bach/app'', ''/d/workspaces/p/bach''],
     dk_tip = (\<lambda>_ _. None)(''/src/app'' := (\<lambda>_. None)(''concerto/bach'' := Some ''c0'')), dk_head = (\<lambda>_. Some ''c0'')\<rparr>\<rparr>"

lemma sample_build_turn:
  "build_turn sample_host sample_request ''p'' [(''r'', sample_repo)] 1 ''bach'' sample_manager =
     (Committing 1 ''bach'' sample_build, sample_built)"
  by (simp add: build_turn_def build_one_def sample_host_def sample_request_def sample_manager_def sample_repo_def
      sample_build_def sample_built_def worktree_root_of_def join_path_def create_dir_all_def path_exists_def Let_def
      empty_build_def record_success_def branch_of_def)

definition sample_row :: workarea_row where
  "sample_row = (new_workarea_row sample_request ''p'' ''bach'')\<lparr>wa_status := ''active'', wa_settings_json := APPLIED_SETTINGS\<rparr>"

lemma sample_commit_turn:
  "\<exists>m. commit_turn sample_host sample_request ''p'' 1 ''bach'' sample_build sample_built = (Returned (Inr sample_row), m)"
  by (simp add: commit_turn_def Let_def sample_host_def sample_build_def sample_built_def sample_manager_def
      workareas_insert_def sample_row_def)

lemma sample_create: "\<exists>m. create_workarea sample_host sample_request sample_manager = (Returned (Inr sample_row), m)"
proof -
  obtain m where c: "commit_turn sample_host sample_request ''p'' 1 ''bach'' sample_build sample_built =
    (Returned (Inr sample_row), m)" using sample_commit_turn by blast
  have "run_creator 301 sample_host sample_request ''p'' [(''r'', sample_repo)] (Picking 0) sample_manager =
      (Returned (Inr sample_row), m)"
    using run_turn [of "Picking 0" 300] run_turn [of "Building 1 ''bach''" 299] sample_pick sample_build_turn c
    by (simp add: run_committing)
  then show ?thesis by (simp add: create_workarea_def sample_admit MAX_COMPOSER_ATTEMPTS_def)
qed


theorem create_returns_witness:
  "\<exists>r. turns_among sample_host sample_request ''p'' [(''r'', sample_repo)] (Picking 0) (replicate 301 sample_built) = Returned r"
  by (rule create_returns) simp

theorem created_yolo_unacknowledged_witness:
  "\<exists>m. map_option wa_permission_mode (workareas_get (wm_db (snd (create_workarea sample_host sample_request m))) ''w'') =
     Some (Some ''yolo'') \<and> admit_mode (Inr default_policy) ''yolo'' [] = Inl (ack_required_mode Yolo)"
proof -
  obtain m where c: "create_workarea sample_host sample_request sample_manager = (Returned (Inr sample_row), m)"
    using sample_create by blast
  from created_yolo_unacknowledged [OF sample_git sample_names _ c, of "Inr default_policy"] c show ?thesis
    by (intro exI [of _ sample_manager]) (simp add: sample_manager_def sample_request_def)
qed

theorem concurrent_create_destroys_worktree_witness:
  "\<exists>m2 e m3. commit_turn sample_host sample_request ''p'' 1 ''bach'' sample_build sample_built = (Returned (Inr sample_row), m2)
     \<and> build_turn sample_host (sample_request\<lparr>rq_id := ''v''\<rparr>) ''p'' [(''r'', sample_repo)] 1 ''bach'' m2 = (Returned (Inl e), m3)
     \<and> workareas_get (wm_db m3) ''w'' = Some sample_row \<and> \<not> path_exists (wm_disk m3) ''/d/workspaces/p/bach/app''"
proof -
  obtain m2 where c: "commit_turn sample_host sample_request ''p'' 1 ''bach'' sample_build sample_built =
    (Returned (Inr sample_row), m2)" using sample_commit_turn by blast
  have ns: "\<forall>(rid, row) \<in> set [(''r'', sample_repo)]. CHR ''/'' \<notin> set (r_name row)" by (simp add: sample_repo_def)
  have fresh: "map_of (db_workareas (wm_db sample_manager)) (rq_id sample_request) = None" by (simp add: sample_manager_def)
  have nf: "bd_failed sample_build = []" by (simp add: sample_build_def)
  from concurrent_create_destroys_worktree [OF sample_git ns _ fresh sample_pick sample_build_turn nf c,
      of "sample_request\<lparr>rq_id := ''v''\<rparr>"]
  obtain e m3 where "build_turn sample_host (sample_request\<lparr>rq_id := ''v''\<rparr>) ''p'' [(''r'', sample_repo)] 1 ''bach'' m2 =
      (Returned (Inl e), m3)" "workareas_get (wm_db m3) (rq_id sample_request) = Some sample_row"
    "\<forall>p. below (wa_worktree_root sample_row) p \<longrightarrow> \<not> path_exists (wm_disk m3) p" by auto
  moreover have "below (wa_worktree_root sample_row) ''/d/workspaces/p/bach/app''"
    by (simp add: below_def starts_with_str_def sample_row_def new_workarea_row_def worktree_root_of_def join_path_def
        sample_request_def)
  ultimately show ?thesis using c by (auto simp: sample_request_def)
qed

text \<open>The workspace with an archived workarea whose worktree was removed, and one session.\<close>

definition archived_row :: workarea_row where
  "archived_row = sample_row\<lparr>wa_status := ''archived'', wa_archived_at := Some 5, wa_bypass := Some 1\<rparr>"

definition archived_manager :: manager where
  "archived_manager = sample_manager\<lparr>wm_db := (wm_db sample_manager)\<lparr>
     db_workareas := [(''w'', archived_row)], db_workarea_repos := [(''w'', ''r'', ''/d/workspaces/p/bach/app'')],
     db_sessions := [(''s'', \<lparr>s_workarea_id = ''w'', s_status = ''finished'', s_permission_mode = None, s_bypass = 0,
       s_ended_at = Some 4, s_last_acked_seq = 0\<rparr>)]\<rparr>\<rparr>"

lemma sample_restore: "\<exists>wa m. restore_workarea sample_host ''w'' archived_manager = (Inr wa, m)"
  by (simp add: restore_workarea_def archived_manager_def sample_manager_def workareas_get_def recreate_worktrees_def
      worktrees_of_def List.map_filter_simps repositories_get_def sample_host_def path_exists_def create_dir_all_def
      archived_row_def sample_row_def new_workarea_row_def worktree_root_of_def join_path_def sample_request_def
      workareas_restore_def map_of_sql_update sample_repo_def Let_def)

theorem restore_keeps_bypass_witness:
  "\<exists>wa m. restore_workarea sample_host ''w'' archived_manager = (Inr wa, m) \<and> wa_permission_mode wa = None \<and>
     bypass_for_session (wm_db m) ''s''"
proof -
  obtain wa m where r: "restore_workarea sample_host ''w'' archived_manager = (Inr wa, m)" using sample_restore by blast
  from restore_keeps_bypass [OF r, of archived_row "''s''"] r show ?thesis
    by (simp add: archived_manager_def sample_manager_def workareas_get_def sessions_get_def workspaces_get_def
        archived_row_def sample_row_def new_workarea_row_def sample_request_def)
qed

theorem restore_resets_branch_witness:
  "\<exists>wa m. restore_workarea sample_host ''w'' archived_manager = (Inr wa, m) \<and>
     dk_tip (wm_disk m) ''/src/app'' (wa_branch_name wa) = Some ''c0''"
proof -
  obtain wa m where r: "restore_workarea sample_host ''w'' archived_manager = (Inr wa, m)" using sample_restore by blast
  have root: "wa_worktree_root wa = ''/d/workspaces/p/bach''"
    using restore_workarea_Inr [OF r]
    by (auto simp: archived_manager_def workareas_get_def archived_row_def sample_row_def new_workarea_row_def
        worktree_root_of_def join_path_def sample_request_def)
  have w: "worktrees_of (wm_db archived_manager) ''w'' = (''/d/workspaces/p/bach/app'', ''/src/app'') # []"
    by (simp add: worktrees_of_def archived_manager_def sample_manager_def repositories_get_def List.map_filter_simps
        sample_repo_def)
  from restore_resets_branch [OF sample_git sample_resets r w] r show ?thesis
    by (simp add: root archived_manager_def sample_manager_def path_exists_def)
qed

definition live_manager :: manager where
  "live_manager = archived_manager\<lparr>wm_db := (wm_db archived_manager)\<lparr>db_workareas := [(''w'', sample_row)]\<rparr>\<rparr>"

theorem workspace_archive_cascades_witness:
  "\<exists>m. archive_workspace (\<lambda>_ db. db) ''p'' 9 live_manager = (Inr (), m) \<and>
     map_option wa_archived_at (workareas_get (wm_db m) ''w'') = Some (Some 9)"
proof -
  obtain m where a: "archive_workspace (\<lambda>_ db. db) ''p'' 9 live_manager = (Inr (), m)"
    by (simp add: archive_workspace_def live_manager_def archived_manager_def sample_manager_def workspaces_get_def Let_def)
  have "stops_only_sessions (\<lambda>_ db. db)" by (simp add: stops_only_sessions_def)
  from workspace_archive_cascades [OF this _ a, of "''w''"] a show ?thesis
    by (simp add: live_manager_def workareas_get_def sample_row_def new_workarea_row_def sample_request_def)
qed

theorem sweep_marks_missing_witness:
  "map_option wa_status (workareas_get (wm_db (snd (adopt_crashed_workareas (\<lambda>_. Some False) live_manager))) ''w'') =
     Some ''crashed''"
  using sweep_marks_missing [of live_manager "''w''" sample_row Active "\<lambda>_. Some False"]
  by (simp add: live_manager_def workareas_get_def sample_row_def new_workarea_row_def MAESTRO_SYSTEM_WORKAREA_ID_def)

theorem failed_transaction_leaves_worktrees_witness:
  "\<exists>m. commit_turn (sample_host\<lparr>ho_tx_error := Some (Sqlx ''busy'')\<rparr>) sample_request ''p'' 1 ''bach'' sample_build sample_built =
       (Returned (Inl (Sqlx ''busy'')), m) \<and> path_exists (wm_disk m) ''/d/workspaces/p/bach/app''"
proof -
  let ?h = "sample_host\<lparr>ho_tx_error := Some (Sqlx ''busy'')\<rparr>"
  have g: "git_contract ?h" using sample_git by (simp add: git_contract_def)
  have t: "build_turn ?h sample_request ''p'' [(''r'', sample_repo)] 1 ''bach'' sample_manager =
      (Committing 1 ''bach'' sample_build, sample_built)"
    by (simp add: build_turn_def build_one_def sample_host_def sample_request_def sample_manager_def sample_repo_def
        sample_build_def sample_built_def worktree_root_of_def join_path_def create_dir_all_def path_exists_def Let_def
        empty_build_def record_success_def branch_of_def)
  from failed_transaction_leaves_worktrees [OF g _ t, of "Sqlx ''busy''"] show ?thesis
    by (auto simp: sample_build_def sample_repo_def sample_host_def sample_manager_def list_composer_names_in_workspace_def
        worktree_root_of_def join_path_def sample_request_def)
qed

end
