(* ===== verification/Spec2Isabelle.thy ===== *)
theory Spec2Isabelle
  imports Notifications Suggestions Routing Checkpoints SessionLife MergeSet EffectiveMode WorkareaFsm HostConnection StreamBuffer Supervisor PairingTokens
    Destructive WaitChecks RateLimit Webhook DeviceAuth Settings WorkareaLifecycle
begin

text \<open>
  A verification library of the Concerto Core, its agent host and the libraries they share. Concerto
  runs coding agents (command line programs) in workareas (a branch with one git worktree for each
  repository of a workspace), gates the tool calls they ask for, keeps their output across crashes
  of the Core, follows their pull requests, and streams what happens to its clients.

  \<^bold>\<open>The parts and their theories.\<close>

    \<^item> \<open>Prelude\<close>: the error type of \<open>crates/error\<close>, results as sums, strings, and four contracts as
      locales: \<open>guarded_machine\<close> and \<open>event_machine\<close> (the steps, or those with a given property, keep an
      invariant), \<open>bounded_log\<close> (a log keeps the newest entries) and \<open>claim_once\<close> (a table whose entry
      can be taken out once). \<open>Json\<close>: values of \<open>serde_json\<close>. \<open>Tables\<close>: rows and statements of
      \<open>crates/persist\<close>.

    \<^item> Policy. \<open>Permission\<close>: modes, tool classes and the resolver (\<open>security/permission.rs\<close>,
      \<open>tool_classes.rs\<close>). \<open>Managed\<close>: the loader of \<open>managed.json\<close> (\<open>security/managed.rs\<close>).
      \<open>EffectiveMode\<close>: the chain session, workarea, workspace, settings, capped by the managed
      policy, its second copy and the bypass lookup in \<open>agent_supervisor/actor.rs\<close>, and the RPCs that
      write a level. \<open>Settings\<close>: the layers of a workspace's settings, the readers of their files and
      rows, the resolver and what boot audits with it (\<open>settings/*.rs\<close>, \<open>boot.rs\<close>). \<open>PathPolicy\<close>: allow
      and deny lists and the path a tool call names (\<open>security/path_policy.rs\<close>,
      \<open>agent_supervisor/tool_args.rs\<close>). \<open>Destructive\<close>: the table of destructive commands
      (\<open>security/destructive.rs\<close>).

    \<^item> The gate. \<open>Approval\<close>: the dispatch of an approval request, its rows, pending entries, waiter and
      replay buffer (\<open>agent_supervisor/approval.rs\<close>, \<open>actor.rs\<close>, \<open>persist/src/tool_approvals.rs\<close>).
      \<open>EditMutex\<close>: the lock a write holds (\<open>workspace_manager/edit_mutex.rs\<close>).

    \<^item> Workareas. \<open>WorkareaFsm\<close>: the status of a workarea and the session events that move it
      (\<open>workspace_manager/fsm.rs\<close>, \<open>workarea.rs\<close>). \<open>Composers\<close>: the pool of names and the allocation of a
      free one (\<open>composers.rs\<close>). \<open>WorkareaLifecycle\<close>: creation with its concurrent interleavings, archive,
      restore, the sweep at start-up, and the cascade of a workspace's archive (\<open>workarea.rs\<close>,
      \<open>archive.rs\<close>, \<open>workspace_manager/actor.rs\<close>).

    \<^item> Pull requests and checks. \<open>WebhookWire\<close>: the HTTP request at the relay, the frame to the Core and
      the answer (\<open>relay/src/webhook.rs\<close>, \<open>transport/src/webhook.rs\<close>). \<open>Webhook\<close>: deduplication,
      signature, event and invalidation (\<open>vcs/src/webhook.rs\<close>, \<open>vcs/src/actor.rs\<close>). \<open>Checks\<close>: the caches of
      threads, check runs and deployments (\<open>vcs/src/checks.rs\<close>). \<open>WaitChecks\<close>: the wait for the checks
      of a merge (\<open>scheduler/wait_checks.rs\<close>). \<open>RateLimit\<close>: the pools of request budgets
      (\<open>vcs/src/rate_limit.rs\<close>, \<open>dispatch.rs\<close>).
      \<open>PullRequests\<close>: the table of pull requests and the merge plan (\<open>persist/src/pull_requests.rs\<close>,
      \<open>vcs/src/actor.rs\<close>). \<open>MergeSet\<close>: the coordinated merge, its pauses, the write-back to the tracker and
      the coordinated revert (\<open>workspace_manager/workarea.rs\<close>).
    \<^item> Output. \<open>HostRing\<close>: the ring of recorded chunks (\<open>agent-host/src/ring.rs\<close>). \<open>HostConnection\<close>: the
      protocol of one Core connection over it (\<open>agent-host/src/main.rs\<close>). \<open>Subjects\<close> and
      \<open>StreamBuffer\<close>: the subjects clients subscribe to, their buffers, replay, acknowledgement and
      pump (\<open>handlers/streams.rs\<close>).

    \<^item> Processes and devices. \<open>Supervisor\<close>: restarts and backoff of the Core's actors
      (\<open>supervisor.rs\<close>). \<open>PairingTokens\<close>: pairing tokens and the enrolment of a device
      (\<open>security/pairing.rs\<close>). \<open>DeviceAuth\<close>: certificates, revocation and the request interceptor
      (\<open>identity/src/issuer.rs\<close>, \<open>security/devices.rs\<close>, \<open>security/auth.rs\<close>).
      \<open>Status\<close>: errors as gRPC answers (\<open>error_map.rs\<close>). \<open>Notifications\<close>: the inbox, its preferences,
      de-duplication, wakeups and chips (\<open>notifications/*.rs\<close>, \<open>persist/src/notifications.rs\<close>).
      \<open>Scheduler\<close>: schedules, the wheel, the fire loop and the watcher of a run, as steps that interleave
      (\<open>scheduler/actor.rs\<close>, \<open>fire_loop.rs\<close>, \<open>persist/src/schedules.rs\<close>, \<open>schedule_runs.rs\<close>).
      \<open>Suggestions\<close>: the engine that turns session events into chips (\<open>suggestions/*.rs\<close>). \<open>Routing\<close>: targets
      of a line to the Maestro and the sessions they lead to (\<open>maestro/routing.rs\<close>).

    \<^item> Life of a session. \<open>SessionLife\<close>: start, cold resume, read pump, stop and delete, and the sweep that
      adopts the hosts which outlived a Core, as steps that interleave (\<open>agent_supervisor/actor.rs\<close>, \<open>adopt.rs\<close>,
      \<open>cold_resume.rs\<close>); connections, process ids and clocks are arguments of the steps.

    \<^item> History. \<open>Chats\<close>: chat messages and their daily summaries (\<open>persist/src/chat_messages.rs\<close>,
      \<open>maestro/condense.rs\<close>). \<open>Checkpoints\<close>: the snapshot of every worktree at the end of a turn and the way
      back (\<open>agent_supervisor/checkpoint.rs\<close>, \<open>gix-wrap/src/api.rs\<close>, \<open>persist/src/checkpoints.rs\<close>); the git
      commands are arguments, \<open>git_documented\<close> is what git promises of them.
  \<^bold>\<open>How the code is read.\<close> A struct is a record, an enum a datatype. An operation returns its outcome
  and the new state; an error is \<open>Inl\<close> of \<open>error\<close>. Byte strings are lists of \<open>8 word\<close>; texts are
  \<open>string\<close>, one \<open>char\<close> a byte. Counters of 64 bits (sequence numbers, offsets, millisecond clocks) are
  \<open>nat\<close>: they start at 0 or 1 and grow by one per event, so they do not wrap within any run of the
  program; where the code saturates, the model's subtraction on \<open>nat\<close> saturates at 0 as well. Code
  that awaits is cut into steps at its awaits and lock acquisitions, and the properties quantify over
  all sequences of steps: \<open>edit_step\<close> is a relation between registries, \<open>host_step\<close>, \<open>hub_step\<close>,
  \<open>wrapper_step\<close>, \<open>token_step\<close>, \<open>buffer_step\<close>, \<open>auth_step\<close>, \<open>agg_step\<close> and the turns of a creation are
  functions of an event. The database answers every statement except where an operation branches on
  a failed one: then the outcome is an argument.

  \<^bold>\<open>What is an argument.\<close> The parsers and printers of JSON and TOML, the file system (\<open>fs_env\<close>), the
  primitives of hashing, signatures, certificates and the HMAC (\<open>crypto\<close>, \<open>primitives\<close> with what is
  documented of them as \<open>lawful\<close>), the engine of the \<open>regex\<close> crate (contract \<open>regex_engine\<close>, discharged
  on an executable matcher), git and the clone (\<open>worktree_host\<close>, with \<open>git_contract\<close> and
  \<open>resets_branch\<close> for what git documents), the version-control provider and the keychain, the parser
  pack's bytes, the clock and fresh ids.

  \<^bold>\<open>What the properties say.\<close> The managed policy binds the resolved mode and the RPCs
  (C1, C10);
  a setting is the one of its highest layer
  (C36). The floors of the gate hold (C2, C3,
  C20), approvals are resolved and recorded once (C18,
  C19), a write is under the lock of its workarea
  (C4). Recorded output reaches the Core
  (C5), subscribers are replayed or told
  (C7, C8, C25). The stored status of a workarea refines the state machine
  (C9) and a created workarea is complete (C14). Tokens are single-use and required (C6, C11), a revoked
  device stays out (C12). A delivery reaches the sink as it was sent and drops caches only
  when signed, at most once (C27, C13,
  C21); the wait for checks is sound and returns (C23, C28).
  Restarts follow the full crash history
  (C17).
  A coordinated merge follows its plan behind green checks (C15). The inbox is always filled
  and devices are woken exactly where they want to be (C32, C30), one tap
  on a notification takes effect (C31). A schedule has one run in flight and stays armed
  (C33, C34). Suggestions do not repeat (C16). A line to
  the Maestro is parsed as it was written and reaches live sessions only (C26,
  C37). A session's row says running exactly while the supervisor has it
  (C22) and no output is acknowledged before it was read (C35). A checkpoint gives its files back (C24).  The others state what the code does where it departs from what its
  comments promise (C38, C39,
  C40).

  \<^bold>\<open>Bounds.\<close> No fuel is used. The loops are structural; the eviction of pairing tokens terminates
  because every round removes a token; the wait for checks is a partial function, shown to return
  when its wakes have an end. \<open>RING_BUFFER_BYTES\<close>, \<open>RING_EVENT_CAP\<close>, \<open>MAX_REPLAY_EVENTS\<close> and the other
  limits have the values of the code; the invariants hold for any capacity.

  \<^bold>\<open>What is not modelled.\<close> The command line of the agent host's process and the search for its binary,
  renames of workareas, the repository manager, the remaining VCS
  operations, the Maestro's session and tools, skills, transports, boot, the command
  line and the clients. Log lines and tracing are left out everywhere.
\<close>

section \<open>From the policy file to the gate\<close>

text \<open>The gate of a session as the supervisor builds it: its mode, and the flag of the bypass lookup.\<close>

definition session_gate :: "database \<Rightarrow> string \<Rightarrow> permission_mode \<Rightarrow> gate_env \<Rightarrow> gate_env" where
  "session_gate db sid mode env = env\<lparr>ge_session := sid, ge_resolver := new_resolver mode (bypass_for_session db sid)\<rparr>"

text \<open>the managed ban on the guard bypass does not reach the approval gate. Where a session, its
  workarea or its workspace turned the bypass on and the policy file forbids it, the resolver reports
  the bypass as off; the gate built for the same session still approves, without asking, a call
  that the destructive guard matched.\<close>

theorem managed_bypass_ban_not_enforced:
  assumes "resolve_effective_mode from_str (Inr p) db sid = Inr em"
    and "mode_row_of db sid = Some row"
    and "mr_session_bypass row \<noteq> 0 \<or> bypass_below_session (mr_workarea_bypass row) (mr_workspace_bypass row)"
    and "\<not> mp_allow_bypass_destructive_guard p"
    and "policy_verdict_of env tool payload \<noteq> DeniedPolicy"
    and "ge_destructive env tool payload = Some l"
  shows "\<not> em_bypass_destructive_guard em
     \<and> gate_decision (session_gate db sid (em_mode em) env) tool payload = (AutoApprove, False, Some l)"
proof -
  have "bypass_for_session db sid"
    using assms(2,3) by (auto simp: bypass_for_session_def bypass_below_session_def split: option.splits)
  moreover have "policy_verdict_of (session_gate db sid (em_mode em) env) tool payload \<noteq> DeniedPolicy"
    using assms(5) by (cases "ge_policy env") (auto simp: policy_verdict_of_def session_gate_def)
  moreover have "\<not> em_bypass_destructive_guard em"
    using assms(1,4) by (elim resolve_Inr_cases) (simp add: apply_managed_bypass)
  ultimately show ?thesis
    using assms(6) by (simp add: gate_decision_not_denied session_gate_def new_resolver_def)
qed

theorem managed_bypass_ban_not_enforced_witness:
  "gate_decision (session_gate sample_db ''s1'' Yolo (sample_env\<lparr>ge_destructive := \<lambda>_ _. Some ''force-push''\<rparr>))
     ''Bash'' JNull = (AutoApprove, False, Some ''force-push'')"
proof -
  have r: "resolve_effective_mode (\<lambda>_. None) (Inr (default_policy\<lparr>mp_allow_bypass_destructive_guard := False\<rparr>))
       sample_db ''s1'' = Inr \<lparr>em_mode = Yolo, em_bypass_destructive_guard = False, em_source = SrcWorkspace\<rparr>"
    by (simp add: resolve_effective_mode_def mode_row_of_def sample_db_def chain_below_session_def
      parse_permission_mode_def apply_managed_def bypass_below_session_def default_policy_def)
  have v: "policy_verdict_of (sample_env\<lparr>ge_destructive := \<lambda>_ _. Some ''force-push''\<rparr>) ''Bash'' JNull \<noteq> DeniedPolicy"
    by (simp add: policy_verdict_of_def sample_env_def policy_override_def extract_path_def extract_path_from_command_def)
  from managed_bypass_ban_not_enforced [OF r _ _ _ v] show ?thesis
    by (simp add: mode_row_of_def sample_db_def bypass_below_session_def)
qed
end
